(* ===== verification/Prelude.thy ===== *)
theory Prelude
  imports Complex_Main "HOL-Library.AList"
begin

text \<open>
  What the components share: Python's insertion-ordered dictionaries as association lists,
  the string operations the code uses (prefix tests, decimal parsing and printing), and two
  interface contracts that several components implement: a table of live objects keyed by an
  identifier (\<open>session_table\<close>) and a pool of concurrency slots (\<open>slot_pool\<close>).

  Times are values of type \<open>real\<close> (the code's \<open>time.monotonic()\<close> floats, without rounding).
  Strings are ASCII character lists; \<open>bytes\<close> read from Redis and their decoded form coincide.
\<close>

named_theorems od_simps "lookup, insertion and removal in insertion-ordered dictionaries"

section \<open>Insertion-ordered dictionaries\<close>

text \<open>
  A Python \<open>dict\<close> or \<open>OrderedDict\<close> iterates in insertion order, and assigning to an existing
  key keeps its position. \<open>AList.update\<close> and \<open>AList.delete\<close> of the library do exactly this.
\<close>

type_synonym ('k, 'v) odict = "('k \<times> 'v) list"

definition od_wf :: "('k, 'v) odict \<Rightarrow> bool" where
  "od_wf d \<longleftrightarrow> distinct (map fst d)"

definition od_get :: "('k, 'v) odict \<Rightarrow> 'k \<Rightarrow> 'v option" where
  "od_get d k = map_of d k"

definition od_set :: "'k \<Rightarrow> 'v \<Rightarrow> ('k, 'v) odict \<Rightarrow> ('k, 'v) odict" where
  "od_set k v d = AList.update k v d"

definition od_del :: "'k \<Rightarrow> ('k, 'v) odict \<Rightarrow> ('k, 'v) odict" where
  "od_del k d = AList.delete k d"

definition od_has :: "('k, 'v) odict \<Rightarrow> 'k \<Rightarrow> bool" where
  "od_has d k \<longleftrightarrow> od_get d k \<noteq> None"

text \<open>\<open>OrderedDict.move_to_end\<close>, called by the code only on keys that are present.\<close>

definition od_move_to_end :: "'k \<Rightarrow> ('k, 'v) odict \<Rightarrow> ('k, 'v) odict" where
  "od_move_to_end k d = (case od_get d k of None \<Rightarrow> d | Some v \<Rightarrow> od_del k d @ [(k, v)])"

lemma od_get_empty [simp, od_simps]: "od_get [] k = None"
  by (simp add: od_get_def)

lemma od_get_set [simp, od_simps]: "od_get (od_set k v d) k' = (if k' = k then Some v else od_get d k')"
  by (simp add: od_get_def od_set_def update_conv')

lemma od_get_del [simp, od_simps]: "od_get (od_del k d) k' = (if k' = k then None else od_get d k')"
  by (simp add: od_get_def od_del_def delete_conv')

lemma od_get_append: "od_get (d @ e) k = (case od_get d k of None \<Rightarrow> od_get e k | Some v \<Rightarrow> Some v)"
  by (simp add: od_get_def map_add_def split: option.splits)

lemma od_get_move_to_end [simp, od_simps]: "od_get (od_move_to_end k d) k' = od_get d k'"
  by (auto simp: od_move_to_end_def od_get_append split: option.splits) (simp_all add: od_get_def)

lemma od_get_Cons: "od_get ((k, v) # d) k' = (if k' = k then Some v else od_get d k')"
  by (simp add: od_get_def)

lemma od_wf_empty [simp]: "od_wf []"
  by (simp add: od_wf_def)

lemma od_wf_set [simp]: "od_wf d \<Longrightarrow> od_wf (od_set k v d)"
  by (simp add: od_wf_def od_set_def distinct_update)

lemma od_wf_del [simp]: "od_wf d \<Longrightarrow> od_wf (od_del k d)"
  by (simp add: od_wf_def od_del_def distinct_delete)

lemma od_keys_del: "fst ` set (od_del k d) = fst ` set d - {k}"
  by (auto simp: od_del_def AList.delete_eq)

lemma od_wf_move_to_end [simp]: "od_wf d \<Longrightarrow> od_wf (od_move_to_end k d)"
  using od_keys_del [of k d]
  by (auto simp: od_move_to_end_def od_wf_def split: option.splits)
    (simp_all add: od_del_def distinct_delete)

lemma od_wf_tl [simp]: "od_wf d \<Longrightarrow> od_wf (tl d)"
  by (cases d) (simp_all add: od_wf_def)

lemma od_wf_filter [simp]: "od_wf d \<Longrightarrow> od_wf (filter P d)"
  by (induction d) (auto simp: od_wf_def)

lemma od_get_Some_iff: "od_wf d \<Longrightarrow> od_get d k = Some v \<longleftrightarrow> (k, v) \<in> set d"
  by (simp add: od_get_def od_wf_def map_of_eq_Some_iff)

lemma od_get_None_iff: "od_get d k = None \<longleftrightarrow> k \<notin> fst ` set d"
  by (simp add: od_get_def map_of_eq_None_iff)

lemma od_emptyI: "(\<And>k. od_get d k = None) \<Longrightarrow> d = []"
proof (rule ccontr)
  assume h: "\<And>k. od_get d k = None" and "d \<noteq> []"
  then obtain k v e where "d = (k, v) # e" by (cases d) auto
  with h [of k] show False by (simp add: od_get_Cons)
qed

lemma od_del_filter: "od_del k d = filter (\<lambda>p. fst p \<noteq> k) d"
  by (auto simp: od_del_def AList.delete_eq intro: filter_cong)

lemma od_get_filter:
  "od_wf d \<Longrightarrow> od_get (filter P d) k =
     (case od_get d k of None \<Rightarrow> None | Some v \<Rightarrow> if P (k, v) then Some v else None)"
proof (induction d)
  case Nil
  show ?case by simp
next
  case (Cons p d)
  obtain a b where p: "p = (a, b)" by (cases p)
  from Cons.prems have wf: "od_wf d" and new: "od_get d a = None"
    by (auto simp: od_wf_def p od_get_None_iff)
  from Cons.IH [OF wf] new show ?case by (cases "k = a") (auto simp: p od_get_Cons)
qed

lemma od_set_new: "od_get d k = None \<Longrightarrow> od_set k v d = d @ [(k, v)]"
  by (induction d) (auto simp: od_get_def od_set_def split: if_splits)

lemma od_set_keys_old: "od_get d k = Some w \<Longrightarrow> map fst (od_set k v d) = map fst d"
  by (induction d) (auto simp: od_get_def od_set_def split: if_splits)

lemma length_od_set: "length (od_set k v d) = (if od_has d k then length d else Suc (length d))"
proof (cases "od_get d k")
  case None
  then show ?thesis by (simp add: od_has_def od_set_new)
next
  case (Some w)
  then have "length (map fst (od_set k v d)) = length (map fst d)"
    by (simp only: od_set_keys_old [OF Some])
  with Some show ?thesis by (simp add: od_has_def)
qed

lemma od_del_set [simp, od_simps]: "od_del k (od_set k v d) = od_del k d"
  by (simp add: od_del_def od_set_def delete_update_same)

lemma length_od_del_le: "length (od_del k d) \<le> length d"
  by (simp add: od_del_def length_delete_le)

lemma od_del_absent [simp]: "od_get d k = None \<Longrightarrow> od_del k d = d"
  by (simp add: od_get_None_iff od_del_def)

lemma length_od_del: "od_wf d \<Longrightarrow> length (od_del k d) = (if od_has d k then length d - 1 else length d)"
proof (induction d)
  case Nil
  show ?case by (simp add: od_del_def)
next
  case (Cons p d)
  obtain a b where p: "p = (a, b)" by (cases p)
  from Cons.prems have wf: "od_wf d" and new: "od_get d a = None"
    by (auto simp: od_wf_def p od_get_None_iff)
  show ?case
  proof (cases "k = a")
    case True
    with new have "od_del k (p # d) = d"
      by (simp add: od_del_def p od_get_None_iff)
    with True show ?thesis by (simp add: p od_has_def od_get_Cons)
  next
    case False
    then have "od_del k (p # d) = p # od_del k d" by (simp add: od_del_def p)
    moreover have "od_has d k \<Longrightarrow> 0 < length d" by (cases d) (auto simp: od_has_def)
    ultimately show ?thesis
      using False Cons.IH [OF wf] by (auto simp: p od_has_def od_get_Cons)
  qed
qed

lemma length_od_move_to_end: "od_wf d \<Longrightarrow> length (od_move_to_end k d) = length d"
  using length_od_del [of d k]
  by (cases d) (auto simp: od_move_to_end_def od_has_def split: option.splits)

text \<open>The defined results of a partial function along a list, in order.\<close>

primrec filter_map :: "('a \<Rightarrow> 'b option) \<Rightarrow> 'a list \<Rightarrow> 'b list" where
  "filter_map f [] = []"
| "filter_map f (x # xs) = (case f x of None \<Rightarrow> filter_map f xs | Some y \<Rightarrow> y # filter_map f xs)"

lemma filter_map_cong: "(\<And>x. x \<in> set xs \<Longrightarrow> f x = g x) \<Longrightarrow> filter_map f xs = filter_map g xs"
  by (induction xs) (simp_all split: option.splits)

lemma filter_map_append: "filter_map f (xs @ ys) = filter_map f xs @ filter_map f ys"
  by (induction xs) (simp_all split: option.splits)

lemma set_filter_map: "set (filter_map f xs) = {y. \<exists>x\<in>set xs. f x = Some y}"
  by (induction xs) (auto split: option.splits)

section \<open>Steps that may raise\<close>

text \<open>
  Calls made one after the other: each has events and may raise, and the first exception ends the
  sequence.
\<close>

fun steps :: "('x option \<times> 'v list) list \<Rightarrow> 'v list \<times> 'x option" where
  "steps [] = ([], None)"
| "steps ((r, evs) # ss) = (case r of
     Some e \<Rightarrow> (evs, Some e)
   | None \<Rightarrow> (case steps ss of (evs', r') \<Rightarrow> (evs @ evs', r')))"

lemma steps_events: "ev \<in> set (fst (steps ss)) \<Longrightarrow> \<exists>s\<in>set ss. ev \<in> set (snd s)"
proof (induction ss rule: steps.induct)
  case (2 r evs ss)
  then show ?case by (cases r) (auto simp: case_prod_beta)
qed simp

lemma steps_None: "snd (steps ss) = None \<longleftrightarrow> (\<forall>s\<in>set ss. fst s = None)"
  by (induction ss rule: steps.induct) (auto simp: case_prod_beta split: option.splits)

section \<open>Strings\<close>

definition starts_with :: "string \<Rightarrow> string \<Rightarrow> bool" where
  "starts_with s p \<longleftrightarrow> take (length p) s = p"

lemma starts_with_append [simp]: "starts_with (p @ s) p"
  by (simp add: starts_with_def)

lemma starts_with_iff: "starts_with s p \<longleftrightarrow> (\<exists>t. s = p @ t)"
  by (metis append_eq_conv_conj append_take_drop_id starts_with_def)

fun contains :: "string \<Rightarrow> string \<Rightarrow> bool" where
  "contains needle [] = (needle = [])"
| "contains needle (c # cs) = (starts_with (c # cs) needle \<or> contains needle cs)"

definition is_digit :: "char \<Rightarrow> bool" where
  "is_digit c \<longleftrightarrow> 48 \<le> (of_char c :: nat) \<and> (of_char c :: nat) \<le> 57"

definition is_lower :: "char \<Rightarrow> bool" where
  "is_lower c \<longleftrightarrow> 97 \<le> (of_char c :: nat) \<and> (of_char c :: nat) \<le> 122"

definition is_upper :: "char \<Rightarrow> bool" where
  "is_upper c \<longleftrightarrow> 65 \<le> (of_char c :: nat) \<and> (of_char c :: nat) \<le> 90"

definition to_lower :: "char \<Rightarrow> char" where
  "to_lower c = (if is_upper c then char_of ((of_char c :: nat) + 32) else c)"

definition to_upper :: "char \<Rightarrow> char" where
  "to_upper c = (if is_lower c then char_of ((of_char c :: nat) - 32) else c)"

definition lower :: "string \<Rightarrow> string" where
  "lower s = map to_lower s"

definition upper :: "string \<Rightarrow> string" where
  "upper s = map to_upper s"

text \<open>\<open>str.strip()\<close> on ASCII: tabs, newlines, the separators 28 to 31 and the space.\<close>

definition is_space :: "char \<Rightarrow> bool" where
  "is_space c \<longleftrightarrow> (let n = (of_char c :: nat) in (9 \<le> n \<and> n \<le> 13) \<or> (28 \<le> n \<and> n \<le> 32))"

definition strip :: "string \<Rightarrow> string" where
  "strip s = rev (dropWhile is_space (rev (dropWhile is_space s)))"

text \<open>
  \<open>int(s)\<close>: surrounding white space, one optional sign, then digits with single underscores
  between digits; anything else raises \<open>ValueError\<close> (here \<open>None\<close>).
\<close>

fun digits_val :: "int \<Rightarrow> bool \<Rightarrow> string \<Rightarrow> int option" where
  "digits_val acc seen [] = (if seen then Some acc else None)"
| "digits_val acc seen (c # cs) =
     (if is_digit c then digits_val (acc * 10 + (of_char c - 48)) True cs
      else if c = CHR ''_'' \<and> seen then digits_val acc False cs
      else None)"

definition py_int :: "string \<Rightarrow> int option" where
  "py_int s = (case strip s of
      [] \<Rightarrow> None
    | c # cs \<Rightarrow> if c = CHR ''-'' then map_option uminus (digits_val 0 False cs)
               else if c = CHR ''+'' then digits_val 0 False cs
               else digits_val 0 False (c # cs))"

text \<open>\<open>str(n)\<close> of an integer.\<close>

fun nat_digits :: "nat \<Rightarrow> string" where
  "nat_digits n = (if n < 10 then [char_of (48 + n)]
                   else nat_digits (n div 10) @ [char_of (48 + n mod 10)])"

declare nat_digits.simps [simp del]

definition py_str :: "int \<Rightarrow> string" where
  "py_str i = (if i < 0 then CHR ''-'' # nat_digits (nat (- i)) else nat_digits (nat i))"

lemma of_char_of_digit: "n < 10 \<Longrightarrow> (of_char (char_of (48 + n) :: char) :: nat) = 48 + n"
  by simp

lemma is_digit_char_of: "n < (10::nat) \<Longrightarrow> is_digit (char_of (48 + n))"
  by (simp add: is_digit_def)

lemma int_of_char_of_digit: "n < 10 \<Longrightarrow> (of_char (char_of (48 + n) :: char) :: int) = 48 + int n"
  using of_char_of_digit [of n] by (metis of_char_of of_nat_add of_nat_numeral of_nat_of_char)

lemma digits_val_append:
  "\<lbrakk> digits_val acc seen s = Some v; is_digit c \<rbrakk>
    \<Longrightarrow> digits_val acc seen (s @ [c]) = Some (v * 10 + (of_char c - 48))"
  by (induction acc seen s rule: digits_val.induct) (auto split: if_splits)

lemma digits_val_nat_digits: "digits_val 0 False (nat_digits n) = Some (int n)"
proof (induction n rule: nat_digits.induct)
  case (1 n)
  show ?case
  proof (cases "n < 10")
    case True
    then show ?thesis
      by (simp add: nat_digits.simps [of n] is_digit_char_of int_of_char_of_digit)
  next
    case False
    let ?c = "char_of (48 + n mod 10) :: char"
    have d: "is_digit ?c" by (rule is_digit_char_of) simp
    from False "1.IH" have "digits_val 0 False (nat_digits (n div 10)) = Some (int (n div 10))" by simp
    moreover have "int (n div 10) * 10 + int (n mod 10) = int n" by presburger
    ultimately show ?thesis
      using digits_val_append [OF _ d] False
      by (simp add: nat_digits.simps [of n] int_of_char_of_digit)
  qed
qed

lemma nat_digits_all_digits: "c \<in> set (nat_digits n) \<Longrightarrow> is_digit c"
proof (induction n rule: nat_digits.induct)
  case (1 n)
  have d: "is_digit (char_of (48 + n mod 10))" by (rule is_digit_char_of) simp
  show ?case
  proof (cases "n < 10")
    case True
    with "1.prems" show ?thesis by (simp add: nat_digits.simps [of n] is_digit_char_of)
  next
    case False
    with "1.prems" "1.IH" d show ?thesis by (auto simp: nat_digits.simps [of n])
  qed
qed

lemma nat_digits_nonempty [simp]: "nat_digits n \<noteq> []"
  by (simp add: nat_digits.simps [of n])

lemma is_digit_not_space: "is_digit c \<Longrightarrow> \<not> is_space c"
  by (auto simp: is_digit_def is_space_def Let_def)

lemma strip_no_space: "(\<And>c. c \<in> set s \<Longrightarrow> \<not> is_space c) \<Longrightarrow> strip s = s"
proof -
  assume h: "\<And>c. c \<in> set s \<Longrightarrow> \<not> is_space c"
  have "dropWhile is_space t = t" if "set t \<subseteq> set s" for t
    using that h by (cases t) auto
  from this [of s] this [of "rev s"] show ?thesis by (simp add: strip_def)
qed

lemma py_int_py_str: "0 \<le> i \<Longrightarrow> py_int (py_str i) = Some i"
proof -
  assume i: "0 \<le> i"
  let ?s = "nat_digits (nat i)"
  have strip: "strip ?s = ?s"
    by (rule strip_no_space) (auto dest: nat_digits_all_digits is_digit_not_space)
  obtain c cs where s: "?s = c # cs" by (cases ?s) simp_all
  have "is_digit c" using s nat_digits_all_digits [of c "nat i"] by simp
  then have "c \<noteq> CHR ''-''" and "c \<noteq> CHR ''+''" by (auto simp: is_digit_def)
  with i strip s digits_val_nat_digits [of "nat i"] show ?thesis
    by (simp add: py_int_def py_str_def)
qed

section \<open>Interface: a table of live objects\<close>

text \<open>
  A component that tracks live objects by identifier (stream sessions, outbound calls, task
  sessions) offers a lookup, an insertion that may be refused, and a removal. The contract
  gives what sweeping the table does, which shutdown and time-to-live sweeps rely on.
\<close>

locale session_table =
  fixes look :: "'s \<Rightarrow> 'k \<Rightarrow> 'v option"
    and put :: "'k \<Rightarrow> 'v \<Rightarrow> 's \<Rightarrow> 's option"
    and drop_key :: "'k \<Rightarrow> 's \<Rightarrow> 's"
    and inv :: "'s \<Rightarrow> bool"
  assumes look_put: "inv s \<Longrightarrow> put k v s = Some t \<Longrightarrow> look t k' = (if k' = k then Some v else look s k')"
    and look_drop: "inv s \<Longrightarrow> look (drop_key k s) k' = (if k' = k then None else look s k')"
    and inv_put: "inv s \<Longrightarrow> put k v s = Some t \<Longrightarrow> inv t"
    and inv_drop: "inv s \<Longrightarrow> inv (drop_key k s)"
begin

lemma put_then_drop: "inv s \<Longrightarrow> put k v s = Some t \<Longrightarrow> look (drop_key k t) = (look s)(k := None)"
  by (rule ext) (simp add: look_drop inv_put look_put)

lemma inv_sweep: "inv s \<Longrightarrow> inv (fold drop_key ks s)"
  by (induction ks arbitrary: s) (simp_all add: inv_drop)

lemma look_sweep: "inv s \<Longrightarrow> look (fold drop_key ks s) k = (if k \<in> set ks then None else look s k)"
  by (induction ks arbitrary: s) (auto simp: inv_drop look_drop)

lemma sweep_all: "inv s \<Longrightarrow> (\<And>k. look s k \<noteq> None \<Longrightarrow> k \<in> set ks) \<Longrightarrow> look (fold drop_key ks s) k = None"
  using look_sweep [of s ks k] by (cases "look s k") (auto split: if_splits)

end

section \<open>Interface: a pool of concurrency slots\<close>

text \<open>
  A limiter hands out slots up to a capacity: \<open>acq\<close> answers \<open>None\<close> where the caller would
  have to wait, \<open>rel\<close> gives one slot back. The contract gives the two things callers rely
  on: use never exceeds the capacity, and a slot given back can be acquired again.
\<close>

primrec iter_opt :: "('s \<Rightarrow> 's option) \<Rightarrow> nat \<Rightarrow> 's \<Rightarrow> 's option" where
  "iter_opt f 0 s = Some s"
| "iter_opt f (Suc n) s = (case f s of None \<Rightarrow> None | Some t \<Rightarrow> iter_opt f n t)"

fun slot_run :: "('s \<Rightarrow> 's option) \<Rightarrow> ('s \<Rightarrow> 's) \<Rightarrow> ('s \<Rightarrow> int) \<Rightarrow> bool list \<Rightarrow> 's \<Rightarrow> 's" where
  "slot_run acq rel used [] s = s"
| "slot_run acq rel used (True # es) s =
     slot_run acq rel used es (case acq s of None \<Rightarrow> s | Some t \<Rightarrow> t)"
| "slot_run acq rel used (False # es) s =
     slot_run acq rel used es (if 0 < used s then rel s else s)"

locale slot_pool =
  fixes acq :: "'s \<Rightarrow> 's option"
    and rel :: "'s \<Rightarrow> 's"
    and used :: "'s \<Rightarrow> int"
    and cap :: "'s \<Rightarrow> int"
    and inv :: "'s \<Rightarrow> bool"
  assumes inv_bounds: "inv s \<Longrightarrow> 0 \<le> used s \<and> used s \<le> cap s"
    and acq_None: "inv s \<Longrightarrow> acq s = None \<longleftrightarrow> used s = cap s"
    and acq_Some: "inv s \<Longrightarrow> acq s = Some t \<Longrightarrow> inv t \<and> used t = used s + 1 \<and> cap t = cap s"
    and rel_ok: "inv s \<Longrightarrow> 0 < used s \<Longrightarrow> inv (rel s) \<and> used (rel s) = used s - 1 \<and> cap (rel s) = cap s"
begin

lemma acq_step: "inv s \<Longrightarrow> used s < cap s \<Longrightarrow> \<exists>t. acq s = Some t \<and> inv t \<and> used t = used s + 1 \<and> cap t = cap s"
  using acq_None [of s] acq_Some [of s] by (cases "acq s") auto

lemma run_inv: "inv s \<Longrightarrow> inv (slot_run acq rel used es s) \<and> cap (slot_run acq rel used es s) = cap s"
proof (induction es arbitrary: s)
  case Nil
  then show ?case by simp
next
  case (Cons e es)
  let ?t = "if e then (case acq s of None \<Rightarrow> s | Some t \<Rightarrow> t) else (if 0 < used s then rel s else s)"
  have t: "inv ?t \<and> cap ?t = cap s"
    using Cons.prems acq_Some [of s] rel_ok [of s] by (auto split: option.split)
  have "slot_run acq rel used (e # es) s = slot_run acq rel used es ?t"
    by (cases e) simp_all
  with Cons.IH [of ?t] t show ?case by simp
qed

lemma run_bounded: "inv s \<Longrightarrow> used (slot_run acq rel used es s) \<le> cap s"
  using run_inv [of s es] inv_bounds [of "slot_run acq rel used es s"] by simp

lemma refill: "inv s \<Longrightarrow> used s + int n \<le> cap s \<Longrightarrow>
    \<exists>t. iter_opt acq n s = Some t \<and> inv t \<and> used t = used s + int n \<and> cap t = cap s"
proof (induction n arbitrary: s)
  case 0
  then show ?case by simp
next
  case (Suc n)
  then obtain t where t: "acq s = Some t" "inv t" "used t = used s + 1" "cap t = cap s"
    using acq_step [of s] by auto
  with Suc.prems Suc.IH [of t] show ?case by (auto simp: algebra_simps)
qed

lemma full_refused: "inv s \<Longrightarrow> used s = cap s \<Longrightarrow> acq s = None"
  by (simp add: acq_None)

end

end
