(* ===== verification/Circuit_Breaker.thy ===== *)
theory Circuit_Breaker
  imports Prelude
begin

text \<open>
  The per-service circuit breaker of \<open>grpc_servers/utils/circuit_breaker.py\<close>. The object is a
  record; every method is a function from the record (and the value \<open>time.monotonic()\<close> returns
  in it, where the method reads the clock) to the new record. The state property changes the
  object when it is read, so \<open>cb_check\<close> returns a new breaker also when it raises.

  The contract \<open>call_gate\<close> states what the gRPC client relies on: whatever outcomes are
  recorded, a final \<open>release_probe\<close> leaves no half-open probe held.
\<close>

section \<open>The breaker\<close>

datatype CBState = CLOSED | OPEN | HALF_OPEN

record circuit_breaker =
  cb_service_id :: string
  cb_state :: CBState
  cb_failure_count :: int
  cb_fail_max :: int
  cb_reset_timeout :: real
  cb_last_failure_time :: real
  cb_half_open_lock :: bool

datatype cb_error = FailMaxNotPositive | ResetTimeoutNotPositive | CircuitOpen | ProbeInProgress

definition cb_init :: "string \<Rightarrow> int \<Rightarrow> real \<Rightarrow> cb_error + circuit_breaker" where
  "cb_init sid fmax rt =
     (if fmax \<le> 0 then Inl FailMaxNotPositive
      else if rt \<le> 0 then Inl ResetTimeoutNotPositive
      else Inr \<lparr>cb_service_id = sid, cb_state = CLOSED, cb_failure_count = 0, cb_fail_max = fmax,
                cb_reset_timeout = rt, cb_last_failure_time = 0, cb_half_open_lock = False\<rparr>)"

text \<open>The \<open>state\<close> property: an open circuit turns half-open once the timeout has passed.\<close>

definition cb_observe :: "real \<Rightarrow> circuit_breaker \<Rightarrow> circuit_breaker" where
  "cb_observe now cb =
     (if cb_state cb = OPEN \<and> cb_reset_timeout cb \<le> now - cb_last_failure_time cb
      then cb\<lparr>cb_state := HALF_OPEN, cb_half_open_lock := False\<rparr> else cb)"

definition cb_check :: "real \<Rightarrow> circuit_breaker \<Rightarrow> (cb_error + unit) \<times> circuit_breaker" where
  "cb_check now cb0 =
     (let cb = cb_observe now cb0 in
      if cb_state cb = OPEN then (Inl CircuitOpen, cb)
      else if cb_state cb = HALF_OPEN \<and> cb_half_open_lock cb then (Inl ProbeInProgress, cb)
      else if cb_state cb = HALF_OPEN then (Inr (), cb\<lparr>cb_half_open_lock := True\<rparr>)
      else (Inr (), cb))"

definition cb_record_success :: "circuit_breaker \<Rightarrow> circuit_breaker" where
  "cb_record_success cb = cb\<lparr>cb_state := CLOSED, cb_failure_count := 0, cb_half_open_lock := False\<rparr>"

definition cb_record_failure :: "real \<Rightarrow> circuit_breaker \<Rightarrow> circuit_breaker" where
  "cb_record_failure now cb0 =
     (let cb = cb0\<lparr>cb_failure_count := cb_failure_count cb0 + 1, cb_last_failure_time := now\<rparr> in
      if cb_state cb = HALF_OPEN then cb\<lparr>cb_state := OPEN, cb_half_open_lock := False\<rparr>
      else if cb_fail_max cb \<le> cb_failure_count cb then cb\<lparr>cb_state := OPEN\<rparr>
      else cb)"

definition cb_release_probe :: "circuit_breaker \<Rightarrow> bool \<times> circuit_breaker" where
  "cb_release_probe cb =
     (if cb_state cb = HALF_OPEN \<and> cb_half_open_lock cb
      then (True, cb\<lparr>cb_half_open_lock := False\<rparr>) else (False, cb))"

definition cb_reset :: "circuit_breaker \<Rightarrow> circuit_breaker" where
  "cb_reset cb = cb\<lparr>cb_state := CLOSED, cb_failure_count := 0, cb_half_open_lock := False\<rparr>"

text \<open>The class-level table of breakers, one per service, and its operations.\<close>

type_synonym cb_instances = "(string, circuit_breaker) odict"

definition cb_get_or_create ::
    "int \<Rightarrow> real \<Rightarrow> string \<Rightarrow> cb_instances \<Rightarrow> cb_error + (circuit_breaker \<times> cb_instances)" where
  "cb_get_or_create fmax rt sid insts =
     (case od_get insts sid of
        Some cb \<Rightarrow> Inr (cb, insts)
      | None \<Rightarrow> (case cb_init sid fmax rt of
                   Inl e \<Rightarrow> Inl e
                 | Inr cb \<Rightarrow> Inr (cb, od_set sid cb insts)))"

definition cb_remove :: "string \<Rightarrow> cb_instances \<Rightarrow> cb_instances" where
  "cb_remove sid insts = od_del sid insts"

definition cb_clear_all :: "cb_instances \<Rightarrow> cb_instances" where
  "cb_clear_all insts = []"

section \<open>Invariant\<close>

definition cb_inv :: "circuit_breaker \<Rightarrow> bool" where
  "cb_inv cb \<longleftrightarrow> 0 < cb_fail_max cb \<and> 0 < cb_reset_timeout cb \<and> 0 \<le> cb_failure_count cb
     \<and> (cb_half_open_lock cb \<longrightarrow> cb_state cb = HALF_OPEN)
     \<and> (cb_state cb = CLOSED \<longrightarrow> cb_failure_count cb < cb_fail_max cb)"

lemmas cb_defs = cb_observe_def cb_check_def cb_record_success_def cb_record_failure_def
  cb_release_probe_def cb_reset_def Let_def

lemma cb_inv_init: "cb_init sid fmax rt = Inr cb \<Longrightarrow> cb_inv cb"
  by (auto simp: cb_init_def cb_inv_def split: if_splits)

lemma cb_inv_observe: "cb_inv cb \<Longrightarrow> cb_inv (cb_observe now cb)"
  by (simp add: cb_inv_def cb_observe_def)

lemma cb_inv_check: "cb_inv cb \<Longrightarrow> cb_inv (snd (cb_check now cb))"
  using cb_inv_observe [of cb now] by (auto simp: cb_check_def Let_def cb_inv_def)

lemma cb_inv_success: "cb_inv cb \<Longrightarrow> cb_inv (cb_record_success cb)"
  by (simp add: cb_inv_def cb_record_success_def)

lemma cb_inv_failure: "cb_inv cb \<Longrightarrow> cb_inv (cb_record_failure now cb)"
  by (auto simp: cb_inv_def cb_record_failure_def Let_def)

lemma cb_inv_release: "cb_inv cb \<Longrightarrow> cb_inv (snd (cb_release_probe cb))"
  by (simp add: cb_inv_def cb_release_probe_def)

lemma cb_inv_reset: "cb_inv cb \<Longrightarrow> cb_inv (cb_reset cb)"
  by (simp add: cb_inv_def cb_reset_def)

text \<open>Any sequence of method calls.\<close>

datatype cb_event = Observe real | Check real | Success | Failure real | Release | Reset

fun cb_step :: "circuit_breaker \<Rightarrow> cb_event \<Rightarrow> circuit_breaker" where
  "cb_step cb (Observe now) = cb_observe now cb"
| "cb_step cb (Check now) = snd (cb_check now cb)"
| "cb_step cb Success = cb_record_success cb"
| "cb_step cb (Failure now) = cb_record_failure now cb"
| "cb_step cb Release = snd (cb_release_probe cb)"
| "cb_step cb Reset = cb_reset cb"

lemma cb_inv_step: "cb_inv cb \<Longrightarrow> cb_inv (cb_step cb e)"
  by (cases e) (simp_all add: cb_inv_observe cb_inv_check cb_inv_success cb_inv_failure
      cb_inv_release cb_inv_reset)

lemma cb_inv_run: "cb_inv cb \<Longrightarrow> cb_inv (foldl cb_step cb es)"
  by (induction es arbitrary: cb) (simp_all add: cb_inv_step)

text \<open>Whatever sequence of method calls a new breaker sees, the probe lock is held only in the
  half-open state and a closed breaker has counted fewer failures than its threshold.\<close>

theorem cb_reachable_inv:
  assumes "cb_init sid fmax rt = Inr cb"
  shows "cb_inv (foldl cb_step cb es)"
  using assms by (intro cb_inv_run cb_inv_init)

theorem cb_reachable_inv_witness:
  "cb_inv (foldl cb_step \<lparr>cb_service_id = ''s'', cb_state = CLOSED, cb_failure_count = 0,
      cb_fail_max = 1, cb_reset_timeout = 30, cb_last_failure_time = 0, cb_half_open_lock = False\<rparr>
      [Failure 10, Check 45])"
  by (rule cb_reachable_inv [of "''s''" 1 30]) (simp add: cb_init_def)

section \<open>Opening\<close>

lemma cb_failures_closed:
  assumes "cb_state cb = CLOSED" and "cb_failure_count cb + int (length ts) < cb_fail_max cb"
  shows "cb_state (fold cb_record_failure ts cb) = CLOSED
    \<and> cb_failure_count (fold cb_record_failure ts cb) = cb_failure_count cb + int (length ts)
    \<and> cb_fail_max (fold cb_record_failure ts cb) = cb_fail_max cb"
  using assms
proof (induction ts arbitrary: cb)
  case Nil
  then show ?case by simp
next
  case (Cons t ts)
  let ?cb = "cb_record_failure t cb"
  from Cons.prems have "cb_state ?cb = CLOSED" "cb_failure_count ?cb = cb_failure_count cb + 1"
    "cb_fail_max ?cb = cb_fail_max cb"
    by (simp_all add: cb_record_failure_def Let_def)
  with Cons.prems Cons.IH [of ?cb] show ?case by simp
qed

lemma cb_failure_open: "cb_state cb = OPEN \<Longrightarrow> cb_state (cb_record_failure t cb) = OPEN"
  by (simp add: cb_record_failure_def Let_def)

lemma cb_failures_open: "cb_state cb = OPEN \<Longrightarrow> cb_state (fold cb_record_failure ts cb) = OPEN"
  by (induction ts arbitrary: cb) (simp_all add: cb_failure_open)

lemma cb_failures_reach:
  assumes "cb_state cb = CLOSED" "cb_failure_count cb < cb_fail_max cb"
    and "cb_fail_max cb \<le> cb_failure_count cb + int (length ts)"
  shows "cb_state (fold cb_record_failure ts cb) = OPEN"
  using assms
proof (induction ts arbitrary: cb)
  case Nil
  then show ?case by simp
next
  case (Cons t ts)
  let ?cb = "cb_record_failure t cb"
  show ?case
  proof (cases "cb_failure_count cb + 1 < cb_fail_max cb")
    case True
    with Cons.prems Cons.IH [of ?cb] show ?thesis by (simp add: cb_record_failure_def Let_def)
  next
    case False
    with Cons.prems have "cb_state ?cb = OPEN" by (simp add: cb_record_failure_def Let_def)
    then show ?thesis by (simp add: cb_failures_open)
  qed
qed

text \<open>From a success on, the circuit opens at exactly the \<open>fail_max\<close>-th consecutive failure:
  after fewer failures it is closed and admits calls, after that many or more it is open.\<close>

theorem cb_opens_exactly_at_fail_max:
  assumes "cb_inv cb0" and "cb = fold cb_record_failure ts (cb_record_success cb0)"
  shows "cb_state cb = (if int (length ts) < cb_fail_max cb0 then CLOSED else OPEN)
    \<and> (int (length ts) < cb_fail_max cb0 \<longrightarrow> fst (cb_check now cb) = Inr ())"
proof -
  let ?c = "cb_record_success cb0"
  have c: "cb_state ?c = CLOSED" "cb_failure_count ?c = 0" "cb_fail_max ?c = cb_fail_max cb0"
    by (simp_all add: cb_record_success_def)
  from assms(1) have "0 < cb_fail_max cb0" by (simp add: cb_inv_def)
  with c cb_failures_reach [of ?c ts] cb_failures_closed [of ?c ts]
  show ?thesis by (auto simp: assms(2) cb_check_def cb_observe_def Let_def)
qed

theorem cb_opens_exactly_at_fail_max_witness:
  "cb_state (fold cb_record_failure [1, 2] (cb_record_success
     \<lparr>cb_service_id = ''s'', cb_state = HALF_OPEN, cb_failure_count = 4, cb_fail_max = 2,
      cb_reset_timeout = 30, cb_last_failure_time = 0, cb_half_open_lock = True\<rparr>)) = OPEN"
  using cb_opens_exactly_at_fail_max [of "\<lparr>cb_service_id = ''s'', cb_state = HALF_OPEN,
      cb_failure_count = 4, cb_fail_max = 2, cb_reset_timeout = 30, cb_last_failure_time = 0,
      cb_half_open_lock = True\<rparr>" _ "[1, 2]" 3]
  by (simp add: cb_inv_def)

section \<open>Failing fast, probing and recovering\<close>

text \<open>The answers of a sequence of checks at given times, no outcome being recorded in between.\<close>

fun cb_checks :: "circuit_breaker \<Rightarrow> real list \<Rightarrow> bool list" where
  "cb_checks cb [] = []"
| "cb_checks cb (t # ts) =
     (case cb_check t cb of (r, cb') \<Rightarrow> (r = Inr ()) # cb_checks cb' ts)"

lemma cb_checks_locked:
  "cb_state cb = HALF_OPEN \<Longrightarrow> cb_half_open_lock cb \<Longrightarrow> cb_checks cb ts = replicate (length ts) False"
  by (induction ts arbitrary: cb) (simp_all add: cb_check_def cb_observe_def)

lemma cb_checks_early:
  "cb_state cb = OPEN \<Longrightarrow> \<forall>t\<in>set ts. t < cb_last_failure_time cb + cb_reset_timeout cb
    \<Longrightarrow> cb_checks cb ts = replicate (length ts) False"
  by (induction ts arbitrary: cb) (auto simp: cb_check_def cb_observe_def)

lemma cb_check_elapsed:
  assumes "cb_state cb = OPEN" "cb_last_failure_time cb + cb_reset_timeout cb \<le> t"
  shows "fst (cb_check t cb) = Inr () \<and> cb_state (snd (cb_check t cb)) = HALF_OPEN
    \<and> cb_half_open_lock (snd (cb_check t cb))"
  using assms by (simp add: cb_check_def cb_observe_def)

lemma cb_checks_append:
  "cb_state cb = OPEN \<Longrightarrow> \<forall>t\<in>set ts. t < cb_last_failure_time cb + cb_reset_timeout cb
    \<Longrightarrow> cb_checks cb (ts @ us) = replicate (length ts) False @ cb_checks cb us"
  by (induction ts) (auto simp: cb_check_def cb_observe_def)

text \<open>An open circuit rejects every call before the reset timeout has passed since the last
  failure, then admits exactly one probe: of the calls that arrive while no outcome is recorded,
  the first one at or after the deadline passes and every other one is rejected.\<close>

theorem cb_single_probe:
  assumes "cb_state cb = OPEN"
    and "\<forall>t\<in>set early. t < cb_last_failure_time cb + cb_reset_timeout cb"
    and "cb_last_failure_time cb + cb_reset_timeout cb \<le> probe"
  shows "cb_checks cb (early @ probe # later)
    = replicate (length early) False @ True # replicate (length later) False"
proof -
  obtain r cb' where c: "cb_check probe cb = (r, cb')" by (cases "cb_check probe cb")
  with cb_check_elapsed [OF assms(1,3)] have "r = Inr ()"
    and "cb_state cb' = HALF_OPEN" and "cb_half_open_lock cb'" by simp_all
  with c cb_checks_locked [of cb' later] have "cb_checks cb (probe # later) = True # replicate (length later) False"
    by simp
  with cb_checks_append [OF assms(1,2)] show ?thesis by simp
qed

theorem cb_single_probe_witness:
  "cb_checks \<lparr>cb_service_id = ''s'', cb_state = OPEN, cb_failure_count = 5, cb_fail_max = 5,
      cb_reset_timeout = 30, cb_last_failure_time = 100, cb_half_open_lock = False\<rparr>
     ([101, 129] @ 130 # [131, 500]) = [False, False, True, False, False]"
  by (subst cb_single_probe) (simp_all add: numeral_2_eq_2)

section \<open>The contract the gRPC client uses\<close>

text \<open>
  What a caller of the breaker may record between \<open>check\<close> and the end of its call, as values,
  and the contract: the invariant is kept, and after \<open>release\<close> no probe is held.
\<close>

datatype gate_action = RecordSuccess | RecordFailure real

locale call_gate =
  fixes check :: "real \<Rightarrow> 's \<Rightarrow> bool \<times> 's"
    and act :: "gate_action \<Rightarrow> 's \<Rightarrow> 's"
    and release :: "'s \<Rightarrow> bool \<times> 's"
    and probing :: "'s \<Rightarrow> bool"
    and inv :: "'s \<Rightarrow> bool"
  assumes inv_check: "inv s \<Longrightarrow> inv (snd (check now s))"
    and inv_act: "inv s \<Longrightarrow> inv (act a s)"
    and act_settles: "inv s \<Longrightarrow> \<not> probing (act a s)"
    and release_settles: "inv s \<Longrightarrow> inv (snd (release s)) \<and> \<not> probing (snd (release s))"
    and release_idle: "inv s \<Longrightarrow> \<not> probing s \<Longrightarrow> release s = (False, s)"
    and probe_excludes: "inv s \<Longrightarrow> probing s \<Longrightarrow> \<not> fst (check now s)"
begin

lemma inv_acts: "inv s \<Longrightarrow> inv (fold act as s)"
  by (induction as arbitrary: s) (simp_all add: inv_act)

lemma acts_settle: "inv s \<Longrightarrow> as \<noteq> [] \<Longrightarrow> \<not> probing (fold act as s)"
proof (induction as rule: rev_induct)
  case Nil
  then show ?case by simp
next
  case (snoc a as)
  then show ?case by (simp add: act_settles inv_acts)
qed

lemma call_settled: "inv s \<Longrightarrow> \<not> probing (snd (release (fold act as s)))"
  by (simp add: inv_acts release_settles)

lemma call_inv: "inv s \<Longrightarrow> inv (snd (release (fold act as s)))"
  by (simp add: inv_acts release_settles)

lemma resolved_call_release_noop: "inv s \<Longrightarrow> as \<noteq> [] \<Longrightarrow> fst (release (fold act as s)) = False"
  by (simp add: acts_settle inv_acts release_idle)

end

fun cb_act :: "gate_action \<Rightarrow> circuit_breaker \<Rightarrow> circuit_breaker" where
  "cb_act RecordSuccess cb = cb_record_success cb"
| "cb_act (RecordFailure now) cb = cb_record_failure now cb"

definition cb_admit :: "real \<Rightarrow> circuit_breaker \<Rightarrow> bool \<times> circuit_breaker" where
  "cb_admit now cb = (case cb_check now cb of (r, cb') \<Rightarrow> (r = Inr (), cb'))"

lemma cb_admit_simps:
  "snd (cb_admit now cb) = snd (cb_check now cb)"
  "fst (cb_admit now cb) \<longleftrightarrow> fst (cb_check now cb) = Inr ()"
  by (simp_all add: cb_admit_def split: prod.splits)

lemma cb_act_settles: "cb_inv cb \<Longrightarrow> \<not> cb_half_open_lock (cb_act a cb)"
  by (cases a) (auto simp: cb_inv_def cb_record_success_def cb_record_failure_def Let_def)

interpretation cbg: call_gate cb_admit cb_act cb_release_probe cb_half_open_lock cb_inv
proof unfold_locales
  fix cb :: circuit_breaker and now :: real and a :: gate_action
  assume inv: "cb_inv cb"
  show "cb_inv (snd (cb_admit now cb))" using inv by (simp add: cb_admit_simps cb_inv_check)
  show "cb_inv (cb_act a cb)" using inv by (cases a) (simp_all add: cb_inv_success cb_inv_failure)
  show "\<not> cb_half_open_lock (cb_act a cb)" using inv by (rule cb_act_settles)
  show "cb_inv (snd (cb_release_probe cb)) \<and> \<not> cb_half_open_lock (snd (cb_release_probe cb))"
    using inv by (auto simp: cb_inv_def cb_release_probe_def)
  show "cb_release_probe cb = (False, cb)" if "\<not> cb_half_open_lock cb"
    using that by (simp add: cb_release_probe_def)
  show "\<not> fst (cb_admit now cb)" if "cb_half_open_lock cb"
    using inv that by (simp add: cb_inv_def cb_admit_simps cb_check_def cb_observe_def)
qed

end
