(* ===== verification/Bulkhead.thy ===== *)
theory Bulkhead
  imports Prelude
begin

text \<open>
  The per-service concurrency limiter of \<open>core/resilience/bulkhead.py\<close>. The \<open>asyncio.Semaphore\<close>
  is its number of free permits. Entering is modelled at the moment \<open>asyncio.wait_for\<close> ends:
  with a free permit the acquisition returns, with none left the timeout has fired.
\<close>

record bulkhead =
  bh_service_id :: string
  bh_max_concurrent :: int
  bh_acquire_timeout :: real
  bh_permits :: int
  bh_active :: int

datatype bulkhead_error =
    BulkheadFull string int int real  \<comment> \<open>service, active, limit and time waited of the message\<close>
  | BadLimit                           \<comment> \<open>\<open>ValueError\<close> of \<open>int(env_max)\<close> or of a negative semaphore\<close>

definition bh_init :: "string \<Rightarrow> int \<Rightarrow> real \<Rightarrow> bulkhead_error + bulkhead" where
  "bh_init sid limit timeout =
     (if limit < 0 then Inl BadLimit
      else Inr \<lparr>bh_service_id = sid, bh_max_concurrent = limit, bh_acquire_timeout = timeout,
                bh_permits = limit, bh_active = 0\<rparr>)"

definition bh_enter :: "bulkhead \<Rightarrow> bulkhead_error + bulkhead" where
  "bh_enter b =
     (if 0 < bh_permits b
      then Inr (b\<lparr>bh_permits := bh_permits b - 1, bh_active := bh_active b + 1\<rparr>)
      else Inl (BulkheadFull (bh_service_id b) (bh_active b) (bh_max_concurrent b) (bh_acquire_timeout b)))"

definition bh_exit :: "bulkhead \<Rightarrow> bulkhead" where
  "bh_exit b = b\<lparr>bh_permits := bh_permits b + 1, bh_active := bh_active b - 1\<rparr>"

definition bh_available :: "bulkhead \<Rightarrow> int" where
  "bh_available b = bh_max_concurrent b - bh_active b"

section \<open>The table of bulkheads\<close>

type_synonym bh_instances = "(string, bulkhead) odict"

definition bh_max_instances :: nat where
  "bh_max_instances = 256"

text \<open>
  \<open>for_service\<close>: an existing instance is returned as it is. Otherwise the oldest instance is
  dropped at the bound, the limit is read from the environment variable named after the service
  or from the settings, and the new instance is stored.
\<close>

definition bh_for_service ::
    "int \<Rightarrow> real \<Rightarrow> (string \<Rightarrow> string option) \<Rightarrow> string \<Rightarrow> bh_instances
      \<Rightarrow> (bulkhead_error + bulkhead) \<times> bh_instances" where
  "bh_for_service default_max timeout environ sid insts =
     (case od_get insts sid of
        Some b \<Rightarrow> (Inr b, insts)
      | None \<Rightarrow>
          let room = (if bh_max_instances \<le> length insts then tl insts else insts);
              limit = (case environ (''DIGITALKIN_BULKHEAD_'' @ upper sid @ ''_MAX'') of
                         None \<Rightarrow> Some default_max
                       | Some s \<Rightarrow> py_int s)
          in (case limit of
                None \<Rightarrow> (Inl BadLimit, room)
              | Some n \<Rightarrow> (case bh_init sid n timeout of
                             Inl e \<Rightarrow> (Inl e, room)
                           | Inr b \<Rightarrow> (Inr b, od_set sid b room))))"

definition bh_remove :: "string \<Rightarrow> bh_instances \<Rightarrow> bh_instances" where
  "bh_remove sid insts = od_del sid insts"

definition bh_clear_all :: "bh_instances \<Rightarrow> bh_instances" where
  "bh_clear_all insts = []"

section \<open>Slot accounting\<close>

definition bh_inv :: "bulkhead \<Rightarrow> bool" where
  "bh_inv b \<longleftrightarrow> 0 \<le> bh_active b \<and> 0 \<le> bh_permits b \<and> bh_permits b + bh_active b = bh_max_concurrent b"

lemma bh_inv_init: "bh_init sid n t = Inr b \<Longrightarrow> bh_inv b"
  by (auto simp: bh_init_def bh_inv_def split: if_splits)

definition bh_acquire :: "bulkhead \<Rightarrow> bulkhead option" where
  "bh_acquire b = (case bh_enter b of Inl e \<Rightarrow> None | Inr b' \<Rightarrow> Some b')"

interpretation bhp: slot_pool bh_acquire bh_exit bh_active bh_max_concurrent bh_inv
  by unfold_locales
    (auto simp: bh_acquire_def bh_enter_def bh_exit_def bh_inv_def split: if_splits)

text \<open>Whatever the order in which callers enter and leave a bulkhead, the number of active
  calls never exceeds its limit, the slots reported as available are the semaphore's permits, and
  every slot that is not in use can be entered again: no slot is lost.\<close>

theorem bulkhead_slots:
  assumes "bh_init sid limit timeout = Inr b0"
    and "b = slot_run bh_acquire bh_exit bh_active es b0"
  shows "0 \<le> bh_active b \<and> bh_active b \<le> limit \<and> bh_available b = bh_permits b
    \<and> (\<exists>t. iter_opt bh_acquire (nat (bh_available b)) b = Some t \<and> bh_active t = limit
          \<and> (\<exists>e. bh_enter t = Inl e))"
proof -
  have b0: "bh_inv b0" "bh_max_concurrent b0 = limit"
    using bh_inv_init [OF assms(1)] assms(1) by (auto simp: bh_init_def split: if_splits)
  have inv: "bh_inv b" "bh_max_concurrent b = limit"
    using bhp.run_inv [OF b0(1), of es] b0(2) by (simp_all add: assms(2))
  then obtain t where t: "iter_opt bh_acquire (nat (bh_available b)) b = Some t" "bh_inv t"
      "bh_active t = limit" "bh_max_concurrent t = limit"
    using bhp.refill [of b "nat (bh_available b)"] by (auto simp: bh_available_def bh_inv_def)
  with bhp.full_refused [of t] have "bh_acquire t = None" by simp
  then have "\<exists>e. bh_enter t = Inl e" by (auto simp: bh_acquire_def split: sum.splits)
  with inv t show ?thesis by (auto simp: bh_inv_def bh_available_def)
qed

theorem bulkhead_slots_witness:
  "bh_active (slot_run bh_acquire bh_exit bh_active [True, True, True, False]
     \<lparr>bh_service_id = ''storage'', bh_max_concurrent = 2, bh_acquire_timeout = 2, bh_permits = 2, bh_active = 0\<rparr>) \<le> 2"
  using bulkhead_slots [of "''storage''" 2 2 _ _ "[True, True, True, False]", OF _ refl]
  by (simp only: bh_init_def) simp

section \<open>The table\<close>

lemma bh_for_service_inv:
  assumes "od_wf insts" "length insts \<le> bh_max_instances"
    and "bh_for_service dm tmo env sid insts = (r, insts')"
  shows "od_wf insts' \<and> length insts' \<le> bh_max_instances"
  using assms
  by (auto simp: bh_for_service_def Let_def bh_max_instances_def length_od_set
      split: option.splits sum.splits if_splits)

lemma od_get_tl_cases: "od_wf d \<Longrightarrow> k = fst (hd d) \<or> od_get (tl d) k = od_get d k"
  by (cases d) (auto simp: od_get_def)

text \<open>\<open>for_service\<close> keeps at most 256 instances under distinct names; the instance it
  returns is the one a second call returns, unchanged and without creating anything; and of the
  other services only the oldest one can lose its instance, and only at the bound.\<close>

theorem bulkhead_singletons:
  assumes "od_wf insts" "length insts \<le> bh_max_instances"
    and "bh_for_service dm tmo env sid insts = (Inr b, insts')"
  shows "od_wf insts' \<and> length insts' \<le> bh_max_instances
    \<and> bh_for_service dm2 tmo2 env2 sid insts' = (Inr b, insts')
    \<and> (\<forall>k. k \<noteq> sid \<and> od_get insts k \<noteq> None \<and> od_get insts' k \<noteq> od_get insts k
          \<longrightarrow> k = fst (hd insts) \<and> length insts = bh_max_instances \<and> od_get insts sid = None)"
proof -
  have stored: "od_get insts' sid = Some b"
    using assms(3) by (auto simp: bh_for_service_def Let_def split: option.splits sum.splits)
  have other: "k = fst (hd insts) \<and> length insts = bh_max_instances \<and> od_get insts sid = None"
    if "k \<noteq> sid" "od_get insts k \<noteq> None" "od_get insts' k \<noteq> od_get insts k" for k
    using that assms od_get_tl_cases [OF assms(1), of k]
    by (auto simp: bh_for_service_def Let_def split: option.splits sum.splits if_splits)
  have again: "bh_for_service dm2 tmo2 env2 sid insts' = (Inr b, insts')"
    using stored by (simp add: bh_for_service_def)
  from bh_for_service_inv [OF assms] again other show ?thesis by blast
qed

theorem bulkhead_singletons_witness:
  "let b = \<lparr>bh_service_id = ''a'', bh_max_concurrent = 7, bh_acquire_timeout = 2, bh_permits = 7, bh_active = 0\<rparr>
   in bh_for_service 9 9 Map.empty ''a'' [(''a'', b)] = (Inr b, [(''a'', b)])"
proof -
  let ?b = "\<lparr>bh_service_id = ''a'', bh_max_concurrent = 7, bh_acquire_timeout = 2, bh_permits = 7, bh_active = 0\<rparr>"
  have run: "bh_for_service 50 2 (\<lambda>v. if v = ''DIGITALKIN_BULKHEAD_A_MAX'' then Some ''7'' else None) ''a'' []
      = (Inr ?b, [(''a'', ?b)])"
    by code_simp
  show ?thesis using bulkhead_singletons [OF _ _ run, of 9 9 Map.empty] by simp
qed

end
