(* ===== verification/Grpc_Client.thy ===== *)
theory Grpc_Client
  imports Circuit_Breaker Bulkhead
begin

text \<open>
  \<open>GrpcClientWrapper\<close> of \<open>grpc_servers/utils/grpc_client_wrapper.py\<close>: the class-level cache of
  reference-counted channels and stubs, and \<open>exec_grpc_query\<close>, the retry loop behind a circuit
  breaker. Channels and stubs are objects of the gRPC library: a channel is the number it was
  created with, a stub is the pair of its channel and its class. What the remote side answers to
  the attempts is a function of the attempt's index.
\<close>

section \<open>The channel cache\<close>

record client_config =
  cc_address :: string
  cc_security :: string
  cc_compression :: string

record grpc_cache =
  gx_channels :: "(string, nat) odict"
  gx_refs :: "(string, int) odict"
  gx_stubs :: "(string \<times> string, nat \<times> string) odict"
  gx_breakers :: cb_instances
  gx_bulkheads :: bh_instances
  gx_closed :: "nat list"          \<comment> \<open>channels closed so far, latest last\<close>
  gx_next :: nat                   \<comment> \<open>number of the next channel to be created\<close>

record grpc_client =
  gc_service :: string
  gc_channel :: "nat option"
  gc_key :: "string option"

definition gx_init :: grpc_cache where
  "gx_init = \<lparr>gx_channels = [], gx_refs = [], gx_stubs = [], gx_breakers = [], gx_bulkheads = [],
     gx_closed = [], gx_next = 0\<rparr>"

definition channel_key :: "client_config \<Rightarrow> string" where
  "channel_key c = cc_address c @ '':'' @ cc_security c @ '':'' @ cc_compression c"

definition gc_init_channel :: "client_config \<Rightarrow> grpc_client \<Rightarrow> grpc_cache \<Rightarrow> grpc_client \<times> grpc_cache" where
  "gc_init_channel cfg c gx =
     (let key = channel_key cfg in
      case od_get (gx_channels gx) key of
        Some ch \<Rightarrow>
          (c\<lparr>gc_channel := Some ch, gc_key := Some key\<rparr>,
           gx\<lparr>gx_refs := od_set key ((case od_get (gx_refs gx) key of None \<Rightarrow> 0 | Some n \<Rightarrow> n) + 1) (gx_refs gx)\<rparr>)
      | None \<Rightarrow>
          let ch = gx_next gx in
          (c\<lparr>gc_channel := Some ch, gc_key := Some key\<rparr>,
           gx\<lparr>gx_channels := od_set key ch (gx_channels gx), gx_refs := od_set key 1 (gx_refs gx),
              gx_next := Suc ch\<rparr>))"

text \<open>A stub on the client's channel; without a channel the library builds it on \<open>None\<close>.\<close>

definition gc_get_or_create_stub :: "string \<Rightarrow> grpc_client \<Rightarrow> grpc_cache \<Rightarrow> (nat option \<times> string) \<times> grpc_cache" where
  "gc_get_or_create_stub cls c gx =
     (case gc_key c of
        None \<Rightarrow> ((gc_channel c, cls), gx)
      | Some key \<Rightarrow>
          (case od_get (gx_stubs gx) (key, cls) of
             Some (ch, k) \<Rightarrow> ((Some ch, k), gx)
           | None \<Rightarrow>
               (case gc_channel c of
                  None \<Rightarrow> ((None, cls), gx)
                | Some ch \<Rightarrow> ((Some ch, cls), gx\<lparr>gx_stubs := od_set (key, cls) (ch, cls) (gx_stubs gx)\<rparr>))))"

definition gx_close :: "nat option \<Rightarrow> grpc_cache \<Rightarrow> grpc_cache" where
  "gx_close ch gx = (case ch of None \<Rightarrow> gx | Some n \<Rightarrow> gx\<lparr>gx_closed := gx_closed gx @ [n]\<rparr>)"

definition gx_purge :: "string \<Rightarrow> grpc_cache \<Rightarrow> grpc_cache" where
  "gx_purge key gx = gx\<lparr>gx_refs := od_del key (gx_refs gx), gx_channels := od_del key (gx_channels gx),
     gx_stubs := filter (\<lambda>p. fst (fst p) \<noteq> key) (gx_stubs gx)\<rparr>"

definition gc_close_channel :: "grpc_client \<Rightarrow> grpc_cache \<Rightarrow> grpc_client \<times> grpc_cache" where
  "gc_close_channel c gx =
     (case gc_channel c of
        None \<Rightarrow> (c, gx)
      | Some ch \<Rightarrow>
          (case (case gc_key c of None \<Rightarrow> None | Some key \<Rightarrow> map_option (Pair key) (od_get (gx_refs gx) key)) of
             Some (key, n) \<Rightarrow>
               let gx1 = gx\<lparr>gx_refs := od_set key (n - 1) (gx_refs gx)\<rparr> in
               (c\<lparr>gc_channel := None\<rparr>,
                if n - 1 \<le> 0
                then (gx_close (Some ch) (gx_purge key gx1))
                       \<lparr>gx_breakers := cb_remove (gc_service c) (gx_breakers gx),
                        gx_bulkheads := bh_remove (gc_service c) (gx_bulkheads gx)\<rparr>
                else gx1)
           | None \<Rightarrow> (c\<lparr>gc_channel := None\<rparr>, gx_close (Some ch) gx)))"

definition gc_release_cached_channel :: "string \<Rightarrow> grpc_cache \<Rightarrow> grpc_cache" where
  "gc_release_cached_channel key gx =
     (case od_get (gx_refs gx) key of
        None \<Rightarrow> gx
      | Some n \<Rightarrow>
          let gx1 = gx\<lparr>gx_refs := od_set key (n - 1) (gx_refs gx)\<rparr> in
          if n - 1 \<le> 0 then gx_close (od_get (gx_channels gx) key) (gx_purge key gx1) else gx1)"

definition gc_evict_cached_channel :: "string \<Rightarrow> grpc_cache \<Rightarrow> grpc_cache" where
  "gc_evict_cached_channel key gx = gx_close (od_get (gx_channels gx) key) (gx_purge key gx)"

definition gc_close_all_cached_channels :: "grpc_cache \<Rightarrow> grpc_cache" where
  "gc_close_all_cached_channels gx =
     gx\<lparr>gx_closed := gx_closed gx @ map snd (gx_channels gx), gx_channels := [], gx_refs := [],
        gx_stubs := [], gx_breakers := cb_clear_all (gx_breakers gx)\<rparr>"

section \<open>Cache invariant\<close>

text \<open>
  Every cached channel is open, has a positive count, and is cached under one key; every cached
  stub belongs to the channel cached under its key.
\<close>

definition gx_inv :: "grpc_cache \<Rightarrow> bool" where
  "gx_inv gx \<longleftrightarrow> od_wf (gx_channels gx) \<and> od_wf (gx_refs gx) \<and> od_wf (gx_stubs gx)
     \<and> (\<forall>key. od_has (gx_refs gx) key \<longleftrightarrow> od_has (gx_channels gx) key)
     \<and> (\<forall>key n. od_get (gx_refs gx) key = Some n \<longrightarrow> 0 < n)
     \<and> (\<forall>key ch. od_get (gx_channels gx) key = Some ch \<longrightarrow> ch < gx_next gx \<and> ch \<notin> set (gx_closed gx))
     \<and> (\<forall>ch\<in>set (gx_closed gx). ch < gx_next gx)
     \<and> (\<forall>k1 k2 ch. od_get (gx_channels gx) k1 = Some ch \<and> od_get (gx_channels gx) k2 = Some ch \<longrightarrow> k1 = k2)
     \<and> (\<forall>key cls ch k. od_get (gx_stubs gx) (key, cls) = Some (ch, k) \<longrightarrow> od_get (gx_channels gx) key = Some ch)"

text \<open>A client holds a live reference when its channel is the one cached under its key.\<close>

definition gc_live :: "grpc_cache \<Rightarrow> grpc_client \<Rightarrow> bool" where
  "gc_live gx c \<longleftrightarrow> (\<exists>key ch. gc_channel c = Some ch \<and> gc_key c = Some key \<and> od_get (gx_channels gx) key = Some ch)"

lemma gx_inv_init [simp]: "gx_inv gx_init"
  by (simp add: gx_inv_def gx_init_def od_has_def)

lemma gx_inv_init_channel:
  assumes "gx_inv gx"
  shows "gx_inv (snd (gc_init_channel cfg c gx)) \<and> gc_live (snd (gc_init_channel cfg c gx)) (fst (gc_init_channel cfg c gx))"
proof (cases "od_get (gx_channels gx) (channel_key cfg)")
  case (Some ch)
  with assms show ?thesis
    by (auto simp: gx_inv_def gc_init_channel_def Let_def od_has_def gc_live_def split: option.splits)
      (meson order_less_imp_le)
next
  case None
  let ?key = "channel_key cfg" and ?ch = "gx_next gx"
  let ?gx = "gx\<lparr>gx_channels := od_set ?key ?ch (gx_channels gx), gx_refs := od_set ?key 1 (gx_refs gx), gx_next := Suc ?ch\<rparr>"
  have bound: "od_get (gx_channels gx) key = Some ch \<Longrightarrow> ch < ?ch" for key ch
    using assms by (simp add: gx_inv_def)
  have old: "od_get (gx_stubs gx) (key, cls) = Some (ch, k) \<Longrightarrow> key \<noteq> ?key \<and> od_get (gx_channels gx) key = Some ch"
    for key cls ch k
    using assms None unfolding gx_inv_def by (metis option.distinct(1))
  have closed: "?ch \<notin> set (gx_closed gx)"
    using assms by (auto simp: gx_inv_def)
  have "gx_inv ?gx"
    unfolding gx_inv_def using assms bound old closed
    by (auto simp: gx_inv_def od_has_def less_Suc_eq split: if_splits)
  moreover have "gc_live ?gx (fst (gc_init_channel cfg c gx))"
    using None by (simp add: gc_live_def gc_init_channel_def Let_def)
  ultimately show ?thesis using None by (simp add: gc_init_channel_def Let_def)
qed

lemma gx_inv_purge_close:
  assumes "gx_inv gx" and "od_get (gx_channels gx) key = Some ch"
  shows "gx_inv (gx_close (Some ch) (gx_purge key gx))"
proof -
  have uniq: "od_get (gx_channels gx) k = Some ch \<Longrightarrow> k = key" for k
    using assms unfolding gx_inv_def by blast
  have wf: "od_wf (gx_stubs gx)" using assms(1) by (simp add: gx_inv_def)
  show ?thesis
    using assms uniq
    by (auto simp: gx_inv_def gx_close_def gx_purge_def od_has_def od_get_filter [OF wf] split: option.splits if_splits)
qed

lemma gx_refs_get: "gx_inv gx \<Longrightarrow> od_get (gx_refs gx) key = Some n \<Longrightarrow> \<exists>ch. od_get (gx_channels gx) key = Some ch"
  unfolding gx_inv_def od_has_def by (metis not_None_eq)

lemma gx_inv_dec: "gx_inv gx \<Longrightarrow> od_get (gx_refs gx) key = Some n \<Longrightarrow> 1 < n
    \<Longrightarrow> gx_inv (gx\<lparr>gx_refs := od_set key (n - 1) (gx_refs gx)\<rparr>)"
  by (auto simp: gx_inv_def od_has_def)

lemma gx_inv_purge_ignores_refs:
  "gx_purge key (gx\<lparr>gx_refs := od_set key n (gx_refs gx)\<rparr>) = gx_purge key gx"
  by (simp add: gx_purge_def od_del_def od_set_def delete_update_same)

lemma gx_inv_release:
  assumes "gx_inv gx" shows "gx_inv (gc_release_cached_channel key gx)"
proof (cases "od_get (gx_refs gx) key")
  case None
  with assms show ?thesis by (simp add: gc_release_cached_channel_def)
next
  case (Some n)
  with assms obtain ch where ch: "od_get (gx_channels gx) key = Some ch" by (blast dest: gx_refs_get)
  from assms Some have "0 < n" by (simp add: gx_inv_def)
  show ?thesis
  proof (cases "n - 1 \<le> 0")
    case True
    with Some ch gx_inv_purge_close [OF assms ch] show ?thesis
      by (simp add: gc_release_cached_channel_def Let_def gx_inv_purge_ignores_refs)
  next
    case False
    with Some gx_inv_dec [OF assms Some] show ?thesis by (simp add: gc_release_cached_channel_def)
  qed
qed

lemma gx_inv_evict: "gx_inv gx \<Longrightarrow> gx_inv (gc_evict_cached_channel key gx)"
proof (cases "od_get (gx_channels gx) key")
  case None
  assume inv: "gx_inv gx"
  with None have "od_get (gx_refs gx) key = None" unfolding gx_inv_def od_has_def by metis
  moreover have "fst (fst p) \<noteq> key" if "p \<in> set (gx_stubs gx)" for p
  proof -
    obtain k cls ch m where p: "p = ((k, cls), (ch, m))" by (metis prod.collapse)
    from inv that have "od_get (gx_stubs gx) (k, cls) = Some (ch, m)"
      by (simp add: p gx_inv_def od_get_Some_iff)
    with inv have "od_get (gx_channels gx) k = Some ch" unfolding gx_inv_def by blast
    with None p show ?thesis by auto
  qed
  then have "filter (\<lambda>p. fst (fst p) \<noteq> key) (gx_stubs gx) = gx_stubs gx" by (simp add: filter_id_conv)
  ultimately have "gx_purge key gx = gx" using None by (simp add: gx_purge_def)
  with inv None show ?thesis by (simp add: gc_evict_cached_channel_def gx_close_def)
next
  case (Some ch)
  assume inv: "gx_inv gx"
  with Some gx_inv_purge_close [OF inv Some] show ?thesis by (simp add: gc_evict_cached_channel_def)
qed

lemma gx_inv_close_all: "gx_inv gx \<Longrightarrow> gx_inv (gc_close_all_cached_channels gx)"
  by (auto simp: gx_inv_def gc_close_all_cached_channels_def od_has_def od_get_Some_iff)

lemma gx_inv_stub:
  assumes "gx_inv gx" "gc_live gx c"
  shows "gx_inv (snd (gc_get_or_create_stub cls c gx)) \<and> fst (fst (gc_get_or_create_stub cls c gx)) = gc_channel c"
proof -
  from assms(2) obtain key ch where k: "gc_channel c = Some ch" "gc_key c = Some key" "od_get (gx_channels gx) key = Some ch"
    by (auto simp: gc_live_def)
  show ?thesis
  proof (cases "od_get (gx_stubs gx) (key, cls)")
    case None
    with k assms(1) show ?thesis
      by (auto simp: gc_get_or_create_stub_def gx_inv_def)
  next
    case (Some s)
    obtain ch' m where s: "s = (ch', m)" by (cases s)
    with Some assms(1) have "od_get (gx_channels gx) key = Some ch'" unfolding gx_inv_def by blast
    with k Some s assms(1) show ?thesis by (simp add: gc_get_or_create_stub_def)
  qed
qed

lemma gx_inv_other_tables [simp]:
  "gx_inv (gx\<lparr>gx_breakers := b, gx_bulkheads := h\<rparr>) = gx_inv gx"
  by (simp add: gx_inv_def)

lemma gx_inv_close_channel:
  assumes "gx_inv gx" "gc_live gx c"
  shows "gx_inv (snd (gc_close_channel c gx))"
proof -
  from assms(2) obtain key ch where k: "gc_channel c = Some ch" "gc_key c = Some key" "od_get (gx_channels gx) key = Some ch"
    by (auto simp: gc_live_def)
  with assms(1) have "od_has (gx_refs gx) key" by (simp add: gx_inv_def od_has_def)
  then obtain n where n: "od_get (gx_refs gx) key = Some n" by (auto simp: od_has_def)
  show ?thesis
  proof (cases "n - 1 \<le> 0")
    case True
    with k n gx_inv_purge_close [OF assms(1) k(3)] show ?thesis
      by (simp add: gc_close_channel_def Let_def gx_inv_purge_ignores_refs)
  next
    case False
    with k n gx_inv_dec [OF assms(1) n] show ?thesis by (simp add: gc_close_channel_def Let_def)
  qed
qed

text \<open>The operations that work on a cache key, as one step.\<close>

datatype gx_op = InitChannel client_config grpc_client | ReleaseKey string | EvictKey string | CloseAll

fun gx_step :: "grpc_cache \<Rightarrow> gx_op \<Rightarrow> grpc_cache" where
  "gx_step gx (InitChannel cfg c) = snd (gc_init_channel cfg c gx)"
| "gx_step gx (ReleaseKey key) = gc_release_cached_channel key gx"
| "gx_step gx (EvictKey key) = gc_evict_cached_channel key gx"
| "gx_step gx CloseAll = gc_close_all_cached_channels gx"

lemma gx_inv_step: "gx_inv gx \<Longrightarrow> gx_inv (gx_step gx op)"
  by (cases op) (simp_all add: gx_inv_init_channel gx_inv_release gx_inv_evict gx_inv_close_all)

lemma gx_inv_run: "gx_inv gx \<Longrightarrow> gx_inv (foldl gx_step gx ops)"
  by (induction ops arbitrary: gx) (simp_all add: gx_inv_step)

text \<open>Whatever sequence of channel acquisitions, releases, evictions and shutdowns ran, a client
  that acquires a channel gets one that has not been closed, and a client whose channel is still
  cached under its key gets stubs of that channel only.\<close>

theorem acquired_channel_is_open:
  assumes "gx = foldl gx_step gx_init ops" and "gc_init_channel cfg c gx = (c', gx')"
  shows "\<exists>ch. gc_channel c' = Some ch \<and> ch \<notin> set (gx_closed gx')
    \<and> fst (fst (gc_get_or_create_stub cls c' gx')) = Some ch"
proof -
  have inv: "gx_inv gx" by (simp add: assms(1) gx_inv_run)
  from gx_inv_init_channel [OF inv, of cfg c] have "gx_inv gx'" and live: "gc_live gx' c'"
    by (simp_all add: assms(2))
  from live obtain key ch where ch: "gc_channel c' = Some ch" "od_get (gx_channels gx') key = Some ch"
    by (auto simp: gc_live_def)
  with \<open>gx_inv gx'\<close> have "ch \<notin> set (gx_closed gx')" by (simp add: gx_inv_def)
  with ch gx_inv_stub [OF \<open>gx_inv gx'\<close> live, of cls] show ?thesis by simp
qed

theorem acquired_channel_is_open_witness:
  "let cfg = \<lparr>cc_address = ''h:1'', cc_security = ''insecure'', cc_compression = ''gzip''\<rparr>;
       c = \<lparr>gc_service = ''S'', gc_channel = None, gc_key = None\<rparr>;
       gx = foldl gx_step gx_init [InitChannel cfg c, EvictKey (channel_key cfg)]
   in \<exists>ch. gc_channel (fst (gc_init_channel cfg c gx)) = Some ch \<and> ch \<notin> set (gx_closed (snd (gc_init_channel cfg c gx)))"
  unfolding Let_def using acquired_channel_is_open [OF refl prod.collapse [symmetric]] by blast

text \<open>
  Counting is not sound across an eviction: a holder of the evicted channel releases by key and
  so takes a reference of the channel that was created after the eviction.
\<close>

text \<open>After an eviction the reference count no longer protects the new channel: when two
  dial-backs share a channel, one evicts and re-dials, and the other one then releases its (already
  closed) channel by key, the re-dialled channel is closed although its only user never released it.\<close>

theorem eviction_lets_stale_holder_close_new_channel:
  fixes cfg :: client_config and c :: grpc_client
  defines "key \<equiv> channel_key cfg"
  defines "before \<equiv> foldl gx_step gx_init [InitChannel cfg c, InitChannel cfg c, EvictKey key, InitChannel cfg c]"
  shows "od_get (gx_channels before) key = Some 1 \<and> gx_closed before = [0]
    \<and> gx_closed (gx_step before (ReleaseKey key)) = [0, 1]"
  by (simp add: before_def gc_init_channel_def gx_init_def Let_def key_def gc_evict_cached_channel_def
      gx_close_def gx_purge_def gc_release_cached_channel_def)

section \<open>Executing a query\<close>

datatype status_code = S_OK | S_CANCELLED | S_UNKNOWN | S_INVALID_ARGUMENT | S_DEADLINE_EXCEEDED | S_NOT_FOUND
  | S_ALREADY_EXISTS | S_PERMISSION_DENIED | S_RESOURCE_EXHAUSTED | S_FAILED_PRECONDITION | S_ABORTED
  | S_OUT_OF_RANGE | S_UNIMPLEMENTED | S_INTERNAL | S_UNAVAILABLE | S_DATA_LOSS | S_UNAUTHENTICATED

definition RETRYABLE_CODES :: "status_code list" where
  "RETRYABLE_CODES = [S_UNAVAILABLE, S_INTERNAL, S_DEADLINE_EXCEEDED]"

definition CIRCUIT_FAILURE_CODES :: "status_code list" where
  "CIRCUIT_FAILURE_CODES = RETRYABLE_CODES @ [S_UNKNOWN, S_RESOURCE_EXHAUSTED]"

text \<open>What one attempt ends with: a response, an \<open>RpcError\<close>, or the caller being cancelled in it
  or in the backoff sleep before it.\<close>

datatype 'r attempt = Response 'r | RpcError status_code string | Interrupted

datatype 'r query_result =
    Returned 'r
  | MethodNotFound                          \<comment> \<open>\<open>ServerError\<close>: no such method on the stub\<close>
  | FailedFast cb_error                     \<comment> \<open>\<open>ServerError\<close> wrapping \<open>CircuitOpenError\<close>\<close>
  | ServerErr status_code string bool       \<comment> \<open>code, details, whether the message says "after n attempts"\<close>
  | RetryLoopExited                         \<comment> \<open>\<open>ServerError\<close>: no attempt was made\<close>
  | CancelledErr                            \<comment> \<open>\<open>CancelledError\<close> propagates\<close>
  | BadBreakerSettings cb_error             \<comment> \<open>\<open>ValueError\<close> of the breaker's constructor\<close>

text \<open>
  The retry loop from attempt \<open>i\<close> on: its result, what it records on the breaker and how many
  attempts were made. \<open>clk i\<close> is the clock when the failure of attempt \<open>i\<close> is recorded.
\<close>

function exec_loop ::
    "nat \<Rightarrow> (nat \<Rightarrow> 'r attempt) \<Rightarrow> (nat \<Rightarrow> real) \<Rightarrow> nat \<Rightarrow> 'r query_result \<times> gate_action list \<times> nat" where
  "exec_loop max_retries rpc clk i =
     (case rpc i of
        Response r \<Rightarrow> (Returned r, [RecordSuccess], Suc i)
      | Interrupted \<Rightarrow> (CancelledErr, [], Suc i)
      | RpcError code details \<Rightarrow>
          if code \<in> set RETRYABLE_CODES \<and> i < max_retries then exec_loop max_retries rpc clk (Suc i)
          else (ServerErr code details (code \<in> set RETRYABLE_CODES),
                [if code \<in> set CIRCUIT_FAILURE_CODES then RecordFailure (clk i) else RecordSuccess], Suc i))"
  by pat_completeness auto
termination
  by (relation "measure (\<lambda>(max_retries, rpc, clk, i). max_retries - i)") auto

declare exec_loop.simps [simp del]

text \<open>
  \<open>exec_grpc_query\<close> with \<open>now\<close> the clock of the circuit check. The third component is the number
  of RPC attempts made. The breaker object is written back under its service name.
\<close>

definition exec_grpc_query ::
    "int \<Rightarrow> real \<Rightarrow> int \<Rightarrow> bool \<Rightarrow> string \<Rightarrow> real \<Rightarrow> (nat \<Rightarrow> 'r attempt) \<Rightarrow> (nat \<Rightarrow> real) \<Rightarrow> cb_instances
      \<Rightarrow> 'r query_result \<times> cb_instances \<times> nat" where
  "exec_grpc_query fmax rt max_retries has_method service now rpc clk insts =
     (if \<not> has_method then (MethodNotFound, insts, 0)
      else case cb_get_or_create fmax rt service insts of
        Inl e \<Rightarrow> (BadBreakerSettings e, insts, 0)
      | Inr (cb, insts1) \<Rightarrow>
          (case cb_check now cb of
             (Inl e, cb1) \<Rightarrow> (FailedFast e, od_set service cb1 insts1, 0)
           | (Inr _, cb1) \<Rightarrow>
               (case (if max_retries < 0 then (RetryLoopExited, [], 0) else exec_loop (nat max_retries) rpc clk 0) of
                  (res, acts, n) \<Rightarrow>
                    (res, od_set service (snd (cb_release_probe (fold cb_act acts cb1))) insts1, n))))"

lemma exec_loop_attempts: "i \<le> max_retries \<Longrightarrow> snd (snd (exec_loop max_retries rpc clk i)) \<le> Suc max_retries"
proof (induction max_retries rpc clk i rule: exec_loop.induct)
  case (1 max_retries rpc clk i)
  then show ?case
    by (cases "rpc i") (auto simp: exec_loop.simps [of max_retries rpc clk i])
qed

lemma exec_loop_one_action: "length (fst (snd (exec_loop max_retries rpc clk i))) \<le> 1"
proof (induction max_retries rpc clk i rule: exec_loop.induct)
  case (1 max_retries rpc clk i)
  then show ?case
    by (cases "rpc i") (auto simp: exec_loop.simps [of max_retries rpc clk i])
qed

text \<open>Where the loop stops: at the first attempt that is not a retryable error, or the last one.\<close>

definition retries :: "(nat \<Rightarrow> 'r attempt) \<Rightarrow> nat \<Rightarrow> bool" where
  "retries rpc i \<longleftrightarrow> (\<exists>code details. rpc i = RpcError code details \<and> code \<in> set RETRYABLE_CODES)"

definition settle :: "(nat \<Rightarrow> 'r attempt) \<Rightarrow> (nat \<Rightarrow> real) \<Rightarrow> nat \<Rightarrow> 'r query_result \<times> gate_action list \<times> nat" where
  "settle rpc clk k =
     (case rpc k of
        Response r \<Rightarrow> (Returned r, [RecordSuccess], Suc k)
      | Interrupted \<Rightarrow> (CancelledErr, [], Suc k)
      | RpcError code details \<Rightarrow>
          (ServerErr code details (code \<in> set RETRYABLE_CODES),
           [if code \<in> set CIRCUIT_FAILURE_CODES then RecordFailure (clk k) else RecordSuccess], Suc k))"

lemma exec_loop_settles:
  assumes "i \<le> k" "k \<le> max_retries" "\<And>j. i \<le> j \<Longrightarrow> j < k \<Longrightarrow> retries rpc j" "k = max_retries \<or> \<not> retries rpc k"
  shows "exec_loop max_retries rpc clk i = settle rpc clk k"
  using assms
proof (induction max_retries rpc clk i rule: exec_loop.induct)
  case (1 max_retries rpc clk i)
  show ?case
  proof (cases "i = k")
    case True
    with "1.prems" show ?thesis
      by (subst exec_loop.simps) (auto simp: settle_def retries_def split: attempt.splits)
  next
    case False
    with "1.prems" have "retries rpc i" by simp
    then obtain code details where r: "rpc i = RpcError code details" "code \<in> set RETRYABLE_CODES"
      by (auto simp: retries_def)
    from False "1.prems"(1,2) have "i < max_retries" "Suc i \<le> k" by simp_all
    with r have "exec_loop max_retries rpc clk i = exec_loop max_retries rpc clk (Suc i)"
      by (simp add: exec_loop.simps [of max_retries rpc clk i])
    also have "\<dots> = settle rpc clk k"
      by (rule "1.IH" [OF r(1)]) (use r \<open>i < max_retries\<close> \<open>Suc i \<le> k\<close> "1.prems" in auto)
    finally show ?thesis .
  qed
qed

text \<open>A query on a closed circuit makes its attempts one after the other and stops at the first
  one that is not a transient error, or at attempt \<open>max_retries + 1\<close>; the caller gets that attempt's
  outcome; exactly one outcome is recorded on the breaker (a failure only for service-health codes,
  a success also for application errors) and no half-open probe is left held.\<close>

theorem exec_query_retry_contract:
  assumes inv: "cb_inv cb" and stored: "od_get insts service = Some cb" and closed: "cb_state cb = CLOSED"
    and k: "k \<le> nat max_retries" "0 \<le> max_retries" "\<forall>j<k. retries rpc j" "k = nat max_retries \<or> \<not> retries rpc k"
    and run: "exec_grpc_query fmax rt max_retries True service now rpc clk insts = (res, insts', n)"
  shows "res = fst (settle rpc clk k) \<and> n = Suc k
    \<and> (\<exists>cb'. od_get insts' service = Some cb' \<and> cb_inv cb' \<and> \<not> cb_half_open_lock cb'
          \<and> cb_state cb' = cb_state (fold cb_act (fst (snd (settle rpc clk k))) cb))"
proof -
  let ?acts = "fst (snd (settle rpc clk k))"
  have check: "cb_check now cb = (Inr (), cb)"
    using closed by (simp add: cb_check_def cb_observe_def)
  have loop: "exec_loop (nat max_retries) rpc clk 0 = settle rpc clk k"
    using k by (intro exec_loop_settles) auto
  have run': "res = fst (settle rpc clk k)" "n = snd (snd (settle rpc clk k))"
      "insts' = od_set service (snd (cb_release_probe (fold cb_act ?acts cb))) insts"
    using run stored check loop k(2) by (auto simp: exec_grpc_query_def cb_get_or_create_def split: prod.splits)
  have "n = Suc k" using run' by (simp add: settle_def split: attempt.splits)
  moreover have "cb_state (snd (cb_release_probe (fold cb_act ?acts cb))) = cb_state (fold cb_act ?acts cb)"
    by (simp add: cb_release_probe_def)
  moreover have "od_get insts' service = Some (snd (cb_release_probe (fold cb_act ?acts cb)))"
    by (simp add: run')
  ultimately show ?thesis
    using run'(1) cbg.call_settled [OF inv, of ?acts] cbg.call_inv [OF inv, of ?acts] by blast
qed

theorem exec_query_retry_contract_witness:
  "let cb = \<lparr>cb_service_id = ''S'', cb_state = CLOSED, cb_failure_count = 4, cb_fail_max = 5, cb_reset_timeout = 30,
       cb_last_failure_time = 0, cb_half_open_lock = False\<rparr>;
     rpc = (\<lambda>i::nat. if i = 0 then RpcError S_UNAVAILABLE ''down'' else RpcError S_NOT_FOUND ''no'') :: nat \<Rightarrow> unit attempt
   in fst (exec_grpc_query 5 30 2 True ''S'' 7 rpc (\<lambda>i. 8) [(''S'', cb)]) = ServerErr S_NOT_FOUND ''no'' False"
proof -
  define cb where "cb = \<lparr>cb_service_id = ''S'', cb_state = CLOSED, cb_failure_count = 4, cb_fail_max = 5, cb_reset_timeout = 30,
       cb_last_failure_time = 0, cb_half_open_lock = False\<rparr>"
  define rpc :: "nat \<Rightarrow> unit attempt" where
    "rpc = (\<lambda>i. if i = 0 then RpcError S_UNAVAILABLE ''down'' else RpcError S_NOT_FOUND ''no'')"
  obtain res insts' n where run: "exec_grpc_query 5 30 2 True ''S'' 7 rpc (\<lambda>i. 8) [(''S'', cb)] = (res, insts', n)"
    by (cases "exec_grpc_query 5 30 2 True ''S'' 7 rpc (\<lambda>i. 8) [(''S'', cb)]") auto
  have "res = fst (settle rpc (\<lambda>i. 8) 1)"
    using exec_query_retry_contract [OF _ _ _ _ _ _ _ run, of cb 1]
    by (simp add: cb_def cb_inv_def od_get_def rpc_def retries_def RETRYABLE_CODES_def)
  with run show ?thesis by (simp add: Let_def cb_def rpc_def settle_def RETRYABLE_CODES_def)
qed

text \<open>While the circuit is open a query fails without any network attempt and without changing
  the recorded state of the breaker.\<close>

theorem exec_query_fails_fast:
  assumes "od_get insts service = Some cb" "cb_state cb = OPEN" "now - cb_last_failure_time cb < cb_reset_timeout cb"
  shows "exec_grpc_query fmax rt max_retries True service now rpc clk insts = (FailedFast CircuitOpen, insts, 0)"
proof -
  have "od_set service cb insts = insts"
    using assms(1) by (simp add: od_set_def od_get_def update_triv)
  with assms show ?thesis
    by (simp add: exec_grpc_query_def cb_get_or_create_def cb_check_def cb_observe_def)
qed

theorem exec_query_fails_fast_witness:
  "let cb = \<lparr>cb_service_id = ''S'', cb_state = OPEN, cb_failure_count = 5, cb_fail_max = 5, cb_reset_timeout = 30,
       cb_last_failure_time = 100, cb_half_open_lock = False\<rparr>
   in exec_grpc_query 5 30 2 True ''S'' 129 (\<lambda>i. Response ()) (\<lambda>i. 130) [(''S'', cb)] = (FailedFast CircuitOpen, [(''S'', cb)], 0)"
  unfolding Let_def by (rule exec_query_fails_fast, simp add: od_get_def) simp_all

text \<open>The probe released when a call ends need not be its own: a call admitted while the circuit
  was closed, and cancelled once another call is probing the half-open circuit, frees that probe's
  slot, so a second probe is admitted while the first one is still in flight.\<close>

theorem cancelled_call_frees_foreign_probe:
  fixes c0 :: circuit_breaker
  assumes "cb_inv c0" "cb_state c0 = CLOSED" "cb_fail_max c0 = 1" "cb_reset_timeout c0 = 30"
  defines "opened \<equiv> cb_record_failure 100 (snd (cb_check 99 c0))"
  defines "probing \<equiv> snd (cb_check 130 opened)"
  shows "fst (cb_check 99 c0) = Inr () \<and> fst (cb_check 130 opened) = Inr ()
    \<and> fst (cb_check 131 probing) = Inl ProbeInProgress
    \<and> fst (cb_check 131 (snd (cb_release_probe probing))) = Inr ()"
  using assms(1-4)
  by (simp add: opened_def probing_def cb_check_def cb_observe_def cb_record_failure_def
      cb_release_probe_def cb_inv_def Let_def)

theorem cancelled_call_frees_foreign_probe_witness:
  "fst (cb_check 131 (snd (cb_release_probe (snd (cb_check 130 (cb_record_failure 100 (snd (cb_check 99
     \<lparr>cb_service_id = ''S'', cb_state = CLOSED, cb_failure_count = 0, cb_fail_max = 1, cb_reset_timeout = 30,
      cb_last_failure_time = 0, cb_half_open_lock = False\<rparr>)))))))) = Inr ()"
  using cancelled_call_frees_foreign_probe [of "\<lparr>cb_service_id = ''S'', cb_state = CLOSED,
      cb_failure_count = 0, cb_fail_max = 1, cb_reset_timeout = 30, cb_last_failure_time = 0, cb_half_open_lock = False\<rparr>"]
  by (simp add: cb_inv_def)

end
