(* ===== verification/Stream_Registry.thy ===== *)
theory Stream_Registry
  imports Prelude
begin

text \<open>
  The per-instance table of stream sessions (\<open>grpc_servers/stream_registry.py\<close> and
  \<open>stream_session.py\<close>): a bounded dictionary in least-recently-used order, and the set of
  supervised asyncio tasks. A session is its identifier and its stop event; an asyncio task is
  its name, which the done-callback parses.
\<close>

record stream_session =
  ss_task_id :: string
  ss_stopped :: bool

definition ss_init :: "string \<Rightarrow> stream_session" where
  "ss_init tid = \<lparr>ss_task_id = tid, ss_stopped = False\<rparr>"

definition ss_stop :: "stream_session \<Rightarrow> stream_session" where
  "ss_stop s = s\<lparr>ss_stopped := True\<rparr>"

definition ss_teardown :: "stream_session \<Rightarrow> stream_session" where
  "ss_teardown s = s\<lparr>ss_stopped := True\<rparr>"

record stream_registry =
  sr_cache :: "(string, stream_session) odict"
  sr_tasks :: "string set"

definition sr_init :: stream_registry where
  "sr_init = \<lparr>sr_cache = [], sr_tasks = {}\<rparr>"

definition sr_active_count :: "stream_registry \<Rightarrow> nat" where
  "sr_active_count r = length (sr_cache r)"

definition sr_register :: "nat \<Rightarrow> stream_session \<Rightarrow> stream_registry \<Rightarrow> bool \<times> stream_registry" where
  "sr_register max_streams s r =
     (if max_streams \<le> length (sr_cache r) then (False, r)
      else (True, r\<lparr>sr_cache := od_move_to_end (ss_task_id s) (od_set (ss_task_id s) s (sr_cache r))\<rparr>))"

definition sr_get :: "string \<Rightarrow> stream_registry \<Rightarrow> stream_session option \<times> stream_registry" where
  "sr_get tid r =
     (case od_get (sr_cache r) tid of
        None \<Rightarrow> (None, r)
      | Some s \<Rightarrow> (Some s, r\<lparr>sr_cache := od_move_to_end tid (sr_cache r)\<rparr>))"

definition sr_unregister :: "string \<Rightarrow> stream_registry \<Rightarrow> stream_session option \<times> stream_registry" where
  "sr_unregister tid r = (od_get (sr_cache r) tid, r\<lparr>sr_cache := od_del tid (sr_cache r)\<rparr>)"

definition sr_monitor_task :: "string \<Rightarrow> stream_registry \<Rightarrow> stream_registry" where
  "sr_monitor_task name r = r\<lparr>sr_tasks := insert name (sr_tasks r)\<rparr>"

text \<open>
  The done-callback of a supervised task: it is forgotten, and when it was the dial-back of a
  session that is still cached and an event loop is running, a reap task for that session is
  created and supervised. The second component is the identifier to reap, if any.
\<close>

definition sr_on_task_done :: "bool \<Rightarrow> string \<Rightarrow> stream_registry \<Rightarrow> stream_registry \<times> string option" where
  "sr_on_task_done loop_running name r0 =
     (let r = r0\<lparr>sr_tasks := sr_tasks r0 - {name}\<rparr> in
      if starts_with name ''dial_consumer_'' then
        let tid = drop (length ''dial_consumer_'') name in
        if od_has (sr_cache r) tid \<and> loop_running
        then (r\<lparr>sr_tasks := insert (''reap_'' @ tid) (sr_tasks r)\<rparr>, Some tid)
        else (r, None)
      else (r, None))"

text \<open>\<open>_reap_local\<close>: the session it tears down, if it was still there.\<close>

definition sr_reap_local :: "string \<Rightarrow> stream_registry \<Rightarrow> stream_registry \<times> stream_session option" where
  "sr_reap_local tid r =
     (case sr_unregister tid r of (s, r') \<Rightarrow> (r', map_option ss_teardown s))"

text \<open>
  \<open>shutdown\<close>. Cancelling the supervised tasks runs their \<open>finally\<close> blocks, which unregister
  sessions: \<open>cleaned\<close> is the list of identifiers they unregister while the gather waits. The
  sessions still cached afterwards are swept; they are returned in the order they are torn down.
\<close>

fun sr_sweep :: "string list \<Rightarrow> stream_registry \<Rightarrow> stream_registry \<times> stream_session list" where
  "sr_sweep [] r = (r, [])"
| "sr_sweep (tid # tids) r =
     (case sr_unregister tid r of
        (None, r') \<Rightarrow> sr_sweep tids r'
      | (Some s, r') \<Rightarrow> (case sr_sweep tids r' of (r'', torn) \<Rightarrow> (r'', ss_teardown s # torn)))"

definition sr_shutdown :: "string list \<Rightarrow> stream_registry \<Rightarrow> stream_registry \<times> stream_session list" where
  "sr_shutdown cleaned r0 =
     (let r1 = (if sr_tasks r0 = {} then r0
                else (fold (\<lambda>tid r. snd (sr_unregister tid r)) cleaned r0)\<lparr>sr_tasks := {}\<rparr>)
      in sr_sweep (map fst (sr_cache r1)) r1)"

section \<open>Invariant and contract\<close>

definition sr_inv :: "stream_registry \<Rightarrow> bool" where
  "sr_inv r \<longleftrightarrow> od_wf (sr_cache r) \<and> (\<forall>tid s. od_get (sr_cache r) tid = Some s \<longrightarrow> ss_task_id s = tid)"

lemma sr_inv_init [simp]: "sr_inv sr_init"
  by (simp add: sr_inv_def sr_init_def)

lemma sr_inv_get [simp]: "sr_inv r \<Longrightarrow> sr_inv (snd (sr_get tid r))"
  by (auto simp: sr_inv_def sr_get_def split: option.splits)

lemma sr_inv_register: "sr_inv r \<Longrightarrow> sr_inv (snd (sr_register m s r))"
  by (auto simp: sr_inv_def sr_register_def)

lemma sr_inv_unregister [simp]: "sr_inv r \<Longrightarrow> sr_inv (snd (sr_unregister tid r))"
  by (auto simp: sr_inv_def sr_unregister_def)

lemma sr_bound_register:
  "length (sr_cache r) \<le> m \<Longrightarrow> sr_inv r \<Longrightarrow> length (sr_cache (snd (sr_register m s r))) \<le> m"
  by (auto simp: sr_register_def sr_inv_def length_od_move_to_end length_od_set)

definition sr_lookup :: "stream_registry \<Rightarrow> string \<Rightarrow> stream_session option" where
  "sr_lookup r tid = fst (sr_get tid r)"

lemma sr_lookup_cache: "sr_lookup r tid = od_get (sr_cache r) tid"
  by (simp add: sr_lookup_def sr_get_def split: option.splits)

lemma sr_lookup_after_get [simp]: "sr_lookup (snd (sr_get t r)) tid = sr_lookup r tid"
  by (simp add: sr_lookup_cache sr_get_def split: option.splits)

definition sr_put :: "nat \<Rightarrow> string \<Rightarrow> stream_session \<Rightarrow> stream_registry \<Rightarrow> stream_registry option" where
  "sr_put m tid s r =
     (case sr_register m s r of (ok, r') \<Rightarrow> if ok \<and> ss_task_id s = tid then Some r' else None)"

definition sr_drop :: "string \<Rightarrow> stream_registry \<Rightarrow> stream_registry" where
  "sr_drop tid r = snd (sr_unregister tid r)"

text \<open>The table contract; a session is stored under its own identifier.\<close>

interpretation srt: session_table sr_lookup "sr_put m" sr_drop sr_inv for m
proof unfold_locales
  fix r r' :: stream_registry and tid tid' :: string and s :: stream_session
  assume inv: "sr_inv r"
  show "sr_lookup (sr_drop tid r) tid' = (if tid' = tid then None else sr_lookup r tid')"
    by (simp add: sr_lookup_cache sr_drop_def sr_unregister_def)
  show "sr_inv (sr_drop tid r)" using inv by (simp add: sr_drop_def)
  assume put: "sr_put m tid s r = Some r'"
  then have r': "r' = snd (sr_register m s r)" and ok: "fst (sr_register m s r)" and tid: "ss_task_id s = tid"
    by (auto simp: sr_put_def split: prod.splits if_splits)
  show "sr_lookup r' tid' = (if tid' = tid then Some s else sr_lookup r tid')"
    using r' ok tid by (auto simp: sr_lookup_cache sr_register_def split: if_splits)
  show "sr_inv r'" using inv sr_inv_register r' by simp
qed

section \<open>Sweeping\<close>

lemma sr_sweep_state: "fst (sr_sweep tids r) = fold sr_drop tids r"
  by (induction tids r rule: sr_sweep.induct) (auto simp: sr_drop_def split: prod.splits option.splits)

lemma sr_lookup_unregister:
  "sr_lookup (snd (sr_unregister tid r)) t = (if t = tid then None else sr_lookup r t)"
  by (simp add: sr_lookup_cache sr_unregister_def)

lemma sr_sweep_torn:
  "distinct tids \<Longrightarrow> snd (sr_sweep tids r) = map ss_teardown (filter_map (sr_lookup r) tids)"
proof (induction tids arbitrary: r)
  case Nil
  then show ?case by simp
next
  case (Cons tid tids)
  let ?r = "snd (sr_unregister tid r)"
  have "filter_map (sr_lookup ?r) tids = filter_map (sr_lookup r) tids"
    using Cons.prems by (intro filter_map_cong) (auto simp: sr_lookup_unregister)
  with Cons have "snd (sr_sweep tids ?r) = map ss_teardown (filter_map (sr_lookup r) tids)"
    by simp
  moreover have "fst (sr_unregister tid r) = sr_lookup r tid"
    by (simp add: sr_unregister_def sr_lookup_cache)
  ultimately show ?case
    by (auto split: option.splits prod.splits)
qed

lemma sr_cleaned_is_sweep: "fold (\<lambda>tid r. snd (sr_unregister tid r)) tids r = fold sr_drop tids r"
  by (induction tids arbitrary: r) (simp_all add: sr_drop_def)

lemma sr_lookup_drop: "sr_lookup (sr_drop tid r) t = (if t = tid then None else sr_lookup r t)"
  by (simp add: sr_drop_def sr_lookup_unregister)

lemma sr_lookup_sweep: "sr_lookup (fold sr_drop tids r) t = (if t \<in> set tids then None else sr_lookup r t)"
  by (induction tids arbitrary: r) (auto simp: sr_lookup_drop)

lemma sr_drop_keys: "fst ` set (sr_cache (fold sr_drop tids r)) = fst ` set (sr_cache r) - set tids"
  by (induction tids arbitrary: r) (auto simp: sr_drop_def sr_unregister_def od_keys_del)

lemma sr_cache_empty_iff: "sr_cache r = [] \<longleftrightarrow> (\<forall>tid. sr_lookup r tid = None)"
  by (cases "sr_cache r") (auto simp: sr_lookup_cache od_get_def)

lemma sr_drop_tasks [simp]: "sr_tasks (fold sr_drop tids r) = sr_tasks r"
  by (induction tids arbitrary: r) (simp_all add: sr_drop_def sr_unregister_def)

text \<open>However the cancelled tasks' clean-up interleaves, \<open>shutdown\<close> leaves no session cached
  and no task supervised, and it tears down every session that no task unregistered: the sessions
  torn down are stopped and are exactly the cached ones outside the cleaned-up identifiers, in
  cache order.\<close>

theorem stream_registry_shutdown:
  assumes "sr_inv r" and "sr_shutdown cleaned r = (r', torn)"
  shows "sr_cache r' = [] \<and> sr_tasks r' = {} \<and> (\<forall>s\<in>set torn. ss_stopped s)
    \<and> ss_task_id ` set torn
        = fst ` set (sr_cache r) - (if sr_tasks r = {} then {} else set cleaned)"
proof -
  define r1 where "r1 = (if sr_tasks r = {} then r else (fold sr_drop cleaned r)\<lparr>sr_tasks := {}\<rparr>)"
  have inv1: "sr_inv r1" and tasks1: "sr_tasks r1 = {}"
    using assms(1) srt.inv_sweep [of r cleaned] by (auto simp: sr_inv_def r1_def)
  have keys: "fst ` set (sr_cache r1) = fst ` set (sr_cache r) - (if sr_tasks r = {} then {} else set cleaned)"
    by (simp add: sr_drop_keys r1_def)
  from inv1 have dist: "distinct (map fst (sr_cache r1))" by (simp add: sr_inv_def od_wf_def)
  have run: "sr_sweep (map fst (sr_cache r1)) r1 = (r', torn)"
    using assms(2) by (simp only: sr_shutdown_def Let_def sr_cleaned_is_sweep r1_def)
  have r': "r' = fold sr_drop (map fst (sr_cache r1)) r1"
    using sr_sweep_state [of "map fst (sr_cache r1)" r1] run by simp
  have torn: "torn = map ss_teardown (filter_map (sr_lookup r1) (map fst (sr_cache r1)))"
    using sr_sweep_torn [OF dist, of r1] run by simp
  have some: "\<exists>s. sr_lookup r1 t = Some s \<and> ss_task_id s = t" if "t \<in> fst ` set (sr_cache r1)" for t
  proof -
    from that obtain s where "od_get (sr_cache r1) t = Some s"
      using od_get_None_iff [of "sr_cache r1" t] by (cases "od_get (sr_cache r1) t") auto
    with inv1 show ?thesis by (simp add: sr_inv_def sr_lookup_cache)
  qed
  have "sr_lookup r' t = None" for t
    by (simp only: r' sr_lookup_sweep) (auto simp: sr_lookup_cache od_get_None_iff)
  then have empty: "sr_cache r' = []" by (simp add: sr_cache_empty_iff)
  have no_tasks: "sr_tasks r' = {}" by (simp only: r' sr_drop_tasks tasks1)
  have ids: "ss_task_id ` set torn = fst ` set (sr_cache r1)"
  proof
    show "ss_task_id ` set torn \<subseteq> fst ` set (sr_cache r1)"
    proof
      fix t assume "t \<in> ss_task_id ` set torn"
      then obtain s where s: "s \<in> set (filter_map (sr_lookup r1) (map fst (sr_cache r1)))" and t: "t = ss_task_id s"
        by (auto simp: torn ss_teardown_def)
      from s obtain k where k: "k \<in> set (map fst (sr_cache r1))" and "sr_lookup r1 k = Some s"
        unfolding set_filter_map by blast
      from k have "k \<in> fst ` set (sr_cache r1)" by simp
      with some [of k] \<open>sr_lookup r1 k = Some s\<close> t show "t \<in> fst ` set (sr_cache r1)" by auto
    qed
    show "fst ` set (sr_cache r1) \<subseteq> ss_task_id ` set torn"
    proof
      fix t assume t: "t \<in> fst ` set (sr_cache r1)"
      with some [of t] obtain s where "sr_lookup r1 t = Some s" "ss_task_id s = t" by blast
      moreover from t have "t \<in> set (map fst (sr_cache r1))" by simp
      ultimately have "s \<in> set (filter_map (sr_lookup r1) (map fst (sr_cache r1)))"
        unfolding set_filter_map by blast
      then have "ss_teardown s \<in> set torn" by (simp add: torn)
      moreover from \<open>ss_task_id s = t\<close> have "t = ss_task_id (ss_teardown s)" by (simp add: ss_teardown_def)
      ultimately show "t \<in> ss_task_id ` set torn" by (rule rev_image_eqI)
    qed
  qed
  have "\<forall>s\<in>set torn. ss_stopped s" by (simp add: torn ss_teardown_def)
  with ids keys empty no_tasks show ?thesis by simp
qed

theorem stream_registry_shutdown_witness:
  "ss_task_id ` set (snd (sr_shutdown [''t1'']
      \<lparr>sr_cache = [(''t1'', ss_init ''t1''), (''t2'', ss_init ''t2'')], sr_tasks = {''dial_consumer_t1''}\<rparr>)) = {''t2''}"
proof -
  let ?r = "\<lparr>sr_cache = [(''t1'', ss_init ''t1''), (''t2'', ss_init ''t2'')], sr_tasks = {''dial_consumer_t1''}\<rparr>"
  have inv: "sr_inv ?r"
    by (simp add: sr_inv_def od_wf_def od_get_def ss_init_def)
  show ?thesis
    using stream_registry_shutdown [OF inv prod.collapse [symmetric], of "[''t1'']"] by auto
qed

end
