(* ===== verification/Struct_Value.thy ===== *)
theory Struct_Value
  imports Prelude
begin

text \<open>
  The JSON-like messages that travel on the streams: \<open>google.protobuf.Struct\<close> values as data,
  with the accessors the gateway code applies to them. In protobuf a field read as the wrong kind
  gives the kind's default (an empty struct, the empty string, false), which the accessors follow.
\<close>

datatype pvalue =
    PNull
  | PNum real
  | PBool bool
  | PStr string
  | PList "pvalue list"
  | PStruct "(string \<times> pvalue) list"

type_synonym pstruct = "(string, pvalue) odict"

fun struct_value :: "pvalue \<Rightarrow> pstruct" where
  "struct_value (PStruct fs) = fs"
| "struct_value _ = []"

fun string_value :: "pvalue \<Rightarrow> string" where
  "string_value (PStr s) = s"
| "string_value _ = []"

fun bool_value :: "pvalue \<Rightarrow> bool" where
  "bool_value (PBool b) = b"
| "bool_value _ = False"

text \<open>\<open>data and len(data.fields) > 0\<close>\<close>

definition has_fields :: "pstruct \<Rightarrow> bool" where
  "has_fields d \<longleftrightarrow> d \<noteq> []"

text \<open>The protocol name under \<open>root\<close>, as \<open>handle_dial_back_receive\<close> reads it.\<close>

definition root_protocol :: "pstruct \<Rightarrow> string" where
  "root_protocol d =
     (case od_get d ''root'' of
        None \<Rightarrow> ''''
      | Some r \<Rightarrow> (case od_get (struct_value r) ''protocol'' of
                     None \<Rightarrow> ''''
                   | Some p \<Rightarrow> string_value p))"

definition root_fatal :: "pstruct \<Rightarrow> bool" where
  "root_fatal d =
     (case od_get d ''root'' of
        None \<Rightarrow> False
      | Some r \<Rightarrow> (case od_get (struct_value r) ''fatal'' of
                     None \<Rightarrow> False
                   | Some f \<Rightarrow> bool_value f))"

text \<open>A control sentinel: \<open>{"root": {"protocol": p, ...}}\<close>.\<close>

definition sentinel_struct :: "string \<Rightarrow> (string \<times> pvalue) list \<Rightarrow> pstruct" where
  "sentinel_struct protocol fields = [(''root'', PStruct ((''protocol'', PStr protocol) # fields))]"

lemma root_protocol_sentinel [simp]: "root_protocol (sentinel_struct p fs) = p"
  by (simp add: root_protocol_def sentinel_struct_def od_get_def)

lemma has_fields_sentinel [simp]: "has_fields (sentinel_struct p fs)"
  by (simp add: has_fields_def sentinel_struct_def)

end
