(* ===== verification/M2m_Registry.thy ===== *)
theory M2m_Registry
  imports Circuit_Breaker Struct_Value
begin

text \<open>
  The process-wide state of outbound module-to-module calls, \<open>grpc_servers/m2m_call_registry.py\<close>
  and the entry model of \<open>models/grpc_servers/m2m.py\<close>: the table of calls in flight, the
  semaphore that bounds them, the least-recently-used table of per-target circuit breakers, the
  time-to-live sweep, and the reader of a dial-back stream, which feeds the queue the caller waits
  on. A queue is the list of its items; \<open>None\<close> is the end marker.
\<close>

record m2m_entry =
  me_task_id :: string
  me_query :: pstruct
  me_queue :: "pstruct option list"
  me_queue_max :: nat
  me_expires_at :: real
  me_target_key :: string
  me_setup_id :: string
  me_mission_id :: string

record m2m_registry =
  mr_entries :: "(string, m2m_entry) odict"
  mr_permits :: int
  mr_capacity :: int
  mr_breakers :: "(string, circuit_breaker) odict"
  mr_sweeping :: bool

datatype m2m_error = M2MAtCapacity | M2MKeyError

text \<open>\<open>Queue.put_nowait\<close> under \<open>suppress(QueueFull)\<close>: a full bounded queue drops the item.\<close>

definition queue_full :: "m2m_entry \<Rightarrow> bool" where
  "queue_full e \<longleftrightarrow> 0 < me_queue_max e \<and> me_queue_max e \<le> length (me_queue e)"

definition queue_put :: "pstruct option \<Rightarrow> m2m_entry \<Rightarrow> m2m_entry" where
  "queue_put x e = (if queue_full e then e else e\<lparr>me_queue := me_queue e @ [x]\<rparr>)"

definition mr_init :: "int \<Rightarrow> m2m_registry" where
  "mr_init max_concurrent =
     \<lparr>mr_entries = [], mr_permits = max_concurrent, mr_capacity = max_concurrent, mr_breakers = [],
      mr_sweeping = False\<rparr>"

definition mr_register :: "m2m_entry \<Rightarrow> m2m_registry \<Rightarrow> m2m_registry" where
  "mr_register e r = r\<lparr>mr_entries := od_set (me_task_id e) e (mr_entries r)\<rparr>"

definition mr_unregister :: "string \<Rightarrow> m2m_registry \<Rightarrow> m2m_entry option \<times> m2m_registry" where
  "mr_unregister tid r = (od_get (mr_entries r) tid, r\<lparr>mr_entries := od_del tid (mr_entries r)\<rparr>)"

definition mr_get :: "m2m_registry \<Rightarrow> string \<Rightarrow> m2m_entry option" where
  "mr_get r tid = od_get (mr_entries r) tid"

definition mr_has :: "m2m_registry \<Rightarrow> string \<Rightarrow> bool" where
  "mr_has r tid \<longleftrightarrow> od_has (mr_entries r) tid"

definition mr_max_breakers :: nat where
  "mr_max_breakers = 256"

definition mr_breaker_for ::
    "int \<Rightarrow> real \<Rightarrow> string \<Rightarrow> m2m_registry \<Rightarrow> cb_error + (circuit_breaker \<times> m2m_registry)" where
  "mr_breaker_for fmax rt key r =
     (case od_get (mr_breakers r) key of
        Some cb \<Rightarrow> Inr (cb, r\<lparr>mr_breakers := od_move_to_end key (mr_breakers r)\<rparr>)
      | None \<Rightarrow>
          (case cb_init (''m2m:'' @ key) fmax rt of
             Inl e \<Rightarrow> Inl e
           | Inr cb \<Rightarrow>
               let bs = od_set key cb (mr_breakers r) in
               Inr (cb, r\<lparr>mr_breakers := (if mr_max_breakers < length bs then tl bs else bs)\<rparr>)))"

definition mr_acquire_slot :: "m2m_registry \<Rightarrow> m2m_error + m2m_registry" where
  "mr_acquire_slot r =
     (if 0 < mr_permits r then Inr (r\<lparr>mr_permits := mr_permits r - 1\<rparr>) else Inl M2MAtCapacity)"

definition mr_release_slot :: "m2m_registry \<Rightarrow> m2m_registry" where
  "mr_release_slot r = r\<lparr>mr_permits := mr_permits r + 1\<rparr>"

definition mr_effective_advertise_address :: "string \<Rightarrow> string \<Rightarrow> int \<Rightarrow> string" where
  "mr_effective_advertise_address advertise_host host port =
     (if advertise_host \<noteq> '''' then advertise_host else host) @ '':'' @ py_str port"

definition mr_start :: "m2m_registry \<Rightarrow> m2m_registry" where
  "mr_start r = (if \<not> mr_sweeping r then r\<lparr>mr_sweeping := True\<rparr> else r)"

definition mr_stop :: "m2m_registry \<Rightarrow> m2m_registry" where
  "mr_stop r = (if mr_sweeping r then r\<lparr>mr_sweeping := False\<rparr> else r)"

text \<open>
  One pass of \<open>_sweep_loop\<close> over the snapshot of the entries; nothing else runs meanwhile, as the
  pass does not await. \<open>clk\<close> gives the clock value read when the failure of a call is recorded.
  The result carries the reaped entries, with the end marker on their queues.
\<close>

fun mr_sweep_items ::
    "real \<Rightarrow> (string \<Rightarrow> real) \<Rightarrow> int \<Rightarrow> real \<Rightarrow> (string \<times> m2m_entry) list \<Rightarrow> m2m_registry
      \<Rightarrow> (cb_error + unit) \<times> m2m_registry \<times> m2m_entry list" where
  "mr_sweep_items now clk fmax rt [] r = (Inr (), r, [])"
| "mr_sweep_items now clk fmax rt ((tid, e) # items) r =
     (if now \<le> me_expires_at e then mr_sweep_items now clk fmax rt items r
      else
        let r1 = r\<lparr>mr_entries := od_del tid (mr_entries r)\<rparr>; e' = queue_put None e in
        (case mr_breaker_for fmax rt (me_target_key e) r1 of
           Inl err \<Rightarrow> (Inl err, r1, [e'])
         | Inr (cb, r2) \<Rightarrow>
             let r3 = r2\<lparr>mr_breakers := od_set (me_target_key e) (cb_record_failure (clk tid) cb) (mr_breakers r2)\<rparr>
             in (case mr_sweep_items now clk fmax rt items r3 of
                   (res, r4, reaped) \<Rightarrow> (res, r4, e' # reaped))))"

definition mr_sweep ::
    "real \<Rightarrow> (string \<Rightarrow> real) \<Rightarrow> int \<Rightarrow> real \<Rightarrow> m2m_registry
      \<Rightarrow> (cb_error + unit) \<times> m2m_registry \<times> m2m_entry list" where
  "mr_sweep now clk fmax rt r = mr_sweep_items now clk fmax rt (mr_entries r) r"

text \<open>
  The dial-back reader: it answers with the cached query, then moves the messages that carry data
  to the queue until \<open>stream.end\<close> or a fatal \<open>stream.error\<close> (or the end of the iterator), and
  finally puts the end marker.
\<close>

fun m2m_drain :: "pstruct list \<Rightarrow> m2m_entry \<Rightarrow> m2m_entry" where
  "m2m_drain [] e = e"
| "m2m_drain (d # ds) e =
     (if \<not> has_fields d then m2m_drain ds e
      else
        let e' = queue_put (Some d) e in
        if root_protocol d = ''stream.end'' then e'
        else if root_protocol d = ''stream.error'' \<and> root_fatal d then e'
        else m2m_drain ds e')"

definition mr_handle_dial_back_receive ::
    "string \<Rightarrow> pstruct list \<Rightarrow> m2m_registry \<Rightarrow> m2m_error + (pstruct \<times> m2m_entry)" where
  "mr_handle_dial_back_receive tid upstream r =
     (case od_get (mr_entries r) tid of
        None \<Rightarrow> Inl M2MKeyError
      | Some e \<Rightarrow> Inr (me_query e, queue_put None (m2m_drain upstream e)))"

section \<open>Slots and breakers\<close>

definition mr_inv :: "m2m_registry \<Rightarrow> bool" where
  "mr_inv r \<longleftrightarrow> od_wf (mr_entries r) \<and> od_wf (mr_breakers r) \<and> length (mr_breakers r) \<le> mr_max_breakers
     \<and> 0 \<le> mr_permits r \<and> mr_permits r \<le> mr_capacity r"

definition mr_acquire :: "m2m_registry \<Rightarrow> m2m_registry option" where
  "mr_acquire r = (case mr_acquire_slot r of Inl e \<Rightarrow> None | Inr r' \<Rightarrow> Some r')"

definition mr_in_use :: "m2m_registry \<Rightarrow> int" where
  "mr_in_use r = mr_capacity r - mr_permits r"

interpretation mrp: slot_pool mr_acquire mr_release_slot mr_in_use mr_capacity mr_inv
  by unfold_locales
    (auto simp: mr_acquire_def mr_acquire_slot_def mr_release_slot_def mr_in_use_def mr_inv_def split: if_splits)

definition mr_put :: "string \<Rightarrow> m2m_entry \<Rightarrow> m2m_registry \<Rightarrow> m2m_registry option" where
  "mr_put tid e r = (if me_task_id e = tid then Some (mr_register e r) else None)"

definition mr_drop :: "string \<Rightarrow> m2m_registry \<Rightarrow> m2m_registry" where
  "mr_drop tid r = snd (mr_unregister tid r)"

interpretation mrt: session_table mr_get mr_put mr_drop mr_inv
  by unfold_locales
    (auto simp: mr_get_def mr_put_def mr_drop_def mr_register_def mr_unregister_def mr_inv_def split: if_splits)

lemma mr_breaker_for_ok:
  assumes "mr_inv r" "0 < fmax" "0 < rt"
  shows "\<exists>cb r'. mr_breaker_for fmax rt key r = Inr (cb, r') \<and> mr_inv r' \<and> mr_entries r' = mr_entries r
    \<and> mr_permits r' = mr_permits r \<and> mr_capacity r' = mr_capacity r \<and> od_get (mr_breakers r') key = Some cb"
proof (cases "od_get (mr_breakers r) key")
  case (Some cb)
  with assms(1) show ?thesis
    by (auto simp: mr_breaker_for_def mr_inv_def length_od_move_to_end)
next
  case None
  from assms obtain cb where cb: "cb_init (''m2m:'' @ key) fmax rt = Inr cb"
    by (simp add: cb_init_def)
  let ?bs = "mr_breakers r @ [(key, cb)]"
  have "od_set key cb (mr_breakers r) = ?bs" by (rule od_set_new [OF None])
  moreover have "od_wf ?bs"
    using assms(1) None by (auto simp: mr_inv_def od_wf_def od_get_None_iff)
  moreover have "length ?bs \<le> Suc mr_max_breakers" using assms(1) by (simp add: mr_inv_def)
  moreover have "od_get (tl ?bs) key = Some cb" if "mr_max_breakers < length ?bs"
    using that None by (cases "mr_breakers r") (auto simp: mr_max_breakers_def od_get_append od_get_Cons split: if_splits)
  moreover have "od_get ?bs key = Some cb" using None by (simp add: od_get_append od_get_Cons)
  ultimately show ?thesis using assms(1) None cb
    by (auto simp: mr_breaker_for_def Let_def mr_inv_def)
qed

text \<open>Looking a breaker up never lets more than 256 breakers accumulate, leaves the calls in
  flight and the free slots alone, and the breaker answered is the one stored for the target.\<close>

theorem m2m_breaker_table:
  assumes "mr_inv r" "0 < fmax" "0 < rt" and "mr_breaker_for fmax rt key r = Inr (cb, r')"
  shows "length (mr_breakers r') \<le> 256 \<and> od_wf (mr_breakers r') \<and> od_get (mr_breakers r') key = Some cb
    \<and> mr_entries r' = mr_entries r \<and> mr_permits r' = mr_permits r"
  using mr_breaker_for_ok [OF assms(1,2,3), of key] assms(4) by (auto simp: mr_inv_def mr_max_breakers_def)

theorem m2m_breaker_table_witness:
  "\<exists>cb r'. mr_breaker_for 5 30 ''h:1'' (mr_init 200) = Inr (cb, r') \<and> length (mr_breakers r') \<le> 256"
proof -
  have inv: "mr_inv (mr_init 200)" by (simp add: mr_inv_def mr_init_def)
  obtain cb r' where run: "mr_breaker_for 5 30 ''h:1'' (mr_init 200) = Inr (cb, r')"
    by (simp add: mr_breaker_for_def mr_init_def cb_init_def Let_def)
  from m2m_breaker_table [OF inv _ _ run] run show ?thesis by simp
qed

section \<open>The sweep\<close>

definition expired :: "real \<Rightarrow> string \<times> m2m_entry \<Rightarrow> bool" where
  "expired now p \<longleftrightarrow> me_expires_at (snd p) < now"

lemma expired_Pair: "expired now (tid, e) \<longleftrightarrow> me_expires_at e < now"
  by (simp add: expired_def)

lemma mr_sweep_items_spec:
  assumes "mr_inv r" "0 < fmax" "0 < rt"
  shows "\<exists>r'. mr_sweep_items now clk fmax rt items r
      = (Inr (), r', map (\<lambda>p. queue_put None (snd p)) (filter (expired now) items))
    \<and> mr_inv r' \<and> mr_permits r' = mr_permits r
    \<and> mr_entries r' = filter (\<lambda>p. fst p \<notin> fst ` set (filter (expired now) items)) (mr_entries r)"
  using assms(1)
proof (induction items arbitrary: r)
  case Nil
  then show ?case by simp
next
  case (Cons p items)
  obtain tid e where p: "p = (tid, e)" by (cases p)
  show ?case
  proof (cases "now \<le> me_expires_at e")
    case True
    with Cons.IH [OF Cons.prems] show ?thesis by (auto simp: p expired_Pair)
  next
    case False
    let ?r1 = "r\<lparr>mr_entries := od_del tid (mr_entries r)\<rparr>"
    have "mr_inv ?r1" using Cons.prems by (simp add: mr_inv_def)
    then obtain cb r2 where b: "mr_breaker_for fmax rt (me_target_key e) ?r1 = Inr (cb, r2)"
      and r2: "mr_inv r2" "mr_entries r2 = od_del tid (mr_entries r)" "mr_permits r2 = mr_permits r"
        "od_get (mr_breakers r2) (me_target_key e) = Some cb"
      using mr_breaker_for_ok [of ?r1 fmax rt "me_target_key e"] assms(2,3) by auto
    let ?r3 = "r2\<lparr>mr_breakers := od_set (me_target_key e) (cb_record_failure (clk tid) cb) (mr_breakers r2)\<rparr>"
    have "mr_inv ?r3" using r2 by (simp add: mr_inv_def length_od_set od_has_def)
    from Cons.IH [OF this] obtain r' where
      "mr_sweep_items now clk fmax rt items ?r3
        = (Inr (), r', map (\<lambda>p. queue_put None (snd p)) (filter (expired now) items))"
      "mr_inv r'" "mr_permits r' = mr_permits r"
      "mr_entries r' = filter (\<lambda>p. fst p \<notin> fst ` set (filter (expired now) items)) (od_del tid (mr_entries r))"
      using r2 by auto
    with False b show ?thesis
      by (simp add: p expired_Pair Let_def od_del_filter conj_commute)
  qed
qed

text \<open>One sweep removes exactly the calls past their time to live: the others stay, in order;
  every removed call's waiting consumer finds the end marker on its queue (or a full queue), and no
  concurrency slot is touched.\<close>

theorem m2m_sweep_exact:
  assumes "mr_inv r" "0 < fmax" "0 < rt" and "mr_sweep now clk fmax rt r = (res, r', reaped)"
  shows "res = Inr () \<and> mr_entries r' = filter (\<lambda>p. \<not> expired now p) (mr_entries r)
    \<and> map me_task_id reaped = map (me_task_id \<circ> snd) (filter (expired now) (mr_entries r))
    \<and> (\<forall>e\<in>set reaped. queue_full e \<or> (me_queue e \<noteq> [] \<and> last (me_queue e) = None))
    \<and> mr_permits r' = mr_permits r"
proof -
  from assms(1) have dist: "distinct (map fst (mr_entries r))" by (simp add: mr_inv_def od_wf_def)
  have "fst p \<in> fst ` set (filter (expired now) (mr_entries r)) \<longleftrightarrow> expired now p"
    if "p \<in> set (mr_entries r)" for p
    using that dist by (auto simp: distinct_map inj_on_def)
  then have "filter (\<lambda>p. fst p \<notin> fst ` set (filter (expired now) (mr_entries r))) (mr_entries r)
      = filter (\<lambda>p. \<not> expired now p) (mr_entries r)"
    by (intro filter_cong) auto
  moreover have "queue_full e' \<or> (me_queue e' \<noteq> [] \<and> last (me_queue e') = None)"
    if "e' = queue_put None e" for e e'
    using that by (simp add: queue_put_def)
  moreover have "me_task_id (queue_put x e) = me_task_id e" for x e by (simp add: queue_put_def)
  ultimately show ?thesis
    using mr_sweep_items_spec [OF assms(1,2,3), of now clk "mr_entries r"] assms(4)
    by (auto simp: mr_sweep_def)
qed

theorem m2m_sweep_exact_witness:
  "let e = (\<lambda>t x. \<lparr>me_task_id = t, me_query = [], me_queue = [], me_queue_max = 2, me_expires_at = x,
      me_target_key = ''h:1'', me_setup_id = ''s'', me_mission_id = ''m''\<rparr>) in
   mr_entries (fst (snd (mr_sweep 100 (\<lambda>t. 100) 5 30
     ((mr_init 200)\<lparr>mr_entries := [(''a'', e ''a'' 50), (''b'', e ''b'' 100)]\<rparr>)))) = [(''b'', e ''b'' 100)]"
proof -
  define e :: "string \<Rightarrow> real \<Rightarrow> m2m_entry" where "e = (\<lambda>t x. \<lparr>me_task_id = t, me_query = [], me_queue = [], me_queue_max = 2, me_expires_at = x,
      me_target_key = ''h:1'', me_setup_id = ''s'', me_mission_id = ''m''\<rparr>)"
  define r where "r = (mr_init 200)\<lparr>mr_entries := [(''a'', e ''a'' 50), (''b'', e ''b'' 100)]\<rparr>"
  have inv: "mr_inv r" by (simp add: mr_inv_def mr_init_def r_def od_wf_def)
  obtain res r' reaped where run: "mr_sweep 100 (\<lambda>t. 100) 5 30 r = (res, r', reaped)"
    by (cases "mr_sweep 100 (\<lambda>t. 100) 5 30 r") auto
  have "mr_entries r' = [(''b'', e ''b'' 100)]"
    using m2m_sweep_exact [OF inv _ _ run] by (simp add: r_def e_def expired_def)
  with run show ?thesis by (simp add: r_def e_def Let_def)
qed

section \<open>The dial-back reader\<close>

definition terminal :: "pstruct \<Rightarrow> bool" where
  "terminal d \<longleftrightarrow> has_fields d \<and> (root_protocol d = ''stream.end'' \<or> (root_protocol d = ''stream.error'' \<and> root_fatal d))"

text \<open>The specification: the messages up to and including the first terminal one.\<close>

fun upto_terminal :: "pstruct list \<Rightarrow> pstruct list" where
  "upto_terminal [] = []"
| "upto_terminal (d # ds) = (if terminal d then [d] else d # upto_terminal ds)"

lemma queue_put_room:
  "\<not> queue_full e \<Longrightarrow> me_queue (queue_put x e) = me_queue e @ [x] \<and> me_queue_max (queue_put x e) = me_queue_max e"
  by (simp add: queue_put_def)

lemma m2m_drain_spec:
  assumes "me_queue_max e = 0 \<or> length (me_queue e) + length (filter has_fields (upto_terminal ds)) \<le> me_queue_max e"
  shows "me_queue (m2m_drain ds e) = me_queue e @ map Some (filter has_fields (upto_terminal ds))
    \<and> me_queue_max (m2m_drain ds e) = me_queue_max e"
  using assms
proof (induction ds arbitrary: e)
  case Nil
  then show ?case by simp
next
  case (Cons d ds)
  show ?case
  proof (cases "has_fields d")
    case False
    then have "upto_terminal (d # ds) = d # upto_terminal ds" by (simp add: terminal_def)
    with False Cons.prems Cons.IH [of e] show ?thesis by simp
  next
    case True
    let ?e = "queue_put (Some d) e"
    from True Cons.prems have "\<not> queue_full e" by (auto simp: queue_full_def split: if_splits)
    from queue_put_room [OF this, of "Some d"]
    have put: "me_queue ?e = me_queue e @ [Some d]" "me_queue_max ?e = me_queue_max e" by simp_all
    show ?thesis
    proof (cases "terminal d")
      case True
      with put \<open>has_fields d\<close> show ?thesis by (auto simp: terminal_def Let_def)
    next
      case False
      with \<open>has_fields d\<close> have "m2m_drain (d # ds) e = m2m_drain ds ?e" by (auto simp: terminal_def Let_def)
      with False True put Cons.prems Cons.IH [of ?e] show ?thesis by auto
    qed
  qed
qed

text \<open>When the queue has room, a dial-back delivers to the waiting caller every message that
  carries data up to and including the first \<open>stream.end\<close> or fatal \<open>stream.error\<close>, in order,
  followed by exactly one end marker, and nothing that arrives after it.\<close>

theorem m2m_dial_back_delivery:
  assumes "od_get (mr_entries r) tid = Some e" and "me_queue e = []"
    and "me_queue_max e = 0 \<or> length (filter has_fields (upto_terminal upstream)) < me_queue_max e"
  shows "\<exists>e'. mr_handle_dial_back_receive tid upstream r = Inr (me_query e, e')
    \<and> me_queue e' = map Some (filter has_fields (upto_terminal upstream)) @ [None]"
proof -
  let ?d = "m2m_drain upstream e"
  from m2m_drain_spec [of e upstream] assms(2,3)
  have d: "me_queue ?d = map Some (filter has_fields (upto_terminal upstream))" "me_queue_max ?d = me_queue_max e"
    by auto
  with assms(3) have "\<not> queue_full ?d" by (auto simp: queue_full_def)
  with d assms(1) show ?thesis by (simp add: mr_handle_dial_back_receive_def queue_put_def)
qed

theorem m2m_dial_back_delivery_witness:
  "let e = \<lparr>me_task_id = ''t'', me_query = sentinel_struct ''message'' [], me_queue = [], me_queue_max = 1024,
      me_expires_at = 50, me_target_key = ''h:1'', me_setup_id = ''s'', me_mission_id = ''m''\<rparr> in
   \<exists>e'. mr_handle_dial_back_receive ''t'' [sentinel_struct ''out'' [], sentinel_struct ''stream.end'' [], sentinel_struct ''late'' []]
      ((mr_init 200)\<lparr>mr_entries := [(''t'', e)]\<rparr>) = Inr (me_query e, e')
    \<and> me_queue e' = [Some (sentinel_struct ''out'' []), Some (sentinel_struct ''stream.end'' []), None]"
  unfolding Let_def
  using m2m_dial_back_delivery [of "(mr_init 200)\<lparr>mr_entries := [(''t'', \<lparr>me_task_id = ''t'',
      me_query = sentinel_struct ''message'' [], me_queue = [], me_queue_max = 1024,
      me_expires_at = 50, me_target_key = ''h:1'', me_setup_id = ''s'', me_mission_id = ''m''\<rparr>)]\<rparr>" "''t''" _
      "[sentinel_struct ''out'' [], sentinel_struct ''stream.end'' [], sentinel_struct ''late'' []]"]
  by (simp add: od_get_def terminal_def)

end
