(* ===== verification/Stream_Protocol.thy ===== *)
theory Stream_Protocol
  imports Struct_Value
begin

text \<open>
  What the gateway and the module runner exchange with Redis. Redis is a service: the model keeps
  the commands the code issues, in order, and takes the replies as arguments. Here are the
  commands, the keys the code builds, the error codes of \<open>models/grpc_servers/stream_error_codes.py\<close>
  and the projection of a command list to the entries appended to one stream.
\<close>

type_synonym fields = "(string, string) odict"

datatype redis_cmd =
    XADD string fields "nat option"      \<comment> \<open>key, fields, optional \<open>maxlen\<close> (approximate)\<close>
  | EXPIRE string int
  | HSET string fields
  | PUBLISH string string

definition stream_key :: "string \<Rightarrow> string" where
  "stream_key tid = ''task:'' @ tid @ '':stream''"

definition input_key :: "string \<Rightarrow> string" where
  "input_key tid = ''task:'' @ tid @ '':input''"

definition cursor_key :: "string \<Rightarrow> string" where
  "cursor_key tid = ''task:'' @ tid @ '':cursor''"

definition idem_key :: "string \<Rightarrow> string" where
  "idem_key tid = ''idem:'' @ tid"

lemma stream_key_ne_input_key [simp]: "stream_key t \<noteq> input_key u" "input_key u \<noteq> stream_key t"
proof -
  have "last (stream_key t) = CHR ''m''" by (simp add: stream_key_def)
  moreover have "last (input_key u) = CHR ''t''" by (simp add: input_key_def)
  ultimately show "stream_key t \<noteq> input_key u" "input_key u \<noteq> stream_key t" by auto
qed

lemma stream_key_inj [simp]: "stream_key t = stream_key u \<longleftrightarrow> t = u"
  by (simp add: stream_key_def)

text \<open>The entries appended to one stream, in the order of the commands.\<close>

fun appended :: "string \<Rightarrow> redis_cmd list \<Rightarrow> fields list" where
  "appended key [] = []"
| "appended key (XADD k fs m # cs) = (if k = key then fs # appended key cs else appended key cs)"
| "appended key (_ # cs) = appended key cs"

lemma appended_append [simp]: "appended key (cs @ ds) = appended key cs @ appended key ds"
  by (induction key cs rule: appended.induct) simp_all

datatype StreamErrorCode = DIAL_BACK_UNREACHABLE | DIAL_BACK_RPC_ERROR | DIAL_BACK_INTERNAL
  | DIAL_BACK_NO_QUERY | DIAL_BACK_IDLE_TIMEOUT | STREAM_IDLE_TIMEOUT | REDIS_UNAVAILABLE
  | MODULE_RUNTIME_ERROR | INPUT_VALIDATION_ERROR | SETUP_VALIDATION_ERROR | BACKPRESSURE_TIMEOUT
  | SETUP_ACCESS_DENIED

fun code_value :: "StreamErrorCode \<Rightarrow> string" where
  "code_value DIAL_BACK_UNREACHABLE = ''DIAL_BACK_UNREACHABLE''"
| "code_value DIAL_BACK_RPC_ERROR = ''DIAL_BACK_RPC_ERROR''"
| "code_value DIAL_BACK_INTERNAL = ''DIAL_BACK_INTERNAL''"
| "code_value DIAL_BACK_NO_QUERY = ''DIAL_BACK_NO_QUERY''"
| "code_value DIAL_BACK_IDLE_TIMEOUT = ''DIAL_BACK_IDLE_TIMEOUT''"
| "code_value STREAM_IDLE_TIMEOUT = ''STREAM_IDLE_TIMEOUT''"
| "code_value REDIS_UNAVAILABLE = ''REDIS_UNAVAILABLE''"
| "code_value MODULE_RUNTIME_ERROR = ''MODULE_RUNTIME_ERROR''"
| "code_value INPUT_VALIDATION_ERROR = ''INPUT_VALIDATION_ERROR''"
| "code_value SETUP_VALIDATION_ERROR = ''SETUP_VALIDATION_ERROR''"
| "code_value BACKPRESSURE_TIMEOUT = ''BACKPRESSURE_TIMEOUT''"
| "code_value SETUP_ACCESS_DENIED = ''SETUP_ACCESS_DENIED''"

text \<open>A frame on the wire: its label (\<open>from_seq\<close> or \<open>seq\<close>) and its data.\<close>

type_synonym frame = "int \<times> pstruct"

definition error_struct :: "string \<Rightarrow> string \<Rightarrow> pstruct" where
  "error_struct code message = sentinel_struct ''stream.error''
     [(''code'', PStr code), (''message'', PStr message), (''fatal'', PBool True)]"

definition end_struct :: pstruct where
  "end_struct = sentinel_struct ''stream.end'' []"

text \<open>\<open>_sentinel\<close>: a control frame carrying a protocol and extra fields under \<open>root\<close>.\<close>

definition sentinel :: "int \<Rightarrow> string \<Rightarrow> (string \<times> pvalue) list \<Rightarrow> frame" where
  "sentinel label protocol fs = (label, sentinel_struct protocol fs)"

text \<open>\<open>_fatal_close\<close>: a fatal error frame followed by the end frame.\<close>

definition fatal_close :: "string \<Rightarrow> string \<Rightarrow> frame list" where
  "fatal_close code message =
     [sentinel 0 ''stream.error'' [(''code'', PStr code), (''message'', PStr message), (''fatal'', PBool True)],
      sentinel 0 ''stream.end'' []]"

lemma fatal_close_frames: "fatal_close code message = [(0, error_struct code message), (0, end_struct)]"
  by (simp add: fatal_close_def sentinel_def error_struct_def end_struct_def)

end
