(* ===== verification/Proto_Stream.thy ===== *)
theory Proto_Stream
  imports Stream_Protocol
begin

text \<open>
  The read side of a task's output stream: \<open>ProtoStreamReader\<close> of
  \<open>core/task_manager/redis/proto_streams.py\<close> and the two generators of the gateway that drive it,
  \<open>_consume_from_redis\<close> and \<open>_consume_guarded\<close>. The reader is a function of the list of \<open>XREAD\<close>
  results it receives (an empty result is a block timeout); \<open>parse\<close> is protobuf's
  \<open>ParseFromString\<close>, with \<open>None\<close> for a \<open>DecodeError\<close>.
\<close>

section \<open>The reader\<close>

record stream_entry =
  en_id :: string
  en_fields :: fields

record reader =
  rd_last_id :: string
  rd_last_seq :: int
  rd_since_save :: nat
  rd_saved :: "string list"       \<comment> \<open>values written to the cursor key, latest last\<close>

definition rd_init :: reader where
  "rd_init = \<lparr>rd_last_id = ''0-0'', rd_last_seq = 0, rd_since_save = 0, rd_saved = []\<rparr>"

definition rd_restore_cursor :: "string option \<Rightarrow> reader \<Rightarrow> reader" where
  "rd_restore_cursor raw rd = (case raw of None \<Rightarrow> rd | Some i \<Rightarrow> rd\<lparr>rd_last_id := i\<rparr>)"

definition rd_save_cursor :: "reader \<Rightarrow> reader" where
  "rd_save_cursor rd = rd\<lparr>rd_saved := rd_saved rd @ [rd_last_id rd]\<rparr>"

definition field_or :: "string \<Rightarrow> string \<Rightarrow> stream_entry \<Rightarrow> string" where
  "field_or name dflt en = (case od_get (en_fields en) name of None \<Rightarrow> dflt | Some v \<Rightarrow> v)"

text \<open>
  The entries of one \<open>XREAD\<close> result: the structs yielded, each with the reader's \<open>_last_seq\<close> at
  that moment, the reader afterwards, and whether the end-of-stream marker was met.
\<close>

fun read_entries ::
    "(string \<Rightarrow> pstruct option) \<Rightarrow> int option \<Rightarrow> stream_entry list \<Rightarrow> reader
      \<Rightarrow> (int \<times> pstruct) list \<times> reader \<times> bool" where
  "read_entries parse skip [] rd = ([], rd, False)"
| "read_entries parse skip (en # ens) rd0 =
     (let rd = rd0\<lparr>rd_last_id := en_id en\<rparr> in
      if field_or ''eos'' '''' en = ''true'' then ([], rd_save_cursor rd, True)
      else case py_int (field_or ''seq'' ''0'' en) of
        None \<Rightarrow> read_entries parse skip ens rd
      | Some seq \<Rightarrow>
          let rd1 = rd\<lparr>rd_last_seq := seq\<rparr> in
          if (case skip of None \<Rightarrow> False | Some k \<Rightarrow> seq \<le> k) then read_entries parse skip ens rd1
          else if field_or ''pb'' '''' en = '''' then read_entries parse skip ens rd1
          else case parse (field_or ''pb'' '''' en) of
            None \<Rightarrow> read_entries parse skip ens rd1
          | Some s \<Rightarrow>
              (case read_entries parse skip ens (rd1\<lparr>rd_since_save := rd_since_save rd1 + 1\<rparr>) of
                 (out, rd2, fin) \<Rightarrow> ((seq, s) # out, rd2, fin)))"

fun read_structs ::
    "(string \<Rightarrow> pstruct option) \<Rightarrow> int option \<Rightarrow> nat \<Rightarrow> stream_entry list list \<Rightarrow> reader
      \<Rightarrow> (int \<times> pstruct) list \<times> reader \<times> bool" where
  "read_structs parse skip interval [] rd = ([], rd, False)"
| "read_structs parse skip interval (b # bs) rd =
     (if b = [] then read_structs parse skip interval bs rd
      else case read_entries parse skip b rd of
        (out, rd1, True) \<Rightarrow> (out, rd1, True)
      | (out, rd1, False) \<Rightarrow>
          let rd2 = (if interval \<le> rd_since_save rd1 then (rd_save_cursor rd1)\<lparr>rd_since_save := 0\<rparr> else rd1)
          in (case read_structs parse skip interval bs rd2 of
                (out', rd3, fin) \<Rightarrow> (out @ out', rd3, fin)))"

section \<open>Frames\<close>

definition cursor_save_interval :: nat where
  "cursor_save_interval = 100"

definition label_from :: "int \<Rightarrow> pstruct list \<Rightarrow> frame list" where
  "label_from seq ss = zip (map (\<lambda>i. seq + 1 + int i) [0..<length ss]) ss"

text \<open>
  \<open>_consume_from_redis\<close>: without \<open>resume\<close> the frames are numbered from \<open>from_seq\<close> on; with it they
  carry the stored sequence number plus one. The end frame follows the end-of-stream marker.
  \<open>cursor\<close> is the saved cursor, read only when a late client asks for a position.
\<close>

definition consume_from_redis ::
    "(string \<Rightarrow> pstruct option) \<Rightarrow> int \<Rightarrow> bool \<Rightarrow> string option \<Rightarrow> stream_entry list list \<Rightarrow> frame list \<times> bool" where
  "consume_from_redis parse from_seq resume cursor batches =
     (let rd = (if resume then rd_init else if 0 < from_seq then rd_restore_cursor cursor rd_init else rd_init);
          skip = (if resume then Some (from_seq - 1) else None)
      in case read_structs parse skip cursor_save_interval batches rd of
           (out, rd', fin) \<Rightarrow>
             let frames = (if resume then map (\<lambda>(q, s). (q + 1, s)) out else label_from from_seq (map snd out));
                 last_label = (if resume then rd_last_seq rd' + 2 else from_seq + int (length out) + 1)
             in (frames @ (if fin then [sentinel last_label ''stream.end'' []] else []), fin))"

text \<open>What \<open>anext\<close> of that generator gives under the idle deadline.\<close>

datatype read_event = Frame frame | Exhausted | IdleTimeout | RedisFailure string

fun consume_guarded :: "string \<Rightarrow> read_event list \<Rightarrow> frame list \<times> bool" where
  "consume_guarded idle_text [] = ([], False)"
| "consume_guarded idle_text (Frame f # es) =
     (case consume_guarded idle_text es of (fs, fin) \<Rightarrow> (f # fs, fin))"
| "consume_guarded idle_text (Exhausted # es) = ([], True)"
| "consume_guarded idle_text (IdleTimeout # es) =
     ([sentinel 0 ''stream.error'' [(''code'', PStr (code_value STREAM_IDLE_TIMEOUT)),
         (''message'', PStr (''no stream output or EOS within '' @ idle_text @ ''s'')), (''fatal'', PBool True)],
       sentinel 0 ''stream.end'' []], True)"
| "consume_guarded idle_text (RedisFailure msg # es) =
     ([sentinel 0 ''stream.error'' [(''code'', PStr (code_value REDIS_UNAVAILABLE)),
         (''message'', PStr (''redis unavailable during stream read: '' @ msg)), (''fatal'', PBool True)],
       sentinel 0 ''stream.end'' []], True)"

section \<open>Reading does not depend on how Redis batches the entries\<close>

lemma read_entries_append:
  "read_entries parse skip (es @ fs) rd =
     (case read_entries parse skip es rd of
        (out, rd1, True) \<Rightarrow> (out, rd1, True)
      | (out, rd1, False) \<Rightarrow> (case read_entries parse skip fs rd1 of (out', rd2, fin) \<Rightarrow> (out @ out', rd2, fin)))"
  by (induction parse skip es rd rule: read_entries.induct)
    (auto simp: Let_def split: option.splits prod.splits bool.splits)

text \<open>The part of the reader that does not depend on when the cursor is saved.\<close>

definition rd_view :: "reader \<Rightarrow> string \<times> int" where
  "rd_view rd = (rd_last_id rd, rd_last_seq rd)"

lemma rd_view_save [simp]: "rd_view (rd_save_cursor rd) = rd_view rd"
  by (simp add: rd_view_def rd_save_cursor_def)

lemma rd_view_since [simp]: "rd_view (rd\<lparr>rd_since_save := n\<rparr>) = rd_view rd"
  by (simp add: rd_view_def)

lemma read_entries_view:
  assumes "rd_view rd = rd_view rd'"
  shows "fst (read_entries parse skip es rd) = fst (read_entries parse skip es rd')
    \<and> rd_view (fst (snd (read_entries parse skip es rd))) = rd_view (fst (snd (read_entries parse skip es rd')))
    \<and> snd (snd (read_entries parse skip es rd)) = snd (snd (read_entries parse skip es rd'))"
  using assms
proof (induction parse skip es rd arbitrary: rd' rule: read_entries.induct)
  case (1 parse skip rd)
  then show ?case by simp
next
  case (2 parse skip en ens rd0)
  let ?rd = "rd0\<lparr>rd_last_id := en_id en\<rparr>" and ?rd' = "rd'\<lparr>rd_last_id := en_id en\<rparr>"
  have v: "rd_view ?rd = rd_view ?rd'" using "2.prems" by (simp add: rd_view_def)
  show ?case
  proof (cases "field_or ''eos'' '''' en = ''true''")
    case True
    with v show ?thesis by (simp add: Let_def)
  next
    case neos: False
    show ?thesis
    proof (cases "py_int (field_or ''seq'' ''0'' en)")
      case None
      with neos "2.IH"(1) [OF refl neos None v] show ?thesis by (simp add: Let_def)
    next
      case (Some seq)
      let ?r = "?rd\<lparr>rd_last_seq := seq\<rparr>" and ?r' = "?rd'\<lparr>rd_last_seq := seq\<rparr>"
      have v1: "rd_view ?r = rd_view ?r'" by (simp add: rd_view_def)
      have v2: "rd_view (?r\<lparr>rd_since_save := rd_since_save ?r + 1\<rparr>) = rd_view (?r'\<lparr>rd_since_save := rd_since_save ?r' + 1\<rparr>)"
        by (simp add: rd_view_def)
      show ?thesis
      proof (cases "case skip of None \<Rightarrow> False | Some k \<Rightarrow> seq \<le> k")
        case True
        with neos Some "2.IH"(2) [OF refl neos Some refl True v1] show ?thesis by (simp add: Let_def)
      next
        case skip: False
        show ?thesis
        proof (cases "field_or ''pb'' '''' en = ''''")
          case True
          with neos Some skip "2.IH"(3) [OF refl neos Some refl skip True v1] show ?thesis
            by (simp add: Let_def)
        next
          case pb: False
          show ?thesis
          proof (cases "parse (field_or ''pb'' '''' en)")
            case None
            with neos Some skip pb "2.IH"(4) [OF refl neos Some refl skip pb None v1] show ?thesis
              by (simp add: Let_def)
          next
            case (Some s)
            with neos \<open>py_int (field_or ''seq'' ''0'' en) = Some seq\<close> skip pb
              "2.IH"(5) [OF refl neos \<open>py_int (field_or ''seq'' ''0'' en) = Some seq\<close> refl skip pb Some v2]
            show ?thesis by (simp add: Let_def case_prod_beta)
          qed
        qed
      qed
    qed
  qed
qed

text \<open>The entries up to the end-of-stream marker, in whatever batches Redis returns them.\<close>

lemma read_structs_concat:
  assumes "rd_view rd = rd_view rd'"
  shows "fst (read_structs parse skip interval bs rd) = fst (read_entries parse skip (concat bs) rd')
    \<and> rd_view (fst (snd (read_structs parse skip interval bs rd)))
        = rd_view (fst (snd (read_entries parse skip (concat bs) rd')))
    \<and> snd (snd (read_structs parse skip interval bs rd)) = snd (snd (read_entries parse skip (concat bs) rd'))"
  using assms
proof (induction bs arbitrary: rd rd')
  case Nil
  then show ?case by simp
next
  case (Cons b bs)
  show ?case
  proof (cases "b = []")
    case True
    with Cons.IH [OF Cons.prems] show ?thesis by simp
  next
    case False
    obtain out rd1 fin where e: "read_entries parse skip b rd = (out, rd1, fin)" by (metis prod_cases3)
    obtain out' rd1' fin' where e': "read_entries parse skip b rd' = (out', rd1', fin')" by (metis prod_cases3)
    have v: "out = out'" "rd_view rd1 = rd_view rd1'" "fin = fin'"
      using read_entries_view [OF Cons.prems, of parse skip b] by (simp_all add: e e')
    show ?thesis
    proof (cases fin)
      case True
      with False v show ?thesis by (simp add: e e' read_entries_append)
    next
      case fin: False
      let ?rd2 = "if interval \<le> rd_since_save rd1 then (rd_save_cursor rd1)\<lparr>rd_since_save := 0\<rparr> else rd1"
      have "rd_view ?rd2 = rd_view rd1'" using v by simp
      from Cons.IH [OF this] v fin False show ?thesis
        by (cases "interval \<le> rd_since_save rd1")
          (simp_all add: e e' read_entries_append Let_def case_prod_beta)
    qed
  qed
qed

section \<open>What a well-formed log gives\<close>

text \<open>An entry that carries a payload: not the end marker, a sequence number, a decodable struct.\<close>

definition payload :: "(string \<Rightarrow> pstruct option) \<Rightarrow> stream_entry \<Rightarrow> int \<times> pstruct \<Rightarrow> bool" where
  "payload parse en qs \<longleftrightarrow> field_or ''eos'' '''' en \<noteq> ''true'' \<and> py_int (field_or ''seq'' ''0'' en) = Some (fst qs)
     \<and> field_or ''pb'' '''' en \<noteq> '''' \<and> parse (field_or ''pb'' '''' en) = Some (snd qs)"

definition is_eos :: "stream_entry \<Rightarrow> bool" where
  "is_eos en \<longleftrightarrow> field_or ''eos'' '''' en = ''true''"

definition wanted :: "int option \<Rightarrow> int \<times> pstruct \<Rightarrow> bool" where
  "wanted skip qs \<longleftrightarrow> (case skip of None \<Rightarrow> True | Some k \<Rightarrow> k < fst qs)"

lemma read_payloads:
  assumes "list_all2 (payload parse) es qs"
  shows "fst (read_entries parse skip es rd) = filter (wanted skip) qs
    \<and> rd_last_seq (fst (snd (read_entries parse skip es rd))) = (if qs = [] then rd_last_seq rd else fst (last qs))
    \<and> snd (snd (read_entries parse skip es rd)) = False"
  using assms
proof (induction es qs arbitrary: rd rule: list_all2_induct)
  case Nil
  then show ?case by simp
next
  case (Cons en es q qs)
  from Cons.hyps have h: "field_or ''eos'' '''' en \<noteq> ''true''" "py_int (field_or ''seq'' ''0'' en) = Some (fst q)"
    "field_or ''pb'' '''' en \<noteq> ''''" "parse (field_or ''pb'' '''' en) = Some (snd q)"
    by (simp_all add: payload_def)
  show ?case
  proof (cases "wanted skip q")
    case True
    then have "\<not> (case skip of None \<Rightarrow> False | Some k \<Rightarrow> fst q \<le> k)"
      by (auto simp: wanted_def split: option.splits)
    with h True Cons.IH show ?thesis by (simp add: Let_def case_prod_beta)
  next
    case False
    then have "(case skip of None \<Rightarrow> False | Some k \<Rightarrow> fst q \<le> k)"
      by (auto simp: wanted_def split: option.splits)
    with h False Cons.IH show ?thesis by (simp add: Let_def)
  qed
qed

lemma read_eos: "is_eos en \<Longrightarrow> read_entries parse skip (en # es) rd = ([], rd_save_cursor (rd\<lparr>rd_last_id := en_id en\<rparr>), True)"
  by (simp add: is_eos_def)

lemma read_log:
  assumes "list_all2 (payload parse) es qs" and "is_eos eos" and "concat bs = es @ eos # rest"
  shows "fst (read_structs parse skip interval bs rd) = filter (wanted skip) qs
    \<and> rd_last_seq (fst (snd (read_structs parse skip interval bs rd))) = (if qs = [] then rd_last_seq rd else fst (last qs))
    \<and> rd_last_id (fst (snd (read_structs parse skip interval bs rd))) = en_id eos
    \<and> snd (snd (read_structs parse skip interval bs rd)) = True"
proof -
  obtain out rd1 where e: "read_entries parse skip es rd = (out, rd1, False)"
    and v: "out = filter (wanted skip) qs" "rd_last_seq rd1 = (if qs = [] then rd_last_seq rd else fst (last qs))"
    using read_payloads [OF assms(1), of skip rd] by (metis prod.collapse)
  let ?R = "read_entries parse skip (concat bs) rd"
  have r: "?R = (out, rd_save_cursor (rd1\<lparr>rd_last_id := en_id eos\<rparr>), True)"
    unfolding assms(3) by (simp only: read_entries_append e read_eos [OF assms(2)]) simp
  have "rd_view (fst (snd ?R)) = (en_id eos, rd_last_seq rd1)"
    by (simp add: r) (simp add: rd_view_def)
  with read_structs_concat [OF refl, of parse skip interval bs rd] v r show ?thesis
    by (simp add: rd_view_def)
qed

section \<open>Numbered logs\<close>

definition numbered :: "(int \<times> pstruct) list \<Rightarrow> bool" where
  "numbered qs \<longleftrightarrow> map fst qs = map int [0..<length qs]"

lemma numbered_nth: "numbered qs \<Longrightarrow> i < length qs \<Longrightarrow> fst (qs ! i) = int i"
  unfolding numbered_def by (metis add_0 length_map length_upt minus_nat.diff_0 nth_map nth_upt)

lemma numbered_labels: "numbered qs \<Longrightarrow> map (\<lambda>(q, s). (q + 1, s)) qs = label_from 0 (map snd qs)"
  by (rule nth_equalityI) (auto simp: label_from_def case_prod_beta numbered_nth)

lemma numbered_filter:
  assumes n: "numbered qs" and m: "m \<le> k"
  shows "filter (wanted (Some (int k - 1))) (drop m qs) = drop k qs"
proof -
  have split: "drop m qs = take (k - m) (drop m qs) @ drop k qs"
    using m by (metis append_take_drop_id drop_drop le_add_diff_inverse2)
  have lo: "\<not> wanted (Some (int k - 1)) x" if "x \<in> set (take (k - m) (drop m qs))" for x
  proof -
    from that obtain i where i: "i < length (take (k - m) (drop m qs))" "x = take (k - m) (drop m qs) ! i"
      by (metis in_set_conv_nth)
    then have "x = qs ! (m + i)" "m + i < length qs" "m + i < k" by auto
    with numbered_nth [OF n, of "m + i"] show ?thesis by (simp add: wanted_def)
  qed
  have hi: "wanted (Some (int k - 1)) x" if "x \<in> set (drop k qs)" for x
  proof -
    from that obtain i where "i < length (drop k qs)" "x = drop k qs ! i" by (metis in_set_conv_nth)
    then have "x = qs ! (k + i)" "k + i < length qs" by auto
    with numbered_nth [OF n, of "k + i"] show ?thesis by (simp add: wanted_def)
  qed
  show ?thesis by (subst split) (simp add: lo hi del: append_take_drop_id)
qed

lemma numbered_last: "numbered qs \<Longrightarrow> m < length qs \<Longrightarrow> fst (last (drop m qs)) = int (length qs) - 1"
  by (cases qs rule: rev_cases) (auto simp: numbered_def nth_append)

lemma consume_fresh:
  assumes "list_all2 (payload parse) es qs" and "is_eos eos" and "concat bs = es @ eos # rest"
  shows "consume_from_redis parse 0 False c bs
    = (label_from 0 (map snd qs) @ [(int (length qs) + 1, end_struct)], True)"
  using read_log [OF assms, of None cursor_save_interval rd_init]
  by (simp add: consume_from_redis_def case_prod_beta wanted_def sentinel_def end_struct_def)

text \<open>A log without an end marker: the drain does not end.\<close>

lemma consume_open:
  assumes "list_all2 (payload parse) es qs" and "concat bs = es"
  shows "consume_from_redis parse 0 False c bs = (label_from 0 (map snd qs), False)"
  using read_payloads [OF assms(1), of None rd_init] read_structs_concat [OF refl, of parse None cursor_save_interval bs rd_init]
  by (simp add: consume_from_redis_def case_prod_beta wanted_def assms(2))

lemma guarded_frames:
  "consume_guarded t (map Frame fs @ es) = (fs @ fst (consume_guarded t es), snd (consume_guarded t es))"
  by (induction fs) (auto simp: case_prod_beta)

lemma consume_resume:
  assumes "list_all2 (payload parse) es qs" and "is_eos eos" and "concat bs = es @ eos # rest"
  shows "consume_from_redis parse k True c bs
    = (map (\<lambda>(q, s). (q + 1, s)) (filter (wanted (Some (k - 1))) qs)
        @ [((if qs = [] then 0 else fst (last qs)) + 2, end_struct)], True)"
  using read_log [OF assms, of "Some (k - 1)" cursor_save_interval rd_init]
  by (auto simp add: consume_from_redis_def case_prod_beta sentinel_def end_struct_def rd_init_def)

lemma resume_numbered:
  assumes "list_all2 (payload parse) es qs" and "numbered qs" and "is_eos eos"
    and "concat bs' = drop m es @ eos # rest'"
    and "m \<le> k" and "m < length qs" and "k \<le> length qs"
  shows "consume_from_redis parse (int k) True c' bs'
      = (drop k (label_from 0 (map snd qs) @ [(int (length qs) + 1, end_struct)]), True)"
proof -
  have log: "list_all2 (payload parse) (drop m es) (drop m qs)"
    using assms(1) by (rule list_all2_dropI)
  have "drop m qs \<noteq> []" using assms by simp
  then have "consume_from_redis parse (int k) True c' bs'
      = (map (\<lambda>(q, s). (q + 1, s)) (drop k qs) @ [(int (length qs) + 1, end_struct)], True)"
    using consume_resume [OF log assms(3,4), of "int k" c'] assms numbered_last [OF assms(2,6)] by (simp add: numbered_filter)
  also have "map (\<lambda>(q, s). (q + 1, s)) (drop k qs) = drop k (label_from 0 (map snd qs))"
    by (simp add: drop_map numbered_labels [OF assms(2), symmetric])
  finally show ?thesis using assms(7) by (simp add: label_from_def)
qed

text \<open>
  Resuming is exactly once. Let a task's stream hold entries numbered 0, 1, 2, ... and an
  end-of-stream marker. A consumer that reads it from the start sees the structs labelled
  1, 2, 3, ... and then the end frame. If it reconnects after the frame labelled \<open>k\<close>, in
  whatever batches Redis returns the entries, and even if entries it has already seen were
  trimmed, it gets exactly the frames it misses, with the labels they had: nothing is repeated,
  nothing is lost, and nothing behind the marker is delivered.
\<close>

theorem resume_exactly_once:
  assumes "list_all2 (payload parse) es qs" and "numbered qs" and "is_eos eos"
    and "concat bs = es @ eos # rest"
    and "concat bs' = drop m es @ eos # rest'"
    and "m \<le> k" and "m < length qs" and "k \<le> length qs"
  shows "consume_from_redis parse 0 False c bs
      = (label_from 0 (map snd qs) @ [(int (length qs) + 1, end_struct)], True)
    \<and> consume_from_redis parse (int k) True c' bs'
      = (drop k (fst (consume_from_redis parse 0 False c bs)), True)"
proof -
  have fresh: "consume_from_redis parse 0 False c bs
      = (label_from 0 (map snd qs) @ [(int (length qs) + 1, end_struct)], True)"
    using assms by (intro consume_fresh) auto
  from resume_numbered [OF assms(1-3,5-8), of c'] fresh show ?thesis by simp
qed

definition parse_demo :: "string \<Rightarrow> pstruct option" where
  "parse_demo s = (if s = ''a'' then Some [(''v'', PBool True)] else if s = ''b'' then Some [(''v'', PBool False)] else None)"

definition entry_demo :: "string \<Rightarrow> string \<Rightarrow> string \<Rightarrow> stream_entry" where
  "entry_demo i pb seq = \<lparr>en_id = i, en_fields = [(''pb'', pb), (''seq'', seq)]\<rparr>"

definition eos_demo :: "string \<Rightarrow> stream_entry" where
  "eos_demo i = \<lparr>en_id = i, en_fields = [(''eos'', ''true'')]\<rparr>"

theorem resume_exactly_once_witness:
  "consume_from_redis parse_demo 1 True None [[entry_demo ''2-0'' ''b'' ''1''], [], [eos_demo ''3-0'']]
    = ([(2, [(''v'', PBool False)]), (3, end_struct)], True)"
proof -
  let ?es = "[entry_demo ''1-0'' ''a'' ''0'', entry_demo ''2-0'' ''b'' ''1'']"
  let ?qs = "[(0, [(''v'', PBool True)]), (1, [(''v'', PBool False)])]"
  have "list_all2 (payload parse_demo) ?es ?qs" by code_simp
  moreover have "numbered ?qs" by (simp add: numbered_def)
  moreover have "is_eos (eos_demo ''3-0'')" by code_simp
  ultimately show ?thesis
    using resume_exactly_once [where m = 1 and k = 1 and es = ?es and qs = ?qs and parse = parse_demo
        and eos = "eos_demo ''3-0''" and bs = "[?es, [eos_demo ''3-0'']]" and rest = "[]" and rest' = "[]"
        and bs' = "[[entry_demo ''2-0'' ''b'' ''1''], [], [eos_demo ''3-0'']]" and c' = None and c = None]
    by (simp add: label_from_def)
qed

section \<open>Entries that break the numbering\<close>

lemma read_poison:
  assumes "field_or ''eos'' '''' en \<noteq> ''true''" and "py_int (field_or ''seq'' ''0'' en) = Some q"
    and "parse (field_or ''pb'' '''' en) = None"
  shows "read_entries parse skip (en # es) rd = read_entries parse skip es (rd\<lparr>rd_last_id := en_id en, rd_last_seq := q\<rparr>)"
  using assms by (simp add: Let_def)

text \<open>
  A fatal error written without a sequence number does not reach a consumer that reconnects.
  The entry \<open>_emit_fatal_to_redis\<close> appends has no \<open>seq\<close>, which a reader takes as 0. A consumer
  reading from the start gets it as its next frame; one that resumes after any frame gets the
  frames it misses and then a normal end frame, labelled 2, with no error in between.
\<close>

theorem resumed_reader_misses_fatal:
  assumes "list_all2 (payload parse) es qs" and "numbered qs" and "is_eos eos"
    and "od_get (en_fields err) ''seq'' = None" and "od_get (en_fields err) ''eos'' = None"
    and "od_get (en_fields err) ''pb'' = Some pb" and "pb \<noteq> ''''" and "parse pb = Some e"
    and "concat bs = es @ err # eos # rest" and "1 \<le> k"
  shows "consume_from_redis parse 0 False c bs
      = (label_from 0 (map snd qs @ [e]) @ [(int (length qs) + 2, end_struct)], True)
    \<and> consume_from_redis parse (int k) True c bs
      = (drop k (label_from 0 (map snd qs)) @ [(2, end_struct)], True)"
proof -
  have "py_int ''0'' = Some 0" by code_simp
  with assms have "payload parse err (0, e)" by (simp add: payload_def field_or_def)
  with assms(1) have log: "list_all2 (payload parse) (es @ [err]) (qs @ [(0, e)])"
    by (simp add: list_all2_appendI)
  have bs: "concat bs = (es @ [err]) @ eos # rest" using assms(9) by simp
  have "filter (wanted (Some (int k - 1))) (qs @ [(0, e)]) = drop k qs"
    using numbered_filter [OF assms(2), of 0 k] assms(10) by (simp add: wanted_def)
  with consume_fresh [OF log assms(3) bs, of c] consume_resume [OF log assms(3) bs, of "int k" c] show ?thesis
    by (simp add: drop_map numbered_labels [OF assms(2), symmetric] del: filter_append)
qed

theorem resumed_reader_misses_fatal_witness:
  "consume_from_redis parse_demo 1 True None
      [[entry_demo ''1-0'' ''a'' ''0'', \<lparr>en_id = ''2-0'', en_fields = [(''pb'', ''b'')]\<rparr>, eos_demo ''3-0'']]
    = ([(2, end_struct)], True)"
proof -
  let ?es = "[entry_demo ''1-0'' ''a'' ''0'']" and ?qs = "[(0, [(''v'', PBool True)])]"
  have "list_all2 (payload parse_demo) ?es ?qs" by code_simp
  moreover have "is_eos (eos_demo ''3-0'')" by code_simp
  moreover have "parse_demo ''b'' = Some [(''v'', PBool False)]" by code_simp
  ultimately show ?thesis
    using resumed_reader_misses_fatal [where es = ?es and qs = ?qs and parse = parse_demo and pb = "''b''"
        and eos = "eos_demo ''3-0''" and err = "\<lparr>en_id = ''2-0'', en_fields = [(''pb'', ''b'')]\<rparr>" and rest = "[]"
        and bs = "[[entry_demo ''1-0'' ''a'' ''0'', \<lparr>en_id = ''2-0'', en_fields = [(''pb'', ''b'')]\<rparr>, eos_demo ''3-0'']]"
        and k = 1 and c = None]
    by (simp add: label_from_def numbered_def od_get_def)
qed

text \<open>
  A corrupt entry makes a reconnecting consumer receive a frame twice. The reader drops an
  entry it cannot decode; the fresh drain then numbers the frames by counting what it yields,
  the resumed drain by the stored sequence number. A consumer that has seen every frame of the
  log up to the one after the corrupt entry, and reconnects, is sent that frame again.
\<close>

theorem corrupt_entry_repeats_frame:
  assumes "list_all2 (payload parse) es qs" and "numbered qs" and "is_eos eos"
    and "field_or ''eos'' '''' bad \<noteq> ''true''" and "py_int (field_or ''seq'' ''0'' bad) = Some (int (length qs))"
    and "parse (field_or ''pb'' '''' bad) = None"
    and "payload parse nxt (int (length qs) + 1, s)"
    and "concat bs = es @ bad # nxt # eos # rest"
  shows "consume_from_redis parse 0 False c bs
      = (label_from 0 (map snd qs @ [s]) @ [(int (length qs) + 2, end_struct)], True)
    \<and> consume_from_redis parse (int (length qs) + 1) True c bs
      = ([(int (length qs) + 2, s), (int (length qs) + 3, end_struct)], True)"
proof -
  let ?n = "int (length qs)"
  have read: "fst (read_structs parse skip i bs rd) = filter (wanted skip) (qs @ [(?n + 1, s)])
      \<and> rd_last_seq (fst (snd (read_structs parse skip i bs rd))) = ?n + 1
      \<and> snd (snd (read_structs parse skip i bs rd)) = True" for skip i rd
  proof -
    obtain out rd1 where e: "read_entries parse skip es rd = (out, rd1, False)" and v: "out = filter (wanted skip) qs"
      using read_payloads [OF assms(1), of skip rd] by (metis prod.collapse)
    let ?rd2 = "rd1\<lparr>rd_last_id := en_id bad, rd_last_seq := ?n\<rparr>"
    have "list_all2 (payload parse) [nxt] [(?n + 1, s)]" using assms(7) by simp
    from read_payloads [OF this, of skip ?rd2]
    obtain out2 rd3 where e2: "read_entries parse skip [nxt] ?rd2 = (out2, rd3, False)"
      and v2: "out2 = filter (wanted skip) [(?n + 1, s)]" "rd_last_seq rd3 = ?n + 1"
      by (cases "read_entries parse skip [nxt] ?rd2")
        (simp del: read_entries.simps filter.simps split: prod.splits)
    have "read_entries parse skip (nxt # eos # rest) ?rd2 = (out2, rd_save_cursor (rd3\<lparr>rd_last_id := en_id eos\<rparr>), True)"
      using read_entries_append [of parse skip "[nxt]" "eos # rest" ?rd2] e2 read_eos [OF assms(3)] by simp
    then have "read_entries parse skip (concat bs) rd
        = (out @ out2, rd_save_cursor (rd3\<lparr>rd_last_id := en_id eos\<rparr>), True)"
      unfolding assms(8) by (simp only: read_entries_append e read_poison [of bad _ parse, OF assms(4,5,6)]) simp
    with read_structs_concat [OF refl, of parse skip i bs rd] v v2 show ?thesis
      by (simp add: rd_view_def rd_save_cursor_def)
  qed
  have "filter (wanted (Some ?n)) qs = []"
    using numbered_filter [OF assms(2), of 0 "length qs + 1"] by simp
  with read show ?thesis
    by (simp add: consume_from_redis_def case_prod_beta sentinel_def end_struct_def wanted_def)
qed

theorem corrupt_entry_repeats_frame_witness:
  "consume_from_redis parse_demo 2 True None
      [[entry_demo ''1-0'' ''a'' ''0'', entry_demo ''2-0'' ''x'' ''1'', entry_demo ''3-0'' ''b'' ''2'', eos_demo ''4-0'']]
    = ([(3, [(''v'', PBool False)]), (4, end_struct)], True)"
proof -
  let ?es = "[entry_demo ''1-0'' ''a'' ''0'']" and ?qs = "[(0, [(''v'', PBool True)])]"
  have "list_all2 (payload parse_demo) ?es ?qs" by code_simp
  moreover have "is_eos (eos_demo ''4-0'')" by code_simp
  moreover have "field_or ''eos'' '''' (entry_demo ''2-0'' ''x'' ''1'') \<noteq> ''true''" by code_simp
  moreover have "py_int (field_or ''seq'' ''0'' (entry_demo ''2-0'' ''x'' ''1'')) = Some 1" by code_simp
  moreover have "parse_demo (field_or ''pb'' '''' (entry_demo ''2-0'' ''x'' ''1'')) = None" by code_simp
  moreover have "payload parse_demo (entry_demo ''3-0'' ''b'' ''2'') (2, [(''v'', PBool False)])" by code_simp
  ultimately show ?thesis
    using corrupt_entry_repeats_frame [where es = ?es and qs = ?qs and parse = parse_demo and eos = "eos_demo ''4-0''"
        and bad = "entry_demo ''2-0'' ''x'' ''1''" and nxt = "entry_demo ''3-0'' ''b'' ''2''" and rest = "[]"
        and s = "[(''v'', PBool False)]" and c = None
        and bs = "[[entry_demo ''1-0'' ''a'' ''0'', entry_demo ''2-0'' ''x'' ''1'', entry_demo ''3-0'' ''b'' ''2'', eos_demo ''4-0'']]"]
    by (simp add: numbered_def)
qed

section \<open>The idle deadline\<close>

text \<open>
  A guarded drain stops at the first event that is not a frame, and says so. When the reader
  of \<open>_consume_guarded\<close> is exhausted, idles out or fails, the frames before that event come out
  unchanged; an idle timeout and a Redis failure add a fatal error frame with the right code and
  then the end frame; whatever the reader would still have produced is not delivered.
\<close>

theorem guarded_drain_ends:
  "consume_guarded t (map Frame fs @ Exhausted # es) = (fs, True)
    \<and> consume_guarded t (map Frame fs @ IdleTimeout # es)
      = (fs @ fatal_close (code_value STREAM_IDLE_TIMEOUT) (''no stream output or EOS within '' @ t @ ''s''), True)
    \<and> consume_guarded t (map Frame fs @ RedisFailure msg # es)
      = (fs @ fatal_close (code_value REDIS_UNAVAILABLE) (''redis unavailable during stream read: '' @ msg), True)
    \<and> consume_guarded t (map Frame fs) = (fs, False)"
  by (induction fs) (simp_all add: fatal_close_def)

end
