(* ===== verification/Module_Runner.thy ===== *)
theory Module_Runner
  imports Proto_Stream
begin

text \<open>
  \<open>core/task_manager/module_runner.py\<close>: the output callback that writes a module's results to its
  Redis stream, and the run of one task with its mapping of exceptions to in-band error codes.
  What the servicer and the job manager do is an input here (each call's result); protobuf's
  serialisation is the parameter \<open>ser\<close>.
\<close>

section \<open>The output callback\<close>

record stream_settings =
  redis_stream_maxlen :: nat
  redis_stream_initial_ttl :: int
  redis_stream_ttl :: int

record out_state =
  ou_seq :: int
  ou_first_logged :: bool

definition out_init :: out_state where
  "out_init = \<lparr>ou_seq = 0, ou_first_logged = False\<rparr>"

text \<open>
  \<open>data.get("root", {}).get("protocol") == "stream.end"\<close>; \<open>None\<close> is the \<open>AttributeError\<close> of a
  \<open>root\<close> that is no dictionary.
\<close>

definition is_end_output :: "pstruct \<Rightarrow> bool option" where
  "is_end_output data = (case od_get data ''root'' of
      None \<Rightarrow> Some False
    | Some (PStruct fs) \<Rightarrow> Some (od_get fs ''protocol'' = Some (PStr ''stream.end''))
    | Some _ \<Rightarrow> None)"

datatype out_exc = OutRedisError | OutAttributeError

text \<open>
  One call: the state afterwards, the commands sent to Redis (the last of them failed if the call
  raises \<open>OutRedisError\<close>), and the exception. \<open>xadd_ok\<close> and \<open>expire_ok\<close> are Redis' answers.
\<close>

definition on_output ::
    "(pstruct \<Rightarrow> string) \<Rightarrow> stream_settings \<Rightarrow> string \<Rightarrow> pstruct \<Rightarrow> bool \<Rightarrow> bool \<Rightarrow> out_state
      \<Rightarrow> out_state \<times> redis_cmd list \<times> out_exc option" where
  "on_output ser cfg tid data xadd_ok expire_ok st =
     (let key = stream_key tid in
      case is_end_output data of
        None \<Rightarrow> (st, [], Some OutAttributeError)
      | Some True \<Rightarrow>
          let add = XADD key [(''eos'', ''true'')] None in
          if \<not> xadd_ok then (st, [], Some OutRedisError)
          else if \<not> expire_ok then (st, [add], Some OutRedisError)
          else (st, [add, EXPIRE key (redis_stream_ttl cfg)], None)
      | Some False \<Rightarrow>
          let seq = ou_seq st + 1;
              st1 = st\<lparr>ou_seq := seq\<rparr>;
              add = XADD key [(''pb'', ser data), (''seq'', py_str seq)] (Some (redis_stream_maxlen cfg)) in
          if \<not> xadd_ok then (st1, [], Some OutRedisError)
          else if ou_first_logged st1 then (st1, [add], None)
          else if \<not> expire_ok then (st1, [add], Some OutRedisError)
          else (st1\<lparr>ou_first_logged := True\<rparr>, [add, EXPIRE key (redis_stream_initial_ttl cfg)], None))"

text \<open>The calls a module makes, with Redis' answers; a module goes on after a failed call if it likes.\<close>

fun on_outputs ::
    "(pstruct \<Rightarrow> string) \<Rightarrow> stream_settings \<Rightarrow> string \<Rightarrow> (pstruct \<times> bool \<times> bool) list \<Rightarrow> out_state
      \<Rightarrow> out_state \<times> redis_cmd list" where
  "on_outputs ser cfg tid [] st = (st, [])"
| "on_outputs ser cfg tid ((d, x, e) # ds) st =
     (case on_output ser cfg tid d x e st of
        (st1, cs, _) \<Rightarrow> (case on_outputs ser cfg tid ds st1 of (st2, cs') \<Rightarrow> (st2, cs @ cs')))"

lemmas on_output_cases = is_end_output_def on_output_def Let_def

lemma on_outputs_append:
  "on_outputs ser cfg tid (ds @ es) st =
     (case on_outputs ser cfg tid ds st of
        (st1, cs) \<Rightarrow> (case on_outputs ser cfg tid es st1 of (st2, cs') \<Rightarrow> (st2, cs @ cs')))"
  by (induction ds arbitrary: st) (auto split: prod.splits)

lemma on_output_ok:
  "is_end_output d = Some False \<Longrightarrow>
    appended (stream_key tid) (fst (snd (on_output ser cfg tid d True True st)))
      = [[(''pb'', ser d), (''seq'', py_str (ou_seq st + 1))]]
    \<and> ou_seq (fst (on_output ser cfg tid d True True st)) = ou_seq st + 1"
  by (simp add: on_output_def Let_def)

text \<open>The fields of consecutive payload entries.\<close>

fun payload_fields :: "(pstruct \<Rightarrow> string) \<Rightarrow> int \<Rightarrow> pstruct list \<Rightarrow> fields list" where
  "payload_fields ser q [] = []"
| "payload_fields ser q (d # ds) = [(''pb'', ser d), (''seq'', py_str q)] # payload_fields ser (q + 1) ds"

lemma on_outputs_ok:
  "(\<And>d. d \<in> set ds \<Longrightarrow> is_end_output d = Some False) \<Longrightarrow>
    appended (stream_key tid) (snd (on_outputs ser cfg tid (map (\<lambda>d. (d, True, True)) ds) st))
      = payload_fields ser (ou_seq st + 1) ds"
proof (induction ds arbitrary: st)
  case Nil
  then show ?case by simp
next
  case (Cons d ds)
  then have d: "is_end_output d = Some False" and ds: "\<And>d. d \<in> set ds \<Longrightarrow> is_end_output d = Some False" by simp_all
  show ?case
    using on_output_ok [OF d, of tid ser cfg st] Cons.IH [OF ds, of "fst (on_output ser cfg tid d True True st)"]
    by (simp add: case_prod_beta)
qed

text \<open>The sequence numbers of the payload entries among some commands.\<close>

definition entry_seqs :: "redis_cmd list \<Rightarrow> string list" where
  "entry_seqs cs = concat (map (\<lambda>c. case c of XADD k fs m \<Rightarrow> (case od_get fs ''seq'' of None \<Rightarrow> [] | Some q \<Rightarrow> [q]) | _ \<Rightarrow> []) cs)"

lemma entry_seqs_append [simp]: "entry_seqs (cs @ ds) = entry_seqs cs @ entry_seqs ds"
  by (simp add: entry_seqs_def)

lemma on_output_seq:
  "on_output ser cfg tid d x e st = (st', cs, err) \<Longrightarrow>
    (entry_seqs cs = [] \<and> ou_seq st \<le> ou_seq st')
      \<or> (entry_seqs cs = [py_str (ou_seq st + 1)] \<and> ou_seq st' = ou_seq st + 1)"
  by (auto simp: on_output_def Let_def entry_seqs_def od_get_def split: option.splits bool.splits if_splits)

definition seq_set_above :: "int \<Rightarrow> string list \<Rightarrow> bool" where
  "seq_set_above n qs \<longleftrightarrow> (\<exists>ns. qs = map py_str ns \<and> sorted_wrt (<) ns \<and> (\<forall>m\<in>set ns. n < m))"

lemma seq_set_above_Cons: "seq_set_above (n + 1) qs \<Longrightarrow> seq_set_above n (py_str (n + 1) # qs)"
  unfolding seq_set_above_def by (metis (no_types, lifting) less_add_one list.simps(9) order.strict_trans set_ConsD sorted_wrt.simps(2))

lemma seq_set_above_mono: "seq_set_above m qs \<Longrightarrow> n \<le> m \<Longrightarrow> seq_set_above n qs"
  unfolding seq_set_above_def by (metis order.strict_trans1)

lemma on_outputs_seq: "seq_set_above (ou_seq st) (entry_seqs (snd (on_outputs ser cfg tid ds st)))"
proof (induction ds arbitrary: st)
  case Nil
  then show ?case by (simp add: entry_seqs_def seq_set_above_def)
next
  case (Cons p ds)
  obtain d x e where p: "p = (d, x, e)" by (metis prod_cases3)
  obtain st1 cs err where o: "on_output ser cfg tid d x e st = (st1, cs, err)" by (metis prod_cases3)
  have r: "entry_seqs (snd (on_outputs ser cfg tid (p # ds) st))
      = entry_seqs cs @ entry_seqs (snd (on_outputs ser cfg tid ds st1))"
    by (simp add: p o case_prod_beta)
  show ?case
    using on_output_seq [OF o] Cons.IH [of st1] seq_set_above_mono [of "ou_seq st1" _ "ou_seq st"]
      seq_set_above_Cons [of "ou_seq st"] unfolding r by auto
qed

text \<open>
  Sequence numbers are never reused. Whatever the module emits and whichever Redis calls fail,
  the payload entries written for one task carry strictly increasing positive sequence numbers:
  a write that fails leaves a gap, never a duplicate.
\<close>

theorem output_seqs_increase:
  "\<exists>ns. entry_seqs (snd (on_outputs ser cfg tid ds out_init)) = map py_str ns
      \<and> sorted_wrt (<) ns \<and> (\<forall>m\<in>set ns. 0 < m)"
  using on_outputs_seq [of out_init ser cfg tid ds] by (simp add: out_init_def seq_set_above_def)

theorem output_seqs_increase_witness:
  "snd (on_outputs (\<lambda>_. ''x'') \<lparr>redis_stream_maxlen = 1000, redis_stream_initial_ttl = 600, redis_stream_ttl = 360\<rparr>
      ''t'' [([], False, True), ([], True, True)] out_init)
    = [XADD (stream_key ''t'') [(''pb'', ''x''), (''seq'', ''2'')] (Some 1000), EXPIRE (stream_key ''t'') 600]
   \<and> (\<exists>ns. [''2''] = map py_str ns \<and> sorted_wrt (<) ns \<and> (\<forall>m\<in>set ns. 0 < m))"
proof -
  let ?cfg = "\<lparr>redis_stream_maxlen = 1000, redis_stream_initial_ttl = 600, redis_stream_ttl = 360\<rparr>"
  let ?ds = "[([], False, True), ([], True, True)]"
  have run: "snd (on_outputs (\<lambda>_. ''x'') ?cfg ''t'' ?ds out_init)
    = [XADD (stream_key ''t'') [(''pb'', ''x''), (''seq'', ''2'')] (Some 1000), EXPIRE (stream_key ''t'') 600]"
    by code_simp
  have "entry_seqs [XADD (stream_key ''t'') [(''pb'', ''x''), (''seq'', ''2'')] (Some 1000), EXPIRE (stream_key ''t'') 600]
    = [''2'']"
    by code_simp
  with run output_seqs_increase [of "\<lambda>_. ''x''" ?cfg "''t''" ?ds] show ?thesis by simp
qed

section \<open>Running one task\<close>

datatype run_exc =
    ValidationExc "string option"       \<comment> \<open>the missing paths as printed, if there are any\<close>
  | BackpressureExc string
  | RedisExc string string              \<comment> \<open>type name and text\<close>
  | PermissionDeniedExc string
  | OtherExc string string
  | CancelledExc                        \<comment> \<open>a \<open>BaseException\<close>, which no handler of \<open>run\<close> catches\<close>

datatype run_event =
    ResolveSetup | CreateSetupModel | BuildToolCache | CreateInput | PreloadInstance bool | RunInstance
  | OnFatal string string | ProfilerStop | ContextReset

text \<open>What the calls of \<open>run\<close> return: \<open>None\<close> for success.\<close>

record run_env =
  re_resolve :: "run_exc option"
  re_setup_model :: "run_exc option"
  re_tool_cached :: bool
  re_registry :: bool
  re_communication :: bool
  re_build_cache :: "run_exc option"
  re_to_dict :: "run_exc option"
  re_create_input :: "run_exc option"
  re_preload :: "run_exc option"
  re_run_instance :: "run_exc option"
  re_setup_id :: string
  re_model_name :: string
  re_top_keys :: string

definition missing_summary :: "string option \<Rightarrow> string option" where
  "missing_summary missing = map_option (\<lambda>m. '' missing_fields='' @ m) missing"

text \<open>The setup phase, and whether a tool cache is there afterwards.\<close>

definition builds_cache :: "run_env \<Rightarrow> bool" where
  "builds_cache env \<longleftrightarrow> \<not> re_tool_cached env \<and> re_registry env \<and> re_communication env"

definition setup_phase :: "run_env \<Rightarrow> run_event list \<times> run_exc option" where
  "setup_phase env = steps
     ([(re_resolve env, [ResolveSetup]), (re_setup_model env, [CreateSetupModel])]
      @ (if builds_cache env then [(re_build_cache env, [BuildToolCache])] else []))"

definition module_phase :: "run_env \<Rightarrow> run_event list \<times> run_exc option" where
  "module_phase env = steps
     [(re_to_dict env, []), (re_create_input env, [CreateInput]),
      (re_preload env, [PreloadInstance (re_tool_cached env \<or> builds_cache env)]), (re_run_instance env, [RunInstance])]"

definition setup_fatal :: "run_env \<Rightarrow> string option \<Rightarrow> run_event" where
  "setup_fatal env missing = OnFatal (code_value SETUP_VALIDATION_ERROR)
     (''setup validation failed for '' @ re_setup_id env @ '':'' @
        (case missing_summary missing of None \<Rightarrow> '' see logs'' | Some m \<Rightarrow> m))"

text \<open>The outer handlers.\<close>

fun outer_fatal :: "run_env \<Rightarrow> run_exc \<Rightarrow> run_event option" where
  "outer_fatal env (ValidationExc missing) = Some (OnFatal (code_value INPUT_VALIDATION_ERROR)
     (''input validation failed for '' @ re_model_name env @ '': top_keys='' @ re_top_keys env @
        (case missing_summary missing of None \<Rightarrow> [] | Some m \<Rightarrow> m)))"
| "outer_fatal env (BackpressureExc msg) = Some (OnFatal (code_value BACKPRESSURE_TIMEOUT) msg)"
| "outer_fatal env (RedisExc ty msg) = Some (OnFatal (code_value REDIS_UNAVAILABLE)
     (''redis unavailable: '' @ ty @ '': '' @ msg))"
| "outer_fatal env (PermissionDeniedExc msg) = Some (OnFatal (code_value SETUP_ACCESS_DENIED) msg)"
| "outer_fatal env (OtherExc ty msg) = Some (OnFatal (code_value MODULE_RUNTIME_ERROR)
     (''module execution failed: '' @ ty @ '': '' @ msg))"
| "outer_fatal env CancelledExc = None"

text \<open>\<open>run\<close>: the events, and the exception it lets out (only a cancellation).\<close>

definition module_run :: "run_env \<Rightarrow> run_event list \<times> run_exc option" where
  "module_run env =
     (let cleanup = [ProfilerStop, ContextReset];
          handle = (\<lambda>evs e. case outer_fatal env e of
                        Some f \<Rightarrow> (evs @ [f] @ cleanup, None)
                      | None \<Rightarrow> (evs @ cleanup, Some e))
      in case setup_phase env of
        (evs, Some (ValidationExc missing)) \<Rightarrow> (evs @ [setup_fatal env missing] @ cleanup, None)
      | (evs, Some e) \<Rightarrow> handle evs e
      | (evs, None) \<Rightarrow> (case module_phase env of
            (evs', None) \<Rightarrow> (evs @ evs' @ cleanup, None)
          | (evs', Some e) \<Rightarrow> handle (evs @ evs') e))"

definition fatals :: "run_event list \<Rightarrow> run_event list" where
  "fatals evs = filter (\<lambda>ev. case ev of OnFatal c m \<Rightarrow> True | _ \<Rightarrow> False) evs"

lemma fatals_append [simp]: "fatals (evs @ evs') = fatals evs @ fatals evs'"
  by (simp add: fatals_def)

lemma fatals_phase [simp]: "fatals (fst (setup_phase env)) = []" "fatals (fst (module_phase env)) = []"
proof -
  have "\<not> (case ev of OnFatal c m \<Rightarrow> True | _ \<Rightarrow> False)"
    if "ev \<in> set (fst (setup_phase env)) \<or> ev \<in> set (fst (module_phase env))" for ev
    using that by (auto simp: setup_phase_def module_phase_def simp del: steps.simps dest!: steps_events split: if_splits)
  then show "fatals (fst (setup_phase env)) = []" "fatals (fst (module_phase env)) = []"
    by (auto simp: fatals_def filter_empty_conv)
qed

lemma fatals_cleanup [simp]: "fatals [ProfilerStop, ContextReset] = []"
  by (simp add: fatals_def)

lemma setup_phase_None: "snd (setup_phase env) = None \<longleftrightarrow>
    re_resolve env = None \<and> re_setup_model env = None \<and> (builds_cache env \<longrightarrow> re_build_cache env = None)"
  unfolding setup_phase_def steps_None by auto

lemma module_phase_None: "snd (module_phase env) = None \<longleftrightarrow>
    re_to_dict env = None \<and> re_create_input env = None \<and> re_preload env = None \<and> re_run_instance env = None"
  unfolding module_phase_def steps_None by auto

lemma module_phase_runs: "RunInstance \<in> set (fst (module_phase env)) \<longleftrightarrow>
    re_to_dict env = None \<and> re_create_input env = None \<and> re_preload env = None"
  by (auto simp: module_phase_def case_prod_beta split: option.splits)

lemma setup_phase_not_runs: "RunInstance \<notin> set (fst (setup_phase env))"
  by (auto simp: setup_phase_def simp del: steps.simps dest!: steps_events split: if_splits)

lemma outer_fatal_None: "outer_fatal env e = None \<longleftrightarrow> e = CancelledExc"
  by (cases e) simp_all

lemma outer_fatal_Some: "outer_fatal env e = Some f \<Longrightarrow> fatals [f] = [f] \<and> f \<noteq> RunInstance"
  by (cases e) (auto simp: fatals_def)

text \<open>The four ways a run ends.\<close>

lemma module_run_cases [consumes 1, case_names setup_invalid setup_failed finished module_failed]:
  assumes "module_run env = (evs, r)"
  obtains missing where "snd (setup_phase env) = Some (ValidationExc missing)" "r = None"
      "evs = fst (setup_phase env) @ [setup_fatal env missing] @ [ProfilerStop, ContextReset]"
  | e where "snd (setup_phase env) = Some e" "\<nexists>m. e = ValidationExc m"
      "evs = fst (setup_phase env) @ (case outer_fatal env e of None \<Rightarrow> [] | Some f \<Rightarrow> [f]) @ [ProfilerStop, ContextReset]"
      "r = (if outer_fatal env e = None then Some e else None)"
  | "snd (setup_phase env) = None" "snd (module_phase env) = None" "r = None"
      "evs = fst (setup_phase env) @ fst (module_phase env) @ [ProfilerStop, ContextReset]"
  | e where "snd (setup_phase env) = None" "snd (module_phase env) = Some e"
      "evs = fst (setup_phase env) @ fst (module_phase env)
        @ (case outer_fatal env e of None \<Rightarrow> [] | Some f \<Rightarrow> [f]) @ [ProfilerStop, ContextReset]"
      "r = (if outer_fatal env e = None then Some e else None)"
proof -
  obtain s1 r1 where s: "setup_phase env = (s1, r1)" by (cases "setup_phase env")
  obtain m1 q1 where m: "module_phase env = (m1, q1)" by (cases "module_phase env")
  show thesis
  proof (cases r1)
    case None
    show thesis
    proof (cases q1)
      case None
      with \<open>r1 = None\<close> assms s m show thesis by (intro that(3)) (simp_all add: module_run_def Let_def)
    next
      case (Some e)
      with \<open>r1 = None\<close> assms s m show thesis
        by (intro that(4) [of e]) (auto simp: module_run_def Let_def split: option.splits)
    qed
  next
    case (Some e)
    show thesis
    proof (cases "\<exists>x. e = ValidationExc x")
      case True
      then obtain x where "e = ValidationExc x" ..
      with Some assms s show thesis by (intro that(1) [of x]) (simp_all add: module_run_def Let_def)
    next
      case False
      with Some assms s show thesis
        by (intro that(2) [of e]) (cases e; auto simp: module_run_def Let_def split: option.splits)+
    qed
  qed
qed

text \<open>
  A task is run or reported, once, and always cleaned up. Every run of \<open>ModuleRunner.run\<close> ends
  by stopping the profiler and resetting the request context and reports at most one fatal error;
  it starts the module only after the setup was resolved and validated, the input accepted and the
  instance preloaded; a run that reports nothing either ran the module without an exception or
  was cancelled; only a cancellation escapes. A setup error and an input error have their own codes.
\<close>

theorem run_reports_once:
  assumes "module_run env = (evs, r)"
  shows "drop (length evs - 2) evs = [ProfilerStop, ContextReset]
    \<and> length (fatals evs) \<le> 1
    \<and> (RunInstance \<in> set evs \<longrightarrow> re_resolve env = None \<and> re_setup_model env = None
        \<and> re_create_input env = None \<and> re_preload env = None)
    \<and> (fatals evs = [] \<longrightarrow> r = Some CancelledExc \<or> RunInstance \<in> set evs \<and> re_run_instance env = None)
    \<and> (r = None \<or> r = Some CancelledExc)
    \<and> (re_resolve env = None \<and> re_setup_model env = Some (ValidationExc m) \<longrightarrow> fatals evs = [setup_fatal env m])"
  using assms
proof (cases rule: module_run_cases)
  case (setup_invalid missing)
  have s: "snd (setup_phase env) = Some (ValidationExc missing)" by fact
  have "missing = m" if "re_resolve env = None" "re_setup_model env = Some (ValidationExc m)"
    using s that by (simp add: setup_phase_def)
  moreover have "fatals [setup_fatal env missing, ProfilerStop, ContextReset] = [setup_fatal env missing]"
    by (simp add: fatals_def setup_fatal_def)
  ultimately show ?thesis
    using setup_invalid setup_phase_not_runs [of env] by (auto simp: setup_fatal_def)
next
  case (setup_failed e)
  have ne: "\<not> (re_resolve env = None \<and> re_setup_model env = Some (ValidationExc m))"
    using setup_failed(1,2) by (auto simp: setup_phase_def)
  show ?thesis
  proof (cases "outer_fatal env e")
    case None
    with setup_failed ne setup_phase_not_runs [of env] show ?thesis by (simp add: outer_fatal_None)
  next
    case (Some f)
    with setup_failed ne setup_phase_not_runs [of env] outer_fatal_Some [OF Some]
      fatals_append [of "[f]" "[ProfilerStop, ContextReset]"] show ?thesis by auto
  qed
next
  case finished
  with setup_phase_not_runs [of env] show ?thesis
    by (auto simp: setup_phase_None module_phase_None module_phase_runs)
next
  case (module_failed e)
  have ok: "re_resolve env = None" "re_setup_model env = None"
    using module_failed(1) by (simp_all add: setup_phase_None)
  show ?thesis
  proof (cases "outer_fatal env e")
    case None
    with module_failed ok setup_phase_not_runs [of env] show ?thesis
      by (simp add: outer_fatal_None module_phase_runs)
  next
    case (Some f)
    with module_failed ok setup_phase_not_runs [of env] outer_fatal_Some [OF Some]
      fatals_append [of "[f]" "[ProfilerStop, ContextReset]"] show ?thesis
      by (auto simp: module_phase_runs)
  qed
qed

definition env_demo :: run_env where
  "env_demo = \<lparr>re_resolve = None, re_setup_model = None, re_tool_cached = False, re_registry = True,
     re_communication = True, re_build_cache = None, re_to_dict = None, re_create_input = None,
     re_preload = None, re_run_instance = Some (BackpressureExc ''full''), re_setup_id = ''s'',
     re_model_name = ''In'', re_top_keys = ''[]''\<rparr>"

theorem run_reports_once_witness:
  "length (fatals (fst (module_run env_demo))) \<le> 1 \<and> RunInstance \<in> set (fst (module_run env_demo))"
proof -
  have run: "module_run env_demo =
      ([ResolveSetup, CreateSetupModel, BuildToolCache, CreateInput, PreloadInstance True, RunInstance,
        OnFatal ''BACKPRESSURE_TIMEOUT'' ''full'', ProfilerStop, ContextReset], None)"
    by code_simp
  from run_reports_once [OF run] show ?thesis by (simp add: run)
qed

end
