(* ===== verification/Redis_State.thy ===== *)
theory Redis_State
  imports Stream_Protocol
begin

text \<open>
  What the code keeps in Redis beside the streams: the at-most-once claim of
  \<open>core/task_manager/redis/redis_idempotency.py\<close> and the task hashes of \<open>redis_state.py\<close>. The
  Redis commands the claim script calls are operations of a record \<open>kv_ops\<close> on a state of any
  type; \<open>kv_laws\<close> is what Redis documents about them.
\<close>

section \<open>Key-value commands\<close>

record 's kv_ops =
  kv_get :: "string \<Rightarrow> 's \<Rightarrow> string option"
  kv_set_ex :: "string \<Rightarrow> string \<Rightarrow> int \<Rightarrow> 's \<Rightarrow> 's"
  kv_expire :: "string \<Rightarrow> int \<Rightarrow> 's \<Rightarrow> 's"
  kv_del :: "string \<Rightarrow> 's \<Rightarrow> 's"

text \<open>
  \<open>SET k v EX t\<close> stores, \<open>EXPIRE\<close> with a positive time keeps the value, \<open>DEL\<close> removes, and each
  touches its own key only (no key is observed past its time to live here).
\<close>

definition kv_laws :: "'s kv_ops \<Rightarrow> bool" where
  "kv_laws ops \<longleftrightarrow>
     (\<forall>s k k' v t. 0 < t \<longrightarrow> kv_get ops k' (kv_set_ex ops k v t s) = (if k' = k then Some v else kv_get ops k' s)) \<and>
     (\<forall>s k k' t. 0 < t \<longrightarrow> kv_get ops k' (kv_expire ops k t s) = kv_get ops k' s) \<and>
     (\<forall>s k k'. kv_get ops k' (kv_del ops k s) = (if k' = k then None else kv_get ops k' s))"

text \<open>A store that satisfies them: a map that keeps values for ever.\<close>

definition map_ops :: "(string, string) odict kv_ops" where
  "map_ops = \<lparr>kv_get = (\<lambda>k s. od_get s k), kv_set_ex = (\<lambda>k v t s. od_set k v s),
     kv_expire = (\<lambda>k t s. s), kv_del = od_del\<rparr>"

lemma map_ops_laws: "kv_laws map_ops"
  by (simp add: kv_laws_def map_ops_def)

section \<open>The claim\<close>

datatype ClaimResult = TAKEN | CLAIMED | RECLAIMED

fun claim_value :: "ClaimResult \<Rightarrow> int" where
  "claim_value TAKEN = 0"
| "claim_value CLAIMED = 1"
| "claim_value RECLAIMED = 2"

text \<open>The Lua script: the integer reply and the store afterwards.\<close>

definition claim_script :: "'s kv_ops \<Rightarrow> string \<Rightarrow> string \<Rightarrow> int \<Rightarrow> 's \<Rightarrow> int \<times> 's" where
  "claim_script ops key arg1 arg2 s =
     (case kv_get ops key s of
        None \<Rightarrow> (claim_value CLAIMED, kv_set_ex ops key arg1 arg2 s)
      | Some current \<Rightarrow>
          if current = arg1 then (claim_value RECLAIMED, kv_expire ops key arg2 s)
          else (claim_value TAKEN, s))"

text \<open>\<open>ClaimResult(int(value))\<close>; a nil reply counts as \<open>TAKEN\<close>, an unknown integer raises.\<close>

definition decode_claim :: "int option \<Rightarrow> ClaimResult option" where
  "decode_claim raw = (case raw of
      None \<Rightarrow> Some TAKEN
    | Some v \<Rightarrow> if v = 0 then Some TAKEN else if v = 1 then Some CLAIMED
               else if v = 2 then Some RECLAIMED else None)"

lemma decode_claim_value [simp]: "decode_claim (Some (claim_value c)) = Some c"
  by (cases c) (simp_all add: decode_claim_def)

definition claim :: "'s kv_ops \<Rightarrow> int \<Rightarrow> string \<Rightarrow> string \<Rightarrow> 's \<Rightarrow> ClaimResult option \<times> 's" where
  "claim ops idem_ttl task_id instance_id s =
     (case claim_script ops (idem_key task_id) instance_id idem_ttl s of (v, s') \<Rightarrow> (decode_claim (Some v), s'))"

definition release :: "'s kv_ops \<Rightarrow> string \<Rightarrow> 's \<Rightarrow> 's" where
  "release ops task_id s = kv_del ops (idem_key task_id) s"

definition claim_owner :: "'s kv_ops \<Rightarrow> 's \<Rightarrow> string \<Rightarrow> string option" where
  "claim_owner ops s task_id = kv_get ops (idem_key task_id) s"

section \<open>Interface: an exclusive claim\<close>

text \<open>What the gateway relies on: only a free task is claimed, and a claim stays until released.\<close>

locale claim_guard =
  fixes take :: "'k \<Rightarrow> 'i \<Rightarrow> 's \<Rightarrow> bool \<times> 's"
    and give :: "'k \<Rightarrow> 's \<Rightarrow> 's"
    and owner :: "'s \<Rightarrow> 'k \<Rightarrow> 'i option"
    and inv :: "'s \<Rightarrow> bool"
  assumes take_won: "inv s \<Longrightarrow> fst (take k i s) \<longleftrightarrow> owner s k = None"
    and take_owner: "inv s \<Longrightarrow> owner (snd (take k i s)) k' =
          (if k' = k \<and> owner s k = None then Some i else owner s k')"
    and give_owner: "inv s \<Longrightarrow> owner (give k s) k' = (if k' = k then None else owner s k')"
    and inv_take: "inv s \<Longrightarrow> inv (snd (take k i s))"
    and inv_give: "inv s \<Longrightarrow> inv (give k s)"
begin

lemma take_keeps: "inv s \<Longrightarrow> owner s k' \<noteq> None \<Longrightarrow> owner (snd (take k i s)) k' = owner s k'"
  by (auto simp: take_owner)

lemma take_then_taken: "inv s \<Longrightarrow> \<not> fst (take k j (snd (take k i s)))"
  by (cases "owner s k") (simp_all add: take_won inv_take take_owner)

lemma give_then_won: "inv s \<Longrightarrow> fst (take k j (give k s))"
  by (simp add: take_won inv_give give_owner)

text \<open>Any number of contenders: from a free task exactly the first one wins.\<close>

fun contend :: "'k \<Rightarrow> 'i list \<Rightarrow> 's \<Rightarrow> bool list" where
  "contend k [] s = []"
| "contend k (i # is) s = fst (take k i s) # contend k is (snd (take k i s))"

lemma contend_owned: "inv s \<Longrightarrow> owner s k \<noteq> None \<Longrightarrow> contend k is s = replicate (length is) False"
proof (induction "is" arbitrary: s)
  case (Cons i ys)
  from Cons.IH [of "snd (take k i s)"] Cons.prems show ?case
    by (simp add: take_won inv_take take_keeps)
qed simp

lemma contend_free: "inv s \<Longrightarrow> owner s k = None \<Longrightarrow> contend k (i # is) s = True # replicate (length is) False"
  using contend_owned [of "snd (take k i s)" k "is"] by (simp add: take_won inv_take take_owner)

end

definition claim_won :: "'s kv_ops \<Rightarrow> int \<Rightarrow> string \<Rightarrow> string \<Rightarrow> 's \<Rightarrow> bool \<times> 's" where
  "claim_won ops ttl tid inst s = (case claim ops ttl tid inst s of (r, s') \<Rightarrow> (r = Some CLAIMED, s'))"

lemma idem_key_inj [simp]: "idem_key t = idem_key u \<longleftrightarrow> t = u"
  by (simp add: idem_key_def)

lemma claim_result:
  "fst (claim ops ttl tid inst s) = Some
     (case claim_owner ops s tid of None \<Rightarrow> CLAIMED | Some c \<Rightarrow> if c = inst then RECLAIMED else TAKEN)"
  by (auto simp: claim_def claim_script_def claim_owner_def simp del: claim_value.simps split: option.split)

lemma claim_owner_claim:
  "kv_laws ops \<Longrightarrow> 0 < ttl \<Longrightarrow> claim_owner ops (snd (claim ops ttl tid inst s)) t =
    (if t = tid \<and> claim_owner ops s tid = None then Some inst else claim_owner ops s t)"
  by (auto simp: claim_def claim_script_def claim_owner_def kv_laws_def split: option.split)

lemma claim_owner_release:
  "kv_laws ops \<Longrightarrow> claim_owner ops (release ops tid s) t = (if t = tid then None else claim_owner ops s t)"
  by (simp add: claim_owner_def release_def kv_laws_def)

interpretation cg: claim_guard "claim_won ops ttl" "release ops" "claim_owner ops" "\<lambda>s. kv_laws ops \<and> 0 < ttl" for ops ttl
  by unfold_locales
    (auto simp: claim_won_def case_prod_beta claim_result claim_owner_claim claim_owner_release split: option.splits)

section \<open>Task hashes\<close>

text \<open>
  \<open>set_status\<close>: the fields given as \<open>None\<close> are left out; a \<open>datetime\<close> arrives as its ISO text.
  The two commands travel in one pipeline.
\<close>

definition task_key :: "string \<Rightarrow> string" where
  "task_key tid = ''task:'' @ tid"

fun put_fields :: "(string \<times> string option) list \<Rightarrow> fields \<Rightarrow> fields" where
  "put_fields [] m = m"
| "put_fields ((k, None) # fs) m = put_fields fs m"
| "put_fields ((k, Some v) # fs) m = put_fields fs (od_set k v m)"

definition set_status :: "int \<Rightarrow> string \<Rightarrow> string \<Rightarrow> (string \<times> string option) list \<Rightarrow> redis_cmd list" where
  "set_status task_ttl tid status fs =
     [HSET (task_key tid) (put_fields fs [(''status'', status)]), EXPIRE (task_key tid) task_ttl]"

definition record_exception :: "int \<Rightarrow> string \<Rightarrow> string \<Rightarrow> string option \<Rightarrow> redis_cmd list" where
  "record_exception task_ttl tid msg tb =
     [HSET (task_key tid)
        ((''error_message'', msg) # (case tb of None \<Rightarrow> [] | Some t \<Rightarrow> [(''exception_traceback'', t)])),
      EXPIRE (task_key tid) task_ttl]"

definition register_task :: "int \<Rightarrow> string \<Rightarrow> string \<Rightarrow> string \<Rightarrow> string \<Rightarrow> string \<Rightarrow> redis_cmd list" where
  "register_task task_ttl now tid mission_id setup_id setup_version_id =
     set_status task_ttl tid ''pending''
       [(''mission_id'', Some mission_id), (''setup_id'', Some setup_id),
        (''setup_version_id'', Some setup_version_id), (''created_at'', Some now)]"

text \<open>What a sequence of commands leaves in a hash, which is what \<open>get_status\<close> returns.\<close>

fun hash_after :: "string \<Rightarrow> redis_cmd list \<Rightarrow> fields \<Rightarrow> fields" where
  "hash_after key [] h = h"
| "hash_after key (HSET k fs # cs) h =
     hash_after key cs (if k = key then put_fields (map (\<lambda>(f, v). (f, Some v)) fs) h else h)"
| "hash_after key (_ # cs) h = hash_after key cs h"

lemma hash_after_append [simp]: "hash_after key (cs @ ds) h = hash_after key ds (hash_after key cs h)"
  by (induction key cs h rule: hash_after.induct) simp_all

text \<open>The last value given for a field.\<close>

fun field_of :: "(string \<times> string option) list \<Rightarrow> string \<Rightarrow> string option" where
  "field_of [] f = None"
| "field_of ((k, v) # fs) f = (case field_of fs f of Some w \<Rightarrow> Some w | None \<Rightarrow> if k = f then v else None)"

lemma put_fields_get: "od_get (put_fields fs m) f = (case field_of fs f of None \<Rightarrow> od_get m f | Some v \<Rightarrow> Some v)"
  by (induction fs m rule: put_fields.induct) (auto split: option.splits)

lemma put_fields_wf: "od_wf m \<Longrightarrow> od_wf (put_fields fs m)"
  by (induction fs m rule: put_fields.induct) simp_all

lemma field_of_all: "od_wf d \<Longrightarrow> field_of (map (\<lambda>(f, v). (f, Some v)) d) f = od_get d f"
proof (induction d)
  case (Cons p d)
  obtain a b where p: "p = (a, b)" by (cases p)
  from Cons.prems have "od_wf d" "od_get d a = None" by (auto simp: p od_wf_def od_get_None_iff)
  with Cons.IH show ?case by (auto simp: p od_get_Cons split: option.splits)
qed simp

lemma set_status_hash:
  "od_get (hash_after (task_key tid) (set_status ttl tid status fs) h) f =
    (case field_of fs f of Some v \<Rightarrow> Some v
     | None \<Rightarrow> if f = ''status'' then Some status else od_get h f)"
proof -
  have wf: "od_wf (put_fields fs [(''status'', status)])"
    by (rule put_fields_wf) (simp add: od_wf_def)
  have "hash_after (task_key tid) (set_status ttl tid status fs) h
      = put_fields (map (\<lambda>(f, v). (f, Some v)) (put_fields fs [(''status'', status)])) h"
    by (simp add: set_status_def)
  then show ?thesis
    by (simp add: put_fields_get field_of_all [OF wf] od_get_Cons split: option.splits)
qed

text \<open>
  Status writes accumulate. Registering a task leaves its identifiers, its creation time and
  the status \<open>pending\<close> in the hash of that task; every later status write replaces the status,
  adds the fields it names, keeps the others, and touches no other task's hash; each write renews
  the hash's time to live.
\<close>

theorem status_writes_accumulate:
  assumes "h = hash_after (task_key tid) (register_task ttl now tid mission setup version) []"
    and "field_of fs ''status'' = None" and "f \<noteq> ''status''"
  shows "od_get h ''status'' = Some ''pending'' \<and> od_get h ''mission_id'' = Some mission
    \<and> od_get h ''created_at'' = Some now
    \<and> od_get (hash_after (task_key tid) (set_status ttl tid status fs) h) ''status'' = Some status
    \<and> od_get (hash_after (task_key tid) (set_status ttl tid status fs) h) f
        = (case field_of fs f of Some v \<Rightarrow> Some v | None \<Rightarrow> od_get h f)
    \<and> hash_after (task_key other) (set_status ttl tid status fs) g
        = (if other = tid then hash_after (task_key tid) (set_status ttl tid status fs) g else g)"
proof -
  have h: "od_get h x = (case field_of [(''mission_id'', Some mission), (''setup_id'', Some setup),
      (''setup_version_id'', Some version), (''created_at'', Some now)] x of Some v \<Rightarrow> Some v
      | None \<Rightarrow> if x = ''status'' then Some ''pending'' else od_get [] x)" for x
    unfolding assms(1) register_task_def by (rule set_status_hash)
  have "hash_after (task_key other) (set_status ttl tid status fs) g
      = (if other = tid then hash_after (task_key tid) (set_status ttl tid status fs) g else g)"
    by (simp add: set_status_def task_key_def)
  moreover have "od_get h ''status'' = Some ''pending''" "od_get h ''mission_id'' = Some mission"
    "od_get h ''created_at'' = Some now"
    by (simp_all add: h)
  ultimately show ?thesis using assms(2,3) by (simp add: set_status_hash)
qed

theorem status_writes_accumulate_witness:
  "od_get (hash_after (task_key ''t'') (set_status 60 ''t'' ''running'' [(''started_at'', Some ''now'')])
      (hash_after (task_key ''t'') (register_task 60 ''0'' ''t'' ''m'' ''s'' ''v'') [])) ''started_at'' = Some ''now''"
proof -
  let ?h = "hash_after (task_key ''t'') (register_task 60 ''0'' ''t'' ''m'' ''s'' ''v'') []"
  have f: "field_of [(''started_at'', Some ''now'')] ''status'' = None"
    "field_of [(''started_at'', Some ''now'')] ''started_at'' = Some ''now''" "''started_at'' \<noteq> ''status''"
    by simp_all
  from status_writes_accumulate [of ?h "''t''" 60 "''0''" "''m''" "''s''" "''v''" "[(''started_at'', Some ''now'')]"
      "''started_at''" "''running''" "''t''" "[]", OF refl f(1,3)]
  have "od_get (hash_after (task_key ''t'') (set_status 60 ''t'' ''running'' [(''started_at'', Some ''now'')]) ?h)
      ''started_at'' = (case field_of [(''started_at'', Some ''now'')] ''started_at'' of Some v \<Rightarrow> Some v
        | None \<Rightarrow> od_get ?h ''started_at'')"
    by (elim conjE)
  with f(2) show ?thesis by (simp only: option.case)
qed

text \<open>
  The claim is exclusive. Over a Redis that keeps its documented laws, when any number of
  replicas claim the same task one after the other, exactly the first gets it; and after a
  release the next claim gets it again.
\<close>

theorem claim_exclusive:
  assumes "kv_laws ops" and "0 < ttl" and "claim_owner ops s tid = None"
  shows "fst (claim ops ttl tid inst s) = Some CLAIMED
    \<and> (\<forall>other. fst (claim ops ttl tid other (snd (claim ops ttl tid inst s)))
         = Some (if other = inst then RECLAIMED else TAKEN))
    \<and> fst (claim ops ttl tid other' (release ops tid (snd (claim ops ttl tid inst s)))) = Some CLAIMED"
  using assms by (simp add: claim_result claim_owner_claim claim_owner_release)

theorem claim_exclusive_witness:
  "fst (claim map_ops 3600 ''t'' ''b'' (snd (claim map_ops 3600 ''t'' ''a'' []))) = Some TAKEN"
  using claim_exclusive [OF map_ops_laws, of 3600 "[]" "''t''" "''a''" "''c''"]
  by (simp add: claim_owner_def map_ops_def)

end
