(* ===== verification/Gateway_Start.thy ===== *)
theory Gateway_Start
  imports Redis_State Stream_Registry Validators
begin

text \<open>
  \<open>GatewayServicer.StartStream\<close> of \<open>grpc_servers/gateway_servicer.py\<close>. The handler suspends only at
  its Redis calls; it is written here as the code between them, one definition per segment, so
  that the same segments give the handler as a function (\<open>start_stream\<close>) and the interleaving of
  many handlers on several replicas (\<open>gw_step\<close>).
\<close>

section \<open>The segments of the handler\<close>

record start_request =
  sq_task_id :: string
  sq_setup_id :: string
  sq_mission_id :: string
  sq_address :: "string option"          \<comment> \<open>\<open>x-client-address\<close> of the metadata, decoded\<close>

definition or_else :: "string option \<Rightarrow> string option \<Rightarrow> string option" where
  "or_else a b = (case a of None \<Rightarrow> b | Some e \<Rightarrow> Some e)"

definition client_address :: "start_request \<Rightarrow> string" where
  "client_address req = strip (case sq_address req of None \<Rightarrow> '''' | Some a \<Rightarrow> a)"

text \<open>Validation and the local duplicate check; the registry's recency order changes on a lookup.\<close>

definition start_check :: "start_request \<Rightarrow> stream_registry \<Rightarrow> bool \<times> stream_registry" where
  "start_check req reg =
     (if or_else (validate_id (sq_task_id req) ''task_id'')
           (or_else (validate_id (sq_setup_id req) ''setup_id'') (validate_id (sq_mission_id req) ''mission_id'')) \<noteq> None
      then (False, reg)
      else if validate_address (client_address req) ''x-client-address'' \<noteq> None then (False, reg)
      else case sr_get (sq_task_id req) reg of (session, reg') \<Rightarrow> (session = None, reg'))"

text \<open>A request between two Redis calls: what it waits for, or how it ended.\<close>

datatype start_pc =
    Checking              \<comment> \<open>not started\<close>
  | Claiming              \<comment> \<open>the claim call is made\<close>
  | Answered "ClaimResult option"   \<comment> \<open>Redis has answered the claim, the handler has not resumed\<close>
  | Seeding               \<comment> \<open>claimed and registered; the first \<open>XADD\<close> is made\<close>
  | Seeded bool           \<comment> \<open>it has been answered: success or \<open>RedisError\<close>\<close>
  | Releasing bool        \<comment> \<open>the claim is being given back; whether the session is unregistered next\<close>
  | Released bool         \<comment> \<open>that call has been answered, the handler has not resumed\<close>
  | Accepted              \<comment> \<open>the dial-back is scheduled\<close>
  | Refused

text \<open>After the claim: \<open>None\<close> is a \<open>RedisError\<close>.\<close>

definition after_claim :: "nat \<Rightarrow> start_request \<Rightarrow> ClaimResult option \<Rightarrow> stream_registry \<Rightarrow> start_pc \<times> stream_registry" where
  "after_claim max_streams req reply reg =
     (if reply \<noteq> Some CLAIMED then (Refused, reg)
      else case sr_register max_streams (ss_init (sq_task_id req)) reg of
        (accepted, reg') \<Rightarrow> (if accepted then (Seeding, reg') else (Releasing False, reg')))"

definition start_struct :: "string \<Rightarrow> start_request \<Rightarrow> pstruct" where
  "start_struct started_at req = sentinel_struct ''stream.start''
     [(''task_id'', PStr (sq_task_id req)), (''mission_id'', PStr (sq_mission_id req)),
      (''setup_id'', PStr (sq_setup_id req)), (''started_at'', PStr started_at)]"

definition seed_cmd :: "(pstruct \<Rightarrow> string) \<Rightarrow> string \<Rightarrow> start_request \<Rightarrow> redis_cmd" where
  "seed_cmd ser started_at req =
     XADD (stream_key (sq_task_id req)) [(''pb'', ser (start_struct started_at req)), (''seq'', ''0'')] None"

definition dial_name :: "string \<Rightarrow> string" where
  "dial_name tid = ''dial_consumer_'' @ tid"

definition after_seed :: "start_request \<Rightarrow> bool \<Rightarrow> stream_registry \<Rightarrow> start_pc \<times> stream_registry" where
  "after_seed req ok reg =
     (if ok then (Accepted, sr_monitor_task (dial_name (sq_task_id req)) reg) else (Releasing True, reg))"

definition after_release :: "start_request \<Rightarrow> bool \<Rightarrow> stream_registry \<Rightarrow> stream_registry" where
  "after_release req unregister reg = (if unregister then snd (sr_unregister (sq_task_id req) reg) else reg)"

section \<open>The handler\<close>

text \<open>
  How a Redis call can end for the caller: done, failed without effect, or failed after Redis
  had applied it (the reply was lost). Both failures raise \<open>RedisError\<close>.
\<close>

datatype redis_fault = Done | NotSent | ReplyLost

definition applied :: "redis_fault \<Rightarrow> bool" where
  "applied f \<longleftrightarrow> f \<noteq> NotSent"

record start_env =
  se_max_streams :: nat
  se_idem_ttl :: int
  se_process_id :: string
  se_started_at :: string
  se_claim :: redis_fault
  se_seed :: redis_fault
  se_release :: redis_fault

definition claim_call ::
    "'s kv_ops \<Rightarrow> int \<Rightarrow> string \<Rightarrow> string \<Rightarrow> redis_fault \<Rightarrow> 's \<Rightarrow> ClaimResult option \<times> 's" where
  "claim_call ops ttl tid inst f s =
     (case f of NotSent \<Rightarrow> (None, s)
      | Done \<Rightarrow> claim ops ttl tid inst s
      | ReplyLost \<Rightarrow> (None, snd (claim ops ttl tid inst s)))"

definition release_call :: "'s kv_ops \<Rightarrow> string \<Rightarrow> redis_fault \<Rightarrow> 's \<Rightarrow> 's" where
  "release_call ops tid f s = (if applied f then release ops tid s else s)"

text \<open>\<open>StartStream\<close>: the response, the registry, the store, and the commands sent to the stream.\<close>

definition start_stream ::
    "'s kv_ops \<Rightarrow> (pstruct \<Rightarrow> string) \<Rightarrow> start_env \<Rightarrow> start_request \<Rightarrow> stream_registry \<Rightarrow> 's
      \<Rightarrow> bool \<times> stream_registry \<times> 's \<times> redis_cmd list" where
  "start_stream ops ser env req reg kv =
     (case start_check req reg of
        (False, reg1) \<Rightarrow> (False, reg1, kv, [])
      | (True, reg1) \<Rightarrow>
          (case claim_call ops (se_idem_ttl env) (sq_task_id req) (se_process_id env) (se_claim env) kv of
             (reply, kv1) \<Rightarrow>
               (case after_claim (se_max_streams env) req reply reg1 of
                  (Seeding, reg2) \<Rightarrow>
                    let cmds = (if applied (se_seed env) then [seed_cmd ser (se_started_at env) req] else []) in
                    (case after_seed req (se_seed env = Done) reg2 of
                       (Accepted, reg3) \<Rightarrow> (True, reg3, kv1, cmds)
                     | (_, reg3) \<Rightarrow>
                         (False, after_release req True reg3, release_call ops (sq_task_id req) (se_release env) kv1, cmds))
                | (Releasing u, reg2) \<Rightarrow>
                    (False, after_release req u reg2, release_call ops (sq_task_id req) (se_release env) kv1, [])
                | (_, reg2) \<Rightarrow> (False, reg2, kv1, []))))"

lemma sr_cache_after_get: "od_get (sr_cache (snd (sr_get t r))) k = od_get (sr_cache r) k"
  by (simp add: sr_get_def split: option.split)

lemma start_check_reg: "od_get (sr_cache (snd (start_check req reg))) k = od_get (sr_cache reg) k"
  by (simp add: start_check_def sr_cache_after_get case_prod_beta)

lemma start_check_new: "fst (start_check req reg) \<Longrightarrow> od_get (sr_cache reg) (sq_task_id req) = None"
  by (auto simp: start_check_def sr_get_def case_prod_beta split: if_splits option.splits)

lemma after_claim_cases:
  "after_claim m req reply reg =
    (if reply \<noteq> Some CLAIMED then (Refused, reg)
     else if m \<le> length (sr_cache reg) then (Releasing False, reg)
     else (Seeding, reg\<lparr>sr_cache := od_move_to_end (sq_task_id req)
             (od_set (sq_task_id req) (ss_init (sq_task_id req)) (sr_cache reg))\<rparr>))"
  by (simp add: after_claim_def sr_register_def ss_init_def)

lemma start_check_tasks: "sr_tasks (snd (start_check req reg)) = sr_tasks reg"
  by (simp add: start_check_def sr_get_def case_prod_beta split: option.split)

lemma start_check_valid: "fst (start_check req reg) \<Longrightarrow>
    validate_id (sq_task_id req) ''task_id'' = None \<and> validate_address (client_address req) ''x-client-address'' = None"
  by (auto simp: start_check_def or_else_def split: if_splits option.splits)

lemma claim_call_won:
  "kv_laws ops \<Longrightarrow> 0 < ttl \<Longrightarrow> fst (claim_call ops ttl tid inst f kv) = Some CLAIMED \<Longrightarrow>
    claim_owner ops kv tid = None
    \<and> claim_owner ops (snd (claim_call ops ttl tid inst f kv)) = (claim_owner ops kv)(tid \<mapsto> inst)"
  by (cases f) (auto simp: claim_call_def claim_result claim_owner_claim fun_eq_iff split: option.splits if_splits)

lemma claim_call_lost:
  "kv_laws ops \<Longrightarrow> 0 < ttl \<Longrightarrow> fst (claim_call ops ttl tid inst Done kv) \<noteq> Some CLAIMED \<Longrightarrow>
    claim_owner ops (snd (claim_call ops ttl tid inst Done kv)) = claim_owner ops kv"
  by (auto simp: claim_call_def claim_result claim_owner_claim fun_eq_iff split: option.splits)

lemma claim_call_keeps:
  "kv_laws ops \<Longrightarrow> 0 < ttl \<Longrightarrow> claim_owner ops kv t \<noteq> None \<Longrightarrow>
    claim_owner ops (snd (claim_call ops ttl tid inst f kv)) t = claim_owner ops kv t"
  by (cases f) (auto simp: claim_call_def claim_owner_claim)


definition req_demo :: start_request where
  "req_demo = \<lparr>sq_task_id = ''t'', sq_setup_id = ''s'', sq_mission_id = ''m'', sq_address = Some '' h:80 ''\<rparr>"

definition env_start_demo :: start_env where
  "env_start_demo = \<lparr>se_max_streams = 1, se_idem_ttl = 60, se_process_id = ''p'', se_started_at = ''now'',
     se_claim = Done, se_seed = Done, se_release = Done\<rparr>"


section \<open>Many requests, several replicas\<close>

text \<open>
  Requests are numbered; request \<open>i\<close> runs on replica \<open>rep i\<close>, whose process identifier is
  \<open>pid (rep i)\<close>. Every replica has its registry, all share the store. A step is either Redis
  executing a call or a handler running from one call to the next; with \<open>ends\<close>, sessions and
  tasks may also come and go for other reasons (a dial-back that ends, a shutdown).
\<close>

record 's gw_sys =
  gs_kv :: 's
  gs_regs :: "nat \<Rightarrow> stream_registry"
  gs_pcs :: "nat \<Rightarrow> start_pc"

record gw_params =
  gp_req :: "nat \<Rightarrow> start_request"
  gp_rep :: "nat \<Rightarrow> nat"
  gp_pid :: "nat \<Rightarrow> string"
  gp_max_streams :: nat
  gp_idem_ttl :: int

definition resumed :: "gw_params \<Rightarrow> nat \<Rightarrow> start_pc \<times> stream_registry \<Rightarrow> 's gw_sys \<Rightarrow> 's gw_sys" where
  "resumed P i r s = s\<lparr>gs_pcs := (gs_pcs s)(i := fst r), gs_regs := (gs_regs s)(gp_rep P i := snd r)\<rparr>"

inductive gw_step :: "'s kv_ops \<Rightarrow> gw_params \<Rightarrow> bool \<Rightarrow> 's gw_sys \<Rightarrow> 's gw_sys \<Rightarrow> bool"
  for ops P ends where
  check: "gs_pcs s i = Checking \<Longrightarrow> start_check (gp_req P i) (gs_regs s (gp_rep P i)) = (ok, reg) \<Longrightarrow>
    gw_step ops P ends s (resumed P i (if ok then Claiming else Refused, reg) s)"
| claim: "gs_pcs s i = Claiming \<Longrightarrow>
    claim_call ops (gp_idem_ttl P) (sq_task_id (gp_req P i)) (gp_pid P (gp_rep P i)) f (gs_kv s) = (reply, kv) \<Longrightarrow>
    gw_step ops P ends s (s\<lparr>gs_kv := kv, gs_pcs := (gs_pcs s)(i := Answered reply)\<rparr>)"
| register: "gs_pcs s i = Answered reply \<Longrightarrow>
    gw_step ops P ends s (resumed P i (after_claim (gp_max_streams P) (gp_req P i) reply (gs_regs s (gp_rep P i))) s)"
| seed: "gs_pcs s i = Seeding \<Longrightarrow> gw_step ops P ends s (s\<lparr>gs_pcs := (gs_pcs s)(i := Seeded ok)\<rparr>)"
| seeded: "gs_pcs s i = Seeded ok \<Longrightarrow>
    gw_step ops P ends s (resumed P i (after_seed (gp_req P i) ok (gs_regs s (gp_rep P i))) s)"
| giveback: "gs_pcs s i = Releasing u \<Longrightarrow>
    gw_step ops P ends s (s\<lparr>gs_kv := release_call ops (sq_task_id (gp_req P i)) f (gs_kv s),
        gs_pcs := (gs_pcs s)(i := Released u)\<rparr>)"
| undo: "gs_pcs s i = Released u \<Longrightarrow>
    gw_step ops P ends s (resumed P i (Refused, after_release (gp_req P i) u (gs_regs s (gp_rep P i))) s)"
| leave: "ends \<Longrightarrow> gw_step ops P ends s (s\<lparr>gs_regs := (gs_regs s)(n := reg)\<rparr>)"

inductive gw_reach :: "'s kv_ops \<Rightarrow> gw_params \<Rightarrow> bool \<Rightarrow> 's gw_sys \<Rightarrow> bool" for ops P ends where
  start: "(\<And>i. gs_pcs s i = Checking) \<Longrightarrow> gw_reach ops P ends s"
| step: "gw_reach ops P ends s \<Longrightarrow> gw_step ops P ends s t \<Longrightarrow> gw_reach ops P ends t"

inductive_cases gw_stepE: "gw_step ops P ends s t"

text \<open>The requests that hold the claim of their task.\<close>

fun holding :: "start_pc \<Rightarrow> bool" where
  "holding (Answered r) = (r = Some CLAIMED)"
| "holding Seeding = True"
| "holding (Seeded ok) = True"
| "holding (Releasing u) = True"
| "holding Accepted = True"
| "holding _ = False"

definition gw_inv :: "'s kv_ops \<Rightarrow> gw_params \<Rightarrow> 's gw_sys \<Rightarrow> bool" where
  "gw_inv ops P s \<longleftrightarrow>
     (\<forall>i. holding (gs_pcs s i) \<longrightarrow> claim_owner ops (gs_kv s) (sq_task_id (gp_req P i)) \<noteq> None) \<and>
     (\<forall>i j. holding (gs_pcs s i) \<and> holding (gs_pcs s j) \<and> sq_task_id (gp_req P i) = sq_task_id (gp_req P j) \<longrightarrow> i = j)"

lemma holding_after_claim: "holding (fst (after_claim m req reply reg)) \<longleftrightarrow> reply = Some CLAIMED"
  by (auto simp: after_claim_cases)

lemma holding_after_seed: "holding (fst (after_seed req ok reg))"
  by (simp add: after_seed_def)

text \<open>A step in which request \<open>i\<close> keeps what it holds, or loses it, and no claim is given up.\<close>

lemma gw_inv_quiet:
  assumes "gw_inv ops P s" and "gs_pcs t = (gs_pcs s)(i := pc)" and "holding pc \<longrightarrow> holding (gs_pcs s i)"
    and "\<And>k. claim_owner ops (gs_kv s) k \<noteq> None \<Longrightarrow> claim_owner ops (gs_kv t) k \<noteq> None"
  shows "gw_inv ops P t"
  using assms unfolding gw_inv_def by (auto split: if_splits)

lemma gw_inv_step:
  assumes laws: "kv_laws ops" "0 < gp_idem_ttl P" and step: "gw_step ops P ends s t" and inv: "gw_inv ops P s"
  shows "gw_inv ops P t"
  using step
proof cases
  case (check i ok reg)
  show ?thesis
    by (rule gw_inv_quiet [OF inv, of t i "if ok then Claiming else Refused"]) (use check in \<open>auto simp: resumed_def\<close>)
next
  case (claim i f reply kv)
  let ?t = "sq_task_id (gp_req P i)" and ?inst = "gp_pid P (gp_rep P i)"
  show ?thesis
  proof (cases "reply = Some CLAIMED")
    case False
    then show ?thesis
      using claim claim_call_keeps [OF laws, of "gs_kv s" _ ?t ?inst f]
      by (intro gw_inv_quiet [OF inv, of t i "Answered reply"]) auto
  next
    case True
    have "claim_owner ops (gs_kv s) ?t = None \<and> claim_owner ops kv = (claim_owner ops (gs_kv s))(?t \<mapsto> ?inst)"
      using claim_call_won [OF laws, of ?t ?inst f "gs_kv s"] claim True by simp
    with inv claim show ?thesis unfolding gw_inv_def by (auto split: if_splits)
  qed
next
  case (register i reply)
  show ?thesis
    by (rule gw_inv_quiet [OF inv, of t i "fst (after_claim (gp_max_streams P) (gp_req P i) reply (gs_regs s (gp_rep P i)))"])
      (use register in \<open>auto simp: resumed_def holding_after_claim\<close>)
next
  case (seed i ok)
  show ?thesis by (rule gw_inv_quiet [OF inv, of t i "Seeded ok"]) (use seed in auto)
next
  case (seeded i ok)
  show ?thesis
    by (rule gw_inv_quiet [OF inv, of t i "fst (after_seed (gp_req P i) ok (gs_regs s (gp_rep P i)))"])
      (use seeded in \<open>auto simp: resumed_def\<close>)
next
  case (giveback i u f)
  let ?t = "sq_task_id (gp_req P i)"
  have own: "claim_owner ops (release_call ops ?t f (gs_kv s)) k
      = (if k = ?t \<and> applied f then None else claim_owner ops (gs_kv s) k)" for k
    by (auto simp: release_call_def claim_owner_release [OF laws(1)])
  have "holding (gs_pcs s i)" using giveback by simp
  with inv giveback show ?thesis unfolding gw_inv_def by (auto simp: own split: if_splits)
next
  case (undo i u)
  show ?thesis by (rule gw_inv_quiet [OF inv, of t i Refused]) (use undo in \<open>auto simp: resumed_def\<close>)
next
  case (leave n reg)
  with inv show ?thesis by (simp add: gw_inv_def)
qed

lemma gw_reach_inv: "gw_reach ops P ends s \<Longrightarrow> kv_laws ops \<Longrightarrow> 0 < gp_idem_ttl P \<Longrightarrow> gw_inv ops P s"
proof (induction rule: gw_reach.induct)
  case (start s)
  then show ?case by (simp add: gw_inv_def)
next
  case (step s t)
  then show ?case using gw_inv_step by blast
qed

text \<open>
  C2: A task is started at most once. However many \<open>StartStream\<close> requests for one task are
  handled, on whichever replicas, in whatever interleaving of their Redis calls, with calls
  failing before or after Redis applied them, and with sessions coming and going meanwhile: at
  most one of them is accepted, so at most one dial-back is scheduled (while the claim lives).
\<close>

theorem started_at_most_once:
  assumes "kv_laws ops" and "0 < gp_idem_ttl P" and "gw_reach ops P ends s"
    and "gs_pcs s i = Accepted" and "gs_pcs s j = Accepted"
    and "sq_task_id (gp_req P i) = sq_task_id (gp_req P j)"
  shows "i = j"
  using gw_reach_inv [OF assms(3,1,2)] assms(4-6) unfolding gw_inv_def by simp

text \<open>Executable steps, to run schedules.\<close>

datatype gw_action = DoCheck nat | DoClaim nat redis_fault | DoRegister nat | DoSeed nat bool
  | DoSeeded nat | DoGive nat redis_fault | DoUndo nat

fun gw_do :: "'s kv_ops \<Rightarrow> gw_params \<Rightarrow> gw_action \<Rightarrow> 's gw_sys \<Rightarrow> 's gw_sys option" where
  "gw_do ops P (DoCheck i) s = (case gs_pcs s i of
     Checking \<Rightarrow> (case start_check (gp_req P i) (gs_regs s (gp_rep P i)) of
       (ok, reg) \<Rightarrow> Some (resumed P i (if ok then Claiming else Refused, reg) s)) | _ \<Rightarrow> None)"
| "gw_do ops P (DoClaim i f) s = (case gs_pcs s i of
     Claiming \<Rightarrow> (case claim_call ops (gp_idem_ttl P) (sq_task_id (gp_req P i)) (gp_pid P (gp_rep P i)) f (gs_kv s) of
       (reply, kv) \<Rightarrow> Some (s\<lparr>gs_kv := kv, gs_pcs := (gs_pcs s)(i := Answered reply)\<rparr>)) | _ \<Rightarrow> None)"
| "gw_do ops P (DoRegister i) s = (case gs_pcs s i of
     Answered reply \<Rightarrow> Some (resumed P i (after_claim (gp_max_streams P) (gp_req P i) reply (gs_regs s (gp_rep P i))) s)
   | _ \<Rightarrow> None)"
| "gw_do ops P (DoSeed i ok) s = (case gs_pcs s i of
     Seeding \<Rightarrow> Some (s\<lparr>gs_pcs := (gs_pcs s)(i := Seeded ok)\<rparr>) | _ \<Rightarrow> None)"
| "gw_do ops P (DoSeeded i) s = (case gs_pcs s i of
     Seeded ok \<Rightarrow> Some (resumed P i (after_seed (gp_req P i) ok (gs_regs s (gp_rep P i))) s) | _ \<Rightarrow> None)"
| "gw_do ops P (DoGive i f) s = (case gs_pcs s i of
     Releasing u \<Rightarrow> Some (s\<lparr>gs_kv := release_call ops (sq_task_id (gp_req P i)) f (gs_kv s),
        gs_pcs := (gs_pcs s)(i := Released u)\<rparr>) | _ \<Rightarrow> None)"
| "gw_do ops P (DoUndo i) s = (case gs_pcs s i of
     Released u \<Rightarrow> Some (resumed P i (Refused, after_release (gp_req P i) u (gs_regs s (gp_rep P i))) s) | _ \<Rightarrow> None)"

lemma gw_do_step: "gw_do ops P a s = Some t \<Longrightarrow> gw_step ops P ends s t"
  by (cases a) (auto simp: case_prod_beta intro: gw_step.intros split: start_pc.splits)

fun gw_run :: "'s kv_ops \<Rightarrow> gw_params \<Rightarrow> gw_action list \<Rightarrow> 's gw_sys \<Rightarrow> 's gw_sys option" where
  "gw_run ops P [] s = Some s"
| "gw_run ops P (a # as) s = (case gw_do ops P a s of None \<Rightarrow> None | Some t \<Rightarrow> gw_run ops P as t)"

lemma gw_run_reach: "gw_reach ops P ends s \<Longrightarrow> gw_run ops P as s = Some t \<Longrightarrow> gw_reach ops P ends t"
proof (induction as arbitrary: s)
  case (Cons a as)
  from Cons.prems(2) obtain u where u: "gw_do ops P a s = Some u" "gw_run ops P as u = Some t"
    by (auto split: option.splits)
  from Cons.IH [OF gw_reach.step [OF Cons.prems(1) gw_do_step [OF u(1)]] u(2)] show ?case .
qed simp

definition params_demo :: gw_params where
  "params_demo = \<lparr>gp_req = (\<lambda>i. req_demo), gp_rep = (\<lambda>i. 0), gp_pid = (\<lambda>n. ''p''), gp_max_streams = 2, gp_idem_ttl = 60\<rparr>"

definition sys_demo :: "(string, string) odict gw_sys" where
  "sys_demo = \<lparr>gs_kv = [], gs_regs = (\<lambda>n. sr_init), gs_pcs = (\<lambda>i. Checking)\<rparr>"

lemma sys_demo_reach: "gw_reach map_ops params_demo ends sys_demo"
  by (rule gw_reach.start) (simp add: sys_demo_def)

theorem started_at_most_once_witness:
  "\<exists>s. gw_reach map_ops params_demo True s \<and> gs_pcs s 0 = Accepted \<and> gs_pcs s 1 \<noteq> Accepted"
proof -
  let ?run = "gw_run map_ops params_demo [DoCheck 0, DoCheck 1, DoClaim 0 Done, DoClaim 1 Done, DoRegister 0,
    DoSeed 0 True, DoSeeded 0] sys_demo"
  have "(case ?run of None \<Rightarrow> False | Some s \<Rightarrow> gs_pcs s 0 = Accepted)" by code_simp
  then obtain s where s: "?run = Some s" "gs_pcs s 0 = Accepted" by (auto split: option.splits)
  have reach: "gw_reach map_ops params_demo True s" by (rule gw_run_reach [OF sys_demo_reach s(1)])
  have "0 < gp_idem_ttl params_demo" "sq_task_id (gp_req params_demo 0) = sq_task_id (gp_req params_demo 1)"
    by (simp_all add: params_demo_def)
  from started_at_most_once [OF map_ops_laws this(1) reach s(2) _ this(2)] s(2) reach show ?thesis by auto
qed

text \<open>
  An accepted task can lose its session. A request whose first write fails gives its claim
  back and only then, after the release has been answered, unregisters the session by task
  identifier. A second request for the task that had passed the duplicate check can claim,
  register and be accepted in between; the first one then removes the session of the second,
  and the accepted task's dial-back finds no session and stops without a word.
\<close>

theorem accepted_session_can_vanish:
  "\<exists>s. gw_reach map_ops params_demo False s \<and> gs_pcs s 1 = Accepted
    \<and> dial_name ''t'' \<in> sr_tasks (gs_regs s 0) \<and> sr_lookup (gs_regs s 0) ''t'' = None
    \<and> claim_owner map_ops (gs_kv s) ''t'' = Some ''p''"
proof -
  let ?run = "gw_run map_ops params_demo [DoCheck 0, DoCheck 1, DoClaim 0 Done, DoRegister 0, DoSeed 0 False,
    DoSeeded 0, DoGive 0 Done, DoClaim 1 Done, DoRegister 1, DoSeed 1 True, DoSeeded 1, DoUndo 0] sys_demo"
  have "(case ?run of None \<Rightarrow> False | Some s \<Rightarrow> gs_pcs s 1 = Accepted
      \<and> dial_name ''t'' \<in> sr_tasks (gs_regs s 0) \<and> sr_lookup (gs_regs s 0) ''t'' = None
      \<and> claim_owner map_ops (gs_kv s) ''t'' = Some ''p'')"
    by code_simp
  then obtain s where s: "?run = Some s" "gs_pcs s 1 = Accepted
      \<and> dial_name ''t'' \<in> sr_tasks (gs_regs s 0) \<and> sr_lookup (gs_regs s 0) ''t'' = None
      \<and> claim_owner map_ops (gs_kv s) ''t'' = Some ''p''"
    by (auto split: option.splits)
  with gw_run_reach [OF sys_demo_reach s(1)] show ?thesis by blast
qed

end
