(* ===== verification/Gateway_Dial.thy ===== *)
theory Gateway_Dial
  imports Gateway_Start Proto_Stream
begin

text \<open>
  The dial-back of \<open>grpc_servers/gateway_servicer.py\<close>: one attempt on a bidirectional stream
  (\<open>_run_dial_attempt\<close>) as a state machine over the events it sees, the reconnect loop around it
  (\<open>_dial_consumer\<close>), and the error report written to the task's stream
  (\<open>_emit_fatal_to_redis\<close>). Events are what the consumer, gRPC and the reader of the output
  stream do; effects are what the attempt does to Redis, to the consumer and to other tasks.
\<close>

section \<open>Reporting a fatal error\<close>

text \<open>\<open>n_ok\<close> of its three Redis calls succeed; a \<open>RedisError\<close> ends the report.\<close>

definition emit_fatal_to_redis ::
    "(pstruct \<Rightarrow> string) \<Rightarrow> int \<Rightarrow> string \<Rightarrow> string \<Rightarrow> string \<Rightarrow> nat \<Rightarrow> redis_cmd list" where
  "emit_fatal_to_redis ser stream_ttl tid code message n_ok = take n_ok
     [XADD (stream_key tid) [(''pb'', ser (error_struct code message))] None,
      XADD (stream_key tid) [(''eos'', ''true'')] None,
      EXPIRE (stream_key tid) stream_ttl]"

section \<open>One attempt\<close>

datatype dial_event =
    Upstream int pstruct           \<comment> \<open>a message of the consumer: \<open>from_seq\<close> and data\<close>
  | InboundEnd                     \<comment> \<open>the consumer closed its side\<close>
  | GraceTimeout                   \<comment> \<open>it did not within the grace period after the drain ended\<close>
  | RpcError string string         \<comment> \<open>\<open>AioRpcError\<close>: code name and details\<close>
  | UsageError
  | InternalError                  \<comment> \<open>\<open>RuntimeError\<close>, \<open>AssertionError\<close>, \<open>ValueError\<close>\<close>
  | OutFrame frame                 \<comment> \<open>the reader of the output stream yields a frame\<close>
  | OutExhausted
  | OutIdle
  | OutRedis string

datatype dial_effect =
    SpawnRunner pstruct
  | Fatal StreamErrorCode string
  | LogOnly StreamErrorCode string
  | AppendInput pstruct
  | EvictChannel
  | OpenChannel
  | ReleaseChannel

record dial_state =
  da_started :: bool               \<comment> \<open>\<open>output_started\<close>\<close>
  da_first :: bool
  da_cursor :: int                 \<comment> \<open>\<open>resume_cursor\<close>\<close>
  da_out_done :: bool              \<comment> \<open>\<open>outgoing_done\<close>\<close>
  da_eos :: bool                   \<comment> \<open>\<open>delivered_eos\<close>\<close>
  da_sent :: "frame list"
  da_effects :: "dial_effect list"
  da_result :: "bool option"       \<comment> \<open>\<open>retriable\<close>, once it has returned\<close>

record dial_config =
  dc_resume :: bool
  dc_has_runner :: bool
  dc_from_seq_limit :: int
  dc_idle_text :: string

definition handshake :: "bool \<Rightarrow> frame" where
  "handshake resume = (0, sentinel_struct (if resume then ''stream.resume'' else ''stream.init'') [])"

definition dial_fail :: "bool \<Rightarrow> StreamErrorCode \<Rightarrow> string \<Rightarrow> dial_effect" where
  "dial_fail resume code message = (if resume then LogOnly code message else Fatal code message)"

definition add_effect :: "dial_effect \<Rightarrow> dial_state \<Rightarrow> dial_state" where
  "add_effect e st = st\<lparr>da_effects := da_effects st @ [e]\<rparr>"

text \<open>The \<open>finally\<close> block, and the value returned.\<close>

definition dial_finish :: "dial_config \<Rightarrow> bool \<Rightarrow> dial_state \<Rightarrow> dial_state" where
  "dial_finish c retriable st =
     (let st1 = (if da_started st then st
                 else add_effect (dial_fail (dc_resume c) DIAL_BACK_NO_QUERY
                   ''consumer never replied (dial-back BiDi closed without reply)'') st)
      in add_effect ReleaseChannel (st1\<lparr>da_started := True, da_result := Some retriable\<rparr>))"

text \<open>An exception handler: report unless the drain has started, then leave.\<close>

definition dial_abort :: "dial_config \<Rightarrow> StreamErrorCode \<Rightarrow> string \<Rightarrow> bool \<Rightarrow> dial_state \<Rightarrow> dial_state" where
  "dial_abort c code message retriable st =
     dial_finish c retriable
       (if da_started st then st
        else (add_effect (dial_fail (dc_resume c) code message) st)\<lparr>da_started := True\<rparr>)"

definition on_upstream :: "dial_config \<Rightarrow> int \<Rightarrow> pstruct \<Rightarrow> dial_state \<Rightarrow> dial_state" where
  "on_upstream c from_seq d st =
     (if da_first st \<and> dc_resume c
      then st\<lparr>da_cursor := min from_seq (dc_from_seq_limit c), da_started := True, da_first := False\<rparr>
      else if \<not> has_fields d then st
      else if da_first st then
        if \<not> dc_has_runner c
        then dial_finish c False
          ((add_effect (dial_fail (dc_resume c) DIAL_BACK_INTERNAL ''gateway has no ModuleRunner configured'') st)
             \<lparr>da_started := True\<rparr>)
        else (add_effect (SpawnRunner d) st)\<lparr>da_started := True, da_first := False\<rparr>
      else add_effect (AppendInput d) st)"

definition draining :: "dial_state \<Rightarrow> bool" where
  "draining st \<longleftrightarrow> da_started st \<and> \<not> da_out_done st"

fun dial_live :: "dial_config \<Rightarrow> dial_event \<Rightarrow> dial_state \<Rightarrow> dial_state" where
  "dial_live c (Upstream q d) st = on_upstream c q d st"
| "dial_live c InboundEnd st = dial_finish c False st"
| "dial_live c GraceTimeout st = (if da_out_done st then dial_finish c False st else st)"
| "dial_live c (RpcError code details) st =
     dial_abort c DIAL_BACK_RPC_ERROR (''dial-back BiDi failed: ['' @ code @ ''] '' @ details) (\<not> da_eos st) st"
| "dial_live c UsageError st =
     dial_abort c DIAL_BACK_RPC_ERROR ''dial-back channel closed before BiDi could start'' (\<not> da_eos st) st"
| "dial_live c InternalError st =
     dial_abort c DIAL_BACK_INTERNAL ''dial-back internal error (see gateway logs)'' False st"
| "dial_live c (OutFrame f) st = (if draining st then st\<lparr>da_sent := da_sent st @ [f]\<rparr> else st)"
| "dial_live c OutExhausted st = (if draining st then st\<lparr>da_eos := True, da_out_done := True\<rparr> else st)"
| "dial_live c OutIdle st =
     (if draining st
      then (add_effect (dial_fail (dc_resume c) DIAL_BACK_IDLE_TIMEOUT
              (''dial-back idle timeout: no module output in '' @ dc_idle_text c @ ''s'')) st)\<lparr>da_out_done := True\<rparr>
      else st)"
| "dial_live c (OutRedis msg) st =
     (if draining st
      then st\<lparr>da_sent := da_sent st @ fatal_close (code_value REDIS_UNAVAILABLE)
                (''redis unavailable during stream read: '' @ msg), da_out_done := True\<rparr>
      else st)"

definition dial_step :: "dial_config \<Rightarrow> dial_event \<Rightarrow> dial_state \<Rightarrow> dial_state" where
  "dial_step c ev st = (if da_result st \<noteq> None then st else dial_live c ev st)"

datatype channel_result = ChannelOk | InvalidAddress string | ChannelOSError string string

record dial_env =
  de_has_config :: bool
  de_channel :: channel_result
  de_session :: bool               \<comment> \<open>the session is still registered when the channel is ready\<close>
  de_events :: "dial_event list"

definition dial_start :: "dial_config \<Rightarrow> dial_effect list \<Rightarrow> dial_state" where
  "dial_start c effs = \<lparr>da_started = False, da_first = True, da_cursor = 0, da_out_done = False, da_eos = False,
     da_sent = [handshake (dc_resume c)], da_effects = effs, da_result = None\<rparr>"

definition dial_stopped :: "dial_effect list \<Rightarrow> dial_state" where
  "dial_stopped effs = \<lparr>da_started = False, da_first = True, da_cursor = 0, da_out_done = False, da_eos = False,
     da_sent = [], da_effects = effs, da_result = Some False\<rparr>"

definition run_dial_attempt :: "dial_config \<Rightarrow> dial_env \<Rightarrow> dial_state" where
  "run_dial_attempt c env =
     (let evict = (if dc_resume c then [EvictChannel] else []) in
      if \<not> de_has_config env
      then dial_stopped [dial_fail (dc_resume c) DIAL_BACK_INTERNAL ''gateway has no client_config to dial back with'']
      else case de_channel env of
        InvalidAddress msg \<Rightarrow> dial_stopped (evict @
          [dial_fail (dc_resume c) DIAL_BACK_UNREACHABLE (''dial-back channel build failed: '' @ msg)])
      | ChannelOSError ty msg \<Rightarrow> dial_stopped (evict @
          [dial_fail (dc_resume c) DIAL_BACK_UNREACHABLE (''dial-back channel build failed: '' @ ty @ '': '' @ msg)])
      | ChannelOk \<Rightarrow>
          if \<not> de_session env then dial_stopped (evict @ [OpenChannel, ReleaseChannel])
          else fold (dial_step c) (de_events env) (dial_start c (evict @ [OpenChannel])))"

section \<open>The reconnect loop\<close>

text \<open>What the loop finds after an attempt that was cut off.\<close>

record redial_env =
  re_session_stopped :: "bool option"    \<comment> \<open>\<open>None\<close>: no session\<close>
  re_xlen :: "nat option"                \<comment> \<open>\<open>None\<close>: \<open>RedisError\<close>\<close>
  re_now :: real
  re_jitter :: real                      \<comment> \<open>\<open>random.uniform(base, max)\<close>\<close>

definition spawned_by :: "dial_state \<Rightarrow> bool" where
  "spawned_by st \<longleftrightarrow> (\<exists>e\<in>set (da_effects st). case e of SpawnRunner q \<Rightarrow> True | _ \<Rightarrow> False)"

text \<open>Whether to dial again, with the delay and the deadline; \<open>None\<close> ends the loop.\<close>

definition redial :: "real \<Rightarrow> bool \<Rightarrow> bool \<Rightarrow> real option \<Rightarrow> redial_env \<Rightarrow> (real \<times> real) option" where
  "redial window disconnected module_spawned deadline env =
     (if \<not> disconnected \<or> \<not> module_spawned then None
      else case re_session_stopped env of
        None \<Rightarrow> None
      | Some True \<Rightarrow> None
      | Some False \<Rightarrow> (case re_xlen env of
          None \<Rightarrow> None
        | Some n \<Rightarrow>
            if n = 0 then None
            else let dl = (case deadline of None \<Rightarrow> re_now env + window | Some d \<Rightarrow> d) in
              if dl \<le> re_now env then None
              else Some (max 0 (min (re_jitter env) (dl - re_now env)), dl)))"

text \<open>
  The attempts made, each with the delay slept after it (if the loop goes on). An attempt whose
  events do not end it is still running.
\<close>

fun dial_loop ::
    "dial_config \<Rightarrow> real \<Rightarrow> bool \<Rightarrow> bool \<Rightarrow> real option \<Rightarrow> (dial_env \<times> redial_env) list
      \<Rightarrow> (bool \<times> dial_state \<times> real option) list" where
  "dial_loop c window resume spawned deadline [] = []"
| "dial_loop c window resume spawned deadline ((env, re) # rest) =
     (let st = run_dial_attempt (c\<lparr>dc_resume := resume\<rparr>) env;
          spawned' = (spawned \<or> spawned_by st) in
      case da_result st of
        None \<Rightarrow> [(resume, st, None)]
      | Some disconnected \<Rightarrow>
          (case redial window disconnected spawned' deadline re of
             None \<Rightarrow> [(resume, st, None)]
           | Some (delay, dl) \<Rightarrow> (resume, st, Some delay) # dial_loop c window True spawned' (Some dl) rest))"

definition dial_consumer :: "dial_config \<Rightarrow> real \<Rightarrow> (dial_env \<times> redial_env) list \<Rightarrow> (bool \<times> dial_state \<times> real option) list" where
  "dial_consumer c window ts = dial_loop c window False False None ts"

section \<open>One attempt: what it leaves behind\<close>

fun is_spawn :: "dial_effect \<Rightarrow> bool" where
  "is_spawn (SpawnRunner q) = True"
| "is_spawn _ = False"

fun is_fatal :: "dial_effect \<Rightarrow> bool" where
  "is_fatal (Fatal c m) = True"
| "is_fatal _ = False"

definition spawns :: "dial_state \<Rightarrow> nat" where
  "spawns st = length (filter is_spawn (da_effects st))"

definition fatals_sent :: "dial_state \<Rightarrow> nat" where
  "fatals_sent st = length (filter is_fatal (da_effects st))"

definition opens :: "dial_state \<Rightarrow> nat" where
  "opens st = length (filter ((=) OpenChannel) (da_effects st))"

definition releases :: "dial_state \<Rightarrow> nat" where
  "releases st = length (filter ((=) ReleaseChannel) (da_effects st))"

lemmas effect_counts = spawns_def fatals_sent_def opens_def releases_def

lemma counts_add [simp]:
  "spawns (add_effect e st) = spawns st + (if is_spawn e then 1 else 0)"
  "fatals_sent (add_effect e st) = fatals_sent st + (if is_fatal e then 1 else 0)"
  "opens (add_effect e st) = opens st + (if e = OpenChannel then 1 else 0)"
  "releases (add_effect e st) = releases st + (if e = ReleaseChannel then 1 else 0)"
  by (auto simp: effect_counts add_effect_def)

lemma counts_update [simp]:
  "spawns (st\<lparr>da_started := b\<rparr>) = spawns st" "spawns (st\<lparr>da_first := b\<rparr>) = spawns st"
  "spawns (st\<lparr>da_cursor := i\<rparr>) = spawns st" "spawns (st\<lparr>da_out_done := b\<rparr>) = spawns st"
  "spawns (st\<lparr>da_eos := b\<rparr>) = spawns st" "spawns (st\<lparr>da_sent := fs\<rparr>) = spawns st"
  "spawns (st\<lparr>da_result := r\<rparr>) = spawns st"
  "fatals_sent (st\<lparr>da_started := b\<rparr>) = fatals_sent st" "fatals_sent (st\<lparr>da_first := b\<rparr>) = fatals_sent st"
  "fatals_sent (st\<lparr>da_cursor := i\<rparr>) = fatals_sent st" "fatals_sent (st\<lparr>da_out_done := b\<rparr>) = fatals_sent st"
  "fatals_sent (st\<lparr>da_eos := b\<rparr>) = fatals_sent st" "fatals_sent (st\<lparr>da_sent := fs\<rparr>) = fatals_sent st"
  "fatals_sent (st\<lparr>da_result := r\<rparr>) = fatals_sent st"
  "opens (st\<lparr>da_started := b\<rparr>) = opens st" "opens (st\<lparr>da_first := b\<rparr>) = opens st"
  "opens (st\<lparr>da_cursor := i\<rparr>) = opens st" "opens (st\<lparr>da_out_done := b\<rparr>) = opens st"
  "opens (st\<lparr>da_eos := b\<rparr>) = opens st" "opens (st\<lparr>da_sent := fs\<rparr>) = opens st"
  "opens (st\<lparr>da_result := r\<rparr>) = opens st"
  "releases (st\<lparr>da_started := b\<rparr>) = releases st" "releases (st\<lparr>da_first := b\<rparr>) = releases st"
  "releases (st\<lparr>da_cursor := i\<rparr>) = releases st" "releases (st\<lparr>da_out_done := b\<rparr>) = releases st"
  "releases (st\<lparr>da_eos := b\<rparr>) = releases st" "releases (st\<lparr>da_sent := fs\<rparr>) = releases st"
  "releases (st\<lparr>da_result := r\<rparr>) = releases st"
  by (simp_all add: effect_counts)

lemma add_effect_fields [simp]:
  "da_started (add_effect e st) = da_started st" "da_first (add_effect e st) = da_first st"
  "da_out_done (add_effect e st) = da_out_done st" "da_eos (add_effect e st) = da_eos st"
  "da_result (add_effect e st) = da_result st" "da_sent (add_effect e st) = da_sent st"
  by (simp_all add: add_effect_def)

lemma dial_fail_kind [simp]:
  "is_spawn (dial_fail r c m) = False" "is_fatal (dial_fail r c m) = (\<not> r)"
  "dial_fail r c m \<noteq> OpenChannel" "dial_fail r c m \<noteq> ReleaseChannel"
  by (simp_all add: dial_fail_def)

definition dial_inv :: "dial_config \<Rightarrow> dial_state \<Rightarrow> bool" where
  "dial_inv c st \<longleftrightarrow>
     opens st = 1 \<and>
     (dc_resume c \<longrightarrow> spawns st = 0 \<and> fatals_sent st = 0) \<and>
     spawns st \<le> 1 \<and> fatals_sent st \<le> 1 \<and> (da_first st \<longrightarrow> spawns st = 0) \<and>
     (\<not> da_started st \<longrightarrow> da_first st \<and> fatals_sent st = 0 \<and> \<not> da_out_done st) \<and>
     (da_eos st \<longrightarrow> da_out_done st) \<and>
     (if da_result st = None
      then releases st = 0 \<and> (\<not> da_out_done st \<longrightarrow> fatals_sent st = 0)
        \<and> (da_started st \<and> \<not> dc_resume c \<longrightarrow> spawns st = 1 \<and> \<not> da_first st)
      else da_started st \<and> releases st = 1 \<and> (\<not> dc_resume c \<and> spawns st = 0 \<longrightarrow> fatals_sent st = 1)
        \<and> (da_result st = Some True \<longrightarrow> \<not> da_eos st))"

lemma dial_inv_finish:
  assumes "dial_inv c st" and "da_result st = None" and "retriable \<longrightarrow> \<not> da_eos st"
  shows "dial_inv c (dial_finish c retriable st)"
  using assms by (auto simp: dial_inv_def dial_finish_def Let_def split: if_splits)

lemma dial_inv_abort:
  assumes "dial_inv c st" and "da_result st = None" and "retriable \<longrightarrow> \<not> da_eos st"
  shows "dial_inv c (dial_abort c code m retriable st)"
  using assms by (auto simp: dial_inv_def dial_abort_def dial_finish_def Let_def split: if_splits)

lemma dial_inv_live:
  assumes "dial_inv c st" and "da_result st = None"
  shows "dial_inv c (dial_live c ev st)"
proof (cases ev)
  case (Upstream q d)
  with assms show ?thesis
    by (auto simp: dial_inv_def on_upstream_def dial_finish_def Let_def split: if_splits)
next
  case InboundEnd
  with dial_inv_finish [OF assms] show ?thesis by simp
next
  case GraceTimeout
  with dial_inv_finish [OF assms] assms show ?thesis by simp
next
  case (RpcError code details)
  with dial_inv_abort [OF assms] show ?thesis by simp
next
  case UsageError
  with dial_inv_abort [OF assms] show ?thesis by simp
next
  case InternalError
  with dial_inv_abort [OF assms] show ?thesis by simp
next
  case (OutFrame f)
  with assms show ?thesis by (auto simp: dial_inv_def draining_def)
next
  case OutExhausted
  with assms show ?thesis by (auto simp: dial_inv_def draining_def)
next
  case OutIdle
  with assms show ?thesis by (auto simp: dial_inv_def draining_def)
next
  case (OutRedis msg)
  with assms show ?thesis by (auto simp: dial_inv_def draining_def)
qed

lemma dial_inv_fold: "dial_inv c st \<Longrightarrow> dial_inv c (fold (dial_step c) evs st)"
  by (induction evs arbitrary: st) (simp_all add: dial_step_def dial_inv_live)

lemma dial_inv_start:
  "dial_inv c (dial_start c ((if dc_resume c then [EvictChannel] else []) @ [OpenChannel]))"
  by (simp add: dial_inv_def dial_start_def effect_counts)

text \<open>The attempts that end before the stream is opened.\<close>

lemma stopped_counts [simp]:
  "spawns (dial_stopped effs) = length (filter is_spawn effs)"
  "fatals_sent (dial_stopped effs) = length (filter is_fatal effs)"
  "opens (dial_stopped effs) = length (filter ((=) OpenChannel) effs)"
  "releases (dial_stopped effs) = length (filter ((=) ReleaseChannel) effs)"
  "da_result (dial_stopped effs) = Some False"
  by (simp_all add: effect_counts dial_stopped_def)

lemma dial_fail_neq [simp]: "OpenChannel \<noteq> dial_fail r c m" "ReleaseChannel \<noteq> dial_fail r c m"
  by (simp_all add: dial_fail_def)

lemma attempt_no_channel:
  assumes "\<not> de_has_config env \<or> de_channel env \<noteq> ChannelOk"
  obtains evict f where "run_dial_attempt c env = dial_stopped (evict @ [f])"
    and "evict = [] \<or> evict = [EvictChannel]"
    and "\<exists>code m. f = dial_fail (dc_resume c) code m"
proof (cases "de_has_config env")
  case False
  then have "run_dial_attempt c env = dial_stopped
      ([] @ [dial_fail (dc_resume c) DIAL_BACK_INTERNAL ''gateway has no client_config to dial back with''])"
    by (simp add: run_dial_attempt_def)
  then show ?thesis by (rule that) auto
next
  case True
  let ?evict = "if dc_resume c then [EvictChannel] else []"
  from assms True have "de_channel env \<noteq> ChannelOk" by simp
  then consider msg where "de_channel env = InvalidAddress msg" | ty msg where "de_channel env = ChannelOSError ty msg"
    by (cases "de_channel env") simp_all
  then show ?thesis
  proof cases
    case 1
    with True have "run_dial_attempt c env = dial_stopped (?evict @
        [dial_fail (dc_resume c) DIAL_BACK_UNREACHABLE (''dial-back channel build failed: '' @ msg)])"
      by (simp only: run_dial_attempt_def Let_def channel_result.case if_True if_False not_True_eq_False)
    then show ?thesis by (rule that) auto
  next
    case 2
    with True have "run_dial_attempt c env = dial_stopped (?evict @
        [dial_fail (dc_resume c) DIAL_BACK_UNREACHABLE (''dial-back channel build failed: '' @ ty @ '': '' @ msg)])"
      by (simp only: run_dial_attempt_def Let_def channel_result.case if_True if_False not_True_eq_False)
    then show ?thesis by (rule that) auto
  qed
qed

lemma attempt_no_session:
  assumes "de_has_config env" and "de_channel env = ChannelOk" and "\<not> de_session env"
  shows "run_dial_attempt c env
    = dial_stopped ((if dc_resume c then [EvictChannel] else []) @ [OpenChannel, ReleaseChannel])"
  using assms by (simp add: run_dial_attempt_def)

lemma attempt_runs:
  assumes "de_has_config env" and "de_channel env = ChannelOk" and "de_session env"
  shows "dial_inv c (run_dial_attempt c env)"
  using assms dial_inv_fold [OF dial_inv_start, of c] by (simp only: run_dial_attempt_def Let_def) simp

text \<open>
  C5: What one dial-back attempt leaves behind. Whatever the consumer, gRPC and the output stream
  do: an attempt starts the module at most once and writes at most one fatal error to the task's
  stream; a resumed attempt does neither, so it cannot poison a stream still being written; a
  finished attempt has given back every channel it opened; a finished fresh attempt that found
  its session and did not start the module has reported the failure; and it is offered for a
  re-dial only if the end of the stream was not delivered.
\<close>

theorem dial_attempt_contract:
  assumes "st = run_dial_attempt c env"
  shows "spawns st \<le> 1 \<and> fatals_sent st \<le> 1
    \<and> (dc_resume c \<longrightarrow> spawns st = 0 \<and> fatals_sent st = 0)
    \<and> (da_result st \<noteq> None \<longrightarrow> releases st = opens st)
    \<and> (da_result st \<noteq> None \<and> \<not> dc_resume c \<and> de_session env \<and> spawns st = 0 \<longrightarrow> fatals_sent st = 1)
    \<and> (da_result st = Some True \<longrightarrow> \<not> da_eos st)"
proof (cases "de_has_config env \<and> de_channel env = ChannelOk")
  case True
  show ?thesis
  proof (cases "de_session env")
    case session: True
    with True attempt_runs have "dial_inv c st" by (simp add: assms)
    then show ?thesis by (simp add: dial_inv_def split: if_splits)
  next
    case False
    with True attempt_no_session [of env c] show ?thesis by (simp add: assms)
  qed
next
  case False
  then have "\<not> de_has_config env \<or> de_channel env \<noteq> ChannelOk" by simp
  from attempt_no_channel [OF this, of c] obtain evict f code m where
    f: "st = dial_stopped (evict @ [f])" "evict = [] \<or> evict = [EvictChannel]" "f = dial_fail (dc_resume c) code m"
    unfolding assms by metis
  from f(2) show ?thesis by (rule disjE) (simp_all add: f(1) f(3))
qed

definition cfg_dial_demo :: dial_config where
  "cfg_dial_demo = \<lparr>dc_resume = False, dc_has_runner = True, dc_from_seq_limit = 10000, dc_idle_text = ''300''\<rparr>"

definition env_dial_demo :: "dial_event list \<Rightarrow> dial_env" where
  "env_dial_demo evs = \<lparr>de_has_config = True, de_channel = ChannelOk, de_session = True, de_events = evs\<rparr>"

theorem dial_attempt_contract_witness:
  "fatals_sent (run_dial_attempt cfg_dial_demo (env_dial_demo [RpcError ''UNAVAILABLE'' ''x''])) = 1"
proof -
  let ?st = "run_dial_attempt cfg_dial_demo (env_dial_demo [RpcError ''UNAVAILABLE'' ''x''])"
  have "da_result ?st \<noteq> None \<and> \<not> dc_resume cfg_dial_demo
      \<and> de_session (env_dial_demo [RpcError ''UNAVAILABLE'' ''x'']) \<and> spawns ?st = 0"
    by code_simp
  with dial_attempt_contract [OF refl, of cfg_dial_demo "env_dial_demo [RpcError ''UNAVAILABLE'' ''x'']"]
  show ?thesis by blast
qed

section \<open>The loop: one fresh dial, then resumes, for a bounded time\<close>

lemma attempt_spawns: "spawns (run_dial_attempt c env) \<le> 1"
  "dc_resume c \<Longrightarrow> spawns (run_dial_attempt c env) = 0 \<and> fatals_sent (run_dial_attempt c env) = 0"
  "da_result (run_dial_attempt c env) = Some True \<Longrightarrow> \<not> da_eos (run_dial_attempt c env)"
proof -
  have "spawns (run_dial_attempt c env) \<le> 1
      \<and> (da_result (run_dial_attempt c env) = Some True \<longrightarrow> \<not> da_eos (run_dial_attempt c env))
      \<and> (dc_resume c \<longrightarrow> spawns (run_dial_attempt c env) = 0 \<and> fatals_sent (run_dial_attempt c env) = 0)"
  proof (cases "de_has_config env \<and> de_channel env = ChannelOk")
    case True
    show ?thesis
    proof (cases "de_session env")
      case session: True
      with True attempt_runs [of env c] show ?thesis by (simp add: dial_inv_def)
    next
      case False
      with True attempt_no_session [of env c] show ?thesis by simp
    qed
  next
    case False
    then have "\<not> de_has_config env \<or> de_channel env \<noteq> ChannelOk" by simp
    from attempt_no_channel [OF this, of c] obtain evict f code m where
      f: "run_dial_attempt c env = dial_stopped (evict @ [f])" "evict = [] \<or> evict = [EvictChannel]"
        "f = dial_fail (dc_resume c) code m"
      by metis
    from f(2) show ?thesis by (rule disjE) (simp_all add: f(1) f(3))
  qed
  then show "spawns (run_dial_attempt c env) \<le> 1"
    "dc_resume c \<Longrightarrow> spawns (run_dial_attempt c env) = 0 \<and> fatals_sent (run_dial_attempt c env) = 0"
    "da_result (run_dial_attempt c env) = Some True \<Longrightarrow> \<not> da_eos (run_dial_attempt c env)" by auto
qed

lemma spawned_by_spawns: "spawned_by st \<longleftrightarrow> 0 < spawns st"
proof -
  have "(case e of SpawnRunner q \<Rightarrow> True | _ \<Rightarrow> False) = is_spawn e" for e by (cases e) simp_all
  then show ?thesis by (simp add: spawned_by_def spawns_def filter_empty_conv)
qed

lemma redial_Some: "redial w d sp deadline re = Some (delay, dl) \<Longrightarrow>
    d \<and> sp \<and> re_now re < dl \<and> dl = (case deadline of None \<Rightarrow> re_now re + w | Some x \<Rightarrow> x)
      \<and> delay = max 0 (min (re_jitter re) (dl - re_now re))"
  by (auto simp: redial_def Let_def split: if_splits option.splits bool.splits)

lemma dial_loop_resumed:
  "\<forall>(r, st, delay) \<in> set (dial_loop c w True sp dl ts). r \<and> spawns st = 0 \<and> fatals_sent st = 0"
proof (induction ts arbitrary: sp dl)
  case (Cons t ts)
  obtain env re where t: "t = (env, re)" by (cases t)
  let ?st = "run_dial_attempt (c\<lparr>dc_resume := True\<rparr>) env"
  have z: "spawns ?st = 0 \<and> fatals_sent ?st = 0" by (rule attempt_spawns(2)) simp
  show ?case
  proof (cases "da_result ?st")
    case None
    with z show ?thesis by (simp add: t Let_def)
  next
    case (Some d)
    show ?thesis
    proof (cases "redial w d (sp \<or> spawned_by ?st) dl re")
      case None
      with Some z show ?thesis by (simp add: t Let_def)
    next
      case (Some p)
      with \<open>da_result ?st = Some d\<close> z Cons.IH [of "sp \<or> spawned_by ?st" "Some (snd p)"] show ?thesis
        by (cases p) (simp add: t Let_def)
    qed
  qed
qed simp

text \<open>
  C4: The module runs once, whatever happens to the consumer. Over all the attempts of one
  dial-back, the first is fresh and every later one resumes; the module is started at most once,
  in the first attempt; no later attempt writes an error to the stream; and the gateway re-dials
  only if the first attempt did start the module.
\<close>

theorem module_spawned_once:
  assumes "dial_consumer c window ts = (r0, st0, delay0) # later"
  shows "\<not> r0 \<and> spawns st0 \<le> 1
    \<and> (\<forall>(r, st, delay) \<in> set later. r \<and> spawns st = 0 \<and> fatals_sent st = 0)
    \<and> (later \<noteq> [] \<longrightarrow> spawns st0 = 1 \<and> da_result st0 = Some True \<and> \<not> da_eos st0)"
proof -
  obtain env re ts' where ts: "ts = (env, re) # ts'"
    using assms by (cases ts) (auto simp: dial_consumer_def)
  let ?c = "c\<lparr>dc_resume := False\<rparr>"
  let ?st = "run_dial_attempt ?c env"
  have st0: "\<not> r0" "st0 = ?st"
    using assms by (auto simp: dial_consumer_def ts Let_def split: option.splits)
  have sp: "spawns ?st \<le> 1" by (rule attempt_spawns(1))
  show ?thesis
  proof (cases "later = []")
    case True
    with st0 sp show ?thesis by simp
  next
    case False
    then obtain d p where d: "da_result ?st = Some d" "redial window d (spawned_by ?st) None re = Some p"
      and later: "later = dial_loop c window True (spawned_by ?st) (Some (snd p)) ts'"
      using assms by (auto simp: dial_consumer_def ts Let_def split: option.splits)
    from d have "d" "spawned_by ?st"
      using redial_Some [of window d "spawned_by ?st" None re "fst p" "snd p"] by auto
    moreover have "\<not> da_eos ?st" if "da_result ?st = Some True" using that by (rule attempt_spawns(3))
    ultimately show ?thesis
      using st0 sp d(1) dial_loop_resumed [of c window "spawned_by ?st" "Some (snd p)" ts']
      by (simp add: later spawned_by_spawns)
  qed
qed

text \<open>The clock: from one cut-off attempt to the next at least the delay slept passes.\<close>

fun paced :: "real \<Rightarrow> (dial_env \<times> redial_env) list \<Rightarrow> bool" where
  "paced dl (t1 # t2 # ts) = (re_now (snd t1) + min (re_jitter (snd t1)) (dl - re_now (snd t1)) \<le> re_now (snd t2)
      \<and> paced dl (t2 # ts))"
| "paced dl _ = True"

lemma dial_loop_length:
  assumes "paced dl ts" and "\<forall>t\<in>set ts. base \<le> re_jitter (snd t)" and "0 < base"
    and "2 \<le> length (dial_loop c w r sp (Some dl) ts)"
  shows "(real (length (dial_loop c w r sp (Some dl) ts)) - 2) * base < dl - re_now (snd (hd ts))"
  using assms
proof (induction ts arbitrary: r sp)
  case (Cons t ts)
  obtain env re where t: "t = (env, re)" by (cases t)
  let ?st = "run_dial_attempt (c\<lparr>dc_resume := r\<rparr>) env"
  let ?sp = "sp \<or> spawned_by ?st"
  obtain d p where d: "da_result ?st = Some d" "redial w d ?sp (Some dl) re = Some p"
    using Cons.prems(4) by (auto simp: t Let_def split: option.splits)
  obtain delay dl' where p: "p = (delay, dl')" by (cases p)
  have now: "re_now re < dl" and dl': "dl' = dl"
    using redial_Some [of w d ?sp "Some dl" re delay dl'] d p by auto
  have len: "length (dial_loop c w r sp (Some dl) (t # ts)) = Suc (length (dial_loop c w True ?sp (Some dl) ts))"
    using d by (simp add: t Let_def p dl')
  let ?n = "length (dial_loop c w True ?sp (Some dl) ts)"
  show ?case
  proof (cases "2 \<le> ?n")
    case False
    with len Cons.prems(4) have "real (length (dial_loop c w r sp (Some dl) (t # ts))) - 2 = 0" by simp
    with now show ?thesis by (simp only: t list.sel snd_conv)
  next
    case True
    then obtain t2 ts' where ts: "ts = t2 # ts'" by (cases ts) auto
    have p2: "paced dl ts" "\<forall>t\<in>set ts. base \<le> re_jitter (snd t)"
      using Cons.prems by (simp_all add: ts)
    from Cons.IH [OF p2 \<open>0 < base\<close> True] have ih: "(real ?n - 2) * base < dl - re_now (snd t2)"
      by (simp only: ts list.sel)
    have gap: "re_now re + min (re_jitter re) (dl - re_now re) \<le> re_now (snd t2)" and jit: "base \<le> re_jitter re"
      using Cons.prems(1,2) by (simp_all add: t ts)
    have "0 \<le> (real ?n - 2) * base" using True \<open>0 < base\<close> by simp
    with ih have "re_now (snd t2) < dl" by simp
    with gap jit have "re_now re + base \<le> re_now (snd t2)" by (auto simp: min_def split: if_splits)
    moreover have "(real (Suc ?n) - 2) * base = (real ?n - 2) * base + base" by (simp add: algebra_simps)
    ultimately show ?thesis using ih unfolding len by (simp add: t)
  qed
qed simp

text \<open>
  Reconnecting ends. If every delay drawn is at least \<open>base\<close> seconds and the clock advances by
  at least the delay slept, one dial-back makes fewer than \<open>window / base + 2\<close> attempts, however
  long the consumer stays away: with the default window of 300 s and base of 3 s, at most 101.
\<close>

theorem reconnect_bounded:
  assumes "paced (re_now (snd (hd ts)) + window) ts" and "\<forall>t\<in>set ts. base \<le> re_jitter (snd t)"
    and "0 < base" and "0 \<le> window"
  shows "real (length (dial_consumer c window ts)) < window / base + 2"
proof (cases "2 \<le> length (dial_consumer c window ts)")
  case False
  then have "real (length (dial_consumer c window ts)) < 2" by simp
  moreover have "0 \<le> window / base" using assms(3,4) by simp
  ultimately show ?thesis by simp
next
  case True
  then obtain env re ts' where ts: "ts = (env, re) # ts'" by (cases ts) (auto simp: dial_consumer_def)
  let ?dl = "re_now re + window"
  have "dial_consumer c window ts = dial_loop c window False False (Some ?dl) ts"
    by (simp add: dial_consumer_def ts redial_def Let_def split: option.split)
  with dial_loop_length [OF _ assms(2,3), of ?dl c window False False] True assms(1)
  have "(real (length (dial_consumer c window ts)) - 2) * base < window" by (simp add: ts)
  with assms(3) show ?thesis by (simp add: field_simps)
qed

text \<open>A dial-back that is cut off after the module started, and one re-dial that is cut off too.\<close>

definition cut_demo :: "(dial_env \<times> redial_env) list" where
  "cut_demo =
     [(env_dial_demo [Upstream 0 [(''q'', PBool True)], RpcError ''UNAVAILABLE'' ''x''],
         \<lparr>re_session_stopped = Some False, re_xlen = Some 3, re_now = 10, re_jitter = 4\<rparr>),
      (env_dial_demo [Upstream 1 [], RpcError ''UNAVAILABLE'' ''x''],
         \<lparr>re_session_stopped = None, re_xlen = Some 3, re_now = 14, re_jitter = 4\<rparr>)]"

lemma cut_demo_run:
  "\<exists>st0 st1. dial_consumer cfg_dial_demo 300 cut_demo = [(False, st0, Some 4), (True, st1, None)]"
proof -
  have a: "da_result (run_dial_attempt (cfg_dial_demo\<lparr>dc_resume := False\<rparr>)
        (env_dial_demo [Upstream 0 [(''q'', PBool True)], RpcError ''UNAVAILABLE'' ''x''])) = Some True"
    "spawned_by (run_dial_attempt (cfg_dial_demo\<lparr>dc_resume := False\<rparr>)
        (env_dial_demo [Upstream 0 [(''q'', PBool True)], RpcError ''UNAVAILABLE'' ''x'']))"
    "da_result (run_dial_attempt (cfg_dial_demo\<lparr>dc_resume := True\<rparr>)
        (env_dial_demo [Upstream 1 [], RpcError ''UNAVAILABLE'' ''x''])) = Some True"
    by code_simp+
  then show ?thesis
    by (simp add: dial_consumer_def cut_demo_def Let_def redial_def)
qed

theorem module_spawned_once_witness:
  "\<exists>st0 st1. dial_consumer cfg_dial_demo 300 cut_demo = [(False, st0, Some 4), (True, st1, None)]
    \<and> spawns st0 = 1 \<and> spawns st1 = 0"
proof -
  obtain st0 st1 where run: "dial_consumer cfg_dial_demo 300 cut_demo = [(False, st0, Some 4), (True, st1, None)]"
    using cut_demo_run by blast
  from module_spawned_once [OF run] run show ?thesis by simp
qed

theorem reconnect_bounded_witness:
  "real (length (dial_consumer cfg_dial_demo 300 cut_demo)) < 300 / 3 + 2"
  by (rule reconnect_bounded) (simp_all add: cut_demo_def)

section \<open>Where the protocol does not deliver\<close>

lemma dial_sent_done: "da_out_done st \<Longrightarrow>
    da_sent (fold (dial_step c) evs st) = da_sent st \<and> da_out_done (fold (dial_step c) evs st)"
proof (induction evs arbitrary: st)
  case (Cons ev evs)
  have "da_sent (dial_step c ev st) = da_sent st \<and> da_out_done (dial_step c ev st)"
    using Cons.prems
    by (cases ev) (auto simp: dial_step_def on_upstream_def dial_finish_def dial_abort_def draining_def Let_def)
  with Cons.IH [of "dial_step c ev st"] show ?case by simp
qed simp

text \<open>
  An idle timeout closes the dial-back without a word to the consumer. When the drain of a
  fresh dial-back idles out, the error goes to the task's stream, but the drain has ended: from
  then on no frame reaches the consumer on this stream, neither an error nor an end frame, and
  when the consumer or the gateway then closes it, the attempt is not offered for a re-dial.
\<close>

theorem idle_close_is_silent:
  assumes "draining st" and "da_result st = None" and "\<not> dc_resume c"
  shows "da_sent (fold (dial_step c) (OutIdle # evs) st) = da_sent st
    \<and> Fatal DIAL_BACK_IDLE_TIMEOUT (''dial-back idle timeout: no module output in '' @ dc_idle_text c @ ''s'')
        \<in> set (da_effects (dial_step c OutIdle st))
    \<and> da_result (fold (dial_step c) [OutIdle, GraceTimeout] st) = Some False
    \<and> da_result (fold (dial_step c) [OutIdle, InboundEnd] st) = Some False"
proof -
  have "da_sent (dial_step c OutIdle st) = da_sent st \<and> da_out_done (dial_step c OutIdle st)"
    using assms by (simp add: dial_step_def)
  then have "da_sent (fold (dial_step c) (OutIdle # evs) st) = da_sent st"
    using dial_sent_done [of "dial_step c OutIdle st" c evs] by simp
  moreover have "Fatal DIAL_BACK_IDLE_TIMEOUT (''dial-back idle timeout: no module output in '' @ dc_idle_text c @ ''s'')
      \<in> set (da_effects (dial_step c OutIdle st))"
    using assms by (simp add: dial_step_def add_effect_def dial_fail_def)
  moreover have "da_result (fold (dial_step c) [OutIdle, ev] st) = Some False" if "ev = GraceTimeout \<or> ev = InboundEnd" for ev
    using assms that by (auto simp: dial_step_def dial_finish_def Let_def draining_def)
  ultimately show ?thesis by blast
qed

theorem idle_close_is_silent_witness:
  "da_sent (run_dial_attempt cfg_dial_demo (env_dial_demo [Upstream 0 [(''q'', PBool True)], OutIdle, GraceTimeout]))
    = [handshake False]"
proof -
  let ?st = "fold (dial_step cfg_dial_demo) [Upstream 0 [(''q'', PBool True)]] (dial_start cfg_dial_demo [OpenChannel])"
  have "draining ?st \<and> da_result ?st = None \<and> \<not> dc_resume cfg_dial_demo \<and> da_sent ?st = [handshake False]"
    by code_simp
  moreover have "run_dial_attempt cfg_dial_demo (env_dial_demo [Upstream 0 [(''q'', PBool True)], OutIdle, GraceTimeout])
      = fold (dial_step cfg_dial_demo) (OutIdle # [GraceTimeout]) ?st"
    by (simp add: run_dial_attempt_def env_dial_demo_def) (simp add: cfg_dial_demo_def)
  ultimately show ?thesis using idle_close_is_silent [of ?st cfg_dial_demo "[GraceTimeout]"] by metis
qed

text \<open>
  Long streams are repeated on resume. The cursor a consumer sends when it reconnects is cut
  down to the configured limit. If it has received more frames than that limit, the resumed
  drain restarts at the limit (or at the oldest entry still retained) and sends again frames
  the consumer has already seen.
\<close>

theorem clamped_cursor_repeats_frames:
  assumes "list_all2 (payload parse) es qs" and "numbered qs" and "is_eos eos"
    and "concat bs = drop m es @ eos # rest" and "m < length qs"
    and "0 \<le> dc_from_seq_limit c" and "dc_from_seq_limit c < int k" and "m < k" and "k \<le> length qs"
    and "da_first st" and "dc_resume c" and "st' = on_upstream c (int k) [] st"
  shows "consume_from_redis parse (da_cursor st') True cur bs
      = (drop (max m (nat (dc_from_seq_limit c))) (label_from 0 (map snd qs)) @ [(int (length qs) + 1, end_struct)], True)
    \<and> max m (nat (dc_from_seq_limit c)) < k"
proof -
  let ?l = "nat (dc_from_seq_limit c)"
  have cur: "da_cursor st' = int ?l" using assms(6,7,10,11,12) by (simp add: on_upstream_def)
  have log: "list_all2 (payload parse) (drop m es) (drop m qs)" using assms(1) by (rule list_all2_dropI)
  have ne: "drop m qs \<noteq> []" using assms(5) by simp
  have f: "filter (wanted (Some (int ?l - 1))) (drop m qs) = drop (max m ?l) qs"
  proof (cases "m \<le> ?l")
    case True
    with numbered_filter [OF assms(2) True] show ?thesis by (simp only: max_absorb2)
  next
    case False
    have "filter (wanted (Some (int ?l - 1))) (drop m qs) = drop m qs"
    proof (rule filter_True, rule ballI)
      fix x assume "x \<in> set (drop m qs)"
      then obtain i where "i < length (drop m qs)" "x = drop m qs ! i" by (metis in_set_conv_nth)
      then have "x = qs ! (m + i)" "m + i < length qs" by auto
      with numbered_nth [OF assms(2), of "m + i"] False show "wanted (Some (int ?l - 1)) x"
        by (simp add: wanted_def) linarith
    qed
    with False show ?thesis by (simp add: max_def)
  qed
  have "map (\<lambda>(q, s). (q + 1, s)) (drop (max m ?l) qs) = drop (max m ?l) (label_from 0 (map snd qs))"
    by (simp add: drop_map numbered_labels [OF assms(2), symmetric])
  with consume_resume [OF log assms(3,4), of "int ?l" cur] ne f numbered_last [OF assms(2,5)] assms(6-8)
  show ?thesis by (simp add: cur)
qed

theorem clamped_cursor_repeats_frames_witness:
  "consume_from_redis parse_demo
      (da_cursor (on_upstream \<lparr>dc_resume = True, dc_has_runner = True, dc_from_seq_limit = 1, dc_idle_text = ''300''\<rparr>
         2 [] (dial_start cfg_dial_demo []))) True None
      [[entry_demo ''1-0'' ''a'' ''0'', entry_demo ''2-0'' ''b'' ''1''], [eos_demo ''3-0'']]
    = ([(2, [(''v'', PBool False)]), (3, end_struct)], True)"
proof -
  let ?es = "[entry_demo ''1-0'' ''a'' ''0'', entry_demo ''2-0'' ''b'' ''1'']"
  let ?qs = "[(0, [(''v'', PBool True)]), (1, [(''v'', PBool False)])]"
  let ?c = "\<lparr>dc_resume = True, dc_has_runner = True, dc_from_seq_limit = 1, dc_idle_text = ''300''\<rparr>"
  have "list_all2 (payload parse_demo) ?es ?qs" by code_simp
  moreover have "numbered ?qs" by (simp add: numbered_def)
  moreover have "is_eos (eos_demo ''3-0'')" by code_simp
  moreover have "da_first (dial_start cfg_dial_demo [])" by (simp add: dial_start_def)
  ultimately show ?thesis
    using clamped_cursor_repeats_frames [where es = ?es and qs = ?qs and parse = parse_demo and eos = "eos_demo ''3-0''"
        and bs = "[?es, [eos_demo ''3-0'']]" and m = 0 and k = 2 and c = ?c and rest = "[]"
        and st = "dial_start cfg_dial_demo []" and cur = None]
    by (simp add: label_from_def)
qed

end
