(* ===== verification/Signal_Listener.thy ===== *)
theory Signal_Listener
  imports Struct_Value
begin

text \<open>
  \<open>SharedRedisListener\<close> of \<open>core/task_manager/redis/redis_signal.py\<close>: one subscription per Redis
  URL that routes control signals to the tasks of this process. An asyncio task is a number;
  \<open>is_done\<close> says which have finished. \<open>loads\<close> is \<open>json.loads\<close>, \<open>None\<close> for malformed text. What a
  dispatch does to a session and to asyncio is returned as effects.
\<close>

section \<open>The listener\<close>

record listener =
  sl_refcount :: int
  sl_refs :: "(string, nat) odict"
  sl_sessions :: "string set"               \<comment> \<open>the tasks whose session is stored\<close>
  sl_last_seen :: "(string, string) odict"
  sl_listening :: bool                      \<comment> \<open>a listen task exists and is not done\<close>
  sl_pubsub :: bool
  sl_stopped :: bool
  sl_received :: nat
  sl_deduped :: nat
  sl_subscribed :: nat
  sl_invalidated :: nat
  sl_restarts :: nat

definition sl_init :: listener where
  "sl_init = \<lparr>sl_refcount = 0, sl_refs = [], sl_sessions = {}, sl_last_seen = [], sl_listening = False,
     sl_pubsub = False, sl_stopped = False, sl_received = 0, sl_deduped = 0, sl_subscribed = 0,
     sl_invalidated = 0, sl_restarts = 0\<rparr>"

definition sl_start :: "listener \<Rightarrow> listener" where
  "sl_start l = (if sl_pubsub l \<and> sl_listening l then l
     else l\<lparr>sl_pubsub := True, sl_stopped := False, sl_listening := True\<rparr>)"

datatype sl_error = BeforeStart | MaxTasksExceeded

definition sl_register :: "nat \<Rightarrow> string \<Rightarrow> nat \<Rightarrow> listener \<Rightarrow> sl_error + listener" where
  "sl_register max_tasks tid task l =
     (if \<not> sl_listening l then Inl BeforeStart
      else if max_tasks \<le> length (sl_refs l) then Inl MaxTasksExceeded
      else Inr (l\<lparr>sl_sessions := insert tid (sl_sessions l), sl_refs := od_set tid task (sl_refs l),
                  sl_subscribed := sl_subscribed l + 1\<rparr>))"

definition sl_unregister :: "string \<Rightarrow> listener \<Rightarrow> listener" where
  "sl_unregister tid l = l\<lparr>sl_refs := od_del tid (sl_refs l), sl_sessions := sl_sessions l - {tid},
     sl_last_seen := od_del tid (sl_last_seen l)\<rparr>"

definition sl_close :: "listener \<Rightarrow> listener" where
  "sl_close l = l\<lparr>sl_stopped := True, sl_listening := False, sl_refs := [], sl_sessions := {},
     sl_last_seen := [], sl_pubsub := False\<rparr>"

section \<open>One listener per Redis URL\<close>

definition sl_get_or_create :: "string \<Rightarrow> (string, listener) odict \<Rightarrow> listener \<times> (string, listener) odict" where
  "sl_get_or_create key insts =
     (let inst = (case od_get insts key of None \<Rightarrow> sl_init | Some l \<Rightarrow> l);
          inst' = inst\<lparr>sl_refcount := sl_refcount inst + 1\<rparr>
      in (inst', od_set key inst' insts))"

text \<open>The second component is the listener that was closed.\<close>

definition sl_release :: "string \<Rightarrow> (string, listener) odict \<Rightarrow> (string, listener) odict \<times> listener option" where
  "sl_release key insts =
     (case od_get insts key of
        None \<Rightarrow> (insts, None)
      | Some inst \<Rightarrow>
          let inst' = inst\<lparr>sl_refcount := sl_refcount inst - 1\<rparr> in
          if sl_refcount inst' \<le> 0 then (od_del key insts, Some (sl_close inst'))
          else (od_set key inst' insts, None))"

definition sl_singleton_or_none :: "(string, listener) odict \<Rightarrow> string + listener option" where
  "sl_singleton_or_none insts =
     (if insts = [] then Inr None
      else if 1 < length insts then Inl ''Multiple SharedRedisListener instances''
      else Inr (Some (snd (hd insts))))"

section \<open>Dispatch\<close>

datatype signal_effect =
    Invalidate string string             \<comment> \<open>action name and setup identifier\<close>
  | SetPending string string real        \<comment> \<open>\<open>session.pending_signal_action\<close>, \<open>last_signal_published_ns\<close>\<close>
  | CancelTask nat

definition text_or :: "string \<Rightarrow> pvalue option \<Rightarrow> string option" where
  "text_or dflt v = (case v of None \<Rightarrow> Some dflt | Some (PStr s) \<Rightarrow> Some s | Some _ \<Rightarrow> None)"

definition number_or_zero :: "pvalue option \<Rightarrow> real" where
  "number_or_zero v = (case v of Some (PNum x) \<Rightarrow> x | _ \<Rightarrow> 0)"

text \<open>
  \<open>dispatch_signal\<close>: the listener afterwards, the effects, and the result; \<open>None\<close> is the
  \<open>AttributeError\<close> of an \<open>action\<close> that is not a string.
\<close>

definition dispatch_signal ::
    "string \<Rightarrow> bool \<Rightarrow> (nat \<Rightarrow> bool) \<Rightarrow> string \<Rightarrow> pstruct \<Rightarrow> string \<Rightarrow> listener
      \<Rightarrow> listener \<times> signal_effect list \<times> bool option" where
  "dispatch_signal process_id has_invalidator is_done tid data raw l =
     (if od_get (sl_last_seen l) tid = Some raw then (l\<lparr>sl_deduped := sl_deduped l + 1\<rparr>, [], Some False)
      else
        let l1 = l\<lparr>sl_last_seen := od_set tid raw (sl_last_seen l), sl_received := sl_received l + 1\<rparr>;
            pub_ns = number_or_zero (od_get data ''published_at_ns'') in
        case text_or '''' (od_get data ''action'') of
          None \<Rightarrow> (l1, [], None)
        | Some action \<Rightarrow>
            if starts_with action ''invalidate_'' then
              (if od_get data ''origin'' = Some (PStr process_id) then (l1, [], Some True)
               else
                 let setup_id = (case text_or '''' (od_get data ''setup_id'') of None \<Rightarrow> '''' | Some s \<Rightarrow> s);
                     l2 = l1\<lparr>sl_invalidated := sl_invalidated l1 + 1\<rparr>
                 in (l2, if has_invalidator then [Invalidate (upper action) setup_id] else [], Some True))
            else if action \<noteq> ''cancel'' \<and> action \<noteq> ''stop'' then (l1, [], Some True)
            else case od_get (sl_refs l1) tid of
              None \<Rightarrow> (l1, [], Some False)
            | Some task \<Rightarrow>
                if tid \<notin> sl_sessions l1 \<or> is_done task then (l1, [], Some False)
                else (l1, [SetPending tid action pub_ns, CancelTask task], Some True))"

text \<open>\<open>_parse_message\<close> on a message given by type, channel and data.\<close>

definition parse_message ::
    "(string \<Rightarrow> pstruct option) \<Rightarrow> string \<Rightarrow> string \<Rightarrow> string \<Rightarrow> (string \<times> pstruct \<times> string) option" where
  "parse_message loads ty channel raw =
     (if ty \<noteq> ''message'' \<and> ty \<noteq> ''pmessage'' then None
      else if \<not> starts_with channel ''signal_ch:'' then None
      else case loads raw of
        None \<Rightarrow> None
      | Some data \<Rightarrow> Some (drop (length ''signal_ch:'') channel, data, raw))"

text \<open>
  One iteration of the listen loop: nothing arrives, a message arrives, or Redis fails. The
  backoff is the delay slept after a failure.
\<close>

datatype poll = Nothing | Message string string string | PollFailed

definition listen_step ::
    "(string \<Rightarrow> pstruct option) \<Rightarrow> string \<Rightarrow> bool \<Rightarrow> (nat \<Rightarrow> bool) \<Rightarrow> poll \<Rightarrow> listener \<times> real
      \<Rightarrow> (listener \<times> real) \<times> signal_effect list \<times> real option" where
  "listen_step loads process_id has_invalidator is_done p lb =
     (case lb of (l0, backoff) \<Rightarrow>
        let failed = (\<lambda>l. ((l\<lparr>sl_restarts := sl_restarts l + 1, sl_pubsub := False\<rparr>, min (backoff * 2) 10), [], Some backoff));
            l = l0\<lparr>sl_pubsub := True\<rparr> in
        case p of
          Nothing \<Rightarrow> ((l, 1 / 10), [], None)
        | PollFailed \<Rightarrow> failed l0
        | Message ty channel raw \<Rightarrow>
            (case parse_message loads ty channel raw of
               None \<Rightarrow> ((l, 1 / 10), [], None)
             | Some (tid, data, raw) \<Rightarrow>
                 (case dispatch_signal process_id has_invalidator is_done tid data raw l of
                    (l', effs, None) \<Rightarrow> failed l'
                  | (l', effs, Some r) \<Rightarrow> ((l', 1 / 10), effs, None))))"

section \<open>Invariant\<close>

definition sl_inv :: "listener \<Rightarrow> bool" where
  "sl_inv l \<longleftrightarrow> od_wf (sl_refs l) \<and> od_wf (sl_last_seen l) \<and> sl_sessions l = fst ` set (sl_refs l)"

lemma keys_od_set: "fst ` set (od_set k v d) = insert k (fst ` set d)"
  by (simp add: od_set_def dom_update)

lemma sl_inv_init [simp]: "sl_inv sl_init"
  by (simp add: sl_inv_def sl_init_def)

lemma sl_inv_register: "sl_inv l \<Longrightarrow> sl_register m tid task l = Inr l' \<Longrightarrow> sl_inv l'"
  by (clarsimp simp: sl_register_def sl_inv_def keys_od_set split: if_splits)

lemma sl_inv_unregister [simp]: "sl_inv l \<Longrightarrow> sl_inv (sl_unregister tid l)"
  by (auto simp: sl_unregister_def sl_inv_def od_keys_del)

lemma sl_inv_dispatch: "sl_inv l \<Longrightarrow> sl_inv (fst (dispatch_signal pid inval d tid data raw l))"
  by (auto simp: dispatch_signal_def sl_inv_def Let_def split: option.splits)

lemma sl_inv_close [simp]: "sl_inv (sl_close l)"
  by (simp add: sl_inv_def sl_close_def)

definition sl_look :: "listener \<Rightarrow> string \<Rightarrow> nat option" where
  "sl_look l tid = od_get (sl_refs l) tid"

definition sl_put :: "nat \<Rightarrow> string \<Rightarrow> nat \<Rightarrow> listener \<Rightarrow> listener option" where
  "sl_put m tid task l = (case sl_register m tid task l of Inl e \<Rightarrow> None | Inr l' \<Rightarrow> Some l')"

interpretation slt: session_table sl_look "sl_put m" sl_unregister sl_inv for m
  by unfold_locales
    (auto simp: sl_look_def sl_put_def sl_unregister_def sl_inv_unregister [unfolded sl_unregister_def]
       dest: sl_inv_register split: sum.splits, auto simp: sl_register_def split: if_splits)

lemma sl_register_bound:
  "sl_inv l \<Longrightarrow> length (sl_refs l) \<le> m \<Longrightarrow> sl_register m tid task l = Inr l' \<Longrightarrow> length (sl_refs l') \<le> m"
  by (auto simp: sl_register_def length_od_set split: if_splits)

section \<open>Properties\<close>

text \<open>
  A control signal reaches a live task once. The first time a \<open>cancel\<close> or \<open>stop\<close> message for a
  registered, unfinished task is dispatched, its session is told the action and its asyncio task
  is cancelled; a redelivery of the same message has no effect; and no other action touches any
  task, in particular an invalidation published by this process is dropped here and acted on in
  every other process.
\<close>

theorem signal_dispatched_once:
  assumes "dispatch_signal pid inval is_done tid data raw l = (l', effs, res)"
    and "od_get (sl_last_seen l) tid \<noteq> Some raw"
  shows "(od_get data ''action'' = Some (PStr a) \<and> a \<in> {''cancel'', ''stop''} \<and> sl_inv l \<and> sl_look l tid = Some t \<and> \<not> is_done t
        \<longrightarrow> effs = [SetPending tid a (number_or_zero (od_get data ''published_at_ns'')), CancelTask t])
    \<and> (od_get data ''action'' = Some (PStr a) \<and> a \<notin> {''cancel'', ''stop''} \<longrightarrow> (\<forall>e\<in>set effs. \<exists>n s. e = Invalidate n s))
    \<and> (od_get data ''action'' = Some (PStr a) \<and> starts_with a ''invalidate_'' \<and> inval
        \<longrightarrow> (effs = [] \<longleftrightarrow> od_get data ''origin'' = Some (PStr pid)))
    \<and> fst (snd (dispatch_signal pid inval is_done tid data raw l')) = []
    \<and> sl_refs l' = sl_refs l"
proof -
  have nc: "\<not> starts_with ''cancel'' ''invalidate_''" "\<not> starts_with ''stop'' ''invalidate_''" by code_simp+
  have seen: "od_get (sl_last_seen l') tid = Some raw" and refs: "sl_refs l' = sl_refs l"
    using assms by (auto simp: dispatch_signal_def Let_def split: if_splits option.splits)
  have one: "effs = [SetPending tid a (number_or_zero (od_get data ''published_at_ns'')), CancelTask t]"
    if "od_get data ''action'' = Some (PStr a)" "a \<in> {''cancel'', ''stop''}" "sl_inv l" "sl_look l tid = Some t" "\<not> is_done t"
  proof -
    have "tid \<in> sl_sessions l" using that(3,4) od_get_None_iff [of "sl_refs l" tid] by (simp add: sl_inv_def sl_look_def)
    moreover have "\<not> starts_with a ''invalidate_''" using that(2) nc by auto
    ultimately show ?thesis
      using assms that by (auto simp: dispatch_signal_def Let_def text_or_def sl_look_def)
  qed
  have two: "\<forall>e\<in>set effs. \<exists>n s. e = Invalidate n s"
    if "od_get data ''action'' = Some (PStr a)" "a \<notin> {''cancel'', ''stop''}"
    using assms that by (auto simp: dispatch_signal_def Let_def text_or_def split: if_splits)
  have three: "effs = [] \<longleftrightarrow> od_get data ''origin'' = Some (PStr pid)"
    if "od_get data ''action'' = Some (PStr a)" "starts_with a ''invalidate_''" inval
    using assms that by (auto simp: dispatch_signal_def Let_def text_or_def split: if_splits)
  have "fst (snd (dispatch_signal pid inval is_done tid data raw l')) = []"
    using seen by (simp add: dispatch_signal_def)
  with one two three refs show ?thesis by blast
qed

definition listener_demo :: listener where
  "listener_demo = (case sl_register 10 ''t'' 7 (sl_start sl_init) of Inl e \<Rightarrow> sl_init | Inr l \<Rightarrow> l)"

theorem signal_dispatched_once_witness:
  "fst (snd (dispatch_signal ''p'' True (\<lambda>t. False) ''t'' [(''action'', PStr ''cancel'')] ''raw'' listener_demo))
    = [SetPending ''t'' ''cancel'' 0, CancelTask 7]"
proof -
  let ?d = "dispatch_signal ''p'' True (\<lambda>t. False) ''t'' [(''action'', PStr ''cancel'')] ''raw'' listener_demo"
  have run: "?d = (fst ?d, fst (snd ?d), snd (snd ?d))" by simp
  have reg: "sl_register 10 ''t'' 7 (sl_start sl_init) = Inr listener_demo"
    by (simp add: listener_demo_def sl_register_def sl_start_def sl_init_def)
  have "sl_inv listener_demo"
    by (rule sl_inv_register [OF _ reg]) (simp add: sl_inv_def sl_start_def sl_init_def)
  moreover have "sl_look listener_demo ''t'' = Some 7" "od_get (sl_last_seen listener_demo) ''t'' \<noteq> Some ''raw''"
    by (simp_all add: listener_demo_def sl_register_def sl_start_def sl_init_def sl_look_def od_set_def od_get_def)
  ultimately show ?thesis
    using signal_dispatched_once [OF run, of "''cancel''" 7] by (simp add: od_get_def number_or_zero_def)
qed

definition hear :: "string \<Rightarrow> string \<Rightarrow> pstruct \<Rightarrow> string \<Rightarrow> listener \<Rightarrow> listener" where
  "hear pid raw data tid l = fst (dispatch_signal pid True (\<lambda>t. False) tid data raw l)"

lemma hear_foreign:
  "od_get (sl_last_seen l) tid = None \<Longrightarrow>
    length (sl_last_seen (hear pid raw data tid l)) = Suc (length (sl_last_seen l))
    \<and> (\<forall>k. k \<noteq> tid \<longrightarrow> od_get (sl_last_seen (hear pid raw data tid l)) k = od_get (sl_last_seen l) k)
    \<and> sl_refs (hear pid raw data tid l) = sl_refs l"
proof -
  assume a: "od_get (sl_last_seen l) tid = None"
  have "sl_last_seen (hear pid raw data tid l) = od_set tid raw (sl_last_seen l)"
    "sl_refs (hear pid raw data tid l) = sl_refs l"
    using a by (auto simp: hear_def dispatch_signal_def Let_def split: option.splits)
  with a show ?thesis by (simp add: length_od_set od_has_def)
qed

lemma hear_all:
  "distinct tids \<Longrightarrow> (\<And>t. t \<in> set tids \<Longrightarrow> od_get (sl_last_seen l) t = None) \<Longrightarrow>
    length (sl_last_seen (fold (hear pid raw data) tids l)) = length (sl_last_seen l) + length tids
    \<and> sl_refs (fold (hear pid raw data) tids l) = sl_refs l"
proof (induction tids arbitrary: l)
  case (Cons t ts)
  have t: "od_get (sl_last_seen l) t = None" using Cons.prems(2) by simp
  note h = hear_foreign [OF t, of pid raw data]
  have "od_get (sl_last_seen (hear pid raw data t l)) u = None" if "u \<in> set ts" for u
  proof -
    have "u \<noteq> t" using Cons.prems(1) that by auto
    moreover have "od_get (sl_last_seen l) u = None" using Cons.prems(2) that by simp
    ultimately show ?thesis using h by simp
  qed
  with Cons.IH [of "hear pid raw data t l"] Cons.prems(1) h show ?case by simp
qed simp

text \<open>
  Signals for tasks of other processes accumulate. The listener subscribes to the signals of
  all tasks and remembers the last message of each task it hears of, whether or not the task
  lives here; only unregistering that task (which never happens for a task never registered) or
  closing the listener forgets it. After signals for \<open>n\<close> distinct foreign tasks, \<open>n\<close> entries are
  held, although no task is registered.
\<close>

theorem foreign_signals_accumulate:
  assumes "distinct tids"
  shows "length (sl_last_seen (fold (hear pid raw data) tids sl_init)) = length tids
    \<and> sl_refs (fold (hear pid raw data) tids sl_init) = []"
  using hear_all [OF assms, of sl_init pid raw data] by (simp add: sl_init_def)

theorem foreign_signals_accumulate_witness:
  "length (sl_last_seen (fold (hear ''p'' ''raw'' [(''action'', PStr ''cancel'')]) [''a'', ''b'', ''c''] sl_init)) = 3"
  using foreign_signals_accumulate [of "[''a'', ''b'', ''c'']"] by simp

definition poll_many ::
    "(string \<Rightarrow> pstruct option) \<Rightarrow> string \<Rightarrow> nat \<Rightarrow> listener \<times> real \<Rightarrow> listener \<times> real" where
  "poll_many loads pid n = (\<lambda>p. fst (listen_step loads pid True (\<lambda>t. False) PollFailed p)) ^^ n"

lemma poll_failures:
  "snd (poll_many loads pid n (l, 1 / 10)) = min (1 / 10 * 2 ^ n) 10
    \<and> sl_refs (fst (poll_many loads pid n (l, 1 / 10))) = sl_refs l"
proof (induction n)
  case 0
  then show ?case by (simp add: poll_many_def)
next
  case (Suc n)
  obtain l' b where p: "poll_many loads pid n (l, 1 / 10) = (l', b)" by (metis prod.exhaust)
  have "poll_many loads pid (Suc n) (l, 1 / 10) = fst (listen_step loads pid True (\<lambda>t. False) PollFailed (l', b))"
    using p by (simp add: poll_many_def)
  moreover have "min (min (1 / 10 * 2 ^ n) 10 * 2) 10 = min (1 / 10 * 2 ^ Suc n) (10 :: real)"
    by (auto simp: min_def)
  ultimately show ?case using Suc.IH p by (simp add: listen_step_def)
qed

text \<open>
  The listener backs off exponentially, within bounds, and recovers. After \<open>n\<close> failures in a
  row the next delay is a tenth of a second times \<open>2 ^ n\<close>, capped at ten seconds; any successful
  poll resets it, and the registered tasks are kept throughout.
\<close>

theorem listener_backoff:
  "snd (poll_many loads pid n (l, 1 / 10)) = min (1 / 10 * 2 ^ n) 10
    \<and> sl_refs (fst (poll_many loads pid n (l, 1 / 10))) = sl_refs l
    \<and> snd (fst (listen_step loads pid inval d Nothing (l, b))) = 1 / 10
    \<and> fst (snd (listen_step loads pid inval d PollFailed (l, b))) = []"
  using poll_failures by (simp add: listen_step_def)

end
