(* ===== verification/Gateway_Serve.thy ===== *)
theory Gateway_Serve
  imports Gateway_Start Proto_Stream M2m_Registry Signal_Listener
begin

text \<open>
  The other two calls of \<open>GatewayServicer\<close>: \<open>Stream\<close> with its upstream reader, and \<open>SendSignal\<close>.
  Redis' answers, the reader's events and the JSON encoder are arguments; frames sent to the peer
  and commands sent to Redis are results.
\<close>

section \<open>Stream\<close>

record peer_msg =
  pm_task_id :: string
  pm_seq :: int
  pm_data :: pstruct

text \<open>\<open>_read_peer_upstream\<close>: follow-up messages, up to the stop event or the first failing write.\<close>

fun read_peer_upstream ::
    "(pstruct \<Rightarrow> string) \<Rightarrow> string \<Rightarrow> (peer_msg \<times> bool \<times> bool) list \<Rightarrow> redis_cmd list" where
  "read_peer_upstream ser tid [] = []"
| "read_peer_upstream ser tid ((m, stopped, xadd_ok) # ms) =
     (if stopped then []
      else if has_fields (pm_data m) then
        (if xadd_ok then XADD (input_key tid) [(''pb'', ser (pm_data m))] None # read_peer_upstream ser tid ms else [])
      else read_peer_upstream ser tid ms)"

record stream_env =
  sv_from_seq_limit :: int
  sv_idle_text :: string
  sv_xlen :: "nat option"          \<comment> \<open>\<open>None\<close>: \<open>RedisError\<close>\<close>
  sv_input_ok :: bool              \<comment> \<open>the first \<open>XADD\<close> to the input stream succeeds\<close>
  sv_events :: "read_event list"   \<comment> \<open>what the guarded reader meets\<close>
  sv_upstream :: "(peer_msg \<times> bool \<times> bool) list"

record stream_result =
  sr_frames :: "frame list"
  sr_ended :: bool
  sr_cmds :: "redis_cmd list"
  sr_reg :: stream_registry
  sr_torn_down :: "stream_session option"

text \<open>The messages a dial-back delivers to an outbound call: the call's entry afterwards.\<close>

datatype stream_outcome = Pull stream_result | DialBackReceived "m2m_error + (pstruct \<times> m2m_entry)"

definition is_stream_init :: "pstruct \<Rightarrow> bool" where
  "is_stream_init d \<longleftrightarrow> root_protocol d = ''stream.init''"

definition plain_result :: "frame list \<Rightarrow> stream_registry \<Rightarrow> stream_outcome" where
  "plain_result fs reg = Pull \<lparr>sr_frames = fs, sr_ended = True, sr_cmds = [], sr_reg = reg, sr_torn_down = None\<rparr>"

definition stream_rpc ::
    "(pstruct \<Rightarrow> string) \<Rightarrow> stream_env \<Rightarrow> m2m_registry \<Rightarrow> pstruct list \<Rightarrow> peer_msg option \<Rightarrow> stream_registry
      \<Rightarrow> stream_outcome" where
  "stream_rpc ser env m2m rest first reg =
     (case first of
        None \<Rightarrow> plain_result [] reg
      | Some m \<Rightarrow>
          let tid = pm_task_id m in
          if validate_id tid ''task_id'' \<noteq> None
          then plain_result (fatal_close ''INVALID_ARGUMENT'' ''invalid task_id'') reg
          else if is_stream_init (pm_data m) then
            (if \<not> mr_has m2m tid
             then plain_result (fatal_close (code_value DIAL_BACK_INTERNAL) ''unknown outbound task_id'') reg
             else DialBackReceived (mr_handle_dial_back_receive tid rest m2m))
          else if sv_from_seq_limit env < pm_seq m
          then plain_result (fatal_close ''INVALID_ARGUMENT'' ''seq out of range'') reg
          else (case sr_get tid reg of
              (None, reg1) \<Rightarrow>
                (case sv_xlen env of
                   None \<Rightarrow> plain_result (fatal_close (code_value REDIS_UNAVAILABLE) ''redis unavailable'') reg1
                 | Some n \<Rightarrow>
                     if 0 < n then
                       (case consume_guarded (sv_idle_text env) (sv_events env) of
                          (fs, fin) \<Rightarrow> Pull \<lparr>sr_frames = fs, sr_ended = fin, sr_cmds = [], sr_reg = reg1, sr_torn_down = None\<rparr>)
                     else plain_result (fatal_close ''NOT_FOUND'' ''task not found'') reg1)
            | (Some session, reg1) \<Rightarrow>
                let query = has_fields (pm_data m);
                    put = (if query \<and> sv_input_ok env then [XADD (input_key tid) [(''pb'', ser (pm_data m))] None] else []) in
                if query \<and> \<not> sv_input_ok env
                then plain_result (fatal_close (code_value REDIS_UNAVAILABLE) ''redis unavailable'') reg1
                else (case consume_guarded (sv_idle_text env) (sv_events env) of
                    (fs, fin) \<Rightarrow>
                      (case (if fin then sr_unregister tid reg1 else (None, reg1)) of
                         (removed, reg2) \<Rightarrow>
                           Pull \<lparr>sr_frames = fs, sr_ended = fin,
                                 sr_cmds = put @ read_peer_upstream ser tid (sv_upstream env),
                                 sr_reg = (if fin then reg2 else sr_monitor_task (''peer_upstream_'' @ tid) reg2),
                                 sr_torn_down = map_option ss_teardown removed\<rparr>))))"

section \<open>SendSignal\<close>

record signal_env =
  sg_process_id :: string
  sg_handler :: "bool option"      \<comment> \<open>\<open>None\<close>: no cache handler; otherwise whether it returns\<close>
  sg_publish_ok :: bool
  sg_now :: real

definition signal_payload :: "string \<Rightarrow> string \<Rightarrow> real \<Rightarrow> pstruct" where
  "signal_payload action tid now =
     [(''action'', PStr (lower action)), (''task_id'', PStr tid), (''published_at_ns'', PNum now)]"

text \<open>The answer (success), what was published, and the cache handler's call.\<close>

definition send_signal ::
    "(pstruct \<Rightarrow> string) \<Rightarrow> signal_env \<Rightarrow> string \<Rightarrow> string \<Rightarrow> stream_registry
      \<Rightarrow> bool \<times> redis_cmd list \<times> (string \<times> string) list \<times> stream_registry" where
  "send_signal dumps env action tid reg =
     (if starts_with action ''INVALIDATE_'' then
        let called = (if sg_handler env = None then [] else [(action, tid)]);
            payload = dumps [(''action'', PStr (lower action)), (''setup_id'', PStr tid),
                        (''published_at_ns'', PNum (sg_now env)), (''origin'', PStr (sg_process_id env))] in
        if sg_handler env = Some False then (False, [], called, reg)
        else (True, if sg_publish_ok env then [PUBLISH ''signal_ch:_global_'' payload] else [], called, reg)
      else if validate_id tid ''task_id'' \<noteq> None then (False, [], [], reg)
      else case sr_get tid reg of
        (None, reg1) \<Rightarrow> (False, [], [], reg1)
      | (Some session, reg1) \<Rightarrow>
          let payload = dumps (signal_payload action tid (sg_now env)) in
          if sg_publish_ok env then (True, [PUBLISH (''signal_ch:'' @ tid) payload], [], reg1)
          else (False, [], [], reg1))"

section \<open>Properties\<close>

text \<open>
  A pull always gets an answer, and errors travel in band. Unless the message is the opening
  of a dial-back for a known outbound call, \<open>Stream\<close> answers a first message with frames only: an
  invalid identifier, an out-of-range cursor, an unknown task and an unreachable Redis each give a
  fatal error frame and the end frame; a finished task whose output is still stored is served from
  Redis without touching the registry; and when a live session's drain ends, the session is
  unregistered and torn down.
\<close>

theorem stream_answers:
  assumes "stream_rpc ser env m2m rest (Some m) reg = Pull r"
    and "\<not> is_stream_init (pm_data m)" and "tid = pm_task_id m"
  shows "(validate_id tid ''task_id'' \<noteq> None \<longrightarrow> sr_frames r = fatal_close ''INVALID_ARGUMENT'' ''invalid task_id'')
    \<and> (validate_id tid ''task_id'' = None \<and> sv_from_seq_limit env < pm_seq m
        \<longrightarrow> sr_frames r = fatal_close ''INVALID_ARGUMENT'' ''seq out of range'' \<and> sr_reg r = reg)
    \<and> (validate_id tid ''task_id'' = None \<and> pm_seq m \<le> sv_from_seq_limit env \<and> sr_lookup reg tid = None
        \<longrightarrow> sr_lookup (sr_reg r) = sr_lookup reg \<and> sr_cmds r = []
          \<and> (sv_xlen env = None \<longrightarrow> sr_frames r = fatal_close ''REDIS_UNAVAILABLE'' ''redis unavailable'')
          \<and> (sv_xlen env = Some 0 \<longrightarrow> sr_frames r = fatal_close ''NOT_FOUND'' ''task not found'')
          \<and> (\<forall>n. sv_xlen env = Some (Suc n) \<longrightarrow> (sr_frames r, sr_ended r) = consume_guarded (sv_idle_text env) (sv_events env)))
    \<and> (validate_id tid ''task_id'' = None \<and> pm_seq m \<le> sv_from_seq_limit env
        \<and> sr_lookup reg tid = Some s \<and> (has_fields (pm_data m) \<longrightarrow> sv_input_ok env)
        \<longrightarrow> (sr_frames r, sr_ended r) = consume_guarded (sv_idle_text env) (sv_events env)
          \<and> (sr_ended r \<longrightarrow> sr_lookup (sr_reg r) tid = None \<and> sr_torn_down r = Some (ss_teardown s)))"
proof -
  have look: "sr_lookup (snd (sr_get tid reg)) = sr_lookup reg" by (rule ext) simp
  obtain fs fin where g0: "consume_guarded (sv_idle_text env) (sv_events env) = (fs, fin)"
    by (cases "consume_guarded (sv_idle_text env) (sv_events env)")
  show ?thesis
  proof (cases "validate_id tid ''task_id'' \<noteq> None \<or> sv_from_seq_limit env < pm_seq m")
    case True
    with assms show ?thesis
      by (auto simp: stream_rpc_def plain_result_def Let_def simp del: not_None_eq)
  next
    case False
    then have ok: "validate_id tid ''task_id'' = None" "\<not> sv_from_seq_limit env < pm_seq m" by auto
    show ?thesis
    proof (cases "sr_lookup reg tid")
      case None
      then obtain reg1 where g: "sr_get tid reg = (None, reg1)" by (cases "sr_get tid reg") (auto simp: sr_lookup_def)
      with look have "sr_lookup reg1 = sr_lookup reg" by simp
      with assms ok g g0 None show ?thesis
        by (cases "sv_xlen env") (auto simp: stream_rpc_def plain_result_def Let_def split: if_splits)
    next
      case (Some s')
      then obtain reg1 where g: "sr_get tid reg = (Some s', reg1)" by (cases "sr_get tid reg") (auto simp: sr_lookup_def)
      have "od_get (sr_cache reg1) tid = Some s'" using look Some g by (simp add: sr_lookup_cache fun_eq_iff)
      with assms ok g g0 Some show ?thesis
        by (cases fin) (auto simp: stream_rpc_def plain_result_def Let_def sr_unregister_def sr_lookup_cache split: if_splits)
    qed
  qed
qed

definition serve_env_demo :: stream_env where
  "serve_env_demo = \<lparr>sv_from_seq_limit = 10, sv_idle_text = ''300'', sv_xlen = Some 0, sv_input_ok = True,
     sv_events = [Frame (1, []), IdleTimeout], sv_upstream = []\<rparr>"

definition serve_reg_demo :: stream_registry where
  "serve_reg_demo = snd (sr_register 5 (ss_init ''t'') sr_init)"

definition serve_msg_demo :: peer_msg where
  "serve_msg_demo = \<lparr>pm_task_id = ''t'', pm_seq = 0, pm_data = [(''q'', PBool True)]\<rparr>"

theorem stream_answers_witness:
  "\<exists>r. stream_rpc (\<lambda>_. ''x'') serve_env_demo (mr_init 1) [] (Some serve_msg_demo) serve_reg_demo = Pull r
    \<and> sr_lookup (sr_reg r) ''t'' = None \<and> length (sr_frames r) = 3"
proof -
  have run: "(case stream_rpc (\<lambda>_. ''x'') serve_env_demo (mr_init 1) [] (Some serve_msg_demo) serve_reg_demo of
      Pull r \<Rightarrow> sr_ended r | _ \<Rightarrow> False)"
    by code_simp
  then obtain r where r: "stream_rpc (\<lambda>_. ''x'') serve_env_demo (mr_init 1) [] (Some serve_msg_demo) serve_reg_demo = Pull r"
      "sr_ended r"
    by (auto split: stream_outcome.splits)
  have "\<not> is_stream_init (pm_data serve_msg_demo)" "validate_id ''t'' ''task_id'' = None"
    "sr_lookup serve_reg_demo ''t'' = Some (ss_init ''t'')"
    by code_simp+
  with stream_answers [OF r(1) this(1) refl, of "ss_init ''t''"] r show ?thesis
    by (auto simp: serve_env_demo_def serve_msg_demo_def prod_eq_iff)
qed

lemma lower_cancel: "lower ''CANCEL'' = ''cancel''" "lower ''STOP'' = ''stop''"
  by code_simp+

lemma upper_lower: "(\<And>c. c \<in> set s \<Longrightarrow> \<not> is_lower c) \<Longrightarrow> upper (lower s) = s"
proof (induction s)
  case (Cons c cs)
  have "to_upper (to_lower c) = c"
  proof (cases "is_upper c")
    case True
    then have n: "65 \<le> (of_char c :: nat)" "(of_char c :: nat) \<le> 90" by (simp_all add: is_upper_def)
    have "(of_char (char_of ((of_char c :: nat) + 32) :: char) :: nat) = of_char c + 32" using n by simp
    with n have "is_lower (to_lower c)" "(of_char (to_lower c) :: nat) = of_char c + 32"
      using True by (simp_all add: to_lower_def is_lower_def)
    then show ?thesis by (simp add: to_upper_def)
  next
    case False
    with Cons.prems [of c] show ?thesis by (simp add: to_lower_def to_upper_def)
  qed
  with Cons show ?case by (simp add: upper_def lower_def)
qed (simp add: upper_def lower_def)

text \<open>
  A signal sent through the gateway reaches the task. If \<open>SendSignal\<close> accepts a \<open>CANCEL\<close> or
  \<open>STOP\<close> for a task, the task is registered with the gateway and one message was published on the
  task's channel; the listener of the process that runs the task parses that message and, unless
  it is a redelivery, sets the pending action of the task's session to \<open>cancel\<close> or \<open>stop\<close> and cancels its
  asyncio task. JSON decoding is only required to invert the
  encoding of that message.
\<close>

theorem signal_reaches_task:
  assumes "send_signal dumps env action tid reg = (True, cmds, called, reg')"
    and "action \<in> {''CANCEL'', ''STOP''}" 
    and "loads (dumps (signal_payload action tid (sg_now env))) = Some (signal_payload action tid (sg_now env))"
    and "sl_look l tid = Some task" and "sl_inv l" and "\<not> is_done task"
  shows "\<exists>data raw. cmds = [PUBLISH (''signal_ch:'' @ tid) raw]
    \<and> sr_lookup reg tid \<noteq> None
    \<and> parse_message loads ''pmessage'' (''signal_ch:'' @ tid) raw = Some (tid, data, raw)
    \<and> fst (snd (dispatch_signal pid inval is_done tid data raw l))
        = (if od_get (sl_last_seen l) tid = Some raw then []
           else [SetPending tid (lower action) (sg_now env), CancelTask task])"
proof -
  let ?data = "signal_payload action tid (sg_now env)"
  have ni: "\<not> starts_with action ''INVALIDATE_''" using assms(2) by (auto simp: starts_with_def)
  with assms(1) have cmds: "cmds = [PUBLISH (''signal_ch:'' @ tid) (dumps ?data)]"
    and reg: "sr_lookup reg tid \<noteq> None"
    by (auto simp: send_signal_def Let_def sr_lookup_def split: if_splits option.splits prod.splits)
  have parse: "parse_message loads ''pmessage'' (''signal_ch:'' @ tid) (dumps ?data) = Some (tid, ?data, dumps ?data)"
    by (simp add: parse_message_def assms(3) del: append_Cons)
  have sess: "tid \<in> sl_sessions l" "od_get (sl_refs l) tid = Some task"
    using assms(4,5) od_get_None_iff [of "sl_refs l" tid] by (simp_all add: sl_inv_def sl_look_def)
  have act: "lower action \<in> {''cancel'', ''stop''}" "\<not> starts_with (lower action) ''invalidate_''"
    using assms(2) by (auto simp: lower_cancel starts_with_def)
  have "fst (snd (dispatch_signal pid inval is_done tid ?data (dumps ?data) l))
      = (if od_get (sl_last_seen l) tid = Some (dumps ?data) then []
         else [SetPending tid (lower action) (sg_now env), CancelTask task])"
    using sess act assms(6) by (auto simp: signal_payload_def dispatch_signal_def Let_def text_or_def number_or_zero_def od_get_Cons)
  with cmds reg parse show ?thesis by blast
qed

theorem signal_reaches_task_witness:
  "\<exists>data raw. fst (snd (dispatch_signal ''p'' False (\<lambda>t. False) ''t'' data raw listener_demo))
    = [SetPending ''t'' ''cancel'' 5, CancelTask 7]"
proof -
  let ?env = "\<lparr>sg_process_id = ''p'', sg_handler = None, sg_publish_ok = True, sg_now = 5\<rparr>"
  let ?dumps = "\<lambda>d. ''raw''" and ?loads = "\<lambda>s. Some (signal_payload ''CANCEL'' ''t'' 5)"
  have v: "validate_id ''t'' ''task_id'' = None" "\<not> starts_with ''CANCEL'' ''INVALIDATE_''" by code_simp+
  have "sr_lookup serve_reg_demo ''t'' = Some (ss_init ''t'')" by code_simp
  then obtain reg where "sr_get ''t'' serve_reg_demo = (Some (ss_init ''t''), reg)"
    by (cases "sr_get ''t'' serve_reg_demo") (auto simp: sr_lookup_def)
  with v have run: "send_signal ?dumps ?env ''CANCEL'' ''t'' serve_reg_demo
      = (True, [PUBLISH (''signal_ch:'' @ ''t'') ''raw''], [], reg)"
    by (simp add: send_signal_def)
  have reg: "sl_register 10 ''t'' 7 (sl_start sl_init) = Inr listener_demo"
    by (simp add: listener_demo_def sl_register_def sl_start_def sl_init_def)
  have inv: "sl_inv listener_demo"
    by (rule sl_inv_register [OF _ reg]) (simp add: sl_inv_def sl_start_def sl_init_def)
  have l: "sl_look listener_demo ''t'' = Some 7" "sl_last_seen listener_demo = []"
    by (simp_all add: listener_demo_def sl_register_def sl_start_def sl_init_def sl_look_def od_set_def od_get_def)
  from signal_reaches_task [OF run, of ?loads listener_demo 7 "\<lambda>t. False" "''p''" False] inv l show ?thesis
    by (auto simp: lower_cancel)
qed

text \<open>
  An invalidation fans out to every other process, once. For an \<open>INVALIDATE_*\<close> action the gateway
  calls its own cache handler and publishes one message tagged with its process identifier; the
  listener of this process drops that message, the listener of any other process calls its
  handler with the action's original name and the setup.
\<close>

theorem invalidation_fans_out:
  assumes "send_signal dumps env action setup reg = (True, cmds, called, reg')"
    and "starts_with action ''INVALIDATE_''" and "\<And>c. c \<in> set action \<Longrightarrow> \<not> is_lower c"
    and "sg_publish_ok env" and "od_get (sl_last_seen l) ''_global_'' \<noteq> Some raw"
  shows "\<exists>data. cmds = [PUBLISH ''signal_ch:_global_'' (dumps data)]
    \<and> called = (if sg_handler env = None then [] else [(action, setup)])
    \<and> fst (snd (dispatch_signal pid True is_done ''_global_'' data raw l))
        = (if pid = sg_process_id env then [] else [Invalidate action setup])"
proof -
  let ?data = "[(''action'', PStr (lower action)), (''setup_id'', PStr setup),
                (''published_at_ns'', PNum (sg_now env)), (''origin'', PStr (sg_process_id env))]"
  obtain rest where "action = ''INVALIDATE_'' @ rest" using assms(2) by (auto simp: starts_with_iff)
  then have "lower action = lower ''INVALIDATE_'' @ lower rest" by (simp add: lower_def)
  moreover have "lower ''INVALIDATE_'' = ''invalidate_''" by code_simp
  ultimately have low: "starts_with (lower action) ''invalidate_''" by (simp only: starts_with_append)
  have up: "upper (lower action) = action" by (rule upper_lower) (rule assms(3))
  from assms(1,2,4) have "cmds = [PUBLISH ''signal_ch:_global_'' (dumps ?data)]"
      "called = (if sg_handler env = None then [] else [(action, setup)])"
    by (auto simp: send_signal_def Let_def split: if_splits)
  moreover have "fst (snd (dispatch_signal pid True is_done ''_global_'' ?data raw l))
      = (if pid = sg_process_id env then [] else [Invalidate action setup])"
    using assms(5) low up by (auto simp: dispatch_signal_def Let_def text_or_def od_get_Cons)
  ultimately show ?thesis by blast
qed

theorem invalidation_fans_out_witness:
  "\<exists>data. fst (snd (dispatch_signal ''q'' True (\<lambda>t. False) ''_global_'' data ''raw'' sl_init))
    = [Invalidate ''INVALIDATE_TOOLS'' ''s'']"
proof -
  let ?env = "\<lparr>sg_process_id = ''p'', sg_handler = Some True, sg_publish_ok = True, sg_now = 5\<rparr>"
  have st: "starts_with ''INVALIDATE_TOOLS'' ''INVALIDATE_''" by code_simp
  then have run: "send_signal (\<lambda>d. ''raw'') ?env ''INVALIDATE_TOOLS'' ''s'' sr_init
      = (True, [PUBLISH ''signal_ch:_global_'' ''raw''], [(''INVALIDATE_TOOLS'', ''s'')], sr_init)"
    by (simp add: send_signal_def)
  have "list_all (\<lambda>c. \<not> is_lower c) ''INVALIDATE_TOOLS''" by code_simp
  then have "\<And>c. c \<in> set ''INVALIDATE_TOOLS'' \<Longrightarrow> \<not> is_lower c" by (simp only: list_all_iff) blast
  from invalidation_fans_out [OF run st this, of sl_init "''raw''" "''q''" "\<lambda>t. False"] show ?thesis
    by (auto simp: sl_init_def)
qed

end
