(* ===== verification/Task_Session.thy ===== *)
theory Task_Session
  imports Redis_State Signal_Listener
begin

text \<open>
  One task's lifecycle: \<open>core/task_manager/task_session.py\<close> (status, cancellation, cleanup) and the
  supervisor of \<open>task_executor.py\<close>. What a handler sends is returned: commands to Redis when the
  session has a state manager, acknowledgements when it has a signal service. Times and log
  records are left out; queue items are of any type.
\<close>

section \<open>Sessions\<close>

datatype CancellationReason = COMPLETED | SUCCESS_CLEANUP | FAILURE_CLEANUP | SIGNAL_SERVICE_CANCEL
  | SIGNAL_SERVICE_STOP | GRPC_SETUP_UNAVAILABLE | GRPC_SERVICE_ERROR | TIMEOUT | SHUTDOWN | UNKNOWN

datatype SignalType = SigStart | SigStop | SigCancel | AckStart | AckCancel | AckStop

datatype status = Pending | Running | Completed | Cancelled | Failed

fun status_text :: "status \<Rightarrow> string" where
  "status_text Pending = ''pending''"
| "status_text Running = ''running''"
| "status_text Completed = ''completed''"
| "status_text Cancelled = ''cancelled''"
| "status_text Failed = ''failed''"

record 'a task_session =
  ts_task_id :: string
  ts_status :: status
  ts_queue :: "'a list"
  ts_cancelled :: bool
  ts_reason :: CancellationReason
  ts_stream_closed :: bool
  ts_last_exception :: "string option"
  ts_cleanup_done :: bool
  ts_pending :: string              \<comment> \<open>\<open>pending_signal_action\<close>\<close>
  ts_published :: real              \<comment> \<open>\<open>last_signal_published_ns\<close>\<close>
  ts_module :: bool                 \<comment> \<open>the module is still referenced\<close>
  ts_signal_service :: bool
  ts_state_manager :: bool

definition ts_init :: "string \<Rightarrow> bool \<Rightarrow> bool \<Rightarrow> 'a task_session" where
  "ts_init tid signal_service state_manager =
     \<lparr>ts_task_id = tid, ts_status = Pending, ts_queue = [], ts_cancelled = False, ts_reason = UNKNOWN,
      ts_stream_closed = False, ts_last_exception = None, ts_cleanup_done = False, ts_pending = '''',
      ts_published = 0, ts_module = True, ts_signal_service = signal_service, ts_state_manager = state_manager\<rparr>"

text \<open>\<open>set_status\<close>: memory first; then Redis, whose failure is only logged.\<close>

definition ts_set_status :: "int \<Rightarrow> status \<Rightarrow> 'a task_session \<Rightarrow> 'a task_session \<times> redis_cmd list" where
  "ts_set_status ttl v s =
     (s\<lparr>ts_status := v\<rparr>,
      if ts_state_manager s then set_status ttl (ts_task_id s) (status_text v) [] else [])"

definition ts_close_stream :: "'a task_session \<Rightarrow> 'a task_session" where
  "ts_close_stream s = s\<lparr>ts_stream_closed := True\<rparr>"

definition ts_record_exception :: "string \<Rightarrow> 'a task_session \<Rightarrow> 'a task_session" where
  "ts_record_exception msg s = s\<lparr>ts_last_exception := Some msg\<rparr>"

datatype ack = Ack SignalType CancellationReason

text \<open>
  \<open>_handle_cancel\<close> and \<open>_handle_stop\<close>: the session, the Redis commands and the acknowledgement
  handed to the signal service (sending it may fail, which is only logged). The log records at
  the end read the module, which is there until \<open>cleanup\<close>.
\<close>

definition handle_cancel ::
    "int \<Rightarrow> CancellationReason \<Rightarrow> 'a task_session \<Rightarrow> 'a task_session \<times> redis_cmd list \<times> ack list" where
  "handle_cancel ttl reason s =
     (if ts_cancelled s then (s, [], [])
      else case ts_set_status ttl Cancelled (s\<lparr>ts_reason := reason\<rparr>) of
        (s1, cmds) \<Rightarrow> (s1\<lparr>ts_cancelled := True, ts_published := 0\<rparr>, cmds,
                       if ts_signal_service s then [Ack AckCancel reason] else []))"

definition handle_stop :: "int \<Rightarrow> 'a task_session \<Rightarrow> 'a task_session \<times> redis_cmd list \<times> ack list" where
  "handle_stop ttl s =
     (if ts_cancelled s then (s, [], [])
      else case ts_set_status ttl Cancelled (s\<lparr>ts_reason := SIGNAL_SERVICE_STOP\<rparr>) of
        (s1, cmds) \<Rightarrow> (s1\<lparr>ts_cancelled := True, ts_published := 0\<rparr>, cmds,
                       if ts_signal_service s then [Ack AckStop SIGNAL_SERVICE_STOP] else []))"

text \<open>
  \<open>cleanup\<close>: the queue is drained, the context cleaned up and the module stopped (their exceptions
  are only logged), and the module dropped; the flag tells whether the module was stopped now.
\<close>

definition ts_cleanup :: "'a task_session \<Rightarrow> 'a task_session \<times> bool" where
  "ts_cleanup s =
     (if ts_cleanup_done s then (s, False)
      else (s\<lparr>ts_cleanup_done := True, ts_queue := [], ts_module := False\<rparr>, True))"

section \<open>The supervisor\<close>

text \<open>How the module's coroutine ends.\<close>

datatype coro_end = Returns | Raises string | IsCancelled

definition known_reason :: "'a task_session \<Rightarrow> 'a task_session" where
  "known_reason s = (if ts_reason s = UNKNOWN then s\<lparr>ts_reason := SIGNAL_SERVICE_CANCEL\<rparr> else s)"

definition coro_outcome ::
    "int \<Rightarrow> coro_end \<Rightarrow> 'a task_session \<Rightarrow> 'a task_session \<times> redis_cmd list \<times> ack list" where
  "coro_outcome ttl e s =
     (case e of
        Returns \<Rightarrow> (case ts_set_status ttl Completed s of (s1, cmds) \<Rightarrow> (s1\<lparr>ts_reason := COMPLETED\<rparr>, cmds, []))
      | IsCancelled \<Rightarrow>
          if ts_pending s = ''stop'' then handle_stop ttl (s\<lparr>ts_pending := ''''\<rparr>)
          else handle_cancel ttl (ts_reason (known_reason s)) (known_reason (s\<lparr>ts_pending := ''''\<rparr>))
      | Raises msg \<Rightarrow> (case ts_set_status ttl Failed s of (s1, cmds) \<Rightarrow> (ts_record_exception msg s1, cmds, [])))"

text \<open>
  \<open>_run\<close> of \<open>execute_task\<close>: the session handed to \<open>on_finalize\<close>, the Redis commands, the
  acknowledgements, and whether the wait for the stream to be closed timed out.
\<close>

definition run_task ::
    "int \<Rightarrow> coro_end \<Rightarrow> 'a task_session \<Rightarrow> 'a task_session \<times> redis_cmd list \<times> ack list \<times> bool" where
  "run_task ttl e s =
     (case ts_set_status ttl Running s of
        (s0, cmds0) \<Rightarrow> (case coro_outcome ttl e s0 of
          (s1, cmds1, acks) \<Rightarrow>
            let s2 = ts_close_stream s1 in (s2, cmds0 @ cmds1, acks, \<not> ts_stream_closed s2)))"

text \<open>What the listener's dispatch does to the session of its task.\<close>

fun apply_signal :: "signal_effect \<Rightarrow> 'a task_session \<Rightarrow> 'a task_session" where
  "apply_signal (SetPending tid action ns) s =
     (if ts_task_id s = tid then s\<lparr>ts_pending := action, ts_published := ns\<rparr> else s)"
| "apply_signal _ s = s"

lemma run_task_cancel_reason:
  "ts_pending s \<noteq> ''stop'' \<Longrightarrow> \<not> ts_cancelled s \<Longrightarrow>
    ts_reason (fst (run_task ttl IsCancelled s)) = (if ts_reason s = UNKNOWN then SIGNAL_SERVICE_CANCEL else ts_reason s)"
  by (simp add: run_task_def coro_outcome_def ts_set_status_def handle_cancel_def known_reason_def ts_close_stream_def)

lemma run_task_cleanup_done [simp]: "ts_cleanup_done (fst (run_task ttl e s)) = ts_cleanup_done s"
  by (cases e) (simp_all add: run_task_def coro_outcome_def ts_set_status_def handle_cancel_def handle_stop_def
      known_reason_def ts_close_stream_def ts_record_exception_def)

section \<open>Registration with the listener\<close>

text \<open>The tail of \<open>execute_task\<close>: a failing registration only disables signals.\<close>

definition register_signals :: "nat \<Rightarrow> 'a task_session \<Rightarrow> nat \<Rightarrow> listener option \<Rightarrow> listener option" where
  "register_signals max_tasks s task lst =
     (if \<not> ts_signal_service s then lst
      else case lst of
        None \<Rightarrow> None
      | Some l \<Rightarrow> (case sl_register max_tasks (ts_task_id s) task l of Inl e \<Rightarrow> Some l | Inr l' \<Rightarrow> Some l'))"

section \<open>Properties\<close>

text \<open>The states a session is in when its coroutine ends.\<close>

definition fresh_run :: "'a task_session \<Rightarrow> bool" where
  "fresh_run s \<longleftrightarrow> \<not> ts_cancelled s \<and> ts_module s"

text \<open>
  A task ends in exactly one way, and says which. A supervised task that was not cancelled
  before ends \<open>completed\<close> with reason \<open>COMPLETED\<close> if its coroutine returns, \<open>failed\<close> with the exception
  recorded if it raises, and \<open>cancelled\<close> if it is cancelled: by a pending \<open>stop\<close> signal with the reason
  and acknowledgement of a stop, otherwise with the reason already set (by a shutdown) or that of
  a cancel signal. Exactly one acknowledgement is sent for a cancellation and none otherwise, and
  the last status written to Redis is the one the session shows.
\<close>

theorem task_outcomes:
  assumes "run_task ttl e s = (s', cmds, acks, late)" and "fresh_run s"
    and "ts_signal_service s" and "ts_state_manager s"
  shows "(e = Returns \<longrightarrow> ts_status s' = Completed \<and> ts_reason s' = COMPLETED \<and> acks = [])
    \<and> (e = Raises msg \<longrightarrow> ts_status s' = Failed \<and> ts_last_exception s' = Some msg \<and> ts_reason s' = ts_reason s \<and> acks = [])
    \<and> (e = IsCancelled \<and> ts_pending s = ''stop''
        \<longrightarrow> ts_status s' = Cancelled \<and> ts_reason s' = SIGNAL_SERVICE_STOP \<and> acks = [Ack AckStop SIGNAL_SERVICE_STOP])
    \<and> (e = IsCancelled \<and> ts_pending s \<noteq> ''stop''
        \<longrightarrow> ts_status s' = Cancelled
          \<and> ts_reason s' = (if ts_reason s = UNKNOWN then SIGNAL_SERVICE_CANCEL else ts_reason s)
          \<and> acks = [Ack AckCancel (ts_reason s')])
    \<and> ts_stream_closed s' \<and> \<not> late
    \<and> od_get (hash_after (task_key (ts_task_id s)) cmds []) ''status'' = Some (status_text (ts_status s'))"
proof -
  have st: "od_get (hash_after (task_key tid) (set_status ttl tid v []) h) ''status'' = Some v" for tid v h
    by (simp add: set_status_hash)
  note defs = run_task_def coro_outcome_def ts_set_status_def handle_stop_def handle_cancel_def known_reason_def
    ts_close_stream_def ts_record_exception_def fresh_run_def
  show ?thesis
  proof (cases e)
    case IsCancelled
    with assms show ?thesis
      by (cases "ts_pending s = ''stop''"; cases "ts_reason s = UNKNOWN") (auto simp: defs st)
  qed (use assms in \<open>auto simp: defs st\<close>)
qed

theorem task_outcomes_witness:
  "let s = (ts_init ''t'' True True)\<lparr>ts_pending := ''stop''\<rparr> :: nat task_session in
    ts_reason (fst (run_task 60 IsCancelled s)) = SIGNAL_SERVICE_STOP"
proof -
  let ?s = "(ts_init ''t'' True True)\<lparr>ts_pending := ''stop''\<rparr> :: nat task_session"
  have run: "run_task 60 IsCancelled ?s = (fst (run_task 60 IsCancelled ?s), fst (snd (run_task 60 IsCancelled ?s)),
      fst (snd (snd (run_task 60 IsCancelled ?s))), snd (snd (snd (run_task 60 IsCancelled ?s))))"
    by simp
  have "fresh_run ?s" "ts_signal_service ?s" "ts_state_manager ?s" "ts_pending ?s = ''stop''"
    by (simp_all add: fresh_run_def ts_init_def)
  with task_outcomes [OF run this(1-3)] show ?thesis by (simp add: Let_def)
qed

definition handle :: "int \<Rightarrow> CancellationReason option \<Rightarrow> 'a task_session \<Rightarrow> 'a task_session \<times> redis_cmd list \<times> ack list" where
  "handle ttl r s = (case r of None \<Rightarrow> handle_stop ttl s | Some c \<Rightarrow> handle_cancel ttl c s)"

fun handle_all :: "int \<Rightarrow> CancellationReason option list \<Rightarrow> 'a task_session \<Rightarrow> 'a task_session \<times> ack list" where
  "handle_all ttl [] s = (s, [])"
| "handle_all ttl (r # rs) s =
     (case handle ttl r s of (s1, cmds, acks) \<Rightarrow> (case handle_all ttl rs s1 of (s2, acks') \<Rightarrow> (s2, acks @ acks')))"

lemma handle_all_cancelled: "ts_cancelled s \<Longrightarrow> handle_all ttl rs s = (s, [])"
  by (induction rs) (auto simp: handle_def handle_stop_def handle_cancel_def split: option.splits)

text \<open>
  A task is cancelled and cleaned up at most once. Whichever of the stop and cancel handlers
  run on a session, and in whatever order, the first one fixes the status and the reason and sends
  the only acknowledgement; a second cleanup does nothing, so the module is stopped once.
\<close>

theorem cancelled_once:
  assumes "\<not> ts_cancelled s"
  shows "handle_all ttl (r # rs) s = handle_all ttl [r] s
    \<and> ts_status (fst (handle_all ttl (r # rs) s)) = Cancelled
    \<and> ts_reason (fst (handle_all ttl (r # rs) s)) = (case r of None \<Rightarrow> SIGNAL_SERVICE_STOP | Some c \<Rightarrow> c)
    \<and> length (snd (handle_all ttl (r # rs) s)) = (if ts_signal_service s then 1 else 0)
    \<and> ts_cleanup (fst (ts_cleanup s)) = (fst (ts_cleanup s), False)"
proof -
  obtain s1 cmds acks where h: "handle ttl r s = (s1, cmds, acks)" by (metis prod_cases3)
  have f: "ts_cancelled s1" "ts_status s1 = Cancelled"
    "ts_reason s1 = (case r of None \<Rightarrow> SIGNAL_SERVICE_STOP | Some c \<Rightarrow> c)"
    "length acks = (if ts_signal_service s then 1 else 0)"
    using h assms
    by (auto simp: handle_def handle_stop_def handle_cancel_def ts_set_status_def split: option.splits)
  then show ?thesis by (simp add: h handle_all_cancelled ts_cleanup_def)
qed

theorem cancelled_once_witness:
  "ts_reason (fst (handle_all 60 [None, Some SHUTDOWN] (ts_init ''t'' True False :: nat task_session))) = SIGNAL_SERVICE_STOP"
proof -
  have "\<not> ts_cancelled (ts_init ''t'' True False :: nat task_session)" by (simp add: ts_init_def)
  from cancelled_once [OF this, of 60 None "[Some SHUTDOWN]"] show ?thesis by (elim conjE) (simp only: option.case)
qed

text \<open>
  Output not yet read when a task ends is dropped. The supervisor closes the stream itself
  before it waits for the stream to be closed, so that wait never waits; the cleanup it then
  runs empties the queue, whatever the consumer has not read.
\<close>

theorem unread_output_dropped:
  "\<not> snd (snd (snd (run_task ttl e s)))
    \<and> (ts_cleanup_done s = False \<longrightarrow> ts_queue (fst (ts_cleanup (fst (run_task ttl e s)))) = [])
    \<and> ts_queue (fst (run_task ttl e s)) = ts_queue s"
  by (cases e) (auto simp: run_task_def coro_outcome_def ts_set_status_def handle_stop_def handle_cancel_def
      known_reason_def ts_close_stream_def ts_record_exception_def ts_cleanup_def Let_def)

theorem unread_output_dropped_witness:
  "ts_queue (fst (ts_cleanup (fst (run_task 60 Returns ((ts_init ''t'' True False)\<lparr>ts_queue := [1, 2 :: nat]\<rparr>))))) = []"
  using unread_output_dropped [of 60 Returns "(ts_init ''t'' True False)\<lparr>ts_queue := [1, 2 :: nat]\<rparr>"]
  by (simp add: ts_init_def)

end
