(* ===== verification/Task_Manager.thy ===== *)
theory Task_Manager
  imports Task_Session "HOL-Library.Multiset"
begin

text \<open>
  \<open>core/task_manager/base_task_manager.py\<close> and \<open>local_task_manager.py\<close>: admission of tasks through
  the system gate and the execution slots, registration, cleanup, cancellation and shutdown. The
  two semaphores are their permit counts; a coroutine that waits for one is a request in the
  step relation \<open>tm_step\<close>. A session in the table stands for a task that was registered.
\<close>

section \<open>The manager\<close>

record 'a task_manager =
  tm_sessions :: "(string, 'a task_session) odict"
  tm_tasks :: "string set"
  tm_slots :: int                  \<comment> \<open>permits of \<open>_task_slot\<close>\<close>
  tm_gate :: int                   \<comment> \<open>permits of \<open>_system_gate\<close>\<close>
  tm_active :: int                 \<comment> \<open>\<open>_active_slots\<close>\<close>
  tm_waiting :: int                \<comment> \<open>\<open>_waiting_count\<close>\<close>
  tm_max :: int
  tm_max_queued :: int
  tm_shutdown_set :: bool

definition tm_init :: "int \<Rightarrow> int \<Rightarrow> 'a task_manager" where
  "tm_init max_concurrent max_queued =
     \<lparr>tm_sessions = [], tm_tasks = {}, tm_slots = max_concurrent, tm_gate = max_concurrent + max_queued,
      tm_active = 0, tm_waiting = 0, tm_max = max_concurrent, tm_max_queued = max_queued, tm_shutdown_set = False\<rparr>"

definition tm_queued :: "'a task_manager \<Rightarrow> bool" where
  "tm_queued tm \<longleftrightarrow> 0 < tm_max_queued tm"

definition tm_task_count :: "'a task_manager \<Rightarrow> nat" where
  "tm_task_count tm = length (filter (\<lambda>(tid, s). ts_status s \<in> {Pending, Running}) (tm_sessions tm))"

datatype tm_error = AlreadyExists string | MaxTasksReached | AtFullCapacity | QueueWaitExpired | StartFailed

section \<open>Admission\<close>

text \<open>\<open>_acquire_direct\<close>: one semaphore; \<open>None\<close> where the caller waits.\<close>

definition take_slot_direct :: "'a task_manager \<Rightarrow> 'a task_manager option" where
  "take_slot_direct tm =
     (if 0 < tm_slots tm then Some (tm\<lparr>tm_slots := tm_slots tm - 1, tm_active := tm_active tm + 1\<rparr>) else None)"

text \<open>\<open>_acquire_with_queue\<close>: the gate, then the slot; the waiting count spans the second wait.\<close>

definition enter_gate :: "'a task_manager \<Rightarrow> 'a task_manager option" where
  "enter_gate tm =
     (if 0 < tm_gate tm then Some (tm\<lparr>tm_gate := tm_gate tm - 1, tm_waiting := tm_waiting tm + 1\<rparr>) else None)"

definition take_slot_queued :: "'a task_manager \<Rightarrow> 'a task_manager option" where
  "take_slot_queued tm =
     (if 0 < tm_slots tm
      then Some (tm\<lparr>tm_slots := tm_slots tm - 1, tm_waiting := tm_waiting tm - 1, tm_active := tm_active tm + 1\<rparr>)
      else None)"

text \<open>A timeout or a cancellation while waiting for the slot.\<close>

definition leave_queue :: "'a task_manager \<Rightarrow> 'a task_manager" where
  "leave_queue tm = tm\<lparr>tm_gate := tm_gate tm + 1, tm_waiting := tm_waiting tm - 1\<rparr>"

definition release_admission :: "'a task_manager \<Rightarrow> 'a task_manager" where
  "release_admission tm =
     (let tm1 = tm\<lparr>tm_active := tm_active tm - 1, tm_slots := tm_slots tm + 1\<rparr>
      in if tm_queued tm then tm1\<lparr>tm_gate := tm_gate tm1 + 1\<rparr> else tm1)"

text \<open>\<open>_acquire_task_slot\<close> when nobody releases anything while it waits.\<close>

definition acquire_task_slot :: "'a task_manager \<Rightarrow> tm_error + 'a task_manager" where
  "acquire_task_slot tm =
     (if tm_queued tm then
        (case enter_gate tm of
           None \<Rightarrow> Inl AtFullCapacity
         | Some tm1 \<Rightarrow> (case take_slot_queued tm1 of None \<Rightarrow> Inl QueueWaitExpired | Some tm2 \<Rightarrow> Inr tm2))
      else (case take_slot_direct tm of None \<Rightarrow> Inl MaxTasksReached | Some tm1 \<Rightarrow> Inr tm1))"

section \<open>Registration and cleanup\<close>

definition validate_task_creation :: "string \<Rightarrow> 'a task_manager \<Rightarrow> tm_error option" where
  "validate_task_creation tid tm = (if od_has (tm_sessions tm) tid then Some (AlreadyExists tid) else None)"

definition create_session :: "string \<Rightarrow> 'a task_session \<Rightarrow> 'a task_manager \<Rightarrow> 'a task_manager" where
  "create_session tid s tm = tm\<lparr>tm_sessions := od_set tid s (tm_sessions tm)\<rparr>"

text \<open>
  \<open>_cleanup_task\<close>: the stream is closed, session and task are popped, and only the caller that
  popped the session cleans it up and gives its slot back. The session cleaned up is returned.
\<close>

definition cleanup_task :: "string \<Rightarrow> 'a task_manager \<Rightarrow> 'a task_manager \<times> 'a task_session option" where
  "cleanup_task tid tm =
     (let tm1 = tm\<lparr>tm_sessions := od_del tid (tm_sessions tm), tm_tasks := tm_tasks tm - {tid}\<rparr> in
      case od_get (tm_sessions tm) tid of
        None \<Rightarrow> (tm1, None)
      | Some s \<Rightarrow> (release_admission tm1, Some (fst (ts_cleanup (ts_close_stream s)))))"

text \<open>
  \<open>create_task\<close> once admitted: a duplicate identifier gives the admission back; a failure to start
  the supervisor cleans the registered session up.
\<close>

definition register_or_release ::
    "string \<Rightarrow> 'a task_session \<Rightarrow> bool \<Rightarrow> 'a task_manager \<Rightarrow> tm_error + 'a task_manager" where
  "register_or_release tid s started tm =
     (case validate_task_creation tid tm of
        Some e \<Rightarrow> Inl e
      | None \<Rightarrow>
          let tm1 = create_session tid s tm in
          if started then Inr (tm1\<lparr>tm_tasks := insert tid (tm_tasks tm1)\<rparr>) else Inl StartFailed)"

text \<open>The manager after that call, the exception handler included.\<close>

definition create_admitted :: "string \<Rightarrow> 'a task_session \<Rightarrow> bool \<Rightarrow> 'a task_manager \<Rightarrow> tm_error option \<times> 'a task_manager" where
  "create_admitted tid s started tm =
     (case register_or_release tid s started tm of
        Inr tm1 \<Rightarrow> (None, tm1)
      | Inl StartFailed \<Rightarrow> (Some StartFailed, fst (cleanup_task tid (create_session tid s tm)))
      | Inl e \<Rightarrow> (Some e, release_admission tm))"

definition create_task ::
    "string \<Rightarrow> 'a task_session \<Rightarrow> bool \<Rightarrow> 'a task_manager \<Rightarrow> tm_error option \<times> 'a task_manager" where
  "create_task tid s started tm =
     (case acquire_task_slot tm of
        Inl QueueWaitExpired \<Rightarrow> (Some QueueWaitExpired, tm)
      | Inl e \<Rightarrow> (Some e, tm)
      | Inr tm1 \<Rightarrow> create_admitted tid s started tm1)"

section \<open>Cancelling and shutting down\<close>

text \<open>\<open>send_signal\<close>: whether the signal service was handed the message.\<close>

definition tm_send_signal :: "string \<Rightarrow> 'a task_manager \<Rightarrow> bool" where
  "tm_send_signal tid tm = (case od_get (tm_sessions tm) tid of None \<Rightarrow> False | Some s \<Rightarrow> ts_signal_service s)"

text \<open>
  How the wait of \<open>cancel_task\<close> ends: the task ends by itself in the way given; or the deadline
  passes, in which case \<open>asyncio.wait_for\<close> cancels the task and waits for it before it raises
  \<open>TimeoutError\<close>; or an exception comes out. A supervisor that ends runs its finalizer, which is
  \<open>_cleanup_task\<close>.
\<close>

datatype cancel_wait = Ended coro_end | Expired | Failing

definition finish_task :: "int \<Rightarrow> coro_end \<Rightarrow> string \<Rightarrow> 'a task_manager \<Rightarrow> 'a task_manager \<times> 'a task_session option" where
  "finish_task ttl e tid tm =
     (case od_get (tm_sessions tm) tid of
        None \<Rightarrow> cleanup_task tid tm
      | Some s \<Rightarrow> cleanup_task tid (tm\<lparr>tm_sessions := od_set tid (fst (run_task ttl e s)) (tm_sessions tm)\<rparr>))"

text \<open>\<open>except TimeoutError\<close>: a session that is still there and has no reason gets \<open>TIMEOUT\<close>.\<close>

definition mark_timeout :: "string \<Rightarrow> 'a task_manager \<Rightarrow> 'a task_manager" where
  "mark_timeout tid tm = (case od_get (tm_sessions tm) tid of
      None \<Rightarrow> tm
    | Some s \<Rightarrow> if ts_reason s = UNKNOWN
        then tm\<lparr>tm_sessions := od_set tid (s\<lparr>ts_reason := TIMEOUT\<rparr>) (tm_sessions tm)\<rparr> else tm)"

text \<open>The result, the manager, and the session as it was cleaned up.\<close>

definition cancel_task ::
    "int \<Rightarrow> string \<Rightarrow> cancel_wait \<Rightarrow> 'a task_manager \<Rightarrow> bool \<times> 'a task_manager \<times> 'a task_session option" where
  "cancel_task ttl tid w tm =
     (if tid \<notin> tm_tasks tm then (case cleanup_task tid tm of (tm1, s) \<Rightarrow> (True, tm1, s))
      else case w of
        Ended e \<Rightarrow> (case finish_task ttl e tid tm of (tm1, s) \<Rightarrow> (True, fst (cleanup_task tid tm1), s))
      | Expired \<Rightarrow> (case finish_task ttl IsCancelled tid tm of
            (tm1, s) \<Rightarrow> (True, fst (cleanup_task tid (mark_timeout tid tm1)), s))
      | Failing \<Rightarrow> (case cleanup_task tid tm of (tm1, s) \<Rightarrow> (False, tm1, s)))"

definition clean_session ::
    "int \<Rightarrow> string \<Rightarrow> cancel_wait \<Rightarrow> bool \<Rightarrow> 'a task_manager \<Rightarrow> bool \<times> 'a task_manager" where
  "clean_session ttl tid w running tm =
     (if \<not> od_has (tm_sessions tm) tid then (False, tm)
      else if tid \<in> tm_tasks tm \<and> running
      then (case cancel_task ttl tid w tm of (r, tm1, s) \<Rightarrow> (True, tm1))
      else (True, fst (cleanup_task tid tm)))"

definition mark_shutdown :: "'a task_session \<Rightarrow> 'a task_session" where
  "mark_shutdown s = (if ts_reason s = UNKNOWN then s\<lparr>ts_reason := SHUTDOWN\<rparr> else s)"

fun cancel_all_tasks ::
    "int \<Rightarrow> (string \<times> cancel_wait) list \<Rightarrow> 'a task_manager \<Rightarrow> (string \<times> bool) list \<times> 'a task_manager" where
  "cancel_all_tasks ttl [] tm = ([], tm)"
| "cancel_all_tasks ttl ((tid, w) # ts) tm =
     (case cancel_task ttl tid w tm of
        (r, tm1, s) \<Rightarrow> (case cancel_all_tasks ttl ts tm1 of (rs, tm2) \<Rightarrow> ((tid, r) # rs, tm2)))"

definition tm_shutdown :: "int \<Rightarrow> (string \<times> cancel_wait) list \<Rightarrow> 'a task_manager \<Rightarrow> 'a task_manager" where
  "tm_shutdown ttl running tm =
     (let tm1 = tm\<lparr>tm_shutdown_set := True, tm_sessions := map (\<lambda>(tid, s). (tid, mark_shutdown s)) (tm_sessions tm)\<rparr>;
          tm2 = snd (cancel_all_tasks ttl running tm1)
      in fold (\<lambda>tid tm. fst (cleanup_task tid tm)) (map fst (tm_sessions tm2)) tm2)"

section \<open>Accounting\<close>

text \<open>
  \<open>holders\<close> requests are admitted and not yet registered, \<open>waiters\<close> are between gate and slot.
\<close>

definition tm_accounts :: "int \<Rightarrow> int \<Rightarrow> 'a task_manager \<Rightarrow> bool" where
  "tm_accounts holders waiters tm \<longleftrightarrow>
     od_wf (tm_sessions tm) \<and> 0 < tm_max tm \<and> 0 \<le> tm_max_queued tm \<and>
     0 \<le> tm_slots tm \<and> 0 \<le> holders \<and> 0 \<le> waiters \<and>
     tm_slots tm + tm_active tm = tm_max tm \<and>
     tm_active tm = int (length (tm_sessions tm)) + holders \<and>
     tm_waiting tm = waiters \<and>
     (if tm_queued tm then 0 \<le> tm_gate tm \<and> tm_gate tm + tm_waiting tm + tm_active tm = tm_max tm + tm_max_queued tm
      else waiters = 0)"

lemma tm_accounts_init: "0 < m \<Longrightarrow> 0 \<le> q \<Longrightarrow> tm_accounts 0 0 (tm_init m q)"
  by (simp add: tm_accounts_def tm_init_def tm_queued_def)

lemma accounts_direct: "tm_accounts h w tm \<Longrightarrow> \<not> tm_queued tm \<Longrightarrow> take_slot_direct tm = Some tm' \<Longrightarrow> tm_accounts (h + 1) w tm'"
  by (auto simp: tm_accounts_def take_slot_direct_def tm_queued_def split: if_splits)

lemma accounts_gate: "tm_accounts h w tm \<Longrightarrow> tm_queued tm \<Longrightarrow> enter_gate tm = Some tm' \<Longrightarrow> tm_accounts h (w + 1) tm'"
  by (auto simp: tm_accounts_def enter_gate_def tm_queued_def split: if_splits)

lemma accounts_slot: "tm_accounts h w tm \<Longrightarrow> 0 < w \<Longrightarrow> take_slot_queued tm = Some tm' \<Longrightarrow> tm_accounts (h + 1) (w - 1) tm'"
  by (auto simp: tm_accounts_def take_slot_queued_def tm_queued_def split: if_splits)

lemma accounts_leave: "tm_accounts h w tm \<Longrightarrow> 0 < w \<Longrightarrow> tm_accounts h (w - 1) (leave_queue tm)"
  by (auto simp: tm_accounts_def leave_queue_def tm_queued_def split: if_splits)

lemma accounts_release: "tm_accounts h w tm \<Longrightarrow> 0 < h \<Longrightarrow> tm_accounts (h - 1) w (release_admission tm)"
  by (auto simp: tm_accounts_def release_admission_def tm_queued_def Let_def split: if_splits)

lemma accounts_cleanup: "tm_accounts h w tm \<Longrightarrow> tm_accounts h w (fst (cleanup_task tid tm))"
proof -
  assume a: "tm_accounts h w tm"
  then have wf: "od_wf (tm_sessions tm)" by (simp add: tm_accounts_def)
  show ?thesis
  proof (cases "od_get (tm_sessions tm) tid")
    case None
    with a show ?thesis by (auto simp: cleanup_task_def Let_def tm_accounts_def tm_queued_def)
  next
    case (Some s)
    then have "tm_sessions tm \<noteq> []" by auto
    with Some wf have "int (length (od_del tid (tm_sessions tm))) = int (length (tm_sessions tm)) - 1"
      by (cases "tm_sessions tm") (auto simp: length_od_del od_has_def)
    with a Some show ?thesis
      by (auto simp: cleanup_task_def Let_def tm_accounts_def tm_queued_def release_admission_def split: if_splits)
  qed
qed

lemma accounts_create_session:
  "tm_accounts h w tm \<Longrightarrow> 0 < h \<Longrightarrow> od_get (tm_sessions tm) tid = None \<Longrightarrow> tm_accounts (h - 1) w (create_session tid s tm)"
  by (auto simp: tm_accounts_def create_session_def tm_queued_def length_od_set od_has_def)

lemma accounts_tasks: "tm_accounts h w tm \<Longrightarrow> tm_accounts h w (tm\<lparr>tm_tasks := ts\<rparr>)"
  by (auto simp: tm_accounts_def tm_queued_def)

lemma accounts_create: "tm_accounts h w tm \<Longrightarrow> 0 < h \<Longrightarrow> tm_accounts (h - 1) w (snd (create_admitted tid s started tm))"
proof -
  assume a: "tm_accounts h w tm" "0 < h"
  show ?thesis
  proof (cases "od_get (tm_sessions tm) tid")
    case (Some s0)
    with accounts_release [OF a] show ?thesis
      by (simp add: create_admitted_def register_or_release_def validate_task_creation_def od_has_def)
  next
    case None
    have c: "tm_accounts (h - 1) w (create_session tid s tm)" by (rule accounts_create_session [OF a None])
    have "tm_accounts (h - 1) w ((create_session tid s tm)\<lparr>tm_tasks := insert tid (tm_tasks (create_session tid s tm))\<rparr>)"
      using c by (rule accounts_tasks)
    with None accounts_cleanup [OF c] show ?thesis
      by (simp add: create_admitted_def register_or_release_def validate_task_creation_def od_has_def Let_def)
  qed
qed

section \<open>Concurrent callers\<close>

text \<open>
  A call of \<open>create_task\<close> waits at the gate, waits for a slot, and is then admitted; between its
  waits other calls, finalizers and cancellations run. Requests are a multiset of stages and
  identifiers.
\<close>

datatype create_pc = AtGate | AtSlot | Admitted

type_synonym 'a tm_sys = "'a task_manager \<times> (create_pc \<times> string) multiset"

inductive tm_step :: "'a tm_sys \<Rightarrow> 'a tm_sys \<Rightarrow> bool" where
  arrive: "tm_step (tm, M) (tm, add_mset (AtGate, t) M)"
| gate: "tm_queued tm \<Longrightarrow> enter_gate tm = Some tm' \<Longrightarrow> tm_step (tm, add_mset (AtGate, t) M) (tm', add_mset (AtSlot, t) M)"
| reject: "tm_step (tm, add_mset (AtGate, t) M) (tm, M)"
| slot: "take_slot_queued tm = Some tm' \<Longrightarrow> tm_step (tm, add_mset (AtSlot, t) M) (tm', add_mset (Admitted, t) M)"
| give_up: "tm_step (tm, add_mset (AtSlot, t) M) (leave_queue tm, M)"
| direct: "\<not> tm_queued tm \<Longrightarrow> take_slot_direct tm = Some tm' \<Longrightarrow>
    tm_step (tm, add_mset (AtGate, t) M) (tm', add_mset (Admitted, t) M)"
| create: "tm_step (tm, add_mset (Admitted, t) M) (snd (create_admitted t s started tm), M)"
| cleanup: "tm_step (tm, M) (fst (cleanup_task t tm), M)"

inductive tm_reach :: "int \<Rightarrow> int \<Rightarrow> 'a tm_sys \<Rightarrow> bool" for max_concurrent max_queued where
  init: "tm_reach max_concurrent max_queued (tm_init max_concurrent max_queued, {#})"
| step: "tm_reach max_concurrent max_queued x \<Longrightarrow> tm_step x y \<Longrightarrow> tm_reach max_concurrent max_queued y"

definition stage_count :: "create_pc \<Rightarrow> (create_pc \<times> string) multiset \<Rightarrow> int" where
  "stage_count p M = int (size (filter_mset (\<lambda>r. fst r = p) M))"

lemma stage_count_add [simp]: "stage_count p (add_mset (q, t) M) = (if q = p then 1 else 0) + stage_count p M"
  by (simp add: stage_count_def)

lemma stage_count_empty [simp]: "stage_count p {#} = 0"
  by (simp add: stage_count_def)

lemma stage_count_nonneg [simp]: "0 \<le> stage_count p M"
  by (simp add: stage_count_def)

definition tm_sys_inv :: "'a tm_sys \<Rightarrow> bool" where
  "tm_sys_inv x = (case x of (tm, M) \<Rightarrow> tm_accounts (stage_count Admitted M) (stage_count AtSlot M) tm)"

lemma tm_sys_inv_step: "tm_step x y \<Longrightarrow> tm_sys_inv x \<Longrightarrow> tm_sys_inv y"
proof (induction rule: tm_step.induct)
  case (slot tm tm' t M)
  then show ?case using accounts_slot [of "stage_count Admitted M" "1 + stage_count AtSlot M" tm tm']
      stage_count_nonneg [of AtSlot M] by (simp add: tm_sys_inv_def add.commute)
next
  case (give_up tm t M)
  then show ?case using accounts_leave [of "stage_count Admitted M" "1 + stage_count AtSlot M" tm]
      stage_count_nonneg [of AtSlot M] by (simp add: tm_sys_inv_def)
next
  case (gate tm tm' t M)
  then show ?case using accounts_gate [of "stage_count Admitted M" "stage_count AtSlot M" tm tm']
    by (simp add: tm_sys_inv_def add.commute)
next
  case (direct tm tm' t M)
  then show ?case using accounts_direct [of "stage_count Admitted M" "stage_count AtSlot M" tm tm']
    by (simp add: tm_sys_inv_def add.commute)
next
  case (create tm t M s started)
  then show ?case using accounts_create [of "1 + stage_count Admitted M" "stage_count AtSlot M" tm t s started]
      stage_count_nonneg [of Admitted M] by (simp add: tm_sys_inv_def)
qed (simp_all add: tm_sys_inv_def accounts_cleanup)

lemma tm_reach_inv: "tm_reach m q x \<Longrightarrow> 0 < m \<Longrightarrow> 0 \<le> q \<Longrightarrow> tm_sys_inv x"
proof (induction rule: tm_reach.induct)
  case init
  then show ?case by (simp add: tm_sys_inv_def tm_accounts_init)
next
  case (step x y)
  then show ?case using tm_sys_inv_step by blast
qed

lemma tm_limits_step: "tm_step x y \<Longrightarrow> tm_max (fst y) = tm_max (fst x) \<and> tm_max_queued (fst y) = tm_max_queued (fst x)"
  by (induction rule: tm_step.induct)
    (auto simp: enter_gate_def take_slot_queued_def leave_queue_def take_slot_direct_def create_admitted_def
      register_or_release_def create_session_def release_admission_def cleanup_task_def Let_def
      split: if_splits option.splits tm_error.splits sum.splits)

lemma tm_reach_limits: "tm_reach m q x \<Longrightarrow> tm_max (fst x) = m \<and> tm_max_queued (fst x) = q"
proof (induction rule: tm_reach.induct)
  case init
  then show ?case by (simp add: tm_init_def)
next
  case (step x y)
  then show ?case using tm_limits_step by metis
qed

text \<open>
  C18: Concurrency is bounded and slots never leak. However calls of \<open>create_task\<close> interleave with
  each other, with timeouts and cancellations while they wait, with duplicate identifiers, failing
  starts, and any number of cleanups of any task: registered tasks and admitted calls never exceed
  \<open>max_concurrent_tasks\<close>; with a queue, everything inside the gate never exceeds that plus
  \<open>max_queued_tasks\<close>; and once no call is in progress and no session is left, every slot and
  every place at the gate is free again.
\<close>

theorem admission_bounded:
  assumes "tm_reach m q (tm, M)" and "0 < m" and "0 \<le> q"
  shows "int (length (tm_sessions tm)) + stage_count Admitted M \<le> m
    \<and> (0 < q \<longrightarrow> int (length (tm_sessions tm)) + stage_count Admitted M + stage_count AtSlot M \<le> m + q)
    \<and> tm_waiting tm = stage_count AtSlot M
    \<and> (M = {#} \<and> tm_sessions tm = [] \<longrightarrow> tm_slots tm = m \<and> tm_active tm = 0 \<and> (0 < q \<longrightarrow> tm_gate tm = m + q))"
proof -
  have a: "tm_accounts (stage_count Admitted M) (stage_count AtSlot M) tm"
    using tm_reach_inv [OF assms] by (simp add: tm_sys_inv_def)
  have l: "tm_max tm = m" "tm_max_queued tm = q" using tm_reach_limits [OF assms(1)] by simp_all
  from a l show ?thesis by (auto simp: tm_accounts_def tm_queued_def)
qed

lemma tm_demo_reach:
  "tm_reach 1 1 (snd (create_admitted ''t'' (ts_init ''t'' True False) True
     (the (take_slot_queued (the (enter_gate (tm_init 1 1)))))) :: nat task_manager, {#})"
proof -
  have g: "enter_gate (tm_init 1 1 :: nat task_manager) = Some (the (enter_gate (tm_init 1 1)))"
    by (simp add: enter_gate_def tm_init_def)
  have s: "take_slot_queued (the (enter_gate (tm_init 1 1 :: nat task_manager)))
      = Some (the (take_slot_queued (the (enter_gate (tm_init 1 1)))))"
    by (simp add: enter_gate_def tm_init_def take_slot_queued_def)
  have q: "tm_queued (tm_init 1 1 :: nat task_manager)" by (simp add: tm_queued_def tm_init_def)
  note r0 = tm_reach.init [of 1 1, where 'a = nat]
  note r1 = tm_reach.step [OF r0 tm_step.arrive [of _ _ "''t''"]]
  note r2 = tm_reach.step [OF r1 tm_step.gate [OF q g]]
  note r3 = tm_reach.step [OF r2 tm_step.slot [OF s]]
  show ?thesis by (rule tm_reach.step [OF r3 tm_step.create])
qed

theorem admission_bounded_witness:
  "int (length (tm_sessions (snd (create_admitted ''t'' (ts_init ''t'' True False) True
     (the (take_slot_queued (the (enter_gate (tm_init 1 1)))))) :: nat task_manager))) \<le> 1"
  using admission_bounded [OF tm_demo_reach] by simp

section \<open>The pool of slots\<close>

definition tm_admit :: "'a task_manager \<Rightarrow> 'a task_manager option" where
  "tm_admit tm = (case acquire_task_slot tm of Inl e \<Rightarrow> None | Inr tm' \<Rightarrow> Some tm')"

text \<open>When no call waits, admission is a pool of \<open>max_concurrent_tasks\<close> slots.\<close>

definition tm_pool_inv :: "'a task_manager \<Rightarrow> bool" where
  "tm_pool_inv tm \<longleftrightarrow> od_wf (tm_sessions tm) \<and> 0 < tm_max tm \<and> 0 \<le> tm_max_queued tm \<and>
     0 \<le> tm_slots tm \<and> 0 \<le> tm_active tm \<and> tm_slots tm + tm_active tm = tm_max tm \<and>
     (tm_queued tm \<longrightarrow> tm_gate tm + tm_active tm = tm_max tm + tm_max_queued tm)"

interpretation tmp: slot_pool tm_admit release_admission tm_active tm_max tm_pool_inv
  by unfold_locales
    (auto simp: tm_pool_inv_def tm_admit_def acquire_task_slot_def tm_queued_def enter_gate_def take_slot_queued_def
      take_slot_direct_def release_admission_def Let_def split: if_splits option.splits)

text \<open>
  Capacity comes back. From a manager with no waiting call, exactly the free number of tasks
  can be admitted, the next one is refused, and giving one admission back makes room for one.
\<close>

theorem capacity_returns:
  assumes "tm_pool_inv tm" and "tm_active tm + int n = tm_max tm" and "0 < tm_max tm"
  shows "\<exists>full. iter_opt tm_admit n tm = Some full \<and> tm_active full = tm_max tm
    \<and> tm_admit full = None \<and> tm_admit (release_admission full) \<noteq> None"
proof -
  obtain full where f: "iter_opt tm_admit n tm = Some full" "tm_pool_inv full" "tm_active full = tm_active tm + int n"
    "tm_max full = tm_max tm"
    using tmp.refill [OF assms(1), of n] assms(2) by auto
  then have top: "tm_active full = tm_max full" using assms(2) by simp
  have "tm_pool_inv (release_admission full) \<and> tm_active (release_admission full) = tm_active full - 1
      \<and> tm_max (release_admission full) = tm_max full"
    using tmp.rel_ok [OF f(2)] top assms(3) f(4) by simp
  with tmp.acq_step [of "release_admission full"] top have "tm_admit (release_admission full) \<noteq> None" by auto
  with f top tmp.full_refused [OF f(2) top] show ?thesis by auto
qed

theorem capacity_returns_witness:
  "\<exists>full. iter_opt tm_admit 2 (tm_init 2 3 :: nat task_manager) = Some full \<and> tm_admit full = None"
  using capacity_returns [of "tm_init 2 3 :: nat task_manager" 2]
  by (auto simp: tm_pool_inv_def tm_init_def tm_queued_def)

section \<open>Cleanup, cancellation, shutdown\<close>

lemma cleanup_lookup: "od_get (tm_sessions (fst (cleanup_task tid tm))) k = (if k = tid then None else od_get (tm_sessions tm) k)"
  by (simp add: cleanup_task_def Let_def release_admission_def split: option.split)

lemma cleanup_wf: "od_wf (tm_sessions tm) \<Longrightarrow> od_wf (tm_sessions (fst (cleanup_task tid tm)))"
  by (simp add: cleanup_task_def Let_def release_admission_def split: option.split)

definition tm_look :: "'a task_manager \<Rightarrow> string \<Rightarrow> 'a task_session option" where
  "tm_look tm tid = od_get (tm_sessions tm) tid"

definition tm_put :: "string \<Rightarrow> 'a task_session \<Rightarrow> 'a task_manager \<Rightarrow> 'a task_manager option" where
  "tm_put tid s tm = (case register_or_release tid s True tm of Inl e \<Rightarrow> None | Inr tm' \<Rightarrow> Some tm')"

definition tm_drop :: "string \<Rightarrow> 'a task_manager \<Rightarrow> 'a task_manager" where
  "tm_drop tid tm = fst (cleanup_task tid tm)"

interpretation tmt: session_table tm_look tm_put tm_drop "\<lambda>tm. od_wf (tm_sessions tm)"
  by unfold_locales
    (auto simp: tm_look_def tm_put_def tm_drop_def cleanup_lookup cleanup_wf register_or_release_def
      validate_task_creation_def create_session_def Let_def split: option.splits if_splits)

lemma cleanup_fold: "fold (\<lambda>tid tm. fst (cleanup_task tid tm)) ks tm = fold tm_drop ks tm"
  by (rule fold_cong) (simp_all add: tm_drop_def fun_eq_iff)

lemma cancel_task_wf: "od_wf (tm_sessions tm) \<Longrightarrow> od_wf (tm_sessions (fst (snd (cancel_task ttl tid w tm))))"
  by (cases w) (auto simp: cancel_task_def finish_task_def mark_timeout_def cleanup_wf case_prod_beta split: option.split)

lemma cancel_all_wf: "od_wf (tm_sessions tm) \<Longrightarrow> od_wf (tm_sessions (snd (cancel_all_tasks ttl ts tm)))"
proof (induction ttl ts tm rule: cancel_all_tasks.induct)
  case (2 ttl tid w ts tm)
  then show ?case using cancel_task_wf [of tm ttl tid w] by (simp add: case_prod_beta prod_eq_iff)
qed simp

text \<open>
  Shutdown leaves nothing. Whatever the running tasks do when they are cancelled (end by
  themselves in any way, run into the deadline, or fail), after \<open>shutdown\<close> no session is left; a
  task cancelled by it without a reason of its own carries the reason \<open>SHUTDOWN\<close>.
\<close>

theorem shutdown_clears:
  assumes "od_wf (tm_sessions tm)"
  shows "tm_sessions (tm_shutdown ttl running tm) = []
    \<and> (ts_reason s = UNKNOWN \<and> ts_pending s \<noteq> ''stop'' \<and> \<not> ts_cancelled s
        \<longrightarrow> ts_reason (fst (run_task ttl IsCancelled (mark_shutdown s))) = SHUTDOWN)"
proof -
  let ?tm1 = "tm\<lparr>tm_shutdown_set := True, tm_sessions := map (\<lambda>(tid, s). (tid, mark_shutdown s)) (tm_sessions tm)\<rparr>"
  let ?tm2 = "snd (cancel_all_tasks ttl running ?tm1)"
  have "map fst (map (\<lambda>(tid, s). (tid, mark_shutdown s)) (tm_sessions tm)) = map fst (tm_sessions tm)" by auto
  with assms have "od_wf (tm_sessions ?tm1)" by (simp add: od_wf_def del: map_map)
  then have wf2: "od_wf (tm_sessions ?tm2)" by (rule cancel_all_wf)
  have "tm_look (fold tm_drop (map fst (tm_sessions ?tm2)) ?tm2) k = None" for k
    by (rule tmt.sweep_all [OF wf2]) (auto simp: tm_look_def od_get_None_iff)
  then have "tm_sessions (tm_shutdown ttl running tm) = []"
    unfolding tm_shutdown_def Let_def cleanup_fold tm_look_def by (rule od_emptyI)
  moreover have "ts_reason (fst (run_task ttl IsCancelled (mark_shutdown s))) = SHUTDOWN"
    if "ts_reason s = UNKNOWN" "ts_pending s \<noteq> ''stop''" "\<not> ts_cancelled s"
    using that run_task_cancel_reason [of "mark_shutdown s" ttl] by (simp add: mark_shutdown_def)
  ultimately show ?thesis by blast
qed

theorem shutdown_clears_witness:
  "tm_sessions (tm_shutdown 60 [(''t'', Expired)]
     (create_session ''t'' (ts_init ''t'' True False) (tm_init 1 1) :: nat task_manager)) = []"
proof -
  let ?tm = "create_session ''t'' (ts_init ''t'' True False) (tm_init 1 1) :: nat task_manager"
  have "od_wf (tm_sessions ?tm)" by (simp add: create_session_def tm_init_def)
  from shutdown_clears [OF this, of 60 "[(''t'', Expired)]" "ts_init ''t'' True False"] show ?thesis by (rule conjunct1)
qed

text \<open>
  A cancellation that times out is not reported as one. \<open>asyncio.wait_for\<close> cancels the task and
  lets it finish before it raises, so when \<open>cancel_task\<close> gets to mark the session with the reason
  \<open>TIMEOUT\<close> the session is already cleaned up, with the reason of a cancel signal; the reason
  \<open>TIMEOUT\<close> is never the one a session without a reason ends with.
\<close>

theorem timeout_reason_never_set:
  assumes "tid \<in> tm_tasks tm" and "od_get (tm_sessions tm) tid = Some s"
    and "ts_reason s = UNKNOWN" and "\<not> ts_cancelled s" and "ts_pending s \<noteq> ''stop''" and "\<not> ts_cleanup_done s"
  shows "\<exists>tm' s'. cancel_task ttl tid Expired tm = (True, tm', Some s')
    \<and> ts_reason s' = SIGNAL_SERVICE_CANCEL \<and> od_get (tm_sessions tm') tid = None"
proof -
  let ?s = "fst (run_task ttl IsCancelled s)"
  have r: "ts_reason ?s = SIGNAL_SERVICE_CANCEL" "\<not> ts_cleanup_done ?s"
    using assms(3-6) by (simp_all add: run_task_cancel_reason)
  let ?tm1 = "tm\<lparr>tm_sessions := od_set tid ?s (tm_sessions tm)\<rparr>"
  have c: "snd (cleanup_task tid ?tm1) = Some (fst (ts_cleanup (ts_close_stream ?s)))"
    by (simp add: cleanup_task_def)
  have "ts_reason (fst (ts_cleanup (ts_close_stream ?s))) = SIGNAL_SERVICE_CANCEL"
    using r by (simp add: ts_cleanup_def ts_close_stream_def)
  with assms(1,2) c show ?thesis
    by (simp add: cancel_task_def finish_task_def case_prod_beta cleanup_lookup)
qed

theorem timeout_reason_never_set_witness:
  "\<exists>tm' s'. cancel_task 60 ''t'' Expired
      ((create_session ''t'' (ts_init ''t'' True False) (tm_init 1 1) :: nat task_manager)\<lparr>tm_tasks := {''t''}\<rparr>) = (True, tm', Some s')
    \<and> ts_reason s' = SIGNAL_SERVICE_CANCEL \<and> od_get (tm_sessions tm') ''t'' = None"
  by (rule timeout_reason_never_set [of _ _ "ts_init ''t'' True False"])
    (simp_all add: create_session_def tm_init_def ts_init_def)

end
