(* ===== verification/Storage.thy ===== *)
theory Storage
  imports Prelude
begin

text \<open>
  Record storage: \<open>services/storage/storage_strategy.py\<close> (contexts, validation, upsert) over the
  local backend \<open>default_storage.py\<close>. The payload is of any type; \<open>validate\<close> is the pydantic
  validation of a collection's schema. Clock values and generated identifiers are arguments.
  The per-record locks make each operation atomic and are not part of the state.
\<close>

section \<open>Records and keys\<close>

datatype Context = MISSIONS | SETUP | USERS | ORGANIZATIONS | CTX_UNSPECIFIED

fun context_value :: "Context \<Rightarrow> string" where
  "context_value MISSIONS = ''mission''"
| "context_value SETUP = ''setup''"
| "context_value USERS = ''user''"
| "context_value ORGANIZATIONS = ''organization''"
| "context_value CTX_UNSPECIFIED = ''unspecified''"

datatype Visibility = VUnspecified | VPublic | VPrivate | VInternal

datatype DataType = DOutput | DView | DLogs | DOther

record 'd storage_record =
  st_context :: string
  st_collection :: string
  st_record_id :: string
  st_data :: 'd
  st_data_type :: DataType
  st_visibility :: Visibility
  st_created :: "real option"
  st_updated :: "real option"
  st_storage_id :: string

type_synonym 'd storage = "(string, 'd storage_record) odict"

definition ds_key :: "string \<Rightarrow> string \<Rightarrow> string \<Rightarrow> string" where
  "ds_key context collection record_id = context @ ''|'' @ collection @ '':'' @ record_id"

definition resolve_context :: "string \<Rightarrow> string \<Rightarrow> Context \<Rightarrow> string" where
  "resolve_context mission_id setup_version_id c = (case c of
      MISSIONS \<Rightarrow> mission_id
    | SETUP \<Rightarrow> setup_version_id
    | _ \<Rightarrow> context_value c @ '':'')"

section \<open>The local backend\<close>

datatype storage_error = AlreadyStored string | NoSchema string | InvalidData string | UpdateFailed string

definition ds_store :: "real \<Rightarrow> string \<Rightarrow> 'd storage_record \<Rightarrow> 'd storage \<Rightarrow> storage_error + ('d storage_record \<times> 'd storage)" where
  "ds_store now uuid r s =
     (let key = ds_key (st_context r) (st_collection r) (st_record_id r) in
      if od_has s key then Inl (AlreadyStored key)
      else let r' = r\<lparr>st_created := Some now, st_updated := Some now, st_storage_id := ''storage:'' @ uuid\<rparr>
           in Inr (r', od_set key r' s))"

definition ds_read :: "string \<Rightarrow> string \<Rightarrow> string \<Rightarrow> string \<Rightarrow> 'd storage \<Rightarrow> 'd storage_record option" where
  "ds_read collection record_id context storage_id s =
     (case od_get s (ds_key context collection record_id) of
        None \<Rightarrow> None
      | Some r \<Rightarrow> if storage_id \<noteq> '''' \<and> st_storage_id r \<noteq> storage_id then None else Some r)"

definition ds_update ::
    "real \<Rightarrow> string \<Rightarrow> string \<Rightarrow> 'd \<Rightarrow> string \<Rightarrow> Visibility \<Rightarrow> 'd storage \<Rightarrow> ('d storage_record \<times> 'd storage) option" where
  "ds_update now collection record_id d context vis s =
     (let key = ds_key context collection record_id in
      case od_get s key of
        None \<Rightarrow> None
      | Some r \<Rightarrow>
          let r1 = r\<lparr>st_data := d\<rparr>;
              r2 = (if vis \<noteq> VUnspecified then r1\<lparr>st_visibility := vis\<rparr> else r1);
              r3 = r2\<lparr>st_updated := Some now\<rparr>
          in Some (r3, od_set key r3 s))"

definition ds_remove :: "string \<Rightarrow> string \<Rightarrow> string \<Rightarrow> 'd storage \<Rightarrow> bool \<times> 'd storage" where
  "ds_remove collection record_id context s =
     (let key = ds_key context collection record_id in
      if od_has s key then (True, od_del key s) else (False, s))"

definition ds_list ::
    "string \<Rightarrow> string \<Rightarrow> Visibility list \<Rightarrow> string \<Rightarrow> nat \<Rightarrow> nat \<Rightarrow> 'd storage \<Rightarrow> 'd storage_record list" where
  "ds_list collection context visibilities record_id limit offset s =
     (let prefix = (if record_id \<noteq> '''' then ds_key context collection record_id else ds_key context collection '''');
          records = map snd (filter (\<lambda>(k, r). starts_with k prefix \<and> (record_id = '''' \<or> st_record_id r = record_id)) s);
          allowed = (if visibilities \<noteq> [] then filter (\<lambda>r. st_visibility r \<in> set visibilities) records else records)
      in take (if limit \<noteq> 0 then limit else 20) (drop offset allowed))"

definition ds_remove_collection :: "string \<Rightarrow> string \<Rightarrow> string \<Rightarrow> 'd storage \<Rightarrow> bool \<times> 'd storage" where
  "ds_remove_collection collection context record_id s =
     (True, filter (\<lambda>(k, r). \<not> (starts_with k (ds_key context collection '''')
                                 \<and> (record_id = '''' \<or> st_record_id r = record_id))) s)"

text \<open>
  What a save writes and a later load reads back: every field but the storage identifier. A
  record whose collection has no schema is skipped; data that no longer validates loses the file.
\<close>

definition saved :: "'d storage \<Rightarrow> 'd storage" where
  "saved s = map (\<lambda>(k, r). (k, r\<lparr>st_storage_id := ''''\<rparr>)) s"

definition ds_load :: "(string \<Rightarrow> bool) \<Rightarrow> ('d \<Rightarrow> bool) \<Rightarrow> 'd storage option \<Rightarrow> 'd storage" where
  "ds_load has_schema valid file = (case file of
      None \<Rightarrow> []
    | Some s \<Rightarrow>
        let known = filter (\<lambda>(k, r). has_schema (st_collection r)) s in
        if \<forall>(k, r) \<in> set known. valid (st_data r) then known else [])"

section \<open>The strategy\<close>

definition validate_data :: "(string \<Rightarrow> ('i \<Rightarrow> 'd option) option) \<Rightarrow> string \<Rightarrow> 'i \<Rightarrow> storage_error + 'd" where
  "validate_data config collection d =
     (case config collection of
        None \<Rightarrow> Inl (NoSchema collection)
      | Some v \<Rightarrow> (case v d of None \<Rightarrow> Inl (InvalidData collection) | Some x \<Rightarrow> Inr x))"

definition create_storage_record ::
    "string \<Rightarrow> string \<Rightarrow> 'd \<Rightarrow> DataType \<Rightarrow> string \<Rightarrow> Visibility \<Rightarrow> 'd storage_record" where
  "create_storage_record collection record_id d data_type context vis =
     \<lparr>st_context = context, st_collection = collection, st_record_id = record_id, st_data = d,
      st_data_type = data_type, st_visibility = vis, st_created = None, st_updated = None, st_storage_id = ''''\<rparr>"

definition storage_store ::
    "(string \<Rightarrow> ('i \<Rightarrow> 'd option) option) \<Rightarrow> real \<Rightarrow> string \<Rightarrow> string \<Rightarrow> string \<Rightarrow> string option \<Rightarrow> 'i \<Rightarrow> DataType
      \<Rightarrow> Visibility \<Rightarrow> string \<Rightarrow> 'd storage \<Rightarrow> storage_error + ('d storage_record \<times> 'd storage)" where
  "storage_store config now uuid new_id collection record_id d data_type vis context s =
     (let rid = (case record_id of Some r \<Rightarrow> (if r = '''' then new_id else r) | None \<Rightarrow> new_id) in
      case validate_data config collection d of
        Inl e \<Rightarrow> Inl e
      | Inr v \<Rightarrow> ds_store now uuid (create_storage_record collection rid v data_type context vis) s)"

definition storage_upsert ::
    "(string \<Rightarrow> ('i \<Rightarrow> 'd option) option) \<Rightarrow> real \<Rightarrow> string \<Rightarrow> string \<Rightarrow> string \<Rightarrow> 'i \<Rightarrow> DataType
      \<Rightarrow> Visibility \<Rightarrow> string \<Rightarrow> 'd storage \<Rightarrow> storage_error + ('d storage_record \<times> 'd storage)" where
  "storage_upsert config now uuid collection record_id d data_type vis context s =
     (case validate_data config collection d of
        Inl e \<Rightarrow> Inl e
      | Inr v \<Rightarrow>
          (case ds_read collection record_id context '''' s of
             Some r \<Rightarrow>
               (case ds_update now collection record_id v context vis s of
                  None \<Rightarrow> Inl (UpdateFailed (collection @ '':'' @ record_id))
                | Some rs \<Rightarrow> Inr rs)
           | None \<Rightarrow> ds_store now uuid (create_storage_record collection record_id v data_type context vis) s))"

section \<open>Properties\<close>

lemma ds_key_inj:
  assumes "ds_key c k r = ds_key c' k' r'"
    and "CHR ''|'' \<notin> set c" "CHR ''|'' \<notin> set c'" "CHR '':'' \<notin> set k" "CHR '':'' \<notin> set k'"
  shows "c = c' \<and> k = k' \<and> r = r'"
proof -
  have split: "a = a' \<and> b = b'" if "a @ x # b = a' @ x # b'" "x \<notin> set a" "x \<notin> set a'" for a a' b b' :: string and x
    using that
  proof (induction a arbitrary: a')
    case Nil
    then show ?case by (cases a') auto
  next
    case (Cons y ys)
    then show ?case by (cases a') auto
  qed
  from assms(1) have e: "c @ CHR ''|'' # (k @ CHR '':'' # r) = c' @ CHR ''|'' # (k' @ CHR '':'' # r')"
    by (simp add: ds_key_def)
  from split [OF e assms(2,3)] have "c = c'" and "k @ CHR '':'' # r = k' @ CHR '':'' # r'" by simp_all
  with split [OF this(2) assms(4,5)] show ?thesis by simp
qed

text \<open>Every record is stored under the key its fields give.\<close>

definition storage_wf :: "'d storage \<Rightarrow> bool" where
  "storage_wf s \<longleftrightarrow> od_wf s \<and> (\<forall>(k, r) \<in> set s. k = ds_key (st_context r) (st_collection r) (st_record_id r))"

lemma storage_wf_set: "storage_wf s \<Longrightarrow> k = ds_key (st_context r) (st_collection r) (st_record_id r) \<Longrightarrow> storage_wf (od_set k r s)"
proof -
  assume a: "storage_wf s" "k = ds_key (st_context r) (st_collection r) (st_record_id r)"
  have wf: "od_wf (od_set k r s)" using a by (simp add: storage_wf_def)
  have "k' = ds_key (st_context r') (st_collection r') (st_record_id r')" if "(k', r') \<in> set (od_set k r s)" for k' r'
  proof -
    from that wf have "od_get (od_set k r s) k' = Some r'" by (simp only: od_get_Some_iff)
    then show ?thesis using a by (auto simp: storage_wf_def od_get_Some_iff split: if_splits)
  qed
  with wf show ?thesis by (auto simp: storage_wf_def)
qed

lemma upsert_new:
  assumes "storage_upsert config now uuid collection rid d dt vis context s = Inr (r, s')"
    and "od_get s (ds_key context collection rid) = None"
  obtains v where "validate_data config collection d = Inr v"
    and "r = (create_storage_record collection rid v dt context vis)\<lparr>st_created := Some now, st_updated := Some now, st_storage_id := ''storage:'' @ uuid\<rparr>"
    and "s' = od_set (ds_key context collection rid) r s"
proof -
  from assms obtain v where v: "validate_data config collection d = Inr v"
    by (cases "validate_data config collection d") (auto simp: storage_upsert_def)
  with assms have "ds_store now uuid (create_storage_record collection rid v dt context vis) s = Inr (r, s')"
    by (simp add: storage_upsert_def ds_read_def)
  with assms(2) have "(create_storage_record collection rid v dt context vis)\<lparr>st_created := Some now, st_updated := Some now, st_storage_id := ''storage:'' @ uuid\<rparr> = r
      \<and> od_set (ds_key context collection rid) r s = s'"
    by (auto simp: ds_store_def od_has_def Let_def create_storage_record_def)
  then show ?thesis using v by (intro that) auto
qed

lemma upsert_old:
  assumes "storage_upsert config now uuid collection rid d dt vis context s = Inr (r, s')"
    and "od_get s (ds_key context collection rid) = Some old"
  obtains v where "validate_data config collection d = Inr v"
    and "r = (if vis \<noteq> VUnspecified then old\<lparr>st_data := v, st_visibility := vis\<rparr> else old\<lparr>st_data := v\<rparr>)\<lparr>st_updated := Some now\<rparr>"
    and "s' = od_set (ds_key context collection rid) r s"
proof -
  from assms obtain v where v: "validate_data config collection d = Inr v"
    by (cases "validate_data config collection d") (auto simp: storage_upsert_def)
  from assms v have "ds_update now collection rid v context vis s = Some (r, s')"
    by (simp add: storage_upsert_def ds_read_def split: option.splits)
  with assms(2) have "s' = od_set (ds_key context collection rid) r s"
    and "r = (if vis \<noteq> VUnspecified then old\<lparr>st_data := v, st_visibility := vis\<rparr> else old\<lparr>st_data := v\<rparr>)\<lparr>st_updated := Some now\<rparr>"
    by (auto simp: ds_update_def Let_def)
  then show ?thesis using v by (intro that) auto
qed

lemma storage_wf_upsert:
  assumes a: "storage_wf s" and u: "storage_upsert config now uuid collection rid d dt vis context s = Inr (r, s')"
  shows "storage_wf s'"
proof (cases "od_get s (ds_key context collection rid)")
  case None
  from upsert_new [OF u None] obtain v where
    "r = (create_storage_record collection rid v dt context vis)\<lparr>st_created := Some now, st_updated := Some now, st_storage_id := ''storage:'' @ uuid\<rparr>"
    and s': "s' = od_set (ds_key context collection rid) r s" by metis
  then show ?thesis unfolding s' by (intro storage_wf_set a) (simp add: create_storage_record_def)
next
  case (Some old)
  then have k: "ds_key context collection rid = ds_key (st_context old) (st_collection old) (st_record_id old)"
    using a by (auto simp: storage_wf_def od_get_Some_iff)
  from upsert_old [OF u Some] obtain v where
    "r = (if vis \<noteq> VUnspecified then old\<lparr>st_data := v, st_visibility := vis\<rparr> else old\<lparr>st_data := v\<rparr>)\<lparr>st_updated := Some now\<rparr>"
    and s': "s' = od_set (ds_key context collection rid) r s" by metis
  with k show ?thesis unfolding s' by (intro storage_wf_set a) (cases "vis = VUnspecified"; simp)
qed

text \<open>
  Upsert writes what is read back. After a successful upsert, reading the record gives the
  validated data; the creation date and the storage identifier of an existing record are kept,
  an unspecified visibility leaves the old one; every record under another key is unchanged; and a
  collection without a schema or data that does not validate changes nothing.
\<close>

theorem upsert_then_read:
  assumes "storage_upsert config now uuid collection rid d dt vis context s = Inr (r, s')"
  shows "\<exists>v. validate_data config collection d = Inr v \<and> st_data r = v
    \<and> ds_read collection rid context '''' s' = Some r \<and> st_updated r = Some now
    \<and> (\<forall>old. ds_read collection rid context '''' s = Some old \<longrightarrow> st_created r = st_created old
          \<and> st_storage_id r = st_storage_id old \<and> (vis = VUnspecified \<longrightarrow> st_visibility r = st_visibility old))
    \<and> (ds_read collection rid context '''' s = None \<longrightarrow> st_created r = Some now \<and> st_visibility r = vis)
    \<and> (\<forall>c k i. ds_key c k i \<noteq> ds_key context collection rid \<longrightarrow> ds_read k i c sid s' = ds_read k i c sid s)"
proof (cases "od_get s (ds_key context collection rid)")
  case None
  from upsert_new [OF assms None] obtain v where v: "validate_data config collection d = Inr v"
    and r: "r = (create_storage_record collection rid v dt context vis)\<lparr>st_created := Some now, st_updated := Some now, st_storage_id := ''storage:'' @ uuid\<rparr>"
    and s': "s' = od_set (ds_key context collection rid) r s" .
  then have "st_data r = v \<and> st_updated r = Some now \<and> st_created r = Some now \<and> st_visibility r = vis"
    by (simp add: create_storage_record_def)
  with v None show ?thesis unfolding s' by (simp add: ds_read_def)
next
  case (Some old)
  from upsert_old [OF assms Some] obtain v where v: "validate_data config collection d = Inr v"
    and r: "r = (if vis \<noteq> VUnspecified then old\<lparr>st_data := v, st_visibility := vis\<rparr> else old\<lparr>st_data := v\<rparr>)\<lparr>st_updated := Some now\<rparr>"
    and s': "s' = od_set (ds_key context collection rid) r s" .
  from r have "st_data r = v \<and> st_updated r = Some now \<and> st_created r = st_created old \<and> st_storage_id r = st_storage_id old
      \<and> (vis = VUnspecified \<longrightarrow> st_visibility r = st_visibility old)"
    by simp
  with v Some show ?thesis unfolding s' by (simp add: ds_read_def)
qed

definition config_demo :: "string \<Rightarrow> (nat \<Rightarrow> nat option) option" where
  "config_demo c = Some Some"

theorem upsert_then_read_witness:
  "\<exists>r s'. storage_upsert config_demo 7 ''u'' ''c'' ''i'' 5 DOutput VPublic ''m'' [] = Inr (r, s')
    \<and> ds_read ''c'' ''i'' ''m'' '''' s' = Some r \<and> st_data r = 5"
proof -
  obtain r s' where u: "storage_upsert config_demo 7 ''u'' ''c'' ''i'' 5 DOutput VPublic ''m'' [] = Inr (r, s')"
    by (simp add: storage_upsert_def validate_data_def config_demo_def ds_read_def ds_store_def od_has_def Let_def)
  from upsert_then_read [OF u] u show ?thesis
    by (auto simp: validate_data_def config_demo_def)
qed

lemma map_snd_filter: "map snd (filter (\<lambda>(k, r). Q r) t) = filter Q (map snd t)"
  by (induction t) auto

lemma ds_list_all:
  assumes "storage_wf s" and "CHR ''|'' \<notin> set c" and "CHR '':'' \<notin> set k" and "length s \<le> limit" and "limit \<noteq> 0"
    and "\<forall>(key, r) \<in> set s. CHR ''|'' \<notin> set (st_context r) \<and> CHR '':'' \<notin> set (st_collection r)"
  shows "ds_list k c [] '''' limit 0 s = filter (\<lambda>r. st_context r = c \<and> st_collection r = k) (map snd s)
    \<and> map snd (snd (ds_remove_collection k c '''' s)) = filter (\<lambda>r. \<not> (st_context r = c \<and> st_collection r = k)) (map snd s)"
proof -
  have here: "starts_with key (ds_key c k '''') \<longleftrightarrow> st_context r = c \<and> st_collection r = k" if "(key, r) \<in> set s" for key r
  proof
    assume "starts_with key (ds_key c k '''')"
    then obtain i where "key = ds_key c k i" by (auto simp: starts_with_iff ds_key_def)
    moreover have "key = ds_key (st_context r) (st_collection r) (st_record_id r)"
      using assms(1) that by (auto simp: storage_wf_def)
    ultimately have eq: "ds_key (st_context r) (st_collection r) (st_record_id r) = ds_key c k i" by (simp only:)
    from assms(6) that have "CHR ''|'' \<notin> set (st_context r)" "CHR '':'' \<notin> set (st_collection r)" by auto
    from ds_key_inj [OF eq this(1) assms(2) this(2) assms(3)] show "st_context r = c \<and> st_collection r = k"
      by blast
  next
    assume "st_context r = c \<and> st_collection r = k"
    then have "key = ds_key c k '''' @ st_record_id r"
      using assms(1) that by (auto simp: storage_wf_def ds_key_def)
    then show "starts_with key (ds_key c k '''')" by simp
  qed
  have f: "map snd (filter (\<lambda>(key, r). P (starts_with key (ds_key c k ''''))) s) = filter (\<lambda>r. P (st_context r = c \<and> st_collection r = k)) (map snd s)"
    (is "map snd (filter ?lhs s) = filter ?rhs (map snd s)") for P
  proof -
    have "?lhs p = (case p of (key, r) \<Rightarrow> ?rhs r)" if "p \<in> set s" for p
    proof (cases p)
      case (Pair key r)
      with here [of key r] that show ?thesis by (simp only: prod.case)
    qed
    then have "filter ?lhs s = filter (\<lambda>(key, r). ?rhs r) s" by (rule filter_cong [OF refl])
    then show ?thesis by (simp only: map_snd_filter)
  qed
  have len: "length (filter (\<lambda>r. st_context r = c \<and> st_collection r = k) (map snd s)) \<le> limit"
    using assms(4) by (intro order_trans [OF length_filter_le]) simp
  have "ds_list k c [] '''' limit 0 s = take limit (map snd (filter (\<lambda>(key, r). starts_with key (ds_key c k '''')) s))"
    using assms(5) by (simp add: ds_list_def)
  also have "\<dots> = take limit (filter (\<lambda>r. st_context r = c \<and> st_collection r = k) (map snd s))"
    by (simp only: f [of "\<lambda>b. b"])
  also have "\<dots> = filter (\<lambda>r. st_context r = c \<and> st_collection r = k) (map snd s)"
    using len by (rule take_all)
  finally have listed: "ds_list k c [] '''' limit 0 s = filter (\<lambda>r. st_context r = c \<and> st_collection r = k) (map snd s)" .
  have "map snd (snd (ds_remove_collection k c '''' s)) = map snd (filter (\<lambda>(key, r). \<not> starts_with key (ds_key c k '''')) s)"
    by (simp add: ds_remove_collection_def)
  with listed show ?thesis by (simp only: f [of Not] simp_thms)
qed

text \<open>
  A listing is exact for names that do not contain the separators. If no context contains
  \<open>|\<close> and no collection contains \<open>:\<close>, listing a collection (without a page limit in the way) gives
  exactly the records stored in that context and collection, and wiping it removes exactly those.
\<close>

theorem listing_exact:
  assumes "storage_wf s" and "CHR ''|'' \<notin> set c" and "CHR '':'' \<notin> set k" and "length s \<le> limit" and "limit \<noteq> 0"
    and "\<forall>(key, r) \<in> set s. CHR ''|'' \<notin> set (st_context r) \<and> CHR '':'' \<notin> set (st_collection r)"
  shows "ds_list k c [] '''' limit 0 s = filter (\<lambda>r. st_context r = c \<and> st_collection r = k) (map snd s)
    \<and> map snd (snd (ds_remove_collection k c '''' s)) = filter (\<lambda>r. \<not> (st_context r = c \<and> st_collection r = k)) (map snd s)"
  by (rule ds_list_all [OF assms])

definition rec_demo :: "string \<Rightarrow> string \<Rightarrow> nat storage_record" where
  "rec_demo k i = create_storage_record k i 1 DOutput ''m'' VPublic"

definition storage_demo :: "nat storage" where
  "storage_demo = [(ds_key ''m'' ''a'' ''x'', rec_demo ''a'' ''x''), (ds_key ''m'' ''b'' ''y'', rec_demo ''b'' ''y'')]"

theorem listing_exact_witness:
  "ds_list ''a'' ''m'' [] '''' 2 0 storage_demo = [rec_demo ''a'' ''x'']"
proof -
  have "storage_wf storage_demo \<and> (\<forall>(key, r) \<in> set storage_demo. CHR ''|'' \<notin> set (st_context r) \<and> CHR '':'' \<notin> set (st_collection r))"
    by (simp add: storage_wf_def od_wf_def storage_demo_def rec_demo_def create_storage_record_def ds_key_def)
  moreover have "length storage_demo \<le> 2" by (simp add: storage_demo_def)
  ultimately show ?thesis
    using listing_exact [of storage_demo "''m''" "''a''" 2]
    by (simp add: storage_demo_def rec_demo_def create_storage_record_def)
qed

text \<open>
  Collections whose names extend one another are mixed up. A record of the collection
  \<open>k:sub\<close> is stored under a key that starts with the prefix of collection \<open>k\<close>: listing \<open>k\<close> returns it,
  wiping \<open>k\<close> deletes it, and it blocks the storage of the record \<open>sub:i\<close> of \<open>k\<close> as already existing.
\<close>

theorem collections_leak:
  assumes "r = create_storage_record (k @ '':'' @ sub) i d dt c vis"
    and "ds_store now uuid r [] = Inr (r', s)"
  shows "ds_list k c [] '''' 0 0 s = [r'] \<and> st_collection r' \<noteq> k
    \<and> snd (ds_remove_collection k c '''' s) = []
    \<and> ds_store now' uuid' (create_storage_record k (sub @ '':'' @ i) d' dt c vis) s = Inl (AlreadyStored (ds_key c k (sub @ '':'' @ i)))"
proof -
  let ?key = "ds_key c (k @ '':'' @ sub) i"
  have s: "s = [(?key, r')]" and coll: "st_collection r' = k @ '':'' @ sub"
    using assms by (auto simp: ds_store_def create_storage_record_def Let_def od_has_def od_set_def)
  have key: "?key = ds_key c k '''' @ (sub @ '':'' @ i)" "?key = ds_key c k (sub @ '':'' @ i)" by (simp_all add: ds_key_def)
  have st: "starts_with ?key (ds_key c k '''')" unfolding key(1) by (rule starts_with_append)
  have "ds_list k c [] '''' 0 0 s = [r']" using st by (simp add: ds_list_def s)
  moreover have "snd (ds_remove_collection k c '''' s) = []" using st by (simp add: ds_remove_collection_def s)
  moreover have "od_has s (ds_key c k (sub @ '':'' @ i))" using key(2) by (simp add: s od_has_def od_get_def)
  ultimately show ?thesis using coll by (simp add: ds_store_def create_storage_record_def)
qed

theorem collections_leak_witness:
  "\<exists>r' s. ds_store 0 ''u'' (create_storage_record ''a:b'' ''c'' (1::nat) DOutput ''m'' VPublic) [] = Inr (r', s)
    \<and> ds_list ''a'' ''m'' [] '''' 0 0 s = [r'] \<and> st_collection r' \<noteq> ''a''"
proof -
  let ?r = "create_storage_record (''a'' @ '':'' @ ''b'') ''c'' (1::nat) DOutput ''m'' VPublic"
  obtain r' s where st: "ds_store 0 ''u'' ?r [] = Inr (r', s)"
    by (simp add: ds_store_def od_has_def Let_def)
  from collections_leak [OF refl st] st show ?thesis by auto
qed

text \<open>
  A storage identifier does not survive a restart. Saving the file and loading it back keeps
  every field of every record but the storage identifier, so the record just stored can no longer be
  read by the identifier the store returned.
\<close>

theorem storage_id_lost_on_reload:
  assumes "ds_store now uuid r [] = Inr (r', s)" and "has_schema (st_collection r)" and "valid (st_data r)"
  shows "ds_load has_schema valid (Some (saved s)) = [(ds_key (st_context r) (st_collection r) (st_record_id r), r'\<lparr>st_storage_id := ''''\<rparr>)]
    \<and> ds_read (st_collection r) (st_record_id r) (st_context r) (st_storage_id r') s = Some r'
    \<and> ds_read (st_collection r) (st_record_id r) (st_context r) (st_storage_id r')
        (ds_load has_schema valid (Some (saved s))) = None"
  using assms by (auto simp: ds_store_def ds_load_def saved_def ds_read_def Let_def od_has_def od_set_def od_get_def)

theorem storage_id_lost_on_reload_witness:
  "\<exists>r' s. ds_store 0 ''u'' (rec_demo ''a'' ''x'') [] = Inr (r', s)
    \<and> ds_read ''a'' ''x'' ''m'' (st_storage_id r') (ds_load (\<lambda>c. True) (\<lambda>d. True) (Some (saved s))) = None"
proof -
  obtain r' s where st: "ds_store 0 ''u'' (rec_demo ''a'' ''x'') [] = Inr (r', s)"
    by (simp add: ds_store_def od_has_def Let_def)
  from storage_id_lost_on_reload [OF st, of "\<lambda>c. True" "\<lambda>d. True"] st show ?thesis
    by (auto simp: rec_demo_def create_storage_record_def)
qed

end
