(* ===== verification/Communication.thy ===== *)
theory Communication
  imports M2m_Registry Grpc_Client Validators
begin

text \<open>
  The caller's side of module-to-module calls, \<open>services/communication/grpc_communication.py\<close>:
  \<open>call_module\<close> over the registry of outbound calls, and the pooled channels. What the backend, the
  target and the queue give at each wait are inputs; the frames yielded, the outcomes recorded on
  the target's breaker and the \<open>CANCEL\<close> signals sent are results. Timers and log records are left out.
\<close>

section \<open>A call\<close>

datatype call_exc = NotWired | BreakerConfig cb_error | TargetUnavailable | AtCapacity | NoBackend
  | AssociateFailed | NoTaskId | ChannelFailed | StartRpcFailed | StartRejected | CallTimeout
  | CallbackFailed | CallCancelled | GeneratorClosed

datatype associate_answer = Minted string | AssociateRpc | AssociateCancelled

datatype start_answer = Accepts | Rejects | StartRpc | StartCancelled

text \<open>What the caller does with an item: the callback and the \<open>yield\<close> may each end the call.\<close>

datatype item_fate = Consumed | CallbackRaises | CallbackCancelled | ClosedAtYield | CancelledAtYield

datatype call_event = QItem pstruct item_fate | QEnd | QTimeout | QCancelled

datatype breaker_mark = MarkSuccess | MarkFailure

definition is_fatal_item :: "pstruct \<Rightarrow> bool" where
  "is_fatal_item d \<longleftrightarrow> root_protocol d = ''stream.error'' \<and> root_fatal d"

text \<open>
  The loop over the output queue: items yielded, outcomes recorded, and how it ended (\<open>None\<close>: it
  still waits; \<open>Some None\<close>: it returned).
\<close>

fun call_loop :: "bool \<Rightarrow> call_event list \<Rightarrow> pstruct list \<times> breaker_mark list \<times> call_exc option option" where
  "call_loop err [] = ([], [], None)"
| "call_loop err (QEnd # es) = ([], [if err then MarkFailure else MarkSuccess], Some None)"
| "call_loop err (QTimeout # es) = ([], [MarkFailure], Some (Some CallTimeout))"
| "call_loop err (QCancelled # es) = ([], [], Some (Some CallCancelled))"
| "call_loop err (QItem d CallbackRaises # es) = ([], [], Some (Some CallbackFailed))"
| "call_loop err (QItem d CallbackCancelled # es) = ([], [], Some (Some CallCancelled))"
| "call_loop err (QItem d ClosedAtYield # es) = ([d], [], Some (Some GeneratorClosed))"
| "call_loop err (QItem d CancelledAtYield # es) = ([d], [], Some (Some CallCancelled))"
| "call_loop err (QItem d Consumed # es) =
     (case call_loop (err \<or> is_fatal_item d) es of (ds, ms, out) \<Rightarrow> (d # ds, ms, out))"

record call_env =
  ce_wired :: bool
  ce_target :: string
  ce_fail_max :: int
  ce_reset_timeout :: real
  ce_ttl :: real
  ce_queue_max :: nat
  ce_query :: pstruct
  ce_setup_id :: string
  ce_mission_id :: string
  ce_now :: real                   \<comment> \<open>when the breaker is looked at\<close>
  ce_registered_at :: real
  ce_marked_at :: real             \<comment> \<open>when an outcome is recorded\<close>
  ce_backend :: bool
  ce_associate :: associate_answer
  ce_channel_ok :: bool
  ce_start :: start_answer
  ce_events :: "call_event list"

record call_result =
  cr_yielded :: "pstruct list"
  cr_marks :: "breaker_mark list"
  cr_outcome :: "call_exc option option"
  cr_signals :: "string list"
  cr_reg :: m2m_registry

definition call_entry :: "call_env \<Rightarrow> string \<Rightarrow> m2m_entry" where
  "call_entry env tid = \<lparr>me_task_id = tid, me_query = ce_query env, me_queue = [], me_queue_max = ce_queue_max env,
     me_expires_at = ce_registered_at env + ce_ttl env, me_target_key = ce_target env,
     me_setup_id = ce_setup_id env, me_mission_id = ce_mission_id env\<rparr>"

text \<open>The breaker object of a target, as long as the registry still holds it.\<close>

definition on_breaker :: "string \<Rightarrow> (circuit_breaker \<Rightarrow> circuit_breaker) \<Rightarrow> m2m_registry \<Rightarrow> m2m_registry" where
  "on_breaker key f r = (case od_get (mr_breakers r) key of
      None \<Rightarrow> r | Some cb \<Rightarrow> r\<lparr>mr_breakers := od_set key (f cb) (mr_breakers r)\<rparr>)"

definition apply_mark :: "real \<Rightarrow> string \<Rightarrow> breaker_mark \<Rightarrow> m2m_registry \<Rightarrow> m2m_registry" where
  "apply_mark now key mk r = on_breaker key (case mk of MarkSuccess \<Rightarrow> cb_record_success | MarkFailure \<Rightarrow> cb_record_failure now) r"

definition call_finish :: "string option \<Rightarrow> m2m_registry \<Rightarrow> m2m_registry" where
  "call_finish registered r =
     mr_release_slot (case registered of None \<Rightarrow> r | Some tid \<Rightarrow> snd (mr_unregister tid r))"

definition call_fails :: "call_exc \<Rightarrow> string option \<Rightarrow> m2m_registry \<Rightarrow> call_result" where
  "call_fails e registered r =
     \<lparr>cr_yielded = [], cr_marks = [], cr_outcome = Some (Some e), cr_signals = [], cr_reg = call_finish registered r\<rparr>"

text \<open>From the registration of the entry on: the \<open>StartStream\<close> call, the loop, and both \<open>finally\<close> blocks.\<close>

definition call_stream :: "call_env \<Rightarrow> string \<Rightarrow> m2m_registry \<Rightarrow> call_result" where
  "call_stream env tid r =
     (case (case ce_start env of
              StartRpc \<Rightarrow> ([], [MarkFailure], Some (Some StartRpcFailed))
            | Rejects \<Rightarrow> ([], [MarkFailure], Some (Some StartRejected))
            | StartCancelled \<Rightarrow> ([], [], Some (Some CallCancelled))
            | Accepts \<Rightarrow> call_loop False (ce_events env)) of
        (ds, ms, out) \<Rightarrow>
          let r1 = fold (apply_mark (ce_marked_at env) (ce_target env)) ms r in
          \<lparr>cr_yielded = ds, cr_marks = ms, cr_outcome = out,
           cr_signals = (if out = Some (Some CallCancelled) then [tid] else []),
           cr_reg = (if out = None then r1 else call_finish (Some tid) r1)\<rparr>)"

text \<open>Once the slot is held.\<close>

definition call_body :: "call_env \<Rightarrow> m2m_registry \<Rightarrow> call_result" where
  "call_body env r =
     (if \<not> ce_backend env then call_fails NoBackend None r
      else case ce_associate env of
        AssociateRpc \<Rightarrow> call_fails AssociateFailed None r
      | AssociateCancelled \<Rightarrow> call_fails CallCancelled None r
      | Minted tid \<Rightarrow>
          if tid = '''' then call_fails NoTaskId None r
          else if \<not> ce_channel_ok env then call_fails ChannelFailed None r
          else call_stream env tid (mr_register (call_entry env tid) r))"

definition call_refused :: "call_exc \<Rightarrow> m2m_registry \<Rightarrow> call_result" where
  "call_refused e r = \<lparr>cr_yielded = [], cr_marks = [], cr_outcome = Some (Some e), cr_signals = [], cr_reg = r\<rparr>"

definition call_module :: "call_env \<Rightarrow> m2m_registry \<Rightarrow> call_result" where
  "call_module env r =
     (if \<not> ce_wired env then call_refused NotWired r
      else case mr_breaker_for (ce_fail_max env) (ce_reset_timeout env) (ce_target env) r of
        Inl e \<Rightarrow> call_refused (BreakerConfig e) r
      | Inr (cb, r1) \<Rightarrow>
          let r2 = on_breaker (ce_target env) (cb_observe (ce_now env)) r1 in
          if cb_state (cb_observe (ce_now env) cb) = OPEN then call_refused TargetUnavailable r2
          else case mr_acquire_slot r2 of
            Inl e \<Rightarrow> call_refused AtCapacity r2
          | Inr r3 \<Rightarrow> call_body env r3)"

section \<open>What a call leaves behind\<close>

lemma on_breaker_fields [simp]:
  "mr_entries (on_breaker key f r) = mr_entries r" "mr_permits (on_breaker key f r) = mr_permits r"
  "mr_capacity (on_breaker key f r) = mr_capacity r"
  by (simp_all add: on_breaker_def split: option.split)

lemma on_breaker_inv [simp]: "mr_inv r \<Longrightarrow> mr_inv (on_breaker key f r)"
  by (auto simp: on_breaker_def mr_inv_def length_od_set od_has_def split: option.split)

lemma apply_mark_fields [simp]:
  "mr_entries (apply_mark now key mk r) = mr_entries r" "mr_permits (apply_mark now key mk r) = mr_permits r"
  "mr_capacity (apply_mark now key mk r) = mr_capacity r"
  by (simp_all add: apply_mark_def)

lemma apply_mark_inv [simp]: "mr_inv r \<Longrightarrow> mr_inv (apply_mark now key mk r)"
  by (simp add: apply_mark_def)

lemma apply_marks [simp]:
  "mr_entries (fold (apply_mark now key) ms r) = mr_entries r"
  "mr_permits (fold (apply_mark now key) ms r) = mr_permits r"
  "mr_capacity (fold (apply_mark now key) ms r) = mr_capacity r"
  "mr_inv r \<Longrightarrow> mr_inv (fold (apply_mark now key) ms r)"
  by (induction ms arbitrary: r) simp_all

lemma od_del_set_new: "od_get d k = None \<Longrightarrow> od_del k (od_set k v d) = d"
proof -
  assume n: "od_get d k = None"
  have "od_del k (d @ [(k, v)]) = od_del k d"
    by (induction d) (auto simp: od_del_def)
  with n show ?thesis by (simp add: od_set_new)
qed

lemma call_loop_spec:
  "call_loop err es = (ds, ms, out) \<Longrightarrow>
    length ms \<le> 1 \<and> (out = None \<longrightarrow> ms = [])
    \<and> (ms = [MarkSuccess] \<longleftrightarrow> out = Some None \<and> \<not> err \<and> \<not> (\<exists>d\<in>set ds. is_fatal_item d))"
proof (induction err es arbitrary: ds ms out rule: call_loop.induct)
  case (9 err d es)
  obtain ds' ms' out' where l: "call_loop (err \<or> is_fatal_item d) es = (ds', ms', out')" by (metis prod_cases3)
  from "9.IH" [OF l] "9.prems" l show ?case by auto
qed (auto split: if_splits)

text \<open>A call that holds a slot, from its registration on.\<close>

lemma call_stream_result:
  assumes "mr_inv r0" and "0 < mr_capacity r0 - mr_permits r0" and "od_get (mr_entries r0) tid = None"
    and "res = call_stream env tid (mr_register (call_entry env tid) r0)"
  shows "mr_inv (cr_reg res)
    \<and> (cr_outcome res \<noteq> None \<longrightarrow> mr_permits (cr_reg res) = mr_permits r0 + 1 \<and> mr_entries (cr_reg res) = mr_entries r0)
    \<and> (cr_outcome res = None \<longrightarrow> mr_permits (cr_reg res) = mr_permits r0 \<and> mr_get (cr_reg res) tid = Some (call_entry env tid))
    \<and> length (cr_marks res) \<le> 1
    \<and> (cr_marks res = [MarkSuccess] \<longleftrightarrow> cr_outcome res = Some None \<and> \<not> (\<exists>d\<in>set (cr_yielded res). is_fatal_item d))
    \<and> cr_signals res = (if cr_outcome res = Some (Some CallCancelled) then [tid] else [])"
proof -
  let ?r = "mr_register (call_entry env tid) r0"
  have inv: "mr_inv ?r" and cap: "mr_permits ?r = mr_permits r0" "mr_capacity ?r = mr_capacity r0"
    and ent: "od_get (mr_entries ?r) tid = Some (call_entry env tid)" "od_del tid (mr_entries ?r) = mr_entries r0"
    using assms by (auto simp: mr_register_def mr_inv_def call_entry_def od_del_set_new)
  obtain ds ms out where l: "(case ce_start env of
              StartRpc \<Rightarrow> ([], [MarkFailure], Some (Some StartRpcFailed))
            | Rejects \<Rightarrow> ([], [MarkFailure], Some (Some StartRejected))
            | StartCancelled \<Rightarrow> ([], [], Some (Some CallCancelled))
            | Accepts \<Rightarrow> call_loop False (ce_events env)) = (ds, ms, out)"
    by (metis prod_cases3)
  then have marks: "length ms \<le> 1 \<and> (out = None \<longrightarrow> ms = []) \<and>
      (ms = [MarkSuccess] \<longleftrightarrow> out = Some None \<and> \<not> (\<exists>d\<in>set ds. is_fatal_item d))"
    by (cases "ce_start env") (auto dest: call_loop_spec)
  define r1 where "r1 = fold (apply_mark (ce_marked_at env) (ce_target env)) ms ?r"
  have r1: "mr_inv r1" "mr_permits r1 = mr_permits r0" "mr_capacity r1 = mr_capacity r0" "mr_entries r1 = mr_entries ?r"
    using inv cap by (simp_all add: r1_def)
  have fin: "mr_inv (call_finish (Some tid) r1) \<and> mr_permits (call_finish (Some tid) r1) = mr_permits r0 + 1
      \<and> mr_entries (call_finish (Some tid) r1) = mr_entries r0"
    using r1 assms(1,2) ent by (auto simp: call_finish_def mr_release_slot_def mr_unregister_def mr_inv_def)
  have res: "res = \<lparr>cr_yielded = ds, cr_marks = ms, cr_outcome = out,
      cr_signals = (if out = Some (Some CallCancelled) then [tid] else []),
      cr_reg = (if out = None then r1 else call_finish (Some tid) r1)\<rparr>"
    unfolding assms(4) call_stream_def l r1_def by (simp add: Let_def)
  show ?thesis
    using marks fin r1 ent(1) by (simp add: res mr_get_def)
qed

lemma call_fails_result:
  "mr_inv r0 \<Longrightarrow> 0 < mr_capacity r0 - mr_permits r0 \<Longrightarrow>
    mr_inv (cr_reg (call_fails e None r0)) \<and> mr_permits (cr_reg (call_fails e None r0)) = mr_permits r0 + 1
    \<and> mr_entries (cr_reg (call_fails e None r0)) = mr_entries r0"
  by (auto simp: call_fails_def call_finish_def mr_release_slot_def mr_inv_def)


text \<open>
  C6: A call gives back what it took, however it ends. A finished call - normally, with an error at
  any step, cancelled, or dropped by its consumer - leaves the free slots and the table of calls as
  it found them; a running one holds one slot and its entry. At most one outcome is recorded, and
  it is a success exactly when the end marker was met and no fatal error frame was yielded. A
  cancellation after the registration, and only that, sends a \<open>CANCEL\<close> for the task.
\<close>

theorem call_module_contract:
  assumes "mr_inv r" and "0 < ce_fail_max env" and "0 < ce_reset_timeout env"
    and "\<forall>tid. ce_associate env = Minted tid \<longrightarrow> \<not> mr_has r tid"
    and "res = call_module env r"
  shows "mr_inv (cr_reg res)
    \<and> (cr_outcome res \<noteq> None \<longrightarrow> mr_permits (cr_reg res) = mr_permits r \<and> mr_entries (cr_reg res) = mr_entries r)
    \<and> (cr_outcome res = None \<longrightarrow> mr_permits (cr_reg res) = mr_permits r - 1
        \<and> (\<exists>tid. ce_associate env = Minted tid \<and> mr_get (cr_reg res) tid = Some (call_entry env tid)))
    \<and> length (cr_marks res) \<le> 1
    \<and> (cr_marks res = [MarkSuccess] \<longleftrightarrow> cr_outcome res = Some None \<and> \<not> (\<exists>d\<in>set (cr_yielded res). is_fatal_item d))
    \<and> (cr_signals res = [] \<or> (\<exists>tid. cr_signals res = [tid] \<and> ce_associate env = Minted tid \<and> cr_outcome res = Some (Some CallCancelled)))"
proof (cases "ce_wired env")
  case False
  with assms show ?thesis by (simp add: call_module_def call_refused_def)
next
  case True
  from mr_breaker_for_ok [OF assms(1-3), of "ce_target env"] obtain cb r1 where
    b: "mr_breaker_for (ce_fail_max env) (ce_reset_timeout env) (ce_target env) r = Inr (cb, r1)"
    and r1: "mr_inv r1" "mr_entries r1 = mr_entries r" "mr_permits r1 = mr_permits r" by blast
  define r2 where "r2 = on_breaker (ce_target env) (cb_observe (ce_now env)) r1"
  have r2: "mr_inv r2" "mr_entries r2 = mr_entries r" "mr_permits r2 = mr_permits r" using r1 by (simp_all add: r2_def)
  show ?thesis
  proof (cases "cb_state (cb_observe (ce_now env) cb) = OPEN \<or> mr_permits r \<le> 0")
    case True
    with \<open>ce_wired env\<close> b r2 have "res = call_refused TargetUnavailable r2 \<or> res = call_refused AtCapacity r2"
      by (auto simp: assms(5) call_module_def mr_acquire_slot_def r2_def Let_def)
    with r2 show ?thesis by (auto simp: call_refused_def)
  next
    case False
    define r3 where "r3 = r2\<lparr>mr_permits := mr_permits r2 - 1\<rparr>"
    have r3: "mr_inv r3" "0 < mr_capacity r3 - mr_permits r3" "mr_entries r3 = mr_entries r" "mr_permits r3 = mr_permits r - 1"
      using r2 False by (auto simp: r3_def mr_inv_def)
    from False \<open>ce_wired env\<close> b r2 have res: "res = call_body env r3"
      by (simp add: assms(5) call_module_def mr_acquire_slot_def r2_def r3_def Let_def)
    show ?thesis
    proof (cases "\<exists>tid. ce_backend env \<and> ce_associate env = Minted tid \<and> tid \<noteq> '''' \<and> ce_channel_ok env")
      case True
      then obtain tid where t: "ce_backend env" "ce_associate env = Minted tid" "tid \<noteq> ''''" "ce_channel_ok env" by blast
      have new: "od_get (mr_entries r3) tid = None"
        using t(2) assms(4) r3(3) by (simp add: mr_has_def od_has_def)
      from t res have "res = call_stream env tid (mr_register (call_entry env tid) r3)" by (simp add: call_body_def)
      from call_stream_result [OF r3(1,2) new this] t(2) r3 show ?thesis by simp
    next
      case False
      then have "\<exists>e. res = call_fails e None r3"
        unfolding res by (cases "ce_backend env"; cases "ce_associate env"; cases "ce_channel_ok env") (auto simp: call_body_def)
      then obtain e where "res = call_fails e None r3" by blast
      with call_fails_result [OF r3(1,2), of e] r3 show ?thesis by (simp add: call_fails_def)
    qed
  qed
qed

definition call_demo :: "call_event list \<Rightarrow> call_env" where
  "call_demo es = \<lparr>ce_wired = True, ce_target = ''tool:50051'', ce_fail_max = 5, ce_reset_timeout = 30, ce_ttl = 300,
     ce_queue_max = 1024, ce_query = sentinel_struct ''message'' [], ce_setup_id = ''s'', ce_mission_id = ''m'',
     ce_now = 0, ce_registered_at = 0, ce_marked_at = 1, ce_backend = True, ce_associate = Minted ''t'',
     ce_channel_ok = True, ce_start = Accepts, ce_events = es\<rparr>"

theorem call_module_contract_witness:
  "let res = call_module (call_demo [QItem (sentinel_struct ''out'' []) Consumed, QCancelled]) (mr_init 1) in
    cr_yielded res = [sentinel_struct ''out'' []] \<and> cr_signals res = [''t'']
    \<and> mr_permits (cr_reg res) = 1 \<and> mr_entries (cr_reg res) = []"
proof -
  let ?env = "call_demo [QItem (sentinel_struct ''out'' []) Consumed, QCancelled]"
  have "mr_inv (mr_init 1)" by (simp add: mr_inv_def mr_init_def)
  moreover have "\<forall>tid. ce_associate ?env = Minted tid \<longrightarrow> \<not> mr_has (mr_init 1) tid"
    by (simp add: mr_has_def mr_init_def od_has_def)
  moreover have "0 < ce_fail_max ?env" "0 < ce_reset_timeout ?env" by (simp_all add: call_demo_def)
  ultimately have c: "cr_outcome (call_module ?env (mr_init 1)) \<noteq> None \<longrightarrow>
      mr_permits (cr_reg (call_module ?env (mr_init 1))) = mr_permits (mr_init 1)
      \<and> mr_entries (cr_reg (call_module ?env (mr_init 1))) = mr_entries (mr_init 1)"
    using call_module_contract [OF _ _ _ _ refl] by blast
  have "cr_yielded (call_module ?env (mr_init 1)) = [sentinel_struct ''out'' []]
      \<and> cr_signals (call_module ?env (mr_init 1)) = [''t''] \<and> cr_outcome (call_module ?env (mr_init 1)) \<noteq> None"
    by (simp add: call_module_def call_demo_def mr_breaker_for_def mr_init_def cb_init_def Let_def cb_observe_def
        mr_acquire_slot_def call_body_def call_stream_def on_breaker_def od_set_def od_get_def mr_max_breakers_def)
  with c show ?thesis by (simp add: Let_def mr_init_def)
qed

section \<open>From the dial-back to the caller\<close>

text \<open>What a caller that consumes everything sees of its queue.\<close>

definition queue_events :: "pstruct option list \<Rightarrow> call_event list" where
  "queue_events q = map (\<lambda>x. case x of None \<Rightarrow> QEnd | Some d \<Rightarrow> QItem d Consumed) q"

lemma call_loop_items:
  "call_loop err (queue_events (map Some ds) @ es) =
     (case call_loop (err \<or> (\<exists>d\<in>set ds. is_fatal_item d)) es of (ds', ms, out) \<Rightarrow> (ds @ ds', ms, out))"
  by (induction ds arbitrary: err) (auto simp: queue_events_def split: prod.splits)

lemma call_loop_delivered:
  "call_loop False (queue_events (map Some ds @ [None])) =
     (ds, [if \<exists>d\<in>set ds. is_fatal_item d then MarkFailure else MarkSuccess], Some None)"
  using call_loop_items [of False ds "[QEnd]"] by (simp add: queue_events_def)

lemma dial_back_queue:
  assumes "od_get (mr_entries r) tid = Some (call_entry env tid)"
    and "ce_queue_max env = 0 \<or> length (filter has_fields (upto_terminal upstream)) < ce_queue_max env"
    and "mr_handle_dial_back_receive tid upstream r = Inr (q, e)"
  shows "q = ce_query env \<and> me_queue e = map Some (filter has_fields (upto_terminal upstream)) @ [None]"
proof -
  let ?e = "call_entry env tid" and ?d = "m2m_drain upstream (call_entry env tid)"
  have e: "me_queue ?e = []" "me_queue_max ?e = ce_queue_max env" "me_query ?e = ce_query env"
    by (simp_all add: call_entry_def)
  have room: "me_queue_max ?e = 0 \<or> length (me_queue ?e) + length (filter has_fields (upto_terminal upstream)) \<le> me_queue_max ?e"
    unfolding e using assms(2) by auto
  from m2m_drain_spec [OF room]
  have d: "me_queue ?d = map Some (filter has_fields (upto_terminal upstream))" "me_queue_max ?d = ce_queue_max env"
    unfolding e by simp_all
  then have "\<not> queue_full ?d" using assms(2) by (auto simp: queue_full_def)
  from queue_put_room [OF this, of None] d assms(1,3) e show ?thesis
    by (auto simp: mr_handle_dial_back_receive_def)
qed


definition outbound_demo :: m2m_registry where
  "outbound_demo = mr_register (call_entry (call_demo []) ''t'') (mr_init 1)"

lemma outbound_demo_entry:
  "od_get (mr_entries outbound_demo) ''t'' = Some (call_entry (call_demo []) ''t'')"
  by (simp add: outbound_demo_def mr_register_def call_entry_def)


text \<open>
  A stream that breaks off looks complete. If the target's dial-back ends without \<open>stream.end\<close> and
  without a fatal error - its process died, or the connection was cut - the caller still returns
  normally with the frames received so far, and a success is recorded for the target.
\<close>

theorem cut_stream_counts_as_success:
  assumes "od_get (mr_entries r) tid = Some (call_entry env tid)"
    and "ce_queue_max env = 0 \<or> length (filter has_fields (upto_terminal upstream)) < ce_queue_max env"
    and "mr_handle_dial_back_receive tid upstream r = Inr (q, e)"
    and "\<forall>d\<in>set upstream. \<not> terminal d"
  shows "call_loop False (queue_events (me_queue e)) = (filter has_fields upstream, [MarkSuccess], Some None)"
proof -
  have up: "upto_terminal ds = ds" if "\<forall>d\<in>set ds. \<not> terminal d" for ds
    using that by (induction ds) auto
  have "\<not> is_fatal_item d" if "d \<in> set (filter has_fields upstream)" for d
    using that assms(4) by (auto simp: terminal_def is_fatal_item_def)
  then show ?thesis
    using dial_back_queue [OF assms(1-3)] by (simp add: up [OF assms(4)] call_loop_delivered)
qed

theorem cut_stream_counts_as_success_witness:
  "\<exists>q e. mr_handle_dial_back_receive ''t'' [sentinel_struct ''out'' []] outbound_demo = Inr (q, e)
    \<and> call_loop False (queue_events (me_queue e)) = ([sentinel_struct ''out'' []], [MarkSuccess], Some None)"
proof -
  let ?up = "[sentinel_struct ''out'' []]"
  obtain q e where h: "mr_handle_dial_back_receive ''t'' ?up outbound_demo = Inr (q, e)"
    by (simp add: mr_handle_dial_back_receive_def outbound_demo_entry)
  have room: "ce_queue_max (call_demo []) = 0 \<or> length (filter has_fields (upto_terminal ?up)) < ce_queue_max (call_demo [])"
    by (simp add: call_demo_def terminal_def)
  have "\<forall>d\<in>set ?up. \<not> terminal d" unfolding terminal_def by simp
  from cut_stream_counts_as_success [OF outbound_demo_entry room h this] h show ?thesis by auto
qed


text \<open>
  A call that outlives its time to live is cut short and counted as a success. When the sweep
  reaps the entry of a call that is still receiving, its caller reads the frames already queued and
  then the end marker: it returns normally, and its success closes the breaker the sweep has just
  charged with a failure.
\<close>

theorem expired_call_ends_clean:
  assumes "mr_inv r" and "0 < fmax" and "0 < rt"
    and "od_get (mr_entries r) tid = Some e" and "me_expires_at e < now"
    and "\<not> queue_full e" and "me_queue e = map Some ds" and "\<not> (\<exists>d\<in>set ds. is_fatal_item d)"
    and "mr_sweep now clk fmax rt r = (res, r', reaped)"
  shows "mr_get r' tid = None
    \<and> (\<exists>e'\<in>set reaped. me_task_id e' = me_task_id e
        \<and> call_loop False (queue_events (me_queue e')) = (ds, [MarkSuccess], Some None))"
proof -
  from mr_sweep_items_spec [OF assms(1-3), of now clk "mr_entries r"] assms(9)
  have reaped: "reaped = map (\<lambda>p. queue_put None (snd p)) (filter (expired now) (mr_entries r))"
    and r': "mr_entries r' = filter (\<lambda>p. fst p \<notin> fst ` set (filter (expired now) (mr_entries r))) (mr_entries r)"
    by (auto simp: mr_sweep_def)
  have wf: "od_wf (mr_entries r)" using assms(1) by (simp add: mr_inv_def)
  have mem: "(tid, e) \<in> set (filter (expired now) (mr_entries r))"
    using assms(4,5) wf by (simp add: od_get_Some_iff expired_Pair)
  have "mr_get r' tid = None"
    unfolding mr_get_def r' od_get_filter [OF wf] assms(4) using image_eqI [OF _ mem, of tid fst] by simp
  moreover have "queue_put None e \<in> set reaped" unfolding reaped using image_eqI [OF _ mem, of "queue_put None e" "\<lambda>p. queue_put None (snd p)"] by simp
  moreover have "me_queue (queue_put None e) = map Some ds @ [None]" "me_task_id (queue_put None e) = me_task_id e"
    using assms(6,7) by (simp_all add: queue_put_def)
  ultimately show ?thesis using call_loop_delivered [of ds] assms(8) by auto
qed

theorem expired_call_ends_clean_witness:
  "\<exists>res r' reaped. mr_sweep 400 (\<lambda>t. 400) 5 30 outbound_demo = (res, r', reaped)
    \<and> (\<exists>e'\<in>set reaped. call_loop False (queue_events (me_queue e')) = ([], [MarkSuccess], Some None))"
proof -
  obtain res r' reaped where s: "mr_sweep 400 (\<lambda>t. 400) 5 30 outbound_demo = (res, r', reaped)" by (metis prod_cases3)
  let ?e = "call_entry (call_demo []) ''t''"
  have "mr_inv outbound_demo" by (simp add: outbound_demo_def mr_register_def mr_inv_def mr_init_def od_wf_def od_set_def)
  moreover have "me_expires_at ?e < 400" "\<not> queue_full ?e" "me_queue ?e = map Some []"
    by (simp_all add: call_entry_def call_demo_def queue_full_def)
  ultimately show ?thesis
    using expired_call_ends_clean [OF _ _ _ outbound_demo_entry _ _ _ _ s] s by auto
qed

lemma queue_put_Some: "None \<notin> set (me_queue e) \<Longrightarrow> None \<notin> set (me_queue (queue_put (Some d) e))"
  by (simp add: queue_put_def)

lemma queue_put_length: "length (me_queue (queue_put x e)) = (if queue_full e then length (me_queue e) else length (me_queue e) + 1)"
  by (simp add: queue_put_def)

lemma m2m_drain_overflow:
  assumes "me_queue_max e = n" "0 < n" "None \<notin> set (me_queue e)" "length (me_queue e) \<le> n"
    and "n \<le> length (me_queue e) + length (filter has_fields (upto_terminal ds))"
  shows "me_queue_max (m2m_drain ds e) = n \<and> length (me_queue (m2m_drain ds e)) = n \<and> None \<notin> set (me_queue (m2m_drain ds e))"
  using assms
proof (induction ds arbitrary: e)
  case Nil
  then show ?case by simp
next
  case (Cons d ds)
  let ?e = "queue_put (Some d) e"
  have put: "me_queue_max ?e = n" "None \<notin> set (me_queue ?e)" "length (me_queue ?e) \<le> n"
    "n \<le> length (me_queue ?e) \<or> length (me_queue ?e) = length (me_queue e) + 1"
    using Cons.prems by (auto simp: queue_put_def queue_full_def)
  show ?case
  proof (cases "has_fields d")
    case False
    then have "upto_terminal (d # ds) = d # upto_terminal ds" by (simp add: terminal_def)
    with False Cons show ?thesis by simp
  next
    case True
    show ?thesis
    proof (cases "terminal d")
      case True
      with \<open>has_fields d\<close> have "m2m_drain (d # ds) e = ?e" by (auto simp: terminal_def Let_def)
      with put True \<open>has_fields d\<close> Cons.prems show ?thesis by auto
    next
      case False
      with \<open>has_fields d\<close> have "m2m_drain (d # ds) e = m2m_drain ds ?e" by (auto simp: terminal_def Let_def)
      moreover have "n \<le> length (me_queue ?e) + length (filter has_fields (upto_terminal ds))"
        using put(4) False True Cons.prems(5) by auto
      ultimately show ?thesis using Cons.IH [OF put(1) Cons.prems(2) put(2,3)] by simp
    qed
  qed
qed

text \<open>
  A full queue loses the end of the call. If the caller has consumed nothing while as many frames
  arrived as its queue holds, the frames beyond it and the end marker are dropped: it yields
  exactly the first ones, as many as the queue holds, and then waits until it times out, although the
  target finished, and a failure is recorded.
\<close>

theorem full_queue_loses_the_end:
  assumes "od_get (mr_entries r) tid = Some (call_entry env tid)"
    and "0 < ce_queue_max env" and "ce_queue_max env \<le> length (filter has_fields (upto_terminal upstream))"
    and "mr_handle_dial_back_receive tid upstream r = Inr (q, e)"
  shows "\<exists>ds. length ds = ce_queue_max env \<and> me_queue e = map Some ds
    \<and> snd (snd (call_loop False (queue_events (me_queue e)))) = None
    \<and> call_loop False (queue_events (me_queue e) @ [QTimeout]) = (ds, [MarkFailure], Some (Some CallTimeout))"
proof -
  let ?d = "m2m_drain upstream (call_entry env tid)"
  have "me_queue_max ?d = ce_queue_max env \<and> length (me_queue ?d) = ce_queue_max env \<and> None \<notin> set (me_queue ?d)"
    using assms(2,3) by (intro m2m_drain_overflow) (simp_all add: call_entry_def)
  moreover from this have "queue_full ?d" using assms(2) by (simp add: queue_full_def)
  ultimately have e: "length (me_queue e) = ce_queue_max env" "None \<notin> set (me_queue e)"
    using assms(1,4) by (auto simp: mr_handle_dial_back_receive_def queue_put_def)
  define ds where "ds = map the (me_queue e)"
  have q: "me_queue e = map Some ds"
    unfolding ds_def map_map by (rule map_idI [symmetric]) (use e(2) in \<open>metis comp_apply option.collapse\<close>)
  have len: "length ds = ce_queue_max env" using e(1) by (simp add: ds_def)
  from call_loop_items [of False ds "[]"] call_loop_items [of False ds "[QTimeout]"]
  have "call_loop False (queue_events (me_queue e)) = (ds, [], None)"
    "call_loop False (queue_events (me_queue e) @ [QTimeout]) = (ds, [MarkFailure], Some (Some CallTimeout))"
    by (simp_all add: q)
  with q len show ?thesis by (intro exI [of _ ds]) simp
qed

theorem full_queue_loses_the_end_witness:
  "\<exists>q e ds. mr_handle_dial_back_receive ''t'' [sentinel_struct ''a'' [], sentinel_struct ''stream.end'' []]
        (mr_register (call_entry ((call_demo [])\<lparr>ce_queue_max := 1\<rparr>) ''t'') (mr_init 1)) = Inr (q, e)
    \<and> call_loop False (queue_events (me_queue e) @ [QTimeout]) = (ds, [MarkFailure], Some (Some CallTimeout))"
proof -
  let ?env = "(call_demo [])\<lparr>ce_queue_max := 1\<rparr>" and ?up = "[sentinel_struct ''a'' [], sentinel_struct ''stream.end'' []]"
  let ?r = "mr_register (call_entry ?env ''t'') (mr_init 1)"
  have g: "od_get (mr_entries ?r) ''t'' = Some (call_entry ?env ''t'')" by (simp add: mr_register_def call_entry_def)
  obtain q e where h: "mr_handle_dial_back_receive ''t'' ?up ?r = Inr (q, e)"
    unfolding mr_handle_dial_back_receive_def g option.case by blast
  have "0 < ce_queue_max ?env" "ce_queue_max ?env \<le> length (filter has_fields (upto_terminal ?up))"
    by (simp_all add: terminal_def)
  from full_queue_loses_the_end [OF g this h] h show ?thesis by blast
qed


section \<open>The half-open breaker\<close>

text \<open>
  A recovering target is not probed by one call at a time. While the breaker of a target is half
  open, no call is refused on its account, and a call that is still waiting leaves the breaker as it
  was: the next call, and every other one, is let through as well, up to the slots.
\<close>

theorem half_open_target_admits_all:
  assumes "ce_wired env" and "od_get (mr_breakers r) (ce_target env) = Some cb" and "cb_state cb = HALF_OPEN"
    and "res = call_module env r"
  shows "cr_outcome res \<noteq> Some (Some TargetUnavailable)
    \<and> (cr_outcome res = None \<longrightarrow> od_get (mr_breakers (cr_reg res)) (ce_target env) = Some cb)"
proof -
  have obs: "cb_observe t cb = cb" for t using assms(3) by (simp add: cb_observe_def)
  define r2 where "r2 = on_breaker (ce_target env) (cb_observe (ce_now env)) (r\<lparr>mr_breakers := od_move_to_end (ce_target env) (mr_breakers r)\<rparr>)"
  have r2: "od_get (mr_breakers r2) (ce_target env) = Some cb"
    using assms(2) by (simp add: r2_def on_breaker_def obs)
  have res: "res = (case mr_acquire_slot r2 of Inl e \<Rightarrow> call_refused AtCapacity r2 | Inr r3 \<Rightarrow> call_body env r3)"
    unfolding assms(4) r2_def using assms(1-3) by (simp add: call_module_def mr_breaker_for_def obs Let_def)
  have loop: "call_loop False es = (ds, ms, None) \<Longrightarrow> ms = []" "snd (snd (call_loop err es)) \<noteq> Some (Some TargetUnavailable)" for es ds ms err
    by (auto dest: call_loop_spec) (induction err es rule: call_loop.induct; auto split: prod.splits)
  have body: "cr_outcome (call_body env r3) \<noteq> Some (Some TargetUnavailable)
      \<and> (cr_outcome (call_body env r3) = None \<longrightarrow> mr_breakers (cr_reg (call_body env r3)) = mr_breakers r3)" for r3
    using loop(1) [of "ce_events env"] loop(2) [of False "ce_events env"]
    by (auto simp: call_body_def call_fails_def call_stream_def Let_def mr_register_def
        split: associate_answer.split start_answer.split prod.splits)
  show ?thesis
  proof (cases "mr_acquire_slot r2")
    case (Inl e)
    then show ?thesis by (simp add: res call_refused_def)
  next
    case (Inr r3)
    then have "mr_breakers r3 = mr_breakers r2" by (auto simp: mr_acquire_slot_def split: if_splits)
    with body [of r3] Inr r2 show ?thesis by (simp add: res)
  qed
qed

definition half_open_demo :: m2m_registry where
  "half_open_demo = (mr_init 2)\<lparr>mr_breakers := [(''tool:50051'', \<lparr>cb_service_id = ''x'', cb_state = HALF_OPEN,
     cb_failure_count = 5, cb_fail_max = 5, cb_reset_timeout = 30, cb_last_failure_time = 0, cb_half_open_lock = False\<rparr>)]\<rparr>"

theorem half_open_target_admits_all_witness:
  "cr_outcome (call_module (call_demo []) half_open_demo) \<noteq> Some (Some TargetUnavailable)"
proof -
  have "ce_wired (call_demo [])" by (simp add: call_demo_def)
  moreover obtain cb where "od_get (mr_breakers half_open_demo) (ce_target (call_demo [])) = Some cb" "cb_state cb = HALF_OPEN"
    by (simp add: half_open_demo_def call_demo_def od_get_Cons)
  ultimately show ?thesis using half_open_target_admits_all [OF _ _ _ refl] by blast
qed

section \<open>Pooled channels\<close>

text \<open>
  The channel part of \<open>GrpcCommunication\<close>: every use takes a reference of the process-wide channel
  cache, and the keys used are kept as a set (here a list without repetition). The configuration
  of a target is the client's own one with the target's address.
\<close>

record communication =
  co_client :: grpc_client
  co_keys :: "string list"
  co_backend :: "grpc_client option"

definition target_config :: "client_config \<Rightarrow> string \<Rightarrow> int \<Rightarrow> client_config" where
  "target_config cfg host port = cfg\<lparr>cc_address := host @ '':'' @ py_str port\<rparr>"

definition co_channel ::
    "client_config \<Rightarrow> string \<Rightarrow> int \<Rightarrow> communication \<Rightarrow> grpc_cache \<Rightarrow> communication \<times> grpc_cache" where
  "co_channel cfg host port co gx =
     (case gc_init_channel (target_config cfg host port) (co_client co) gx of
        (c, gx') \<Rightarrow> (co\<lparr>co_client := c,
                       co_keys := (case gc_key c of None \<Rightarrow> co_keys co | Some k \<Rightarrow> List.insert k (co_keys co))\<rparr>, gx'))"

definition co_close_all :: "communication \<Rightarrow> grpc_cache \<Rightarrow> communication \<times> grpc_cache" where
  "co_close_all co gx = (co\<lparr>co_keys := []\<rparr>, fold gc_release_cached_channel (co_keys co) gx)"

definition co_close :: "communication \<Rightarrow> grpc_cache \<Rightarrow> communication \<times> grpc_cache" where
  "co_close co gx =
     (case co_close_all co gx of (co1, gx1) \<Rightarrow>
        (case co_backend co1 of
           None \<Rightarrow> (co1, gx1)
         | Some b \<Rightarrow> (case gc_close_channel b gx1 of (b', gx2) \<Rightarrow> (co1\<lparr>co_backend := Some b'\<rparr>, gx2))))"

text \<open>\<open>dial_consumer_stream\<close>: the stub (its channel), and the key that \<open>release\<close> gives back.\<close>

definition co_dial ::
    "client_config \<Rightarrow> string \<Rightarrow> communication \<Rightarrow> grpc_cache
      \<Rightarrow> string + ((nat option \<times> string) \<times> string option \<times> communication \<times> grpc_cache)" where
  "co_dial cfg address co gx =
     (case validate_address address ''address'' of
        Some err \<Rightarrow> Inl err
      | None \<Rightarrow> (case partition_colon address of (host, port_str) \<Rightarrow>
          (case py_int port_str of
             None \<Rightarrow> Inl ''ValueError''
           | Some port \<Rightarrow> (case co_channel cfg host port co gx of (co1, gx1) \<Rightarrow>
               (case gc_get_or_create_stub ''GatewayServiceStub'' (co_client co1) gx1 of
                  (stub, gx2) \<Rightarrow> Inr (stub, gc_key (co_client co1), co1, gx2))))))"

definition co_release :: "string option \<Rightarrow> communication \<Rightarrow> grpc_cache \<Rightarrow> communication \<times> grpc_cache" where
  "co_release key co gx = (case key of
      None \<Rightarrow> (co, gx)
    | Some k \<Rightarrow> if k = '''' then (co, gx) else (co\<lparr>co_keys := removeAll k (co_keys co)\<rparr>, gc_release_cached_channel k gx))"

definition co_evict :: "client_config \<Rightarrow> string \<Rightarrow> grpc_cache \<Rightarrow> grpc_cache" where
  "co_evict cfg address gx =
     (case partition_colon address of (host, port_str) \<Rightarrow>
        if \<not> (port_str \<noteq> '''' \<and> list_all is_digit port_str) then gx
        else case py_int port_str of
          None \<Rightarrow> gx
        | Some port \<Rightarrow> gc_evict_cached_channel (channel_key (target_config cfg host port)) gx)"


definition use_target :: "client_config \<Rightarrow> string \<Rightarrow> int \<Rightarrow> communication \<times> grpc_cache \<Rightarrow> communication \<times> grpc_cache" where
  "use_target cfg host port x = co_channel cfg host port (fst x) (snd x)"

lemma use_target_first:
  assumes "od_get (gx_channels gx) (channel_key (target_config cfg host port)) = None" and "co_keys co = []"
    and "use_target cfg host port (co, gx) = (co1, gx1)" and "key = channel_key (target_config cfg host port)"
  shows "co_keys co1 = [key] \<and> od_get (gx_refs gx1) key = Some 1 \<and> od_get (gx_channels gx1) key = Some (gx_next gx)
    \<and> gx_closed gx1 = gx_closed gx"
  using assms by (auto simp: use_target_def co_channel_def gc_init_channel_def Let_def)

lemma use_target_again:
  assumes "co_keys co = [key]" and "od_get (gx_refs gx) key = Some n" and "od_get (gx_channels gx) key = Some ch"
    and "use_target cfg host port (co, gx) = (co1, gx1)" and "key = channel_key (target_config cfg host port)"
  shows "co_keys co1 = [key] \<and> od_get (gx_refs gx1) key = Some (n + 1) \<and> od_get (gx_channels gx1) key = Some ch
    \<and> gx_closed gx1 = gx_closed gx"
  using assms by (auto simp: use_target_def co_channel_def gc_init_channel_def Let_def)

lemma use_target_many:
  assumes "od_get (gx_channels gx) (channel_key (target_config cfg host port)) = None" and "co_keys co = []"
    and "(use_target cfg host port ^^ Suc n) (co, gx) = (co1, gx1)" and "key = channel_key (target_config cfg host port)"
  shows "co_keys co1 = [key] \<and> od_get (gx_refs gx1) key = Some (int n + 1) \<and> od_get (gx_channels gx1) key = Some (gx_next gx)
    \<and> gx_closed gx1 = gx_closed gx"
  using assms(3)
proof (induction n arbitrary: co1 gx1)
  case 0
  with use_target_first [OF assms(1,2) _ assms(4)] show ?case by simp
next
  case (Suc n)
  obtain co2 gx2 where u: "(use_target cfg host port ^^ Suc n) (co, gx) = (co2, gx2)" by (cases "(use_target cfg host port ^^ Suc n) (co, gx)")
  from Suc.IH [OF u] have h: "co_keys co2 = [key]" "od_get (gx_refs gx2) key = Some (int n + 1)"
    "od_get (gx_channels gx2) key = Some (gx_next gx)" "gx_closed gx2 = gx_closed gx" by simp_all
  from Suc.prems u have "use_target cfg host port (co2, gx2) = (co1, gx1)" by simp
  from use_target_again [OF h(1-3) this assms(4)] h(4) show ?case by simp
qed

text \<open>
  Closing a client gives back one reference per target, not one per call. A client that called a
  target once closes its channel when it is closed; after \<open>n + 1\<close> calls \<open>n\<close> references remain, the
  channel stays open, and no operation of the client can release it any more.
\<close>

theorem repeated_calls_leak_channel:
  assumes "gx_inv gx" and "key = channel_key (target_config cfg host port)" and "od_get (gx_channels gx) key = None"
    and "co_keys co = []" and "(use_target cfg host port ^^ Suc n) (co, gx) = (co1, gx1)"
    and "co_close_all co1 gx1 = (co2, gx2)"
  shows "co_keys co2 = []
    \<and> od_get (gx_refs gx2) key = (if n = 0 then None else Some (int n))
    \<and> od_get (gx_channels gx2) key = (if n = 0 then None else Some (gx_next gx))
    \<and> (gx_next gx \<in> set (gx_closed gx2) \<longleftrightarrow> n = 0)"
proof -
  from use_target_many [OF assms(3) [unfolded assms(2)] assms(4,5,2)]
  have h: "co_keys co1 = [key]" "od_get (gx_refs gx1) key = Some (int n + 1)"
    "od_get (gx_channels gx1) key = Some (gx_next gx)" "gx_closed gx1 = gx_closed gx" by simp_all
  have "gx_next gx \<notin> set (gx_closed gx)" using assms(1) by (auto simp: gx_inv_def)
  with h assms(6) show ?thesis
    by (auto simp: co_close_all_def gc_release_cached_channel_def Let_def gx_close_def gx_purge_def)
qed

definition cfg_comm_demo :: client_config where
  "cfg_comm_demo = \<lparr>cc_address = ''self:1'', cc_security = ''insecure'', cc_compression = ''none''\<rparr>"

definition comm_demo :: communication where
  "comm_demo = \<lparr>co_client = \<lparr>gc_service = ''CommunicationService'', gc_channel = None, gc_key = None\<rparr>, co_keys = [], co_backend = None\<rparr>"

theorem repeated_calls_leak_channel_witness:
  "\<exists>co2 gx2. co_close_all (fst ((use_target cfg_comm_demo ''tool'' 50051 ^^ 2) (comm_demo, gx_init)))
      (snd ((use_target cfg_comm_demo ''tool'' 50051 ^^ 2) (comm_demo, gx_init))) = (co2, gx2)
    \<and> od_get (gx_refs gx2) (channel_key (target_config cfg_comm_demo ''tool'' 50051)) = Some 1"
proof -
  obtain co1 gx1 where u: "(use_target cfg_comm_demo ''tool'' 50051 ^^ Suc 1) (comm_demo, gx_init) = (co1, gx1)"
    by (cases "(use_target cfg_comm_demo ''tool'' 50051 ^^ Suc 1) (comm_demo, gx_init)")
  obtain co2 gx2 where c: "co_close_all co1 gx1 = (co2, gx2)" by (cases "co_close_all co1 gx1")
  have "od_get (gx_channels gx_init) (channel_key (target_config cfg_comm_demo ''tool'' 50051)) = None" "co_keys comm_demo = []"
    by (simp_all add: gx_init_def comm_demo_def)
  from repeated_calls_leak_channel [OF gx_inv_init refl this u c] u c show ?thesis by (simp add: numeral_2_eq_2)
qed

text \<open>
  A resumed dial-back never reuses a broken connection. Evicting the consumer's channel and dialling
  the same address (a valid one, without a trailing newline) gives a stub on a channel that was just
  created, and the channel that was cached for the address, if any, has been closed.
\<close>

theorem redial_uses_fresh_channel:
  assumes "gx_inv gx" and "validate_address address ''address'' = None"
    and "partition_colon address = (host, port_str)" and "list_all is_digit port_str"
    and "py_int port_str = Some port" and "key = channel_key (target_config cfg host port)"
    and "co_dial cfg address co (co_evict cfg address gx) = Inr (stub, k, co', gx')"
  shows "fst stub = Some (gx_next gx) \<and> k = Some key \<and> od_get (gx_channels gx') key = Some (gx_next gx)
    \<and> gx_next gx \<notin> set (gx_closed gx')
    \<and> (\<forall>old. od_get (gx_channels gx) key = Some old \<longrightarrow> old \<in> set (gx_closed gx') \<and> old \<noteq> gx_next gx)"
proof -
  have ne: "port_str \<noteq> ''''" using assms(5) by (auto simp: py_int_def strip_def)
  define gx1 where "gx1 = gc_evict_cached_channel key gx"
  have ev: "co_evict cfg address gx = gx1"
    using assms(3-6) ne by (simp add: co_evict_def gx1_def)
  have inv1: "gx_inv gx1" unfolding gx1_def by (rule gx_inv_evict [OF assms(1)])
  have new: "od_get (gx_channels gx1) key = None" "gx_next gx1 = gx_next gx"
    by (auto simp: gx1_def gc_evict_cached_channel_def gx_close_def gx_purge_def split: option.split)
  have old: "\<forall>old. od_get (gx_channels gx) key = Some old \<longrightarrow> old \<in> set (gx_closed gx1) \<and> old < gx_next gx"
    using assms(1) by (auto simp: gx1_def gc_evict_cached_channel_def gx_close_def gx_purge_def gx_inv_def)
  obtain c gx2 where ch: "gc_init_channel (target_config cfg host port) (co_client co) gx1 = (c, gx2)"
    by (cases "gc_init_channel (target_config cfg host port) (co_client co) gx1")
  from gx_inv_init_channel [OF inv1, of "target_config cfg host port" "co_client co"] ch
  have inv2: "gx_inv gx2" and live: "gc_live gx2 c" by simp_all
  have c: "gc_channel c = Some (gx_next gx)" "gc_key c = Some key" "od_get (gx_channels gx2) key = Some (gx_next gx)"
    "gx_closed gx2 = gx_closed gx1"
    using ch new by (auto simp: gc_init_channel_def Let_def assms(6))
  obtain s gx3 where st: "gc_get_or_create_stub ''GatewayServiceStub'' c gx2 = (s, gx3)"
    by (cases "gc_get_or_create_stub ''GatewayServiceStub'' c gx2")
  from gx_inv_stub [OF inv2 live, of "''GatewayServiceStub''"] st c have s: "fst s = Some (gx_next gx)" by simp
  have gx3: "gx_channels gx3 = gx_channels gx2" "gx_closed gx3 = gx_closed gx2"
    using st by (auto simp: gc_get_or_create_stub_def split: option.splits)
  have "stub = s \<and> k = Some key \<and> gx' = gx3"
    using assms(2,3,5,7) ch st c(2) by (simp add: co_dial_def ev co_channel_def)
  moreover have "gx_next gx \<notin> set (gx_closed gx2)" using inv2 c(3) by (simp add: gx_inv_def)
  ultimately show ?thesis using s c gx3 old by auto
qed

theorem redial_uses_fresh_channel_witness:
  "\<exists>stub k co' gx'. co_dial cfg_comm_demo ''peer:50051'' comm_demo
      (co_evict cfg_comm_demo ''peer:50051'' (snd (co_channel cfg_comm_demo ''peer'' 50051 comm_demo gx_init))) = Inr (stub, k, co', gx')
    \<and> fst stub = Some (gx_next (snd (co_channel cfg_comm_demo ''peer'' 50051 comm_demo gx_init)))"
proof -
  let ?gx = "snd (co_channel cfg_comm_demo ''peer'' 50051 comm_demo gx_init)"
  have inv: "gx_inv ?gx"
    using gx_inv_init_channel [OF gx_inv_init, of "target_config cfg_comm_demo ''peer'' 50051" "co_client comm_demo"]
    by (simp add: co_channel_def case_prod_beta)
  have v: "validate_address ''peer:50051'' ''address'' = None" by code_simp
  have p: "partition_colon ''peer:50051'' = (''peer'', ''50051'')" by code_simp
  have d: "list_all is_digit ''50051''" and n: "py_int ''50051'' = Some 50051" by code_simp+
  obtain stub k co' gx' where r: "co_dial cfg_comm_demo ''peer:50051'' comm_demo (co_evict cfg_comm_demo ''peer:50051'' ?gx) = Inr (stub, k, co', gx')"
    by (simp add: co_dial_def v p n case_prod_beta)
  from redial_uses_fresh_channel [OF inv v p d n refl r] r show ?thesis by blast
qed

end
