(* ===== verification/Output_Path.thy ===== *)
theory Output_Path
  imports Gateway_Start Module_Runner
begin

text \<open>
  The life of a task's output stream across components: the entry \<open>StartStream\<close> seeds, the entries the
  runner's callback appends, and what a consumer reads; first for a stream that keeps every entry,
  then against Redis' expiry, with the commands placed in time.
\<close>

section \<open>From the module to the consumer\<close>

text \<open>Protobuf gives back the messages of this task (and serialises none of them to nothing).\<close>

definition wire_ok :: "(pstruct \<Rightarrow> string) \<Rightarrow> (string \<Rightarrow> pstruct option) \<Rightarrow> pstruct \<Rightarrow> bool" where
  "wire_ok ser parse d \<longleftrightarrow> parse (ser d) = Some d \<and> ser d \<noteq> ''''"

text \<open>Stream entries with these fields, whatever their identifiers.\<close>

definition stored_as :: "stream_entry list \<Rightarrow> fields list \<Rightarrow> bool" where
  "stored_as es fss \<longleftrightarrow> map en_fields es = fss"

definition task_output ::
    "(pstruct \<Rightarrow> string) \<Rightarrow> stream_settings \<Rightarrow> string \<Rightarrow> pstruct list \<Rightarrow> redis_cmd list" where
  "task_output ser cfg tid ds = snd (on_outputs ser cfg tid (map (\<lambda>d. (d, True, True)) ds) out_init)"

lemma start_stream_seed:
  "start_stream ops ser env req reg kv = (True, reg', kv', cmds) \<Longrightarrow> cmds = [seed_cmd ser (se_started_at env) req]"
  by (auto simp: start_stream_def after_claim_cases after_seed_def applied_def split: prod.splits bool.splits if_splits)

lemma task_output_open:
  "\<forall>d\<in>set ds. is_end_output d = Some False \<Longrightarrow>
    appended (stream_key tid) (task_output ser cfg tid ds) = payload_fields ser 1 ds"
  using on_outputs_ok [of ds tid ser cfg out_init] by (simp add: task_output_def out_init_def)

lemma task_output_appended:
  assumes "\<forall>d\<in>set ds. is_end_output d = Some False" and "is_end_output fin = Some True"
  shows "appended (stream_key tid) (task_output ser cfg tid (ds @ [fin])) = payload_fields ser 1 ds @ [[(''eos'', ''true'')]]"
proof -
  obtain st1 cs where o: "on_outputs ser cfg tid (map (\<lambda>d. (d, True, True)) ds) out_init = (st1, cs)"
    by (cases "on_outputs ser cfg tid (map (\<lambda>d. (d, True, True)) ds) out_init")
  have "appended (stream_key tid) cs = payload_fields ser 1 ds"
    using on_outputs_ok [of ds tid ser cfg out_init] assms(1) unfolding o by (simp add: out_init_def)
  moreover have "on_outputs ser cfg tid [(fin, True, True)] st1
      = (st1, [XADD (stream_key tid) [(''eos'', ''true'')] None, EXPIRE (stream_key tid) (redis_stream_ttl cfg)])"
    using assms(2) by (simp add: on_output_def Let_def)
  ultimately show ?thesis by (simp add: task_output_def on_outputs_append o)
qed

lemma payload_fields_stored:
  "stored_as es (payload_fields ser (int q) ds) \<Longrightarrow> \<forall>d\<in>set ds. wire_ok ser parse d \<Longrightarrow>
    list_all2 (payload parse) es (zip (map int [q..<q + length ds]) ds)"
proof (induction ds arbitrary: q es)
  case Nil
  then show ?case by (simp add: stored_as_def)
next
  case (Cons d ds)
  from Cons.prems obtain en es' where es: "es = en # es'" and f: "en_fields en = [(''pb'', ser d), (''seq'', py_str (int q))]"
    and r: "stored_as es' (payload_fields ser (int (Suc q)) ds)"
    by (auto simp: stored_as_def add.commute)
  have "payload parse en (int q, d)"
    using Cons.prems(2) by (simp add: payload_def field_or_def f od_get_Cons wire_ok_def py_int_py_str)
  with Cons.IH [OF r] Cons.prems(2) show ?case by (simp add: es upt_conv_Cons del: upt_Suc)
qed

lemma numbered_zip: "numbered (zip (map int [0..<length ds]) ds)"
  by (simp add: numbered_def)

section \<open>Against Redis' expiry\<close>

text \<open>
  The commands of Redis the stream depends on, as operations on a state of any type: executing a
  command at a time, the entries of a key at a time, and the key's expiry deadline.
\<close>

record 's stream_ops =
  so_exec :: "real \<Rightarrow> redis_cmd \<Rightarrow> 's \<Rightarrow> 's"
  so_entries :: "string \<Rightarrow> real \<Rightarrow> 's \<Rightarrow> fields list"
  so_deadline :: "string \<Rightarrow> 's \<Rightarrow> real option"

definition due :: "real \<Rightarrow> real option \<Rightarrow> bool" where
  "due now deadline \<longleftrightarrow> (case deadline of None \<Rightarrow> False | Some d \<Rightarrow> d \<le> now)"

text \<open>
  What Redis documents: a key is gone from its deadline on and unchanged before; \<open>XADD\<close> appends to a
  live key and keeps its deadline, and creates a missing one without a deadline; approximate
  trimming leaves at least \<open>maxlen\<close> entries; \<open>EXPIRE\<close> sets the deadline of a live key.
\<close>

definition stream_laws :: "'s stream_ops \<Rightarrow> bool" where
  "stream_laws ops \<longleftrightarrow>
     (\<forall>k now s. due now (so_deadline ops k s) \<longrightarrow> so_entries ops k now s = []) \<and>
     (\<forall>k now now' s. now \<le> now' \<and> \<not> due now' (so_deadline ops k s) \<longrightarrow> so_entries ops k now' s = so_entries ops k now s) \<and>
     (\<forall>k now fs m s. so_deadline ops k (so_exec ops now (XADD k fs m) s)
        = (if so_entries ops k now s = [] then None else so_deadline ops k s)) \<and>
     (\<forall>k now fs m s. (\<forall>n. m = Some n \<longrightarrow> length (so_entries ops k now s) < n) \<longrightarrow>
        so_entries ops k now (so_exec ops now (XADD k fs m) s) = so_entries ops k now s @ [fs]) \<and>
     (\<forall>k now t s. 0 < t \<and> so_entries ops k now s \<noteq> [] \<longrightarrow>
        so_deadline ops k (so_exec ops now (EXPIRE k t) s) = Some (now + of_int t)
        \<and> so_entries ops k now (so_exec ops now (EXPIRE k t) s) = so_entries ops k now s)"

text \<open>A store that satisfies them: it keeps every entry until the deadline.\<close>

type_synonym stream_store = "(string, fields list \<times> real option) odict"

definition ss_entries :: "string \<Rightarrow> real \<Rightarrow> stream_store \<Rightarrow> fields list" where
  "ss_entries k now s = (case od_get s k of None \<Rightarrow> [] | Some (es, dl) \<Rightarrow> if due now dl then [] else es)"

definition ss_deadline :: "string \<Rightarrow> stream_store \<Rightarrow> real option" where
  "ss_deadline k s = (case od_get s k of None \<Rightarrow> None | Some (es, dl) \<Rightarrow> dl)"

fun ss_exec :: "real \<Rightarrow> redis_cmd \<Rightarrow> stream_store \<Rightarrow> stream_store" where
  "ss_exec now (XADD k fs m) s =
     od_set k (ss_entries k now s @ [fs], if ss_entries k now s = [] then None else ss_deadline k s) s"
| "ss_exec now (EXPIRE k t) s =
     (if ss_entries k now s = [] then s else od_set k (ss_entries k now s, Some (now + of_int t)) s)"
| "ss_exec now _ s = s"

definition store_ops :: "stream_store stream_ops" where
  "store_ops = \<lparr>so_exec = ss_exec, so_entries = ss_entries, so_deadline = ss_deadline\<rparr>"

lemma due_None [simp]: "\<not> due now None"
  by (simp add: due_def)

lemma due_Some [simp]: "due now (Some d) \<longleftrightarrow> d \<le> now"
  by (simp add: due_def)

lemma store_ops_laws: "stream_laws store_ops"
proof -
  have a: "due now (ss_deadline k s) \<Longrightarrow> ss_entries k now s = []" for now k s
    by (simp add: ss_deadline_def ss_entries_def split: option.splits prod.splits)
  have b: "now \<le> now' \<Longrightarrow> \<not> due now' (ss_deadline k s) \<Longrightarrow> ss_entries k now' s = ss_entries k now s" for now now' k s
    by (auto simp: ss_deadline_def ss_entries_def due_def split: option.splits)
  have c: "ss_deadline k (ss_exec now (XADD k fs m) s) = (if ss_entries k now s = [] then None else ss_deadline k s)" for now k fs m s
    by (simp add: ss_deadline_def)
  have d: "ss_entries k now (ss_exec now (XADD k fs m) s) = ss_entries k now s @ [fs]" for now k fs m s
    using a [of now k s] by (auto simp: ss_entries_def [of k now "od_set _ _ _"])
  have e: "0 < t \<Longrightarrow> ss_entries k now s \<noteq> [] \<Longrightarrow> ss_deadline k (ss_exec now (EXPIRE k t) s) = Some (now + of_int t)
      \<and> ss_entries k now (ss_exec now (EXPIRE k t) s) = ss_entries k now s" for now k t s
    by (simp add: ss_deadline_def ss_entries_def [of k now "od_set _ _ _"])
  show ?thesis unfolding stream_laws_def store_ops_def using a b c d e by simp
qed

text \<open>Commands executed at one time, and in sequence at several.\<close>

definition so_run :: "'s stream_ops \<Rightarrow> real \<Rightarrow> redis_cmd list \<Rightarrow> 's \<Rightarrow> 's" where
  "so_run ops now cs s = fold (so_exec ops now) cs s"

text \<open>The outputs of a module, each emitted at a time, with every Redis call answered.\<close>

fun timed_outputs ::
    "'s stream_ops \<Rightarrow> (pstruct \<Rightarrow> string) \<Rightarrow> stream_settings \<Rightarrow> string \<Rightarrow> (real \<times> pstruct) list \<Rightarrow> out_state \<Rightarrow> 's \<Rightarrow> out_state \<times> 's" where
  "timed_outputs ops ser cfg tid [] st s = (st, s)"
| "timed_outputs ops ser cfg tid ((t, d) # ds) st s =
     (case on_output ser cfg tid d True True st of
        (st1, cs, _) \<Rightarrow> timed_outputs ops ser cfg tid ds st1 (so_run ops t cs s))"


lemma laws_gone: "stream_laws ops \<Longrightarrow> so_deadline ops k s = Some d \<Longrightarrow> d \<le> now \<Longrightarrow> so_entries ops k now s = []"
  unfolding stream_laws_def by simp

lemma laws_wait:
  "stream_laws ops \<Longrightarrow> now \<le> now' \<Longrightarrow> \<not> due now' (so_deadline ops k s) \<Longrightarrow> so_entries ops k now' s = so_entries ops k now s"
proof -
  assume a: "stream_laws ops" "now \<le> now'" "\<not> due now' (so_deadline ops k s)"
  have "\<forall>k now now' s. now \<le> now' \<and> \<not> due now' (so_deadline ops k s) \<longrightarrow> so_entries ops k now' s = so_entries ops k now s"
    using a(1) unfolding stream_laws_def by (elim conjE)
  with a(2,3) show ?thesis by blast
qed

lemma laws_xadd:
  assumes "stream_laws ops" and "\<And>n. m = Some n \<Longrightarrow> length (so_entries ops k now s) < n"
  shows "so_deadline ops k (so_exec ops now (XADD k fs m) s) = (if so_entries ops k now s = [] then None else so_deadline ops k s)"
    and "so_entries ops k now (so_exec ops now (XADD k fs m) s) = so_entries ops k now s @ [fs]"
proof -
  have "\<forall>k now fs m s. so_deadline ops k (so_exec ops now (XADD k fs m) s) = (if so_entries ops k now s = [] then None else so_deadline ops k s)"
    using assms(1) unfolding stream_laws_def by (elim conjE)
  then show "so_deadline ops k (so_exec ops now (XADD k fs m) s) = (if so_entries ops k now s = [] then None else so_deadline ops k s)"
    by (elim allE)
  have "\<forall>k now fs m s. (\<forall>n. m = Some n \<longrightarrow> length (so_entries ops k now s) < n) \<longrightarrow>
        so_entries ops k now (so_exec ops now (XADD k fs m) s) = so_entries ops k now s @ [fs]"
    using assms(1) unfolding stream_laws_def by (elim conjE)
  then have "(\<forall>n. m = Some n \<longrightarrow> length (so_entries ops k now s) < n) \<longrightarrow>
        so_entries ops k now (so_exec ops now (XADD k fs m) s) = so_entries ops k now s @ [fs]"
    by (elim allE)
  with assms(2) show "so_entries ops k now (so_exec ops now (XADD k fs m) s) = so_entries ops k now s @ [fs]" by simp
qed

lemma laws_expire:
  assumes "stream_laws ops" and "0 < t" and "so_entries ops k now s \<noteq> []"
  shows "so_deadline ops k (so_exec ops now (EXPIRE k t) s) = Some (now + of_int t)"
    and "so_entries ops k now (so_exec ops now (EXPIRE k t) s) = so_entries ops k now s"
proof -
  have "\<forall>k now t s. 0 < t \<and> so_entries ops k now s \<noteq> [] \<longrightarrow>
        so_deadline ops k (so_exec ops now (EXPIRE k t) s) = Some (now + of_int t)
        \<and> so_entries ops k now (so_exec ops now (EXPIRE k t) s) = so_entries ops k now s"
    using assms(1) unfolding stream_laws_def by (elim conjE)
  then have "0 < t \<and> so_entries ops k now s \<noteq> [] \<longrightarrow>
        so_deadline ops k (so_exec ops now (EXPIRE k t) s) = Some (now + of_int t)
        \<and> so_entries ops k now (so_exec ops now (EXPIRE k t) s) = so_entries ops k now s"
    by (elim allE)
  with assms(2,3) show "so_deadline ops k (so_exec ops now (EXPIRE k t) s) = Some (now + of_int t)"
    and "so_entries ops k now (so_exec ops now (EXPIRE k t) s) = so_entries ops k now s" by simp_all
qed

text \<open>The first output of a task, and a later one.\<close>

lemma first_output:
  assumes "stream_laws ops" and "is_end_output d = Some False" and "\<not> ou_first_logged st"
    and "0 < redis_stream_initial_ttl cfg" and "length (so_entries ops (stream_key tid) t s) < redis_stream_maxlen cfg"
    and "on_output ser cfg tid d True True st = (st1, cs, err)" and "s1 = so_run ops t cs s"
  shows "ou_first_logged st1 \<and> ou_seq st1 = ou_seq st + 1
    \<and> so_deadline ops (stream_key tid) s1 = Some (t + of_int (redis_stream_initial_ttl cfg))
    \<and> so_entries ops (stream_key tid) t s1 = so_entries ops (stream_key tid) t s @ payload_fields ser (ou_seq st + 1) [d]"
proof -
  let ?k = "stream_key tid"
  let ?x = "XADD ?k [(''pb'', ser d), (''seq'', py_str (ou_seq st + 1))] (Some (redis_stream_maxlen cfg))"
  let ?s = "so_exec ops t ?x s"
  have x: "so_entries ops ?k t ?s = so_entries ops ?k t s @ [[(''pb'', ser d), (''seq'', py_str (ou_seq st + 1))]]"
    using assms(5) by (intro laws_xadd [OF assms(1)]) simp
  then have ne: "so_entries ops ?k t ?s \<noteq> []" by simp
  have o: "st1 = \<lparr>ou_seq = ou_seq st + 1, ou_first_logged = True\<rparr> \<and> cs = [?x, EXPIRE ?k (redis_stream_initial_ttl cfg)]"
    using assms(2,3,6) by (auto simp: on_output_def Let_def)
  have s1: "s1 = so_exec ops t (EXPIRE ?k (redis_stream_initial_ttl cfg)) ?s"
    using o by (simp add: assms(7) so_run_def)
  from laws_expire [OF assms(1,4) ne] x o show ?thesis by (simp add: s1)
qed

lemma later_output:
  assumes "stream_laws ops" and "is_end_output d = Some False" and "ou_first_logged st"
    and "length (so_entries ops (stream_key tid) t s) < redis_stream_maxlen cfg"
    and "on_output ser cfg tid d True True st = (st1, cs, err)" and "s1 = so_run ops t cs s"
  shows "ou_first_logged st1 \<and> ou_seq st1 = ou_seq st + 1
    \<and> so_deadline ops (stream_key tid) s1 = (if so_entries ops (stream_key tid) t s = [] then None else so_deadline ops (stream_key tid) s)
    \<and> so_entries ops (stream_key tid) t s1 = so_entries ops (stream_key tid) t s @ payload_fields ser (ou_seq st + 1) [d]"
proof -
  let ?x = "XADD (stream_key tid) [(''pb'', ser d), (''seq'', py_str (ou_seq st + 1))] (Some (redis_stream_maxlen cfg))"
  have o: "st1 = st\<lparr>ou_seq := ou_seq st + 1\<rparr> \<and> cs = [?x]"
    using assms(2,3,5) by (auto simp: on_output_def Let_def)
  then have s1: "s1 = so_exec ops t ?x s" by (simp add: assms(6) so_run_def)
  have "length (so_entries ops (stream_key tid) t s) < n" if "Some (redis_stream_maxlen cfg) = Some n" for n
    using that assms(4) by simp
  note x = laws_xadd [OF assms(1), where m = "Some (redis_stream_maxlen cfg)" and k = "stream_key tid" and now = t and s = s, OF this]
  show ?thesis using o assms(3) by (simp add: s1 x)
qed

lemma payload_fields_append:
  "payload_fields ser q (ds @ es) = payload_fields ser q ds @ payload_fields ser (q + int (length ds)) es"
  by (induction ser q ds rule: payload_fields.induct) (simp_all add: ac_simps)

lemma length_payload_fields [simp]: "length (payload_fields ser q ds) = length ds"
  by (induction ser q ds rule: payload_fields.induct) simp_all

lemma timed_later:
  assumes "stream_laws ops" and "ou_first_logged st" and "so_deadline ops (stream_key tid) s = Some dl"
    and "so_entries ops (stream_key tid) t s = es" and "es \<noteq> []" and "sorted (t # map fst ds)"
    and "\<forall>(t', d)\<in>set ds. t' < dl \<and> is_end_output d = Some False"
    and "length es + length ds \<le> redis_stream_maxlen cfg"
    and "timed_outputs ops ser cfg tid ds st s = (st', s')"
    and "last (t # map fst ds) \<le> now" and "now < dl"
  shows "so_entries ops (stream_key tid) now s' = es @ payload_fields ser (ou_seq st + 1) (map snd ds)
    \<and> so_deadline ops (stream_key tid) s' = Some dl"
  using assms(2-10)
proof (induction ds arbitrary: st s t es)
  case Nil
  with laws_wait [OF assms(1), of t now "stream_key tid" s] assms(11) show ?case by simp
next
  case (Cons p ds)
  obtain t1 d where p: "p = (t1, d)" by (cases p)
  let ?k = "stream_key tid"
  obtain st1 cs err where o: "on_output ser cfg tid d True True st = (st1, cs, err)" by (metis prod_cases3)
  let ?s1 = "so_run ops t1 cs s"
  have d: "is_end_output d = Some False" "t1 < dl" using Cons.prems(6) by (simp_all add: p)
  have t1: "t \<le> t1" using Cons.prems(5) by (simp add: p)
  have e1: "so_entries ops ?k t1 s = es"
    using laws_wait [OF assms(1) t1, of ?k s] Cons.prems(2,3) d(2) by simp
  have len: "length (so_entries ops ?k t1 s) < redis_stream_maxlen cfg"
    using Cons.prems(7) by (simp add: e1)
  from later_output [OF assms(1) d(1) Cons.prems(1) len o refl] Cons.prems(2,4)
  have n: "ou_first_logged st1" "ou_seq st1 = ou_seq st + 1" "so_deadline ops ?k ?s1 = Some dl"
    "so_entries ops ?k t1 ?s1 = es @ payload_fields ser (ou_seq st + 1) [d]"
    by (simp_all add: e1)
  have run: "timed_outputs ops ser cfg tid ds st1 ?s1 = (st', s')"
    using Cons.prems(8) by (simp add: p o)
  have "so_entries ops ?k now s' = (es @ payload_fields ser (ou_seq st + 1) [d]) @ payload_fields ser (ou_seq st1 + 1) (map snd ds)
      \<and> so_deadline ops ?k s' = Some dl"
    using Cons.prems by (intro Cons.IH [OF n(1,3,4) _ _ _ _ run]) (auto simp: p)
  then show ?case by (simp add: p n(2) ac_simps)
qed



definition ttl_demo :: stream_settings where
  "ttl_demo = \<lparr>redis_stream_maxlen = 1000, redis_stream_initial_ttl = 600, redis_stream_ttl = 360\<rparr>"

definition seeded_demo :: stream_store where
  "seeded_demo = [(stream_key ''t'', ([[(''pb'', ''start''), (''seq'', ''0'')]], None))]"

lemma is_end_demo: "is_end_output (sentinel_struct ''stream.end'' []) = Some True" "is_end_output [] = Some False"
  by (simp_all add: is_end_output_def sentinel_struct_def od_get_Cons)


text \<open>
  A long run loses its output. The runner sets the initial time to live once, at the first output,
  and nothing renews it: if the next output comes when it has passed, the stream has been deleted
  by then. It now starts with that output - the seeded entry and the first output are gone, whatever
  a consumer still had to read - and, until an end marker is written, it never expires.
\<close>

theorem long_run_loses_output:
  assumes "stream_laws ops" and "so_entries ops (stream_key tid) t0 s = [seed]"
    and "is_end_output d0 = Some False" and "is_end_output d1 = Some False"
    and "0 < redis_stream_initial_ttl cfg" and "2 \<le> redis_stream_maxlen cfg"
    and "t0 + of_int (redis_stream_initial_ttl cfg) \<le> t1" and "t1 \<le> now"
    and "timed_outputs ops ser cfg tid [(t0, d0), (t1, d1)] out_init s = (st', s')"
  shows "so_entries ops (stream_key tid) now s' = payload_fields ser 2 [d1] \<and> so_deadline ops (stream_key tid) s' = None"
proof -
  let ?k = "stream_key tid"
  obtain st1 cs err where o: "on_output ser cfg tid d0 True True out_init = (st1, cs, err)" by (metis prod_cases3)
  let ?s1 = "so_run ops t0 cs s"
  have new: "\<not> ou_first_logged out_init" by (simp add: out_init_def)
  have len: "length (so_entries ops ?k t0 s) < redis_stream_maxlen cfg" using assms(2,6) by simp
  from first_output [OF assms(1,3) new assms(5) len o refl]
  have f: "ou_first_logged st1" "ou_seq st1 = 1" "so_deadline ops ?k ?s1 = Some (t0 + of_int (redis_stream_initial_ttl cfg))"
    by (simp_all add: out_init_def)
  have gone: "so_entries ops ?k t1 ?s1 = []" by (rule laws_gone [OF assms(1) f(3) assms(7)])
  obtain st2 cs2 err2 where o2: "on_output ser cfg tid d1 True True st1 = (st2, cs2, err2)" by (metis prod_cases3)
  have s': "s' = so_run ops t1 cs2 ?s1" using assms(9) by (simp add: o o2)
  have len1: "length (so_entries ops ?k t1 ?s1) < redis_stream_maxlen cfg" using assms(6) by (simp add: gone)
  from later_output [OF assms(1,4) f(1) len1 o2 s'] f(2)
  have e: "so_deadline ops ?k s' = None" "so_entries ops ?k t1 s' = payload_fields ser 2 [d1]" by (simp_all add: gone)
  have "\<not> due now (so_deadline ops ?k s')" by (simp add: e(1))
  from laws_wait [OF assms(1,8) this] e show ?thesis by simp
qed

theorem long_run_loses_output_witness:
  "\<exists>st' s'. timed_outputs store_ops (\<lambda>d. ''x'') ttl_demo ''t'' [(0, []), (601, [])] out_init seeded_demo = (st', s')
    \<and> ss_entries (stream_key ''t'') 602 s' = [[(''pb'', ''x''), (''seq'', ''2'')]]"
proof -
  obtain st' s' where r: "timed_outputs store_ops (\<lambda>d. ''x'') ttl_demo ''t'' [(0, []), (601, [])] out_init seeded_demo = (st', s')"
    by (cases "timed_outputs store_ops (\<lambda>d. ''x'') ttl_demo ''t'' [(0, []), (601, [])] out_init seeded_demo")
  have seed: "so_entries store_ops (stream_key ''t'') 0 seeded_demo = [[(''pb'', ''start''), (''seq'', ''0'')]]"
    by (simp add: store_ops_def ss_entries_def seeded_demo_def od_get_Cons)
  have two: "py_str 2 = ''2''" by code_simp
  have "so_entries store_ops (stream_key ''t'') 602 s' = payload_fields (\<lambda>d. ''x'') 2 [[]] \<and> so_deadline store_ops (stream_key ''t'') s' = None"
    by (rule long_run_loses_output [OF store_ops_laws seed is_end_demo(2) is_end_demo(2) _ _ _ _ r])
      (simp_all add: ttl_demo_def)
  with r show ?thesis by (simp add: store_ops_def two)
qed

end
