(* ===== verification/Module_Lifecycle.thy ===== *)
theory Module_Lifecycle
  imports Prelude
begin

text \<open>
  The life of one module instance, \<open>modules/_base_module.py\<close>: \<open>prepare\<close>, \<open>run\<close>, \<open>start\<close>, \<open>stop\<close> and
  \<open>start_config_setup\<close>, and the choice of a trigger handler in \<open>utils/package_discover.py\<close>. What the
  module's own hooks and the output callback do is an input: each call's exception, if any. The
  calls made and the messages sent are events.
\<close>

section \<open>State, exceptions and events\<close>

datatype ModuleStatus = CREATED | STARTING | RUNNING | STOPPING | STOPPED | FAILED | CANCELLED | NOT_FOUND

record base_module =
  bm_status :: ModuleStatus
  bm_prepared :: bool
  bm_callback :: bool              \<comment> \<open>\<open>send_message\<close> is installed on the context\<close>
  bm_builds_cache :: bool          \<comment> \<open>the class's \<open>_builds_tool_cache\<close>\<close>
  bm_prebuilt :: bool              \<comment> \<open>a tool cache was handed to the constructor\<close>

definition bm_init :: "bool \<Rightarrow> bool \<Rightarrow> base_module" where
  "bm_init builds_cache prebuilt = \<lparr>bm_status = CREATED, bm_prepared = False, bm_callback = False,
     bm_builds_cache = builds_cache, bm_prebuilt = prebuilt\<rparr>"

text \<open>\<open>ModCancelled\<close> is \<open>CancelledError\<close>, which is no \<open>Exception\<close>; the others carry type name and text.\<close>

datatype mod_exc = PermissionDenied string | ModError string string | ModCancelled

datatype mod_event = BuildToolCache | RehydrateTools | Initialize | InitHandlers | SetLimits | Handle
  | FlushHistory | Cleanup | FlushAll | SendCode string string string | SendEnd | DoneCallback
  | ResolveTools | RunConfigSetup | SendSetup

record mod_env =
  mo_build_cache :: "mod_exc option"
  mo_rehydrate :: "mod_exc option"
  mo_initialize :: "mod_exc option"
  mo_init_handlers :: "mod_exc option"
  mo_validate :: "mod_exc option"
  mo_has_limits :: bool            \<comment> \<open>the input carries cost limits and the context a cost service\<close>
  mo_set_limits :: "mod_exc option"
  mo_get_trigger :: "mod_exc option"
  mo_handle :: "mod_exc option"
  mo_flush :: "mod_exc option"
  mo_send_code :: "mod_exc option" \<comment> \<open>of the callback, when an error code is sent\<close>
  mo_has_done :: bool
  mo_done :: "mod_exc option"
  mo_cleanup :: "mod_exc option"
  mo_flush_all :: "mod_exc option"
  mo_send_end :: "mod_exc option"

section \<open>Preparing and running\<close>

definition bm_prepare :: "mod_env \<Rightarrow> base_module \<Rightarrow> mod_event list \<times> mod_exc option \<times> base_module" where
  "bm_prepare env m =
     (if bm_prepared m then ([], None, m)
      else case steps
          ((if bm_builds_cache m
            then (if bm_prebuilt m then [] else [(mo_build_cache env, [BuildToolCache])]) @ [(mo_rehydrate env, [RehydrateTools])]
            else [])
           @ [(mo_initialize env, [Initialize]), (mo_init_handlers env, [InitHandlers])]) of
        (evs, r) \<Rightarrow> (evs, r, m\<lparr>bm_callback := True, bm_prepared := (r = None)\<rparr>))"

definition bm_run :: "mod_env \<Rightarrow> mod_event list \<times> mod_exc option" where
  "bm_run env = steps
     ([(mo_validate env, [])] @ (if mo_has_limits env then [(mo_set_limits env, [SetLimits])] else [])
      @ [(mo_get_trigger env, []), (mo_handle env, [Handle]), (mo_flush env, [FlushHistory])])"

text \<open>An exception of a guarded call: only a cancellation gets through \<open>except Exception\<close>.\<close>

definition swallowed :: "mod_exc option \<Rightarrow> mod_exc option" where
  "swallowed r = (if r = Some ModCancelled then r else None)"

definition bm_run_lifecycle :: "mod_env \<Rightarrow> base_module \<Rightarrow> mod_event list \<times> mod_exc option \<times> base_module" where
  "bm_run_lifecycle env m =
     (case bm_run env of
        (evs, None) \<Rightarrow> (evs, None, m\<lparr>bm_status := STOPPING\<rparr>)
      | (evs, Some ModCancelled) \<Rightarrow> (evs, Some ModCancelled, m\<lparr>bm_status := CANCELLED\<rparr>)
      | (evs, Some (PermissionDenied msg)) \<Rightarrow>
          (evs @ [SendCode ''PermissionDenied'' ''Permission denied'' msg], swallowed (mo_send_code env), m\<lparr>bm_status := FAILED\<rparr>)
      | (evs, Some (ModError ty msg)) \<Rightarrow>
          (evs @ [SendCode ''Error'' ''Module execution failed'' msg], swallowed (mo_send_code env), m\<lparr>bm_status := FAILED\<rparr>))"

definition bm_stop :: "mod_env \<Rightarrow> base_module \<Rightarrow> mod_event list \<times> mod_exc option \<times> base_module" where
  "bm_stop env m =
     (if bm_status m \<in> {STOPPED, FAILED} then ([], None, m)
      else case steps ([(mo_cleanup env, [Cleanup]), (swallowed (mo_flush_all env), [FlushAll])]
            @ (if bm_callback m then [(mo_send_end env, [SendEnd])] else [])) of
        (evs, None) \<Rightarrow> (evs, None, m\<lparr>bm_status := STOPPED\<rparr>)
      | (evs, Some ModCancelled) \<Rightarrow> (evs, Some ModCancelled, m\<lparr>bm_status := STOPPING\<rparr>)
      | (evs, Some e) \<Rightarrow> (evs, None, m\<lparr>bm_status := FAILED\<rparr>))"

text \<open>The handlers of \<open>start\<close> for a failed \<open>prepare\<close>: code message (its own exception \<open>r\<close>), done callback, stop.\<close>

definition bm_give_up ::
    "mod_env \<Rightarrow> mod_event \<Rightarrow> mod_exc option \<Rightarrow> base_module \<Rightarrow> mod_event list \<times> mod_exc option \<times> base_module" where
  "bm_give_up env ev r m =
     (case steps ([(r, [ev])] @ (if mo_has_done env then [(mo_done env, [DoneCallback])] else [])) of
        (evs, Some e) \<Rightarrow> (evs, Some e, m)
      | (evs, None) \<Rightarrow> (case bm_stop env m of (evs', r', m') \<Rightarrow> (evs @ evs', r', m')))"

definition error_detail :: "string \<Rightarrow> string \<Rightarrow> string" where
  "error_detail ty msg = (if msg = '''' then ty else ty @ '': '' @ msg)"

definition bm_start :: "mod_env \<Rightarrow> base_module \<Rightarrow> mod_event list \<times> mod_exc option \<times> base_module" where
  "bm_start env m =
     (case bm_prepare env m of
        (evs, Some ModCancelled, m1) \<Rightarrow> (evs, Some ModCancelled, m1)
      | (evs, Some (PermissionDenied msg), m1) \<Rightarrow>
          (case bm_give_up env (SendCode ''PermissionDenied'' ''Permission denied'' msg) (swallowed (mo_send_code env))
                  (m1\<lparr>bm_status := FAILED\<rparr>) of
             (evs', r, m2) \<Rightarrow> (evs @ evs', r, m2))
      | (evs, Some (ModError ty msg), m1) \<Rightarrow>
          (case bm_give_up env (SendCode ''Error'' ''Error initializing module'' (error_detail ty msg)) (mo_send_code env)
                  (m1\<lparr>bm_status := FAILED\<rparr>) of
             (evs', r, m2) \<Rightarrow> (evs @ evs', r, m2))
      | (evs, None, m1) \<Rightarrow>
          (case bm_run_lifecycle env m1 of
             (evs1, r1, m2) \<Rightarrow> (case bm_stop env m2 of
                (evs2, r2, m3) \<Rightarrow> (evs @ evs1 @ evs2, (if r2 = None then r1 else r2), m3))))"

text \<open>
  \<open>start_config_setup\<close>: tools are resolved only by classes that build a cache; \<open>resolve\<close>, \<open>config\<close> and
  \<open>send\<close> are the exceptions of the resolution, of the configuration with the new setup model, and
  of the callback.
\<close>

definition bm_config_setup ::
    "mod_exc option \<Rightarrow> mod_exc option \<Rightarrow> mod_exc option \<Rightarrow> base_module \<Rightarrow> mod_event list \<times> mod_exc option \<times> base_module" where
  "bm_config_setup resolve config send m =
     (case steps ((if bm_builds_cache m then [(resolve, [ResolveTools])] else [])
           @ [(config, [RunConfigSetup]), (send, [SendSetup])]) of
        (evs, None) \<Rightarrow> (evs, None, m\<lparr>bm_status := STOPPING\<rparr>)
      | (evs, Some ModCancelled) \<Rightarrow> (evs, Some ModCancelled, m\<lparr>bm_status := RUNNING\<rparr>)
      | (evs, Some e) \<Rightarrow> (evs, None, m\<lparr>bm_status := FAILED\<rparr>))"

section \<open>Choosing a handler\<close>

text \<open>
  Handler classes are registered per protocol, in order and possibly more than once; \<open>init_handlers\<close>
  instantiates the set of them in the set's iteration order, which is an input here: \<open>order\<close> lists
  each class of its argument once. \<open>accepts\<close> is the \<open>isinstance\<close> test of the class's input format.
\<close>

type_synonym 'c trigger_table = "(string, 'c list) odict"

definition register_trigger :: "string \<Rightarrow> 'c \<Rightarrow> 'c trigger_table \<Rightarrow> 'c trigger_table" where
  "register_trigger protocol c t =
     od_set protocol ((case od_get t protocol of None \<Rightarrow> [] | Some cs \<Rightarrow> cs) @ [c]) t"

definition init_handlers :: "('c list \<Rightarrow> 'c list) \<Rightarrow> 'c trigger_table \<Rightarrow> 'c trigger_table" where
  "init_handlers order t = map (\<lambda>(p, cs). (p, order cs)) t"

datatype trigger_error = NoProtocol string | NoFormat string

definition get_trigger :: "('c \<Rightarrow> 'i \<Rightarrow> bool) \<Rightarrow> 'c trigger_table \<Rightarrow> string \<Rightarrow> 'i \<Rightarrow> trigger_error + 'c" where
  "get_trigger accepts handlers protocol input =
     (case od_get handlers protocol of
        None \<Rightarrow> Inl (NoProtocol protocol)
      | Some cs \<Rightarrow> (case List.find (\<lambda>c. accepts c input) cs of None \<Rightarrow> Inl (NoFormat protocol) | Some c \<Rightarrow> Inr c))"

section \<open>Start and stop\<close>

text \<open>How the calls of \<open>prepare\<close> and of \<open>run\<close> end.\<close>

abbreviation prepare_result :: "mod_env \<Rightarrow> base_module \<Rightarrow> mod_exc option" where
  "prepare_result env m \<equiv> fst (snd (bm_prepare env m))"

abbreviation run_result :: "mod_env \<Rightarrow> mod_exc option" where
  "run_result env \<equiv> snd (bm_run env)"

definition live_module :: "base_module \<Rightarrow> bool" where
  "live_module m \<longleftrightarrow> bm_status m \<notin> {STOPPED, FAILED} \<and> (bm_prepared m \<longrightarrow> bm_callback m)"

text \<open>The events of the end of a module's life, which only \<open>stop\<close> produces.\<close>

abbreviation ending :: "mod_event set" where
  "ending \<equiv> {Cleanup, FlushAll, SendEnd}"

lemma prepare_no_ending: "set (fst (bm_prepare env m)) \<inter> ending = {}"
proof -
  have "ev \<notin> ending" if h: "ev \<in> set (fst (bm_prepare env m))" for ev
  proof
    assume e: "ev \<in> ending"
    with h have "\<not> bm_prepared m" by (auto simp: bm_prepare_def)
    with h obtain ss where "ev \<in> set (fst (steps ss))"
      "ss = (if bm_builds_cache m
            then (if bm_prebuilt m then [] else [(mo_build_cache env, [BuildToolCache])]) @ [(mo_rehydrate env, [RehydrateTools])]
            else [])
           @ [(mo_initialize env, [Initialize]), (mo_init_handlers env, [InitHandlers])]"
      by (simp add: bm_prepare_def case_prod_beta)
    with steps_events [of ev ss] e show False by (auto split: if_splits)
  qed
  then show ?thesis by blast
qed

lemma run_no_ending: "set (fst (bm_run env)) \<inter> ending = {}"
proof -
  have "ev \<notin> ending" if "ev \<in> set (fst (bm_run env))" for ev
    using steps_events [OF that [unfolded bm_run_def]] by (auto split: if_splits)
  then show ?thesis by blast
qed

lemma lifecycle_cases:
  "bm_run_lifecycle env m = (evs, r, m') \<Longrightarrow>
    set evs \<inter> ending = {} \<and> bm_callback m' = bm_callback m
    \<and> (run_result env = None \<longrightarrow> r = None \<and> bm_status m' = STOPPING)
    \<and> (run_result env = Some ModCancelled \<longrightarrow> r = Some ModCancelled \<and> bm_status m' = CANCELLED)
    \<and> (run_result env \<notin> {None, Some ModCancelled} \<longrightarrow> r = swallowed (mo_send_code env) \<and> bm_status m' = FAILED)"
  using run_no_ending [of env]
  by (auto simp: bm_run_lifecycle_def split: prod.splits option.splits mod_exc.splits)

lemma stop_over: "bm_status m \<in> {STOPPED, FAILED} \<Longrightarrow> bm_stop env m = ([], None, m)"
  by (simp add: bm_stop_def)

text \<open>The result of a \<open>stop\<close> that does something.\<close>

definition stop_clean :: "mod_env \<Rightarrow> bool" where
  "stop_clean env \<longleftrightarrow> mo_cleanup env = None \<and> mo_flush_all env \<noteq> Some ModCancelled \<and> mo_send_end env = None"

lemma stop_runs:
  assumes "bm_status m \<notin> {STOPPED, FAILED}" and "bm_callback m" and "bm_stop env m = (evs, r, m')"
  shows "(stop_clean env \<longrightarrow> evs = [Cleanup, FlushAll, SendEnd] \<and> r = None \<and> bm_status m' = STOPPED)
    \<and> (\<not> stop_clean env \<longrightarrow> bm_status m' \<noteq> STOPPED)
    \<and> (\<exists>rest. evs = Cleanup # rest \<and> rest \<in> {[], [FlushAll], [FlushAll, SendEnd]})
    \<and> (r = None \<longrightarrow> bm_status m' \<in> {STOPPED, FAILED})"
  using assms
  by (cases "mo_cleanup env"; cases "mo_flush_all env"; cases "mo_send_end env")
    (auto simp: bm_stop_def stop_clean_def swallowed_def split: option.splits mod_exc.splits if_splits)

lemma stop_settles: "bm_stop env m = (evs, None, m') \<Longrightarrow> bm_status m' \<in> {STOPPED, FAILED}"
  by (auto simp: bm_stop_def split: option.splits mod_exc.splits if_splits prod.splits)

lemma give_up_failed:
  assumes "bm_status m = FAILED" and "bm_give_up env ev r m = (evs, r', m')"
  shows "set evs \<subseteq> {ev, DoneCallback} \<and> m' = m"
  using assms by (auto simp: bm_give_up_def stop_over split: option.splits prod.splits if_splits)

lemma start_prepared:
  assumes "prepare_result env m = None" and "bm_start env m = (evs, r, m')"
  obtains evs0 m1 evs1 r1 m2 evs2 r2 where "bm_prepare env m = (evs0, None, m1)"
    and "bm_run_lifecycle env m1 = (evs1, r1, m2)" and "bm_stop env m2 = (evs2, r2, m')"
    and "evs = evs0 @ evs1 @ evs2" and "r = (if r2 = None then r1 else r2)"
  using assms by (auto simp: bm_start_def split: prod.splits)

lemma start_unprepared:
  assumes "prepare_result env m = Some e" and "e \<noteq> ModCancelled" and "bm_start env m = (evs, r, m')"
  shows "set evs \<inter> ending = {} \<and> bm_status m' = FAILED"
proof -
  obtain evs0 m1 where p: "bm_prepare env m = (evs0, Some e, m1)" using assms(1) by (metis prod.collapse)
  have no: "set evs0 \<inter> ending = {}" using prepare_no_ending [of env m] by (simp add: p)
  define m2 where "m2 = m1\<lparr>bm_status := FAILED\<rparr>"
  have f: "bm_status m2 = FAILED" by (simp add: m2_def)
  show ?thesis
  proof (cases e)
    case (PermissionDenied msg)
    obtain evs' r' m3 where g: "bm_give_up env (SendCode ''PermissionDenied'' ''Permission denied'' msg)
        (swallowed (mo_send_code env)) m2 = (evs', r', m3)" by (metis prod_cases3)
    with assms(3) p PermissionDenied have "evs = evs0 @ evs'" "m' = m3" by (simp_all add: bm_start_def m2_def)
    with give_up_failed [OF f g] no f show ?thesis by auto
  next
    case (ModError ty msg)
    obtain evs' r' m3 where g: "bm_give_up env (SendCode ''Error'' ''Error initializing module'' (error_detail ty msg))
        (mo_send_code env) m2 = (evs', r', m3)" by (metis prod_cases3)
    with assms(3) p ModError have "evs = evs0 @ evs'" "m' = m3" by (simp_all add: bm_start_def m2_def)
    with give_up_failed [OF f g] no f show ?thesis by auto
  next
    case ModCancelled
    with assms(2) show ?thesis by simp
  qed
qed

lemma prepare_live:
  "live_module m \<Longrightarrow> bm_prepare env m = (evs, None, m1) \<Longrightarrow> bm_callback m1 \<and> bm_status m1 = bm_status m"
  by (auto simp: live_module_def bm_prepare_def split: prod.splits if_splits)


text \<open>A module whose calls all succeed, for the examples.\<close>

definition smooth_env :: mod_env where
  "smooth_env = \<lparr>mo_build_cache = None, mo_rehydrate = None, mo_initialize = None, mo_init_handlers = None,
     mo_validate = None, mo_has_limits = False, mo_set_limits = None, mo_get_trigger = None, mo_handle = None,
     mo_flush = None, mo_send_code = None, mo_has_done = False, mo_done = None, mo_cleanup = None,
     mo_flush_all = None, mo_send_end = None\<rparr>"


lemma failed_module_ends:
  assumes "live_module m" and "bm_start env m = (evs, r, m')"
    and "prepare_result env m \<notin> {None, Some ModCancelled}
      \<or> prepare_result env m = None \<and> run_result env \<notin> {None, Some ModCancelled}"
  shows "set evs \<inter> ending = {} \<and> bm_status m' = FAILED"
proof (cases "prepare_result env m")
  case None
  then obtain evs0 m1 evs1 r1 m2 evs2 r2 where s: "bm_prepare env m = (evs0, None, m1)"
    "bm_run_lifecycle env m1 = (evs1, r1, m2)" "bm_stop env m2 = (evs2, r2, m')" "evs = evs0 @ evs1 @ evs2"
    using start_prepared [OF None assms(2)] by metis
  from None assms(3) have f: "run_result env \<notin> {None, Some ModCancelled}" by auto
  with lifecycle_cases [OF s(2)] have l: "set evs1 \<inter> ending = {}" "bm_status m2 = FAILED" by auto
  then have "evs2 = []" "m' = m2" using s(3) stop_over [of m2 env] by simp_all
  then show ?thesis using l s(4) prepare_no_ending [of env m] by (auto simp: s(1))
next
  case (Some e)
  with assms(3) have "e \<noteq> ModCancelled" by auto
  from start_unprepared [OF Some this assms(2)] show ?thesis .
qed

text \<open>
  A module that fails is not cleaned up. If preparing it or its run raises, the status is set to
  \<open>FAILED\<close>, and \<open>stop()\<close>, which \<open>start\<close> calls next, takes that for an already stopped module: neither
  then nor at any later \<open>stop()\<close> is \<open>cleanup()\<close> called or the end of the stream sent.
\<close>

theorem failed_module_never_ends:
  assumes "live_module m" and "bm_start env m = (evs, r, m')"
    and "prepare_result env m \<notin> {None, Some ModCancelled}
      \<or> prepare_result env m = None \<and> run_result env \<notin> {None, Some ModCancelled}"
  shows "Cleanup \<notin> set evs \<and> SendEnd \<notin> set evs \<and> bm_status m' = FAILED \<and> bm_stop env' m' = ([], None, m')"
  using failed_module_ends [OF assms] stop_over [of m' env'] by auto

theorem failed_module_never_ends_witness:
  "bm_start (smooth_env\<lparr>mo_handle := Some (ModError ''ValueError'' ''boom'')\<rparr>) (bm_init False False)
      = ([Initialize, InitHandlers, Handle, SendCode ''Error'' ''Module execution failed'' ''boom''], None,
         \<lparr>bm_status = FAILED, bm_prepared = True, bm_callback = True, bm_builds_cache = False, bm_prebuilt = False\<rparr>)
   \<and> Cleanup \<notin> set [Initialize, InitHandlers, Handle, SendCode ''Error'' ''Module execution failed'' ''boom'']"
proof -
  let ?env = "smooth_env\<lparr>mo_handle := Some (ModError ''ValueError'' ''boom'')\<rparr>"
  let ?m' = "\<lparr>bm_status = FAILED, bm_prepared = True, bm_callback = True, bm_builds_cache = False, bm_prebuilt = False\<rparr>"
  let ?evs = "[Initialize, InitHandlers, Handle, SendCode ''Error'' ''Module execution failed'' ''boom'']"
  have run: "bm_start ?env (bm_init False False) = (?evs, None, ?m')" by code_simp
  have l: "live_module (bm_init False False)"
    and f: "prepare_result ?env (bm_init False False) \<notin> {None, Some ModCancelled}
      \<or> prepare_result ?env (bm_init False False) = None \<and> run_result ?env \<notin> {None, Some ModCancelled}"
    by code_simp+
  from failed_module_never_ends [OF l run f] run show ?thesis by blast
qed

section \<open>Which handler is chosen\<close>

text \<open>\<open>order\<close> is an iteration order of sets of classes.\<close>

definition set_order :: "('c list \<Rightarrow> 'c list) \<Rightarrow> bool" where
  "set_order order \<longleftrightarrow> (\<forall>cs. set (order cs) = set cs \<and> distinct (order cs))"

definition registered :: "'c trigger_table \<Rightarrow> string \<Rightarrow> 'c set" where
  "registered t p = (case od_get t p of None \<Rightarrow> {} | Some cs \<Rightarrow> set cs)"

lemma od_get_init_handlers: "od_get (init_handlers order t) p = map_option order (od_get t p)"
  by (simp add: init_handlers_def od_get_def map_of_map)

lemma registered_register [simp]:
  "registered (register_trigger p c t) q = (if q = p then insert c (registered t p) else registered t q)"
  by (auto simp: registered_def register_trigger_def split: option.splits)

lemma get_trigger_Inr:
  "set_order order \<Longrightarrow> get_trigger accepts (init_handlers order t) p i = Inr c \<Longrightarrow> c \<in> registered t p \<and> accepts c i"
  by (auto simp: get_trigger_def od_get_init_handlers registered_def set_order_def find_Some_iff
      dest: nth_mem split: option.splits)

lemma get_trigger_Inl:
  "set_order order \<Longrightarrow> get_trigger accepts (init_handlers order t) p i = Inl e \<Longrightarrow>
    (\<forall>c\<in>registered t p. \<not> accepts c i) \<and> e = (if od_has t p then NoFormat p else NoProtocol p)"
  by (auto simp: get_trigger_def od_get_init_handlers registered_def set_order_def od_has_def find_None_iff
      split: option.splits)

text \<open>
  Dispatch picks the registered handler. An input is handed to a handler class that is registered
  for its protocol and accepts its format, and fails only if there is none; if there is exactly one
  such class it is the one, in whatever order the set of classes is traversed and however often it
  was registered.
\<close>

theorem trigger_dispatch:
  assumes "set_order order"
  shows "(case get_trigger accepts (init_handlers order t) p i of
        Inr c \<Rightarrow> c \<in> registered t p \<and> accepts c i
      | Inl e \<Rightarrow> (\<forall>c\<in>registered t p. \<not> accepts c i) \<and> e = (if od_has t p then NoFormat p else NoProtocol p))
    \<and> (accepts c i \<and> (\<forall>c'\<in>registered t p. accepts c' i \<longrightarrow> c' = c)
        \<longrightarrow> get_trigger accepts (init_handlers order (register_trigger p c t)) p i = Inr c)"
proof -
  have "get_trigger accepts (init_handlers order (register_trigger p c t)) p i = Inr c"
    if u: "accepts c i" "\<forall>c'\<in>registered t p. accepts c' i \<longrightarrow> c' = c"
  proof (cases "get_trigger accepts (init_handlers order (register_trigger p c t)) p i")
    case (Inl e)
    with get_trigger_Inl [OF assms Inl] u(1) show ?thesis by simp
  next
    case (Inr c')
    with get_trigger_Inr [OF assms Inr] u(2) show ?thesis by auto
  qed
  moreover have "case get_trigger accepts (init_handlers order t) p i of
        Inr c \<Rightarrow> c \<in> registered t p \<and> accepts c i
      | Inl e \<Rightarrow> (\<forall>c\<in>registered t p. \<not> accepts c i) \<and> e = (if od_has t p then NoFormat p else NoProtocol p)"
  proof (cases "get_trigger accepts (init_handlers order t) p i")
    case (Inl e)
    with get_trigger_Inl [OF assms Inl] show ?thesis by simp
  next
    case (Inr c')
    with get_trigger_Inr [OF assms Inr] show ?thesis by simp
  qed
  ultimately show ?thesis by blast
qed

lemma set_order_remdups: "set_order remdups"
  by (simp add: set_order_def)

theorem trigger_dispatch_witness:
  "get_trigger (\<lambda>c i. c = i) (init_handlers remdups (register_trigger ''message'' (2::nat)
      (register_trigger ''message'' 2 (register_trigger ''message'' 1 [])))) ''message'' 2 = Inr 2"
proof -
  let ?t = "register_trigger ''message'' (2::nat) (register_trigger ''message'' 1 [])"
  have "\<forall>c'\<in>registered ?t ''message''. c' = (2::nat) \<longrightarrow> c' = 2" by simp
  with trigger_dispatch [OF set_order_remdups, where accepts = "\<lambda>c i. c = i" and t = ?t and p = "''message''" and i = 2 and c = 2]
  show ?thesis by metis
qed

text \<open>Two classes that accept one format: the traversal order of a \<open>set\<close> of classes (their hashes) decides.\<close>

lemma trigger_choice_by_set_order:
  "\<exists>o1 o2. set_order o1 \<and> set_order o2
    \<and> get_trigger (\<lambda>(c::nat) (i::nat). True) (init_handlers o1 [(''message'', [1, 2])]) ''message'' 0 = Inr 1
    \<and> get_trigger (\<lambda>(c::nat) (i::nat). True) (init_handlers o2 [(''message'', [1, 2])]) ''message'' 0 = Inr 2"
  by (rule exI [of _ "remdups"], rule exI [of _ "rev \<circ> remdups"]) (simp add: set_order_def get_trigger_def init_handlers_def od_get_def)

text \<open>
  Config setup: whatever fails, no cancellation aside, the exception is swallowed, the status becomes
  \<open>FAILED\<close> and the caller's callback has not delivered a result.
\<close>

lemma config_setup_outcome:
  "bm_config_setup resolve config send m = (evs, r, m') \<Longrightarrow> r \<noteq> Some ModCancelled \<Longrightarrow>
    r = None \<and> (bm_status m' = FAILED \<longleftrightarrow> (bm_builds_cache m \<and> resolve \<noteq> None) \<or> config \<noteq> None \<or> send \<noteq> None)
    \<and> (SendSetup \<in> set evs \<longleftrightarrow> (bm_builds_cache m \<longrightarrow> resolve = None) \<and> config = None)"
  by (cases resolve; cases config; cases send)
    (auto simp: bm_config_setup_def split: mod_exc.splits if_splits)

end
