(* ===== verification/Job_Manager.thy ===== *)
theory Job_Manager
  imports Task_Manager Module_Lifecycle
begin

text \<open>
  \<open>core/job_manager/single_job_manager.py\<close>: the output queue of a session under the three
  backpressure strategies, the configuration job of a module with its response, and the preparation
  and scheduling of a module instance. The sessions are those of the task manager. What a reader
  takes from a full queue while a writer waits is an input.
\<close>

section \<open>Writing to a session's queue\<close>

datatype BackpressureStrategy = BLOCK | DROP_OLDEST | REJECT

datatype queue_error = QueueTimeout

text \<open>\<open>asyncio.Queue\<close>: a bound of 0 means none.\<close>

definition queue_full :: "nat \<Rightarrow> 'a list \<Rightarrow> bool" where
  "queue_full bound q \<longleftrightarrow> 0 < bound \<and> bound \<le> length q"

text \<open>
  \<open>taken\<close> items are read while the writer waits for room, which it only does at a full queue; with
  none taken the wait times out.
\<close>

definition queue_put ::
    "BackpressureStrategy \<Rightarrow> nat \<Rightarrow> nat \<Rightarrow> 'a \<Rightarrow> 'a list \<Rightarrow> queue_error option \<times> 'a list" where
  "queue_put strategy bound taken x q =
     (case strategy of
        REJECT \<Rightarrow> (None, if queue_full bound q then q else q @ [x])
      | BLOCK \<Rightarrow>
          if \<not> queue_full bound q then (None, q @ [x])
          else if 0 < taken then (None, drop taken q @ [x])
          else (Some QueueTimeout, q)
      | DROP_OLDEST \<Rightarrow>
          if \<not> queue_full bound q then (None, q @ [x])
          else if 0 < taken then (None, drop taken q @ [x])
          else (None, tl q @ [x]))"

text \<open>
  \<open>add_to_queue\<close>: a write to a session that is gone or closed is dropped. \<open>dump\<close> is the output's
  \<open>model_dump\<close>.
\<close>

definition add_to_queue ::
    "('o \<Rightarrow> 'a) \<Rightarrow> BackpressureStrategy \<Rightarrow> nat \<Rightarrow> nat \<Rightarrow> string \<Rightarrow> 'o \<Rightarrow> 'a task_manager \<Rightarrow> queue_error option \<times> 'a task_manager" where
  "add_to_queue dump strategy bound taken jid out tm =
     (case od_get (tm_sessions tm) jid of
        None \<Rightarrow> (None, tm)
      | Some s \<Rightarrow>
          if ts_stream_closed s then (None, tm)
          else case queue_put strategy bound taken (dump out) (ts_queue s) of
            (r, q) \<Rightarrow> (r, tm\<lparr>tm_sessions := od_set jid (s\<lparr>ts_queue := q\<rparr>) (tm_sessions tm)\<rparr>))"

section \<open>Configuration jobs\<close>

text \<open>
  \<open>create_config_setup_instance_job\<close> under a fresh identifier: the session goes straight into the
  table, without a slot; then the module's \<open>start_config_setup\<close> runs with \<open>add_to_queue\<close> as callback,
  to which it hands the setup model \<open>out\<close> if it gets that far. The result is the exception, if any.
\<close>

definition config_session :: "string \<Rightarrow> 'a task_session" where
  "config_session jid = ts_init jid False False"

definition put_config_session :: "string \<Rightarrow> 'a task_manager \<Rightarrow> 'a task_manager" where
  "put_config_session jid tm = tm\<lparr>tm_sessions := od_set jid (config_session jid) (tm_sessions tm)\<rparr>"

definition queue_exc :: "queue_error option \<Rightarrow> mod_exc option" where
  "queue_exc r = map_option (\<lambda>_. ModError ''TimeoutError'' '''') r"

definition drop_session :: "string \<Rightarrow> 'a task_manager \<Rightarrow> 'a task_manager" where
  "drop_session jid tm = tm\<lparr>tm_sessions := od_del jid (tm_sessions tm)\<rparr>"

definition create_config_job ::
    "('o \<Rightarrow> 'a) \<Rightarrow> BackpressureStrategy \<Rightarrow> nat \<Rightarrow> string \<Rightarrow> mod_exc option \<Rightarrow> mod_exc option \<Rightarrow> 'o \<Rightarrow> base_module
      \<Rightarrow> 'a task_manager \<Rightarrow> mod_exc option \<times> base_module \<times> 'a task_manager" where
  "create_config_job dump strategy bound jid resolve config out m tm =
     (let tm1 = put_config_session jid tm;
          w = add_to_queue dump strategy bound 0 jid out tm1;
          c = bm_config_setup resolve config (queue_exc (fst w)) m;
          tm2 = (if SendSetup \<in> set (fst c) then snd w else tm1)
      in case c of (evs, r, m') \<Rightarrow> (r, m', tm2))"

datatype 'a config_reply = ConfigDone 'a | ConfigNotFound | ConfigDeadline

text \<open>
  \<open>generate_config_setup_module_response\<close>: the first item of the queue; with none, nothing will come
  any more (the module has run) and the wait lasts \<open>config_setup_timeout\<close>. The time waited is returned.
\<close>

definition config_response ::
    "real \<Rightarrow> string \<Rightarrow> 'a task_manager \<Rightarrow> 'a config_reply \<times> real \<times> 'a task_manager" where
  "config_response timeout jid tm =
     (case od_get (tm_sessions tm) jid of
        None \<Rightarrow> (ConfigNotFound, 0, tm)
      | Some s \<Rightarrow> (case ts_queue s of
          x # q \<Rightarrow> (ConfigDone x, 0, drop_session jid tm)
        | [] \<Rightarrow> (ConfigDeadline, timeout, drop_session jid tm)))"

section \<open>Preparing and scheduling an instance\<close>

text \<open>
  \<open>preload_instance\<close>: the module is built, the task manager, the setup service and the invalidation
  hook are wired into its context, and then \<open>prepare\<close> runs; its exception propagates.
\<close>

record job_wiring =
  jw_task_manager :: bool
  jw_setup :: bool
  jw_invalidate :: bool
  jw_queue_callback :: bool        \<comment> \<open>the callback is the session queue's, not one handed in\<close>

definition preload_instance ::
    "bool \<Rightarrow> bool \<Rightarrow> bool \<Rightarrow> bool \<Rightarrow> bool \<Rightarrow> mod_env \<Rightarrow> job_wiring \<times> mod_event list \<times> mod_exc option \<times> base_module" where
  "preload_instance builds_cache cached has_setup has_invalidate has_callback env =
     (\<lparr>jw_task_manager = True, jw_setup = has_setup, jw_invalidate = has_invalidate, jw_queue_callback = \<not> has_callback\<rparr>,
      bm_prepare env (bm_init builds_cache cached))"

text \<open>\<open>run_instance\<close>: a task for \<open>module.start\<close>; its error is the task manager's.\<close>

definition run_instance ::
    "string \<Rightarrow> bool \<Rightarrow> bool \<Rightarrow> 'a task_manager \<Rightarrow> (tm_error + string) \<times> 'a task_manager" where
  "run_instance jid state_manager started tm =
     (case create_task jid (ts_init jid True state_manager) started tm of
        (None, tm1) \<Rightarrow> (Inr jid, tm1)
      | (Some e, tm1) \<Rightarrow> (Inl e, tm1))"


section \<open>Backpressure\<close>

lemma queue_bounded: "0 < bound \<Longrightarrow> length q \<le> bound \<Longrightarrow> length (snd (queue_put strategy bound taken x q)) \<le> bound"
  by (cases strategy; cases q) (auto simp: queue_put_def queue_full_def)

text \<open>
  What each backpressure strategy keeps. A write never lets the queue grow over its bound. A queue
  with room just gets the item. At a full queue nobody reads, \<open>BLOCK\<close> raises and loses nothing that is
  queued, \<open>DROP_OLDEST\<close> loses exactly the oldest item and always keeps the new one, \<open>REJECT\<close> loses
  exactly the new one; and what a reader took meanwhile is all that else disappears.
\<close>

theorem backpressure_contract:
  assumes "0 < bound" and "length q \<le> bound"
  shows "length (snd (queue_put strategy bound taken x q)) \<le> bound
    \<and> (length q < bound \<longrightarrow> queue_put strategy bound taken x q = (None, q @ [x]))
    \<and> (length q = bound \<longrightarrow>
        queue_put BLOCK bound 0 x q = (Some QueueTimeout, q)
        \<and> queue_put DROP_OLDEST bound 0 x q = (None, tl q @ [x])
        \<and> queue_put REJECT bound taken x q = (None, q)
        \<and> (0 < taken \<and> strategy \<noteq> REJECT \<longrightarrow> queue_put strategy bound taken x q = (None, drop taken q @ [x])))"
  using assms queue_bounded [OF assms, of strategy taken x]
  by (cases strategy) (simp_all add: queue_put_def queue_full_def)

theorem backpressure_contract_witness:
  "queue_put DROP_OLDEST 2 0 (3::nat) [1, 2] = (None, [2, 3]) \<and> queue_put BLOCK 2 0 (3::nat) [1, 2] = (Some QueueTimeout, [1, 2])"
  using backpressure_contract [of 2 "[1, 2 :: nat]" DROP_OLDEST 0 3] by simp

lemma add_to_queue_other:
  "j \<noteq> jid \<Longrightarrow> od_get (tm_sessions (snd (add_to_queue dump strategy bound taken jid out tm))) j = od_get (tm_sessions tm) j"
  by (auto simp: add_to_queue_def split: option.splits prod.splits)

lemma add_to_queue_closed:
  "od_get (tm_sessions tm) jid = Some s \<Longrightarrow> ts_stream_closed s \<Longrightarrow>
    add_to_queue dump strategy bound taken jid out tm = (None, tm)"
  by (simp add: add_to_queue_def)

section \<open>The answer to a configuration request\<close>

lemma config_put:
  "od_get (tm_sessions (put_config_session jid tm)) jid = Some (config_session jid)"
  by (simp add: put_config_session_def)

lemma config_add:
  "snd (add_to_queue dump strategy bound 0 jid out (put_config_session jid tm))
      = (put_config_session jid tm)\<lparr>tm_sessions := od_set jid ((config_session jid)\<lparr>ts_queue := [dump out]\<rparr>)
          (tm_sessions (put_config_session jid tm))\<rparr>
    \<and> fst (add_to_queue dump strategy bound 0 jid out (put_config_session jid tm)) = None"
  by (cases strategy) (auto simp: add_to_queue_def config_put config_session_def ts_init_def queue_put_def queue_full_def)

lemma drop_config:
  "od_get (tm_sessions tm) jid = None \<Longrightarrow>
    drop_session jid (put_config_session jid tm) = tm
    \<and> drop_session jid ((put_config_session jid tm)\<lparr>tm_sessions := od_set jid s (tm_sessions (put_config_session jid tm))\<rparr>) = tm"
  by (simp add: drop_session_def put_config_session_def od_del_set)

text \<open>
  A configuration job answers with the configured setup. If the tools can be resolved and the
  module's \<open>run_config_setup\<close> returns, the response is exactly the setup model handed to the callback;
  if one of them raises, the exception is swallowed and the caller is left to wait the whole
  \<open>config_setup_timeout\<close>, to be told that the module did not respond. Either way the job's session is
  gone afterwards and nothing else has changed.
\<close>

theorem config_job_answer:
  assumes "od_get (tm_sessions tm) jid = None"
    and "create_config_job dump strategy bound jid resolve config out m tm = (r, m', tm1)"
    and "r \<noteq> Some ModCancelled"
  shows "r = None \<and> config_response timeout jid tm1 =
     (if (bm_builds_cache m \<longrightarrow> resolve = None) \<and> config = None then (ConfigDone (dump out), 0, tm)
      else (ConfigDeadline, timeout, tm))"
proof -
  let ?tm0 = "put_config_session jid tm"
  have w: "fst (add_to_queue dump strategy bound 0 jid out ?tm0) = None"
    "snd (add_to_queue dump strategy bound 0 jid out ?tm0)
      = ?tm0\<lparr>tm_sessions := od_set jid ((config_session jid)\<lparr>ts_queue := [dump out]\<rparr>) (tm_sessions ?tm0)\<rparr>"
    using config_add [of dump strategy bound jid out tm] by simp_all
  obtain evs where c: "bm_config_setup resolve config None m = (evs, r, m')"
    using assms(2) by (auto simp: create_config_job_def Let_def w(1) queue_exc_def split: prod.splits)
  let ?ok = "(bm_builds_cache m \<longrightarrow> resolve = None) \<and> config = None"
  note o = config_setup_outcome [OF c assms(3)]
  have tm1: "tm1 = (if ?ok then snd (add_to_queue dump strategy bound 0 jid out ?tm0) else ?tm0)"
    using assms(2) o by (auto simp: create_config_job_def Let_def w(1) queue_exc_def c)
  have "config_response timeout jid tm1 = (if ?ok then (ConfigDone (dump out), 0, tm) else (ConfigDeadline, timeout, tm))"
  proof (cases ?ok)
    case True
    then show ?thesis unfolding tm1 using drop_config [OF assms(1)] by (simp add: w(2) config_response_def)
  next
    case False
    then have t: "tm1 = ?tm0" unfolding tm1 by (simp only: if_False)
    have "config_response timeout jid tm1 = (ConfigDeadline, timeout, tm)"
      unfolding t using drop_config [OF assms(1)]
      by (simp add: config_response_def config_put) (simp add: config_session_def ts_init_def)
    with False show ?thesis by simp
  qed
  with o show ?thesis by blast
qed

theorem config_job_answer_witness:
  "config_response 30 ''j'' (snd (snd (create_config_job (\<lambda>x. x) BLOCK 1000 ''j'' None (Some (ModError ''ValueError'' ''bad'')) (7::nat)
      (bm_init False False) (tm_init 5 5)))) = (ConfigDeadline, 30, tm_init 5 5)"
proof -
  let ?c = "create_config_job (\<lambda>x. x) BLOCK 1000 ''j'' None (Some (ModError ''ValueError'' ''bad'')) (7::nat) (bm_init False False) (tm_init 5 5)"
  have n: "od_get (tm_sessions (tm_init 5 5 :: nat task_manager)) ''j'' = None" by (simp add: tm_init_def)
  have r: "fst ?c = None" by code_simp
  have c: "?c = (fst ?c, fst (snd ?c), snd (snd ?c))" by (cases ?c) auto
  have nc: "fst ?c \<noteq> Some ModCancelled" by (simp add: r)
  from config_job_answer [OF n c nc, of 30] show ?thesis by simp
qed

text \<open>
  A request that is cancelled while the module configures itself leaves its session in the table:
  \<open>except Exception\<close> does not see the cancellation.
\<close>

lemma cancelled_config_leaks_session:
  assumes "create_config_job dump strategy bound jid resolve config out m tm = (Some e, m', tm1)"
  shows "od_has (tm_sessions tm1) jid"
  using assms config_add [of dump strategy bound jid out tm]
  by (auto simp: create_config_job_def Let_def od_has_def config_put split: prod.splits if_splits)

text \<open>
  A configuration session has no slot, but \<open>_cleanup_task\<close>, which \<open>shutdown\<close> and \<open>clean_session\<close> apply to
  every session, gives one back for it.
\<close>

lemma config_session_frees_slot:
  assumes "tm_accounts 0 0 tm" and "od_get (tm_sessions tm) jid = None" and "tm_sessions tm = []"
  shows "tm_slots (fst (cleanup_task jid (put_config_session jid tm))) = tm_max tm + 1"
  using assms
  by (simp add: cleanup_task_def config_put Let_def release_admission_def tm_queued_def put_config_session_def tm_accounts_def)

end
