(* ===== verification/Module_Servicer.thy ===== *)
theory Module_Servicer
  imports Job_Manager Signal_Listener
begin

text \<open>
  \<open>grpc_servers/module_servicer.py\<close>: the setup and tool caches with their expiry, the coalescing of
  concurrent lookups on one future, the configuration request, and the invalidations that other
  processes send (\<open>grpc_servers/module_server.py\<close>). What the services return is an input. The code
  between two \<open>await\<close>s is one step, so a lookup is a \<open>begin\<close> and, for the caller that fetches, an \<open>end\<close>.
\<close>

section \<open>State\<close>

datatype fetch_exc = FetchCancelled | FetchFailed string | LookupFailed string | InvalidState

text \<open>An asyncio future: awaited directly, it is cancelled with the task that awaits it.\<close>

datatype 'r future = Waiting | Resolved "fetch_exc + 'r" | FutCancelled

record ('v, 't) servicer =
  sv_setup_cache :: "(string, real \<times> 'v) odict"
  sv_setup_inflight :: "(string, nat) odict"
  sv_tool_cache :: "(string, 't \<times> real) odict"
  sv_tool_inflight :: "(string, nat) odict"
  sv_setup_futs :: "(nat, 'v future) odict"     \<comment> \<open>futures by identity, for both tables\<close>
  sv_tool_futs :: "(nat, 't option future) odict"

definition sv_init :: "('v, 't) servicer" where
  "sv_init = \<lparr>sv_setup_cache = [], sv_setup_inflight = [], sv_tool_cache = [], sv_tool_inflight = [],
     sv_setup_futs = [], sv_tool_futs = []\<rparr>"

text \<open>Oldest first out, before anything is inserted; the bound is positive.\<close>

definition evicted :: "nat \<Rightarrow> ('k, 'v) odict \<Rightarrow> ('k, 'v) odict" where
  "evicted cap d = (if cap \<le> length d then tl d else d)"

section \<open>Setups\<close>

definition cache_setup :: "nat \<Rightarrow> string \<Rightarrow> real \<Rightarrow> 'v \<Rightarrow> ('v, 't) servicer \<Rightarrow> ('v, 't) servicer" where
  "cache_setup cap sid now v s = s\<lparr>sv_setup_cache := od_set sid (now, v) (evicted cap (sv_setup_cache s))\<rparr>"

datatype 'v setup_start = AccessDenied | Hit 'v | Joined nat | Leading nat

text \<open>
  \<open>resolve_setup\<close> up to its fetch: \<open>allowed\<close> is the answer of the access check, which comes first; \<open>fid\<close>
  is a new future.
\<close>

definition resolve_begin ::
    "real \<Rightarrow> bool \<Rightarrow> real \<Rightarrow> nat \<Rightarrow> string \<Rightarrow> ('v, 't) servicer \<Rightarrow> 'v setup_start \<times> ('v, 't) servicer" where
  "resolve_begin ttl allowed now fid sid s =
     (if \<not> allowed then (AccessDenied, s)
      else
        let miss = (\<lambda>s. case od_get (sv_setup_inflight s) sid of
              Some f \<Rightarrow> (Joined f, s)
            | None \<Rightarrow> (Leading fid, s\<lparr>sv_setup_inflight := od_set sid fid (sv_setup_inflight s),
                                    sv_setup_futs := od_set fid Waiting (sv_setup_futs s)\<rparr>))
        in case od_get (sv_setup_cache s) sid of
             None \<Rightarrow> miss s
           | Some (t, v) \<Rightarrow>
               if now - t < ttl then (Hit v, s)
               else miss (s\<lparr>sv_setup_cache := od_del sid (sv_setup_cache s)\<rparr>))"

text \<open>
  The rest of the caller that fetches: \<open>r\<close> is what the setup service gave (\<open>Inr None\<close>: no such setup).
  The result returned or raised.
\<close>

definition resolve_end ::
    "nat \<Rightarrow> real \<Rightarrow> nat \<Rightarrow> string \<Rightarrow> (fetch_exc + 'v option) \<Rightarrow> ('v, 't) servicer \<Rightarrow> (fetch_exc + 'v) \<times> ('v, 't) servicer" where
  "resolve_end cap now fid sid r s =
     (let fetched = (case r of Inl e \<Rightarrow> Inl e | Inr None \<Rightarrow> Inl (LookupFailed sid) | Inr (Some v) \<Rightarrow> Inr v);
          s1 = (case fetched of Inl e \<Rightarrow> s | Inr v \<Rightarrow> cache_setup cap sid now v s);
          waiting = (od_get (sv_setup_futs s1) fid = Some Waiting);
          s2 = (if waiting then s1\<lparr>sv_setup_futs := od_set fid (Resolved fetched) (sv_setup_futs s1)\<rparr> else s1)
      in (if isl fetched \<or> waiting then fetched else Inl InvalidState,
          s2\<lparr>sv_setup_inflight := od_del sid (sv_setup_inflight s2)\<rparr>))"

text \<open>What a caller that joined gets, once the future is settled; and a joined caller that is cancelled.\<close>

definition joined_result :: "'r future option \<Rightarrow> (fetch_exc + 'r) option" where
  "joined_result f = (case f of
      Some (Resolved r) \<Rightarrow> Some r
    | Some FutCancelled \<Rightarrow> Some (Inl FetchCancelled)
    | _ \<Rightarrow> None)"

definition cancel_future :: "nat \<Rightarrow> (nat, 'r future) odict \<Rightarrow> (nat, 'r future) odict" where
  "cancel_future fid futs = (if od_get futs fid = Some Waiting then od_set fid FutCancelled futs else futs)"

definition setup_follower_cancelled :: "nat \<Rightarrow> ('v, 't) servicer \<Rightarrow> ('v, 't) servicer" where
  "setup_follower_cancelled fid s = s\<lparr>sv_setup_futs := cancel_future fid (sv_setup_futs s)\<rparr>"

definition invalidate_setup_cache :: "('v, 't) servicer \<Rightarrow> ('v, 't) servicer" where
  "invalidate_setup_cache s = s\<lparr>sv_setup_cache := [], sv_setup_inflight := []\<rparr>"

section \<open>Tool caches\<close>

definition get_tool_cache :: "real \<Rightarrow> string \<Rightarrow> ('v, 't) servicer \<Rightarrow> 't option \<times> ('v, 't) servicer" where
  "get_tool_cache now sid s =
     (case od_get (sv_tool_cache s) sid of
        None \<Rightarrow> (None, s)
      | Some (v, expires) \<Rightarrow>
          if expires \<le> now then (None, s\<lparr>sv_tool_cache := od_del sid (sv_tool_cache s)\<rparr>) else (Some v, s))"

definition set_tool_cache :: "nat \<Rightarrow> real \<Rightarrow> real \<Rightarrow> string \<Rightarrow> 't \<Rightarrow> ('v, 't) servicer \<Rightarrow> ('v, 't) servicer" where
  "set_tool_cache cap ttl now sid v s = s\<lparr>sv_tool_cache := od_set sid (v, now + ttl) (evicted cap (sv_tool_cache s))\<rparr>"

definition tools_begin :: "real \<Rightarrow> nat \<Rightarrow> string \<Rightarrow> ('v, 't) servicer \<Rightarrow> 't setup_start \<times> ('v, 't) servicer" where
  "tools_begin now fid sid s =
     (case get_tool_cache now sid s of
        (Some v, s1) \<Rightarrow> (Hit v, s1)
      | (None, s1) \<Rightarrow> (case od_get (sv_tool_inflight s1) sid of
            Some f \<Rightarrow> (Joined f, s1)
          | None \<Rightarrow> (Leading fid, s1\<lparr>sv_tool_inflight := od_set sid fid (sv_tool_inflight s1),
                                    sv_tool_futs := od_set fid Waiting (sv_tool_futs s1)\<rparr>)))"

text \<open>
  \<open>get_or_build_tool_cache\<close> after the builder: \<open>except Exception\<close> settles the future, and a cancellation
  is no \<open>Exception\<close>. Settling a cancelled future raises \<open>InvalidStateError\<close>.
\<close>

definition tools_end ::
    "nat \<Rightarrow> real \<Rightarrow> real \<Rightarrow> nat \<Rightarrow> string \<Rightarrow> (fetch_exc + 't option) \<Rightarrow> ('v, 't) servicer \<Rightarrow> (fetch_exc + 't option) \<times> ('v, 't) servicer" where
  "tools_end cap ttl now fid sid r s =
     (let s1 = (case r of Inr (Some v) \<Rightarrow> set_tool_cache cap ttl now sid v s | _ \<Rightarrow> s);
          waiting = (od_get (sv_tool_futs s1) fid = Some Waiting);
          s2 = (if r \<noteq> Inl FetchCancelled \<and> waiting then s1\<lparr>sv_tool_futs := od_set fid (Resolved r) (sv_tool_futs s1)\<rparr> else s1)
      in (if r = Inl FetchCancelled \<or> waiting then r else Inl InvalidState,
          s2\<lparr>sv_tool_inflight := od_del sid (sv_tool_inflight s2)\<rparr>))"

definition tools_follower_cancelled :: "nat \<Rightarrow> ('v, 't) servicer \<Rightarrow> ('v, 't) servicer" where
  "tools_follower_cancelled fid s = s\<lparr>sv_tool_futs := cancel_future fid (sv_tool_futs s)\<rparr>"

definition invalidate_tool_cache :: "('v, 't) servicer \<Rightarrow> ('v, 't) servicer" where
  "invalidate_tool_cache s = s\<lparr>sv_tool_cache := []\<rparr>"

section \<open>Invalidations from other processes\<close>

text \<open>
  \<open>_handle_cache_invalidation\<close> for the servicer's caches; \<open>INVALIDATE_CHANNELS\<close>, \<open>_MODELS\<close> and \<open>_SHARED\<close>
  concern other caches and leave them alone.
\<close>

definition handle_cache_invalidation :: "string \<Rightarrow> string \<Rightarrow> ('v, 't) servicer \<Rightarrow> ('v, 't) servicer" where
  "handle_cache_invalidation action sid s =
     (if action = ''INVALIDATE_ALL'' then invalidate_tool_cache (invalidate_setup_cache s)
      else if action = ''INVALIDATE_SETUP'' then
        (if sid = '''' then s
         else s\<lparr>sv_setup_cache := od_del sid (sv_setup_cache s), sv_setup_inflight := od_del sid (sv_setup_inflight s)\<rparr>)
      else if action = ''INVALIDATE_TOOLS'' then
        (if sid = '''' then s else s\<lparr>sv_tool_cache := od_del sid (sv_tool_cache s)\<rparr>)
      else s)"

fun apply_invalidations :: "signal_effect list \<Rightarrow> ('v, 't) servicer \<Rightarrow> ('v, 't) servicer" where
  "apply_invalidations [] s = s"
| "apply_invalidations (Invalidate action sid # es) s = apply_invalidations es (handle_cache_invalidation action sid s)"
| "apply_invalidations (_ # es) s = apply_invalidations es s"

section \<open>The configuration request\<close>

text \<open>
  \<open>ConfigSetupModule\<close> up to the job (a denied request, an exception of the model constructors, or an
  empty model), and after the job's reply. \<open>mk_version\<close> wraps the new content with the identifiers.
  \<open>dumps\<close> is \<open>json.dumps\<close>; of each publication the answer (\<open>False\<close>: it fails, which is only logged).
\<close>

datatype config_outcome = ConfigDenied | ConfigRaised | ConfigInternal string | ConfigOk pstruct

definition config_admit :: "bool \<Rightarrow> bool \<Rightarrow> bool \<Rightarrow> string \<Rightarrow> ('v, 't) servicer \<Rightarrow> config_outcome option \<times> ('v, 't) servicer" where
  "config_admit allowed models_ok nonempty sid s =
     (if \<not> allowed then (Some ConfigDenied, s)
      else (if models_ok \<and> nonempty then None else Some ConfigRaised,
            s\<lparr>sv_setup_cache := od_del sid (sv_setup_cache s)\<rparr>))"

definition invalidate_payload :: "string \<Rightarrow> string \<Rightarrow> real \<Rightarrow> string \<Rightarrow> pstruct" where
  "invalidate_payload action sid ns origin =
     [(''action'', PStr action), (''setup_id'', PStr sid), (''published_at_ns'', PNum ns), (''origin'', PStr origin)]"

text \<open>\<open>data.get("message") or dflt\<close> for a text or no message.\<close>

definition message_or :: "string \<Rightarrow> pvalue option \<Rightarrow> string" where
  "message_or dflt v = (case v of Some (PStr m) \<Rightarrow> if m = '''' then dflt else m | _ \<Rightarrow> dflt)"

definition config_finish ::
    "(pstruct \<Rightarrow> string) \<Rightarrow> (pstruct \<Rightarrow> 'v) \<Rightarrow> string \<Rightarrow> nat \<Rightarrow> real \<Rightarrow> real \<Rightarrow> string \<Rightarrow> string \<Rightarrow> string \<Rightarrow> pstruct config_reply \<Rightarrow> ('v, 't) servicer
      \<Rightarrow> config_outcome \<times> ('v, 't) servicer \<times> string list" where
  "config_finish dumps mk_version process_id cap now now_ns timeout_text jid sid reply s =
     (case reply of
        ConfigNotFound \<Rightarrow> (ConfigInternal (''Module '' @ jid @ '' not found''), s, [])
      | ConfigDeadline \<Rightarrow> (ConfigInternal (''Module '' @ jid @ '' did not respond within '' @ timeout_text @ '' seconds''), s, [])
      | ConfigDone d \<Rightarrow>
          if od_has d ''code'' then (ConfigInternal (message_or ''Config setup failed'' (od_get d ''message'')), s, [])
          else
            let s1 = cache_setup cap sid now (mk_version d) s;
                s2 = s1\<lparr>sv_tool_cache := od_del sid (sv_tool_cache s1)\<rparr>
            in (ConfigOk d, s2,
                map (\<lambda>a. dumps (invalidate_payload a sid now_ns process_id)) [''invalidate_setup'', ''invalidate_tools'']))"

text \<open>
  The whole handler: \<open>resolve\<close>, \<open>config\<close> and \<open>out\<close> are the job's inputs (see \<open>create_config_job\<close>), an
  exception of which is raised to the caller.
\<close>

definition config_setup_module ::
    "(pstruct \<Rightarrow> string) \<Rightarrow> (pstruct \<Rightarrow> 'v) \<Rightarrow> string \<Rightarrow> nat \<Rightarrow> real \<Rightarrow> real \<Rightarrow> real \<Rightarrow> string \<Rightarrow> BackpressureStrategy \<Rightarrow> nat
      \<Rightarrow> bool \<Rightarrow> bool \<Rightarrow> bool \<Rightarrow> string \<Rightarrow> string \<Rightarrow> mod_exc option \<Rightarrow> mod_exc option \<Rightarrow> pstruct \<Rightarrow> base_module
      \<Rightarrow> pstruct task_manager \<Rightarrow> ('v, 't) servicer
      \<Rightarrow> config_outcome \<times> pstruct task_manager \<times> ('v, 't) servicer \<times> string list" where
  "config_setup_module dumps mk_version process_id cap now now_ns timeout timeout_text strategy bound
      allowed models_ok nonempty jid sid resolve config out m tm s =
     (case config_admit allowed models_ok nonempty sid s of
        (Some r, s1) \<Rightarrow> (r, tm, s1, [])
      | (None, s1) \<Rightarrow> (case create_config_job id strategy bound jid resolve config out m tm of
          (Some e, _, tm1) \<Rightarrow> (ConfigRaised, tm1, s1, [])
        | (None, _, tm1) \<Rightarrow> (case config_response timeout jid tm1 of
            (reply, _, tm2) \<Rightarrow>
              (case config_finish dumps mk_version process_id cap now now_ns timeout_text jid sid reply s1 of
                 (r, s2, pubs) \<Rightarrow> (r, tm2, s2, pubs)))))"

section \<open>Bounded caches\<close>

lemma evicted_bound: "0 < cap \<Longrightarrow> length d \<le> cap \<Longrightarrow> length (od_set k v (evicted cap d)) \<le> cap"
  by (auto simp: evicted_def length_od_set)

lemma setup_cache_bound:
  "0 < cap \<Longrightarrow> length (sv_setup_cache s) \<le> cap \<Longrightarrow> length (sv_setup_cache (cache_setup cap sid now v s)) \<le> cap"
  by (simp add: cache_setup_def evicted_bound)

text \<open>Refreshing an entry of a full cache throws out another one, which had room to stay.\<close>

lemma refresh_evicts:
  "sv_tool_cache s = [(a, x), (b, y)] \<Longrightarrow> a \<noteq> b \<Longrightarrow> od_get (sv_tool_cache (set_tool_cache 2 ttl now b v s)) a = None"
  by (simp add: set_tool_cache_def evicted_def od_get_Cons)

section \<open>Lookups that share one fetch\<close>

text \<open>
  Any number of callers: a lookup begins, a fetch ends, a caller that joined is cancelled, or a
  configuration request drops the cached setup. The active fetches are listed, and \<open>n\<close> is the next
  future. (Invalidations, which also touch the table of fetches, are treated below.)
\<close>

type_synonym ('v, 't) sv_sys = "('v, 't) servicer \<times> (nat \<times> string) list \<times> nat"

inductive sv_step :: "real \<Rightarrow> nat \<Rightarrow> ('v, 't) sv_sys \<Rightarrow> ('v, 't) sv_sys \<Rightarrow> bool" for ttl cap where
  begins: "resolve_begin ttl allowed now n sid s = (r, s') \<Longrightarrow>
    sv_step ttl cap (s, L, n) (s', if r = Leading n then (n, sid) # L else L, Suc n)"
| ends: "(fid, sid) \<in> set L \<Longrightarrow>
    sv_step ttl cap (s, L, n) (snd (resolve_end cap now fid sid r s), removeAll (fid, sid) L, n)"
| cancels: "sv_step ttl cap (s, L, n) (setup_follower_cancelled fid s, L, n)"
| drops: "sv_step ttl cap (s, L, n) (s\<lparr>sv_setup_cache := od_del sid (sv_setup_cache s)\<rparr>, L, n)"

inductive sv_reach :: "real \<Rightarrow> nat \<Rightarrow> ('v, 't) sv_sys \<Rightarrow> bool" for ttl cap where
  init: "sv_reach ttl cap (sv_init, [], 0)"
| step: "sv_reach ttl cap x \<Longrightarrow> sv_step ttl cap x y \<Longrightarrow> sv_reach ttl cap y"

definition sv_inv :: "('v, 't) sv_sys \<Rightarrow> bool" where
  "sv_inv x = (case x of (s, L, n) \<Rightarrow>
     distinct (map snd L) \<and> (\<forall>fid sid. od_get (sv_setup_inflight s) sid = Some fid \<longleftrightarrow> (fid, sid) \<in> set L)
     \<and> (\<forall>(fid, sid)\<in>set L. fid < n \<and> od_get (sv_setup_futs s) fid \<in> {Some Waiting, Some FutCancelled})
     \<and> distinct (map fst L))"

lemma resolve_end_tables [simp]:
  "sv_setup_inflight (snd (resolve_end cap now fid sid r s)) = od_del sid (sv_setup_inflight s)"
  by (simp add: resolve_end_def Let_def cache_setup_def split: sum.splits option.splits)

lemma resolve_end_futs:
  "f \<noteq> fid \<Longrightarrow> od_get (sv_setup_futs (snd (resolve_end cap now fid sid r s))) f = od_get (sv_setup_futs s) f"
  by (simp add: resolve_end_def Let_def cache_setup_def split: sum.splits option.splits)

lemma resolve_begin_cases:
  assumes "resolve_begin ttl allowed now fid sid s = (r, s')"
  shows "(sv_setup_inflight s' = sv_setup_inflight s \<and> sv_setup_futs s' = sv_setup_futs s
        \<and> r \<noteq> Leading fid \<and> (\<forall>f. r = Joined f \<longrightarrow> od_get (sv_setup_inflight s) sid = Some f))
    \<or> (r = Leading fid \<and> od_get (sv_setup_inflight s) sid = None
        \<and> sv_setup_inflight s' = od_set sid fid (sv_setup_inflight s) \<and> sv_setup_futs s' = od_set fid Waiting (sv_setup_futs s))"
  using assms by (auto simp: resolve_begin_def Let_def split: if_splits option.splits)

lemma cancel_future_get:
  "od_get (cancel_future fid futs) f = (if f = fid \<and> od_get futs fid = Some Waiting then Some FutCancelled else od_get futs f)"
  by (simp add: cancel_future_def)

lemma sv_inv_init: "sv_inv (sv_init, [], 0)"
  by (simp add: sv_inv_def sv_init_def)

lemma unique_entry: "distinct (map snd L) \<Longrightarrow> (f, a) \<in> set L \<Longrightarrow> (g, a) \<in> set L \<Longrightarrow> f = g"
  by (metis eq_snd_iff distinct_map inj_on_contraD prod.inject)

lemma unique_fid: "distinct (map fst L) \<Longrightarrow> (f, a) \<in> set L \<Longrightarrow> (f, b) \<in> set L \<Longrightarrow> a = b"
  by (metis fst_conv distinct_map inj_on_contraD prod.inject)

lemma distinct_map_removeAll: "distinct (map g L) \<Longrightarrow> distinct (map g (removeAll x L))"
  by (auto simp: distinct_map distinct_removeAll intro: inj_on_subset)

lemma sv_inv_step: "sv_step ttl cap x y \<Longrightarrow> sv_inv x \<Longrightarrow> sv_inv y"
proof (induction rule: sv_step.induct)
  case (begins allowed now n sid s r s' L)
  from begins.prems have h: "distinct (map snd L)" "distinct (map fst L)"
    "\<And>f a. od_get (sv_setup_inflight s) a = Some f \<longleftrightarrow> (f, a) \<in> set L"
    "\<And>f a. (f, a) \<in> set L \<Longrightarrow> f < n" "\<And>f a. (f, a) \<in> set L \<Longrightarrow> od_get (sv_setup_futs s) f \<in> {Some Waiting, Some FutCancelled}"
    by (auto simp: sv_inv_def)
  from resolve_begin_cases [OF begins.hyps] show ?case
  proof (elim disjE conjE)
    assume "sv_setup_inflight s' = sv_setup_inflight s" "sv_setup_futs s' = sv_setup_futs s" "r \<noteq> Leading n"
    with h show ?thesis by (fastforce simp: sv_inv_def)
  next
    assume l: "r = Leading n" "od_get (sv_setup_inflight s) sid = None"
      "sv_setup_inflight s' = od_set sid n (sv_setup_inflight s)" "sv_setup_futs s' = od_set n Waiting (sv_setup_futs s)"
    have new: "sid \<notin> snd ` set L" "n \<notin> fst ` set L" using h(3) [of sid] h(4) l(2) by force+
    show ?thesis unfolding sv_inv_def using h new l by (auto simp: image_iff dest: h(4)) (use h(5) in fastforce)
  qed
next
  case (ends fid sid L s n now r)
  from ends.prems have h: "distinct (map snd L)" "distinct (map fst L)"
    "\<And>f a. od_get (sv_setup_inflight s) a = Some f \<longleftrightarrow> (f, a) \<in> set L"
    "\<And>f a. (f, a) \<in> set L \<Longrightarrow> f < n" "\<And>f a. (f, a) \<in> set L \<Longrightarrow> od_get (sv_setup_futs s) f \<in> {Some Waiting, Some FutCancelled}"
    by (auto simp: sv_inv_def)
  have k: "(f, a) \<in> set (removeAll (fid, sid) L) \<longleftrightarrow> (f, a) \<in> set L \<and> a \<noteq> sid \<and> f \<noteq> fid" for f a
    using unique_entry [OF h(1) ends.hyps] unique_fid [OF h(2) ends.hyps] by auto
  show ?case
    unfolding sv_inv_def prod.case resolve_end_tables
  proof (intro conjI allI ballI)
    show "distinct (map snd (removeAll (fid, sid) L))" using h(1) by (rule distinct_map_removeAll)
    show "distinct (map fst (removeAll (fid, sid) L))" using h(2) by (rule distinct_map_removeAll)
    show "od_get (od_del sid (sv_setup_inflight s)) a = Some f \<longleftrightarrow> (f, a) \<in> set (removeAll (fid, sid) L)" for f a
      unfolding k using h(3) [of a f] unique_fid [OF h(2) ends.hyps] by auto
  next
    fix p assume "p \<in> set (removeAll (fid, sid) L)"
    then obtain f a where p: "p = (f, a)" "(f, a) \<in> set L" "f \<noteq> fid" using k by (metis prod.exhaust)
    show "case p of (f, a) \<Rightarrow> f < n \<and> od_get (sv_setup_futs (snd (resolve_end cap now fid sid r s))) f \<in> {Some Waiting, Some FutCancelled}"
      using h(4,5) [OF p(2)] by (simp add: p(1) resolve_end_futs [OF p(3)])
  qed
next
  case (cancels s L n fid)
  then show ?case by (force simp: sv_inv_def setup_follower_cancelled_def cancel_future_get)
next
  case (drops s L n sid)
  then show ?case by (simp add: sv_inv_def)
qed

lemma sv_inv_reach: "sv_reach ttl cap x \<Longrightarrow> sv_inv x"
  by (induction rule: sv_reach.induct) (auto intro: sv_inv_init sv_inv_step)

lemma resolve_end_waiting:
  assumes "od_get (sv_setup_futs s) fid = Some Waiting"
  shows "od_get (sv_setup_futs (snd (resolve_end cap now fid sid r s))) fid = Some (Resolved (fst (resolve_end cap now fid sid r s)))"
  using assms by (auto simp: resolve_end_def Let_def cache_setup_def split: sum.splits option.splits)


text \<open>One fetch with a joined lookup, for the example.\<close>

lemma reach_demo:
  "sv_reach 600 100 (snd (resolve_begin 600 True 0 0 ''s'' (sv_init :: (nat, nat) servicer)), [(0, ''s'')], Suc 0)"
proof -
  have b: "resolve_begin 600 True 0 0 ''s'' (sv_init :: (nat, nat) servicer)
      = (Leading 0, snd (resolve_begin 600 True 0 0 ''s'' (sv_init :: (nat, nat) servicer)))"
    by (simp add: resolve_begin_def sv_init_def)
  have "sv_step 600 100 (sv_init, [], 0)
      (snd (resolve_begin 600 True 0 0 ''s'' (sv_init :: (nat, nat) servicer)), [(0, ''s'')], Suc 0)"
    using sv_step.begins [OF b, where cap = 100 and L = "[]"] by simp
  with sv_reach.step [OF sv_reach.init] show ?thesis .
qed


section \<open>What goes wrong around a shared fetch\<close>

text \<open>
  A waiting caller that is cancelled takes the others with it. A task that joined a fetch awaits the
  shared future itself, so cancelling that task cancels the future: every other waiting task is
  cancelled as well, and the caller that fetched the setup successfully gets an \<open>InvalidStateError\<close>
  in place of the setup it has just cached.
\<close>

theorem follower_cancel_breaks_lookup:
  assumes "resolve_begin ttl True now fid sid s = (Leading fid, s1)"
    and "resolve_end cap now' fid sid (Inr (Some v)) (setup_follower_cancelled fid s1) = (res, s2)"
  shows "res = Inl InvalidState \<and> joined_result (od_get (sv_setup_futs s2) fid) = Some (Inl FetchCancelled)
    \<and> od_get (sv_setup_cache s2) sid = Some (now', v)"
proof -
  have f: "od_get (sv_setup_futs s1) fid = Some Waiting"
    using resolve_begin_cases [OF assms(1)] by auto
  then show ?thesis
    using assms(2) by (auto simp: resolve_end_def Let_def cache_setup_def setup_follower_cancelled_def cancel_future_get joined_result_def)
qed

theorem follower_cancel_breaks_lookup_witness:
  "fst (resolve_end 100 1 0 ''s'' (Inr (Some (7::nat)))
      (setup_follower_cancelled 0 (snd (resolve_begin 600 True 0 0 ''s'' (sv_init :: (nat, nat) servicer))))) = Inl InvalidState"
proof -
  let ?s = "snd (resolve_begin 600 True 0 0 ''s'' (sv_init :: (nat, nat) servicer))"
  have b: "resolve_begin 600 True 0 0 ''s'' (sv_init :: (nat, nat) servicer) = (Leading 0, ?s)"
    by (simp add: resolve_begin_def sv_init_def)
  show ?thesis
    by (rule follower_cancel_breaks_lookup [OF b prod.collapse [symmetric], THEN conjunct1])
qed

text \<open>
  An invalidation does not reach a fetch under way. If a setup is invalidated while an old version of
  it is being fetched, a new lookup fetches the new version; but when the old fetch ends last it
  overwrites the cache, and lookups are answered with the old version until it expires.
\<close>

theorem stale_setup_after_invalidation:
  assumes "resolve_begin ttl True t0 f1 sid s = (Leading f1, s1)" and "f1 \<noteq> f2"
    and "resolve_begin ttl True t1 f2 sid (invalidate_setup_cache s1) = (r, s2)"
    and "s3 = snd (resolve_end cap t2 f2 sid (Inr (Some new)) s2)"
    and "s4 = snd (resolve_end cap t3 f1 sid (Inr (Some old)) s3)"
    and "t4 - t3 < ttl"
  shows "r = Leading f2 \<and> fst (resolve_end cap t3 f1 sid (Inr (Some old)) s3) = Inr old
    \<and> fst (resolve_begin ttl True t4 f3 sid s4) = Hit old"
proof -
  have f1: "od_get (sv_setup_futs s1) f1 = Some Waiting" using resolve_begin_cases [OF assms(1)] by auto
  have s2: "r = Leading f2 \<and> sv_setup_futs s2 = od_set f2 Waiting (sv_setup_futs s1)"
    using assms(3) by (auto simp: resolve_begin_def invalidate_setup_cache_def)
  then have "od_get (sv_setup_futs s3) f1 = Some Waiting"
    unfolding assms(4) using f1 assms(2) by (simp add: resolve_end_futs [OF assms(2)])
  then show ?thesis
    unfolding assms(5) using s2 assms(6)
    by (simp add: resolve_end_def Let_def cache_setup_def resolve_begin_def)
qed

theorem stale_setup_after_invalidation_witness:
  "fst (resolve_begin 600 True 4 2 ''s'' (snd (resolve_end 100 3 0 ''s'' (Inr (Some (1::nat)))
      (snd (resolve_end 100 2 1 ''s'' (Inr (Some 2)) (snd (resolve_begin 600 True 1 1 ''s''
        (invalidate_setup_cache (snd (resolve_begin 600 True 0 0 ''s'' (sv_init :: (nat, nat) servicer))))))))))) = Hit 1"
proof -
  let ?s = "snd (resolve_begin 600 True 0 0 ''s'' (sv_init :: (nat, nat) servicer))"
  have b: "resolve_begin 600 True 0 0 ''s'' (sv_init :: (nat, nat) servicer) = (Leading 0, ?s)"
    by (simp add: resolve_begin_def sv_init_def)
  have n: "(0::nat) \<noteq> 1" by simp
  have t: "(4::real) - 3 < 600" by simp
  show ?thesis
    by (rule stale_setup_after_invalidation [OF b n prod.collapse [symmetric] refl refl t, THEN conjunct2, THEN conjunct2])
qed

text \<open>The life of the tool cache after a build: further lookups, builds and invalidations.\<close>

datatype 't tool_call = ToolBegin real nat string | ToolEnd real nat string "fetch_exc + 't option" | ToolInvalidate

fun tool_op :: "nat \<Rightarrow> real \<Rightarrow> 't tool_call \<Rightarrow> ('v, 't) servicer \<Rightarrow> ('v, 't) servicer" where
  "tool_op cap ttl (ToolBegin now fid sid) s = snd (tools_begin now fid sid s)"
| "tool_op cap ttl (ToolEnd now fid sid r) s = snd (tools_end cap ttl now fid sid r s)"
| "tool_op cap ttl ToolInvalidate s = invalidate_tool_cache s"

fun op_future :: "'t tool_call \<Rightarrow> nat option" where
  "op_future (ToolBegin now fid sid) = Some fid"
| "op_future (ToolEnd now fid sid r) = Some fid"
| "op_future ToolInvalidate = None"

lemma get_tool_cache_futs [simp]: "sv_tool_futs (snd (get_tool_cache now sid s)) = sv_tool_futs s"
  by (simp add: get_tool_cache_def split: option.splits)

lemma tool_op_other:
  "op_future x \<noteq> Some fid \<Longrightarrow> od_get (sv_tool_futs (tool_op cap ttl x s)) fid = od_get (sv_tool_futs s) fid"
proof (cases x)
  case (ToolBegin now f sid)
  assume "op_future x \<noteq> Some fid"
  with ToolBegin show ?thesis
    using get_tool_cache_futs [of now sid s]
    by (auto simp: tools_begin_def simp del: get_tool_cache_futs split: prod.splits option.splits)
qed (auto simp: tools_end_def Let_def set_tool_cache_def invalidate_tool_cache_def split: sum.splits option.splits)

text \<open>
  A cancelled tool build leaves its waiters hanging. \<open>get_or_build_tool_cache\<close> settles the future
  under \<open>except Exception\<close>, which a cancellation of the building task passes by: the callers that
  joined it wait on a future that nothing settles any more, whatever lookups, builds and
  invalidations follow.
\<close>

theorem cancelled_build_hangs:
  fixes s :: "('v, 't) servicer"
  assumes "tools_begin now fid sid s = (Leading fid, s1)"
    and "\<forall>x\<in>set ops. op_future x \<noteq> Some fid"
  shows "fst (tools_begin now fid' sid s1) = Joined fid
    \<and> joined_result (od_get (sv_tool_futs (fold (tool_op cap ttl) ops (snd (tools_end cap ttl now' fid sid (Inl FetchCancelled) s1)))) fid) = None"
proof -
  have "sv_tool_inflight s1 = od_set sid fid (sv_tool_inflight (snd (get_tool_cache now sid s))) \<and> get_tool_cache now sid s = (None, snd (get_tool_cache now sid s))
     \<and> od_get (sv_tool_futs s1) fid = Some Waiting \<and> sv_tool_cache s1 = sv_tool_cache (snd (get_tool_cache now sid s))"
    using assms(1) by (auto simp: tools_begin_def split: prod.splits option.splits)
  then have f: "od_get (sv_tool_futs s1) fid = Some Waiting" and j: "fst (tools_begin now fid' sid s1) = Joined fid"
    by (auto simp: tools_begin_def get_tool_cache_def split: option.splits if_splits)
  have "od_get (sv_tool_futs (fold (tool_op cap ttl) ops s2)) fid = od_get (sv_tool_futs s2) fid" for s2 :: "('v, 't) servicer"
    using assms(2) by (induction ops arbitrary: s2) (auto simp: tool_op_other)
  with f j show ?thesis by (simp add: tools_end_def Let_def joined_result_def)
qed

theorem cancelled_build_hangs_witness:
  "joined_result (od_get (sv_tool_futs (fold (tool_op 100 600) [ToolBegin 2 1 ''s'', ToolEnd 3 1 ''s'' (Inr (Some (7::nat)))]
      (snd (tools_end 100 600 1 0 ''s'' (Inl FetchCancelled) (snd (tools_begin 0 0 ''s'' (sv_init :: (nat, nat) servicer))))))) 0) = None"
proof -
  have b: "tools_begin 0 0 ''s'' (sv_init :: (nat, nat) servicer) = (Leading 0, snd (tools_begin 0 0 ''s'' sv_init))"
    by (simp add: tools_begin_def get_tool_cache_def sv_init_def)
  have o: "\<forall>x\<in>set [ToolBegin 2 1 ''s'', ToolEnd 3 1 ''s'' (Inr (Some (7::nat)))]. op_future x \<noteq> Some 0" by simp
  show ?thesis by (rule cancelled_build_hangs [OF b o, THEN conjunct2])
qed

section \<open>A reconfiguration and its peers\<close>

lemma config_finish_ok:
  assumes "config_finish dumps mk_version pid cap now now_ns tt jid sid reply s = (ConfigOk d, s', pubs)"
  shows "reply = ConfigDone d \<and> \<not> od_has d ''code''
    \<and> od_get (sv_setup_cache s') sid = Some (now, mk_version d) \<and> od_get (sv_tool_cache s') sid = None
    \<and> pubs = [dumps (invalidate_payload ''invalidate_setup'' sid now_ns pid), dumps (invalidate_payload ''invalidate_tools'' sid now_ns pid)]"
  using assms by (auto simp: config_finish_def Let_def cache_setup_def split: config_reply.splits if_splits)

lemma config_finish_failed:
  assumes "config_finish dumps mk_version pid cap now now_ns tt jid sid reply s = (ConfigInternal m, s', pubs)"
  shows "s' = s \<and> pubs = []"
  using assms by (auto simp: config_finish_def Let_def split: config_reply.splits if_splits)

definition global_channel :: string where
  "global_channel = ''signal_ch:_global_''"

lemma parse_global:
  "loads raw = Some data \<Longrightarrow> parse_message loads ''message'' global_channel raw = Some (''_global_'', data, raw)"
  by (simp add: parse_message_def global_channel_def starts_with_def)

lemma upper_names: "upper ''invalidate_setup'' = ''INVALIDATE_SETUP''" "upper ''invalidate_tools'' = ''INVALIDATE_TOOLS''"
  by code_simp+

lemma payload_fields_simps:
  "od_get (invalidate_payload a sid ns pid) ''action'' = Some (PStr a)"
  "od_get (invalidate_payload a sid ns pid) ''setup_id'' = Some (PStr sid)"
  "od_get (invalidate_payload a sid ns pid) ''origin'' = Some (PStr pid)"
  by (simp_all add: invalidate_payload_def od_get_Cons)

lemma dispatch_invalidation:
  assumes "starts_with a ''invalidate_''" and "od_get (sl_last_seen l) tid \<noteq> Some raw"
  shows "\<exists>l'. dispatch_signal me True fin tid (invalidate_payload a sid ns pid) raw l
      = (l', if pid = me then [] else [Invalidate (upper a) sid], Some True) \<and> od_get (sl_last_seen l') tid = Some raw"
  using assms by (auto simp: dispatch_signal_def Let_def payload_fields_simps text_or_def)

lemma listen_invalidation:
  assumes "starts_with a ''invalidate_''" and "od_get (sl_last_seen l) ''_global_'' \<noteq> Some raw"
    and "loads raw = Some (invalidate_payload a sid ns pid)"
  shows "\<exists>l'. listen_step loads me True fin (Message ''message'' global_channel raw) (l, backoff)
      = ((l', 1 / 10), if pid = me then [] else [Invalidate (upper a) sid], None) \<and> od_get (sl_last_seen l') ''_global_'' = Some raw"
proof -
  have n: "od_get (sl_last_seen (l\<lparr>sl_pubsub := True\<rparr>)) ''_global_'' \<noteq> Some raw" using assms(2) by simp
  have p: "parse_message loads ''message'' global_channel raw = Some (''_global_'', invalidate_payload a sid ns pid, raw)"
    using assms(3) by (rule parse_global)
  from dispatch_invalidation [OF assms(1) n, of me fin sid ns pid] show ?thesis
    by (auto simp: listen_step_def Let_def p)
qed

text \<open>What a process does with the published messages, in order.\<close>

fun hear ::
    "(string \<Rightarrow> pstruct option) \<Rightarrow> string \<Rightarrow> (nat \<Rightarrow> bool) \<Rightarrow> string list \<Rightarrow> listener \<times> real \<Rightarrow> ('v, 't) servicer
      \<Rightarrow> ('v, 't) servicer" where
  "hear loads me fin [] lb s = s"
| "hear loads me fin (raw # raws) lb s =
     (case listen_step loads me True fin (Message ''message'' global_channel raw) lb of
        (lb', effs, _) \<Rightarrow> hear loads me fin raws lb' (apply_invalidations effs s))"

text \<open>
  C14: A reconfiguration takes effect everywhere. When \<open>ConfigSetupModule\<close> succeeds, the process that
  served it answers from then on with the new content and rebuilds the tools; every other process
  that hears its two messages drops the setup's version, the fetch under way and its tools, so that
  its next lookup fetches afresh; and the serving process, which hears its own messages too, keeps
  the new content.
\<close>

theorem reconfiguration_reaches_peers:
  assumes "config_finish dumps mk_version pid cap now now_ns tt jid sid reply s = (ConfigOk d, s', pubs)"
    and "sid \<noteq> ''''"
    and "\<forall>a\<in>{''invalidate_setup'', ''invalidate_tools''}.
      loads (dumps (invalidate_payload a sid now_ns pid)) = Some (invalidate_payload a sid now_ns pid)"
    and "od_get (sl_last_seen l) ''_global_'' \<notin> Some ` set pubs" and "t - now < ttl"
    and "peer = hear loads me fin pubs (l, backoff) sp"
  shows "fst (resolve_begin ttl True t fid sid s') = Hit (mk_version d)
    \<and> fst (get_tool_cache t sid s') = None
    \<and> (me \<noteq> pid \<longrightarrow> fst (resolve_begin ttl True t fid sid peer) = Leading fid \<and> fst (get_tool_cache t sid peer) = None)
    \<and> (me = pid \<longrightarrow> peer = sp)"
proof -
  let ?p1 = "invalidate_payload ''invalidate_setup'' sid now_ns pid" and ?p2 = "invalidate_payload ''invalidate_tools'' sid now_ns pid"
  note c = config_finish_ok [OF assms(1)]
  have pubs: "pubs = [dumps ?p1, dumps ?p2]" using c by simp
  have ld: "loads (dumps ?p1) = Some ?p1" "loads (dumps ?p2) = Some ?p2" using assms(3) by simp_all
  have "?p1 \<noteq> ?p2" by (simp add: invalidate_payload_def)
  then have ne: "dumps ?p1 \<noteq> dumps ?p2" using ld by auto
  have names: "starts_with ''invalidate_setup'' ''invalidate_''" "starts_with ''invalidate_tools'' ''invalidate_''"
    by (simp_all add: starts_with_def)
  have n1: "od_get (sl_last_seen l) ''_global_'' \<noteq> Some (dumps ?p1)" using assms(4) by (auto simp: pubs)
  obtain l1 where h1: "listen_step loads me True fin (Message ''message'' global_channel (dumps ?p1)) (l, backoff)
      = ((l1, 1 / 10), if pid = me then [] else [Invalidate ''INVALIDATE_SETUP'' sid], None)"
    and s1: "od_get (sl_last_seen l1) ''_global_'' = Some (dumps ?p1)"
    using listen_invalidation [OF names(1) n1, where loads = loads, OF ld(1), of me fin backoff] by (auto simp: upper_names)
  have n2: "od_get (sl_last_seen l1) ''_global_'' \<noteq> Some (dumps ?p2)" using s1 ne by simp
  obtain l2 where h2: "listen_step loads me True fin (Message ''message'' global_channel (dumps ?p2)) (l1, 1 / 10)
      = ((l2, 1 / 10), if pid = me then [] else [Invalidate ''INVALIDATE_TOOLS'' sid], None)"
    using listen_invalidation [OF names(2) n2, where loads = loads, OF ld(2), of me fin "1 / 10"] by (auto simp: upper_names)
  have peer: "peer = (if me = pid then sp
      else handle_cache_invalidation ''INVALIDATE_TOOLS'' sid (handle_cache_invalidation ''INVALIDATE_SETUP'' sid sp))"
    using h1 h2 by (auto simp: assms(6) pubs)
  have "fst (resolve_begin ttl True t fid sid s') = Hit (mk_version d)" using c assms(5) by (simp add: resolve_begin_def)
  moreover have "fst (get_tool_cache t sid s') = None" using c by (simp add: get_tool_cache_def)
  ultimately show ?thesis
    using assms(2) by (auto simp: peer handle_cache_invalidation_def resolve_begin_def get_tool_cache_def Let_def)
qed

definition json_demo :: "pstruct \<Rightarrow> string" where
  "json_demo d = (if od_get d ''action'' = Some (PStr ''invalidate_setup'') then ''1'' else ''2'')"

definition unjson_demo :: "string \<Rightarrow> pstruct option" where
  "unjson_demo r = (if r = ''1'' then Some (invalidate_payload ''invalidate_setup'' ''s'' 0 ''p'')
     else if r = ''2'' then Some (invalidate_payload ''invalidate_tools'' ''s'' 0 ''p'') else None)"

theorem reconfiguration_reaches_peers_witness:
  "fst (resolve_begin 600 True 1 0 ''s'' (hear unjson_demo ''q'' (\<lambda>_. False) [''1'', ''2''] (sl_init, 1)
      (cache_setup 100 ''s'' 0 (7::nat) (sv_init :: (nat, nat) servicer)))) = Leading 0"
proof -
  let ?c = "config_finish json_demo length ''p'' 100 0 0 ''30'' ''j'' ''s'' (ConfigDone [(''v'', PBool True)]) (sv_init :: (nat, nat) servicer)"
  have c: "?c = (ConfigOk [(''v'', PBool True)], fst (snd ?c), snd (snd ?c))" by code_simp
  have p: "snd (snd ?c) = [''1'', ''2'']" by code_simp
  have ld: "\<forall>a\<in>{''invalidate_setup'', ''invalidate_tools''}.
      unjson_demo (json_demo (invalidate_payload a ''s'' 0 ''p'')) = Some (invalidate_payload a ''s'' 0 ''p'')"
    by (simp add: json_demo_def unjson_demo_def payload_fields_simps)
  have n: "od_get (sl_last_seen sl_init) ''_global_'' \<notin> Some ` set (snd (snd ?c))" by (simp add: sl_init_def)
  have s: "''s'' \<noteq> ''''" by simp
  have t: "(1::real) - 0 < 600" by simp
  from reconfiguration_reaches_peers [OF c s ld n t, where me = "''q''" and fin = "\<lambda>_. False" and backoff = 1 and fid = 0
      and sp = "cache_setup 100 ''s'' 0 (7::nat) (sv_init :: (nat, nat) servicer)", OF refl]
  show ?thesis by (simp add: p)
qed

end
