(* ===== verification/Tools.thy ===== *)
theory Tools
  imports Storage
begin

text \<open>
  The tools of a module: resolving the tools a setup selects (\<open>models/module/tool_reference.py\<close>,
  \<open>setup_types.py\<close>), the two-layer cache (\<open>tool_cache.py\<close>), loading tools at run time and keeping them
  for the mission (\<open>module_context.py\<close>, \<open>loaded_tools.py\<close>), and the function a tool is called through.
  The registry's and the tool modules' answers are functions of what is asked; calls that the code
  gathers are made in order here, and of dictionaries only the lookups are stated.
\<close>

section \<open>Tool modules and their names\<close>

record tool_module =
  to_setup :: string
  to_module :: string
  to_name :: string                \<comment> \<open>\<open>tool_name\<close>\<close>
  to_tools :: "string list"        \<comment> \<open>the protocols of its tool definitions\<close>

text \<open>\<open>_slugify\<close>: lower case, each run of other characters one underscore, none at the ends.\<close>

definition slug_char :: "char \<Rightarrow> bool" where
  "slug_char c \<longleftrightarrow> is_lower c \<or> is_digit c"

fun squeeze :: "string \<Rightarrow> string" where
  "squeeze [] = []"
| "squeeze [c] = (if slug_char c then [c] else ''_'')"
| "squeeze (c # d # cs) =
     (if slug_char c then c # squeeze (d # cs)
      else if slug_char d then CHR ''_'' # squeeze (d # cs)
      else squeeze (d # cs))"

definition strip_underscores :: "string \<Rightarrow> string" where
  "strip_underscores s = rev (dropWhile (\<lambda>c. c = CHR ''_'') (rev (dropWhile (\<lambda>c. c = CHR ''_'') s)))"

definition slugify :: "string \<Rightarrow> string" where
  "slugify name = strip_underscores (squeeze (lower name))"

section \<open>What the registry and the modules answer\<close>

datatype reg_exc = RegDenied | RegNotFound | RegFailed | RegTimeout

record registry =
  rg_get_setup :: "string \<Rightarrow> reg_exc + (string \<times> string) option"   \<comment> \<open>module identifier and setup name\<close>
  rg_discover :: "string \<Rightarrow> reg_exc + bool"                           \<comment> \<open>whether the module is known\<close>
  rg_schemas :: "string \<Rightarrow> reg_exc + string list"                     \<comment> \<open>protocols of its input schema\<close>

section \<open>The selected tools\<close>

record tool_selection =
  sel_setup :: string
  sel_triggers :: "(string, bool) odict"

definition enabled_triggers :: "tool_selection \<Rightarrow> string set" where
  "enabled_triggers sel = fst ` set (filter snd (sel_triggers sel))"

text \<open>
  \<open>_drop_blank_selections\<close> on the rows of a list: a dictionary with its \<open>setup_id\<close>, its \<open>setupId\<close> (empty
  where missing or null) and triggers, or a selection.
\<close>

datatype raw_selection = RawRow string string "(string, bool) odict" | RawSelection tool_selection

definition drop_blank_selections :: "raw_selection list \<Rightarrow> tool_selection list" where
  "drop_blank_selections rows = concat (map (\<lambda>row. case row of
      RawRow sid sid' trs \<Rightarrow>
        (let s = strip (if sid \<noteq> '''' then sid else sid') in if s \<noteq> '''' then [\<lparr>sel_setup = s, sel_triggers = trs\<rparr>] else [])
    | RawSelection sel \<Rightarrow> if strip (sel_setup sel) \<noteq> '''' then [sel] else []) rows)"

definition serialize_to_list :: "tool_selection list \<Rightarrow> raw_selection list" where
  "serialize_to_list sels = map (\<lambda>sel. RawRow '''' (sel_setup sel) (sel_triggers sel)) sels"

datatype count_error = TooFew nat nat | TooMany nat nat

definition validate_tools_count :: "nat \<Rightarrow> nat \<Rightarrow> tool_selection list \<Rightarrow> count_error + tool_selection list" where
  "validate_tools_count min_tools max_tools sels =
     (let count = length sels in
      if 0 < min_tools \<and> count < min_tools then Inl (TooFew min_tools count)
      else if 0 < max_tools \<and> max_tools < count then Inl (TooMany max_tools count)
      else Inr sels)"

text \<open>
  \<open>_resolve_single\<close>; a deadline that passes during the schema fetch is a cancellation there, which
  \<open>except Exception\<close> does not see.
\<close>

definition from_module_info :: "registry \<Rightarrow> string \<Rightarrow> string \<Rightarrow> string \<Rightarrow> reg_exc + tool_module" where
  "from_module_info reg mid setup_id name =
     (case rg_schemas reg mid of
        Inl e \<Rightarrow> Inl e
      | Inr ts \<Rightarrow> Inr \<lparr>to_setup = setup_id, to_module = mid, to_name = name, to_tools = ts\<rparr>)"

definition resolve_single :: "registry \<Rightarrow> tool_selection \<Rightarrow> reg_exc + tool_module option" where
  "resolve_single reg sel =
     (case rg_get_setup reg (sel_setup sel) of
        Inl e \<Rightarrow> Inl e
      | Inr None \<Rightarrow> Inr None
      | Inr (Some (mid, name)) \<Rightarrow>
          if mid = '''' then Inr None
          else case rg_discover reg mid of
            Inl e \<Rightarrow> Inl e
          | Inr known \<Rightarrow>
              if \<not> known then Inr None
              else case from_module_info reg mid (sel_setup sel) name of
                Inl e \<Rightarrow> if e = RegTimeout then Inl e else Inr None
              | Inr t \<Rightarrow>
                  let en = enabled_triggers sel;
                      count = (if en \<noteq> {} then card (set (to_tools t) \<inter> en) else length (to_tools t))
                  in Inr (if count = 0 then None else Some t))"

definition resolve_bounded :: "registry \<Rightarrow> bool \<Rightarrow> tool_selection \<Rightarrow> tool_module option" where
  "resolve_bounded reg trim sel =
     (case resolve_single reg sel of
        Inl e \<Rightarrow> None
      | Inr None \<Rightarrow> None
      | Inr (Some t) \<Rightarrow>
          if \<not> trim \<or> enabled_triggers sel = {} then Some t
          else Some (t\<lparr>to_tools := filter (\<lambda>n. n \<in> enabled_triggers sel) (to_tools t)\<rparr>))"

definition tool_reference_resolve :: "registry \<Rightarrow> bool \<Rightarrow> tool_selection list \<Rightarrow> tool_module list" where
  "tool_reference_resolve reg trim sels =
     List.map_filter (resolve_bounded reg trim) (filter (\<lambda>sel. strip (sel_setup sel) \<noteq> '''') sels)"

section \<open>The two-layer cache\<close>

record tool_cache =
  tc_declared :: "(string, tool_module) odict"
  tc_dynamic :: "(string, tool_module) odict"

definition tc_empty :: tool_cache where
  "tc_empty = \<lparr>tc_declared = [], tc_dynamic = []\<rparr>"

definition tc_entries :: "tool_cache \<Rightarrow> (string, tool_module) odict" where
  "tc_entries c = fold (\<lambda>(k, t) d. od_set k t d) (tc_dynamic c) (tc_declared c)"

definition tc_mission_view :: "tool_cache \<Rightarrow> tool_cache" where
  "tc_mission_view c = \<lparr>tc_declared = tc_declared c, tc_dynamic = []\<rparr>"

definition tc_add :: "tool_module \<Rightarrow> tool_cache \<Rightarrow> tool_cache" where
  "tc_add t c = c\<lparr>tc_declared := od_set (to_setup t) t (tc_declared c)\<rparr>"

definition tc_add_dynamic :: "tool_module \<Rightarrow> tool_cache \<Rightarrow> tool_cache" where
  "tc_add_dynamic t c = c\<lparr>tc_dynamic := od_set (to_setup t) t (tc_dynamic c)\<rparr>"

definition tc_get :: "string \<Rightarrow> tool_cache \<Rightarrow> tool_module option" where
  "tc_get sid c = (case od_get (tc_dynamic c) sid of Some t \<Rightarrow> Some t | None \<Rightarrow> od_get (tc_declared c) sid)"

definition tc_clear :: "tool_cache \<Rightarrow> tool_cache" where
  "tc_clear c = tc_empty"

definition tc_list_tools :: "tool_cache \<Rightarrow> string list" where
  "tc_list_tools c = map fst (tc_entries c)"

section \<open>Collecting the tools of a setup\<close>

text \<open>
  A setup model as a tree: a field holds a tool reference, a model, a list (or dictionary) of such
  items, or something else. Lists in lists are something else: the code does not look into them.
\<close>

datatype setup_model = Setup "setup_field list"
  and setup_field = FRef "tool_selection list" | FModel setup_model | FItems "setup_item list" | FOther
  and setup_item = IRef "tool_selection list" | IModel setup_model | IOther

type_synonym resolved = "(string, tool_module) odict \<times> tool_cache"

definition collect_ref :: "registry option \<Rightarrow> tool_selection list \<Rightarrow> resolved \<Rightarrow> resolved" where
  "collect_ref reg sels rc = (case rc of (res, cache) \<Rightarrow>
     if sels = [] then (res, cache)
     else
       let uncached = (\<exists>sel\<in>set sels. sel_setup sel \<noteq> '''' \<and> \<not> od_has res (sel_setup sel));
           res' = (case reg of
               Some r \<Rightarrow> if uncached then fold (\<lambda>t d. od_set (to_setup t) t d) (tool_reference_resolve r False sels) res else res
             | None \<Rightarrow> res);
           cache' = fold (\<lambda>sel c. if sel_setup sel = '''' then c
               else case od_get res' (sel_setup sel) of None \<Rightarrow> c | Some t \<Rightarrow> tc_add t c) sels cache
       in (res', cache'))"

text \<open>The references of a model come before its nested models, each in field order.\<close>

fun own_refs :: "setup_field list \<Rightarrow> tool_selection list list" where
  "own_refs [] = []"
| "own_refs (FRef sels # fs) = sels # own_refs fs"
| "own_refs (FItems is # fs) = concat (map (\<lambda>i. case i of IRef sels \<Rightarrow> [sels] | _ \<Rightarrow> []) is) @ own_refs fs"
| "own_refs (_ # fs) = own_refs fs"

fun all_refs :: "setup_model \<Rightarrow> tool_selection list list"
  and field_refs :: "setup_field \<Rightarrow> tool_selection list list"
  and item_refs :: "setup_item \<Rightarrow> tool_selection list list" where
  "all_refs (Setup fs) = own_refs fs @ concat (map field_refs fs)"
| "field_refs (FModel m) = all_refs m"
| "field_refs (FItems is) = concat (map item_refs is)"
| "field_refs (FRef sels) = []"
| "field_refs FOther = []"
| "item_refs (IModel m) = all_refs m"
| "item_refs (IRef sels) = []"
| "item_refs IOther = []"

definition build_tool_cache :: "registry option \<Rightarrow> setup_model \<Rightarrow> (string, tool_module) odict \<Rightarrow> resolved" where
  "build_tool_cache reg m res = fold (collect_ref reg) (all_refs m) (if reg = None then res else [], tc_empty)"

section \<open>Tools loaded at run time\<close>

text \<open>
  \<open>ModuleContext.resolve_tool\<close>: the registry is asked first, on a cached tool too; a denial is raised.
\<close>

definition resolve_tool :: "registry \<Rightarrow> string \<Rightarrow> tool_cache \<Rightarrow> (reg_exc + tool_module option) \<times> tool_cache" where
  "resolve_tool reg sid c =
     (case rg_get_setup reg sid of
        Inl e \<Rightarrow> (Inl e, c)
      | Inr None \<Rightarrow> (Inr None, c)
      | Inr (Some (mid, name)) \<Rightarrow>
          if mid = '''' then (Inr None, c)
          else case tc_get sid c of
            Some t \<Rightarrow> (Inr (Some t), c)
          | None \<Rightarrow> (case rg_discover reg mid of
              Inl RegNotFound \<Rightarrow> (Inr None, c)
            | Inl e \<Rightarrow> (Inl e, c)
            | Inr False \<Rightarrow> (Inr None, c)
            | Inr True \<Rightarrow> (case from_module_info reg mid sid name of
                Inl e \<Rightarrow> (Inl e, c)
              | Inr t \<Rightarrow> (Inr (Some t), tc_add_dynamic t c))))"

definition LOADED_TOOLS :: string where
  "LOADED_TOOLS = ''loaded_tools''"

text \<open>The records' data are the setup identifiers; \<open>config\<close> tells which collections are registered.\<close>

definition lt_save ::
    "(string \<Rightarrow> (string \<Rightarrow> string option) option) \<Rightarrow> real \<Rightarrow> string \<Rightarrow> string \<Rightarrow> string \<Rightarrow> string storage \<Rightarrow> bool \<times> string storage" where
  "lt_save config now uuid mission sid s =
     (if config LOADED_TOOLS = None then (False, s)
      else case storage_upsert config now uuid LOADED_TOOLS sid sid DOutput VUnspecified (resolve_context mission '''' MISSIONS) s of
        Inl e \<Rightarrow> (False, s)
      | Inr (r, s') \<Rightarrow> (True, s'))"

definition lt_list :: "(string \<Rightarrow> (string \<Rightarrow> string option) option) \<Rightarrow> string \<Rightarrow> string storage \<Rightarrow> string list" where
  "lt_list config mission s =
     (if config LOADED_TOOLS = None then []
      else filter (\<lambda>sid. sid \<noteq> '''') (map st_data (ds_list LOADED_TOOLS (resolve_context mission '''' MISSIONS) [] '''' 100 0 s)))"

definition lt_forget :: "(string \<Rightarrow> (string \<Rightarrow> string option) option) \<Rightarrow> string \<Rightarrow> string \<Rightarrow> string storage \<Rightarrow> string storage" where
  "lt_forget config mission sid s =
     (if config LOADED_TOOLS = None then s else snd (ds_remove LOADED_TOOLS sid (resolve_context mission '''' MISSIONS) s))"

definition rehydrate_one ::
    "registry \<Rightarrow> (string \<Rightarrow> (string \<Rightarrow> string option) option) \<Rightarrow> string \<Rightarrow> string \<Rightarrow> nat \<times> tool_cache \<times> string storage
      \<Rightarrow> nat \<times> tool_cache \<times> string storage" where
  "rehydrate_one reg config mission sid st = (case st of (n, c, s) \<Rightarrow>
     case resolve_tool reg sid c of
       (Inl RegDenied, c') \<Rightarrow> (n, c', lt_forget config mission sid s)
     | (Inl e, c') \<Rightarrow> (n, c', s)
     | (Inr None, c') \<Rightarrow> (n, c', lt_forget config mission sid s)
     | (Inr (Some t), c') \<Rightarrow> (Suc n, c', s))"

definition rehydrate_loaded_tools ::
    "registry \<Rightarrow> (string \<Rightarrow> (string \<Rightarrow> string option) option) \<Rightarrow> string \<Rightarrow> tool_cache \<Rightarrow> string storage
      \<Rightarrow> nat \<times> tool_cache \<times> string storage" where
  "rehydrate_loaded_tools reg config mission c s =
     fold (rehydrate_one reg config mission) (filter (\<lambda>sid. \<not> od_has (tc_dynamic c) sid) (lt_list config mission s)) (0, c, s)"

section \<open>Slugs\<close>

abbreviation slug_ok :: "string \<Rightarrow> bool" where
  "slug_ok s \<equiv> \<forall>c\<in>set s. slug_char c \<or> c = CHR ''_''"

lemma underscore_not_slug: "\<not> slug_char (CHR ''_'')"
  by (simp add: slug_char_def is_lower_def is_digit_def)

lemma squeeze_chars: "slug_ok (squeeze s)"
  by (induction s rule: squeeze.induct) auto

text \<open>No two underscores in a row: what a slug is made of.\<close>


fun gaps_ok :: "string \<Rightarrow> bool" where
  "gaps_ok (c # d # cs) = (\<not> (c = CHR ''_'' \<and> d = CHR ''_'') \<and> gaps_ok (d # cs))"
| "gaps_ok _ = True"

lemma gaps_ok_tl: "gaps_ok (c # cs) \<Longrightarrow> gaps_ok cs"
  by (cases cs) auto

lemma squeeze_head: "slug_char d \<Longrightarrow> \<exists>r. squeeze (d # cs) = d # r"
  by (cases cs) auto

lemma squeeze_gaps: "gaps_ok (squeeze s)"
proof (induction s rule: squeeze.induct)
  case (3 c d cs)
  show ?case
  proof (cases "slug_char c")
    case True
    have "gaps_ok (c # r)" if "gaps_ok r" for r using that True underscore_not_slug by (cases r) auto
    with 3 True show ?thesis by simp
  next
    case False
    then show ?thesis
    proof (cases "slug_char d")
      case d: True
      then obtain r where "squeeze (d # cs) = d # r" using squeeze_head by blast
      with 3(2) False d underscore_not_slug show ?thesis by auto
    qed (use 3(3) False in simp)
  qed
qed simp_all

lemma squeeze_id: "slug_ok s \<Longrightarrow> gaps_ok s \<Longrightarrow> squeeze s = s"
proof (induction s rule: squeeze.induct)
  case (3 c d cs)
  then show ?case using underscore_not_slug by (cases "slug_char c"; cases "slug_char d") auto
qed auto

lemma gaps_ok_append: "gaps_ok (u @ v) \<Longrightarrow> gaps_ok u \<and> gaps_ok v"
proof (induction u)
  case (Cons c u)
  from Cons.prems have "gaps_ok (u @ v)" using gaps_ok_tl by simp
  with Cons.IH Cons.prems show ?case by (cases u) auto
qed simp

lemma dropWhile_suffix: "\<exists>u. s = u @ dropWhile P s"
  by (metis takeWhile_dropWhile_id)

lemma strip_sub: "\<exists>u v. s = u @ strip_underscores s @ v"
proof -
  obtain u where u: "s = u @ dropWhile (\<lambda>c. c = CHR ''_'') s" using dropWhile_suffix by blast
  obtain w where "rev (dropWhile (\<lambda>c. c = CHR ''_'') s) = w @ dropWhile (\<lambda>c. c = CHR ''_'') (rev (dropWhile (\<lambda>c. c = CHR ''_'') s))"
    using dropWhile_suffix by blast
  then have "dropWhile (\<lambda>c. c = CHR ''_'') s = strip_underscores s @ rev w"
    unfolding strip_underscores_def by (metis rev_append rev_rev_ident)
  with u show ?thesis by metis
qed

lemma strip_ends:
  "strip_underscores s \<noteq> [] \<Longrightarrow> hd (strip_underscores s) \<noteq> CHR ''_'' \<and> last (strip_underscores s) \<noteq> CHR ''_''"
proof -
  let ?P = "\<lambda>c. c = CHR ''_''"
  let ?d = "dropWhile ?P s"
  assume n: "strip_underscores s \<noteq> []"
  have l: "last (strip_underscores s) \<noteq> CHR ''_''"
    using n hd_dropWhile [of ?P "rev ?d"] by (auto simp: strip_underscores_def last_rev)
  obtain w where "rev ?d = w @ dropWhile ?P (rev ?d)" using dropWhile_suffix by blast
  then have d: "?d = strip_underscores s @ rev w" unfolding strip_underscores_def by (metis rev_append rev_rev_ident)
  with n have "hd (strip_underscores s) = hd ?d" by simp
  moreover have "?d \<noteq> []" using n d by auto
  ultimately show ?thesis using l hd_dropWhile [of ?P s] by auto
qed

lemma strip_id: "s = [] \<or> hd s \<noteq> CHR ''_'' \<and> last s \<noteq> CHR ''_'' \<Longrightarrow> strip_underscores s = s"
proof -
  assume a: "s = [] \<or> hd s \<noteq> CHR ''_'' \<and> last s \<noteq> CHR ''_''"
  then have "dropWhile (\<lambda>c. c = CHR ''_'') s = s" "dropWhile (\<lambda>c. c = CHR ''_'') (rev s) = rev s"
    by (auto simp: dropWhile_eq_self_iff hd_rev)
  then show ?thesis by (simp add: strip_underscores_def)
qed

lemma to_lower_slug: "slug_char c \<or> c = CHR ''_'' \<Longrightarrow> to_lower c = c"
  by (auto simp: to_lower_def slug_char_def is_upper_def is_lower_def is_digit_def)

text \<open>
  A slug is a fixed point. Whatever the tool's name, its slug consists of lower-case letters, digits
  and single inner underscores, and slugifying it again changes nothing, so that a tool can be
  looked up by a slug as well as by its name.
\<close>

theorem slugify_canonical:
  "slug_ok (slugify name) \<and> gaps_ok (slugify name)
    \<and> (slugify name \<noteq> [] \<longrightarrow> hd (slugify name) \<noteq> CHR ''_'' \<and> last (slugify name) \<noteq> CHR ''_'')
    \<and> slugify (slugify name) = slugify name"
proof -
  let ?q = "squeeze (lower name)"
  obtain u v where s: "?q = u @ slugify name @ v" using strip_sub [of ?q] by (auto simp: slugify_def)
  have chars: "slug_ok (slugify name)" using squeeze_chars [of "lower name"] unfolding s by auto
  have "gaps_ok (u @ slugify name @ v)" using squeeze_gaps [of "lower name"] s by simp
  then have gaps: "gaps_ok (slugify name)" using gaps_ok_append by blast
  have ends: "slugify name \<noteq> [] \<longrightarrow> hd (slugify name) \<noteq> CHR ''_'' \<and> last (slugify name) \<noteq> CHR ''_''"
    using strip_ends [of ?q] by (simp add: slugify_def)
  have "lower (slugify name) = slugify name"
    using chars to_lower_slug by (auto simp: lower_def intro: map_idI)
  then have "slugify (slugify name) = strip_underscores (slugify name)"
    using squeeze_id [OF chars gaps] by (simp add: slugify_def [of "slugify name"])
  then have "slugify (slugify name) = slugify name" using strip_id ends by auto
  with chars gaps ends show ?thesis by blast
qed

theorem slugify_canonical_witness:
  "slugify ''Google  Search (v2)!'' = ''google_search_v2''
    \<and> slugify (slugify ''Google  Search (v2)!'') = slugify ''Google  Search (v2)!''"
proof -
  have "slugify ''Google  Search (v2)!'' = ''google_search_v2''" by code_simp
  with slugify_canonical [of "''Google  Search (v2)!''"] show ?thesis by simp
qed

section \<open>Resolving the selected tools\<close>

text \<open>The tool a setup identifier stands for, if its registry entries and its schema are there.\<close>

definition tool_of :: "registry \<Rightarrow> string \<Rightarrow> tool_module option" where
  "tool_of reg sid =
     (case rg_get_setup reg sid of
        Inr (Some (mid, name)) \<Rightarrow>
          (if mid \<noteq> '''' \<and> rg_discover reg mid = Inr True
           then (case from_module_info reg mid sid name of Inr t \<Rightarrow> Some t | Inl e \<Rightarrow> None) else None)
      | _ \<Rightarrow> None)"

lemma from_module_info_setup: "from_module_info reg mid sid name = Inr t \<Longrightarrow> to_setup t = sid"
  by (auto simp: from_module_info_def split: sum.splits)

lemma tool_of_setup: "tool_of reg sid = Some t \<Longrightarrow> to_setup t = sid"
  by (auto simp: tool_of_def dest: from_module_info_setup split: sum.splits option.splits if_splits)

lemma tool_of_self: "tool_of reg sid = Some t \<Longrightarrow> tool_of reg (to_setup t) = Some t"
  using tool_of_setup by simp

lemma resolve_single_tool:
  "resolve_single reg sel = Inr (Some t) \<longleftrightarrow> tool_of reg (sel_setup sel) = Some t
    \<and> (if enabled_triggers sel \<noteq> {} then set (to_tools t) \<inter> enabled_triggers sel \<noteq> {} else to_tools t \<noteq> [])"
  by (auto simp: resolve_single_def tool_of_def Let_def split: sum.splits option.splits if_splits)

lemma resolve_bounded_some:
  "resolve_bounded reg trim sel = Some t' \<longleftrightarrow> (\<exists>t. resolve_single reg sel = Inr (Some t)
    \<and> t' = (if trim \<and> enabled_triggers sel \<noteq> {} then t\<lparr>to_tools := filter (\<lambda>n. n \<in> enabled_triggers sel) (to_tools t)\<rparr> else t))"
  by (auto simp: resolve_bounded_def split: sum.splits option.splits)

lemma resolve_set:
  "t \<in> set (tool_reference_resolve reg trim sels) \<longleftrightarrow>
    (\<exists>sel\<in>set sels. strip (sel_setup sel) \<noteq> '''' \<and> resolve_bounded reg trim sel = Some t)"
  by (auto simp: tool_reference_resolve_def List.map_filter_def) force

text \<open>
  Only enabled tools are offered. Each tool a reference resolves to belongs to one of its selections,
  offers at least one function, and, where the selection enables some triggers, only those; a
  selection whose module is reachable and shares a trigger with it is never lost.
\<close>

theorem resolved_tools_enabled:
  "(t \<in> set (tool_reference_resolve reg True sels) \<longrightarrow>
      (\<exists>sel\<in>set sels. to_setup t = sel_setup sel \<and> to_tools t \<noteq> []
        \<and> (enabled_triggers sel \<noteq> {} \<longrightarrow> set (to_tools t) \<subseteq> enabled_triggers sel)))
    \<and> (sel \<in> set sels \<and> strip (sel_setup sel) \<noteq> '''' \<and> tool_of reg (sel_setup sel) = Some t'
        \<and> set (to_tools t') \<inter> enabled_triggers sel \<noteq> {}
      \<longrightarrow> (\<exists>t\<in>set (tool_reference_resolve reg True sels). to_setup t = sel_setup sel
            \<and> set (to_tools t) = set (to_tools t') \<inter> enabled_triggers sel))"
  (is "(_ \<longrightarrow> ?enabled) \<and> (?reachable \<longrightarrow> ?kept)")
proof (intro conjI impI)
  assume "t \<in> set (tool_reference_resolve reg True sels)"
  then obtain sel u where sel: "sel \<in> set sels" and u: "resolve_single reg sel = Inr (Some u)"
    and t: "t = (if enabled_triggers sel \<noteq> {} then u\<lparr>to_tools := filter (\<lambda>n. n \<in> enabled_triggers sel) (to_tools u)\<rparr> else u)"
    by (auto simp: resolve_set resolve_bounded_some)
  have "to_setup u = sel_setup sel" using u by (auto simp: resolve_single_tool dest: tool_of_setup)
  moreover have "to_tools t \<noteq> []" using u by (auto simp: resolve_single_tool t filter_empty_conv split: if_splits)
  ultimately show ?enabled using sel by (intro bexI [of _ sel]) (auto simp: t)
next
  assume r: ?reachable
  then have "enabled_triggers sel \<noteq> {}" by auto
  with r have "resolve_single reg sel = Inr (Some t')" by (simp add: resolve_single_tool)
  then have "resolve_bounded reg True sel = Some (t'\<lparr>to_tools := filter (\<lambda>n. n \<in> enabled_triggers sel) (to_tools t')\<rparr>)"
    using \<open>enabled_triggers sel \<noteq> {}\<close> by (simp add: resolve_bounded_some)
  then have m: "t'\<lparr>to_tools := filter (\<lambda>n. n \<in> enabled_triggers sel) (to_tools t')\<rparr> \<in> set (tool_reference_resolve reg True sels)"
    using r resolve_set by blast
  have "to_setup t' = sel_setup sel" using r tool_of_setup by blast
  then show ?kept by (intro bexI [OF _ m]) auto
qed

definition reg_demo :: registry where
  "reg_demo = \<lparr>rg_get_setup = (\<lambda>sid. if sid = ''s'' then Inr (Some (''m'', ''Search'')) else Inr None),
     rg_discover = (\<lambda>mid. Inr True), rg_schemas = (\<lambda>mid. Inr [''search'', ''index''])\<rparr>"

definition sel_demo :: tool_selection where
  "sel_demo = \<lparr>sel_setup = ''s'', sel_triggers = [(''search'', True), (''index'', False)]\<rparr>"

theorem resolved_tools_enabled_witness:
  "tool_reference_resolve reg_demo True [sel_demo] = [\<lparr>to_setup = ''s'', to_module = ''m'', to_name = ''Search'', to_tools = [''search'']\<rparr>]
    \<and> (\<exists>t\<in>set (tool_reference_resolve reg_demo True [sel_demo]). to_setup t = ''s'')"
proof -
  have r: "tool_reference_resolve reg_demo True [sel_demo] = [\<lparr>to_setup = ''s'', to_module = ''m'', to_name = ''Search'', to_tools = [''search'']\<rparr>]"
    by code_simp
  have "sel_demo \<in> set [sel_demo]" "strip (sel_setup sel_demo) \<noteq> ''''"
    "tool_of reg_demo (sel_setup sel_demo) = Some \<lparr>to_setup = ''s'', to_module = ''m'', to_name = ''Search'', to_tools = [''search'', ''index'']\<rparr>"
    "set [''search'', ''index''] \<inter> enabled_triggers sel_demo \<noteq> {}"
    by code_simp+
  with resolved_tools_enabled [of _ reg_demo "[sel_demo]" sel_demo
      "\<lparr>to_setup = ''s'', to_module = ''m'', to_name = ''Search'', to_tools = [''search'', ''index'']\<rparr>"] r
  show ?thesis by (simp add: sel_demo_def)
qed

lemma fold_tools_get:
  assumes "\<And>t. t \<in> set ts \<Longrightarrow> tool_of reg (to_setup t) = Some t"
  shows "od_get (fold (\<lambda>t d. od_set (to_setup t) t d) ts d) k = (if k \<in> to_setup ` set ts then tool_of reg k else od_get d k)"
  using assms by (induction ts arbitrary: d) auto

lemma fold_add_get:
  "od_get (tc_declared (fold (\<lambda>sel c. if sel_setup sel = '''' then c
      else case od_get res (sel_setup sel) of None \<Rightarrow> c | Some t \<Rightarrow> tc_add t c) sels c)) k
    = (if \<exists>sel\<in>set sels. sel_setup sel = k \<and> k \<noteq> '''' \<and> od_get res k \<noteq> None then od_get res k else od_get (tc_declared c) k)"
  if "\<And>k t. od_get res k = Some t \<Longrightarrow> to_setup t = k"
  using that
proof (induction sels arbitrary: c)
  case (Cons sel sels)
  show ?case
    using Cons.IH [OF Cons.prems] Cons.prems [of "sel_setup sel"]
    by (auto simp: tc_add_def split: option.splits)
qed simp

lemma fold_add_dynamic:
  "tc_dynamic (fold (\<lambda>sel c. if sel_setup sel = '''' then c
      else case od_get res (sel_setup sel) of None \<Rightarrow> c | Some t \<Rightarrow> tc_add t c) sels c) = tc_dynamic c"
  by (induction sels arbitrary: c) (auto simp: tc_add_def split: option.splits)

text \<open>The setup identifiers that some selection of some references resolves.\<close>

definition resolvable :: "registry \<Rightarrow> tool_selection list list \<Rightarrow> string set" where
  "resolvable reg refs = {sid. \<exists>sels\<in>set refs. \<exists>sel\<in>set sels. sel_setup sel = sid \<and> strip sid \<noteq> ''''
     \<and> resolve_bounded reg False sel \<noteq> None}"

definition collected :: "registry \<Rightarrow> tool_selection list list \<Rightarrow> resolved \<Rightarrow> bool" where
  "collected reg refs rc \<longleftrightarrow> (\<forall>k. od_get (fst rc) k = (if k \<in> resolvable reg refs then tool_of reg k else None))
     \<and> (\<forall>k. od_get (tc_declared (snd rc)) k = od_get (fst rc) k) \<and> tc_dynamic (snd rc) = []"

lemma resolvable_tool: "k \<in> resolvable reg refs \<Longrightarrow> tool_of reg k \<noteq> None \<and> k \<noteq> ''''"
  by (auto simp: resolvable_def resolve_bounded_some resolve_single_tool strip_def)

lemma resolvable_append: "resolvable reg (refs @ [sels]) = resolvable reg refs \<union> resolvable reg [sels]"
  by (auto simp: resolvable_def)

lemma resolve_false_tools:
  "t \<in> set (tool_reference_resolve reg False sels) \<Longrightarrow> tool_of reg (to_setup t) = Some t"
  by (auto simp: resolve_set resolve_bounded_some resolve_single_tool intro: tool_of_self)

lemma resolve_false_keys: "to_setup ` set (tool_reference_resolve reg False sels) = resolvable reg [sels]"
proof -
  have "to_setup t \<in> resolvable reg [sels]" if "t \<in> set (tool_reference_resolve reg False sels)" for t
  proof -
    from that obtain sel where s: "sel \<in> set sels" "strip (sel_setup sel) \<noteq> ''''" "resolve_bounded reg False sel = Some t"
      by (auto simp: resolve_set)
    then have "tool_of reg (sel_setup sel) = Some t" by (simp add: resolve_bounded_some resolve_single_tool)
    then have "to_setup t = sel_setup sel" by (rule tool_of_setup)
    with s show ?thesis by (auto simp: resolvable_def)
  qed
  moreover have "k \<in> to_setup ` set (tool_reference_resolve reg False sels)" if "k \<in> resolvable reg [sels]" for k
  proof -
    from that obtain sel t where s: "sel \<in> set sels" "sel_setup sel = k" "strip k \<noteq> ''''" "resolve_bounded reg False sel = Some t"
      by (auto simp: resolvable_def)
    then have "tool_of reg k = Some t" by (auto simp: resolve_bounded_some resolve_single_tool)
    then have "to_setup t = k" by (rule tool_of_setup)
    with s show ?thesis by (force simp: resolve_set)
  qed
  ultimately show ?thesis by blast
qed

lemma collect_ref_collected:
  assumes c: "collected reg refs (res, cache)"
  shows "collected reg (refs @ [sels]) (collect_ref (Some reg) sels (res, cache))"
proof (cases "sels = []")
  case True
  with c show ?thesis by (simp add: collect_ref_def collected_def resolvable_append) (simp add: resolvable_def)
next
  case False
  let ?u = "\<exists>sel\<in>set sels. sel_setup sel \<noteq> '''' \<and> \<not> od_has res (sel_setup sel)"
  define res' where "res' = (if ?u then fold (\<lambda>t d. od_set (to_setup t) t d) (tool_reference_resolve reg False sels) res else res)"
  have old: "od_get res k = (if k \<in> resolvable reg refs then tool_of reg k else None)" for k
    using c by (simp add: collected_def)
  have res': "od_get res' k = (if k \<in> resolvable reg (refs @ [sels]) then tool_of reg k else None)" for k
  proof (cases ?u)
    case True
    then show ?thesis
      using fold_tools_get [of "tool_reference_resolve reg False sels" reg res k, OF resolve_false_tools]
      by (simp add: res'_def resolve_false_keys resolvable_append old)
  next
    case no: False
    have "k \<in> resolvable reg refs" if "k \<in> resolvable reg [sels]"
    proof -
      have "k \<noteq> ''''" using resolvable_tool [OF that] by simp
      moreover have "\<exists>sel\<in>set sels. sel_setup sel = k" using that by (auto simp: resolvable_def)
      ultimately have "od_has res k" using no by auto

      with old [of k] show ?thesis by (auto simp: od_has_def split: if_splits)
    qed
    with no old show ?thesis by (auto simp: res'_def resolvable_append)
  qed
  define cache' where "cache' = fold (\<lambda>sel c. if sel_setup sel = '''' then c
      else case od_get res' (sel_setup sel) of None \<Rightarrow> c | Some t \<Rightarrow> tc_add t c) sels cache"
  have r: "collect_ref (Some reg) sels (res, cache) = (res', cache')"
    unfolding cache'_def res'_def using False by (simp add: collect_ref_def Let_def)
  have names: "to_setup t = k" if "od_get res' k = Some t" for k t
    using that res' [of k] by (auto dest: tool_of_setup split: if_splits)
  have decl: "od_get (tc_declared cache') k = od_get res' k" for k
  proof (cases "k \<in> resolvable reg [sels]")
    case True
    then have "\<exists>sel\<in>set sels. sel_setup sel = k" "k \<noteq> ''''" "od_get res' k \<noteq> None"
      using resolvable_tool [OF True] res' [of k] by (auto simp: resolvable_def resolvable_append)
    then show ?thesis by (simp add: cache'_def fold_add_get [OF names])
  next
    case not_new: False
    have "od_get (tc_declared cache) k = od_get res' k"
      using c not_new old [of k] res' [of k] by (simp add: collected_def resolvable_append)
    then show ?thesis by (simp add: cache'_def fold_add_get [OF names])
  qed
  have "tc_dynamic cache' = []" using c by (simp add: cache'_def fold_add_dynamic collected_def)
  with decl res' show ?thesis by (simp add: r collected_def)
qed

lemma collect_refs_collected:
  "collected reg refs0 rc \<Longrightarrow> collected reg (refs0 @ refs) (fold (collect_ref (Some reg)) refs rc)"
proof (induction refs arbitrary: refs0 rc)
  case (Cons sels refs)
  obtain res cache where rc: "rc = (res, cache)" by (cases rc)
  from collect_ref_collected [of reg refs0 res cache sels] Cons.prems
  have "collected reg (refs0 @ [sels]) (collect_ref (Some reg) sels rc)" by (simp add: rc)
  from Cons.IH [OF this] show ?case by simp
qed simp

text \<open>
  The tool cache of a setup is exact. Built with a registry, it holds for a setup identifier the
  tool that identifier stands for, if and only if some tool reference anywhere in the setup, however
  deeply nested, has a selection of it that resolves; whatever was resolved before is not used.
\<close>

theorem tool_cache_exact:
  "tc_get sid (snd (build_tool_cache (Some reg) m res)) = Some t \<longleftrightarrow>
    (\<exists>sels\<in>set (all_refs m). \<exists>sel\<in>set sels. sel_setup sel = sid \<and> strip sid \<noteq> '''' \<and> resolve_single reg sel = Inr (Some t))"
proof -
  have "collected reg [] ([], tc_empty)" by (simp add: collected_def resolvable_def tc_empty_def)
  from collect_refs_collected [OF this, of "all_refs m"]
  have c: "collected reg (all_refs m) (build_tool_cache (Some reg) m res)" by (simp add: build_tool_cache_def)
  then have "tc_get sid (snd (build_tool_cache (Some reg) m res)) = (if sid \<in> resolvable reg (all_refs m) then tool_of reg sid else None)"
    by (simp add: collected_def tc_get_def)
  moreover have "sid \<in> resolvable reg (all_refs m) \<and> tool_of reg sid = Some t \<longleftrightarrow>
      (\<exists>sels\<in>set (all_refs m). \<exists>sel\<in>set sels. sel_setup sel = sid \<and> strip sid \<noteq> '''' \<and> resolve_single reg sel = Inr (Some t))"
    unfolding resolvable_def by (fastforce simp: resolve_bounded_some resolve_single_tool)
  ultimately show ?thesis by auto
qed

theorem tool_cache_exact_witness:
  "tc_get ''s'' (snd (build_tool_cache (Some reg_demo) (Setup [FOther, FModel (Setup [FItems [IRef [sel_demo]]])]) []))
    = Some \<lparr>to_setup = ''s'', to_module = ''m'', to_name = ''Search'', to_tools = [''search'', ''index'']\<rparr>"
proof -
  let ?t = "\<lparr>to_setup = ''s'', to_module = ''m'', to_name = ''Search'', to_tools = [''search'', ''index'']\<rparr>"
  have "[sel_demo] \<in> set (all_refs (Setup [FOther, FModel (Setup [FItems [IRef [sel_demo]]])]))" by simp
  moreover have "sel_setup sel_demo = ''s''" "strip ''s'' \<noteq> ''''" "resolve_single reg_demo sel_demo = Inr (Some ?t)" by code_simp+
  ultimately show ?thesis unfolding tool_cache_exact by auto
qed

section \<open>Tools loaded at run time\<close>

text \<open>The merged view answers like the lookup.\<close>

lemma fold_set_get: "od_wf d \<Longrightarrow> od_get (fold (\<lambda>(k, t) e. od_set k t e) d e) k = (case od_get d k of Some t \<Rightarrow> Some t | None \<Rightarrow> od_get e k)"
proof (induction d arbitrary: e)
  case (Cons p d)
  obtain a t where p: "p = (a, t)" by (cases p)
  from Cons.prems have wf: "od_wf d" and new: "od_get d a = None" by (auto simp: od_wf_def p od_get_None_iff)
  from Cons.IH [OF wf] new show ?case by (auto simp: p od_get_Cons split: option.splits)
qed simp

lemma entries_get: "od_wf (tc_dynamic c) \<Longrightarrow> od_get (tc_entries c) sid = tc_get sid c"
  by (simp add: tc_entries_def tc_get_def fold_set_get)

lemma resolve_tool_cases:
  assumes "resolve_tool reg sid c = (r, c')"
  obtains t where "r = Inr (Some t)" and "c' = tc_add_dynamic t c" and "to_setup t = sid"
  | t where "r = Inr (Some t)" and "c' = c" and "tc_get sid c = Some t"
  | "\<forall>t. r \<noteq> Inr (Some t)" and "c' = c"
  using assms
  by (auto simp: resolve_tool_def dest!: from_module_info_setup
      split: sum.splits option.splits reg_exc.splits bool.splits if_splits)

lemma resolve_tool_frame:
  assumes "resolve_tool reg sid c = (r, c')"
  shows "tc_declared c' = tc_declared c \<and> (\<forall>k. k \<noteq> sid \<longrightarrow> tc_get k c' = tc_get k c)
    \<and> tc_get sid c' = (case r of Inr (Some t) \<Rightarrow> Some t | _ \<Rightarrow> tc_get sid c)"
  using assms
proof (cases rule: resolve_tool_cases)
  case (1 t)
  then show ?thesis by (auto simp: tc_add_dynamic_def tc_get_def split: option.splits)
next
  case 3
  then show ?thesis by (auto split: sum.splits option.splits)
qed simp

lemma resolve_tool_cong: "tc_get sid c = tc_get sid c' \<Longrightarrow> fst (resolve_tool reg sid c) = fst (resolve_tool reg sid c')"
  by (auto simp: resolve_tool_def split: sum.splits option.splits reg_exc.splits bool.splits)

text \<open>
  Loading a tool is authorised every time and stays in the mission. A tool is handed out only if
  the registry grants its setup to this caller now, be it cached or not; and a load never touches
  the layer that is shared with the other missions of the setup, whose view stays as it was.
\<close>

theorem tool_load_isolated:
  assumes "resolve_tool reg sid c = (r, c')"
  shows "(\<forall>t. r = Inr (Some t) \<longrightarrow> (\<exists>mid name. rg_get_setup reg sid = Inr (Some (mid, name)) \<and> mid \<noteq> ''''))
    \<and> (rg_get_setup reg sid = Inl RegDenied \<longrightarrow> r = Inl RegDenied \<and> c' = c)
    \<and> tc_declared c' = tc_declared c \<and> tc_mission_view c' = tc_mission_view c"
  using resolve_tool_frame [OF assms] assms
  by (auto simp: resolve_tool_def tc_mission_view_def split: sum.splits option.splits if_splits)

theorem tool_load_isolated_witness:
  "fst (resolve_tool (reg_demo\<lparr>rg_get_setup := (\<lambda>sid. Inl RegDenied)\<rparr>) ''s''
      (tc_add \<lparr>to_setup = ''s'', to_module = ''m'', to_name = ''Search'', to_tools = []\<rparr> tc_empty)) = Inl RegDenied"
proof -
  let ?reg = "reg_demo\<lparr>rg_get_setup := (\<lambda>sid. Inl RegDenied)\<rparr>"
  let ?c = "tc_add \<lparr>to_setup = ''s'', to_module = ''m'', to_name = ''Search'', to_tools = []\<rparr> tc_empty"
  have "rg_get_setup ?reg ''s'' = Inl RegDenied" by simp
  with tool_load_isolated [OF prod.collapse [symmetric], of ?reg "''s''" ?c] show ?thesis by simp
qed

text \<open>Rehydration, tool by tool: the identifiers that are dropped, and those that are restored.\<close>

definition dropped :: "registry \<Rightarrow> tool_cache \<Rightarrow> string \<Rightarrow> bool" where
  "dropped reg c sid \<longleftrightarrow> fst (resolve_tool reg sid c) \<in> {Inl RegDenied, Inr None}"

definition restored :: "registry \<Rightarrow> tool_cache \<Rightarrow> string \<Rightarrow> tool_module option" where
  "restored reg c sid = (case fst (resolve_tool reg sid c) of Inr (Some t) \<Rightarrow> Some t | _ \<Rightarrow> None)"

lemma rehydrate_one_step:
  assumes "resolve_tool reg sid c = (r, c1)"
  shows "rehydrate_one reg config mission sid (n, c, s)
    = (if restored reg c sid \<noteq> None then Suc n else n, c1, if dropped reg c sid then lt_forget config mission sid s else s)"
proof (cases r)
  case (Inl e)
  with assms show ?thesis by (cases e) (simp_all add: rehydrate_one_def restored_def dropped_def)
next
  case (Inr t)
  with assms show ?thesis by (cases t) (simp_all add: rehydrate_one_def restored_def dropped_def)
qed

lemma rehydrate_fold:
  assumes "distinct ids" and "fold (rehydrate_one reg config mission) ids (n, c, s) = (n', c', s')"
  shows "s' = fold (lt_forget config mission) (filter (dropped reg c) ids) s
    \<and> n' = n + length (filter (\<lambda>sid. restored reg c sid \<noteq> None) ids) \<and> tc_declared c' = tc_declared c
    \<and> (\<forall>k. tc_get k c' = (if k \<in> set ids \<and> restored reg c k \<noteq> None then restored reg c k else tc_get k c))"
  using assms
proof (induction ids arbitrary: n c s)
  case (Cons sid ids)
  obtain r c1 where r: "resolve_tool reg sid c = (r, c1)" by (cases "resolve_tool reg sid c")
  note f = resolve_tool_frame [OF r]
  have same: "fst (resolve_tool reg k c1) = fst (resolve_tool reg k c)" if "k \<in> set ids" for k
    using that f Cons.prems(1) by (intro resolve_tool_cong) auto
  then have d: "filter (dropped reg c1) ids = filter (dropped reg c) ids"
    and rs: "\<And>k. k \<in> set ids \<Longrightarrow> restored reg c1 k = restored reg c k"
    by (auto simp: dropped_def restored_def intro: filter_cong)
  have ns: "filter (\<lambda>k. restored reg c1 k \<noteq> None) ids = filter (\<lambda>k. restored reg c k \<noteq> None) ids"
    using rs by (intro filter_cong) auto
  have here: "tc_get sid c1 = (if restored reg c sid \<noteq> None then restored reg c sid else tc_get sid c)"
    using f r by (auto simp: restored_def split: sum.splits option.splits)
  have sid: "sid \<notin> set ids" using Cons.prems(1) by simp
  let ?n = "if restored reg c sid \<noteq> None then Suc n else n" and ?s = "if dropped reg c sid then lt_forget config mission sid s else s"
  have fl: "fold (rehydrate_one reg config mission) ids (?n, c1, ?s) = (n', c', s')"
    using Cons.prems(2) by (simp only: fold_simps rehydrate_one_step [OF r])
  have "distinct ids" using Cons.prems(1) by simp
  from Cons.IH [OF this fl] have ih: "s' = fold (lt_forget config mission) (filter (dropped reg c) ids) ?s"
    "n' = ?n + length (filter (\<lambda>sid. restored reg c sid \<noteq> None) ids)" "tc_declared c' = tc_declared c1"
    "\<And>k. tc_get k c' = (if k \<in> set ids \<and> restored reg c1 k \<noteq> None then restored reg c1 k else tc_get k c1)"
    unfolding d ns by metis+
  have "tc_get k c' = (if k \<in> set (sid # ids) \<and> restored reg c k \<noteq> None then restored reg c k else tc_get k c)" for k
    using ih(4) [of k] rs [of k] here f sid by (cases "k = sid") auto
  then show ?case using ih(1-3) f by simp
qed simp

section \<open>Loads that outlive their turn\<close>

text \<open>
  What holds of a mission's storage as these operations keep it: a record of the collection holds the
  identifier it is stored under, names do not contain the separators, and a page takes all records.
\<close>

definition lt_inv :: "string \<Rightarrow> string storage \<Rightarrow> bool" where
  "lt_inv mission s \<longleftrightarrow> storage_wf s \<and> CHR ''|'' \<notin> set mission \<and> length s \<le> 100
     \<and> (\<forall>(key, r) \<in> set s. CHR ''|'' \<notin> set (st_context r) \<and> CHR '':'' \<notin> set (st_collection r)
          \<and> (st_collection r = LOADED_TOOLS \<longrightarrow> st_data r = st_record_id r))"

definition in_loaded :: "string \<Rightarrow> string \<times> string storage_record \<Rightarrow> bool" where
  "in_loaded mission p \<longleftrightarrow> st_context (snd p) = mission \<and> st_collection (snd p) = LOADED_TOOLS"

definition loaded_ids :: "string \<Rightarrow> string storage \<Rightarrow> string list" where
  "loaded_ids mission s = map (\<lambda>p. st_record_id (snd p)) (filter (in_loaded mission) s)"

lemma LOADED_TOOLS_plain: "CHR '':'' \<notin> set LOADED_TOOLS"
  by (simp add: LOADED_TOOLS_def)

lemma lt_list_ids:
  assumes "lt_inv mission s" and "config LOADED_TOOLS \<noteq> None"
  shows "lt_list config mission s = filter (\<lambda>sid. sid \<noteq> '''') (loaded_ids mission s)"
proof -
  have "ds_list LOADED_TOOLS mission [] '''' 100 0 s = filter (\<lambda>r. st_context r = mission \<and> st_collection r = LOADED_TOOLS) (map snd s)"
    using assms(1) by (intro conjunct1 [OF ds_list_all] LOADED_TOOLS_plain) (auto simp: lt_inv_def)
  moreover have "filter (\<lambda>r. st_context r = mission \<and> st_collection r = LOADED_TOOLS) (map snd s) = map snd (filter (in_loaded mission) s)"
    by (simp add: filter_map comp_def in_loaded_def [abs_def])
  moreover have "map st_data (map snd (filter (in_loaded mission) s)) = loaded_ids mission s"
    using assms(1) by (auto simp: loaded_ids_def lt_inv_def in_loaded_def)
  ultimately show ?thesis using assms(2) by (auto simp: lt_list_def resolve_context_def)
qed

lemma lt_key:
  assumes "lt_inv mission s" and "(key, r) \<in> set s"
  shows "key = ds_key mission LOADED_TOOLS sid \<longleftrightarrow> st_context r = mission \<and> st_collection r = LOADED_TOOLS \<and> st_record_id r = sid"
proof -
  have k: "key = ds_key (st_context r) (st_collection r) (st_record_id r)"
    and n: "CHR ''|'' \<notin> set (st_context r)" "CHR '':'' \<notin> set (st_collection r)" "CHR ''|'' \<notin> set mission"
    using assms by (auto simp: lt_inv_def storage_wf_def)
  show ?thesis
  proof
    assume "key = ds_key mission LOADED_TOOLS sid"
    with k have "ds_key (st_context r) (st_collection r) (st_record_id r) = ds_key mission LOADED_TOOLS sid" by simp
    from ds_key_inj [OF this n(1,3,2) LOADED_TOOLS_plain]
    show "st_context r = mission \<and> st_collection r = LOADED_TOOLS \<and> st_record_id r = sid" .
  qed (simp add: k)
qed

lemma loaded_ids_distinct: "lt_inv mission s \<Longrightarrow> distinct (loaded_ids mission s)"
proof -
  assume i: "lt_inv mission s"
  have "distinct (map fst (filter (in_loaded mission) s))"
    using i by (simp add: lt_inv_def storage_wf_def od_wf_def distinct_map_filter)
  moreover have "map (ds_key mission LOADED_TOOLS) (loaded_ids mission s) = map fst (filter (in_loaded mission) s)"
    using i by (auto simp: loaded_ids_def lt_inv_def storage_wf_def in_loaded_def)
  ultimately have "distinct (map (ds_key mission LOADED_TOOLS) (loaded_ids mission s))" by simp
  then show ?thesis by (rule distinct_map [THEN iffD1, THEN conjunct1])
qed

lemma forget_ids:
  assumes "lt_inv mission s" and "config LOADED_TOOLS \<noteq> None"
  shows "lt_inv mission (lt_forget config mission sid s)
    \<and> loaded_ids mission (lt_forget config mission sid s) = filter (\<lambda>x. x \<noteq> sid) (loaded_ids mission s)"
proof -
  let ?key = "ds_key mission LOADED_TOOLS sid"
  have f: "lt_forget config mission sid s = od_del ?key s"
    using assms(2) by (auto simp: lt_forget_def resolve_context_def ds_remove_def Let_def od_has_def)
  have sub: "set (od_del ?key s) \<subseteq> set s" by (auto simp: od_del_filter)
  have "storage_wf (od_del ?key s)" using assms(1) sub by (auto simp: lt_inv_def storage_wf_def)
  moreover have "length (od_del ?key s) \<le> 100" using assms(1) length_od_del_le [of ?key s] by (simp add: lt_inv_def)
  ultimately have inv: "lt_inv mission (od_del ?key s)" using assms(1) sub unfolding lt_inv_def by blast
  have "filter (in_loaded mission) (od_del ?key s) = filter (\<lambda>p. st_record_id (snd p) \<noteq> sid) (filter (in_loaded mission) s)"
    unfolding od_del_filter filter_filter using lt_key [OF assms(1)] by (intro filter_cong) (auto simp: in_loaded_def)
  then have "loaded_ids mission (od_del ?key s) = filter (\<lambda>x. x \<noteq> sid) (loaded_ids mission s)"
    unfolding loaded_ids_def by (simp add: filter_map comp_def)
  with inv show ?thesis by (simp add: f)
qed

lemma forget_all:
  assumes "lt_inv mission s" and "config LOADED_TOOLS \<noteq> None"
  shows "lt_inv mission (fold (lt_forget config mission) gone s)
    \<and> loaded_ids mission (fold (lt_forget config mission) gone s) = filter (\<lambda>x. x \<notin> set gone) (loaded_ids mission s)"
  using assms(1)
proof (induction gone arbitrary: s)
  case (Cons sid gone)
  from forget_ids [where config = config, OF Cons.prems assms(2), of sid]
  have f: "lt_inv mission (lt_forget config mission sid s)"
    "loaded_ids mission (lt_forget config mission sid s) = filter (\<lambda>x. x \<noteq> sid) (loaded_ids mission s)" by simp_all
  from Cons.IH [OF f(1)] f(2) show ?case by (auto intro: filter_cong)
qed simp

lemma save_ids:
  assumes "lt_inv mission s" and "length s < 100" and "lt_save config now uuid mission sid s = (True, s')"
    and "\<forall>v d. config LOADED_TOOLS = Some v \<longrightarrow> v d = Some d"
  shows "config LOADED_TOOLS \<noteq> None \<and> lt_inv mission s' \<and> sid \<in> set (loaded_ids mission s')
    \<and> set (loaded_ids mission s) \<subseteq> set (loaded_ids mission s')"
proof -
  let ?key = "ds_key mission LOADED_TOOLS sid"
  obtain r where c: "config LOADED_TOOLS \<noteq> None"
    and u: "storage_upsert config now uuid LOADED_TOOLS sid sid DOutput VUnspecified mission s = Inr (r, s')"
    using assms(3) by (auto simp: lt_save_def resolve_context_def split: if_splits sum.splits)
  have v: "x = sid" if "validate_data config LOADED_TOOLS sid = Inr x" for x
    using that assms(4) by (auto simp: validate_data_def split: option.splits)
  have fields: "st_context r = mission \<and> st_collection r = LOADED_TOOLS \<and> st_record_id r = sid \<and> st_data r = sid
      \<and> s' = od_set ?key r s"
  proof (cases "od_get s ?key")
    case None
    from upsert_new [OF u None] obtain x where x: "validate_data config LOADED_TOOLS sid = Inr x"
      and r: "r = (create_storage_record LOADED_TOOLS sid x DOutput mission VUnspecified)\<lparr>st_created := Some now, st_updated := Some now, st_storage_id := ''storage:'' @ uuid\<rparr>"
      and s': "s' = od_set ?key r s" .
    from r have "st_context r = mission \<and> st_collection r = LOADED_TOOLS \<and> st_record_id r = sid \<and> st_data r = x"
      by (simp add: create_storage_record_def)
    with v [OF x] s' show ?thesis by blast
  next
    case (Some old)
    then have "(?key, old) \<in> set s" using assms(1) by (simp add: lt_inv_def storage_wf_def od_get_Some_iff)
    with lt_key [OF assms(1)] have k: "st_context old = mission \<and> st_collection old = LOADED_TOOLS \<and> st_record_id old = sid" by blast
    from upsert_old [OF u Some] obtain x where x: "validate_data config LOADED_TOOLS sid = Inr x"
      and r: "r = (if VUnspecified \<noteq> VUnspecified then old\<lparr>st_data := x, st_visibility := VUnspecified\<rparr> else old\<lparr>st_data := x\<rparr>)\<lparr>st_updated := Some now\<rparr>"
      and s': "s' = od_set ?key r s" .
    from r k have "st_context r = mission \<and> st_collection r = LOADED_TOOLS \<and> st_record_id r = sid \<and> st_data r = x" by simp
    with v [OF x] s' show ?thesis by blast
  qed
  then have s': "s' = od_set ?key r s" and r: "in_loaded mission (?key, r)" by (auto simp: in_loaded_def)
  have wf: "storage_wf s'" using assms(1) storage_wf_upsert [OF _ u] by (simp add: lt_inv_def)
  have mem: "(k, x) \<in> set s' \<longleftrightarrow> (if k = ?key then x = r else (k, x) \<in> set s)" for k x
  proof -
    have "(k, x) \<in> set s' \<longleftrightarrow> od_get s' k = Some x" using wf by (simp add: storage_wf_def od_get_Some_iff)
    also have "\<dots> \<longleftrightarrow> (if k = ?key then x = r else od_get s k = Some x)" by (auto simp: s')
    finally show ?thesis using assms(1) by (simp add: lt_inv_def storage_wf_def od_get_Some_iff)
  qed
  have "length s' \<le> 100" using assms(1,2) by (auto simp: s' length_od_set)
  moreover have "CHR ''|'' \<notin> set (st_context x) \<and> CHR '':'' \<notin> set (st_collection x) \<and> (st_collection x = LOADED_TOOLS \<longrightarrow> st_data x = st_record_id x)"
    if "(k, x) \<in> set s'" for k x
  proof (cases "k = ?key")
    case True
    with that mem have "x = r" by simp
    then show ?thesis using fields LOADED_TOOLS_plain assms(1) by (simp add: lt_inv_def)
  next
    case False
    with that mem have "(k, x) \<in> set s" by simp
    then show ?thesis using assms(1) by (auto simp: lt_inv_def)
  qed
  ultimately have inv: "lt_inv mission s'" using assms(1) wf unfolding lt_inv_def by blast
  have ids: "x \<in> set (loaded_ids mission t) \<longleftrightarrow> (\<exists>k y. (k, y) \<in> set t \<and> in_loaded mission (k, y) \<and> st_record_id y = x)" for x t
    by (force simp: loaded_ids_def in_loaded_def)
  have "sid \<in> set (loaded_ids mission s')" using r fields mem [of ?key r] by (auto simp: ids)
  moreover have "x \<in> set (loaded_ids mission s')" if "x \<in> set (loaded_ids mission s)" for x
  proof -
    from that obtain k y where y: "(k, y) \<in> set s" "in_loaded mission (k, y)" "st_record_id y = x" by (auto simp: ids)
    show ?thesis
    proof (cases "k = ?key")
      case True
      with y(3) lt_key [OF assms(1) y(1), of sid] have "x = sid" by blast
      with \<open>sid \<in> set (loaded_ids mission s')\<close> show ?thesis by simp
    next
      case False
      with y mem [of k y] show ?thesis by (auto simp: ids)
    qed
  qed
  ultimately show ?thesis using c inv by blast
qed


definition config_loaded :: "string \<Rightarrow> (string \<Rightarrow> string option) option" where
  "config_loaded c = (if c = LOADED_TOOLS then Some Some else None)"


section \<open>The selection field and the tool function\<close>

text \<open>
  A selection survives the frontend. Serialising the selected tools for the frontend and reading
  the rows back gives the same selections, as long as their identifiers are not blank and carry no
  white space around them; rows without an identifier never come through.
\<close>

theorem selection_roundtrip:
  assumes "\<forall>sel\<in>set sels. sel_setup sel \<noteq> '''' \<and> strip (sel_setup sel) = sel_setup sel"
  shows "drop_blank_selections (serialize_to_list sels) = sels
    \<and> (\<forall>sel\<in>set (drop_blank_selections rows). sel_setup sel \<noteq> '''')"
proof -
  have "drop_blank_selections (serialize_to_list sels) = sels"
    using assms by (induction sels) (auto simp: drop_blank_selections_def serialize_to_list_def)
  moreover have "sel_setup sel \<noteq> ''''" if "sel \<in> set (drop_blank_selections rows)" for sel
  proof -
    from that obtain row where "sel \<in> set (drop_blank_selections [row])" by (auto simp: drop_blank_selections_def)
    moreover have "strip '''' = ''''" by (simp add: strip_def)
    ultimately show ?thesis by (cases row) (auto simp: drop_blank_selections_def Let_def split: if_splits)
  qed
  ultimately show ?thesis by blast
qed

theorem selection_roundtrip_witness:
  "drop_blank_selections (serialize_to_list [sel_demo]) = [sel_demo]"
proof -
  have "\<forall>sel\<in>set [sel_demo]. sel_setup sel \<noteq> '''' \<and> strip (sel_setup sel) = sel_setup sel" by code_simp
  from selection_roundtrip [OF this] show ?thesis by simp
qed

lemma tools_count: "validate_tools_count mn mx sels = Inr sels' \<longleftrightarrow> sels' = sels \<and> mn \<le> length sels \<and> (0 < mx \<longrightarrow> length sels \<le> mx)"
  by (auto simp: validate_tools_count_def Let_def)

end
