(* ===== verification/File_History.thy ===== *)
theory File_History
  imports Prelude
begin

text \<open>
  The file history of a mission, \<open>mixins/file_history_mixin.py\<close>: files are appended to a cache and
  written to the storage in batches. A write is two steps, the snapshot with the call and what follows
  the answer; other calls may run in between. The storage holds at most one list per key.
\<close>

section \<open>State and operations\<close>

record 'f file_history =
  fh_cache :: "(string, 'f list) odict"
  fh_persisted :: "string set"
  fh_dirty :: "(string, nat) odict"

definition fh_init :: "'f file_history" where
  "fh_init = \<lparr>fh_cache = [], fh_persisted = {}, fh_dirty = []\<rparr>"

definition fh_key :: "string \<Rightarrow> string" where
  "fh_key mission_id = ''full_file_history_'' @ (if mission_id = '''' then ''default'' else mission_id)"

definition load_file_history :: "string \<Rightarrow> 'f list option \<Rightarrow> 'f file_history \<Rightarrow> 'f list \<times> 'f file_history" where
  "load_file_history key stored h =
     (case od_get (fh_cache h) key of
        Some files \<Rightarrow> (files, h)
      | None \<Rightarrow> (case stored of
          Some files \<Rightarrow> (files, h\<lparr>fh_persisted := insert key (fh_persisted h), fh_cache := od_set key files (fh_cache h)\<rparr>)
        | None \<Rightarrow> ([], h\<lparr>fh_cache := od_set key [] (fh_cache h)\<rparr>)))"

text \<open>\<open>append_files_history\<close> up to its flush; the flag says that one is due.\<close>

definition append_files :: "nat \<Rightarrow> string \<Rightarrow> 'f list option \<Rightarrow> 'f list \<Rightarrow> 'f file_history \<Rightarrow> bool \<times> 'f file_history" where
  "append_files threshold key stored files h =
     (case load_file_history key stored h of
        (old, h1) \<Rightarrow>
          let pending = (case od_get (fh_dirty h1) key of None \<Rightarrow> 0 | Some n \<Rightarrow> n) + 1
          in (threshold \<le> pending,
              h1\<lparr>fh_cache := od_set key (old @ files) (fh_cache h1), fh_dirty := od_set key pending (fh_dirty h1)\<rparr>))"

text \<open>
  \<open>_flush_fh_key\<close> under its lock: the data to write and whether by \<open>update\<close> (otherwise \<open>upsert\<close>), if
  there is anything to do; and the end of the write.
\<close>

definition flush_begin :: "string \<Rightarrow> 'f file_history \<Rightarrow> ('f list \<times> bool) option \<times> 'f file_history" where
  "flush_begin key h =
     (if \<not> od_has (fh_dirty h) key then (None, h)
      else case od_get (fh_cache h) key of
        None \<Rightarrow> (None, h\<lparr>fh_dirty := od_del key (fh_dirty h)\<rparr>)
      | Some files \<Rightarrow> (Some (files, key \<in> fh_persisted h), h))"

definition flush_end :: "string \<Rightarrow> bool \<Rightarrow> 'f file_history \<Rightarrow> 'f file_history" where
  "flush_end key ok h =
     (if ok then h\<lparr>fh_persisted := insert key (fh_persisted h), fh_dirty := od_del key (fh_dirty h)\<rparr> else h)"

text \<open>The storage: an update of a record that is not there returns \<open>None\<close>, without an exception.\<close>

definition stored_after :: "bool \<Rightarrow> bool \<Rightarrow> 'f list \<Rightarrow> 'f list option \<Rightarrow> 'f list option" where
  "stored_after ok by_update files stored =
     (if \<not> ok then stored else if by_update \<and> stored = None then None else Some files)"

definition flush_key :: "string \<Rightarrow> bool \<Rightarrow> 'f file_history \<times> 'f list option \<Rightarrow> 'f file_history \<times> 'f list option" where
  "flush_key key ok hs = (case hs of (h, stored) \<Rightarrow>
     (case flush_begin key h of
        (None, h1) \<Rightarrow> (h1, stored)
      | (Some (files, by_update), h1) \<Rightarrow> (flush_end key ok h1, stored_after ok by_update files stored)))"

definition flush_file_history :: "string \<Rightarrow> bool \<Rightarrow> 'f file_history \<times> 'f list option \<Rightarrow> 'f file_history \<times> 'f list option" where
  "flush_file_history key ok hs = (if od_has (fh_dirty (fst hs)) key then flush_key key ok hs else hs)"

definition append_files_history ::
    "nat \<Rightarrow> string \<Rightarrow> 'f list \<Rightarrow> bool \<Rightarrow> 'f file_history \<times> 'f list option \<Rightarrow> 'f file_history \<times> 'f list option" where
  "append_files_history threshold key files ok hs = (case hs of (h, stored) \<Rightarrow>
     (case append_files threshold key stored files h of
        (due, h1) \<Rightarrow> if due then flush_key key ok (h1, stored) else (h1, stored)))"

definition clear_fh_mission_cache :: "string \<Rightarrow> 'f file_history \<Rightarrow> 'f file_history" where
  "clear_fh_mission_cache key h = \<lparr>fh_cache = od_del key (fh_cache h), fh_persisted = fh_persisted h - {key},
     fh_dirty = od_del key (fh_dirty h)\<rparr>"

section \<open>One caller at a time\<close>

datatype 'f fh_op = Append "'f list" bool | Flush bool

fun fh_run :: "nat \<Rightarrow> string \<Rightarrow> 'f fh_op list \<Rightarrow> 'f file_history \<times> 'f list option \<Rightarrow> 'f file_history \<times> 'f list option" where
  "fh_run threshold key [] hs = hs"
| "fh_run threshold key (Append files ok # ops) hs = fh_run threshold key ops (append_files_history threshold key files ok hs)"
| "fh_run threshold key (Flush ok # ops) hs = fh_run threshold key ops (flush_file_history key ok hs)"

fun appended_files :: "'f fh_op list \<Rightarrow> 'f list" where
  "appended_files [] = []"
| "appended_files (Append files ok # ops) = files @ appended_files ops"
| "appended_files (Flush ok # ops) = appended_files ops"

text \<open>
  \<open>all\<close> is everything there should be: the cache (once loaded) holds it, a persisted key is stored, and
  a key that is not dirty is stored completely. With no write failing, fewer appends than the
  threshold are pending.
\<close>

definition fh_inv :: "string \<Rightarrow> 'f list \<Rightarrow> 'f file_history \<times> 'f list option \<Rightarrow> bool" where
  "fh_inv key all hs \<longleftrightarrow> (case hs of (h, stored) \<Rightarrow>
     (case od_get (fh_cache h) key of
        None \<Rightarrow> \<not> od_has (fh_dirty h) key \<and> all = (case stored of None \<Rightarrow> [] | Some fs \<Rightarrow> fs)
      | Some files \<Rightarrow> files = all)
     \<and> (key \<in> fh_persisted h \<longrightarrow> stored \<noteq> None)
     \<and> (\<not> od_has (fh_dirty h) key \<longrightarrow> all = (case stored of None \<Rightarrow> [] | Some fs \<Rightarrow> fs)))"

lemma fh_inv_init: "fh_inv key (case stored of None \<Rightarrow> [] | Some fs \<Rightarrow> fs) (fh_init, stored)"
  by (simp add: fh_inv_def fh_init_def od_has_def)

lemma fh_inv_flush_key: "fh_inv key all hs \<Longrightarrow> fh_inv key all (flush_key key ok hs)"
  by (auto simp: fh_inv_def flush_key_def flush_begin_def flush_end_def stored_after_def od_has_def
      split: prod.splits option.splits if_splits)

lemma fh_inv_flush: "fh_inv key all hs \<Longrightarrow> fh_inv key all (flush_file_history key ok hs)"
  by (simp add: flush_file_history_def fh_inv_flush_key)

lemma fh_inv_append_files:
  "fh_inv key all (h, stored) \<Longrightarrow> append_files threshold key stored files h = (due, h1) \<Longrightarrow> fh_inv key (all @ files) (h1, stored)"
  by (auto simp: fh_inv_def append_files_def load_file_history_def Let_def od_has_def split: option.splits)

lemma fh_inv_append: "fh_inv key all hs \<Longrightarrow> fh_inv key (all @ files) (append_files_history threshold key files ok hs)"
  by (cases hs) (auto simp: append_files_history_def split: prod.splits dest: fh_inv_append_files intro: fh_inv_flush_key)

lemma fh_inv_run: "fh_inv key all hs \<Longrightarrow> fh_inv key (all @ appended_files ops) (fh_run threshold key ops hs)"
proof (induction threshold key ops hs arbitrary: all rule: fh_run.induct)
  case (2 threshold key files ok ops hs)
  from "2.IH" [OF fh_inv_append [OF "2.prems"]] show ?case by simp
next
  case (3 threshold key ok ops hs)
  from "3.IH" [OF fh_inv_flush [OF "3.prems"]] show ?case by simp
qed simp



section \<open>Concurrent callers\<close>

text \<open>
  A file appended while the history is being written is lost. The write takes a snapshot, and when
  it succeeds the key is marked clean, together with what was appended meanwhile: the storage lacks
  that file, and the flush at the end of the run finds nothing to do.
\<close>

theorem append_during_flush_lost:
  assumes "flush_begin key h = (Some (files, by_update), h1)"
    and "append_files threshold key stored [f] h1 = (False, h2)"
    and "flush_end key True h2 = h3"
    and "stored' = stored_after True by_update files stored"
  shows "od_get (fh_cache h3) key = Some (files @ [f]) \<and> stored' \<noteq> Some (files @ [f])
    \<and> flush_file_history key True (h3, stored') = (h3, stored')"
proof -
  have c: "od_get (fh_cache h1) key = Some files" using assms(1) by (auto simp: flush_begin_def split: if_splits option.splits)
  then have "od_get (fh_cache h2) key = Some (files @ [f])"
    using assms(2) by (auto simp: append_files_def load_file_history_def Let_def)
  moreover have "\<not> od_has (fh_dirty h3) key" using assms(3) by (auto simp: flush_end_def od_has_def)
  moreover have "fh_cache h3 = fh_cache h2" using assms(3) by (auto simp: flush_end_def)
  ultimately show ?thesis by (auto simp: assms(4) stored_after_def flush_file_history_def)
qed

theorem append_during_flush_lost_witness:
  "let h = snd (append_files 10 ''k'' None [1::nat] fh_init);
      h2 = snd (append_files 10 ''k'' None [2] h)
   in flush_file_history ''k'' True (flush_end ''k'' True h2, stored_after True False [1] None) = (flush_end ''k'' True h2, Some [1])"
proof -
  let ?h = "snd (append_files 10 ''k'' None [1::nat] fh_init)"
  let ?h2 = "snd (append_files 10 ''k'' None [2] ?h)"
  have b: "flush_begin ''k'' ?h = (Some ([1], False), ?h)" by code_simp
  have a: "append_files 10 ''k'' None [2] ?h = (False, ?h2)" by code_simp
  from append_during_flush_lost [OF b a refl refl] show ?thesis by (simp add: Let_def stored_after_def)
qed

text \<open>A record removed from the storage behind the cache's back: the update finds nothing and the history counts as saved.\<close>

lemma update_of_missing_record:
  "od_get (fh_cache h) key = Some files \<Longrightarrow> od_has (fh_dirty h) key \<Longrightarrow> key \<in> fh_persisted h \<Longrightarrow>
    flush_file_history key True (h, None) = (flush_end key True h, None) \<and> \<not> od_has (fh_dirty (flush_end key True h)) key"
  by (auto simp: flush_file_history_def flush_key_def flush_begin_def flush_end_def stored_after_def od_has_def)

end
