(* ===== verification/Cost.thy ===== *)
theory Cost
  imports Module_Lifecycle
begin

text \<open>
  Cost tracking: the local service \<open>services/cost/default_cost.py\<close>, whose limit check is also the one of
  \<open>grpc_cost.py\<close>, the mixin around it, and the limits that come with an input
  (\<open>modules/_base_module.py\<close>, \<open>run\<close>). Amounts are \<open>real\<close>; the configured cost types are text, those of
  a record are members of \<open>CostType\<close>.
\<close>

section \<open>State\<close>

datatype CostType = OTHER | TOKEN_INPUT | TOKEN_OUTPUT | API_CALL | STORAGE | TIME

fun cost_type_of :: "string \<Rightarrow> CostType option" where
  "cost_type_of s =
     (if s = ''OTHER'' then Some OTHER else if s = ''TOKEN_INPUT'' then Some TOKEN_INPUT
      else if s = ''TOKEN_OUTPUT'' then Some TOKEN_OUTPUT else if s = ''API_CALL'' then Some API_CALL
      else if s = ''STORAGE'' then Some STORAGE else if s = ''TIME'' then Some TIME else None)"

record cost_config =
  cc_name :: string
  cc_type :: string
  cc_unit :: string
  cc_rate :: real

datatype limit_type = QuantityLimit | AmountLimit

record cost_limit =
  cl_type :: limit_type
  cl_name :: string
  cl_max :: real

record cost_data =
  cd_cost :: real
  cd_mission :: string
  cd_name :: string
  cd_type :: CostType
  cd_unit :: string
  cd_rate :: real
  cd_setup_version :: string
  cd_quantity :: real

record cost_service =
  cv_mission :: string
  cv_setup_version :: string
  cv_config :: "(string, cost_config) odict"
  cv_db :: "(string, cost_data list) odict"
  cv_limits :: "(string, cost_limit) odict"
  cv_accumulated :: "(string, real) odict"

definition cost_init :: "string \<Rightarrow> string \<Rightarrow> (string, cost_config) odict \<Rightarrow> cost_service" where
  "cost_init mission setup_version config = \<lparr>cv_mission = mission, cv_setup_version = setup_version,
     cv_config = config, cv_db = [], cv_limits = [], cv_accumulated = []\<rparr>"

section \<open>Operations\<close>

text \<open>
  A limit is handed over as a model or as the dictionary that \<open>model_dump()\<close> makes of it; reading
  \<open>limit.name\<close> of a dictionary raises \<open>AttributeError\<close>.
\<close>

datatype limit_arg = LimitModel cost_limit | LimitDict cost_limit

datatype cost_error = UnknownConfig string | DuplicateCost string string | UnknownMission string | LimitAttributeError

fun limit_entries :: "limit_arg list \<Rightarrow> (string, cost_limit) odict \<Rightarrow> cost_error + (string, cost_limit) odict" where
  "limit_entries [] d = Inr d"
| "limit_entries (LimitModel l # ls) d = limit_entries ls (od_set (cl_name l) l d)"
| "limit_entries (LimitDict l # ls) d = Inl LimitAttributeError"

definition set_limits :: "limit_arg list \<Rightarrow> cost_service \<Rightarrow> cost_error + cost_service" where
  "set_limits limits c = (case limit_entries limits [] of
      Inl e \<Rightarrow> Inl e
    | Inr d \<Rightarrow> Inr (c\<lparr>cv_limits := d, cv_accumulated := []\<rparr>))"

definition accumulated :: "string \<Rightarrow> cost_service \<Rightarrow> real" where
  "accumulated key c = (case od_get (cv_accumulated c) key of None \<Rightarrow> 0 | Some x \<Rightarrow> x)"

definition check_limit :: "string \<Rightarrow> real \<Rightarrow> cost_service \<Rightarrow> bool" where
  "check_limit config_name quantity c =
     (case od_get (cv_limits c) config_name of
        None \<Rightarrow> True
      | Some limit \<Rightarrow> (case od_get (cv_config c) config_name of
          None \<Rightarrow> True
        | Some cfg \<Rightarrow> (case cl_type limit of
            QuantityLimit \<Rightarrow> accumulated (config_name @ ''_quantity'') c + quantity \<le> cl_max limit
          | AmountLimit \<Rightarrow> accumulated (config_name @ ''_amount'') c + cc_rate cfg * quantity \<le> cl_max limit)))"

text \<open>\<open>CostType[...]\<close> of a configured type always exists: the configuration's field is restricted to the names.\<close>

definition cost_record :: "string \<Rightarrow> cost_config \<Rightarrow> real \<Rightarrow> cost_service \<Rightarrow> cost_data" where
  "cost_record name cfg quantity c =
     \<lparr>cd_cost = cc_rate cfg * quantity, cd_mission = cv_mission c, cd_name = name,
      cd_type = (case cost_type_of (cc_type cfg) of Some t \<Rightarrow> t | None \<Rightarrow> OTHER), cd_unit = cc_unit cfg,
      cd_rate = cc_rate cfg, cd_setup_version = cv_setup_version c, cd_quantity = quantity\<rparr>"

definition mission_costs :: "cost_service \<Rightarrow> cost_data list" where
  "mission_costs c = (case od_get (cv_db c) (cv_mission c) of None \<Rightarrow> [] | Some ds \<Rightarrow> ds)"

definition cost_add :: "string \<Rightarrow> string \<Rightarrow> real \<Rightarrow> cost_service \<Rightarrow> cost_error option \<times> cost_service" where
  "cost_add name config_name quantity c =
     (case od_get (cv_config c) config_name of
        None \<Rightarrow> (Some (UnknownConfig config_name), c)
      | Some cfg \<Rightarrow>
          let c1 = (if od_has (cv_db c) (cv_mission c) then c else c\<lparr>cv_db := od_set (cv_mission c) [] (cv_db c)\<rparr>)
          in if name \<in> cd_name ` set (mission_costs c1) then (Some (DuplicateCost name (cv_mission c)), c1)
             else (None, c1\<lparr>cv_db := od_set (cv_mission c) (mission_costs c1 @ [cost_record name cfg quantity c]) (cv_db c1)\<rparr>))"

definition cost_get :: "string \<Rightarrow> cost_service \<Rightarrow> cost_error + cost_data list" where
  "cost_get name c =
     (if \<not> od_has (cv_db c) (cv_mission c) then Inl (UnknownMission (cv_mission c))
      else Inr (filter (\<lambda>d. cd_name d = name) (mission_costs c)))"

text \<open>
  \<open>get_filtered\<close>: the types asked for are texts, and a member of the plain \<open>Enum\<close> equals no text.
\<close>

definition member_equals_text :: "CostType \<Rightarrow> string \<Rightarrow> bool" where
  "member_equals_text t s = False"

definition get_filtered :: "string list \<Rightarrow> string list \<Rightarrow> cost_service \<Rightarrow> cost_error + cost_data list" where
  "get_filtered names cost_types c =
     (if \<not> od_has (cv_db c) (cv_mission c) then Inl (UnknownMission (cv_mission c))
      else Inr (filter (\<lambda>d. (names \<noteq> [] \<and> cd_name d \<in> set names)
                          \<or> (cost_types \<noteq> [] \<and> list_ex (member_equals_text (cd_type d)) cost_types)) (mission_costs c)))"

definition get_cost_config :: "cost_service \<Rightarrow> cost_config list" where
  "get_cost_config c = map snd (cv_config c)"

definition set_cost_config :: "cost_config list \<Rightarrow> cost_service \<Rightarrow> cost_service" where
  "set_cost_config configs c = c\<lparr>cv_config := fold (\<lambda>cfg d. od_set (cc_name cfg) cfg d) configs []\<rparr>"

text \<open>The mixin: failures are logged, the task goes on.\<close>

definition add_cost :: "string \<Rightarrow> string \<Rightarrow> real \<Rightarrow> cost_service \<Rightarrow> cost_service" where
  "add_cost name config_name quantity c = snd (cost_add name config_name quantity c)"

definition get_cost :: "string \<Rightarrow> cost_service \<Rightarrow> cost_data list" where
  "get_cost name c = (case cost_get name c of Inl e \<Rightarrow> [] | Inr ds \<Rightarrow> ds)"

definition get_costs :: "string list \<Rightarrow> string list \<Rightarrow> cost_service \<Rightarrow> cost_data list" where
  "get_costs names cost_types c = (case get_filtered names cost_types c of Inl e \<Rightarrow> [] | Inr ds \<Rightarrow> ds)"

text \<open>
  The limits of an input as \<open>run\<close> hands them to the cost service: \<open>model_dump()\<close> has turned them into
  dictionaries. The exception, as the run sees it.
\<close>

definition input_limits :: "cost_limit list \<Rightarrow> cost_service \<Rightarrow> mod_exc option \<times> cost_service" where
  "input_limits limits c = (case set_limits (map LimitDict limits) c of
      Inr c' \<Rightarrow> (None, c')
    | Inl e \<Rightarrow> (Some (ModError ''AttributeError'' ''dict object has no attribute name''), c))"

section \<open>What is recorded\<close>

lemma cost_add_frame:
  "cv_limits (snd (cost_add name config_name quantity c)) = cv_limits c
    \<and> cv_accumulated (snd (cost_add name config_name quantity c)) = cv_accumulated c
    \<and> cv_config (snd (cost_add name config_name quantity c)) = cv_config c
    \<and> cv_mission (snd (cost_add name config_name quantity c)) = cv_mission c"
  by (simp add: cost_add_def Let_def split: option.splits)

definition cost_inv :: "cost_service \<Rightarrow> bool" where
  "cost_inv c \<longleftrightarrow> distinct (map cd_name (mission_costs c))
     \<and> (\<forall>d\<in>set (mission_costs c). cd_mission d = cv_mission c \<and> cd_cost d = cd_rate d * cd_quantity d)"

lemma mission_costs_new [simp]:
  "mission_costs (c\<lparr>cv_db := od_set (cv_mission c) ds (cv_db c)\<rparr>) = ds"
  by (simp add: mission_costs_def)

lemma mission_costs_fresh: "\<not> od_has (cv_db c) (cv_mission c) \<Longrightarrow> mission_costs c = []"
  by (simp add: mission_costs_def od_has_def)

text \<open>
  A cost is recorded once, at its rate. Adding a cost under a configured name and a fresh record name
  appends exactly one record with the cost rate times quantity, of this mission; an unknown
  configuration or a name that is taken is an error that leaves the records alone; and the
  records of a mission always have different names and consistent amounts.
\<close>

theorem cost_recorded_once:
  assumes "cost_inv c" and "cost_add name config_name quantity c = (e, c')"
  shows "cost_inv c'
    \<and> (case od_get (cv_config c) config_name of
        None \<Rightarrow> e = Some (UnknownConfig config_name) \<and> c' = c
      | Some cfg \<Rightarrow>
          if name \<in> cd_name ` set (mission_costs c)
          then e = Some (DuplicateCost name (cv_mission c)) \<and> mission_costs c' = mission_costs c
          else e = None \<and> mission_costs c' = mission_costs c @ [cost_record name cfg quantity c])"
proof (cases "od_get (cv_config c) config_name")
  case None
  with assms show ?thesis by (simp add: cost_add_def)
next
  case (Some cfg)
  define c1 where "c1 = (if od_has (cv_db c) (cv_mission c) then c else c\<lparr>cv_db := od_set (cv_mission c) [] (cv_db c)\<rparr>)"
  have m: "mission_costs c1 = mission_costs c" using mission_costs_fresh [of c] by (simp add: c1_def)
  have mi: "cv_mission c1 = cv_mission c" by (simp add: c1_def)
  show ?thesis
  proof (cases "name \<in> cd_name ` set (mission_costs c)")
    case True
    with Some assms(2) have "e = Some (DuplicateCost name (cv_mission c))" "c' = c1"
      by (simp_all add: cost_add_def Let_def m flip: c1_def)
    with True Some assms(1) show ?thesis by (simp add: cost_inv_def m mi)
  next
    case False
    with Some assms(2) have e: "e = None" and c': "c' = c1\<lparr>cv_db := od_set (cv_mission c1) (mission_costs c @ [cost_record name cfg quantity c]) (cv_db c1)\<rparr>"
      by (simp_all add: cost_add_def Let_def m mi flip: c1_def)
    have mc: "mission_costs c' = mission_costs c @ [cost_record name cfg quantity c]" unfolding c' by (rule mission_costs_new)
    have "cv_mission c' = cv_mission c" by (simp add: c' mi)
    with False assms(1) mc have "cost_inv c'" by (auto simp: cost_inv_def cost_record_def)
    with False Some e mc show ?thesis by simp
  qed
qed

definition cost_demo :: cost_service where
  "cost_demo = cost_init ''m'' ''v'' [(''calls'', \<lparr>cc_name = ''calls'', cc_type = ''API_CALL'', cc_unit = ''call'', cc_rate = 2\<rparr>)]"

theorem cost_recorded_once_witness:
  "map cd_cost (mission_costs (snd (cost_add ''a'' ''calls'' 3 cost_demo))) = [6]"
proof -
  have i: "cost_inv cost_demo" by (simp add: cost_inv_def cost_demo_def cost_init_def mission_costs_def)
  have g: "od_get (cv_config cost_demo) ''calls'' = Some \<lparr>cc_name = ''calls'', cc_type = ''API_CALL'', cc_unit = ''call'', cc_rate = 2\<rparr>"
    by (simp add: cost_demo_def cost_init_def od_get_Cons)
  have m: "mission_costs cost_demo = []" by (simp add: cost_demo_def cost_init_def mission_costs_def)
  from cost_recorded_once [OF i prod.collapse [symmetric], of "''a''" "''calls''" 3] show ?thesis
    by (simp add: g m cost_record_def)
qed

section \<open>Limits\<close>

text \<open>
  Limits bound a single cost, not their sum. Nothing is ever added to the accumulated amounts, so the
  check of a limit answers the same after any costs: once a quantity passes it can be added any
  number of times, and the recorded total exceeds every maximum.
\<close>

theorem limits_never_accumulate:
  assumes "c' = fold (\<lambda>(n, cfg, q) c. add_cost n cfg q c) adds c"
  shows "check_limit config_name quantity c' = check_limit config_name quantity c"
proof -
  have "cv_limits c' = cv_limits c \<and> cv_accumulated c' = cv_accumulated c \<and> cv_config c' = cv_config c"
    unfolding assms by (induction adds arbitrary: c) (auto simp: add_cost_def cost_add_frame)
  then show ?thesis by (simp add: check_limit_def accumulated_def split: option.split limit_type.split)
qed

text \<open>Three calls of four units each under a limit of five units: each passes, twelve are recorded.\<close>

definition limited_demo :: cost_service where
  "limited_demo = cost_demo\<lparr>cv_limits := [(''calls'', \<lparr>cl_type = QuantityLimit, cl_name = ''calls'', cl_max = 5\<rparr>)]\<rparr>"

theorem limits_never_accumulate_witness:
  "check_limit ''calls'' 4 limited_demo
    \<and> check_limit ''calls'' 4 (fold (\<lambda>(n, cfg, q) c. add_cost n cfg q c) [(''a'', ''calls'', 4), (''b'', ''calls'', 4), (''c'', ''calls'', 4)] limited_demo)"
proof -
  have "check_limit ''calls'' 4 limited_demo"
    by (simp add: check_limit_def limited_demo_def cost_demo_def cost_init_def od_get_Cons accumulated_def)
  with limits_never_accumulate [OF refl, of "''calls''" 4] show ?thesis by blast
qed

lemma limit_dicts_fail: "limits \<noteq> [] \<Longrightarrow> fst (input_limits limits c) = Some (ModError ''AttributeError'' ''dict object has no attribute name'')"
  by (cases limits) (simp_all add: input_limits_def set_limits_def)

text \<open>
  An input with cost limits fails. \<open>run\<close> hands the limits of the input to the cost service as the
  dictionaries \<open>model_dump()\<close> made of them, whose names cannot be read: a run with any limit ends in
  an \<open>AttributeError\<close> before a handler is chosen, and the module fails.
\<close>

theorem limited_run_fails:
  assumes "mo_validate env = None" and "mo_has_limits env" and "limits \<noteq> []"
    and "mo_set_limits env = fst (input_limits limits c)"
    and "bm_prepared m" and "bm_start env m = (evs, r, m')"
  shows "Handle \<notin> set evs \<and> bm_status m' = FAILED
    \<and> SendCode ''Error'' ''Module execution failed'' ''dict object has no attribute name'' \<in> set evs"
proof -
  have "bm_run env = ([SetLimits], Some (ModError ''AttributeError'' ''dict object has no attribute name''))"
    using limit_dicts_fail [OF assms(3)] assms(1,2,4) by (simp add: bm_run_def)
  then have l: "bm_run_lifecycle env m = ([SetLimits, SendCode ''Error'' ''Module execution failed'' ''dict object has no attribute name''],
      swallowed (mo_send_code env), m\<lparr>bm_status := FAILED\<rparr>)"
    by (simp add: bm_run_lifecycle_def)
  with assms(5,6) show ?thesis by (auto simp: bm_start_def bm_prepare_def l stop_over)
qed

theorem limited_run_fails_witness:
  "bm_status (snd (snd (bm_start (smooth_env\<lparr>mo_has_limits := True, mo_set_limits := fst (input_limits [\<lparr>cl_type = QuantityLimit, cl_name = ''calls'', cl_max = 5\<rparr>] cost_demo)\<rparr>)
      ((bm_init False False)\<lparr>bm_prepared := True, bm_callback := True\<rparr>)))) = FAILED"
proof -
  let ?l = "[\<lparr>cl_type = QuantityLimit, cl_name = ''calls'', cl_max = 5\<rparr>] :: cost_limit list"
  let ?env = "smooth_env\<lparr>mo_has_limits := True, mo_set_limits := fst (input_limits ?l cost_demo)\<rparr>"
  let ?m = "(bm_init False False)\<lparr>bm_prepared := True, bm_callback := True\<rparr>"
  have v: "mo_validate ?env = None" by (simp add: smooth_env_def)
  have h: "mo_has_limits ?env" by simp
  have ne: "?l \<noteq> []" by simp
  have s: "mo_set_limits ?env = fst (input_limits ?l cost_demo)" by simp
  have p: "bm_prepared ?m" by simp
  obtain evs r m' where st: "bm_start ?env ?m = (evs, r, m')" by (metis prod_cases3)
  from limited_run_fails [OF v h ne s p st] show ?thesis by (simp add: st)
qed

text \<open>
  Filtering by type selects nothing; so a query by type alone is always empty, and names and types
  are alternatives, not a conjunction.
\<close>

lemma filter_by_type_empty: "od_has (cv_db c) (cv_mission c) \<Longrightarrow> get_filtered [] types c = Inr []"
  by (simp add: get_filtered_def member_equals_text_def list_ex_iff)

end
