(* ===== verification/Event_Stream.thy ===== *)
theory Event_Stream
  imports Prelude
begin

text \<open>
  Stateful converters of event streams and the grammars their output obeys. A step takes a state to
  the events it emits and the next state; a grammar is a partial automaton that reads events. The
  locale \<open>event_source\<close> is the contract of a converter whose output a grammar accepts: it is
  proved once and interpreted for each converter of the program.
\<close>

section \<open>Steps in sequence\<close>

definition and_then :: "('s \<Rightarrow> 'e list \<times> 's) \<Rightarrow> ('s \<Rightarrow> 'e list \<times> 's) \<Rightarrow> 's \<Rightarrow> 'e list \<times> 's" where
  "and_then f g s = (case f s of (es, s1) \<Rightarrow> (case g s1 of (es', s2) \<Rightarrow> (es @ es', s2)))"

fun each :: "('k \<Rightarrow> 's \<Rightarrow> 'e list \<times> 's) \<Rightarrow> 'k list \<Rightarrow> 's \<Rightarrow> 'e list \<times> 's" where
  "each f [] s = ([], s)"
| "each f (k # ks) s = and_then (f k) (each f ks) s"

lemma fst_and_then: "fst (and_then f g s) = fst (f s) @ fst (g (snd (f s)))"
  by (simp add: and_then_def split: prod.split)

lemma snd_and_then [simp]: "snd (and_then f g s) = snd (g (snd (f s)))"
  by (simp add: and_then_def split: prod.split)

lemma each_append: "each f (xs @ ys) s = and_then (each f xs) (each f ys) s"
  by (induction xs arbitrary: s) (simp_all add: and_then_def split: prod.split)

lemma each_frame: "(\<And>k s. h (snd (f k s)) = h s) \<Longrightarrow> h (snd (each f ks s)) = h s"
  by (induction ks arbitrary: s) simp_all

section \<open>Grammars\<close>

fun accepts :: "('e \<Rightarrow> 'g \<Rightarrow> 'g option) \<Rightarrow> 'e list \<Rightarrow> 'g \<Rightarrow> 'g option" where
  "accepts acc [] g = Some g"
| "accepts acc (e # es) g = (case acc e g of None \<Rightarrow> None | Some g' \<Rightarrow> accepts acc es g')"

lemma accepts_append: "accepts acc (es @ es') g = (case accepts acc es g of None \<Rightarrow> None | Some g' \<Rightarrow> accepts acc es' g')"
  by (induction es arbitrary: g) (simp_all split: option.split)

lemma accepts_then: "accepts acc es g = Some g1 \<Longrightarrow> accepts acc es' g1 = Some g2 \<Longrightarrow> accepts acc (es @ es') g = Some g2"
  by (simp add: accepts_append)

definition when_ok :: "bool \<Rightarrow> 'g \<Rightarrow> 'g option" where
  "when_ok b g = (if b then Some g else None)"

lemma when_ok_simps [simp]: "when_ok True g = Some g" "when_ok b g = Some g' \<longleftrightarrow> b \<and> g' = g" "when_ok b g = None \<longleftrightarrow> \<not> b"
  by (auto simp: when_ok_def)

text \<open>
  From related states, the events of the step are accepted and lead to related states.
\<close>

definition yields :: "('e \<Rightarrow> 'g \<Rightarrow> 'g option) \<Rightarrow> ('s \<Rightarrow> 'g \<Rightarrow> bool) \<Rightarrow> ('s \<Rightarrow> 'e list \<times> 's) \<Rightarrow> ('s \<Rightarrow> 'g \<Rightarrow> bool) \<Rightarrow> bool" where
  "yields acc P f Q \<longleftrightarrow> (\<forall>s g. P s g \<longrightarrow> (\<exists>g'. accepts acc (fst (f s)) g = Some g' \<and> Q (snd (f s)) g'))"

lemma yieldsI: "(\<And>s g. P s g \<Longrightarrow> \<exists>g'. accepts acc (fst (f s)) g = Some g' \<and> Q (snd (f s)) g') \<Longrightarrow> yields acc P f Q"
  by (simp add: yields_def)

lemma yieldsD: "yields acc P f Q \<Longrightarrow> P s g \<Longrightarrow> \<exists>g'. accepts acc (fst (f s)) g = Some g' \<and> Q (snd (f s)) g'"
  by (simp add: yields_def)

lemma yields_and_then: "yields acc P f Q \<Longrightarrow> yields acc Q f' R \<Longrightarrow> yields acc P (and_then f f') R"
  by (fastforce simp: yields_def fst_and_then accepts_append)

lemma yields_weaken: "yields acc P f Q \<Longrightarrow> (\<And>s g. P' s g \<Longrightarrow> P s g) \<Longrightarrow> (\<And>s g. Q s g \<Longrightarrow> Q' s g) \<Longrightarrow> yields acc P' f Q'"
  unfolding yields_def by blast

lemma yields_frame: "yields acc P f Q \<Longrightarrow> (\<And>s. F s \<Longrightarrow> F (snd (f s))) \<Longrightarrow> yields acc (\<lambda>s g. P s g \<and> F s) f (\<lambda>s g. Q s g \<and> F s)"
  unfolding yields_def by blast

lemma yields_each: "(\<And>k. yields acc P (f k) P) \<Longrightarrow> yields acc P (each f ks) P"
proof (induction ks)
  case Nil
  show ?case by (simp add: yields_def)
next
  case (Cons k ks)
  have e: "each f (k # ks) = and_then (f k) (each f ks)" by (rule ext) simp
  from Cons show ?case unfolding e by (blast intro: yields_and_then)
qed

lemma yields_same: "(\<And>s. f s = ([], s)) \<Longrightarrow> yields acc P f P"
  by (simp add: yields_def)

section \<open>Interface: a converter whose output obeys a grammar\<close>

fun along :: "('i \<Rightarrow> 's \<Rightarrow> bool) \<Rightarrow> ('i \<Rightarrow> 's \<Rightarrow> 'e list \<times> 's) \<Rightarrow> 'i list \<Rightarrow> 's \<Rightarrow> bool" where
  "along good step [] s = True"
| "along good step (i # is) s = (good i s \<and> along good step is (snd (step i s)))"

locale event_source =
  fixes step :: "'i \<Rightarrow> 's \<Rightarrow> 'e list \<times> 's"
    and good :: "'i \<Rightarrow> 's \<Rightarrow> bool"
    and acc :: "'e \<Rightarrow> 'g \<Rightarrow> 'g option"
    and rel :: "'s \<Rightarrow> 'g \<Rightarrow> bool"
  assumes step_yields: "yields acc (\<lambda>s g. rel s g \<and> good i s) (step i) rel"
begin

lemma run_accepted: "rel s g \<Longrightarrow> along good step is s \<Longrightarrow> \<exists>g'. accepts acc (fst (each step is s)) g = Some g' \<and> rel (snd (each step is s)) g'"
proof (induction "is" arbitrary: s g)
  case Nil
  then show ?case by simp
next
  case (Cons i "is")
  from yieldsD [OF step_yields, of s g i] Cons.prems
  obtain g1 where g1: "accepts acc (fst (step i s)) g = Some g1" "rel (snd (step i s)) g1" by auto
  from Cons.IH [OF g1(2)] Cons.prems(2) g1(1) show ?case by (auto simp: fst_and_then accepts_append)
qed

lemma run_then: "rel s g \<Longrightarrow> along good step is s \<Longrightarrow> yields acc rel fin Q \<Longrightarrow>
    \<exists>g'. accepts acc (fst (and_then (each step is) fin s)) g = Some g' \<and> Q (snd (and_then (each step is) fin s)) g'"
  using run_accepted [of s g "is"] by (fastforce simp: yields_def fst_and_then accepts_append)

end

end
