(* ===== verification/Agno_Adapter.thy ===== *)
theory Agno_Adapter
  imports Struct_Value Event_Stream
begin

text \<open>
  The conversion of an agent framework's event stream into the framework-independent events the modules
  send, \<open>community/agno/agno_adapter.py\<close>, with the event models of \<open>models/events/agent_events.py\<close>.
  The incoming events are data of the third-party framework with the fields the adapter reads;
  \<open>uuid n\<close> is the \<open>n\<close>-th identifier drawn from \<open>uuid4\<close> and \<open>loads\<close> is \<open>json.loads\<close> (\<open>None\<close>
  for \<open>ValueError\<close>). A handler returns the events it emits and the new state.
\<close>

section \<open>Events\<close>

record event_meta =
  em_source :: string
  em_name :: "string option"
  em_id :: "string option"
  em_parent :: "string option"

record tool_exec =
  tx_id :: "string option"
  tx_name :: "string option"
  tx_args :: "pvalue option"
  tx_result :: "string option"
  tx_external :: bool

record requirement =
  rq_tool :: "tool_exec option"
  rq_needs_external :: bool
  rq_result :: "string option"

datatype agno_kind =
    KRunStarted | KRunContent | KRunCompleted | KRunError | KRunPaused
  | KReasoningStarted | KReasoningContentDelta | KReasoningStep | KReasoningCompleted
  | KToolCallStarted | KToolCallCompleted | KToolCallError | KUnhandled string

record agno_event =
  ag_kind :: agno_kind
  ag_team :: bool
  ag_run_id :: "string option"
  ag_parent :: "string option"
  ag_name :: "string option"
  ag_id :: "string option"
  ag_session :: "string option"
  ag_time :: "real option"
  ag_content :: "string option"
  ag_reasoning :: "string option"
  ag_error_type :: "string option"
  ag_tool :: "tool_exec option"
  ag_tools :: "tool_exec list"
  ag_requirements :: "requirement list"

record tool_info =
  ti_id :: "string option"
  ti_name :: "string option"
  ti_args :: "pvalue option"
  ti_result :: "string option"

text \<open>
  The events sent on, with the fields the adapter fills: identifiers and texts first, then
  \<open>subagent_run_id\<close> (for events below the run level), the time stamp and the metadata.
\<close>

datatype run_event =
    RunStarted "string option" "string option" "real option" "event_meta option"
  | RunCompleted "string option" "string option" "real option" "event_meta option"
  | RunError "string option" "string option" "real option" "event_meta option"
  | SubagentStarted string string "string option" "real option" "event_meta option"
  | SubagentFinished string "string option" "real option" "event_meta option"
  | SubagentError string string "string option" "real option" "event_meta option"
  | TextStarted string "string option" "string option" "real option" "event_meta option"
  | TextContent string string "string option" "real option" "event_meta option"
  | TextCompleted string "string option" "real option" "event_meta option"
  | ReasoningStarted string "string option" "real option" "event_meta option"
  | ReasoningDelta string "string option" "string option" "real option" "event_meta option"
  | ReasoningStep string string "string option" "real option" "event_meta option"
  | ReasoningCompleted string "string option" "real option" "event_meta option"
  | ToolCallStarted "tool_info option" "string option" "real option" "event_meta option"
  | ToolCallCompleted "tool_info option" "string option" "string option" "real option" "event_meta option"
  | ToolCallError "tool_info option" "string option" "string option" "real option" "event_meta option"

section \<open>State\<close>

text \<open>
  The open text messages and reasoning phases by run, each with its identifier and the metadata of the
  event that opened it, and the delegations in flight by the child's run id with its name.
  \<open>ad_meta\<close> and \<open>ad_run_key\<close> are those of the event in hand; \<open>ad_uuids\<close> counts the identifiers drawn.
\<close>

type_synonym open_seqs = "(string, string \<times> event_meta option) odict"

record adapter =
  ad_messages :: open_seqs
  ad_reasonings :: open_seqs
  ad_closed :: "string set"
  ad_active :: "string option"
  ad_completed :: "string set"
  ad_subagents :: open_seqs
  ad_paused :: bool
  ad_paused_tools :: "tool_exec list"
  ad_paused_reqs :: "requirement list"
  ad_meta :: "event_meta option"
  ad_run_key :: string
  ad_uuids :: nat

definition ad_init :: adapter where
  "ad_init = \<lparr>ad_messages = [], ad_reasonings = [], ad_closed = {}, ad_active = None, ad_completed = {}, ad_subagents = [],
     ad_paused = False, ad_paused_tools = [], ad_paused_reqs = [], ad_meta = None, ad_run_key = '''', ad_uuids = 0\<rparr>"

text \<open>Python's \<open>if s\<close>, \<open>s or d\<close> and \<open>str(s) if s else None\<close> for an optional text.\<close>

definition truthy :: "string option \<Rightarrow> bool" where
  "truthy s \<longleftrightarrow> s \<noteq> None \<and> s \<noteq> Some ''''"

definition or_str :: "string option \<Rightarrow> string \<Rightarrow> string" where
  "or_str s d = (case s of None \<Rightarrow> d | Some t \<Rightarrow> if t = '''' then d else t)"

definition or_none :: "string option \<Rightarrow> string option" where
  "or_none s = (if truthy s then s else None)"

definition subagent_of :: "string \<Rightarrow> adapter \<Rightarrow> string option" where
  "subagent_of k ad = (if od_has (ad_subagents ad) k then Some k else None)"

definition build_metadata :: "agno_event \<Rightarrow> event_meta" where
  "build_metadata ev = \<lparr>em_source = (if ag_team ev then ''team'' else ''agent''), em_name = ag_name ev, em_id = ag_id ev,
     em_parent = ag_parent ev\<rparr>"

section \<open>Closing what is open\<close>

type_synonym step = "adapter \<Rightarrow> run_event list \<times> adapter"

definition close_content :: "string \<Rightarrow> real option \<Rightarrow> step" where
  "close_content k t ad = (case od_get (ad_messages ad) k of
      None \<Rightarrow> ([], ad)
    | Some (mid, m) \<Rightarrow> ([TextCompleted mid (subagent_of k ad) t m], ad\<lparr>ad_messages := od_del k (ad_messages ad)\<rparr>))"

definition close_reasoning :: "string \<Rightarrow> real option \<Rightarrow> step" where
  "close_reasoning k t ad = (case od_get (ad_reasonings ad) k of
      None \<Rightarrow> ([], ad)
    | Some (rid, m) \<Rightarrow> ([ReasoningCompleted rid (subagent_of k ad) t m], ad\<lparr>ad_reasonings := od_del k (ad_reasonings ad)\<rparr>))"

definition close_all_content :: "real option \<Rightarrow> step" where
  "close_all_content t ad = each (\<lambda>k. close_content k t) (rev (map fst (ad_messages ad))) ad"

definition close_all_reasoning :: "real option \<Rightarrow> step" where
  "close_all_reasoning t ad = each (\<lambda>k. close_reasoning k t) (rev (map fst (ad_reasonings ad))) ad"

definition close_subagents :: "real option \<Rightarrow> step" where
  "close_subagents t ad =
     (map (\<lambda>(rid, (_, m)). SubagentFinished rid None t m) (rev (ad_subagents ad)), ad\<lparr>ad_subagents := []\<rparr>)"

definition close_everything :: "real option \<Rightarrow> step" where
  "close_everything t = and_then (close_all_content t) (and_then (close_all_reasoning t) (close_subagents t))"

section \<open>Handlers\<close>

definition run_key_of :: "agno_event \<Rightarrow> adapter \<Rightarrow> string" where
  "run_key_of ev ad = or_str (ag_run_id ev) (or_str (ad_active ad) '''')"

text \<open>The delegation of a nested run, once the parent's own sequences are closed.\<close>

definition start_subagent :: "agno_event \<Rightarrow> step" where
  "start_subagent ev ad =
     (let rid = or_str (ag_run_id ev) '''';
          parent = or_str (ag_parent ev) '''';
          name = or_str (case ad_meta ad of None \<Rightarrow> None | Some m \<Rightarrow> em_name m) ''member'';
          subs = od_set rid (name, ad_meta ad) (ad_subagents ad)
      in ([SubagentStarted rid name (if od_has subs parent then Some parent else None) (ag_time ev) (ad_meta ad)],
          ad\<lparr>ad_subagents := subs\<rparr>))"

definition handle_run_started :: "agno_event \<Rightarrow> step" where
  "handle_run_started ev ad =
     (if truthy (ag_parent ev) then
        let parent = or_str (ag_parent ev) '''' in
        (if \<not> truthy (ag_run_id ev) then ([], ad)
         else and_then (close_content parent (ag_time ev)) (and_then (close_reasoning parent (ag_time ev)) (start_subagent ev)) ad)
      else if truthy (ag_run_id ev) \<and> ag_run_id ev = ad_active ad then ([], ad)
      else ([RunStarted (ag_run_id ev) (ag_session ev) (ag_time ev) (ad_meta ad)], ad\<lparr>ad_active := ag_run_id ev\<rparr>))"

definition finish_subagent :: "agno_event \<Rightarrow> step" where
  "finish_subagent ev ad =
     (if truthy (ag_run_id ev) then
        (let rid = or_str (ag_run_id ev) '''' in case od_get (ad_subagents ad) rid of
           None \<Rightarrow> ([], ad)
         | Some (_, m) \<Rightarrow> ([SubagentFinished rid (or_none (ag_content ev)) (ag_time ev) m], ad\<lparr>ad_subagents := od_del rid (ad_subagents ad)\<rparr>))
      else ([], ad))"

definition finish_run :: "agno_event \<Rightarrow> step" where
  "finish_run ev ad =
     ([RunCompleted (ag_run_id ev) (or_none (ag_content ev)) (ag_time ev) (ad_meta ad)],
      ad\<lparr>ad_completed := (if truthy (ag_run_id ev) then insert (or_str (ag_run_id ev) '''') (ad_completed ad) else ad_completed ad),
         ad_active := None\<rparr>)"

definition handle_run_completed :: "agno_event \<Rightarrow> step" where
  "handle_run_completed ev ad =
     (if truthy (ag_parent ev) then
        and_then (close_content (ad_run_key ad) (ag_time ev)) (and_then (close_reasoning (ad_run_key ad) (ag_time ev)) (finish_subagent ev)) ad
      else if truthy (ag_run_id ev) \<and> or_str (ag_run_id ev) '''' \<in> ad_completed ad \<and> ag_run_id ev \<noteq> ad_active ad then ([], ad)
      else and_then (close_everything (ag_time ev)) (finish_run ev) ad)"

definition fail_subagent :: "agno_event \<Rightarrow> step" where
  "fail_subagent ev ad =
     (let rid = or_str (ag_run_id ev) '''' in case od_get (ad_subagents ad) rid of
        None \<Rightarrow> ([], ad)
      | Some (_, m) \<Rightarrow> ([SubagentError rid (or_str (ag_content ev) ''subagent run failed'') (ag_error_type ev) (ag_time ev) m],
          ad\<lparr>ad_subagents := od_del rid (ad_subagents ad)\<rparr>))"

definition handle_run_error :: "agno_event \<Rightarrow> step" where
  "handle_run_error ev ad =
     (if truthy (ag_run_id ev) \<and> od_has (ad_subagents ad) (or_str (ag_run_id ev) '''') then
        let rid = or_str (ag_run_id ev) '''' in
        and_then (close_content rid (ag_time ev)) (and_then (close_reasoning rid (ag_time ev)) (fail_subagent ev)) ad
      else and_then (close_everything (ag_time ev)) (\<lambda>ad.
        ([RunError (ag_error_type ev) (or_none (ag_content ev)) (ag_time ev) (ad_meta ad)], ad)) ad)"

text \<open>Reasoning: a phase opened by \<open>open_reasoning\<close> has a fresh identifier and the metadata of the event in hand.\<close>

definition open_reasoning :: "(nat \<Rightarrow> string) \<Rightarrow> event_meta option \<Rightarrow> agno_event \<Rightarrow> step" where
  "open_reasoning uuid m ev ad =
     (let rid = uuid (ad_uuids ad); k = ad_run_key ad in
      ([ReasoningStarted rid (subagent_of k ad) (ag_time ev) m],
       ad\<lparr>ad_reasonings := od_set k (rid, ad_meta ad) (ad_reasonings ad), ad_uuids := Suc (ad_uuids ad)\<rparr>))"

definition handle_reasoning_started :: "(nat \<Rightarrow> string) \<Rightarrow> agno_event \<Rightarrow> step" where
  "handle_reasoning_started uuid ev ad =
     and_then (close_content (ad_run_key ad) (ag_time ev)) (open_reasoning uuid (ad_meta ad) ev) ad"

definition handle_reasoning_content_delta :: "agno_event \<Rightarrow> step" where
  "handle_reasoning_content_delta ev ad =
     ([ReasoningDelta (or_str (ag_reasoning ev) '''') (map_option fst (od_get (ad_reasonings ad) (ad_run_key ad)))
         (subagent_of (ad_run_key ad) ad) (ag_time ev) (ad_meta ad)], ad)"

definition ensure_reasoning :: "(nat \<Rightarrow> string) \<Rightarrow> event_meta option \<Rightarrow> agno_event \<Rightarrow> step" where
  "ensure_reasoning uuid m ev ad = (if od_has (ad_reasonings ad) (ad_run_key ad) then ([], ad) else open_reasoning uuid m ev ad)"

definition open_id :: "open_seqs \<Rightarrow> string \<Rightarrow> string" where
  "open_id d k = (case od_get d k of None \<Rightarrow> '''' | Some (i, _) \<Rightarrow> i)"

definition handle_reasoning_step :: "(nat \<Rightarrow> string) \<Rightarrow> agno_event \<Rightarrow> step" where
  "handle_reasoning_step uuid ev ad =
     (if \<not> truthy (ag_reasoning ev) then ([], ad)
      else and_then (close_content (ad_run_key ad) (ag_time ev)) (and_then (ensure_reasoning uuid None ev) (\<lambda>ad.
        ([ReasoningStep (or_str (ag_reasoning ev) '''') (open_id (ad_reasonings ad) (ad_run_key ad))
            (subagent_of (ad_run_key ad) ad) (ag_time ev) (ad_meta ad)], ad))) ad)"

definition handle_reasoning_completed :: "agno_event \<Rightarrow> step" where
  "handle_reasoning_completed ev ad = close_reasoning (ad_run_key ad) (ag_time ev) ad"

text \<open>Text and reasoning content.\<close>

definition process_reasoning_content :: "(nat \<Rightarrow> string) \<Rightarrow> string \<Rightarrow> agno_event \<Rightarrow> step" where
  "process_reasoning_content uuid content ev ad =
     (if content = '''' then close_reasoning (ad_run_key ad) (ag_time ev) ad
      else and_then (close_content (ad_run_key ad) (ag_time ev)) (and_then (ensure_reasoning uuid (ad_meta ad) ev) (\<lambda>ad.
        ([ReasoningDelta content (Some (open_id (ad_reasonings ad) (ad_run_key ad)))
            (subagent_of (ad_run_key ad) ad) (ag_time ev) (ad_meta ad)], ad))) ad)"

definition ensure_message :: "(nat \<Rightarrow> string) \<Rightarrow> agno_event \<Rightarrow> step" where
  "ensure_message uuid ev ad =
     (if od_has (ad_messages ad) (ad_run_key ad) then ([], ad)
      else let mid = uuid (ad_uuids ad); k = ad_run_key ad;
               name = (case ad_meta ad of None \<Rightarrow> None | Some m \<Rightarrow> if truthy (em_parent m) then em_name m else None)
           in ([TextStarted mid name (subagent_of k ad) (ag_time ev) (ad_meta ad)],
               ad\<lparr>ad_messages := od_set k (mid, ad_meta ad) (ad_messages ad), ad_uuids := Suc (ad_uuids ad)\<rparr>))"

definition process_text_content :: "(nat \<Rightarrow> string) \<Rightarrow> string \<Rightarrow> agno_event \<Rightarrow> step" where
  "process_text_content uuid content ev ad =
     (if content = '''' then close_content (ad_run_key ad) (ag_time ev) ad
      else and_then (close_reasoning (ad_run_key ad) (ag_time ev)) (and_then (ensure_message uuid ev) (\<lambda>ad.
        ([TextContent content (open_id (ad_messages ad) (ad_run_key ad)) (subagent_of (ad_run_key ad) ad) (ag_time ev) (ad_meta ad)], ad))) ad)"

definition handle_run_content :: "(nat \<Rightarrow> string) \<Rightarrow> agno_event \<Rightarrow> step" where
  "handle_run_content uuid ev =
     and_then (\<lambda>ad. case ag_reasoning ev of None \<Rightarrow> ([], ad) | Some r \<Rightarrow> process_reasoning_content uuid r ev ad)
              (\<lambda>ad. case ag_content ev of None \<Rightarrow> ([], ad) | Some c \<Rightarrow> process_text_content uuid c ev ad)"

section \<open>Tool calls and pauses\<close>

definition ends_with :: "string \<Rightarrow> string \<Rightarrow> bool" where
  "ends_with s p \<longleftrightarrow> length p \<le> length s \<and> drop (length s - length p) s = p"

text \<open>\<open>str.isidentifier\<close> on ASCII.\<close>

definition is_name_start :: "char \<Rightarrow> bool" where
  "is_name_start c \<longleftrightarrow> is_lower c \<or> is_upper c \<or> c = CHR ''_''"

definition is_identifier :: "string \<Rightarrow> bool" where
  "is_identifier s \<longleftrightarrow> (case s of [] \<Rightarrow> False | c # cs \<Rightarrow> is_name_start c \<and> (\<forall>d\<in>set cs. is_name_start d \<or> is_digit d))"

definition action_of :: "(string \<Rightarrow> pvalue option) \<Rightarrow> tool_exec \<Rightarrow> pvalue option" where
  "action_of loads t =
     (let a = (case tx_args t of Some (PStruct fs) \<Rightarrow> od_get fs ''action'' | _ \<Rightarrow> None);
          b = (case a of Some (PStr s) \<Rightarrow> if starts_with s ''{'' then loads s else a | _ \<Rightarrow> a)
      in case b of Some (PStruct fs) \<Rightarrow> od_get fs ''action'' | _ \<Rightarrow> b)"

definition display_tool_name :: "(string \<Rightarrow> pvalue option) \<Rightarrow> tool_exec \<Rightarrow> string option" where
  "display_tool_name loads t =
     (case tx_name t of
        None \<Rightarrow> None
      | Some name \<Rightarrow>
          if name = '''' \<or> \<not> ends_with name ''_manager'' then Some name
          else (case action_of loads t of
              Some (PStr action) \<Rightarrow> if is_identifier action then Some (name @ ''_'' @ action) else Some name
            | _ \<Rightarrow> Some name))"

definition info_of :: "(string \<Rightarrow> pvalue option) \<Rightarrow> pvalue option \<Rightarrow> string option \<Rightarrow> tool_exec \<Rightarrow> tool_info" where
  "info_of loads args res t = \<lparr>ti_id = tx_id t, ti_name = display_tool_name loads t, ti_args = args, ti_result = res\<rparr>"

definition handle_tool_call_started :: "(string \<Rightarrow> pvalue option) \<Rightarrow> agno_event \<Rightarrow> step" where
  "handle_tool_call_started loads ev ad =
     and_then (close_reasoning (ad_run_key ad) (ag_time ev)) (and_then (close_content (ad_run_key ad) (ag_time ev)) (\<lambda>ad.
       ([ToolCallStarted (map_option (\<lambda>t. info_of loads (tx_args t) None t) (ag_tool ev))
           (subagent_of (ad_run_key ad) ad) (ag_time ev) (ad_meta ad)], ad))) ad"

definition tool_call_id :: "agno_event \<Rightarrow> string option" where
  "tool_call_id ev = Option.bind (ag_tool ev) tx_id"

definition note_closed :: "string option \<Rightarrow> adapter \<Rightarrow> adapter" where
  "note_closed i ad = (if truthy i then ad\<lparr>ad_closed := insert (or_str i '''') (ad_closed ad)\<rparr> else ad)"

definition handle_tool_call_completed :: "(string \<Rightarrow> pvalue option) \<Rightarrow> agno_event \<Rightarrow> step" where
  "handle_tool_call_completed loads ev ad =
     ([ToolCallCompleted (map_option (\<lambda>t. info_of loads (tx_args t) (tx_result t) t) (ag_tool ev)) (or_none (ag_content ev))
         (subagent_of (ad_run_key ad) ad) (ag_time ev) (ad_meta ad)], note_closed (tool_call_id ev) ad)"

definition handle_tool_call_error :: "(string \<Rightarrow> pvalue option) \<Rightarrow> agno_event \<Rightarrow> step" where
  "handle_tool_call_error loads ev ad =
     (if truthy (tool_call_id ev) \<and> or_str (tool_call_id ev) '''' \<in> ad_closed ad then ([], ad)
      else ([ToolCallError (map_option (info_of loads None None) (ag_tool ev)) (or_none (ag_content ev))
               (subagent_of (ad_run_key ad) ad) (ag_time ev) (ad_meta ad)], note_closed (tool_call_id ev) ad))"

text \<open>A pause on external tools: their calls are sent on, each identifier once.\<close>

fun pause_tools :: "(string \<Rightarrow> pvalue option) \<Rightarrow> real option \<Rightarrow> string set \<Rightarrow> tool_exec list \<Rightarrow> step" where
  "pause_tools loads t seen [] ad = ([], ad)"
| "pause_tools loads t seen (x # xs) ad =
     (if \<not> tx_external x \<or> \<not> truthy (tx_id x) \<or> or_str (tx_id x) '''' \<in> seen then pause_tools loads t seen xs ad
      else and_then (\<lambda>ad.
             ([ToolCallStarted (Some (info_of loads (tx_args x) None x)) None t None,
               ToolCallCompleted (Some (info_of loads (tx_args x) None x)) None None t None], note_closed (tx_id x) ad))
           (pause_tools loads t (insert (or_str (tx_id x) '''') seen) xs) ad)"

definition handle_run_paused :: "(string \<Rightarrow> pvalue option) \<Rightarrow> agno_event \<Rightarrow> step" where
  "handle_run_paused loads ev =
     and_then (close_all_reasoning (ag_time ev)) (and_then (close_all_content (ag_time ev)) (\<lambda>ad.
       pause_tools loads (ag_time ev) {} (ag_tools ev)
         (ad\<lparr>ad_paused := True, ad_paused_tools := ag_tools ev, ad_paused_reqs := ag_requirements ev\<rparr>)))"

section \<open>Dispatch\<close>

definition handler :: "(nat \<Rightarrow> string) \<Rightarrow> (string \<Rightarrow> pvalue option) \<Rightarrow> agno_event \<Rightarrow> step option" where
  "handler uuid loads ev = (case ag_kind ev of
      KRunStarted \<Rightarrow> Some (handle_run_started ev)
    | KRunContent \<Rightarrow> Some (handle_run_content uuid ev)
    | KRunCompleted \<Rightarrow> Some (handle_run_completed ev)
    | KRunError \<Rightarrow> Some (handle_run_error ev)
    | KRunPaused \<Rightarrow> Some (handle_run_paused loads ev)
    | KReasoningStarted \<Rightarrow> Some (handle_reasoning_started uuid ev)
    | KReasoningContentDelta \<Rightarrow> Some (handle_reasoning_content_delta ev)
    | KReasoningStep \<Rightarrow> Some (handle_reasoning_step uuid ev)
    | KReasoningCompleted \<Rightarrow> Some (handle_reasoning_completed ev)
    | KToolCallStarted \<Rightarrow> Some (handle_tool_call_started loads ev)
    | KToolCallCompleted \<Rightarrow> Some (handle_tool_call_completed loads ev)
    | KToolCallError \<Rightarrow> Some (handle_tool_call_error loads ev)
    | KUnhandled _ \<Rightarrow> None)"

definition to_digitalkin_events :: "(nat \<Rightarrow> string) \<Rightarrow> (string \<Rightarrow> pvalue option) \<Rightarrow> agno_event \<Rightarrow> step" where
  "to_digitalkin_events uuid loads ev ad = (case handler uuid loads ev of
      None \<Rightarrow> ([], ad)
    | Some h \<Rightarrow> h (ad\<lparr>ad_meta := Some (build_metadata ev), ad_run_key := run_key_of ev ad\<rparr>))"

definition ad_flush :: step where
  "ad_flush = close_everything None"

definition convert_all :: "(nat \<Rightarrow> string) \<Rightarrow> (string \<Rightarrow> pvalue option) \<Rightarrow> agno_event list \<Rightarrow> step" where
  "convert_all uuid loads evs = and_then (each (to_digitalkin_events uuid loads) evs) ad_flush"

end
