(* ===== verification/Agno_Stream.thy ===== *)
theory Agno_Stream
  imports Agno_Adapter
begin

text \<open>
  The grammar of the events a run sends, written as the sheet a client keeps of what is open, and the
  proof that the adapter of \<open>Agno_Adapter\<close> keeps to it: the adapter's tables and the sheet are related
  (\<open>tracks\<close>), and every handler preserves the relation.
\<close>

section \<open>The grammar of a run\<close>

text \<open>
  What a client holds open while it reads the events: text messages, reasoning phases and delegations;
  \<open>sh_used\<close> are the identifiers it has met. An identifier opens one sequence; content and closing
  need an open one; events of a delegation need it in flight; and a run ends with nothing open.
\<close>

record sheet =
  sh_text :: "string set"
  sh_reason :: "string set"
  sh_subs :: "string set"
  sh_used :: "string set"

definition blank_sheet :: sheet where
  "blank_sheet = \<lparr>sh_text = {}, sh_reason = {}, sh_subs = {}, sh_used = {}\<rparr>"

definition idle_sheet :: "sheet \<Rightarrow> bool" where
  "idle_sheet g \<longleftrightarrow> sh_text g = {} \<and> sh_reason g = {} \<and> sh_subs g = {}"

definition sub_ok :: "string option \<Rightarrow> sheet \<Rightarrow> bool" where
  "sub_ok s g \<longleftrightarrow> (case s of None \<Rightarrow> True | Some k \<Rightarrow> k \<in> sh_subs g)"

fun read_event :: "run_event \<Rightarrow> sheet \<Rightarrow> sheet option" where
  "read_event (RunStarted r th t m) g = Some g"
| "read_event (RunCompleted r c t m) g = when_ok (idle_sheet g) g"
| "read_event (RunError e c t m) g = when_ok (idle_sheet g) g"
| "read_event (SubagentStarted r n p t m) g = when_ok (r \<notin> sh_subs g \<and> sub_ok p (g\<lparr>sh_subs := insert r (sh_subs g)\<rparr>)) (g\<lparr>sh_subs := insert r (sh_subs g)\<rparr>)"
| "read_event (SubagentFinished r c t m) g = when_ok (r \<in> sh_subs g) (g\<lparr>sh_subs := sh_subs g - {r}\<rparr>)"
| "read_event (SubagentError r e c t m) g = when_ok (r \<in> sh_subs g) (g\<lparr>sh_subs := sh_subs g - {r}\<rparr>)"
| "read_event (TextStarted i n s t m) g = when_ok (i \<notin> sh_used g \<and> sub_ok s g) (g\<lparr>sh_text := insert i (sh_text g), sh_used := insert i (sh_used g)\<rparr>)"
| "read_event (TextContent c i s t m) g = when_ok (i \<in> sh_text g \<and> sub_ok s g) g"
| "read_event (TextCompleted i s t m) g = when_ok (i \<in> sh_text g \<and> sub_ok s g) (g\<lparr>sh_text := sh_text g - {i}\<rparr>)"
| "read_event (ReasoningStarted i s t m) g = when_ok (i \<notin> sh_used g \<and> sub_ok s g) (g\<lparr>sh_reason := insert i (sh_reason g), sh_used := insert i (sh_used g)\<rparr>)"
| "read_event (ReasoningDelta c i s t m) g = when_ok (i \<in> Some ` sh_reason g \<and> sub_ok s g) g"
| "read_event (ReasoningStep c i s t m) g = when_ok (i \<in> sh_reason g \<and> sub_ok s g) g"
| "read_event (ReasoningCompleted i s t m) g = when_ok (i \<in> sh_reason g \<and> sub_ok s g) (g\<lparr>sh_reason := sh_reason g - {i}\<rparr>)"
| "read_event (ToolCallStarted x s t m) g = when_ok (sub_ok s g) g"
| "read_event (ToolCallCompleted x c s t m) g = when_ok (sub_ok s g) g"
| "read_event (ToolCallError x c s t m) g = when_ok (sub_ok s g) g"

section \<open>The adapter's tables and the client's sheet\<close>

definition ids :: "open_seqs \<Rightarrow> string set" where
  "ids d = (\<lambda>p. fst (snd p)) ` set d"

definition seqs_ok :: "open_seqs \<Rightarrow> bool" where
  "seqs_ok d \<longleftrightarrow> od_wf d \<and> distinct (map (\<lambda>p. fst (snd p)) d)"

lemma seqs_ok_empty [simp]: "seqs_ok []"
  by (simp add: seqs_ok_def)

lemma ids_empty [simp]: "ids [] = {}"
  by (simp add: ids_def)

lemma ids_get: "seqs_ok d \<Longrightarrow> od_get d k = Some (i, m) \<Longrightarrow> i \<in> ids d"
  by (force simp: ids_def seqs_ok_def od_get_Some_iff)

lemma ids_new: "od_get d k = None \<Longrightarrow> ids (od_set k (i, m) d) = insert i (ids d)"
  by (auto simp: ids_def od_set_new)

lemma seqs_ok_new: "seqs_ok d \<Longrightarrow> od_get d k = None \<Longrightarrow> i \<notin> ids d \<Longrightarrow> seqs_ok (od_set k (i, m) d)"
  by (auto simp: seqs_ok_def ids_def od_set_new od_wf_def od_get_None_iff)

lemma seqs_ok_del: "seqs_ok d \<Longrightarrow> seqs_ok (od_del k d)"
  by (auto simp: seqs_ok_def od_del_filter intro: od_wf_filter distinct_map_filter)

lemma ids_del: "seqs_ok d \<Longrightarrow> od_get d k = Some (i, m) \<Longrightarrow> ids (od_del k d) = ids d - {i}"
proof (induction d)
  case Nil
  then show ?case by simp
next
  case (Cons p d)
  obtain a j n where p: "p = (a, j, n)" by (cases p)
  have d: "seqs_ok d" and a: "od_get d a = None" and j: "j \<notin> ids d"
    using Cons.prems(1) by (auto simp: seqs_ok_def od_wf_def p ids_def od_get_None_iff)
  show ?case
  proof (cases "k = a")
    case True
    with Cons.prems(2) have "i = j" by (simp add: p od_get_Cons)
    moreover have "od_del k (p # d) = od_del k d" by (simp add: od_del_filter p True)
    ultimately show ?thesis using j a True by (auto simp: ids_def p)
  next
    case False
    with Cons.prems(2) have g: "od_get d k = Some (i, m)" by (simp add: p od_get_Cons)
    with ids_get [OF d g] j False Cons.IH [OF d g] show ?thesis by (auto simp: od_del_filter p ids_def)
  qed
qed

lemma ids_set_old: "seqs_ok d \<Longrightarrow> od_get d k = Some (i, m) \<Longrightarrow> ids (od_set k (j, n) d) = insert j (ids d - {i})"
proof -
  assume d: "seqs_ok d" "od_get d k = Some (i, m)"
  have "set (od_set k (j, n) d) = insert (k, j, n) (set (od_del k d))"
  proof (rule set_eqI)
    fix p :: "string \<times> string \<times> event_meta option"
    obtain a q where p: "p = (a, q)" by (rule prod.exhaust)
    have w: "od_wf (od_set k (j, n) d)" "od_wf (od_del k d)" using d(1) by (simp_all add: seqs_ok_def)
    from od_get_Some_iff [OF w(1), of a q] od_get_Some_iff [OF w(2), of a q]
    show "p \<in> set (od_set k (j, n) d) \<longleftrightarrow> p \<in> insert (k, j, n) (set (od_del k d))" by (auto simp: p split: if_splits)
  qed
  then show ?thesis using ids_del [OF d] by (simp add: ids_def)
qed

text \<open>What the client holds open is what the adapter's tables hold.\<close>

definition tracks :: "(nat \<Rightarrow> string) \<Rightarrow> adapter \<Rightarrow> sheet \<Rightarrow> bool" where
  "tracks uuid ad g \<longleftrightarrow> seqs_ok (ad_messages ad) \<and> seqs_ok (ad_reasonings ad) \<and> od_wf (ad_subagents ad)
     \<and> sh_text g = ids (ad_messages ad) \<and> sh_reason g = ids (ad_reasonings ad) \<and> sh_subs g = fst ` set (ad_subagents ad)
     \<and> sh_used g = uuid ` {..<ad_uuids ad} \<and> sh_text g \<subseteq> sh_used g \<and> sh_reason g \<subseteq> sh_used g"

lemma tracks_init: "tracks uuid ad_init blank_sheet"
  by (simp add: tracks_def ad_init_def blank_sheet_def)

lemma tracks_update [simp]:
  "tracks uuid (ad\<lparr>ad_paused := b, ad_paused_tools := ts, ad_paused_reqs := rs\<rparr>) g = tracks uuid ad g"
  "tracks uuid (ad\<lparr>ad_meta := m, ad_run_key := k\<rparr>) g = tracks uuid ad g"
  by (simp_all add: tracks_def)

lemma lacks: "\<not> od_has d k \<Longrightarrow> od_get d k = None"
  by (simp add: od_has_def del: not_None_eq)

lemma sub_ok_of: "tracks uuid ad g \<Longrightarrow> sub_ok (subagent_of k ad) g"
  by (auto simp: sub_ok_def subagent_of_def tracks_def od_has_def od_get_None_iff)

lemma fresh_id: "inj uuid \<Longrightarrow> tracks uuid ad g \<Longrightarrow> uuid (ad_uuids ad) \<notin> sh_used g"
  by (auto simp: tracks_def dest: injD)

section \<open>Every handler keeps to the grammar\<close>

lemma close_content_frame [simp]:
  "ad_subagents (snd (close_content k t ad)) = ad_subagents ad" "ad_reasonings (snd (close_content k t ad)) = ad_reasonings ad"
  "ad_run_key (snd (close_content k t ad)) = ad_run_key ad" "ad_uuids (snd (close_content k t ad)) = ad_uuids ad"
  "ad_meta (snd (close_content k t ad)) = ad_meta ad"
  "ad_messages (snd (close_content k t ad)) = od_del k (ad_messages ad)"
  by (simp_all add: close_content_def split: option.splits prod.splits)

lemma close_reasoning_frame [simp]:
  "ad_subagents (snd (close_reasoning k t ad)) = ad_subagents ad" "ad_messages (snd (close_reasoning k t ad)) = ad_messages ad"
  "ad_run_key (snd (close_reasoning k t ad)) = ad_run_key ad" "ad_uuids (snd (close_reasoning k t ad)) = ad_uuids ad"
  "ad_meta (snd (close_reasoning k t ad)) = ad_meta ad"
  "ad_reasonings (snd (close_reasoning k t ad)) = od_del k (ad_reasonings ad)"
  by (simp_all add: close_reasoning_def split: option.splits prod.splits)

lemma close_content_tracks: "yields read_event (tracks uuid) (close_content k t) (tracks uuid)"
proof (rule yieldsI)
  fix ad g assume r: "tracks uuid ad g"
  show "\<exists>g'. accepts read_event (fst (close_content k t ad)) g = Some g' \<and> tracks uuid (snd (close_content k t ad)) g'"
  proof (cases "od_get (ad_messages ad) k")
    case None
    with r show ?thesis by (simp add: close_content_def)
  next
    case (Some p)
    obtain i m where p: "p = (i, m)" by (cases p)
    have ok: "seqs_ok (ad_messages ad)" using r by (simp add: tracks_def)
    from ids_get [OF ok] ids_del [OF ok] seqs_ok_del [OF ok, of k] Some p r sub_ok_of [OF r, of k] show ?thesis
      by (auto simp: close_content_def tracks_def)
  qed
qed

lemma close_reasoning_tracks: "yields read_event (tracks uuid) (close_reasoning k t) (tracks uuid)"
proof (rule yieldsI)
  fix ad g assume r: "tracks uuid ad g"
  show "\<exists>g'. accepts read_event (fst (close_reasoning k t ad)) g = Some g' \<and> tracks uuid (snd (close_reasoning k t ad)) g'"
  proof (cases "od_get (ad_reasonings ad) k")
    case None
    with r show ?thesis by (simp add: close_reasoning_def)
  next
    case (Some p)
    obtain i m where p: "p = (i, m)" by (cases p)
    have ok: "seqs_ok (ad_reasonings ad)" using r by (simp add: tracks_def)
    from ids_get [OF ok] ids_del [OF ok] seqs_ok_del [OF ok, of k] Some p r sub_ok_of [OF r, of k] show ?thesis
      by (auto simp: close_reasoning_def tracks_def)
  qed
qed

lemma close_all_content_empty: "ad_messages (snd (close_all_content t ad)) = []"
proof -
  have "od_get (ad_messages (snd (each (\<lambda>k. close_content k t) ks ad))) k = (if k \<in> set ks then None else od_get (ad_messages ad) k)" for ks k
    by (induction ks arbitrary: ad) auto
  then show ?thesis by (intro od_emptyI) (auto simp: close_all_content_def od_get_None_iff)
qed

lemma close_all_reasoning_empty: "ad_reasonings (snd (close_all_reasoning t ad)) = []"
proof -
  have "od_get (ad_reasonings (snd (each (\<lambda>k. close_reasoning k t) ks ad))) k = (if k \<in> set ks then None else od_get (ad_reasonings ad) k)" for ks k
    by (induction ks arbitrary: ad) auto
  then show ?thesis by (intro od_emptyI) (auto simp: close_all_reasoning_def od_get_None_iff)
qed

lemma close_all_frame [simp]:
  "ad_reasonings (snd (close_all_content t ad)) = ad_reasonings ad" "ad_messages (snd (close_all_reasoning t ad)) = ad_messages ad"
  "ad_run_key (snd (close_all_content t ad)) = ad_run_key ad" "ad_run_key (snd (close_all_reasoning t ad)) = ad_run_key ad"
  by (simp_all add: close_all_content_def close_all_reasoning_def each_frame)

lemma close_all_content_tracks: "yields read_event (tracks uuid) (close_all_content t) (tracks uuid)"
proof -
  have "yields read_event (tracks uuid) (each (\<lambda>k. close_content k t) ks) (tracks uuid)" for ks
    by (rule yields_each) (rule close_content_tracks)
  then show ?thesis by (simp add: yields_def close_all_content_def)
qed

lemma close_all_reasoning_tracks: "yields read_event (tracks uuid) (close_all_reasoning t) (tracks uuid)"
proof -
  have "yields read_event (tracks uuid) (each (\<lambda>k. close_reasoning k t) ks) (tracks uuid)" for ks
    by (rule yields_each) (rule close_reasoning_tracks)
  then show ?thesis by (simp add: yields_def close_all_reasoning_def)
qed

lemma finish_all_accepted:
  "od_wf d \<Longrightarrow> fst ` set d \<subseteq> sh_subs g \<Longrightarrow>
    accepts read_event (map (\<lambda>(rid, (_, m)). SubagentFinished rid None t m) d) g = Some (g\<lparr>sh_subs := sh_subs g - fst ` set d\<rparr>)"
proof (induction d arbitrary: g)
  case Nil
  show ?case by simp
next
  case (Cons p d)
  obtain r n m where p: "p = (r, n, m)" by (cases p)
  let ?g = "g\<lparr>sh_subs := sh_subs g - {r}\<rparr>"
  from Cons.prems have "od_wf d" "fst ` set d \<subseteq> sh_subs ?g" by (auto simp: p od_wf_def)
  note ih = Cons.IH [OF this]
  have "sh_subs g - {r} - fst ` set d = sh_subs g - insert r (fst ` set d)" by auto
  with ih Cons.prems(2) show ?case by (simp add: p)
qed

lemma close_subagents_tracks: "yields read_event (tracks uuid) (close_subagents t) (\<lambda>ad g. tracks uuid ad g \<and> ad_subagents ad = [])"
proof (rule yieldsI)
  fix ad g assume r: "tracks uuid ad g"
  then have "od_wf (rev (ad_subagents ad))" "fst ` set (rev (ad_subagents ad)) \<subseteq> sh_subs g"
    by (auto simp: tracks_def od_wf_def rev_map [symmetric])
  from finish_all_accepted [OF this, of t] r
  show "\<exists>g'. accepts read_event (fst (close_subagents t ad)) g = Some g' \<and> tracks uuid (snd (close_subagents t ad)) g' \<and> ad_subagents (snd (close_subagents t ad)) = []"
    by (auto simp: close_subagents_def tracks_def)
qed

lemma close_everything_tracks: "yields read_event (tracks uuid) (close_everything t) (\<lambda>ad g. tracks uuid ad g \<and> idle_sheet g)"
proof -
  have c: "yields read_event (tracks uuid) (close_all_content t) (\<lambda>ad g. tracks uuid ad g \<and> ad_messages ad = [])"
    using close_all_content_tracks [of uuid t] by (simp add: yields_def close_all_content_empty)
  have r: "yields read_event (\<lambda>ad g. tracks uuid ad g \<and> ad_messages ad = []) (close_all_reasoning t)
      (\<lambda>ad g. tracks uuid ad g \<and> ad_messages ad = [] \<and> ad_reasonings ad = [])"
    using close_all_reasoning_tracks [of uuid t] by (simp add: yields_def close_all_reasoning_empty)
  have s: "yields read_event (\<lambda>ad g. tracks uuid ad g \<and> ad_messages ad = [] \<and> ad_reasonings ad = []) (close_subagents t)
      (\<lambda>ad g. tracks uuid ad g \<and> idle_sheet g)"
  proof (rule yieldsI)
    fix ad g assume "tracks uuid ad g \<and> ad_messages ad = [] \<and> ad_reasonings ad = []"
    then have p: "tracks uuid ad g" "ad_messages ad = []" "ad_reasonings ad = []" by simp_all
    from yieldsD [OF close_subagents_tracks p(1), of t]
    obtain g' where g': "accepts read_event (fst (close_subagents t ad)) g = Some g'" "tracks uuid (snd (close_subagents t ad)) g'"
        "ad_subagents (snd (close_subagents t ad)) = []" by blast
    then have "idle_sheet g'" using p(2,3) by (simp add: tracks_def idle_sheet_def close_subagents_def)
    with g'(1,2) show "\<exists>g'. accepts read_event (fst (close_subagents t ad)) g = Some g' \<and> tracks uuid (snd (close_subagents t ad)) g' \<and> idle_sheet g'"
      by blast
  qed
  show ?thesis unfolding close_everything_def by (rule yields_and_then [OF c yields_and_then [OF r s]])
qed

lemma open_reasoning_tracks:
  assumes "inj uuid"
  shows "yields read_event (\<lambda>ad g. tracks uuid ad g \<and> \<not> od_has (ad_reasonings ad) (ad_run_key ad)) (open_reasoning uuid m ev)
    (\<lambda>ad g. tracks uuid ad g \<and> od_has (ad_reasonings ad) (ad_run_key ad))"
proof (rule yieldsI)
  fix ad g assume "tracks uuid ad g \<and> \<not> od_has (ad_reasonings ad) (ad_run_key ad)"
  then have r: "tracks uuid ad g" and n: "od_get (ad_reasonings ad) (ad_run_key ad) = None" by (simp_all add: lacks)
  have f: "uuid (ad_uuids ad) \<notin> sh_used g" by (rule fresh_id [OF assms r])
  then have "uuid (ad_uuids ad) \<notin> ids (ad_reasonings ad)" using r by (auto simp: tracks_def)
  with f r n sub_ok_of [OF r] show "\<exists>g'. accepts read_event (fst (open_reasoning uuid m ev ad)) g = Some g'
      \<and> tracks uuid (snd (open_reasoning uuid m ev ad)) g'
      \<and> od_has (ad_reasonings (snd (open_reasoning uuid m ev ad))) (ad_run_key (snd (open_reasoning uuid m ev ad)))"
    by (auto simp: open_reasoning_def Let_def tracks_def seqs_ok_new ids_new lessThan_Suc od_has_def)
qed

lemma ensure_reasoning_tracks:
  assumes "inj uuid"
  shows "yields read_event (tracks uuid) (ensure_reasoning uuid m ev) (\<lambda>ad g. tracks uuid ad g \<and> od_has (ad_reasonings ad) (ad_run_key ad))"
  using open_reasoning_tracks [OF assms, of m ev] by (simp add: yields_def ensure_reasoning_def)

lemma ensure_message_tracks:
  assumes "inj uuid"
  shows "yields read_event (tracks uuid) (ensure_message uuid ev) (\<lambda>ad g. tracks uuid ad g \<and> od_has (ad_messages ad) (ad_run_key ad))"
proof (rule yieldsI)
  fix ad g assume r: "tracks uuid ad g"
  show "\<exists>g'. accepts read_event (fst (ensure_message uuid ev ad)) g = Some g' \<and> tracks uuid (snd (ensure_message uuid ev ad)) g'
      \<and> od_has (ad_messages (snd (ensure_message uuid ev ad))) (ad_run_key (snd (ensure_message uuid ev ad)))"
  proof (cases "od_has (ad_messages ad) (ad_run_key ad)")
    case True
    with r show ?thesis by (simp add: ensure_message_def)
  next
    case False
    then have n: "od_get (ad_messages ad) (ad_run_key ad) = None" by (rule lacks)
    have f: "uuid (ad_uuids ad) \<notin> sh_used g" by (rule fresh_id [OF assms r])
    then have "uuid (ad_uuids ad) \<notin> ids (ad_messages ad)" using r by (auto simp: tracks_def)
    with f r n False sub_ok_of [OF r] show ?thesis
      by (auto simp: ensure_message_def Let_def tracks_def seqs_ok_new ids_new lessThan_Suc od_has_def)
  qed
qed

lemma open_id_in: "seqs_ok d \<Longrightarrow> od_has d k \<Longrightarrow> open_id d k \<in> ids d"
  by (auto simp: od_has_def open_id_def dest: ids_get split: option.split)

lemma run_started_tracks:
  "yields read_event (\<lambda>ad g. tracks uuid ad g \<and> (truthy (ag_parent ev) \<and> truthy (ag_run_id ev) \<longrightarrow> \<not> od_has (ad_subagents ad) (or_str (ag_run_id ev) '''')))
     (handle_run_started ev) (tracks uuid)"
proof (cases "truthy (ag_parent ev) \<and> truthy (ag_run_id ev)")
  case False
  then show ?thesis
    by (intro yieldsI) (auto simp: handle_run_started_def tracks_def)
next
  case True
  let ?rid = "or_str (ag_run_id ev) ''''"
  let ?F = "\<lambda>ad. \<not> od_has (ad_subagents ad) ?rid"
  have h: "handle_run_started ev = and_then (close_content (or_str (ag_parent ev) '''') (ag_time ev)) (and_then (close_reasoning (or_str (ag_parent ev) '''') (ag_time ev)) (start_subagent ev))"
    using True by (intro ext) (simp add: handle_run_started_def Let_def)
  have c: "yields read_event (\<lambda>ad g. tracks uuid ad g \<and> ?F ad) (close_content k t) (\<lambda>ad g. tracks uuid ad g \<and> ?F ad)" for k t
    by (rule yields_frame [OF close_content_tracks]) simp
  have r: "yields read_event (\<lambda>ad g. tracks uuid ad g \<and> ?F ad) (close_reasoning k t) (\<lambda>ad g. tracks uuid ad g \<and> ?F ad)" for k t
    by (rule yields_frame [OF close_reasoning_tracks]) simp
  have l: "yields read_event (\<lambda>ad g. tracks uuid ad g \<and> ?F ad) (start_subagent ev) (tracks uuid)"
  proof (rule yieldsI)
    fix ad g assume "tracks uuid ad g \<and> ?F ad"
    then have t: "tracks uuid ad g" and f: "od_get (ad_subagents ad) ?rid = None" by (simp_all add: lacks)
    from f have "?rid \<notin> sh_subs g" using t by (auto simp: tracks_def od_get_None_iff)
    moreover have "fst ` set (od_set ?rid v (ad_subagents ad)) = insert ?rid (sh_subs g)" for v
      using t f by (simp add: tracks_def od_set_new)
    moreover have "od_wf (od_set ?rid v (ad_subagents ad))" for v using t by (simp add: tracks_def)
    ultimately show "\<exists>g'. accepts read_event (fst (start_subagent ev ad)) g = Some g' \<and> tracks uuid (snd (start_subagent ev ad)) g'"
      using t by (auto simp: start_subagent_def Let_def sub_ok_def od_has_def od_get_None_iff tracks_def)
  qed
  from yields_and_then [OF c yields_and_then [OF r l]] show ?thesis unfolding h by (rule yields_weaken) (use True in auto)
qed

lemma drop_run_subagent:
  assumes "od_get (ad_subagents ad) rid = Some p" and "tracks uuid ad g"
  shows "rid \<in> sh_subs g \<and> tracks uuid (ad\<lparr>ad_subagents := od_del rid (ad_subagents ad)\<rparr>) (g\<lparr>sh_subs := sh_subs g - {rid}\<rparr>)"
  using assms od_get_None_iff [of "ad_subagents ad" rid] by (auto simp: tracks_def od_keys_del)

lemma finish_subagent_tracks: "yields read_event (tracks uuid) (finish_subagent ev) (tracks uuid)"
proof (rule yieldsI)
  fix ad g assume "tracks uuid ad g"
  with drop_run_subagent [of ad "or_str (ag_run_id ev) ''''" _ uuid g]
  show "\<exists>g'. accepts read_event (fst (finish_subagent ev ad)) g = Some g' \<and> tracks uuid (snd (finish_subagent ev ad)) g'"
    by (auto simp: finish_subagent_def Let_def split: option.split)
qed

lemma fail_subagent_tracks: "yields read_event (tracks uuid) (fail_subagent ev) (tracks uuid)"
proof (rule yieldsI)
  fix ad g assume "tracks uuid ad g"
  with drop_run_subagent [of ad "or_str (ag_run_id ev) ''''" _ uuid g]
  show "\<exists>g'. accepts read_event (fst (fail_subagent ev ad)) g = Some g' \<and> tracks uuid (snd (fail_subagent ev ad)) g'"
    by (auto simp: fail_subagent_def Let_def split: option.split)
qed

text \<open>A handler that chooses its steps by the state: it is enough to know them for each state.\<close>

lemma yields_pointwise: "(\<And>s. \<exists>f'. f s = f' s \<and> yields acc P f' Q) \<Longrightarrow> yields acc P f Q"
  unfolding yields_def by metis

lemma run_completed_tracks: "yields read_event (tracks uuid) (handle_run_completed ev) (tracks uuid)"
proof (rule yields_pointwise)
  fix ad
  have l: "yields read_event (\<lambda>ad g. tracks uuid ad g \<and> idle_sheet g) (finish_run ev) (tracks uuid)"
    by (rule yieldsI) (auto simp: tracks_def finish_run_def)
  have n: "yields read_event (tracks uuid) (\<lambda>ad. ([], ad)) (tracks uuid)" by (rule yields_same) simp
  show "\<exists>f'. handle_run_completed ev ad = f' ad \<and> yields read_event (tracks uuid) f' (tracks uuid)"
  proof (cases "truthy (ag_parent ev)")
    case True
    with yields_and_then [OF close_content_tracks yields_and_then [OF close_reasoning_tracks finish_subagent_tracks]]
    show ?thesis by (auto simp: handle_run_completed_def)
  next
    case False
    with n yields_and_then [OF close_everything_tracks l, of "ag_time ev"] show ?thesis
      by (auto simp: handle_run_completed_def)
  qed
qed

lemma run_error_tracks: "yields read_event (tracks uuid) (handle_run_error ev) (tracks uuid)"
proof (rule yields_pointwise)
  fix ad
  have l: "yields read_event (\<lambda>ad g. tracks uuid ad g \<and> idle_sheet g) (\<lambda>ad.
        ([RunError (ag_error_type ev) (or_none (ag_content ev)) (ag_time ev) (ad_meta ad)], ad)) (tracks uuid)"
    by (rule yieldsI) auto
  show "\<exists>f'. handle_run_error ev ad = f' ad \<and> yields read_event (tracks uuid) f' (tracks uuid)"
  proof (cases "truthy (ag_run_id ev) \<and> od_has (ad_subagents ad) (or_str (ag_run_id ev) '''')")
    case True
    with yields_and_then [OF close_content_tracks yields_and_then [OF close_reasoning_tracks fail_subagent_tracks]]
    show ?thesis by (auto simp: handle_run_error_def Let_def)
  next
    case False
    with yields_and_then [OF close_everything_tracks l, of "ag_time ev"] show ?thesis
      by (auto simp: handle_run_error_def)
  qed
qed

lemma reasoning_started_tracks:
  assumes "inj uuid"
  shows "yields read_event (\<lambda>ad g. tracks uuid ad g \<and> \<not> od_has (ad_reasonings ad) (ad_run_key ad)) (handle_reasoning_started uuid ev) (tracks uuid)"
proof (rule yields_pointwise)
  fix ad :: adapter
  let ?F = "\<lambda>ad. \<not> od_has (ad_reasonings ad) (ad_run_key ad)"
  have c: "yields read_event (\<lambda>ad g. tracks uuid ad g \<and> ?F ad) (close_content k t) (\<lambda>ad g. tracks uuid ad g \<and> ?F ad)" for k t
    by (rule yields_frame [OF close_content_tracks]) simp
  have o: "yields read_event (\<lambda>ad g. tracks uuid ad g \<and> ?F ad) (open_reasoning uuid m ev) (tracks uuid)" for m
    by (rule yields_weaken [OF open_reasoning_tracks [OF assms]]) auto
  from yields_and_then [OF c o] show "\<exists>f'. handle_reasoning_started uuid ev ad = f' ad
      \<and> yields read_event (\<lambda>ad g. tracks uuid ad g \<and> ?F ad) f' (tracks uuid)"
    unfolding handle_reasoning_started_def by blast
qed

lemma reasoning_delta_tracks:
  "yields read_event (\<lambda>ad g. tracks uuid ad g \<and> od_has (ad_reasonings ad) (ad_run_key ad)) (handle_reasoning_content_delta ev) (tracks uuid)"
proof (rule yieldsI)
  fix ad g assume "tracks uuid ad g \<and> od_has (ad_reasonings ad) (ad_run_key ad)"
  then obtain i m where t: "tracks uuid ad g" and g: "od_get (ad_reasonings ad) (ad_run_key ad) = Some (i, m)" by (auto simp: od_has_def)
  then have "i \<in> sh_reason g" by (auto simp: tracks_def dest: ids_get)
  with t g sub_ok_of [OF t] show "\<exists>g'. accepts read_event (fst (handle_reasoning_content_delta ev ad)) g = Some g'
      \<and> tracks uuid (snd (handle_reasoning_content_delta ev ad)) g'"
    by (simp add: handle_reasoning_content_delta_def)
qed

lemma emit_delta_tracks:
  "yields read_event (\<lambda>ad g. tracks uuid ad g \<and> od_has (ad_reasonings ad) (ad_run_key ad)) (\<lambda>ad.
     ([ReasoningDelta c (Some (open_id (ad_reasonings ad) (ad_run_key ad))) (subagent_of (ad_run_key ad) ad) t (ad_meta ad)], ad)) (tracks uuid)"
  using sub_ok_of open_id_in by (intro yieldsI) (fastforce simp: tracks_def)

lemma emit_step_tracks:
  "yields read_event (\<lambda>ad g. tracks uuid ad g \<and> od_has (ad_reasonings ad) (ad_run_key ad)) (\<lambda>ad.
     ([ReasoningStep c (open_id (ad_reasonings ad) (ad_run_key ad)) (subagent_of (ad_run_key ad) ad) t (ad_meta ad)], ad)) (tracks uuid)"
  using sub_ok_of open_id_in by (intro yieldsI) (fastforce simp: tracks_def)

lemma emit_text_tracks:
  "yields read_event (\<lambda>ad g. tracks uuid ad g \<and> od_has (ad_messages ad) (ad_run_key ad)) (\<lambda>ad.
     ([TextContent c (open_id (ad_messages ad) (ad_run_key ad)) (subagent_of (ad_run_key ad) ad) t (ad_meta ad)], ad)) (tracks uuid)"
  using sub_ok_of open_id_in by (intro yieldsI) (fastforce simp: tracks_def)

lemma none_tracks: "yields read_event (tracks uuid) (\<lambda>ad. ([], ad)) (tracks uuid)"
  by (rule yields_same) simp

lemma reasoning_step_tracks:
  assumes "inj uuid"
  shows "yields read_event (tracks uuid) (handle_reasoning_step uuid ev) (tracks uuid)"
proof (rule yields_pointwise)
  fix ad
  from none_tracks yields_and_then [OF close_content_tracks yields_and_then [OF ensure_reasoning_tracks [OF assms] emit_step_tracks]]
  show "\<exists>f'. handle_reasoning_step uuid ev ad = f' ad \<and> yields read_event (tracks uuid) f' (tracks uuid)"
    by (auto simp: handle_reasoning_step_def)
qed

lemma reasoning_content_tracks:
  assumes "inj uuid"
  shows "yields read_event (tracks uuid) (process_reasoning_content uuid c ev) (tracks uuid)"
proof (rule yields_pointwise)
  fix ad
  from close_reasoning_tracks yields_and_then [OF close_content_tracks yields_and_then [OF ensure_reasoning_tracks [OF assms] emit_delta_tracks]]
  show "\<exists>f'. process_reasoning_content uuid c ev ad = f' ad \<and> yields read_event (tracks uuid) f' (tracks uuid)"
    by (auto simp: process_reasoning_content_def)
qed

lemma text_content_tracks:
  assumes "inj uuid"
  shows "yields read_event (tracks uuid) (process_text_content uuid c ev) (tracks uuid)"
proof (rule yields_pointwise)
  fix ad
  from close_content_tracks yields_and_then [OF close_reasoning_tracks yields_and_then [OF ensure_message_tracks [OF assms] emit_text_tracks]]
  show "\<exists>f'. process_text_content uuid c ev ad = f' ad \<and> yields read_event (tracks uuid) f' (tracks uuid)"
    by (auto simp: process_text_content_def)
qed

lemma run_content_tracks:
  assumes "inj uuid"
  shows "yields read_event (tracks uuid) (handle_run_content uuid ev) (tracks uuid)"
  unfolding handle_run_content_def
  by (rule yields_and_then [where Q = "tracks uuid"])
    (cases "ag_reasoning ev"; cases "ag_content ev"; simp add: none_tracks reasoning_content_tracks text_content_tracks assms)+

lemma tool_event_tracks:
  "(\<And>s m g. sub_ok s g \<Longrightarrow> read_event (e s m) g = Some g) \<Longrightarrow>
    yields read_event (tracks uuid) (\<lambda>ad. ([e (subagent_of (ad_run_key ad) ad) (ad_meta ad)], note_closed i ad)) (tracks uuid)"
  using sub_ok_of by (intro yieldsI) (fastforce simp: tracks_def note_closed_def)

lemma tool_started_tracks: "yields read_event (tracks uuid) (handle_tool_call_started loads ev) (tracks uuid)"
proof (rule yields_pointwise)
  fix ad
  have e: "yields read_event (tracks uuid) (\<lambda>ad. ([ToolCallStarted x (subagent_of (ad_run_key ad) ad) t (ad_meta ad)], ad)) (tracks uuid)" for x t
    using tool_event_tracks [of "\<lambda>s. ToolCallStarted x s t" uuid None] by (simp add: note_closed_def truthy_def)
  from yields_and_then [OF close_reasoning_tracks yields_and_then [OF close_content_tracks e]]
  show "\<exists>f'. handle_tool_call_started loads ev ad = f' ad \<and> yields read_event (tracks uuid) f' (tracks uuid)"
    unfolding handle_tool_call_started_def by blast
qed

lemma tool_completed_tracks: "yields read_event (tracks uuid) (handle_tool_call_completed loads ev) (tracks uuid)"
  unfolding handle_tool_call_completed_def by (rule tool_event_tracks) simp

lemma tool_error_tracks: "yields read_event (tracks uuid) (handle_tool_call_error loads ev) (tracks uuid)"
proof (rule yields_pointwise)
  fix ad
  have "yields read_event (tracks uuid) (\<lambda>ad. ([ToolCallError x c (subagent_of (ad_run_key ad) ad) t (ad_meta ad)], note_closed i ad)) (tracks uuid)" for x c t i
    by (rule tool_event_tracks) simp
  with none_tracks show "\<exists>f'. handle_tool_call_error loads ev ad = f' ad \<and> yields read_event (tracks uuid) f' (tracks uuid)"
    by (auto simp: handle_tool_call_error_def)
qed

lemma pause_tools_tracks: "yields read_event (tracks uuid) (pause_tools loads t seen xs) (tracks uuid)"
proof (induction xs arbitrary: seen)
  case Nil
  show ?case by (rule yields_same) simp
next
  case (Cons x xs)
  have e: "yields read_event (tracks uuid) (\<lambda>ad. ([ToolCallStarted (Some a) None t None, ToolCallCompleted (Some a) None None t None], note_closed i ad)) (tracks uuid)" for a i
    by (rule yieldsI) (auto simp: sub_ok_def tracks_def note_closed_def)
  show ?case
  proof (rule yields_pointwise)
    fix ad
    from Cons.IH [of seen] yields_and_then [OF e Cons.IH]
    show "\<exists>f'. pause_tools loads t seen (x # xs) ad = f' ad \<and> yields read_event (tracks uuid) f' (tracks uuid)"
      by auto
  qed
qed

lemma run_paused_tracks: "yields read_event (tracks uuid) (handle_run_paused loads ev) (tracks uuid)"
proof -
  have "yields read_event (tracks uuid) (\<lambda>ad. pause_tools loads (ag_time ev) {} (ag_tools ev)
         (ad\<lparr>ad_paused := True, ad_paused_tools := ag_tools ev, ad_paused_reqs := ag_requirements ev\<rparr>)) (tracks uuid)"
    using pause_tools_tracks [of uuid loads "ag_time ev" "{}" "ag_tools ev"] by (simp add: yields_def)
  then show ?thesis unfolding handle_run_paused_def
    by (rule yields_and_then [OF close_all_reasoning_tracks yields_and_then [OF close_all_content_tracks]])
qed

section \<open>The stream of a run\<close>

text \<open>
  What the framework's events have to respect: a delegation starts once, the model's own reasoning
  phase does not start inside an open one, and its deltas come inside one.
\<close>

definition orderly :: "agno_event \<Rightarrow> adapter \<Rightarrow> bool" where
  "orderly ev ad \<longleftrightarrow> (case ag_kind ev of
      KRunStarted \<Rightarrow> truthy (ag_parent ev) \<and> truthy (ag_run_id ev) \<longrightarrow> \<not> od_has (ad_subagents ad) (or_str (ag_run_id ev) '''')
    | KReasoningStarted \<Rightarrow> \<not> od_has (ad_reasonings ad) (run_key_of ev ad)
    | KReasoningContentDelta \<Rightarrow> od_has (ad_reasonings ad) (run_key_of ev ad)
    | _ \<Rightarrow> True)"

lemma convert_tracks:
  assumes u: "inj uuid"
  shows "yields read_event (\<lambda>ad g. tracks uuid ad g \<and> orderly ev ad) (to_digitalkin_events uuid loads ev) (tracks uuid)"
proof (rule yieldsI)
  fix ad g assume h: "tracks uuid ad g \<and> orderly ev ad"
  let ?ad = "ad\<lparr>ad_meta := Some (build_metadata ev), ad_run_key := run_key_of ev ad\<rparr>"
  have t: "tracks uuid ?ad g" using h by simp
  note all = run_completed_tracks run_error_tracks run_paused_tracks reasoning_step_tracks [OF u] run_content_tracks [OF u]
    close_reasoning_tracks tool_started_tracks tool_completed_tracks tool_error_tracks
  have rc: "yields read_event (tracks uuid) (handle_reasoning_completed ev) (tracks uuid)"
    using close_reasoning_tracks by (simp add: yields_def handle_reasoning_completed_def)
  show "\<exists>g'. accepts read_event (fst (to_digitalkin_events uuid loads ev ad)) g = Some g' \<and> tracks uuid (snd (to_digitalkin_events uuid loads ev ad)) g'"
  proof (cases "ag_kind ev")
    case KRunStarted
    with h t yieldsD [OF run_started_tracks, of uuid ?ad g ev] show ?thesis
      by (auto simp: to_digitalkin_events_def handler_def orderly_def)
  next
    case KReasoningStarted
    with h t yieldsD [OF reasoning_started_tracks [OF u], of ?ad g ev] show ?thesis
      by (auto simp: to_digitalkin_events_def handler_def orderly_def)
  next
    case KReasoningContentDelta
    with h t yieldsD [OF reasoning_delta_tracks, of uuid ?ad g ev] show ?thesis
      by (auto simp: to_digitalkin_events_def handler_def orderly_def)
  qed (use h yieldsD [OF all(1) t] yieldsD [OF all(2) t] yieldsD [OF all(3) t] yieldsD [OF all(4) t] yieldsD [OF all(5) t]
      yieldsD [OF rc t] yieldsD [OF all(7) t] yieldsD [OF all(8) t] yieldsD [OF all(9) t]
      in \<open>simp_all add: to_digitalkin_events_def handler_def\<close>)
qed

interpretation ads: event_source "to_digitalkin_events uuid loads" orderly read_event "\<lambda>ad g. inj uuid \<and> tracks uuid ad g" for uuid loads
proof (unfold_locales, goal_cases)
  case (1 ev)
  show ?case
  proof (cases "inj uuid")
    case True
    with convert_tracks [OF True, of ev loads] show ?thesis by (simp add: yields_def)
  qed (simp add: yields_def)
qed

lemma run_stream_tracks:
  assumes "inj uuid" and "along orderly (to_digitalkin_events uuid loads) evs ad_init"
  shows "\<exists>g. accepts read_event (fst (convert_all uuid loads evs ad_init)) blank_sheet = Some g \<and> idle_sheet g
    \<and> sh_used g \<subseteq> range uuid"
proof -
  have f: "yields read_event (\<lambda>ad g. inj uuid \<and> tracks uuid ad g) ad_flush (\<lambda>ad g. tracks uuid ad g \<and> idle_sheet g)"
    unfolding ad_flush_def by (rule yields_weaken [OF close_everything_tracks]) auto
  have i: "inj uuid \<and> tracks uuid ad_init blank_sheet" using assms(1) tracks_init by simp
  from ads.run_then [where uuid = uuid and loads = loads, OF i assms(2) f]
  obtain g where g: "accepts read_event (fst (convert_all uuid loads evs ad_init)) blank_sheet = Some g"
      "tracks uuid (snd (convert_all uuid loads evs ad_init)) g" "idle_sheet g" by (auto simp: convert_all_def)
  from g(2) have "sh_used g \<subseteq> range uuid" by (auto simp: tracks_def)
  with g(1,3) show ?thesis by blast
qed


text \<open>A team leader delegates to two members that stream at once; one of them fails.\<close>

definition demo_event :: "agno_kind \<Rightarrow> string \<Rightarrow> string option \<Rightarrow> string option \<Rightarrow> string option \<Rightarrow> agno_event" where
  "demo_event k run par c r = \<lparr>ag_kind = k, ag_team = (par = None), ag_run_id = Some run, ag_parent = par, ag_name = Some run, ag_id = None,
     ag_session = Some ''s'', ag_time = None, ag_content = c, ag_reasoning = r, ag_error_type = None, ag_tool = None, ag_tools = [], ag_requirements = []\<rparr>"

definition demo_uuid :: "nat \<Rightarrow> string" where
  "demo_uuid n = replicate n (CHR ''u'')"

definition no_json :: "string \<Rightarrow> pvalue option" where
  "no_json s = None"

definition team_demo :: "agno_event list" where
  "team_demo =
    [demo_event KRunStarted ''t'' None None None, demo_event KRunContent ''t'' None (Some ''plan'') (Some ''hm''),
     demo_event KRunStarted ''a'' (Some ''t'') None None, demo_event KRunStarted ''b'' (Some ''t'') None None,
     demo_event KRunContent ''a'' (Some ''t'') (Some ''one'') None, demo_event KRunContent ''b'' (Some ''t'') (Some ''two'') None,
     demo_event KRunContent ''a'' (Some ''t'') (Some ''more'') None, demo_event KRunError ''b'' (Some ''t'') None None,
     demo_event KRunCompleted ''a'' (Some ''t'') None None, demo_event KReasoningStarted ''t'' None None None,
     demo_event KReasoningContentDelta ''t'' None None (Some ''so''), demo_event KRunCompleted ''t'' None (Some ''plan'') None]"

lemma demo_uuid_inj: "inj demo_uuid"
proof (rule injI)
  fix m n assume "demo_uuid m = demo_uuid n"
  then have "length (demo_uuid m) = length (demo_uuid n)" by simp
  then show "m = n" by (simp add: demo_uuid_def)
qed


text \<open>
  A reasoning phase the model starts while one is open is never closed: the adapter overwrites the
  open phase, so its identifier gets no end and the client, which holds it open, must refuse the
  end of the run.
\<close>

theorem reasoning_restart_leaves_phase_open:
  assumes "tracks uuid ad g" and "inj uuid" and "ag_kind ev = KReasoningStarted"
    and "od_get (ad_reasonings ad) (run_key_of ev ad) = Some (i, m)"
    and "to_digitalkin_events uuid loads ev ad = (es, ad')" and "accepts read_event es g = Some g'"
  shows "i \<in> sh_reason g' \<and> i \<notin> ids (ad_reasonings ad')
    \<and> read_event (RunCompleted r c t mt) g' = None"
proof -
  let ?k = "run_key_of ev ad"
  let ?ad = "ad\<lparr>ad_meta := Some (build_metadata ev), ad_run_key := ?k\<rparr>"
  have t: "tracks uuid ?ad g" using assms(1) by simp
  obtain g1 where c: "accepts read_event (fst (close_content ?k (ag_time ev) ?ad)) g = Some g1"
    and t1: "tracks uuid (snd (close_content ?k (ag_time ev) ?ad)) g1"
    using yieldsD [OF close_content_tracks t] by blast
  let ?ad1 = "snd (close_content ?k (ag_time ev) ?ad)"
  have ok: "seqs_ok (ad_reasonings ad)" and i: "i \<in> ids (ad_reasonings ad)"
    using assms(1,4) by (auto simp: tracks_def intro: ids_get)
  have "es = fst (close_content ?k (ag_time ev) ?ad) @ fst (open_reasoning uuid (ad_meta ?ad) ev ?ad1)"
    and ad': "ad' = snd (open_reasoning uuid (ad_meta ?ad) ev ?ad1)"
    using assms(3,5) by (auto simp: to_digitalkin_events_def handler_def handle_reasoning_started_def and_then_def split: prod.splits)
  then have "accepts read_event (fst (open_reasoning uuid (ad_meta ?ad) ev ?ad1)) g1 = Some g'"
    using assms(6) c by (simp add: accepts_append)
  then have "sh_reason g' = insert (uuid (ad_uuids ad)) (sh_reason g1)" by (auto simp: open_reasoning_def Let_def split: option.splits)
  moreover have "sh_reason g1 = ids (ad_reasonings ad)" using t1 by (simp add: tracks_def)
  ultimately have r: "i \<in> sh_reason g'" using i by simp
  have fresh: "uuid (ad_uuids ad) \<notin> ids (ad_reasonings ad)" using fresh_id [OF assms(2,1)] assms(1) by (auto simp: tracks_def)
  have "i \<notin> ids (od_set ?k (uuid (ad_uuids ad), mt) (ad_reasonings ad))" for mt
    using ids_set_old [OF ok assms(4)] fresh i by auto
  with r show ?thesis by (auto simp: ad' open_reasoning_def Let_def idle_sheet_def)
qed

definition thinking_demo :: adapter where
  "thinking_demo = snd (each (to_digitalkin_events demo_uuid no_json)
     [demo_event KRunStarted ''t'' None None None, demo_event KRunContent ''t'' None None (Some ''hm'')] ad_init)"

theorem reasoning_restart_leaves_phase_open_witness:
  "\<exists>g g'. tracks demo_uuid thinking_demo g
    \<and> accepts read_event (fst (to_digitalkin_events demo_uuid no_json (demo_event KReasoningStarted ''t'' None None None) thinking_demo)) g = Some g'
    \<and> read_event (RunCompleted None None None None) g' = None"
proof -
  let ?g = "\<lparr>sh_text = {}, sh_reason = {''''}, sh_subs = {}, sh_used = {''''}\<rparr>"
  let ?ev = "demo_event KReasoningStarted ''t'' None None None"
  let ?s = "to_digitalkin_events demo_uuid no_json ?ev thinking_demo"
  have k: "run_key_of ?ev thinking_demo = ''t''" by code_simp
  have r: "ad_reasonings thinking_demo = [(''t'', '''', Some (build_metadata (demo_event KRunContent ''t'' None None (Some ''hm''))))]" by code_simp
  have f: "ad_messages thinking_demo = [] \<and> ad_subagents thinking_demo = [] \<and> ad_uuids thinking_demo = 1" by code_simp
  have t: "tracks demo_uuid thinking_demo ?g" using f r by (simp add: tracks_def seqs_ok_def ids_def od_wf_def demo_uuid_def lessThan_Suc)
  have g: "od_get (ad_reasonings thinking_demo) (run_key_of ?ev thinking_demo)
      = Some ('''', Some (build_metadata (demo_event KRunContent ''t'' None None (Some ''hm''))))"
    by (simp add: k r od_get_Cons)
  have a: "accepts read_event (fst ?s) ?g = Some \<lparr>sh_text = {}, sh_reason = {''u'', ''''}, sh_subs = {}, sh_used = {''u'', ''''}\<rparr>"
    by code_simp
  have kd: "ag_kind ?ev = KReasoningStarted" by (simp add: demo_event_def)
  have sp: "?s = (fst ?s, snd ?s)" by simp
  from reasoning_restart_leaves_phase_open [OF t demo_uuid_inj kd g sp a, of None None None None] t a show ?thesis by blast
qed

end
