(* ===== verification/Agui_Mixin.thy ===== *)
theory Agui_Mixin
  imports Agno_Stream
begin

text \<open>
  The AG-UI events on the wire: \<open>mixins/agui_mixin.py\<close> turns each event of \<open>Agno_Adapter\<close> into AG-UI
  events. \<open>uuid4 n\<close> is the \<open>n\<close>-th identifier the mixin draws and \<open>dumps\<close> is \<open>json.dumps\<close>; events of
  type \<open>CUSTOM\<close>, which the adapter never makes, are left out.
\<close>

section \<open>Events on the wire\<close>

text \<open>The author fields: \<open>subagent_run_id\<close> and the metadata, each if there is any.\<close>

type_synonym author = "string option \<times> event_meta option"

datatype agui_event =
    WRunStarted string string author
  | WRunFinished string string author
  | WRunError string "string option" author
  | WSubagentStarted string string "string option" "event_meta option"
  | WSubagentFinished string "string option" "event_meta option"
  | WSubagentError string string "string option" "event_meta option"
  | WTextStart string "string option" author
  | WTextContent string string author
  | WTextEnd string author
  | WReasoningStart string author
  | WReasoningMessageStart string author
  | WReasoningMessageContent string string author
  | WReasoningMessageEnd string author
  | WReasoningEnd string author
  | WToolStart string string author
  | WToolArgs string string author
  | WToolEnd string author
  | WToolResult string string string author

record agui_mixin =
  mx_thread :: string
  mx_run :: string
  mx_uuids :: nat

definition mx_init :: agui_mixin where
  "mx_init = \<lparr>mx_thread = '''', mx_run = '''', mx_uuids = 0\<rparr>"

definition authored :: "string option \<Rightarrow> event_meta option \<Rightarrow> author" where
  "authored s m = (or_none s, m)"

section \<open>Conversion\<close>

text \<open>\<open>s or str(uuid.uuid4())\<close>\<close>

definition or_uuid :: "(nat \<Rightarrow> string) \<Rightarrow> string option \<Rightarrow> agui_mixin \<Rightarrow> string \<times> agui_mixin" where
  "or_uuid uuid4 s mx = (if truthy s then (or_str s '''', mx) else (uuid4 (mx_uuids mx), mx\<lparr>mx_uuids := Suc (mx_uuids mx)\<rparr>))"

definition mx_run_started :: "(nat \<Rightarrow> string) \<Rightarrow> string option \<Rightarrow> string option \<Rightarrow> event_meta option \<Rightarrow> agui_mixin \<Rightarrow> agui_event list \<times> agui_mixin" where
  "mx_run_started uuid4 run thread m mx =
     (let mx1 = (if mx_run mx \<noteq> '''' then mx else case or_uuid uuid4 run mx of (r, mx') \<Rightarrow> mx'\<lparr>mx_run := r\<rparr>);
          mx2 = (if mx_thread mx1 \<noteq> '''' then mx1 else case or_uuid uuid4 thread mx1 of (t, mx') \<Rightarrow> mx'\<lparr>mx_thread := t\<rparr>)
      in ([WRunStarted (mx_thread mx2) (mx_run mx2) (authored None m)], mx2))"

definition mx_run_completed :: "(nat \<Rightarrow> string) \<Rightarrow> string option \<Rightarrow> event_meta option \<Rightarrow> agui_mixin \<Rightarrow> agui_event list \<times> agui_mixin" where
  "mx_run_completed uuid4 run m mx =
     (case (if mx_run mx \<noteq> '''' then (mx_run mx, mx) else or_uuid uuid4 run mx) of
        (r, mx') \<Rightarrow> ([WRunFinished (mx_thread mx) r (authored None m)], mx'))"

definition args_text :: "(pvalue \<Rightarrow> string) \<Rightarrow> pvalue option \<Rightarrow> string option" where
  "args_text dumps a = (case a of
      Some (PStruct fs) \<Rightarrow> if fs = [] then None else Some (dumps (PStruct fs))
    | Some (PStr s) \<Rightarrow> if s = '''' then None else Some s
    | _ \<Rightarrow> None)"

definition mx_tool_started ::
    "(nat \<Rightarrow> string) \<Rightarrow> (pvalue \<Rightarrow> string) \<Rightarrow> tool_info option \<Rightarrow> author \<Rightarrow> agui_mixin \<Rightarrow> agui_event list \<times> agui_mixin" where
  "mx_tool_started uuid4 dumps tool a mx = (case tool of
      None \<Rightarrow> ([], mx)
    | Some ti \<Rightarrow>
        if \<not> truthy (ti_name ti) then ([], mx)
        else (case or_uuid uuid4 (ti_id ti) mx of (i, mx') \<Rightarrow>
          (WToolStart i (or_str (ti_name ti) '''') a
             # (case args_text dumps (ti_args ti) of None \<Rightarrow> [] | Some s \<Rightarrow> [WToolArgs i s a]), mx')))"

definition mx_tool_completed :: "(nat \<Rightarrow> string) \<Rightarrow> tool_info option \<Rightarrow> string option \<Rightarrow> author \<Rightarrow> agui_mixin \<Rightarrow> agui_event list \<times> agui_mixin" where
  "mx_tool_completed uuid4 tool content a mx = (case tool of
      None \<Rightarrow> ([], mx)
    | Some ti \<Rightarrow> (case or_uuid uuid4 (ti_id ti) mx of (i, mx') \<Rightarrow>
        let r = or_str (ti_result ti) (or_str content '''')
        in if r = '''' then ([WToolEnd i a], mx')
           else ([WToolEnd i a, WToolResult (uuid4 (mx_uuids mx')) i r a], mx'\<lparr>mx_uuids := Suc (mx_uuids mx')\<rparr>)))"

definition mx_tool_error :: "(nat \<Rightarrow> string) \<Rightarrow> tool_info option \<Rightarrow> author \<Rightarrow> agui_mixin \<Rightarrow> agui_event list \<times> agui_mixin" where
  "mx_tool_error uuid4 tool a mx = (case tool of
      None \<Rightarrow> ([], mx)
    | Some ti \<Rightarrow> (case or_uuid uuid4 (ti_id ti) mx of (i, mx') \<Rightarrow> ([WToolEnd i a], mx')))"

definition mx_reasoning_started :: "(nat \<Rightarrow> string) \<Rightarrow> string \<Rightarrow> author \<Rightarrow> agui_mixin \<Rightarrow> agui_event list \<times> agui_mixin" where
  "mx_reasoning_started uuid4 rid a mx = (case or_uuid uuid4 (Some rid) mx of
      (i, mx') \<Rightarrow> ([WReasoningStart i a, WReasoningMessageStart i a], mx'))"

fun send_message :: "(nat \<Rightarrow> string) \<Rightarrow> (pvalue \<Rightarrow> string) \<Rightarrow> run_event \<Rightarrow> agui_mixin \<Rightarrow> agui_event list \<times> agui_mixin" where
  "send_message uuid4 dumps (RunStarted r th t m) mx = mx_run_started uuid4 r th m mx"
| "send_message uuid4 dumps (RunCompleted r c t m) mx = mx_run_completed uuid4 r m mx"
| "send_message uuid4 dumps (RunError e c t m) mx = ([WRunError (or_str c ''Agent run failed'') e (authored None m)], mx)"
| "send_message uuid4 dumps (SubagentStarted r n p t m) mx = ([WSubagentStarted r n p m], mx)"
| "send_message uuid4 dumps (SubagentFinished r c t m) mx = ([WSubagentFinished r c m], mx)"
| "send_message uuid4 dumps (SubagentError r e c t m) mx = ([WSubagentError r e c m], mx)"
| "send_message uuid4 dumps (TextStarted i n s t m) mx = ([WTextStart i n (authored s m)], mx)"
| "send_message uuid4 dumps (TextContent c i s t m) mx = (if c = '''' then [] else [WTextContent i c (authored s m)], mx)"
| "send_message uuid4 dumps (TextCompleted i s t m) mx = ([WTextEnd i (authored s m)], mx)"
| "send_message uuid4 dumps (ReasoningStarted i s t m) mx = mx_reasoning_started uuid4 i (authored s m) mx"
| "send_message uuid4 dumps (ReasoningDelta c i s t m) mx =
     (if c = '''' then [] else [WReasoningMessageContent (or_str i '''') c (authored s m)], mx)"
| "send_message uuid4 dumps (ReasoningStep c i s t m) mx = (if c = '''' then [] else [WReasoningMessageContent i c (authored s m)], mx)"
| "send_message uuid4 dumps (ReasoningCompleted i s t m) mx =
     ([WReasoningMessageEnd i (authored s m), WReasoningEnd i (authored s m)], mx)"
| "send_message uuid4 dumps (ToolCallStarted x s t m) mx = mx_tool_started uuid4 dumps x (authored s m) mx"
| "send_message uuid4 dumps (ToolCallCompleted x c s t m) mx = mx_tool_completed uuid4 x c (authored s m) mx"
| "send_message uuid4 dumps (ToolCallError x c s t m) mx = mx_tool_error uuid4 x (authored s m) mx"

section \<open>The grammar on the wire\<close>

text \<open>
  As on the sheet of \<open>Agno_Stream\<close>; a reasoning phase has one message inside, opened after the phase
  and closed before it.
\<close>

record wire_sheet =
  ws_text :: "string set"
  ws_phase :: "string set"
  ws_reason :: "string set"
  ws_subs :: "string set"
  ws_used :: "string set"

definition wire_blank :: wire_sheet where
  "wire_blank = \<lparr>ws_text = {}, ws_phase = {}, ws_reason = {}, ws_subs = {}, ws_used = {}\<rparr>"

definition wire_idle :: "wire_sheet \<Rightarrow> bool" where
  "wire_idle w \<longleftrightarrow> ws_text w = {} \<and> ws_phase w = {} \<and> ws_reason w = {} \<and> ws_subs w = {}"

definition author_ok :: "author \<Rightarrow> wire_sheet \<Rightarrow> bool" where
  "author_ok a w \<longleftrightarrow> (case fst a of None \<Rightarrow> True | Some k \<Rightarrow> k \<in> ws_subs w)"

fun read_wire :: "agui_event \<Rightarrow> wire_sheet \<Rightarrow> wire_sheet option" where
  "read_wire (WRunStarted th r a) w = Some w"
| "read_wire (WRunFinished th r a) w = when_ok (wire_idle w) w"
| "read_wire (WRunError e c a) w = when_ok (wire_idle w) w"
| "read_wire (WSubagentStarted r n p m) w =
     when_ok (r \<notin> ws_subs w \<and> (case p of None \<Rightarrow> True | Some q \<Rightarrow> q \<in> insert r (ws_subs w))) (w\<lparr>ws_subs := insert r (ws_subs w)\<rparr>)"
| "read_wire (WSubagentFinished r c m) w = when_ok (r \<in> ws_subs w) (w\<lparr>ws_subs := ws_subs w - {r}\<rparr>)"
| "read_wire (WSubagentError r e c m) w = when_ok (r \<in> ws_subs w) (w\<lparr>ws_subs := ws_subs w - {r}\<rparr>)"
| "read_wire (WTextStart i n a) w = when_ok (i \<notin> ws_used w \<and> author_ok a w) (w\<lparr>ws_text := insert i (ws_text w), ws_used := insert i (ws_used w)\<rparr>)"
| "read_wire (WTextContent i c a) w = when_ok (i \<in> ws_text w \<and> c \<noteq> '''' \<and> author_ok a w) w"
| "read_wire (WTextEnd i a) w = when_ok (i \<in> ws_text w \<and> author_ok a w) (w\<lparr>ws_text := ws_text w - {i}\<rparr>)"
| "read_wire (WReasoningStart i a) w = when_ok (i \<notin> ws_used w \<and> author_ok a w) (w\<lparr>ws_phase := insert i (ws_phase w), ws_used := insert i (ws_used w)\<rparr>)"
| "read_wire (WReasoningMessageStart i a) w = when_ok (i \<in> ws_phase w \<and> i \<notin> ws_reason w \<and> author_ok a w) (w\<lparr>ws_reason := insert i (ws_reason w)\<rparr>)"
| "read_wire (WReasoningMessageContent i c a) w = when_ok (i \<in> ws_reason w \<and> c \<noteq> '''' \<and> author_ok a w) w"
| "read_wire (WReasoningMessageEnd i a) w = when_ok (i \<in> ws_reason w \<and> author_ok a w) (w\<lparr>ws_reason := ws_reason w - {i}\<rparr>)"
| "read_wire (WReasoningEnd i a) w = when_ok (i \<in> ws_phase w \<and> i \<notin> ws_reason w \<and> author_ok a w) (w\<lparr>ws_phase := ws_phase w - {i}\<rparr>)"
| "read_wire (WToolStart i n a) w = when_ok (author_ok a w) w"
| "read_wire (WToolArgs i c a) w = when_ok (author_ok a w) w"
| "read_wire (WToolEnd i a) w = when_ok (author_ok a w) w"
| "read_wire (WToolResult j i c a) w = when_ok (author_ok a w) w"

section \<open>From the adapter to the wire\<close>

text \<open>The mixin next to the sheet of the events it has been given; the wire shows the same things open.\<close>

definition mx_step :: "(nat \<Rightarrow> string) \<Rightarrow> (pvalue \<Rightarrow> string) \<Rightarrow> run_event \<Rightarrow> agui_mixin \<times> sheet \<Rightarrow> agui_event list \<times> agui_mixin \<times> sheet" where
  "mx_step uuid4 dumps e s = (case s of (mx, g) \<Rightarrow>
     (fst (send_message uuid4 dumps e mx), snd (send_message uuid4 dumps e mx), (case read_event e g of None \<Rightarrow> g | Some g' \<Rightarrow> g')))"

definition readable :: "run_event \<Rightarrow> agui_mixin \<times> sheet \<Rightarrow> bool" where
  "readable e s \<longleftrightarrow> read_event e (snd s) \<noteq> None \<and> (case e of ReasoningStarted i _ _ _ \<Rightarrow> i \<noteq> '''' | _ \<Rightarrow> True)"

definition mirrors :: "agui_mixin \<times> sheet \<Rightarrow> wire_sheet \<Rightarrow> bool" where
  "mirrors s w \<longleftrightarrow> ws_text w = sh_text (snd s) \<and> ws_phase w = sh_reason (snd s) \<and> ws_reason w = sh_reason (snd s)
     \<and> ws_subs w = sh_subs (snd s) \<and> ws_used w = sh_used (snd s) \<and> sh_reason (snd s) \<subseteq> sh_used (snd s) \<and> '''' \<notin> sh_reason (snd s)"

lemma authored_ok: "mirrors s w \<Longrightarrow> sub_ok sb (snd s) \<Longrightarrow> author_ok (authored sb m) w"
  by (auto simp: mirrors_def sub_ok_def author_ok_def authored_def or_none_def truthy_def split: option.splits)

lemma author_ok_update [simp]:
  "author_ok a (w\<lparr>ws_phase := p, ws_used := u\<rparr>) = author_ok a w"
  "author_ok a (w\<lparr>ws_reason := r\<rparr>) = author_ok a w"
  by (simp_all add: author_ok_def split: option.split)

lemma quiet_ok:
  assumes "mirrors s w" and "\<forall>e\<in>set es. read_wire e w = Some w"
  shows "\<exists>w'. accepts read_wire es w = Some w' \<and> mirrors (mx, snd s) w'"
proof -
  have "accepts read_wire es w = Some w" using assms(2) by (induction es) auto
  with assms(1) show ?thesis by (auto simp: mirrors_def)
qed

lemma tool_events_quiet:
  assumes "author_ok a w"
  shows "\<forall>e\<in>set (fst (mx_tool_started uuid4 dumps x a mx)). read_wire e w = Some w"
    and "\<forall>e\<in>set (fst (mx_tool_completed uuid4 x c a mx)). read_wire e w = Some w"
    and "\<forall>e\<in>set (fst (mx_tool_error uuid4 x a mx)). read_wire e w = Some w"
  using assms by (auto simp: mx_tool_started_def mx_tool_completed_def mx_tool_error_def Let_def split: option.splits prod.splits)

lemma message_mirrors:
  assumes m: "mirrors s w" and r: "readable e s"
  shows "\<exists>w'. accepts read_wire (fst (mx_step uuid4 dumps e s)) w = Some w' \<and> mirrors (snd (mx_step uuid4 dumps e s)) w'"
proof -
  obtain mx g where s: "s = (mx, g)" by (cases s)
  from r obtain g' where g': "read_event e g = Some g'" by (auto simp: readable_def s)
  note step = mx_step_def s g'
  note same = m [unfolded mirrors_def s snd_conv]
  show ?thesis
  proof (cases e)
    case (RunStarted r th t mt)
    with g' m show ?thesis by (simp add: step mx_run_started_def Let_def mirrors_def)
  next
    case (RunCompleted r c t mt)
    with g' same show ?thesis
      by (auto simp: step mx_run_completed_def mirrors_def wire_idle_def idle_sheet_def split: prod.split)
  next
    case (RunError x c t mt)
    with g' same show ?thesis by (auto simp: step mirrors_def wire_idle_def idle_sheet_def)
  next
    case (SubagentStarted r n p t mt)
    with g' same show ?thesis by (auto simp: step mirrors_def sub_ok_def split: option.split)
  next
    case (SubagentFinished r c t mt)
    with g' same show ?thesis by (auto simp: step mirrors_def)
  next
    case (SubagentError r x c t mt)
    with g' same show ?thesis by (auto simp: step mirrors_def)
  next
    case (TextStarted i n sb t mt)
    with g' have "sub_ok sb (snd s)" by (simp add: s)
    from authored_ok [OF m this, of mt] TextStarted g' same show ?thesis by (auto simp: step mirrors_def)
  next
    case (TextContent c i sb t mt)
    with g' have "sub_ok sb (snd s)" by (simp add: s)
    from authored_ok [OF m this, of mt] TextContent g' same show ?thesis by (auto simp: step mirrors_def)
  next
    case (TextCompleted i sb t mt)
    with g' have "sub_ok sb (snd s)" by (simp add: s)
    from authored_ok [OF m this, of mt] TextCompleted g' same show ?thesis by (auto simp: step mirrors_def)
  next
    case (ReasoningStarted i sb t mt)
    with g' have b: "sub_ok sb (snd s)" by (simp add: s)
    have "i \<notin> sh_reason g" using ReasoningStarted g' same by auto
    with authored_ok [OF m b, of mt] ReasoningStarted g' same r show ?thesis
      by (auto simp: step mirrors_def mx_reasoning_started_def or_uuid_def truthy_def or_str_def readable_def)
  next
    case (ReasoningDelta c i sb t mt)
    with g' have "sub_ok sb (snd s)" by (simp add: s)
    from authored_ok [OF m this, of mt] ReasoningDelta g' same show ?thesis by (auto simp: step mirrors_def or_str_def)
  next
    case (ReasoningStep c i sb t mt)
    with g' have "sub_ok sb (snd s)" by (simp add: s)
    from authored_ok [OF m this, of mt] ReasoningStep g' same show ?thesis by (auto simp: step mirrors_def)
  next
    case (ReasoningCompleted i sb t mt)
    with g' have "sub_ok sb (snd s)" by (simp add: s)
    from authored_ok [OF m this, of mt] ReasoningCompleted g' same show ?thesis by (auto simp: step mirrors_def)
  next
    case (ToolCallStarted x sb t mt)
    with g' have b: "sub_ok sb (snd s)" and "g' = g" by (auto simp: s)
    with quiet_ok [OF m tool_events_quiet(1) [OF authored_ok [OF m b, of mt]]] ToolCallStarted show ?thesis
      by (simp add: step)
  next
    case (ToolCallCompleted x c sb t mt)
    with g' have b: "sub_ok sb (snd s)" and "g' = g" by (auto simp: s)
    with quiet_ok [OF m tool_events_quiet(2) [OF authored_ok [OF m b, of mt]]] ToolCallCompleted show ?thesis
      by (simp add: step)
  next
    case (ToolCallError x c sb t mt)
    with g' have b: "sub_ok sb (snd s)" and "g' = g" by (auto simp: s)
    with quiet_ok [OF m tool_events_quiet(3) [OF authored_ok [OF m b, of mt]]] ToolCallError show ?thesis
      by (simp add: step)
  qed
qed

interpretation mxs: event_source "mx_step uuid4 dumps" readable read_wire mirrors for uuid4 dumps
  by unfold_locales (simp add: yields_def message_mirrors)

lemma used_grows: "read_event e g = Some g' \<Longrightarrow> sh_used g \<subseteq> sh_used g' \<and> (case e of ReasoningStarted i _ _ _ \<Rightarrow> i \<in> sh_used g' | _ \<Rightarrow> True)"
  by (cases e) auto

lemma readable_stream:
  assumes "accepts read_event es g = Some g'" and "'''' \<notin> sh_used g'"
  shows "along readable (mx_step uuid4 dumps) es (mx, g) \<and> snd (snd (each (mx_step uuid4 dumps) es (mx, g))) = g'
    \<and> fst (each (mx_step uuid4 dumps) es (mx, g)) = fst (each (send_message uuid4 dumps) es mx)"
  using assms
proof (induction es arbitrary: mx g)
  case Nil
  then show ?case by simp
next
  case (Cons e es)
  then obtain g1 where g1: "read_event e g = Some g1" "accepts read_event es g1 = Some g'" by (auto split: option.splits)
  have mono: "sh_used h \<subseteq> sh_used h'" if "accepts read_event xs h = Some h'" for xs h h'
    using that by (induction xs arbitrary: h) (auto split: option.splits dest: used_grows)
  have "readable e (mx, g)"
    using g1 used_grows [OF g1(1)] mono [OF g1(2)] Cons.prems(2) by (auto simp: readable_def split: run_event.splits)
  moreover have "snd (mx_step uuid4 dumps e (mx, g)) = (snd (send_message uuid4 dumps e mx), g1)"
    and "fst (mx_step uuid4 dumps e (mx, g)) = fst (send_message uuid4 dumps e mx)"
    by (simp_all add: mx_step_def g1(1))
  ultimately show ?case using Cons.IH [OF g1(2) Cons.prems(2)] by (simp add: fst_and_then)
qed


definition wire_uuid :: "nat \<Rightarrow> string" where
  "wire_uuid n = CHR ''x'' # replicate n (CHR ''u'')"


text \<open>
  A tool call without an identifier: the start and the end are given different ones, so the front never
  sees that call finish.
\<close>

lemma nameless_call_never_ends:
  assumes "inj uuid4" and "\<not> truthy (ti_id ti)" and "truthy (ti_name ti)"
    and "send_message uuid4 dumps (ToolCallStarted (Some ti) sb t m) mx = (es, mx1)"
    and "mx_uuids mx1 \<le> mx_uuids mx2" and "send_message uuid4 dumps (ToolCallCompleted (Some ti') c sb' t' m') mx2 = (es', mx3)"
    and "\<not> truthy (ti_id ti')"
  shows "\<exists>i. WToolStart i (or_str (ti_name ti) '''') (authored sb m) \<in> set es \<and> (\<forall>a. WToolEnd i a \<notin> set es')"
proof -
  have "uuid4 (mx_uuids mx) \<noteq> uuid4 (mx_uuids mx2)"
    using assms(1,2,3,4,5) by (auto simp: mx_tool_started_def or_uuid_def dest!: injD)
  then show ?thesis
    using assms(2,3,4,6,7) by (auto simp: mx_tool_started_def mx_tool_completed_def or_uuid_def Let_def split: if_splits)
qed

end
