(* ===== verification/Agno_Speech.thy ===== *)
theory Agno_Speech
  imports Agno_Stream
begin

text \<open>
  What reaches the front: every text of every run in the message of its speaker, and the external tool
  calls of a pause.
\<close>

section \<open>Who says what\<close>

text \<open>
  The texts sent on with the run that speaks and the message they are put in, and the texts the
  framework reported with their runs.
\<close>

fun text_of :: "run_event \<Rightarrow> (string \<times> string) option" where
  "text_of (TextContent c i s t m) = Some (i, c)"
| "text_of _ = None"

fun spoken :: "(nat \<Rightarrow> string) \<Rightarrow> (string \<Rightarrow> pvalue option) \<Rightarrow> agno_event list \<Rightarrow> adapter \<Rightarrow> (string \<times> string \<times> string) list" where
  "spoken uuid loads [] ad = []"
| "spoken uuid loads (ev # evs) ad =
     map (\<lambda>(i, c). (run_key_of ev ad, i, c)) (filter_map text_of (fst (to_digitalkin_events uuid loads ev ad)))
       @ spoken uuid loads evs (snd (to_digitalkin_events uuid loads ev ad))"

fun reported :: "(nat \<Rightarrow> string) \<Rightarrow> (string \<Rightarrow> pvalue option) \<Rightarrow> agno_event list \<Rightarrow> adapter \<Rightarrow> (string \<times> string) list" where
  "reported uuid loads [] ad = []"
| "reported uuid loads (ev # evs) ad =
     (if ag_kind ev = KRunContent \<and> truthy (ag_content ev) then [(run_key_of ev ad, or_str (ag_content ev) '''')] else [])
       @ reported uuid loads evs (snd (to_digitalkin_events uuid loads ev ad))"

text \<open>Steps that send no text and at most close messages.\<close>

definition textless :: "step \<Rightarrow> bool" where
  "textless f \<longleftrightarrow> (\<forall>ad. filter_map text_of (fst (f ad)) = [] \<and> ad_uuids ad \<le> ad_uuids (snd (f ad))
     \<and> ad_run_key (snd (f ad)) = ad_run_key ad \<and> od_get (ad_messages (snd (f ad))) \<subseteq>\<^sub>m od_get (ad_messages ad))"

lemma textlessI:
  "(\<And>ad. filter_map text_of (fst (f ad)) = [] \<and> ad_uuids ad \<le> ad_uuids (snd (f ad))
     \<and> ad_run_key (snd (f ad)) = ad_run_key ad \<and> od_get (ad_messages (snd (f ad))) \<subseteq>\<^sub>m od_get (ad_messages ad)) \<Longrightarrow> textless f"
  by (simp add: textless_def)

lemma textlessD:
  "textless f \<Longrightarrow> filter_map text_of (fst (f ad)) = [] \<and> ad_uuids ad \<le> ad_uuids (snd (f ad))
     \<and> ad_run_key (snd (f ad)) = ad_run_key ad \<and> od_get (ad_messages (snd (f ad))) \<subseteq>\<^sub>m od_get (ad_messages ad)"
  by (simp add: textless_def)

lemma textless_and_then:
  assumes "textless f" and "textless g"
  shows "textless (and_then f g)"
proof (rule textlessI)
  fix ad
  from textlessD [OF assms(1), of ad] textlessD [OF assms(2), of "snd (f ad)"]
  show "filter_map text_of (fst (and_then f g ad)) = [] \<and> ad_uuids ad \<le> ad_uuids (snd (and_then f g ad))
     \<and> ad_run_key (snd (and_then f g ad)) = ad_run_key ad \<and> od_get (ad_messages (snd (and_then f g ad))) \<subseteq>\<^sub>m od_get (ad_messages ad)"
    by (auto simp: fst_and_then filter_map_append intro: map_le_trans)
qed

lemma textless_each: "(\<And>k. textless (f k)) \<Longrightarrow> textless (each f ks)"
proof (induction ks)
  case Nil
  show ?case by (simp add: textless_def)
next
  case (Cons k ks)
  have e: "each f (k # ks) = and_then (f k) (each f ks)" by (rule ext) simp
  from Cons show ?case unfolding e by (blast intro: textless_and_then)
qed

lemma textless_pointwise: "(\<And>ad. \<exists>f'. f ad = f' ad \<and> textless f') \<Longrightarrow> textless f"
  unfolding textless_def by metis

lemma no_text_finished: "filter_map text_of (map (\<lambda>(rid, (n, m)). SubagentFinished rid None t m) d) = []"
  by (induction d) auto

lemma textless_close:
  "textless (close_content k t)" "textless (close_reasoning k t)" "textless (close_subagents t)"
  by (auto intro!: textlessI simp: close_content_def close_reasoning_def close_subagents_def no_text_finished map_le_def
      split: option.splits)

lemma textless_emit:
  assumes "\<And>ad. filter_map text_of (fst (f ad)) = []" and "\<And>ad. ad_uuids ad \<le> ad_uuids (snd (f ad))"
    and "\<And>ad. ad_run_key (snd (f ad)) = ad_run_key ad" and "\<And>ad. ad_messages (snd (f ad)) = ad_messages ad"
  shows "textless f"
  by (rule textlessI) (simp add: assms)

lemma textless_none: "textless (\<lambda>ad. ([], ad))"
  by (rule textless_emit) simp_all

lemma textless_close_all: "textless (close_all_content t)" "textless (close_all_reasoning t)" "textless (close_everything t)"
proof -
  have "textless (each (\<lambda>k. close_content k t) ks)" for ks by (rule textless_each) (rule textless_close)
  then show c: "textless (close_all_content t)" by (intro textless_pointwise) (auto simp: close_all_content_def)
  have "textless (each (\<lambda>k. close_reasoning k t) ks)" for ks by (rule textless_each) (rule textless_close)
  then show r: "textless (close_all_reasoning t)" by (intro textless_pointwise) (auto simp: close_all_reasoning_def)
  show "textless (close_everything t)" unfolding close_everything_def by (intro textless_and_then c r textless_close)
qed

lemma textless_reasoning: "textless (open_reasoning uuid m ev)" "textless (ensure_reasoning uuid m ev)"
  by (rule textless_emit; simp add: open_reasoning_def Let_def)
    (rule textless_emit; simp add: ensure_reasoning_def open_reasoning_def Let_def)

lemma textless_subagent: "textless (start_subagent ev)" "textless (finish_subagent ev)" "textless (fail_subagent ev)"
proof -
  show "textless (start_subagent ev)" by (rule textless_emit) (simp_all add: start_subagent_def Let_def)
  show "textless (finish_subagent ev)" by (rule textless_emit) (auto simp: finish_subagent_def Let_def split: option.split)
  show "textless (fail_subagent ev)" by (rule textless_emit) (auto simp: fail_subagent_def Let_def split: option.split)
qed

lemmas textless_parts = textless_none textless_close textless_close_all textless_reasoning textless_subagent

lemma textless_process_reasoning: "textless (process_reasoning_content uuid c ev)"
proof -
  have e: "textless (\<lambda>ad. ([ReasoningDelta c (Some (open_id (ad_reasonings ad) (ad_run_key ad))) (subagent_of (ad_run_key ad) ad) t (ad_meta ad)], ad))" for t
    by (rule textless_emit) simp_all
  show ?thesis
    by (rule textless_pointwise)
      (use textless_parts textless_and_then [OF textless_close(1) textless_and_then [OF textless_reasoning(2) e]]
       in \<open>auto simp: process_reasoning_content_def\<close>)
qed

lemma textless_pause: "textless (pause_tools loads t seen xs)"
proof (induction xs arbitrary: seen)
  case Nil
  show ?case by (rule textless_emit) simp_all
next
  case (Cons x xs)
  have e: "textless (\<lambda>ad. ([ToolCallStarted a None t None, ToolCallCompleted b None None t None], note_closed i ad))" for a b i
    by (rule textless_emit) (simp_all add: note_closed_def)
  show ?case
    by (rule textless_pointwise) (use Cons.IH textless_and_then [OF e Cons.IH] in auto)
qed

lemma textless_handlers:
  "textless (handle_run_started ev)" "textless (handle_run_completed ev)" "textless (handle_run_error ev)" "textless (handle_run_paused loads ev)"
proof -
  have s: "textless (\<lambda>ad. ([RunStarted r th t (ad_meta ad)], ad\<lparr>ad_active := a\<rparr>))" for r th t a by (rule textless_emit) simp_all
  show "textless (handle_run_started ev)"
    by (rule textless_pointwise)
      (use s textless_none textless_and_then [OF textless_close(1) textless_and_then [OF textless_close(2) textless_subagent(1)]]
       in \<open>auto simp: handle_run_started_def Let_def\<close>)
  have c: "textless (finish_run ev)" by (rule textless_emit) (simp_all add: finish_run_def)
  show "textless (handle_run_completed ev)"
    by (rule textless_pointwise)
      (use textless_none textless_and_then [OF textless_close_all(3) c]
        textless_and_then [OF textless_close(1) textless_and_then [OF textless_close(2) textless_subagent(2)]]
       in \<open>auto simp: handle_run_completed_def\<close>)
  have e: "textless (\<lambda>ad. ([RunError r x t (ad_meta ad)], ad))" for r x t by (rule textless_emit) simp_all
  show "textless (handle_run_error ev)"
    by (rule textless_pointwise)
      (use textless_and_then [OF textless_close_all(3) e]
        textless_and_then [OF textless_close(1) textless_and_then [OF textless_close(2) textless_subagent(3)]]
       in \<open>auto simp: handle_run_error_def Let_def\<close>)
  have p: "textless (\<lambda>ad. pause_tools loads t seen xs (ad\<lparr>ad_paused := True, ad_paused_tools := ts, ad_paused_reqs := rs\<rparr>))" for t seen xs ts rs
  proof (rule textlessI)
    fix ad :: adapter
    from textlessD [OF textless_pause, of loads t seen xs "ad\<lparr>ad_paused := True, ad_paused_tools := ts, ad_paused_reqs := rs\<rparr>"]
    show "filter_map text_of (fst (pause_tools loads t seen xs (ad\<lparr>ad_paused := True, ad_paused_tools := ts, ad_paused_reqs := rs\<rparr>))) = []
      \<and> ad_uuids ad \<le> ad_uuids (snd (pause_tools loads t seen xs (ad\<lparr>ad_paused := True, ad_paused_tools := ts, ad_paused_reqs := rs\<rparr>)))
      \<and> ad_run_key (snd (pause_tools loads t seen xs (ad\<lparr>ad_paused := True, ad_paused_tools := ts, ad_paused_reqs := rs\<rparr>))) = ad_run_key ad
      \<and> od_get (ad_messages (snd (pause_tools loads t seen xs (ad\<lparr>ad_paused := True, ad_paused_tools := ts, ad_paused_reqs := rs\<rparr>))))
          \<subseteq>\<^sub>m od_get (ad_messages ad)"
      by simp
  qed
  show "textless (handle_run_paused loads ev)"
    unfolding handle_run_paused_def by (intro textless_and_then textless_close_all p)
qed

lemma textless_more_handlers:
  "textless (handle_reasoning_started uuid ev)" "textless (handle_reasoning_content_delta ev)" "textless (handle_reasoning_step uuid ev)"
  "textless (handle_reasoning_completed ev)" "textless (handle_tool_call_started loads ev)"
  "textless (handle_tool_call_completed loads ev)" "textless (handle_tool_call_error loads ev)"
proof -
  show "textless (handle_reasoning_started uuid ev)"
    by (rule textless_pointwise) (use textless_and_then [OF textless_close(1) textless_reasoning(1)] in \<open>auto simp: handle_reasoning_started_def\<close>)
  show "textless (handle_reasoning_content_delta ev)" by (rule textless_emit) (simp_all add: handle_reasoning_content_delta_def)
  have e: "textless (\<lambda>ad. ([ReasoningStep c (open_id (ad_reasonings ad) (ad_run_key ad)) (subagent_of (ad_run_key ad) ad) t (ad_meta ad)], ad))" for c t
    by (rule textless_emit) simp_all
  show "textless (handle_reasoning_step uuid ev)"
    by (rule textless_pointwise)
      (use textless_none textless_and_then [OF textless_close(1) textless_and_then [OF textless_reasoning(2) e]] in \<open>auto simp: handle_reasoning_step_def\<close>)
  show "textless (handle_reasoning_completed ev)"
    by (rule textless_pointwise) (use textless_close(2) in \<open>auto simp: handle_reasoning_completed_def\<close>)
  have t: "textless (\<lambda>ad. ([ToolCallStarted x (subagent_of (ad_run_key ad) ad) t (ad_meta ad)], ad))" for x t by (rule textless_emit) simp_all
  show "textless (handle_tool_call_started loads ev)"
    by (rule textless_pointwise)
      (use textless_and_then [OF textless_close(2) textless_and_then [OF textless_close(1) t]] in \<open>auto simp: handle_tool_call_started_def\<close>)
  show "textless (handle_tool_call_completed loads ev)"
    by (rule textless_emit) (simp_all add: handle_tool_call_completed_def note_closed_def)
  show "textless (handle_tool_call_error loads ev)"
    by (rule textless_emit) (simp_all add: handle_tool_call_error_def note_closed_def)
qed

lemma handler_textless: "ag_kind ev \<noteq> KRunContent \<Longrightarrow> handler uuid loads ev = Some h \<Longrightarrow> textless h"
  by (auto simp: handler_def textless_handlers textless_more_handlers split: agno_kind.splits)

text \<open>
  \<open>own\<close> says which run speaks in which message; it covers the open messages and only identifiers
  drawn so far.
\<close>

definition owned :: "(nat \<Rightarrow> string) \<Rightarrow> (string \<Rightarrow> string option) \<Rightarrow> adapter \<Rightarrow> bool" where
  "owned uuid own ad \<longleftrightarrow> (\<forall>k i m. od_get (ad_messages ad) k = Some (i, m) \<longrightarrow> own i = Some k) \<and> dom own \<subseteq> uuid ` {..<ad_uuids ad}"

lemma owned_textless:
  assumes "textless f" and "owned uuid own ad"
  shows "owned uuid own (snd (f ad))"
proof -
  from textlessD [OF assms(1), of ad] have "ad_uuids ad \<le> ad_uuids (snd (f ad))"
    and m: "od_get (ad_messages (snd (f ad))) \<subseteq>\<^sub>m od_get (ad_messages ad)" by simp_all
  then have "uuid ` {..<ad_uuids ad} \<subseteq> uuid ` {..<ad_uuids (snd (f ad))}" by auto
  moreover from m have "od_get (ad_messages ad) k = Some p" if "od_get (ad_messages (snd (f ad))) k = Some p" for k p
    using that by (auto simp: map_le_def dom_def)
  ultimately show ?thesis using assms(2) by (fastforce simp: owned_def)
qed

lemma speak:
  assumes "inj uuid" and "owned uuid own ad" and "c \<noteq> ''''"
  shows "\<exists>own' i. own \<subseteq>\<^sub>m own' \<and> owned uuid own' (snd (process_text_content uuid c ev ad)) \<and> own' i = Some (ad_run_key ad)
    \<and> filter_map text_of (fst (process_text_content uuid c ev ad)) = [(i, c)]"
proof -
  let ?ad = "snd (close_reasoning (ad_run_key ad) (ag_time ev) ad)"
  note q = textlessD [OF textless_close(2), of "ad_run_key ad" "ag_time ev" ad]
  have o: "owned uuid own ?ad" by (rule owned_textless [OF textless_close(2) assms(2)])
  show ?thesis
  proof (cases "od_get (ad_messages ad) (ad_run_key ad)")
    case None
    let ?i = "uuid (ad_uuids ad)"
    have n: "?i \<notin> dom own" using assms(1,2) by (auto simp: owned_def dest: injD)
    then have le: "own \<subseteq>\<^sub>m own(?i \<mapsto> ad_run_key ad)" by (auto simp: map_le_def)
    have "owned uuid (own(?i \<mapsto> ad_run_key ad)) (snd (process_text_content uuid c ev ad))"
      using None o n assms(3) by (auto simp: process_text_content_def ensure_message_def Let_def owned_def od_has_def lessThan_Suc)
    with le None q assms(3) show ?thesis
      by (intro exI [of _ "own(?i \<mapsto> ad_run_key ad)"] exI [of _ ?i])
        (auto simp: process_text_content_def ensure_message_def Let_def fst_and_then filter_map_append od_has_def open_id_def)
  next
    case (Some p)
    obtain i m where p: "p = (i, m)" by (cases p)
    have "own i = Some (ad_run_key ad)" using assms(2) Some by (simp add: owned_def p)
    with Some o q assms(3) show ?thesis
      by (intro exI [of _ own] exI [of _ i])
        (auto simp: process_text_content_def ensure_message_def Let_def fst_and_then filter_map_append od_has_def open_id_def p)
  qed
qed

lemma convert_speaks:
  assumes "inj uuid" and "owned uuid own ad"
  shows "\<exists>own'. own \<subseteq>\<^sub>m own' \<and> owned uuid own' (snd (to_digitalkin_events uuid loads ev ad))
    \<and> (\<forall>(i, c)\<in>set (filter_map text_of (fst (to_digitalkin_events uuid loads ev ad))). own' i = Some (run_key_of ev ad))
    \<and> map snd (filter_map text_of (fst (to_digitalkin_events uuid loads ev ad)))
        = (if ag_kind ev = KRunContent \<and> truthy (ag_content ev) then [or_str (ag_content ev) ''''] else [])"
proof -
  let ?ad = "ad\<lparr>ad_meta := Some (build_metadata ev), ad_run_key := run_key_of ev ad\<rparr>"
  have o: "owned uuid own ?ad" using assms(2) by (simp add: owned_def)
  show ?thesis
  proof (cases "ag_kind ev = KRunContent")
    case True
    define f where "f = (\<lambda>ad. case ag_reasoning ev of None \<Rightarrow> ([], ad) | Some r \<Rightarrow> process_reasoning_content uuid r ev ad)"
    have tl: "textless f"
      by (rule textless_pointwise) (use textless_none textless_process_reasoning in \<open>auto simp: f_def split: option.split\<close>)
    note q = textlessD [OF tl, of ?ad]
    have o1: "owned uuid own (snd (f ?ad))" by (rule owned_textless [OF tl o])
    have h: "to_digitalkin_events uuid loads ev ad = and_then f (\<lambda>ad. case ag_content ev of None \<Rightarrow> ([], ad) | Some c \<Rightarrow> process_text_content uuid c ev ad) ?ad"
      using True by (simp add: to_digitalkin_events_def handler_def handle_run_content_def f_def)
    show ?thesis
    proof (cases "truthy (ag_content ev)")
      case True
      then obtain c where c: "ag_content ev = Some c" "c \<noteq> ''''" by (auto simp: truthy_def)
      from speak [OF assms(1) o1 c(2), of ev] obtain own' i where w: "own \<subseteq>\<^sub>m own'"
          "owned uuid own' (snd (process_text_content uuid c ev (snd (f ?ad))))" "own' i = Some (ad_run_key (snd (f ?ad)))"
          "filter_map text_of (fst (process_text_content uuid c ev (snd (f ?ad)))) = [(i, c)]" by blast
      with q c True \<open>ag_kind ev = KRunContent\<close> show ?thesis
        by (intro exI [of _ own']) (simp add: h fst_and_then filter_map_append or_str_def)
    next
      case False
      have "textless (\<lambda>ad. case ag_content ev of None \<Rightarrow> ([], ad) | Some c \<Rightarrow> process_text_content uuid c ev ad)"
        by (rule textless_pointwise)
          (use False textless_none textless_close(1) in \<open>auto simp: truthy_def process_text_content_def split: option.split\<close>)
      then have "textless (and_then f (\<lambda>ad. case ag_content ev of None \<Rightarrow> ([], ad) | Some c \<Rightarrow> process_text_content uuid c ev ad))"
        by (rule textless_and_then [OF tl])
      from owned_textless [OF this o] textlessD [OF this, of ?ad] False show ?thesis
        by (intro exI [of _ own]) (simp add: h)
    qed
  next
    case False
    show ?thesis
    proof (cases "handler uuid loads ev")
      case None
      with False assms(2) show ?thesis by (intro exI [of _ own]) (simp add: to_digitalkin_events_def)
    next
      case (Some h)
      have t: "textless h" by (rule handler_textless [OF False Some])
      from owned_textless [OF t o] textlessD [OF t, of ?ad] False Some show ?thesis
        by (intro exI [of _ own]) (simp add: to_digitalkin_events_def)
    qed
  qed
qed

lemma spoken_owned:
  assumes "inj uuid" and "owned uuid own ad"
  shows "\<exists>own'. own \<subseteq>\<^sub>m own' \<and> (\<forall>(k, i, c)\<in>set (spoken uuid loads evs ad). own' i = Some k)
    \<and> map (\<lambda>(k, i, c). (k, c)) (spoken uuid loads evs ad) = reported uuid loads evs ad"
  using assms(2)
proof (induction evs arbitrary: ad own)
  case Nil
  show ?case by (intro exI [of _ own]) simp
next
  case (Cons ev evs)
  let ?s = "to_digitalkin_events uuid loads ev ad"
  let ?t = "filter_map text_of (fst ?s)"
  from convert_speaks [OF assms(1) Cons.prems, of loads ev] obtain own1 where o1: "own \<subseteq>\<^sub>m own1" "owned uuid own1 (snd ?s)"
      "\<forall>(i, c)\<in>set ?t. own1 i = Some (run_key_of ev ad)"
      "map snd ?t = (if ag_kind ev = KRunContent \<and> truthy (ag_content ev) then [or_str (ag_content ev) ''''] else [])"
    by blast
  from Cons.IH [OF o1(2)] obtain own2 where o2: "own1 \<subseteq>\<^sub>m own2" "\<forall>(k, i, c)\<in>set (spoken uuid loads evs (snd ?s)). own2 i = Some k"
      "map (\<lambda>(k, i, c). (k, c)) (spoken uuid loads evs (snd ?s)) = reported uuid loads evs (snd ?s)" by blast
  have "own \<subseteq>\<^sub>m own2" by (rule map_le_trans [OF o1(1) o2(1)])
  moreover have "own2 i = Some (run_key_of ev ad)" if "(i, c) \<in> set ?t" for i c
  proof -
    from o1(3) that have "own1 i = Some (run_key_of ev ad)" by auto
    with o2(1) show ?thesis by (auto simp: map_le_def dom_def)
  qed
  moreover have "map (\<lambda>(k, i, c). (k, c)) (map (\<lambda>(i, c). (run_key_of ev ad, i, c)) ?t) = map (Pair (run_key_of ev ad)) (map snd ?t)"
    by (auto simp: case_prod_beta)
  ultimately show ?case using o2(2,3) o1(4) by (intro exI [of _ own2]) auto
qed

text \<open>
  C16: Members that stream at once are never spliced. Whatever events arrive in whatever order, the texts
  sent on are the non-empty texts the framework reported, in order and each for the run that said it,
  and no message holds the words of two runs.
\<close>

theorem speakers_never_spliced:
  assumes "inj uuid"
  shows "map (\<lambda>(k, i, c). (k, c)) (spoken uuid loads evs ad_init) = reported uuid loads evs ad_init
    \<and> (\<forall>k i c k' c'. (k, i, c) \<in> set (spoken uuid loads evs ad_init) \<and> (k', i, c') \<in> set (spoken uuid loads evs ad_init) \<longrightarrow> k = k')"
proof -
  have "owned uuid Map.empty ad_init" by (simp add: owned_def ad_init_def)
  from spoken_owned [OF assms this, of loads evs] obtain own where
      o: "\<forall>(k, i, c)\<in>set (spoken uuid loads evs ad_init). own i = Some k"
      and m: "map (\<lambda>(k, i, c). (k, c)) (spoken uuid loads evs ad_init) = reported uuid loads evs ad_init" by blast
  have "k = k'" if "(k, i, c) \<in> set (spoken uuid loads evs ad_init)" "(k', i, c') \<in> set (spoken uuid loads evs ad_init)" for k i c k' c'
    using bspec [OF o that(1)] bspec [OF o that(2)] by simp
  with m show ?thesis by blast
qed

theorem speakers_never_spliced_witness:
  "spoken demo_uuid no_json team_demo ad_init
    = [(''t'', ''u'', ''plan''), (''a'', ''uu'', ''one''), (''b'', ''uuu'', ''two''), (''a'', ''uu'', ''more'')]
   \<and> reported demo_uuid no_json team_demo ad_init = [(''t'', ''plan''), (''a'', ''one''), (''b'', ''two''), (''a'', ''more'')]"
proof -
  have s: "spoken demo_uuid no_json team_demo ad_init
    = [(''t'', ''u'', ''plan''), (''a'', ''uu'', ''one''), (''b'', ''uuu'', ''two''), (''a'', ''uu'', ''more'')]" by code_simp
  with speakers_never_spliced [OF demo_uuid_inj, of no_json team_demo] show ?thesis by auto
qed

section \<open>Pauses\<close>

definition external_ids :: "tool_exec list \<Rightarrow> string list" where
  "external_ids xs = filter_map (\<lambda>x. if tx_external x \<and> truthy (tx_id x) then tx_id x else None) xs"

fun tool_events :: "run_event \<Rightarrow> (bool \<times> string option) option" where
  "tool_events (ToolCallStarted x s t m) = Some (True, Option.bind x ti_id)"
| "tool_events (ToolCallCompleted x c s t m) = Some (False, Option.bind x ti_id)"
| "tool_events _ = None"

fun fresh_of :: "string set \<Rightarrow> string list \<Rightarrow> string list" where
  "fresh_of seen [] = []"
| "fresh_of seen (i # is) = (if i \<in> seen then fresh_of seen is else i # fresh_of (insert i seen) is)"

lemma fresh_of_set: "set (fresh_of seen is) = set is - seen \<and> distinct (fresh_of seen is)"
  by (induction seen "is" rule: fresh_of.induct) auto

lemma pause_tools_calls:
  "filter_map tool_events (fst (pause_tools loads t seen xs ad)) = concat (map (\<lambda>i. [(True, Some i), (False, Some i)]) (fresh_of seen (external_ids xs)))
    \<and> ad_closed (snd (pause_tools loads t seen xs ad)) = ad_closed ad \<union> (set (external_ids xs) - seen)"
proof (induction xs arbitrary: seen ad)
  case Nil
  show ?case by (simp add: external_ids_def)
next
  case (Cons x xs)
  show ?case
  proof (cases "tx_external x \<and> truthy (tx_id x)")
    case False
    then have "external_ids (x # xs) = external_ids xs" "pause_tools loads t seen (x # xs) ad = pause_tools loads t seen xs ad"
      by (auto simp: external_ids_def)
    with Cons.IH show ?thesis by simp
  next
    case True
    then obtain i where i: "tx_id x = Some i" "i \<noteq> ''''" by (auto simp: truthy_def)
    have e: "external_ids (x # xs) = i # external_ids xs" using True i by (simp add: external_ids_def)
    show ?thesis
    proof (cases "i \<in> seen")
      case True
      with i e Cons.IH [of seen ad] show ?thesis by (auto simp: or_str_def)
    next
      case False
      let ?ad = "note_closed (tx_id x) ad"
      have "ad_closed ?ad = insert i (ad_closed ad)" using i by (simp add: note_closed_def truthy_def or_str_def)
      with False True i e Cons.IH [of "insert i seen" ?ad] show ?thesis
        by (auto simp: or_str_def fst_and_then filter_map_append info_of_def)
    qed
  qed
qed

lemma close_all_no_tools: "filter_map tool_events (fst (close_all_content t ad)) = []" "filter_map tool_events (fst (close_all_reasoning t ad)) = []"
proof -
  have "filter_map tool_events (fst (each (\<lambda>k. close_content k t) ks ad)) = []" for ks
    by (induction ks arbitrary: ad) (simp_all add: fst_and_then filter_map_append close_content_def split: option.split prod.split)
  then show "filter_map tool_events (fst (close_all_content t ad)) = []" by (simp add: close_all_content_def)
  have "filter_map tool_events (fst (each (\<lambda>k. close_reasoning k t) ks ad)) = []" for ks
    by (induction ks arbitrary: ad) (simp_all add: fst_and_then filter_map_append close_reasoning_def split: option.split prod.split)
  then show "filter_map tool_events (fst (close_all_reasoning t ad)) = []" by (simp add: close_all_reasoning_def)
qed

text \<open>
  A pause shows the front every external call once: for each distinct identifier of an external tool
  of the pause, in order, a start directly followed by its end, and nothing for the tools that ran on
  the server; a late error of one of them is dropped.
\<close>

theorem pause_shows_external_calls:
  assumes "ag_kind ev = KRunPaused" and "to_digitalkin_events uuid loads ev ad = (es, ad')"
  shows "filter_map tool_events es = concat (map (\<lambda>i. [(True, Some i), (False, Some i)]) (fresh_of {} (external_ids (ag_tools ev))))
    \<and> distinct (fresh_of {} (external_ids (ag_tools ev))) \<and> set (fresh_of {} (external_ids (ag_tools ev))) = set (external_ids (ag_tools ev))
    \<and> ad_paused ad' \<and> (\<forall>err. ag_kind err = KToolCallError \<and> tool_call_id err \<in> Some ` set (external_ids (ag_tools ev))
          \<longrightarrow> fst (to_digitalkin_events uuid loads err ad') = [])"
proof -
  let ?ad = "ad\<lparr>ad_meta := Some (build_metadata ev), ad_run_key := run_key_of ev ad\<rparr>"
  let ?ad1 = "snd (close_all_content (ag_time ev) (snd (close_all_reasoning (ag_time ev) ?ad)))"
  let ?ad2 = "?ad1\<lparr>ad_paused := True, ad_paused_tools := ag_tools ev, ad_paused_reqs := ag_requirements ev\<rparr>"
  have es: "es = fst (close_all_reasoning (ag_time ev) ?ad) @ fst (close_all_content (ag_time ev) (snd (close_all_reasoning (ag_time ev) ?ad)))
      @ fst (pause_tools loads (ag_time ev) {} (ag_tools ev) ?ad2)"
    and ad': "ad' = snd (pause_tools loads (ag_time ev) {} (ag_tools ev) ?ad2)"
    using assms by (auto simp: to_digitalkin_events_def handler_def handle_run_paused_def and_then_def split: prod.splits)
  have p: "ad_paused (snd (pause_tools loads t seen xs s)) = ad_paused s" for t seen xs s
    by (induction xs arbitrary: seen s) (simp_all add: note_closed_def)
  have ne: "i \<noteq> ''''" if "i \<in> set (external_ids xs)" for i xs
    using that by (auto simp: external_ids_def set_filter_map truthy_def split: if_splits)
  note c = pause_tools_calls [of loads "ag_time ev" "{}" "ag_tools ev" ?ad2]
  have "fst (to_digitalkin_events uuid loads err ad') = []"
    if "ag_kind err = KToolCallError" "tool_call_id err = Some i" "i \<in> set (external_ids (ag_tools ev))" for err i
    using that c ne [OF that(3)] by (auto simp: to_digitalkin_events_def handler_def handle_tool_call_error_def truthy_def or_str_def ad')
  with c fresh_of_set [of "{}" "external_ids (ag_tools ev)"] show ?thesis
    by (auto simp: es filter_map_append close_all_no_tools ad' p)
qed

definition demo_tool :: "string \<Rightarrow> string \<Rightarrow> bool \<Rightarrow> tool_exec" where
  "demo_tool i n b = \<lparr>tx_id = Some i, tx_name = Some n, tx_args = None, tx_result = None, tx_external = b\<rparr>"

theorem pause_shows_external_calls_witness:
  "filter_map tool_events (fst (to_digitalkin_events demo_uuid no_json
      ((demo_event KRunPaused ''t'' None None None)\<lparr>ag_tools := [demo_tool ''1'' ''pick'' True, demo_tool ''2'' ''sum'' False, demo_tool ''1'' ''pick'' True]\<rparr>) ad_init))
    = [(True, Some ''1''), (False, Some ''1'')]"
proof -
  let ?ev = "(demo_event KRunPaused ''t'' None None None)\<lparr>ag_tools := [demo_tool ''1'' ''pick'' True, demo_tool ''2'' ''sum'' False, demo_tool ''1'' ''pick'' True]\<rparr>"
  have k: "ag_kind ?ev = KRunPaused" by (simp add: demo_event_def)
  have i: "fresh_of {} (external_ids (ag_tools ?ev)) = [''1'']" by code_simp
  have "filter_map tool_events (fst (to_digitalkin_events demo_uuid no_json ?ev ad_init))
      = concat (map (\<lambda>i. [(True, Some i), (False, Some i)]) (fresh_of {} (external_ids (ag_tools ?ev))))"
    by (rule pause_shows_external_calls [OF k prod.collapse [symmetric], THEN conjunct1])
  then show ?thesis unfolding i by simp
qed

text \<open>A manager's call is shown with its action, but only with a clean one.\<close>

lemma display_tool_name_action:
  "display_tool_name loads \<lparr>tx_id = i, tx_name = Some ''load_manager'', tx_args = Some (PStruct [(''action'', PStruct [(''action'', PStr a)])]), tx_result = r, tx_external = b\<rparr>
    = Some (if is_identifier a then ''load_manager_'' @ a else ''load_manager'')"
proof -
  have "ends_with ''load_manager'' ''_manager''" by code_simp
  then show ?thesis by (simp add: display_tool_name_def action_of_def od_get_Cons)
qed

text \<open>A failing member never ends the stream: as long as its delegation is in flight its error is its own event.\<close>

lemma member_failure_is_local:
  assumes "ag_kind ev = KRunError" and "ag_run_id ev = Some r" and "r \<noteq> ''''" and "od_has (ad_subagents ad) r"
  shows "\<forall>e\<in>set (fst (to_digitalkin_events uuid loads ev ad)). \<forall>x c t m. e \<noteq> RunError x c t m"
  using assms by (auto simp: to_digitalkin_events_def handler_def handle_run_error_def truthy_def or_str_def Let_def fst_and_then
      close_content_def close_reasoning_def fail_subagent_def split: option.splits)

end
