(* ===== verification/Hitl.thy ===== *)
theory Hitl
  imports Agno_Speech
begin

text \<open>
  Runs that pause on tools the front executes: \<open>community/agno/hitl.py\<close> over the adapter of
  \<open>Agno_Adapter\<close>. The agent is third-party code: the streams it gives back are inputs (\<open>he_cont n ro\<close>
  is the stream of the \<open>n\<close>-th continuation from \<open>ro\<close>), as are the results of the in-process loader and
  the serialization of a run in the store (\<open>he_reload\<close> is \<open>from_dict\<close> after \<open>to_dict\<close>). The text
  of the error for partial results is \<open>he_partial\<close>. Calls of \<open>send\<close> and of the store succeed.
\<close>

section \<open>Runs, pauses and the store\<close>

datatype raw_args = ArgsText string | ArgsValue pvalue | ArgsNone

record raw_call =
  rc_id :: "string option"
  rc_function :: "(string option \<times> raw_args) option"

datatype msg_content = NoContent | Text string | Parts "string option list"

record agno_message =
  am_role :: "string option"
  am_id :: "string option"
  am_content :: msg_content
  am_calls :: "raw_call list"
  am_call_id :: "string option"

datatype agui_message =
    UserMsg string string
  | AssistantMsg string "string option" "(string \<times> string \<times> string) list"
  | ToolMsg string string string

record run_output =
  ro_run_id :: "string option"
  ro_tools :: "tool_exec list"
  ro_requirements :: "requirement list"
  ro_paused :: bool
  ro_messages :: "agno_message list"

record paused_run =
  pr_thread :: string
  pr_run :: string
  pr_pending :: "string list"
  pr_payload :: run_output

record pause_info =
  pi_thread :: string
  pi_run :: string
  pi_pending :: "string list"
  pi_messages :: "agui_message list"

type_synonym paused_store = "(string, paused_run) odict"

definition unresolved :: "tool_exec \<Rightarrow> bool" where
  "unresolved t \<longleftrightarrow> tx_external t \<and> tx_result t = None"

text \<open>\<open>PausedRunStore.save\<close>: the identifiers still to be resolved, each once and in order.\<close>

definition pending_ids :: "run_output \<Rightarrow> string list" where
  "pending_ids ro = fresh_of {} (filter_map (\<lambda>t. if truthy (tx_id t) \<and> unresolved t then tx_id t else None) (ro_tools ro))"

definition store_save :: "run_output \<Rightarrow> string \<Rightarrow> paused_store \<Rightarrow> pause_info \<times> paused_store" where
  "store_save ro thread s =
     (\<lparr>pi_thread = thread, pi_run = or_str (ro_run_id ro) '''', pi_pending = pending_ids ro, pi_messages = []\<rparr>,
      od_set thread \<lparr>pr_thread = thread, pr_run = or_str (ro_run_id ro) '''', pr_pending = pending_ids ro, pr_payload = ro\<rparr> s)"

section \<open>Messages for the front\<close>

fun join_parts :: "string option list \<Rightarrow> string" where
  "join_parts ps = (case filter_map id ps of [] \<Rightarrow> '''' | t # ts \<Rightarrow> t @ concat (map (\<lambda>u. '' '' @ u) ts))"

definition content_text :: "msg_content \<Rightarrow> string option" where
  "content_text c = (case c of NoContent \<Rightarrow> None | Text t \<Rightarrow> Some t | Parts ps \<Rightarrow> Some (join_parts ps))"

definition convert_call :: "(pvalue \<Rightarrow> string) \<Rightarrow> raw_call \<Rightarrow> (string \<times> string \<times> string) option" where
  "convert_call dumps c =
     (if \<not> truthy (rc_id c) then None
      else case rc_function c of
        None \<Rightarrow> None
      | Some (name, args) \<Rightarrow> Some (or_str (rc_id c) '''', or_str name '''',
          (case args of ArgsText t \<Rightarrow> t | ArgsValue v \<Rightarrow> dumps v | ArgsNone \<Rightarrow> ''{}'')))"

definition convert_message :: "(pvalue \<Rightarrow> string) \<Rightarrow> agno_message \<Rightarrow> agui_message option" where
  "convert_message dumps m =
     (let i = or_str (am_id m) '''' in
      if am_role m = Some ''user'' then Some (UserMsg i (or_str (content_text (am_content m)) ''''))
      else if am_role m = Some ''assistant'' then Some (AssistantMsg i (content_text (am_content m)) (filter_map (convert_call dumps) (am_calls m)))
      else if am_role m = Some ''tool'' \<and> truthy (am_call_id m)
        then Some (ToolMsg i (or_str (am_call_id m) '''') (case content_text (am_content m) of None \<Rightarrow> '''' | Some t \<Rightarrow> t))
      else None)"

definition agno_messages_to_agui :: "(pvalue \<Rightarrow> string) \<Rightarrow> agno_message list \<Rightarrow> agui_message list" where
  "agno_messages_to_agui dumps ms = filter_map (convert_message dumps) ms"

section \<open>The runner\<close>

text \<open>
  The agent's tools are a factory (which gives a list when it is called) or a list; while a
  continuation is under way the runner puts the factory aside.
\<close>

datatype 't agent_tools = Factory "'t list" | ToolList "'t list"

datatype stream_item = Ev agno_event | Out run_output

text \<open>A stream and whether it ends in an exception.\<close>

type_synonym agent_stream = "stream_item list \<times> bool"

record 't hitl_env =
  he_uuid :: "nat \<Rightarrow> string"
  he_loads :: "string \<Rightarrow> pvalue option"
  he_dumps :: "pvalue \<Rightarrow> string"
  he_loader :: "string option"
  he_load :: "nat \<Rightarrow> tool_exec \<Rightarrow> string"
  he_front :: "'t list"
  he_run :: "string \<Rightarrow> agent_stream"
  he_cont :: "nat \<Rightarrow> run_output \<Rightarrow> agent_stream"
  he_partial :: "nat \<Rightarrow> nat \<Rightarrow> string set \<Rightarrow> string"
  he_reload :: "run_output \<Rightarrow> run_output"

record 't runner =
  hr_store :: paused_store
  hr_tools :: "'t agent_tools"
  hr_factory :: "'t list option"
  hr_sent :: "run_event list"
  hr_uuids :: nat

datatype outcome = Raised | Returned "pause_info option"

definition send_all :: "run_event list \<Rightarrow> 't runner \<Rightarrow> 't runner" where
  "send_all es r = r\<lparr>hr_sent := hr_sent r @ es\<rparr>"

definition resolve_tools_for_continue :: "'t hitl_env \<Rightarrow> 't runner \<Rightarrow> 't runner" where
  "resolve_tools_for_continue E r = (case hr_tools r of
      ToolList _ \<Rightarrow> r
    | Factory base \<Rightarrow> r\<lparr>hr_factory := (case hr_factory r of None \<Rightarrow> Some base | Some f \<Rightarrow> Some f), hr_tools := ToolList (base @ he_front E)\<rparr>)"

definition restore_tools :: "'t runner \<Rightarrow> 't runner" where
  "restore_tools r = (case hr_factory r of None \<Rightarrow> r | Some f \<Rightarrow> r\<lparr>hr_tools := Factory f, hr_factory := None\<rparr>)"

text \<open>
  \<open>requirement.set_external_execution_result\<close> is the framework's; after it the requirement no longer
  needs external execution.
\<close>

definition resolve_requirement :: "string option \<Rightarrow> string \<Rightarrow> requirement list \<Rightarrow> requirement list" where
  "resolve_requirement i res reqs =
     (if \<not> truthy i then reqs
      else map (\<lambda>q. case rq_tool q of
          None \<Rightarrow> q
        | Some t \<Rightarrow> if tx_id t = i \<and> rq_needs_external q then q\<lparr>rq_needs_external := False, rq_result := Some res\<rparr> else q) reqs)"

definition is_load :: "string \<Rightarrow> tool_exec \<Rightarrow> bool" where
  "is_load loader t \<longleftrightarrow> unresolved t \<and> tx_name t = Some loader"

definition load_paused_tools :: "'t hitl_env \<Rightarrow> nat \<Rightarrow> run_output \<Rightarrow> bool \<times> run_output" where
  "load_paused_tools E n ro = (case he_loader E of
      None \<Rightarrow> (False, ro)
    | Some loader \<Rightarrow>
        (list_ex (is_load loader) (ro_tools ro),
         ro\<lparr>ro_tools := map (\<lambda>t. if is_load loader t then t\<lparr>tx_result := Some (he_load E n t)\<rparr> else t) (ro_tools ro),
            ro_requirements := fold (\<lambda>t. resolve_requirement (tx_id t) (he_load E n t)) (filter (is_load loader) (ro_tools ro)) (ro_requirements ro)\<rparr>))"

definition pending_external :: "run_output \<Rightarrow> bool" where
  "pending_external ro \<longleftrightarrow> list_ex unresolved (ro_tools ro)"

fun drain_stream :: "'t hitl_env \<Rightarrow> stream_item list \<Rightarrow> adapter \<Rightarrow> run_output option \<Rightarrow> run_event list \<times> adapter \<times> run_output option" where
  "drain_stream E [] ad fin = ([], ad, fin)"
| "drain_stream E (Out ro # its) ad fin = drain_stream E its ad (Some ro)"
| "drain_stream E (Ev e # its) ad fin =
     (case to_digitalkin_events (he_uuid E) (he_loads E) e ad of (es, ad1) \<Rightarrow>
       (case drain_stream E its ad1 fin of (es', r) \<Rightarrow> (es @ es', r)))"

definition limit_error :: run_event where
  "limit_error = RunError (Some ''auto_continue_limit'')
     (Some ''The run was stopped after too many consecutive in-process tool loads (load_manager). Send a new message to continue.'') None None"

text \<open>
  The loop of \<open>_drive\<close>: \<open>n\<close> counts the continuations made, \<open>fuel\<close> is what is left of \<open>range(20)\<close>. Every
  round has a new adapter; identifiers keep being drawn from the same supply.
\<close>

fun drive_loop :: "'t hitl_env \<Rightarrow> string \<Rightarrow> nat \<Rightarrow> nat \<Rightarrow> agent_stream \<Rightarrow> 't runner \<Rightarrow> outcome \<times> 't runner" where
  "drive_loop E thread 0 n stream r = (Returned None, send_all [limit_error] r)"
| "drive_loop E thread (Suc fuel) n stream r =
     (case drain_stream E (fst stream) (ad_init\<lparr>ad_uuids := hr_uuids r\<rparr>) None of
        (es, ad, fin) \<Rightarrow>
          if snd stream then (Raised, (send_all es r)\<lparr>hr_uuids := ad_uuids ad\<rparr>)
          else let (es', ad') = ad_flush ad;
                   r1 = (send_all (es @ es') r)\<lparr>hr_uuids := ad_uuids ad'\<rparr>
            in (case fin of
                  None \<Rightarrow> (Returned None, r1)
                | Some ro \<Rightarrow>
                    if \<not> (ad_paused ad' \<and> ro_paused ro) then (Returned None, r1)
                    else (case load_paused_tools E n ro of (handled, ro1) \<Rightarrow>
                      if handled \<and> \<not> pending_external ro1
                      then drive_loop E thread fuel (Suc n) (he_cont E n ro1) (resolve_tools_for_continue E r1)
                      else (case store_save ro1 thread (hr_store r1) of (info, s) \<Rightarrow>
                        (Returned (Some (info\<lparr>pi_messages := agno_messages_to_agui (he_dumps E) (ro_messages ro1)\<rparr>)), r1\<lparr>hr_store := s\<rparr>)))))"

definition drive :: "'t hitl_env \<Rightarrow> string \<Rightarrow> nat \<Rightarrow> agent_stream \<Rightarrow> 't runner \<Rightarrow> outcome \<times> 't runner" where
  "drive E thread n stream r = (case drive_loop E thread 20 n stream r of (out, r') \<Rightarrow> (out, restore_tools r'))"

section \<open>Resuming\<close>

datatype user_content = UText string | UParts "string option list"

datatype in_message = InUser user_content | InTool string string | InOther

record run_input =
  in_thread :: "string option"
  in_run :: "string option"
  in_messages :: "in_message list"

definition collect_results :: "string set \<Rightarrow> in_message list \<Rightarrow> (string, string) odict" where
  "collect_results pending ms =
     fold (\<lambda>m d. case m of InTool i c \<Rightarrow> if i \<in> pending then od_set i c d else d | _ \<Rightarrow> d) ms []"

text \<open>The results written onto the tools and the requirements of the reloaded run.\<close>

definition give_results :: "(string, string) odict \<Rightarrow> run_output \<Rightarrow> run_output" where
  "give_results results ro = ro\<lparr>
     ro_tools := map (\<lambda>t. if truthy (tx_id t) \<and> od_has results (or_str (tx_id t) '''')
                          then t\<lparr>tx_result := od_get results (or_str (tx_id t) '''')\<rparr> else t) (ro_tools ro),
     ro_requirements := map (\<lambda>q. case rq_tool q of
          None \<Rightarrow> q
        | Some t \<Rightarrow> (case tx_id t of
            None \<Rightarrow> q
          | Some i \<Rightarrow> if rq_needs_external q \<and> od_has results i then q\<lparr>rq_needs_external := False, rq_result := od_get results i\<rparr> else q)) (ro_requirements ro)\<rparr>"

definition continue_paused_run :: "'t hitl_env \<Rightarrow> string \<Rightarrow> (string, string) odict \<Rightarrow> string option \<Rightarrow> 't runner \<Rightarrow> outcome \<times> 't runner" where
  "continue_paused_run E thread results run r =
     (case od_get (hr_store r) thread of
        None \<Rightarrow> (Returned None, r)
      | Some rec \<Rightarrow>
          (case drive E thread 1 (he_cont E 0 (give_results results (he_reload E (pr_payload rec)))) (send_all [RunStarted run (Some thread) None None] r) of
             (Returned None, r') \<Rightarrow> (Returned None, r'\<lparr>hr_store := od_del thread (hr_store r')\<rparr>)
           | (out, r') \<Rightarrow> (out, r')))"

definition last_is_user :: "in_message list \<Rightarrow> bool" where
  "last_is_user ms \<longleftrightarrow> (case rev ms of InUser _ # _ \<Rightarrow> True | _ \<Rightarrow> False)"

definition partial_error :: "'t hitl_env \<Rightarrow> (string, string) odict \<Rightarrow> string set \<Rightarrow> run_event" where
  "partial_error E results pending = RunError (Some ''partial_tool_results'')
     (Some (he_partial E (length results) (card pending) (pending - fst ` set results))) None None"

definition try_resume :: "'t hitl_env \<Rightarrow> run_input \<Rightarrow> 't runner \<Rightarrow> bool \<times> outcome \<times> 't runner" where
  "try_resume E inp r =
     (if \<not> truthy (in_thread inp) then (False, Returned None, r)
      else let thread = or_str (in_thread inp) '''' in case od_get (hr_store r) thread of
        None \<Rightarrow> (False, Returned None, r)
      | Some rec \<Rightarrow>
          let pending = set (pr_pending rec); results = collect_results pending (in_messages inp)
          in if results = [] then
               (False, Returned None, if last_is_user (in_messages inp) then r\<lparr>hr_store := od_del thread (hr_store r)\<rparr> else r)
             else if pending - fst ` set results \<noteq> {} then
               (True, Returned None, send_all [RunStarted (in_run inp) (Some thread) None None, partial_error E results pending] r)
             else (True, continue_paused_run E thread results (in_run inp) r))"

fun user_text :: "in_message \<Rightarrow> string option" where
  "user_text (InUser (UText s)) = Some s"
| "user_text (InUser (UParts ps)) = Some (join_parts ps)"
| "user_text _ = None"

text \<open>
  \<open>handle_agui_input\<close>: resume, or a fresh run on the given or the last user message. The third
  component is the pause announced to the front, if a context is given.
\<close>

definition announce :: "bool \<Rightarrow> outcome \<Rightarrow> pause_info option" where
  "announce has_context out = (case out of Returned (Some i) \<Rightarrow> if has_context then Some i else None | _ \<Rightarrow> None)"

definition handle_agui_input ::
    "'t hitl_env \<Rightarrow> bool \<Rightarrow> string option \<Rightarrow> run_input \<Rightarrow> 't runner \<Rightarrow> outcome \<times> pause_info option \<times> 't runner" where
  "handle_agui_input E has_context message inp r =
     (case try_resume E inp r of
        (True, out, r') \<Rightarrow> (out, announce has_context out, r')
      | (False, Raised, r') \<Rightarrow> (Raised, None, r')
      | (False, _, r') \<Rightarrow>
          (case (case message of Some t \<Rightarrow> Some t
                 | None \<Rightarrow> (case rev (filter_map user_text (in_messages inp)) of [] \<Rightarrow> None | t # _ \<Rightarrow> Some t)) of
             None \<Rightarrow> (Returned None, None, r')
           | Some text \<Rightarrow> (case drive E (or_str (in_thread inp) '''') 0 (he_run E text) r' of
               (out, r'') \<Rightarrow> (out, announce has_context out, r''))))"

section \<open>What is sent stays well formed\<close>

fun ev_of :: "stream_item \<Rightarrow> agno_event option" where
  "ev_of (Ev e) = Some e"
| "ev_of (Out ro) = None"

fun out_of :: "stream_item list \<Rightarrow> run_output option \<Rightarrow> run_output option" where
  "out_of [] fin = fin"
| "out_of (Out ro # its) fin = out_of its (Some ro)"
| "out_of (Ev e # its) fin = out_of its fin"

abbreviation conv :: "'t hitl_env \<Rightarrow> agno_event \<Rightarrow> step" where
  "conv E \<equiv> to_digitalkin_events (he_uuid E) (he_loads E)"

lemma drain_stream_each:
  "drain_stream E its ad fin = (fst (each (conv E) (filter_map ev_of its) ad), snd (each (conv E) (filter_map ev_of its) ad), out_of its fin)"
  by (induction E its ad fin rule: drain_stream.induct) (simp_all add: and_then_def split: prod.split)

definition calm :: "'t hitl_env \<Rightarrow> agent_stream \<Rightarrow> bool" where
  "calm E s \<longleftrightarrow> (\<forall>u. along orderly (conv E) (filter_map ev_of (fst s)) (ad_init\<lparr>ad_uuids := u\<rparr>))"

definition quiet_at :: "'t hitl_env \<Rightarrow> 't runner \<Rightarrow> sheet \<Rightarrow> bool" where
  "quiet_at E r g \<longleftrightarrow> idle_sheet g \<and> sh_used g = he_uuid E ` {..<hr_uuids r}"

lemma round_accepted:
  assumes "inj (he_uuid E)" and "along orderly (conv E) evs (ad_init\<lparr>ad_uuids := hr_uuids r\<rparr>)" and "quiet_at E r g"
    and "each (conv E) evs (ad_init\<lparr>ad_uuids := hr_uuids r\<rparr>) = (es, ad)" and "ad_flush ad = (es', ad')"
  shows "\<exists>g'. accepts read_event (es @ es') g = Some g' \<and> idle_sheet g' \<and> sh_used g' = he_uuid E ` {..<ad_uuids ad'}"
proof -
  let ?ad = "ad_init\<lparr>ad_uuids := hr_uuids r\<rparr>"
  have t: "inj (he_uuid E) \<and> tracks (he_uuid E) ?ad g"
    using assms(1,3) by (simp add: quiet_at_def idle_sheet_def tracks_def ad_init_def)
  have f: "yields read_event (\<lambda>ad g. inj (he_uuid E) \<and> tracks (he_uuid E) ad g) ad_flush (\<lambda>ad g. tracks (he_uuid E) ad g \<and> idle_sheet g)"
    unfolding ad_flush_def by (rule yields_weaken [OF close_everything_tracks]) auto
  from ads.run_then [where uuid = "he_uuid E" and loads = "he_loads E", OF t assms(2) f]
  show ?thesis using assms(4,5) by (auto simp: and_then_def tracks_def)
qed

lemma send_all_fields [simp]:
  "hr_sent (send_all es r) = hr_sent r @ es" "hr_uuids (send_all es r) = hr_uuids r" "hr_store (send_all es r) = hr_store r"
  "hr_tools (send_all es r) = hr_tools r" "hr_factory (send_all es r) = hr_factory r"
  by (simp_all add: send_all_def)

lemma resolve_tools_fields [simp]:
  "hr_sent (resolve_tools_for_continue E r) = hr_sent r" "hr_uuids (resolve_tools_for_continue E r) = hr_uuids r"
  "hr_store (resolve_tools_for_continue E r) = hr_store r"
  by (simp_all add: resolve_tools_for_continue_def split: agent_tools.split)

lemma restore_tools_fields [simp]:
  "hr_sent (restore_tools r) = hr_sent r" "hr_uuids (restore_tools r) = hr_uuids r" "hr_store (restore_tools r) = hr_store r"
  by (simp_all add: restore_tools_def split: option.split)

lemma drive_loop_accepted:
  assumes "inj (he_uuid E)" and "\<And>n ro. calm E (he_cont E n ro)"
  shows "calm E stream \<Longrightarrow> quiet_at E r g \<Longrightarrow> drive_loop E thread fuel n stream r = (out, r') \<Longrightarrow> out \<noteq> Raised \<Longrightarrow>
    \<exists>es g'. hr_sent r' = hr_sent r @ es \<and> accepts read_event es g = Some g' \<and> quiet_at E r' g'"
proof (induction fuel arbitrary: n stream r g)
  case 0
  then have "hr_sent r' = hr_sent r @ [limit_error]" "hr_uuids r' = hr_uuids r" by auto
  moreover have "accepts read_event [limit_error] g = Some g" using "0.prems"(2) by (simp add: limit_error_def quiet_at_def)
  ultimately show ?case using "0.prems"(2) by (intro exI [of _ "[limit_error]"] exI [of _ g]) (simp add: quiet_at_def)
next
  case (Suc fuel)
  let ?ad = "ad_init\<lparr>ad_uuids := hr_uuids r\<rparr>"
  obtain es ad where e: "each (conv E) (filter_map ev_of (fst stream)) ?ad = (es, ad)" by (rule prod.exhaust)
  obtain es' ad' where f: "ad_flush ad = (es', ad')" by (rule prod.exhaust)
  let ?r1 = "(send_all (es @ es') r)\<lparr>hr_uuids := ad_uuids ad'\<rparr>"
  have o: "along orderly (conv E) (filter_map ev_of (fst stream)) ?ad" using Suc.prems(1) by (simp add: calm_def)
  from round_accepted [OF assms(1) o Suc.prems(2) e f] obtain g1 where
      g1: "accepts read_event (es @ es') g = Some g1" "idle_sheet g1" "sh_used g1 = he_uuid E ` {..<ad_uuids ad'}" by blast
  have nr: "\<not> snd stream" using Suc.prems(3,4) by (auto split: prod.splits)
  have over: ?case if "hr_sent r' = hr_sent ?r1" "hr_uuids r' = hr_uuids ?r1"
    using that g1 by (intro exI [of _ "es @ es'"] exI [of _ g1]) (simp add: quiet_at_def)
  note run = Suc.prems(3) [simplified drive_loop.simps drain_stream_each e fst_conv snd_conv prod.case f Let_def if_not_P [OF nr]]
  show ?case
  proof (cases "out_of (fst stream) None")
    case None
    with run have "r' = ?r1" by simp
    then show ?thesis by (intro over) simp_all
  next
    case (Some ro)
    obtain handled ro1 where l: "load_paused_tools E n ro = (handled, ro1)" by (rule prod.exhaust)
    show ?thesis
    proof (cases "ad_paused ad' \<and> ro_paused ro \<and> handled \<and> \<not> pending_external ro1")
      case False
      with run Some l have "hr_sent r' = hr_sent ?r1 \<and> hr_uuids r' = hr_uuids ?r1"
        by (auto simp: store_save_def split: if_splits)
      then show ?thesis by (intro over) simp_all
    next
      case True
      with run Some l have d: "drive_loop E thread fuel (Suc n) (he_cont E n ro1) (resolve_tools_for_continue E ?r1) = (out, r')" by simp
      have q: "quiet_at E (resolve_tools_for_continue E ?r1) g1" using g1 by (simp add: quiet_at_def)
      from Suc.IH [OF assms(2) q d Suc.prems(4)] obtain es2 g2 where
          "hr_sent r' = hr_sent ?r1 @ es2" "accepts read_event es2 g1 = Some g2" "quiet_at E r' g2" by auto
      with accepts_then [OF g1(1)] show ?thesis by (intro exI [of _ "(es @ es') @ es2"] exI [of _ g2]) simp
    qed
  qed
qed

text \<open>
  A driven run is one well-formed stream. However often the run pauses to load tools and is continued
  in process, the events sent for all its rounds together keep to the grammar of a run, with nothing
  left open when the drive returns: completed, paused for the front, or stopped at the limit.
\<close>

theorem driven_run_well_formed:
  assumes "inj (he_uuid E)" and "\<And>n ro. calm E (he_cont E n ro)" and "calm E stream"
    and "hr_uuids r = 0" and "drive E thread n stream r = (Returned info, r')"
  shows "\<exists>es g. hr_sent r' = hr_sent r @ es \<and> accepts read_event es blank_sheet = Some g \<and> idle_sheet g"
proof -
  obtain r1 where d: "drive_loop E thread 20 n stream r = (Returned info, r1)" and r': "r' = restore_tools r1"
    using assms(5) by (auto simp: drive_def split: prod.splits)
  have q: "quiet_at E r blank_sheet" using assms(4) by (simp add: quiet_at_def blank_sheet_def idle_sheet_def)
  from drive_loop_accepted [OF assms(1,2,3) q d] show ?thesis by (auto simp: r' quiet_at_def)
qed

section \<open>Pausing and resuming\<close>

lemma collect_results_said: "od_get (collect_results P ms) i = Some c \<Longrightarrow> InTool i c \<in> set ms"
proof (induction ms rule: rev_induct)
  case Nil
  then show ?case by (simp add: collect_results_def)
next
  case (snoc m ms)
  then show ?case by (cases m) (auto simp: collect_results_def split: if_splits)
qed

definition answered :: "string set \<Rightarrow> in_message list \<Rightarrow> string set" where
  "answered P ms = {i \<in> P. \<exists>c. InTool i c \<in> set ms}"

lemma collect_results_has: "od_has (collect_results P ms) i \<longleftrightarrow> i \<in> answered P ms"
proof (induction ms rule: rev_induct)
  case Nil
  show ?case by (simp add: collect_results_def answered_def od_has_def)
next
  case (snoc m ms)
  then show ?case by (cases m) (auto simp: collect_results_def answered_def od_has_def)
qed

lemma collect_results_keys: "fst ` set (collect_results P ms) = answered P ms"
  using collect_results_has [of P ms] by (auto simp: od_has_def od_get_None_iff)

lemma collect_results_empty: "collect_results P ms = [] \<longleftrightarrow> answered P ms = {}"
  using collect_results_keys [of P ms] by auto

text \<open>
  When a paused run resumes. Without a record for the thread nothing happens. With one, the tool
  messages of the input are matched against the pending calls: no match leaves the run paused, or
  drops it when the input ends in a new user message; some but not all keep it and answer with an
  error; and exactly when all are answered the run continues with the results.
\<close>

theorem resume_gate:
  assumes "in_thread inp = Some thread" and "thread \<noteq> ''''" and "try_resume E inp r = (resumed, out, r')"
  shows "case od_get (hr_store r) thread of
      None \<Rightarrow> \<not> resumed \<and> r' = r
    | Some rec \<Rightarrow>
        let P = set (pr_pending rec); A = answered P (in_messages inp)
        in (A = {} \<longrightarrow> \<not> resumed \<and> hr_sent r' = hr_sent r
               \<and> hr_store r' = (if last_is_user (in_messages inp) then od_del thread (hr_store r) else hr_store r))
         \<and> (A \<noteq> {} \<and> A \<noteq> P \<longrightarrow> resumed \<and> out = Returned None \<and> hr_store r' = hr_store r
               \<and> hr_sent r' = hr_sent r @ [RunStarted (in_run inp) (Some thread) None None, partial_error E (collect_results P (in_messages inp)) P])
         \<and> (A \<noteq> {} \<and> A = P \<longrightarrow> resumed \<and> (out, r') = continue_paused_run E thread (collect_results P (in_messages inp)) (in_run inp) r)"
proof (cases "od_get (hr_store r) thread")
  case None
  with assms show ?thesis by (simp add: try_resume_def truthy_def or_str_def)
next
  case (Some rec)
  let ?P = "set (pr_pending rec)"
  have m: "?P - fst ` set (collect_results ?P (in_messages inp)) \<noteq> {} \<longleftrightarrow> answered ?P (in_messages inp) \<noteq> ?P"
    by (auto simp: collect_results_keys) (auto simp: answered_def)
  show ?thesis
  proof (cases "answered ?P (in_messages inp) = {}")
    case True
    with Some assms show ?thesis
      by (auto simp: try_resume_def truthy_def or_str_def Let_def collect_results_empty)
  next
    case False
    with Some assms m show ?thesis
      by (auto simp: try_resume_def truthy_def or_str_def Let_def collect_results_empty split: if_splits)
  qed
qed

lemma pending_ids_set: "set (pending_ids ro) = {i. \<exists>t\<in>set (ro_tools ro). tx_id t = Some i \<and> i \<noteq> '''' \<and> unresolved t} \<and> distinct (pending_ids ro)"
  using fresh_of_set [of "{}"] by (auto simp: pending_ids_def set_filter_map truthy_def split: if_splits)

text \<open>
  C10: A run that pauses can always be resumed. The record names each unresolved external call once, and
  when the front answers all of them the run that is handed back to the agent has no external call
  without a result: each has the content of the last tool message for it, and results that were
  there before the pause are kept.
\<close>

theorem pause_then_resume:
  assumes "store_save ro thread s = (info, s')" and "ro_tools (he_reload E ro) = ro_tools ro"
    and "\<forall>t\<in>set (ro_tools ro). unresolved t \<longrightarrow> truthy (tx_id t)"
    and "od_get s' thread = Some rec" and "answered (set (pr_pending rec)) ms = set (pr_pending rec)"
    and "ro' = give_results (collect_results (set (pr_pending rec)) ms) (he_reload E (pr_payload rec))"
  shows "pi_pending info = pr_pending rec \<and> distinct (pr_pending rec) \<and> \<not> pending_external ro'
    \<and> (\<forall>k<length (ro_tools ro). let t = ro_tools ro ! k; t' = ro_tools ro' ! k in
          tx_id t' = tx_id t \<and> (if truthy (tx_id t) \<and> or_str (tx_id t) '''' \<in> set (pr_pending rec)
            then (\<exists>c. InTool (or_str (tx_id t) '''') c \<in> set ms \<and> tx_result t' = Some c) else tx_result t' = tx_result t))"
proof -
  have rec: "pr_pending rec = pending_ids ro" "pr_payload rec = ro" "pi_pending info = pending_ids ro"
    using assms(1,4) by (auto simp: store_save_def)
  let ?P = "set (pr_pending rec)"
  let ?R = "collect_results ?P ms"
  have has: "od_has ?R i \<longleftrightarrow> i \<in> ?P" for i using assms(5) by (simp add: collect_results_has)
  have tools: "ro_tools ro' = map (\<lambda>t. if truthy (tx_id t) \<and> od_has ?R (or_str (tx_id t) '''')
      then t\<lparr>tx_result := od_get ?R (or_str (tx_id t) '''')\<rparr> else t) (ro_tools ro)"
    by (simp add: assms(2,6) give_results_def rec(2))
  have said: "\<exists>c. InTool i c \<in> set ms \<and> od_get ?R i = Some c" if "i \<in> ?P" for i
  proof -
    from has [of i] that obtain c where c: "od_get ?R i = Some c" by (auto simp: od_has_def)

    from collect_results_said [OF c] c show ?thesis by blast
  qed
  have "\<not> unresolved t'" if "t' \<in> set (ro_tools ro')" for t'
  proof
    assume u: "unresolved t'"
    from that obtain t where t: "t \<in> set (ro_tools ro)" and t': "t' = (if truthy (tx_id t) \<and> od_has ?R (or_str (tx_id t) '''')
      then t\<lparr>tx_result := od_get ?R (or_str (tx_id t) '''')\<rparr> else t)" by (auto simp: tools)
    show False
    proof (cases "truthy (tx_id t) \<and> od_has ?R (or_str (tx_id t) '''')")
      case True
      with u t' show False by (auto simp: unresolved_def od_has_def)
    next
      case False
      with u t' have "unresolved t" by (simp split: if_splits)
      with t assms(3) have "truthy (tx_id t)" by blast
      then obtain i where i: "tx_id t = Some i" "i \<noteq> ''''" by (auto simp: truthy_def)
      with t \<open>unresolved t\<close> have "i \<in> ?P" unfolding rec(1) using pending_ids_set [of ro] by auto
      with has i False \<open>truthy (tx_id t)\<close> show False by (simp add: or_str_def)
    qed
  qed
  then have np: "\<not> pending_external ro'" by (auto simp: pending_external_def list_ex_iff)
  have "let t = ro_tools ro ! k; t' = ro_tools ro' ! k in
          tx_id t' = tx_id t \<and> (if truthy (tx_id t) \<and> or_str (tx_id t) '''' \<in> ?P
            then (\<exists>c. InTool (or_str (tx_id t) '''') c \<in> set ms \<and> tx_result t' = Some c) else tx_result t' = tx_result t)"
    if "k < length (ro_tools ro)" for k
    using that said by (auto simp: tools Let_def has)
  with np pending_ids_set [of ro] show ?thesis by (auto simp: rec)
qed

section \<open>Ends of a drive\<close>

definition tools_set_aside :: "'t agent_tools \<Rightarrow> 't runner \<Rightarrow> bool" where
  "tools_set_aside ts r \<longleftrightarrow> (case hr_factory r of None \<Rightarrow> hr_tools r = ts | Some f \<Rightarrow> ts = Factory f)"

lemma tools_set_aside_cong: "hr_tools r' = hr_tools r \<Longrightarrow> hr_factory r' = hr_factory r \<Longrightarrow> tools_set_aside ts r' = tools_set_aside ts r"
  by (simp add: tools_set_aside_def split: option.split)

lemma drive_loop_tools:
  "drive_loop E thread fuel n stream r = (out, r') \<Longrightarrow> tools_set_aside ts r \<Longrightarrow> tools_set_aside ts r'"
proof (induction fuel arbitrary: n stream r)
  case 0
  then have "hr_tools r' = hr_tools r" "hr_factory r' = hr_factory r" by auto
  from tools_set_aside_cong [OF this] 0 show ?case by simp
next
  case (Suc fuel)
  obtain es ad fin where d: "drain_stream E (fst stream) (ad_init\<lparr>ad_uuids := hr_uuids r\<rparr>) None = (es, ad, fin)" by (rule prod_cases3)
  obtain es' ad' where f: "ad_flush ad = (es', ad')" by (rule prod.exhaust)
  let ?r1 = "(send_all (es @ es') r)\<lparr>hr_uuids := ad_uuids ad'\<rparr>"
  have c: "tools_set_aside ts ?r1 = tools_set_aside ts r" by (rule tools_set_aside_cong) simp_all
  with Suc.prems(2) have t1: "tools_set_aside ts ?r1" by simp
  have t2: "tools_set_aside ts (resolve_tools_for_continue E ?r1)"
    using t1 by (auto simp: tools_set_aside_def resolve_tools_for_continue_def split: agent_tools.splits option.splits)
  show ?case
  proof (cases "snd stream")
    case True
    with Suc.prems(1) d have "hr_tools r' = hr_tools r" "hr_factory r' = hr_factory r" by auto
    from tools_set_aside_cong [OF this] Suc.prems(2) show ?thesis by simp
  next
    case False
    show ?thesis
    proof (cases fin)
      case None
      with Suc.prems(1) d f False t1 show ?thesis by (auto simp: Let_def)
    next
      case (Some ro)
      obtain handled ro1 where l: "load_paused_tools E n ro = (handled, ro1)" by (rule prod.exhaust)
      show ?thesis
      proof (cases "ad_paused ad' \<and> ro_paused ro \<and> handled \<and> \<not> pending_external ro1")
        case True
        with Suc.prems(1) d f False Some l
        have "drive_loop E thread fuel (Suc n) (he_cont E n ro1) (resolve_tools_for_continue E ?r1) = (out, r')" by (simp add: Let_def)
        from Suc.IH [OF this t2] show ?thesis .
      next
        case no: False
        with Suc.prems(1) d f False Some l have "hr_tools r' = hr_tools r" "hr_factory r' = hr_factory r"
          by (auto simp: store_save_def Let_def split: if_splits)
        from tools_set_aside_cong [OF this] Suc.prems(2) show ?thesis by simp
      qed
    qed
  qed
qed

text \<open>
  The agent gets its tools back. However a drive ends (completed, paused, stopped at the limit or
  by an exception of the agent's stream), the agent's tools are the ones it had before, the factory
  and not the list resolved for one continuation.
\<close>

theorem drive_gives_tools_back:
  assumes "hr_factory r = None" and "drive E thread n stream r = (out, r')"
  shows "hr_tools r' = hr_tools r \<and> hr_factory r' = None"
proof -
  obtain r1 where d: "drive_loop E thread 20 n stream r = (out, r1)" and r': "r' = restore_tools r1"
    using assms(2) by (auto simp: drive_def split: prod.splits)
  have "tools_set_aside (hr_tools r) r" using assms(1) by (simp add: tools_set_aside_def)
  from drive_loop_tools [OF d this] show ?thesis by (auto simp: r' tools_set_aside_def restore_tools_def split: option.splits)
qed

text \<open>A stream that pauses only to load tools.\<close>

definition pauses_to_load :: "'t hitl_env \<Rightarrow> agent_stream \<Rightarrow> bool" where
  "pauses_to_load E s \<longleftrightarrow> \<not> snd s \<and> (\<forall>u. ad_paused (snd (ad_flush (snd (each (conv E) (filter_map ev_of (fst s)) (ad_init\<lparr>ad_uuids := u\<rparr>))))))
     \<and> (case out_of (fst s) None of
          None \<Rightarrow> False
        | Some ro \<Rightarrow> ro_paused ro \<and> (\<exists>loader. he_loader E = Some loader \<and> list_ex (is_load loader) (ro_tools ro)
            \<and> (\<forall>t\<in>set (ro_tools ro). unresolved t \<longrightarrow> tx_name t = Some loader)))"

lemma load_resolves:
  assumes "he_loader E = Some loader" and "list_ex (is_load loader) (ro_tools ro)"
    and "\<forall>t\<in>set (ro_tools ro). unresolved t \<longrightarrow> tx_name t = Some loader" and "load_paused_tools E n ro = (handled, ro1)"
  shows "handled \<and> \<not> pending_external ro1"
proof -
  have r: "\<not> unresolved (t\<lparr>tx_result := Some x\<rparr>)" for t :: tool_exec and x by (simp add: unresolved_def)
  have l: "is_load loader t" if "t \<in> set (ro_tools ro)" "unresolved t" for t using that assms(3) by (simp add: is_load_def)
  show ?thesis using assms(1,2,4) l by (auto simp: load_paused_tools_def pending_external_def list_ex_iff r)
qed

lemma load_loop_ends:
  assumes "\<And>n ro. pauses_to_load E (he_cont E n ro)"
  shows "pauses_to_load E stream \<Longrightarrow> drive_loop E thread fuel n stream r = (out, r') \<Longrightarrow>
    out = Returned None \<and> (\<exists>es. hr_sent r' = es @ [limit_error]) \<and> hr_store r' = hr_store r"
proof (induction fuel arbitrary: n stream r)
  case 0
  then show ?case by auto
next
  case (Suc fuel)
  let ?ad = "ad_init\<lparr>ad_uuids := hr_uuids r\<rparr>"
  obtain es ad where e: "each (conv E) (filter_map ev_of (fst stream)) ?ad = (es, ad)" by (rule prod.exhaust)
  obtain es' ad' where f: "ad_flush ad = (es', ad')" by (rule prod.exhaust)
  from Suc.prems(1) obtain ro loader where p: "\<not> snd stream" "out_of (fst stream) None = Some ro" "ro_paused ro" "he_loader E = Some loader"
      "list_ex (is_load loader) (ro_tools ro)" "\<forall>t\<in>set (ro_tools ro). unresolved t \<longrightarrow> tx_name t = Some loader"
    by (auto simp: pauses_to_load_def split: option.splits)
  have "ad_paused (snd (ad_flush (snd (each (conv E) (filter_map ev_of (fst stream)) ?ad))))"
    using Suc.prems(1) by (simp add: pauses_to_load_def)
  then have pa: "ad_paused ad'" by (simp add: e f)
  obtain handled ro1 where l: "load_paused_tools E n ro = (handled, ro1)" by (rule prod.exhaust)
  from load_resolves [OF p(4,5,6) l] Suc.prems(2) p e f l pa
  have "drive_loop E thread fuel (Suc n) (he_cont E n ro1) (resolve_tools_for_continue E ((send_all (es @ es') r)\<lparr>hr_uuids := ad_uuids ad'\<rparr>)) = (out, r')"
    by (simp add: drain_stream_each Let_def)
  from Suc.IH [OF assms this] show ?case by simp
qed

text \<open>
  A model that keeps loading tools is stopped. If every round of a run pauses only to load tools, the
  drive ends after its twenty rounds with the error event \<open>auto_continue_limit\<close> as the last thing
  sent, reports no pause and stores nothing.
\<close>

theorem endless_loading_stopped:
  assumes "\<And>n ro. pauses_to_load E (he_cont E n ro)" and "pauses_to_load E stream"
    and "drive E thread n stream r = (out, r')"
  shows "out = Returned None \<and> last (hr_sent r') = limit_error \<and> hr_store r' = hr_store r"
proof -
  obtain r1 where d: "drive_loop E thread 20 n stream r = (out, r1)" and r': "r' = restore_tools r1"
    using assms(3) by (auto simp: drive_def split: prod.splits)
  from load_loop_ends [OF assms(1,2) d] show ?thesis by (auto simp: r')
qed

section \<open>Examples\<close>

definition load_call :: tool_exec where
  "load_call = \<lparr>tx_id = Some ''l'', tx_name = Some ''load_manager'', tx_args = None, tx_result = None, tx_external = True\<rparr>"

definition front_call :: tool_exec where
  "front_call = \<lparr>tx_id = Some ''f'', tx_name = Some ''pick'', tx_args = None, tx_result = None, tx_external = True\<rparr>"

definition paused_with :: "tool_exec list \<Rightarrow> run_output" where
  "paused_with ts = \<lparr>ro_run_id = Some ''t'', ro_tools = ts, ro_requirements = [], ro_paused = True, ro_messages = []\<rparr>"

definition pausing_stream :: "tool_exec list \<Rightarrow> agent_stream" where
  "pausing_stream ts = ([Ev (demo_event KRunContent ''t'' None (Some ''hi'') None), Ev ((demo_event KRunPaused ''t'' None None None)\<lparr>ag_tools := ts\<rparr>),
     Out (paused_with ts)], False)"

definition final_stream :: agent_stream where
  "final_stream = ([Ev (demo_event KRunContent ''t'' None (Some ''bye'') None), Ev (demo_event KRunCompleted ''t'' None None None)], False)"

definition hitl_demo :: "agent_stream \<Rightarrow> nat hitl_env" where
  "hitl_demo s = \<lparr>he_uuid = demo_uuid, he_loads = no_json, he_dumps = (\<lambda>v. ''{}''), he_loader = Some ''load_manager'',
     he_load = (\<lambda>n t. ''loaded''), he_front = [7], he_run = (\<lambda>t. s), he_cont = (\<lambda>n ro. s), he_partial = (\<lambda>a b m. ''partial''), he_reload = (\<lambda>ro. ro)\<rparr>"

definition runner_demo :: "paused_store \<Rightarrow> nat runner" where
  "runner_demo s = \<lparr>hr_store = s, hr_tools = Factory [1], hr_factory = None, hr_sent = [], hr_uuids = 0\<rparr>"

lemma plain_along:
  "list_all (\<lambda>e. ag_kind e \<noteq> KRunStarted \<and> ag_kind e \<noteq> KReasoningStarted \<and> ag_kind e \<noteq> KReasoningContentDelta) evs \<Longrightarrow> along orderly f evs ad"
  by (induction evs arbitrary: ad) (auto simp: orderly_def split: agno_kind.splits)

theorem driven_run_well_formed_witness:
  "fst (drive (hitl_demo final_stream) ''th'' 0 (pausing_stream [load_call]) (runner_demo [])) = Returned None
    \<and> (\<exists>g. accepts read_event (hr_sent (snd (drive (hitl_demo final_stream) ''th'' 0 (pausing_stream [load_call]) (runner_demo [])))) blank_sheet = Some g \<and> idle_sheet g)"
proof -
  let ?E = "hitl_demo final_stream"
  let ?d = "drive ?E ''th'' 0 (pausing_stream [load_call]) (runner_demo [])"
  have i: "inj (he_uuid ?E)" using demo_uuid_inj by (simp add: hitl_demo_def)
  have c: "calm ?E (he_cont ?E n ro)" for n ro
    unfolding calm_def by (intro allI plain_along) (simp add: hitl_demo_def final_stream_def demo_event_def)
  have p: "calm ?E (pausing_stream [load_call])"
    unfolding calm_def by (intro allI plain_along) (simp add: pausing_stream_def demo_event_def)
  have u: "hr_uuids (runner_demo [] :: nat runner) = 0" and s: "hr_sent (runner_demo [] :: nat runner) = []" by (simp_all add: runner_demo_def)
  have f: "fst ?d = Returned None" by code_simp
  then have "?d = (Returned None, snd ?d)" by (metis prod.collapse)
  from driven_run_well_formed [OF i c p u this] f s show ?thesis by auto
qed

theorem drive_gives_tools_back_witness:
  "hr_tools (snd (drive (hitl_demo final_stream) ''th'' 0 (pausing_stream [load_call]) (runner_demo []))) = Factory [1]"
proof -
  have n: "hr_factory (runner_demo [] :: nat runner) = None" by (simp add: runner_demo_def)
  from drive_gives_tools_back [OF n prod.collapse [symmetric]] show ?thesis by (simp add: runner_demo_def)
qed

definition loading_stream :: agent_stream where
  "loading_stream = ([Ev ((demo_event KRunPaused ''t'' None None None)\<lparr>ag_tools := [load_call]\<rparr>), Out (paused_with [load_call])], False)"

theorem endless_loading_stopped_witness:
  "last (hr_sent (snd (drive (hitl_demo loading_stream) ''th'' 0 loading_stream (runner_demo [])))) = limit_error"
proof -
  let ?E = "hitl_demo loading_stream"
  have p: "pauses_to_load ?E loading_stream"
    unfolding pauses_to_load_def
    by (simp add: loading_stream_def demo_event_def hitl_demo_def paused_with_def load_call_def is_load_def unresolved_def
        to_digitalkin_events_def handler_def handle_run_paused_def close_all_content_def close_all_reasoning_def ad_init_def
        ad_flush_def close_everything_def close_subagents_def note_closed_def truthy_def)
  have c: "pauses_to_load ?E (he_cont ?E n ro)" for n ro using p by (simp add: hitl_demo_def)
  from endless_loading_stopped [OF c p prod.collapse [symmetric]] show ?thesis by blast
qed

definition pending_demo :: paused_run where
  "pending_demo = \<lparr>pr_thread = ''th'', pr_run = ''t'', pr_pending = [''f'', ''g''], pr_payload = paused_with [front_call]\<rparr>"

theorem resume_gate_witness:
  "hr_store (snd (snd (try_resume (hitl_demo final_stream) \<lparr>in_thread = Some ''th'', in_run = Some ''2'', in_messages = [InTool ''f'' ''x'']\<rparr>
     (runner_demo [(''th'', pending_demo)])))) = [(''th'', pending_demo)]"
proof -
  let ?inp = "\<lparr>in_thread = Some ''th'', in_run = Some ''2'', in_messages = [InTool ''f'' ''x'']\<rparr>"
  let ?r = "runner_demo [(''th'', pending_demo)]"
  let ?t = "try_resume (hitl_demo final_stream) ?inp ?r"
  have i: "in_thread ?inp = Some ''th''" "''th'' \<noteq> ''''" by simp_all
  have t: "?t = (fst ?t, fst (snd ?t), snd (snd ?t))" by simp
  have g: "od_get (hr_store ?r) ''th'' = Some pending_demo" by (simp add: runner_demo_def od_get_Cons)
  have pp: "set (pr_pending pending_demo) = {''f'', ''g''}" by (simp add: pending_demo_def)
  have a: "answered {''f'', ''g''} [InTool ''f'' ''x''] = {''f''}" by (auto simp: answered_def)
  have ne: "{''f''} \<noteq> {''f'', ''g''}" by auto
  from resume_gate [OF i t] ne have "hr_store (snd (snd ?t)) = hr_store ?r" by (simp add: g pp a Let_def)
  then show ?thesis by (simp add: runner_demo_def)
qed

theorem pause_then_resume_witness:
  "\<not> pending_external (give_results (collect_results {''f''} [InTool ''f'' ''x'']) (paused_with [front_call]))"
proof -
  let ?ro = "paused_with [front_call]"
  let ?E = "hitl_demo final_stream"
  let ?s = "store_save ?ro ''th'' []"
  obtain rec where rec: "od_get (snd ?s) ''th'' = Some rec" "pr_pending rec = pending_ids ?ro" "pr_payload rec = ?ro" by (auto simp: store_save_def)
  have p: "pending_ids ?ro = [''f'']" by code_simp
  have l: "ro_tools (he_reload ?E ?ro) = ro_tools ?ro" and e: "he_reload ?E ?ro = ?ro" by (simp_all add: hitl_demo_def)
  have t: "\<forall>t\<in>set (ro_tools ?ro). unresolved t \<longrightarrow> truthy (tx_id t)" by (simp add: paused_with_def front_call_def truthy_def)
  have a: "answered (set (pr_pending rec)) [InTool ''f'' ''x''] = set (pr_pending rec)" by (auto simp: answered_def rec(2) p)
  from pause_then_resume [OF prod.collapse [symmetric] l t rec(1) a refl] show ?thesis by (simp add: rec p e)
qed

text \<open>
  An exception of the agent's stream ends the drive without a flush: a message that is open stays
  open for the client.
\<close>

lemma failed_stream_left_open:
  "fst (drive (hitl_demo final_stream) ''th'' 0 ([Ev (demo_event KRunContent ''t'' None (Some ''hi'') None)], True) (runner_demo [])) = Raised
    \<and> accepts read_event (hr_sent (snd (drive (hitl_demo final_stream) ''th'' 0 ([Ev (demo_event KRunContent ''t'' None (Some ''hi'') None)], True) (runner_demo [])))) blank_sheet
        = Some \<lparr>sh_text = {''''}, sh_reason = {}, sh_subs = {}, sh_used = {''''}\<rparr>"
  by code_simp

end
