(* ===== verification/Paging.thy ===== *)
theory Paging
  imports Prelude
begin

text \<open>
  Slices of Python lists and the contract of a listing: the services answer a query with one page of
  a longer list. A client that asks for one page after the other gets every item once, in order; the
  locale \<open>paged\<close> proves it from the one law every listing here has.
\<close>

section \<open>Slices\<close>

text \<open>\<open>xs[a:b]\<close>: an index below zero counts from the end, and both are cut to the list.\<close>

definition slice_index :: "int \<Rightarrow> nat \<Rightarrow> nat" where
  "slice_index i n = (if i < 0 then nat (max 0 (i + int n)) else min (nat i) n)"

definition py_slice :: "int \<Rightarrow> int \<Rightarrow> 'a list \<Rightarrow> 'a list" where
  "py_slice a b xs =
     (let i = slice_index a (length xs); j = slice_index b (length xs) in take (j - i) (drop i xs))"

lemma py_slice_page [simp]: "py_slice (int a) (int a + int k) xs = take k (drop a xs)"
  by (auto simp: py_slice_def slice_index_def nat_add_distrib min_def)

lemma set_py_slice: "set (py_slice a b xs) \<subseteq> set xs"
  by (auto simp: py_slice_def Let_def dest: in_set_takeD in_set_dropD)

lemma py_slice_map: "py_slice a b (map f xs) = map f (py_slice a b xs)"
  by (simp add: py_slice_def Let_def take_map drop_map)

section \<open>Interface: a listing in pages\<close>

definition pages :: "(nat \<Rightarrow> nat \<Rightarrow> 'a list) \<Rightarrow> nat \<Rightarrow> nat \<Rightarrow> 'a list" where
  "pages page n m = concat (map (\<lambda>i. page (i * n) n) [0..<m])"

locale paged =
  fixes page :: "'s \<Rightarrow> nat \<Rightarrow> nat \<Rightarrow> 'a list"
    and items :: "'s \<Rightarrow> 'a list"
  assumes page_law: "0 < n \<Longrightarrow> page s start n = take n (drop start (items s))"
begin

lemma pages_prefix: "0 < n \<Longrightarrow> pages (page s) n m = take (m * n) (items s)"
proof (induction m)
  case (Suc m)
  then show ?case using take_add [of "m * n" n "items s"] by (simp add: pages_def page_law add.commute)
qed (simp add: pages_def)

lemma pages_cover: "0 < n \<Longrightarrow> length (items s) \<le> m * n \<Longrightarrow> pages (page s) n m = items s"
  by (simp add: pages_prefix)

lemma page_within: "0 < n \<Longrightarrow> set (page s start n) \<subseteq> set (items s) \<and> length (page s start n) \<le> n"
  by (auto simp: page_law dest: in_set_takeD in_set_dropD)

lemma later_page_empty: "0 < n \<Longrightarrow> length (items s) \<le> start \<Longrightarrow> page s start n = []"
  by (simp add: page_law)

end

end
