(* ===== verification/Filesystem.thy ===== *)
theory Filesystem
  imports Storage Paging
begin

text \<open>
  The file service: the models of \<open>services/filesystem/filesystem_strategy.py\<close> and the local backend
  \<open>default_filesystem.py\<close>, which keeps the records in a dictionary and the contents in files of a
  temporary directory. The operating system is a record of functions: \<open>os_canon\<close> resolves a path,
  \<open>os_denied\<close> says which paths cannot be written, renamed to or removed, \<open>os_dir\<close> which are directories;
  directories can be made and files that exist can be read. The disk maps resolved paths to contents.
\<close>

section \<open>Records and files\<close>

record 'm file_record =
  fr_id :: string
  fr_context :: string
  fr_name :: string
  fr_file_type :: string
  fr_content_type :: string
  fr_size :: int
  fr_checksum :: string
  fr_metadata :: "'m option"
  fr_uri :: string
  fr_url :: string
  fr_status :: string
  fr_content :: "string option"
  fr_visibility :: Visibility

record file_filter =
  ff_names :: "string list option"
  ff_ids :: "string list option"
  ff_types :: "string list option"
  ff_status :: "string option"
  ff_content_type_prefix :: "string option"
  ff_min_size :: "int option"
  ff_max_size :: "int option"
  ff_prefix :: "string option"
  ff_content_type :: "string option"
  ff_visibilities :: "Visibility list option"

record 'm upload =
  ul_content :: string
  ul_name :: string
  ul_file_type :: string
  ul_content_type :: "string option"
  ul_metadata :: "'m option"
  ul_replace :: bool
  ul_visibility :: Visibility

record os =
  os_canon :: "string \<Rightarrow> string"
  os_denied :: "string \<Rightarrow> bool"
  os_dir :: "string \<Rightarrow> bool"
  os_digest :: "string \<Rightarrow> string"
  os_uuid :: "nat \<Rightarrow> string"

record 'm filesystem =
  fs_setup :: string
  fs_root :: string
  fs_db :: "(string, 'm file_record) odict"
  fs_disk :: "string \<Rightarrow> string option"
  fs_uuids :: nat

datatype fs_error = FileExists string | OsError string | NoSuchFile string | ListingFailed | DeletionFailed

definition path_join :: "string \<Rightarrow> string \<Rightarrow> string" where
  "path_join a b =
     (if starts_with b ''/'' then b
      else if a = '''' \<or> last a = CHR ''/'' then a @ b else a @ ''/'' @ b)"

definition context_dir :: "'m filesystem \<Rightarrow> string \<Rightarrow> string" where
  "context_dir fs context = path_join (fs_root fs) (map (\<lambda>c. if c = CHR '':'' then CHR ''_'' else c) context)"

definition setup_path :: "'m filesystem \<Rightarrow> string \<Rightarrow> string" where
  "setup_path fs name = path_join (context_dir fs (fs_setup fs)) name"

definition path_exists :: "os \<Rightarrow> string \<Rightarrow> 'm filesystem \<Rightarrow> bool" where
  "path_exists E p fs \<longleftrightarrow> os_dir E (os_canon E p) \<or> fs_disk fs (os_canon E p) \<noteq> None"

definition blocked :: "os \<Rightarrow> string \<Rightarrow> bool" where
  "blocked E p \<longleftrightarrow> os_denied E (os_canon E p) \<or> os_dir E (os_canon E p)"

section \<open>Upload\<close>

definition new_record :: "os \<Rightarrow> 'm upload \<Rightarrow> string \<Rightarrow> 'm filesystem \<Rightarrow> 'm file_record" where
  "new_record E f p fs =
     \<lparr>fr_id = os_uuid E (fs_uuids fs), fr_context = fs_setup fs, fr_name = ul_name f, fr_file_type = ul_file_type f,
      fr_content_type = (case ul_content_type f of None \<Rightarrow> ''application/octet-stream''
        | Some t \<Rightarrow> if t = '''' then ''application/octet-stream'' else t),
      fr_size = int (length (ul_content f)), fr_checksum = os_digest E (ul_content f), fr_metadata = ul_metadata f,
      fr_uri = os_canon E p, fr_url = os_canon E p, fr_status = ''ACTIVE'', fr_content = None, fr_visibility = ul_visibility f\<rparr>"

definition upload_one :: "os \<Rightarrow> 'm upload \<Rightarrow> 'm filesystem \<Rightarrow> (fs_error + 'm file_record) \<times> 'm filesystem" where
  "upload_one E f fs =
     (let p = setup_path fs (ul_name f) in
      if path_exists E p fs \<and> \<not> ul_replace f then (Inl (FileExists (ul_name f)), fs)
      else if blocked E p then (Inl (OsError p), fs)
      else let r = new_record E f p fs in
        (Inr r, fs\<lparr>fs_disk := (fs_disk fs)(os_canon E p \<mapsto> ul_content f), fs_db := od_set (fr_id r) r (fs_db fs),
                   fs_uuids := Suc (fs_uuids fs)\<rparr>))"

text \<open>\<open>single\<close>: a batch of one file raises; in a longer one a failure is only counted.\<close>

fun upload_loop ::
    "os \<Rightarrow> bool \<Rightarrow> 'm upload list \<Rightarrow> 'm filesystem \<Rightarrow> (fs_error + 'm file_record list \<times> nat \<times> nat) \<times> 'm filesystem" where
  "upload_loop E single [] fs = (Inr ([], 0, 0), fs)"
| "upload_loop E single (f # files) fs =
     (case upload_one E f fs of
        (Inl e, fs') \<Rightarrow>
          if single then (Inl e, fs')
          else (case upload_loop E single files fs' of
              (Inl e', fs'') \<Rightarrow> (Inl e', fs'')
            | (Inr (rs, up, failed), fs'') \<Rightarrow> (Inr (rs, up, Suc failed), fs''))
      | (Inr r, fs') \<Rightarrow> (case upload_loop E single files fs' of
              (Inl e', fs'') \<Rightarrow> (Inl e', fs'')
            | (Inr (rs, up, failed), fs'') \<Rightarrow> (Inr (r # rs, Suc up, failed), fs'')))"

definition upload_files ::
    "os \<Rightarrow> 'm upload list \<Rightarrow> 'm filesystem \<Rightarrow> (fs_error + 'm file_record list \<times> nat \<times> nat) \<times> 'm filesystem" where
  "upload_files E files fs = upload_loop E (length files = 1) files fs"

section \<open>Reading\<close>

text \<open>A filter field that is absent or empty does not filter; neither does a size of zero.\<close>

definition given :: "'a list option \<Rightarrow> 'a list" where
  "given x = (case x of None \<Rightarrow> [] | Some l \<Rightarrow> l)"

definition filter_match :: "file_filter \<Rightarrow> 'm file_record \<Rightarrow> bool" where
  "filter_match flt f \<longleftrightarrow>
     (given (ff_names flt) = [] \<or> fr_name f \<in> set (given (ff_names flt)))
     \<and> (given (ff_ids flt) = [] \<or> fr_id f \<in> set (given (ff_ids flt)))
     \<and> (given (ff_types flt) = [] \<or> fr_file_type f \<in> set (given (ff_types flt)))
     \<and> (given (ff_status flt) = [] \<or> fr_status f = given (ff_status flt))
     \<and> (given (ff_content_type_prefix flt) = [] \<or> starts_with (fr_content_type f) (given (ff_content_type_prefix flt)))
     \<and> (case ff_min_size flt of None \<Rightarrow> True | Some n \<Rightarrow> n = 0 \<or> n \<le> fr_size f)
     \<and> (case ff_max_size flt of None \<Rightarrow> True | Some n \<Rightarrow> n = 0 \<or> fr_size f \<le> n)
     \<and> (given (ff_prefix flt) = [] \<or> starts_with (fr_name f) (given (ff_prefix flt)))
     \<and> (given (ff_content_type flt) = [] \<or> fr_content_type f = given (ff_content_type flt))
     \<and> (given (ff_visibilities flt) = [] \<or> fr_visibility f \<in> set (given (ff_visibilities flt)))"

definition filter_db :: "file_filter \<Rightarrow> 'm filesystem \<Rightarrow> 'm file_record list" where
  "filter_db flt fs = filter (filter_match flt) (map snd (fs_db fs))"

text \<open>
  The contents are put into the records, which are the objects of the dictionary; a file that cannot
  be read ends the listing.
\<close>

fun with_contents :: "os \<Rightarrow> 'm file_record list \<Rightarrow> 'm filesystem \<Rightarrow> 'm file_record list option \<times> 'm filesystem" where
  "with_contents E [] fs = (Some [], fs)"
| "with_contents E (f # files) fs =
     (case fs_disk fs (os_canon E (fr_uri f)) of
        None \<Rightarrow> (None, fs)
      | Some c \<Rightarrow> (let f' = f\<lparr>fr_content := Some c\<rparr> in
          case with_contents E files (fs\<lparr>fs_db := od_set (fr_id f) f' (fs_db fs)\<rparr>) of
            (None, fs') \<Rightarrow> (None, fs')
          | (Some fs_out, fs') \<Rightarrow> (Some (f' # fs_out), fs')))"

definition get_files ::
    "os \<Rightarrow> file_filter \<Rightarrow> int \<Rightarrow> int \<Rightarrow> bool \<Rightarrow> 'm filesystem \<Rightarrow> (fs_error + 'm file_record list \<times> nat) \<times> 'm filesystem" where
  "get_files E flt list_size start include_content fs =
     (let filtered = filter_db flt fs in
      if filtered = [] then (Inr ([], 0), fs)
      else let page = py_slice start (start + list_size) filtered in
        if include_content then
          (case with_contents E page fs of
             (None, fs') \<Rightarrow> (Inl ListingFailed, fs')
           | (Some out, fs') \<Rightarrow> (Inr (out, length filtered), fs'))
        else (Inr (page, length filtered), fs))"

definition get_file :: "os \<Rightarrow> string \<Rightarrow> bool \<Rightarrow> 'm filesystem \<Rightarrow> (fs_error + 'm file_record) \<times> 'm filesystem" where
  "get_file E file_id include_content fs =
     (case (if file_id = '''' then None else od_get (fs_db fs) file_id) of
        None \<Rightarrow> (Inl (NoSuchFile file_id), fs)
      | Some f \<Rightarrow>
          if include_content \<and> path_exists E (fr_uri f) fs then
            (case fs_disk fs (os_canon E (fr_uri f)) of
               None \<Rightarrow> (Inl (OsError (fr_uri f)), fs)
             | Some c \<Rightarrow> (let f' = f\<lparr>fr_content := Some c\<rparr> in (Inr f', fs\<lparr>fs_db := od_set file_id f' (fs_db fs)\<rparr>)))
          else (Inr f, fs))"

section \<open>Update and deletion\<close>

record 'm file_update =
  fu_content :: "string option"
  fu_file_type :: "string option"
  fu_content_type :: "string option"
  fu_metadata :: "'m option"
  fu_new_name :: "string option"
  fu_status :: "string option"
  fu_visibility :: Visibility

definition or_old :: "'a option \<Rightarrow> 'a \<Rightarrow> 'a" where
  "or_old x old = (case x of None \<Rightarrow> old | Some v \<Rightarrow> v)"

definition updated_fields :: "os \<Rightarrow> 'm file_update \<Rightarrow> 'm file_record \<Rightarrow> 'm file_record" where
  "updated_fields E u f = f\<lparr>
     fr_size := (case fu_content u of None \<Rightarrow> fr_size f | Some c \<Rightarrow> int (length c)),
     fr_checksum := (case fu_content u of None \<Rightarrow> fr_checksum f | Some c \<Rightarrow> os_digest E c),
     fr_file_type := or_old (fu_file_type u) (fr_file_type f),
     fr_content_type := or_old (fu_content_type u) (fr_content_type f),
     fr_metadata := (case fu_metadata u of None \<Rightarrow> fr_metadata f | Some m \<Rightarrow> Some m),
     fr_status := or_old (fu_status u) (fr_status f),
     fr_visibility := (if fu_visibility u = VUnspecified then fr_visibility f else fu_visibility u)\<rparr>"

text \<open>
  The new content goes to a file named by the identifier, and it is that file a rename moves. The record
  is changed in place, so a rename that fails leaves the other changes made.
\<close>

definition update_file ::
    "os \<Rightarrow> string \<Rightarrow> 'm file_update \<Rightarrow> 'm filesystem \<Rightarrow> (fs_error + 'm file_record) \<times> 'm filesystem" where
  "update_file E file_id u fs =
     (case od_get (fs_db fs) file_id of
        None \<Rightarrow> (Inl (NoSuchFile file_id), fs)
      | Some f \<Rightarrow>
          (let p = setup_path fs file_id in
           if fu_content u \<noteq> None \<and> blocked E p then (Inl (OsError p), fs)
           else
             let f1 = updated_fields E u f;
                 disk1 = (case fu_content u of None \<Rightarrow> fs_disk fs | Some c \<Rightarrow> (fs_disk fs)(os_canon E p \<mapsto> c));
                 fs1 = fs\<lparr>fs_disk := disk1, fs_db := od_set file_id f1 (fs_db fs)\<rparr>
             in case fu_new_name u of
                  None \<Rightarrow> (Inr f1, fs1)
                | Some name \<Rightarrow>
                    (let q = setup_path fs name in
                     case disk1 (os_canon E p) of
                       None \<Rightarrow> (Inl (OsError p), fs1)
                     | Some c \<Rightarrow>
                         if blocked E q \<or> os_denied E (os_canon E p) then (Inl (OsError q), fs1)
                         else let f2 = f1\<lparr>fr_name := name, fr_uri := os_canon E q\<rparr> in
                           (Inr f2, fs1\<lparr>fs_disk := (disk1(os_canon E p := None))(os_canon E q \<mapsto> c),
                                       fs_db := od_set file_id f2 (fs_db fs)\<rparr>))))"

definition delete_one :: "os \<Rightarrow> bool \<Rightarrow> string \<Rightarrow> 'm file_record \<Rightarrow> 'm filesystem \<Rightarrow> bool \<times> 'm filesystem" where
  "delete_one E permanent file_id f fs =
     (if \<not> path_exists E (fr_uri f) fs then (False, fs)
      else if permanent then
        if blocked E (fr_uri f) then (False, fs)
        else (True, fs\<lparr>fs_disk := (fs_disk fs)(os_canon E (fr_uri f) := None), fs_db := od_del file_id (fs_db fs)\<rparr>)
      else (True, fs\<lparr>fs_db := od_set file_id (f\<lparr>fr_status := ''DELETED''\<rparr>) (fs_db fs)\<rparr>))"

text \<open>\<open>self.db[file_id]\<close> raises for an identifier that is gone, which ends the deletion.\<close>

fun delete_loop ::
    "os \<Rightarrow> bool \<Rightarrow> string list \<Rightarrow> (string, bool) odict \<times> nat \<times> nat \<Rightarrow> 'm filesystem
      \<Rightarrow> (fs_error + (string, bool) odict \<times> nat \<times> nat) \<times> 'm filesystem" where
  "delete_loop E permanent [] acc fs = (Inr acc, fs)"
| "delete_loop E permanent (i # ids) (results, deleted, failed) fs =
     (case od_get (fs_db fs) i of
        None \<Rightarrow> (Inl DeletionFailed, fs)
      | Some f \<Rightarrow>
          (case delete_one E permanent i f fs of
             (True, fs') \<Rightarrow> delete_loop E permanent ids (od_set i True results, Suc deleted, failed) fs'
           | (False, fs') \<Rightarrow> delete_loop E permanent ids (od_set i False results, deleted, Suc failed) fs'))"

definition delete_files ::
    "os \<Rightarrow> file_filter \<Rightarrow> bool \<Rightarrow> 'm filesystem \<Rightarrow> (fs_error + (string, bool) odict \<times> nat \<times> nat) \<times> 'm filesystem" where
  "delete_files E flt permanent fs = delete_loop E permanent (map fr_id (filter_db flt fs)) ([], 0, 0) fs"

section \<open>Operations in sequence\<close>

datatype 'm fs_op =
    Upload "'m upload list"
  | ListFiles file_filter int int bool
  | ReadFile string bool
  | Edit string "'m file_update"
  | Remove file_filter bool

fun fs_do :: "os \<Rightarrow> 'm fs_op \<Rightarrow> 'm filesystem \<Rightarrow> 'm filesystem" where
  "fs_do E (Upload files) fs = snd (upload_files E files fs)"
| "fs_do E (ListFiles flt n start inc) fs = snd (get_files E flt n start inc fs)"
| "fs_do E (ReadFile i inc) fs = snd (get_file E i inc fs)"
| "fs_do E (Edit i u) fs = snd (update_file E i u fs)"
| "fs_do E (Remove flt permanent) fs = snd (delete_files E flt permanent fs)"

text \<open>No upload over a file that is there, no new content and no new name by an update.\<close>

fun careful :: "'m fs_op \<Rightarrow> bool" where
  "careful (Upload files) \<longleftrightarrow> (\<forall>f\<in>set files. \<not> ul_replace f)"
| "careful (Edit i u) \<longleftrightarrow> fu_content u = None \<and> fu_new_name u = None"
| "careful _ \<longleftrightarrow> True"

fun purges :: "'m fs_op \<Rightarrow> bool" where
  "purges (Remove flt permanent) \<longleftrightarrow> permanent"
| "purges _ \<longleftrightarrow> False"

definition os_ok :: "os \<Rightarrow> bool" where
  "os_ok E \<longleftrightarrow> inj (os_uuid E) \<and> '''' \<notin> range (os_uuid E) \<and> (\<forall>p. os_canon E (os_canon E p) = os_canon E p)"

text \<open>Every record has its own file, whose content has the recorded size and checksum.\<close>

definition intact :: "os \<Rightarrow> 'm filesystem \<Rightarrow> 'm file_record \<Rightarrow> bool" where
  "intact E fs f \<longleftrightarrow> os_canon E (fr_uri f) = fr_uri f
    \<and> (\<exists>c. fs_disk fs (fr_uri f) = Some c \<and> fr_checksum f = os_digest E c \<and> fr_size f = int (length c))"

definition fs_sound :: "os \<Rightarrow> 'm filesystem \<Rightarrow> bool" where
  "fs_sound E fs \<longleftrightarrow> od_wf (fs_db fs)
    \<and> (\<forall>i f. od_get (fs_db fs) i = Some f \<longrightarrow> fr_id f = i \<and> i \<in> os_uuid E ` {..<fs_uuids fs} \<and> intact E fs f)
    \<and> (\<forall>i f j g. od_get (fs_db fs) i = Some f \<and> od_get (fs_db fs) j = Some g \<and> fr_uri f = fr_uri g \<longrightarrow> i = j)"

text \<open>The file \<open>i\<close> still has the content \<open>c\<close>; it can be gone only if \<open>gone_ok\<close>.\<close>

definition keeps :: "os \<Rightarrow> string \<Rightarrow> string \<Rightarrow> bool \<Rightarrow> 'm filesystem \<Rightarrow> bool" where
  "keeps E i c gone_ok fs \<longleftrightarrow> fs_sound E fs \<and> i \<in> os_uuid E ` {..<fs_uuids fs}
    \<and> (case od_get (fs_db fs) i of None \<Rightarrow> gone_ok | Some f \<Rightarrow> fs_disk fs (fr_uri f) = Some c)"

definition same_file :: "'m file_record \<Rightarrow> 'm file_record \<Rightarrow> bool" where
  "same_file f g \<longleftrightarrow> fr_id g = fr_id f \<and> fr_uri g = fr_uri f \<and> fr_checksum g = fr_checksum f \<and> fr_size g = fr_size f"

lemma fs_soundD:
  assumes "fs_sound E fs" and "od_get (fs_db fs) i = Some f"
  shows "fr_id f = i" and "i \<in> os_uuid E ` {..<fs_uuids fs}" and "os_canon E (fr_uri f) = fr_uri f"
    and "\<exists>c. fs_disk fs (fr_uri f) = Some c \<and> fr_checksum f = os_digest E c \<and> fr_size f = int (length c)"
  using assms by (simp_all add: fs_sound_def intact_def)

lemma fs_sound_uri:
  assumes "fs_sound E fs" and "od_get (fs_db fs) i = Some f" and "od_get (fs_db fs) j = Some g" and "fr_uri f = fr_uri g"
  shows "i = j"
proof -
  from assms(1) have "\<forall>i f j g. od_get (fs_db fs) i = Some f \<and> od_get (fs_db fs) j = Some g \<and> fr_uri f = fr_uri g \<longrightarrow> i = j"
    unfolding fs_sound_def by (elim conjE)
  from this [rule_format, of i f j g] assms(2-4) show ?thesis by (elim meta_mp) (intro conjI)
qed

lemma fs_soundI:
  assumes "od_wf (fs_db fs)"
    and "\<And>i f. od_get (fs_db fs) i = Some f \<Longrightarrow> fr_id f = i \<and> i \<in> os_uuid E ` {..<fs_uuids fs} \<and> intact E fs f"
    and "\<And>i f j g. od_get (fs_db fs) i = Some f \<Longrightarrow> od_get (fs_db fs) j = Some g \<Longrightarrow> fr_uri f = fr_uri g \<Longrightarrow> i = j"
  shows "fs_sound E fs"
  unfolding fs_sound_def
proof (intro conjI allI impI)
  fix i f j g
  assume "od_get (fs_db fs) i = Some f \<and> od_get (fs_db fs) j = Some g \<and> fr_uri f = fr_uri g"
  then show "i = j" using assms(3) by (elim conjE)
qed (simp_all add: assms(1,2))

lemma sound_put:
  assumes s: "fs_sound E fs" and db: "fs_db fs' = od_set k r (fs_db fs)" and uu: "fs_uuids fs \<le> fs_uuids fs'"
    and r: "fr_id r = k" "k \<in> os_uuid E ` {..<fs_uuids fs'}" "intact E fs' r"
    and other: "\<And>j g. od_get (fs_db fs) j = Some g \<Longrightarrow> j \<noteq> k \<Longrightarrow> fr_uri g \<noteq> fr_uri r \<and> fs_disk fs' (fr_uri g) = fs_disk fs (fr_uri g)"
  shows "fs_sound E fs'"
proof (rule fs_soundI)
  show "od_wf (fs_db fs')" using s by (simp add: fs_sound_def db)
next
  fix i f assume f: "od_get (fs_db fs') i = Some f"
  show "fr_id f = i \<and> i \<in> os_uuid E ` {..<fs_uuids fs'} \<and> intact E fs' f"
  proof (cases "i = k")
    case True
    with f r show ?thesis by (simp add: db)
  next
    case False
    with f have old: "od_get (fs_db fs) i = Some f" by (simp add: db)
    from fs_soundD [OF s old] other [OF old False] uu show ?thesis by (auto simp: intact_def)
  qed
next
  fix i f j g
  assume f: "od_get (fs_db fs') i = Some f" and g: "od_get (fs_db fs') j = Some g" and uri: "fr_uri f = fr_uri g"
  show "i = j"
  proof (cases "i = k \<or> j = k")
    case True
    then show ?thesis using f g uri other [of i f] other [of j g] by (cases "i = k"; cases "j = k") (simp_all add: db)
  next
    case False
    then show ?thesis using f g uri fs_sound_uri [OF s, of i f j g] by (simp add: db)
  qed
qed

lemma sound_touch:
  assumes s: "fs_sound E fs" and f: "od_get (fs_db fs) k = Some f" and same: "same_file f f'"
  shows "fs_sound E (fs\<lparr>fs_db := od_set k f' (fs_db fs)\<rparr>)"
proof (rule sound_put [OF s])
  show "fr_id f' = k" "intact E (fs\<lparr>fs_db := od_set k f' (fs_db fs)\<rparr>) f'" "k \<in> os_uuid E ` {..<fs_uuids (fs\<lparr>fs_db := od_set k f' (fs_db fs)\<rparr>)}"
    using fs_soundD [OF s f] same by (simp_all add: same_file_def intact_def)
  show "fr_uri g \<noteq> fr_uri f' \<and> fs_disk (fs\<lparr>fs_db := od_set k f' (fs_db fs)\<rparr>) (fr_uri g) = fs_disk fs (fr_uri g)"
    if "od_get (fs_db fs) j = Some g" "j \<noteq> k" for j g
    using fs_sound_uri [OF s that(1) f] that(2) same by (auto simp: same_file_def)
qed simp_all

lemma keeps_touch:
  assumes "keeps E i c b fs" and "od_get (fs_db fs) k = Some f" and "same_file f f'"
  shows "keeps E i c b (fs\<lparr>fs_db := od_set k f' (fs_db fs)\<rparr>)"
  using assms sound_touch [of E fs k f f'] by (auto simp: keeps_def same_file_def split: option.splits)

definition added :: "os \<Rightarrow> 'm upload \<Rightarrow> string \<Rightarrow> 'm filesystem \<Rightarrow> 'm filesystem" where
  "added E f p fs = fs\<lparr>fs_disk := (fs_disk fs)(os_canon E p \<mapsto> ul_content f),
     fs_db := od_set (fr_id (new_record E f p fs)) (new_record E f p fs) (fs_db fs), fs_uuids := Suc (fs_uuids fs)\<rparr>"

lemma new_id: "fr_id (new_record E f p fs) = os_uuid E (fs_uuids fs)" "fr_uri (new_record E f p fs) = os_canon E p"
  by (simp_all add: new_record_def)

lemma unused_id: "os_ok E \<Longrightarrow> i \<in> os_uuid E ` {..<n} \<Longrightarrow> i \<noteq> os_uuid E n"
  by (auto simp: os_ok_def inj_eq)

lemma sound_add:
  assumes E: "os_ok E" and s: "fs_sound E fs" and new: "fs_disk fs (os_canon E p) = None"
  shows "fs_sound E (added E f p fs)"
proof (rule sound_put [OF s])
  show "fs_db (added E f p fs) = od_set (os_uuid E (fs_uuids fs)) (new_record E f p fs) (fs_db fs)"
    by (simp add: added_def new_id)
  show "intact E (added E f p fs) (new_record E f p fs)"
    using E by (simp add: intact_def added_def new_record_def os_ok_def)
  show "fr_uri g \<noteq> fr_uri (new_record E f p fs) \<and> fs_disk (added E f p fs) (fr_uri g) = fs_disk fs (fr_uri g)"
    if "od_get (fs_db fs) j = Some g" for j g
    using fs_soundD(4) [OF s that] new by (auto simp: added_def new_id)
qed (simp_all add: added_def new_id)

lemma keeps_add:
  assumes "os_ok E" and k: "keeps E i c b fs" and "fs_disk fs (os_canon E p) = None"
  shows "keeps E i c b (added E f p fs)"
proof -
  have i: "i \<noteq> os_uuid E (fs_uuids fs)" using unused_id [OF assms(1), of i "fs_uuids fs"] k by (simp add: keeps_def)
  have "fs_sound E (added E f p fs)" using sound_add [OF assms(1) _ assms(3)] k by (simp add: keeps_def)
  moreover have "i \<in> os_uuid E ` {..<Suc (fs_uuids fs)}" using k by (auto simp: keeps_def)
  ultimately show ?thesis using k i assms(3) by (auto simp: keeps_def added_def new_id split: option.splits)
qed

lemma sound_remove:
  assumes s: "fs_sound E fs" and f: "od_get (fs_db fs) k = Some f"
    and fs': "fs' = fs\<lparr>fs_disk := (fs_disk fs)(os_canon E (fr_uri f) := None), fs_db := od_del k (fs_db fs)\<rparr>"
  shows "fs_sound E fs'"
proof -
  have "fr_uri g \<noteq> fr_uri f" if "od_get (fs_db fs) j = Some g" "j \<noteq> k" for j g
    using fs_sound_uri [OF s that(1) f] that(2) by auto
  then show ?thesis using s fs_soundD(3) [OF s f] by (auto simp: fs_sound_def fs' intact_def split: if_splits)
qed

lemma keeps_remove:
  assumes k: "keeps E i c True fs" and f: "od_get (fs_db fs) k = Some f"
    and fs': "fs' = fs\<lparr>fs_disk := (fs_disk fs)(os_canon E (fr_uri f) := None), fs_db := od_del k (fs_db fs)\<rparr>"
  shows "keeps E i c True fs'"
proof -
  have s: "fs_sound E fs" using k by (simp add: keeps_def)
  have "fr_uri g \<noteq> fr_uri f" if "od_get (fs_db fs) i = Some g" "i \<noteq> k" for g
    using fs_sound_uri [OF s that(1) f] that(2) by auto
  then show ?thesis
    using k sound_remove [OF s f fs'] fs_soundD(3) [OF s f] by (auto simp: keeps_def fs' split: option.splits)
qed

section \<open>Every careful operation keeps the files\<close>

lemma upload_one_cases:
  assumes "upload_one E f fs = (res, fs')" and "\<not> ul_replace f"
  obtains e where "res = Inl e" and "fs' = fs"
  | p where "res = Inr (new_record E f p fs)" and "fs_disk fs (os_canon E p) = None" and "fs' = added E f p fs" and "p = setup_path fs (ul_name f)"
proof -
  let ?p = "setup_path fs (ul_name f)"
  show ?thesis
  proof (cases "path_exists E ?p fs \<or> blocked E ?p")
    case True
    then have "isl res \<and> fs' = fs" using assms by (cases "path_exists E ?p fs") (auto simp: upload_one_def Let_def)
    then show ?thesis using that(1) by (cases res) simp_all
  next
    case False
    then have "res = Inr (new_record E f ?p fs)" "fs' = added E f ?p fs" using assms by (simp_all add: upload_one_def added_def Let_def)
    moreover have "fs_disk fs (os_canon E ?p) = None" using False by (simp add: path_exists_def)
    ultimately show ?thesis using that(2) [of ?p] by simp
  qed
qed

lemma keeps_upload_one: "os_ok E \<Longrightarrow> \<not> ul_replace f \<Longrightarrow> keeps E i c b fs \<Longrightarrow> keeps E i c b (snd (upload_one E f fs))"
proof (cases "upload_one E f fs")
  case (Pair res fs')
  assume "os_ok E" "\<not> ul_replace f" "keeps E i c b fs"
  note hyps = this
  from upload_one_cases [OF Pair hyps(2)] show ?thesis
  proof cases
    case 1
    with Pair hyps(3) show ?thesis by simp
  next
    case (2 p)
    with Pair keeps_add [OF hyps(1,3) 2(2)] show ?thesis by simp
  qed
qed

lemma keeps_upload_loop:
  "os_ok E \<Longrightarrow> \<forall>f\<in>set files. \<not> ul_replace f \<Longrightarrow> keeps E i c b fs \<Longrightarrow> keeps E i c b (snd (upload_loop E single files fs))"
proof (induction E single files fs rule: upload_loop.induct)
  case (2 E single f files fs)
  have k: "keeps E i c b (snd (upload_one E f fs))" using "2.prems" keeps_upload_one [of E f i c b fs] by simp
  show ?case
  proof (cases "upload_one E f fs")
    case (Pair res fs')
    then show ?thesis
      using k "2.IH"(1) [of res fs'] "2.IH"(2) [of res fs'] "2.prems"
      by (cases res) (auto split: prod.splits sum.splits)
  qed
qed simp

definition current :: "'m filesystem \<Rightarrow> 'm file_record \<Rightarrow> bool" where
  "current fs f \<longleftrightarrow> (\<exists>f0. od_get (fs_db fs) (fr_id f) = Some f0 \<and> same_file f0 f)"

lemma keeps_with_contents:
  "\<forall>f\<in>set files. current fs f \<Longrightarrow> keeps E i c b fs \<Longrightarrow> keeps E i c b (snd (with_contents E files fs))"
proof (induction E files fs rule: with_contents.induct)
  case (2 E f files fs)
  show ?case
  proof (cases "fs_disk fs (os_canon E (fr_uri f))")
    case (Some d)
    let ?f = "f\<lparr>fr_content := Some d\<rparr>" and ?fs = "fs\<lparr>fs_db := od_set (fr_id f) (f\<lparr>fr_content := Some d\<rparr>) (fs_db fs)\<rparr>"
    obtain f0 where f0: "od_get (fs_db fs) (fr_id f) = Some f0" "same_file f0 ?f"
      using "2.prems"(1) by (auto simp: current_def same_file_def)
    have "current ?fs g" if g: "g \<in> set files" for g
    proof (cases "fr_id g = fr_id f")
      case True
      obtain g0 where "od_get (fs_db fs) (fr_id g) = Some g0" "same_file g0 g"
        using "2.prems"(1) g by (auto simp: current_def)
      with True f0 show ?thesis by (simp add: current_def same_file_def)
    next
      case False
      have "current fs g" using "2.prems"(1) g by simp
      with False show ?thesis by (simp add: current_def)
    qed
    then have cur: "\<forall>g\<in>set files. current ?fs g" ..
    have k: "keeps E i c b ?fs" by (rule keeps_touch [OF "2.prems"(2) f0])
    have ih: "keeps E i c b (snd (with_contents E files ?fs))" by (rule "2.IH" [OF Some refl cur k])
    obtain out fs' where w: "with_contents E files ?fs = (out, fs')" by (cases "with_contents E files ?fs")
    from ih w Some show ?thesis by (cases out) (simp_all add: Let_def)
  qed (use "2.prems" in simp)
qed simp

lemma filter_db_current: "fs_sound E fs \<Longrightarrow> f \<in> set (filter_db flt fs) \<Longrightarrow> od_get (fs_db fs) (fr_id f) = Some f \<and> filter_match flt f"
proof -
  assume s: "fs_sound E fs" and f: "f \<in> set (filter_db flt fs)"
  from f obtain k where k: "(k, f) \<in> set (fs_db fs)" and m: "filter_match flt f" by (auto simp: filter_db_def)
  from s have "od_wf (fs_db fs)" by (simp add: fs_sound_def)
  from k od_get_Some_iff [OF this] have "od_get (fs_db fs) k = Some f" by blast
  with fs_soundD(1) [OF s this] m show ?thesis by simp
qed

lemma keeps_get_files:
  assumes "keeps E i c b fs"
  shows "keeps E i c b (snd (get_files E flt n start inc fs))"
proof -
  have s: "fs_sound E fs" using assms by (simp add: keeps_def)
  have "\<forall>f\<in>set (py_slice start (start + n) (filter_db flt fs)). current fs f"
  proof
    fix f assume "f \<in> set (py_slice start (start + n) (filter_db flt fs))"
    with set_py_slice have "f \<in> set (filter_db flt fs)" by (rule subsetD)
    from filter_db_current [OF s this] show "current fs f" by (simp add: current_def same_file_def)
  qed
  from keeps_with_contents [OF this assms] show ?thesis
    by (auto simp: get_files_def Let_def assms split: prod.splits option.splits)
qed

lemma keeps_get_file:
  assumes "keeps E i c b fs"
  shows "keeps E i c b (snd (get_file E j inc fs))"
proof (cases "od_get (fs_db fs) j")
  case (Some f)
  from keeps_touch [OF assms Some, of "f\<lparr>fr_content := Some d\<rparr>" for d] assms show ?thesis
    by (auto simp: get_file_def Let_def Some same_file_def split: option.splits)
qed (simp add: get_file_def assms)

lemma keeps_update:
  assumes "keeps E i c b fs" and "fu_content u = None" and "fu_new_name u = None"
  shows "keeps E i c b (snd (update_file E j u fs))"
proof (cases "od_get (fs_db fs) j")
  case (Some f)
  from keeps_touch [OF assms(1) Some, of "updated_fields E u f"] show ?thesis
    by (simp add: update_file_def Let_def Some assms(2,3) same_file_def updated_fields_def)
qed (simp add: update_file_def assms)

lemma keeps_delete_one:
  assumes "keeps E i c b fs" and "permanent \<Longrightarrow> b" and "od_get (fs_db fs) j = Some f"
  shows "keeps E i c b (snd (delete_one E permanent j f fs))"
proof -
  have "keeps E i c b (fs\<lparr>fs_db := od_set j (f\<lparr>fr_status := ''DELETED''\<rparr>) (fs_db fs)\<rparr>)"
    by (rule keeps_touch [OF assms(1,3)]) (simp add: same_file_def)
  moreover have "permanent \<Longrightarrow> keeps E i c b (fs\<lparr>fs_disk := (fs_disk fs)(os_canon E (fr_uri f) := None), fs_db := od_del j (fs_db fs)\<rparr>)"
    using keeps_remove [OF _ assms(3) refl, of E i c] assms(1,2) by simp
  ultimately show ?thesis by (simp add: delete_one_def assms(1))
qed

lemma keeps_delete_loop:
  "keeps E i c b fs \<Longrightarrow> (permanent \<Longrightarrow> b) \<Longrightarrow> keeps E i c b (snd (delete_loop E permanent ids acc fs))"
proof (induction ids arbitrary: acc fs)
  case (Cons j ids)
  obtain results deleted failed where acc: "acc = (results, deleted, failed)" by (cases acc)
  show ?case
  proof (cases "od_get (fs_db fs) j")
    case (Some f)
    obtain res fs' where d: "delete_one E permanent j f fs = (res, fs')" by (cases "delete_one E permanent j f fs")
    from keeps_delete_one [of E i c b fs permanent j f] Cons.prems Some d have "keeps E i c b fs'" by simp
    from Cons.IH [OF this Cons.prems(2)] Some d show ?thesis by (cases res) (simp_all add: acc)
  qed (simp add: acc Cons.prems)
qed simp

lemma keeps_do:
  assumes "os_ok E" and "keeps E i c b fs" and "careful op" and "purges op \<Longrightarrow> b"
  shows "keeps E i c b (fs_do E op fs)"
  using assms
  by (cases op) (simp_all add: upload_files_def keeps_upload_loop keeps_get_files keeps_get_file keeps_update delete_files_def keeps_delete_loop)

lemma keeps_run:
  assumes "os_ok E" and "keeps E i c b fs" and "\<forall>op\<in>set ops. careful op \<and> (purges op \<longrightarrow> b)"
  shows "keeps E i c b (fold (fs_do E) ops fs)"
  using assms(2,3)
proof (induction ops arbitrary: fs)
  case (Cons op ops)
  then have "keeps E i c b (fs_do E op fs)" by (intro keeps_do [OF assms(1)]) simp_all
  moreover have "\<forall>op\<in>set ops. careful op \<and> (purges op \<longrightarrow> b)" using Cons.prems(2) by simp
  ultimately show ?case using Cons.IH [of "fs_do E op fs"] by simp
qed simp

lemma id_nonempty:
  assumes "os_ok E" and "fs_sound E fs" and "od_get (fs_db fs) i = Some f"
  shows "i \<noteq> ''''"
proof -
  have "i \<in> range (os_uuid E)" using fs_soundD(2) [OF assms(2,3)] by blast
  moreover have "'''' \<notin> range (os_uuid E)" using assms(1) by (simp add: os_ok_def)
  ultimately show ?thesis by metis
qed

lemma keeps_read:
  assumes "os_ok E" and "keeps E i c b fs" and "od_get (fs_db fs) i = Some f"
  shows "\<exists>f'. fst (get_file E i True fs) = Inr f' \<and> fr_content f' = Some c \<and> fr_checksum f' = os_digest E c \<and> fr_size f' = int (length c)"
proof -
  have s: "fs_sound E fs" using assms(2) by (simp add: keeps_def)
  have "i \<noteq> ''''" by (rule id_nonempty [OF assms(1) s assms(3)])
  moreover have d: "fs_disk fs (fr_uri f) = Some c" using assms(2,3) by (simp add: keeps_def)
  moreover have "fr_checksum f = os_digest E c \<and> fr_size f = int (length c)" using fs_soundD(4) [OF s assms(3)] d by simp
  ultimately show ?thesis
    using assms(3) fs_soundD(3) [OF s assms(3)] by (simp add: get_file_def path_exists_def Let_def)
qed

section \<open>What a client may rely on\<close>

text \<open>
  C17: An uploaded file stays readable. After any further operations that do not overwrite (uploads without
  replacement, listings with or without contents, reads, changes of fields, deletions), the
  identifier the upload returned still gives the uploaded bytes with the recorded size and checksum,
  unless the file was deleted permanently; and every other file is intact as well.
\<close>

theorem uploaded_file_readable:
  assumes "os_ok E" and "fs_sound E fs" and "\<not> ul_replace f"
    and "upload_files E [f] fs = (Inr ([r], 1, 0), fs1)"
    and "\<forall>op\<in>set ops. careful op" and "fs' = fold (fs_do E) ops fs1"
  shows "fs_sound E fs'
    \<and> (case od_get (fs_db fs') (fr_id r) of
         None \<Rightarrow> \<exists>op\<in>set ops. purges op
       | Some g \<Rightarrow> \<exists>f'. fst (get_file E (fr_id r) True fs') = Inr f' \<and> fr_content f' = Some (ul_content f)
           \<and> fr_checksum f' = os_digest E (ul_content f) \<and> fr_size f' = int (length (ul_content f)))"
proof -
  let ?b = "\<exists>op\<in>set ops. purges op"
  have up: "upload_one E f fs = (Inr r, fs1)"
    using assms(4) by (auto simp: upload_files_def split: prod.splits sum.splits)
  have "keeps E (fr_id r) (ul_content f) ?b fs1"
  proof (cases rule: upload_one_cases [OF up assms(3)])
    case (2 p)
    then show ?thesis using sound_add [OF assms(1,2) 2(2)] by (simp add: keeps_def added_def new_id)
  qed simp
  then have k: "keeps E (fr_id r) (ul_content f) ?b fs'"
    unfolding assms(6) by (rule keeps_run [OF assms(1)]) (use assms(5) in blast)
  show ?thesis
  proof (cases "od_get (fs_db fs') (fr_id r)")
    case None
    with k show ?thesis by (simp add: keeps_def)
  next
    case (Some g)
    with keeps_read [OF assms(1) k Some] k show ?thesis by (simp add: keeps_def)
  qed
qed

definition os_demo :: os where
  "os_demo = \<lparr>os_canon = (\<lambda>p. p), os_denied = (\<lambda>p. False), os_dir = (\<lambda>p. False), os_digest = (\<lambda>c. c), os_uuid = (\<lambda>n. replicate (Suc n) CHR ''f'')\<rparr>"

definition fs_demo :: "nat filesystem" where
  "fs_demo = \<lparr>fs_setup = ''s:1'', fs_root = ''/tmp'', fs_db = [], fs_disk = Map.empty, fs_uuids = 0\<rparr>"

definition upload_demo :: "string \<Rightarrow> string \<Rightarrow> nat upload" where
  "upload_demo name c = \<lparr>ul_content = c, ul_name = name, ul_file_type = ''CODE'', ul_content_type = None, ul_metadata = None,
     ul_replace = False, ul_visibility = VPrivate\<rparr>"

definition filter_demo :: file_filter where
  "filter_demo = \<lparr>ff_names = None, ff_ids = None, ff_types = None, ff_status = None, ff_content_type_prefix = None, ff_min_size = None,
     ff_max_size = None, ff_prefix = Some ''a'', ff_content_type = None, ff_visibilities = None\<rparr>"

lemma os_demo_ok: "os_ok os_demo"
proof -
  have "inj (\<lambda>n. replicate (Suc n) CHR ''f'')" by (rule injI) (metis length_replicate nat.inject)
  then show ?thesis by (auto simp: os_ok_def os_demo_def)
qed

theorem uploaded_file_readable_witness:
  "\<exists>f'. fst (get_file os_demo ''f'' True
        (fold (fs_do os_demo) [Upload [upload_demo ''b.py'' ''two'', upload_demo ''a.py'' ''three''], ListFiles filter_demo 10 0 True, Remove filter_demo False]
          (snd (upload_files os_demo [upload_demo ''a.py'' ''one''] fs_demo)))) = Inr f'
      \<and> fr_content f' = Some ''one''"
proof -
  let ?f = "upload_demo ''a.py'' ''one''"
  let ?ops = "[Upload [upload_demo ''b.py'' ''two'', upload_demo ''a.py'' ''three''], ListFiles filter_demo 10 0 True, Remove filter_demo False]"
  let ?fs1 = "snd (upload_files os_demo [?f] fs_demo)"
  let ?r = "new_record os_demo ?f ''/tmp/s_1/a.py'' fs_demo"
  have s: "fs_sound os_demo fs_demo" by (simp add: fs_sound_def fs_demo_def)
  have "fst (upload_files os_demo [?f] fs_demo) = Inr ([?r], 1, 0)" by code_simp
  then have u: "upload_files os_demo [?f] fs_demo = (Inr ([?r], 1, 0), ?fs1)" by (simp add: prod_eq_iff)
  have c: "\<forall>op\<in>set ?ops. careful op" by (simp add: upload_demo_def)
  have i: "fr_id ?r = ''f''" by code_simp
  have n: "\<not> (\<exists>op\<in>set ?ops. purges op)" by simp
  have l: "ul_content ?f = ''one''" and r: "\<not> ul_replace ?f" by (simp_all add: upload_demo_def)
  from uploaded_file_readable [OF os_demo_ok s r u c refl] n show ?thesis
    unfolding i l by (auto split: option.splits)
qed

text \<open>
  New content is not what is read. \<open>update_file\<close> writes it to a file named by the identifier and records
  its size and checksum, but the record keeps pointing to the file of the upload: a read gives the
  old bytes under the new checksum.
\<close>

theorem updated_content_not_read:
  assumes "fs_sound E fs" and "os_ok E" and "od_get (fs_db fs) i = Some f"
    and "fu_content u = Some c" and "fu_new_name u = None" and "os_canon E (setup_path fs i) \<noteq> fr_uri f"
    and "update_file E i u fs = (Inr g, fs')"
  shows "fr_checksum g = os_digest E c
    \<and> (\<exists>h old. fst (get_file E i True fs') = Inr h \<and> fs_disk fs (fr_uri f) = Some old \<and> fr_content h = Some old \<and> fr_checksum h = os_digest E c)"
proof -
  obtain old where old: "fs_disk fs (fr_uri f) = Some old" using fs_soundD(4) [OF assms(1,3)] by blast
  have i: "i \<noteq> ''''" by (rule id_nonempty [OF assms(2,1,3)])
  have nb: "\<not> blocked E (setup_path fs i)" using assms(3-5,7) by (auto simp: update_file_def Let_def split: if_splits)
  then have "g = updated_fields E u f" and fs': "fs' = fs\<lparr>fs_disk := (fs_disk fs)(os_canon E (setup_path fs i) \<mapsto> c), fs_db := od_set i g (fs_db fs)\<rparr>"
    using assms(3-5,7) by (auto simp: update_file_def Let_def)
  then have g: "fr_checksum g = os_digest E c" "fr_uri g = fr_uri f" by (simp_all add: updated_fields_def assms(4))
  have "fs_disk fs' (os_canon E (fr_uri g)) = Some old" "od_get (fs_db fs') i = Some g"
    using old assms(6) g(2) fs_soundD(3) [OF assms(1,3)] by (simp_all add: fs')
  then have "fst (get_file E i True fs') = Inr (g\<lparr>fr_content := Some old\<rparr>)"
    using i by (simp add: get_file_def path_exists_def Let_def)
  with g old show ?thesis by simp
qed

definition edit_demo :: "string \<Rightarrow> nat file_update" where
  "edit_demo c = \<lparr>fu_content = Some c, fu_file_type = None, fu_content_type = None, fu_metadata = None, fu_new_name = None, fu_status = None,
     fu_visibility = VUnspecified\<rparr>"

theorem updated_content_not_read_witness:
  "\<exists>h. fst (get_file os_demo ''f'' True (snd (update_file os_demo ''f'' (edit_demo ''new'')
        (snd (upload_files os_demo [upload_demo ''a.py'' ''one''] fs_demo))))) = Inr h \<and> fr_content h = Some ''one'' \<and> fr_checksum h = ''new''"
proof -
  let ?f = "upload_demo ''a.py'' ''one''"
  let ?fs = "snd (upload_files os_demo [?f] fs_demo)"
  let ?r = "new_record os_demo ?f ''/tmp/s_1/a.py'' fs_demo"
  let ?u = "edit_demo ''new''"
  have fs: "?fs = added os_demo ?f ''/tmp/s_1/a.py'' fs_demo"
    by (simp add: upload_files_def upload_one_def path_exists_def blocked_def os_demo_def fs_demo_def setup_path_def context_dir_def
          path_join_def starts_with_def upload_demo_def added_def Let_def)
  have s: "fs_sound os_demo ?fs" unfolding fs by (rule sound_add [OF os_demo_ok]) (simp_all add: fs_sound_def fs_demo_def)
  have r: "od_get (fs_db ?fs) ''f'' = Some ?r" by code_simp
  have p: "os_canon os_demo (setup_path ?fs ''f'') \<noteq> fr_uri ?r" by code_simp
  have "fst (update_file os_demo ''f'' ?u ?fs) = Inr (updated_fields os_demo ?u ?r)" by code_simp
  then have u: "update_file os_demo ''f'' ?u ?fs = (Inr (updated_fields os_demo ?u ?r), snd (update_file os_demo ''f'' ?u ?fs))"
    by (simp add: prod_eq_iff)
  have o: "fs_disk ?fs (fr_uri ?r) = Some ''one''" by code_simp
  have d: "os_digest os_demo c = c" for c by (simp add: os_demo_def)
  from updated_content_not_read [OF s os_demo_ok r _ _ p u, of "''new''"] show ?thesis
    by (auto simp: edit_demo_def o d)
qed

text \<open>A rename alone fails, for no file is named by the identifier, and leaves the other changes in the record.\<close>

lemma rename_fails_halfway:
  assumes "od_get (fs_db fs) i = Some f" and "fu_content u = None" and "fu_new_name u = Some name"
    and "fs_disk fs (os_canon E (setup_path fs i)) = None"
  shows "fst (update_file E i u fs) = Inl (OsError (setup_path fs i))
    \<and> od_get (fs_db (snd (update_file E i u fs))) i = Some (updated_fields E u f)"
  using assms by (simp add: update_file_def Let_def)

text \<open>
  The listing is exact page by page: pages of any size put together give every record that matches
  the filter once, in the order of upload, and each answer carries their total number.
\<close>

definition file_page :: "os \<times> file_filter \<times> 'm filesystem \<Rightarrow> nat \<Rightarrow> nat \<Rightarrow> 'm file_record list" where
  "file_page s start n = (case s of (E, flt, fs) \<Rightarrow>
     (case fst (get_files E flt (int n) (int start) False fs) of Inl e \<Rightarrow> [] | Inr (out, m) \<Rightarrow> out))"

interpretation fl: paged file_page "\<lambda>(E, flt, fs). filter_db flt fs"
  by unfold_locales (auto simp: file_page_def get_files_def Let_def)

theorem file_pages_complete:
  assumes "0 < n" and "length (filter_db flt fs) \<le> m * n"
  shows "pages (file_page (E, flt, fs)) n m = filter_db flt fs
    \<and> (\<forall>start. fst (get_files E flt n start False fs) = Inr (py_slice start (start + n) (filter_db flt fs), length (filter_db flt fs)))"
  using fl.pages_cover [of n "(E, flt, fs)" m] assms(1,2)
  by (simp add: get_files_def Let_def py_slice_def)

theorem file_pages_complete_witness:
  "pages (file_page (os_demo, filter_demo, snd (upload_files os_demo [upload_demo ''a'' ''1'', upload_demo ''b'' ''2'', upload_demo ''aa'' ''3''] fs_demo))) 1 2
    = filter_db filter_demo (snd (upload_files os_demo [upload_demo ''a'' ''1'', upload_demo ''b'' ''2'', upload_demo ''aa'' ''3''] fs_demo))"
proof -
  let ?fs = "snd (upload_files os_demo [upload_demo ''a'' ''1'', upload_demo ''b'' ''2'', upload_demo ''aa'' ''3''] fs_demo)"
  have "length (filter_db filter_demo ?fs) = 2" by code_simp
  then show ?thesis using file_pages_complete [of 1 filter_demo ?fs 2 os_demo] by simp
qed

end
