(* ===== verification/Setup_Service.thy ===== *)
theory Setup_Service
  imports Storage Struct_Value Paging
begin

text \<open>
  Setups and their versions: the models of \<open>services/setup/setup_strategy.py\<close> and the in-memory backend
  \<open>default_setup.py\<close>. The entries of the argument dictionaries are arguments, an absent one its default; \<open>nid n\<close> is the
  \<open>n\<close>-th identifier drawn and \<open>now\<close> the clock. Versions are never changed once made, so the version a
  setup shares with its history is a value here.
\<close>

section \<open>State\<close>

datatype RegistrySetupStatus =
    SetupUnspecified | SetupDraft | SetupWaitingForApproval | SetupReady | SetupPaused | SetupFailed
  | SetupArchived | SetupNeedsConfiguration | SetupConfigurationFailed | SetupConfigurationSucceeded

record setup_version =
  sv_id :: string
  sv_setup :: string
  sv_version :: string
  sv_content :: pstruct
  sv_created :: real

record setup_data =
  sd_id :: string
  sd_name :: pvalue
  sd_organisation :: string
  sd_owner :: string
  sd_module :: string
  sd_current :: setup_version
  sd_status :: RegistrySetupStatus
  sd_visibility :: Visibility

record version_page =
  vp_versions :: "setup_version list"
  vp_total :: nat
  vp_current :: string

record setup_store =
  su_setups :: "(string, setup_data) odict"
  su_versions :: "(string, setup_version list) odict"
  su_ids :: nat

datatype setup_error =
    NoSetup string | InvalidSetup | NameRequired | InvalidUpdate | InvalidScope string | NoVersion string string

definition su_init :: setup_store where
  "su_init = \<lparr>su_setups = [], su_versions = [], su_ids = 0\<rparr>"

text \<open>The truth value of a JSON value, as \<open>not\<close> and \<open>or\<close> take it.\<close>

fun py_true :: "pvalue \<Rightarrow> bool" where
  "py_true PNull = False"
| "py_true (PNum x) = (x \<noteq> 0)"
| "py_true (PBool b) = b"
| "py_true (PStr s) = (s \<noteq> [])"
| "py_true (PList xs) = (xs \<noteq> [])"
| "py_true (PStruct fs) = (fs \<noteq> [])"

section \<open>Operations\<close>

definition get_or_raise :: "string \<Rightarrow> setup_store \<Rightarrow> setup_error + setup_data" where
  "get_or_raise sid s = (case od_get (su_setups s) sid of None \<Rightarrow> Inl (NoSetup sid) | Some d \<Rightarrow> Inr d)"

definition su_history :: "setup_data \<Rightarrow> setup_store \<Rightarrow> setup_version list" where
  "su_history d s = (case od_get (su_versions s) (sd_id d) of None \<Rightarrow> [sd_current d] | Some h \<Rightarrow> h)"

definition new_setup :: "string \<Rightarrow> pvalue \<Rightarrow> setup_version \<Rightarrow> setup_data" where
  "new_setup sid name v =
     \<lparr>sd_id = sid, sd_name = name, sd_organisation = ''local'', sd_owner = ''local'', sd_module = ''local'',
      sd_current = v, sd_status = SetupReady, sd_visibility = VPrivate\<rparr>"

text \<open>\<open>SetupData(...)\<close>, whose validation refuses a name that is no text and a content that is no object.\<close>

definition make_setup ::
    "(nat \<Rightarrow> string) \<Rightarrow> real \<Rightarrow> pvalue \<Rightarrow> pvalue \<Rightarrow> setup_store \<Rightarrow> (setup_error + setup_data) \<times> setup_store" where
  "make_setup nid now name content s =
     (let sid = nid (su_ids s); s1 = s\<lparr>su_ids := su_ids s + 2\<rparr>
      in case (name, content) of
           (PStr n, PStruct fs) \<Rightarrow>
             if n = '''' then (Inl NameRequired, s1)
             else let d = new_setup sid name \<lparr>sv_id = nid (Suc (su_ids s)), sv_setup = sid, sv_version = ''1.0.0'', sv_content = fs, sv_created = now\<rparr>
                  in (Inr d, s1\<lparr>su_setups := od_set sid d (su_setups s), su_versions := od_set sid [sd_current d] (su_versions s)\<rparr>)
         | _ \<Rightarrow> (Inl InvalidSetup, s1))"

definition create_setup ::
    "(nat \<Rightarrow> string) \<Rightarrow> real \<Rightarrow> pvalue \<Rightarrow> pvalue \<Rightarrow> setup_store \<Rightarrow> (setup_error + setup_data) \<times> setup_store" where
  "create_setup nid now name content s = make_setup nid now name (if py_true content then content else PStruct []) s"

definition next_version :: "(nat \<Rightarrow> string) \<Rightarrow> real \<Rightarrow> setup_data \<Rightarrow> pstruct \<Rightarrow> setup_store \<Rightarrow> setup_version" where
  "next_version nid now d fs s =
     \<lparr>sv_id = nid (su_ids s), sv_setup = sd_id d, sv_version = ''1.0.'' @ py_str (int (length (su_history d s))), sv_content = fs, sv_created = now\<rparr>"

definition update_setup ::
    "(nat \<Rightarrow> string) \<Rightarrow> real \<Rightarrow> string \<Rightarrow> pvalue \<Rightarrow> pvalue \<Rightarrow> bool \<Rightarrow> setup_store \<Rightarrow> (setup_error + setup_data) \<times> setup_store" where
  "update_setup nid now sid name content set_as_current s =
     (case get_or_raise sid s of
        Inl e \<Rightarrow> (Inl e, s)
      | Inr d \<Rightarrow> (case content of
            PStruct fs \<Rightarrow>
              if \<not> py_true name then (Inl InvalidUpdate, s)
              else let v = next_version nid now d fs s;
                       d' = d\<lparr>sd_name := name, sd_current := (if set_as_current then v else sd_current d)\<rparr>
                   in (Inr d', s\<lparr>su_setups := od_set sid d' (su_setups s), su_versions := od_set (sd_id d) (su_history d s @ [v]) (su_versions s),
                                su_ids := Suc (su_ids s)\<rparr>)
          | _ \<Rightarrow> (Inl InvalidUpdate, s)))"

definition delete_setup :: "string \<Rightarrow> setup_store \<Rightarrow> bool \<times> setup_store" where
  "delete_setup sid s =
     (if \<not> od_has (su_setups s) sid then (False, s)
      else (True, s\<lparr>su_setups := od_del sid (su_setups s), su_versions := od_del sid (su_versions s)\<rparr>))"

definition scope_of :: "string \<Rightarrow> Visibility option" where
  "scope_of x = (let scope = lower x in
     if scope = ''public'' then Some VPublic
     else if scope = ''private'' then Some VPrivate
     else if scope = ''internal'' then Some VInternal else None)"

definition change_visibility :: "string \<Rightarrow> string \<Rightarrow> setup_store \<Rightarrow> (setup_error + setup_data) \<times> setup_store" where
  "change_visibility sid visibility s =
     (case get_or_raise sid s of
        Inl e \<Rightarrow> (Inl e, s)
      | Inr d \<Rightarrow> (case scope_of visibility of
          None \<Rightarrow> (Inl (InvalidScope visibility), s)
        | Some v \<Rightarrow> (let d' = d\<lparr>sd_visibility := v\<rparr> in (Inr d', s\<lparr>su_setups := od_set sid d' (su_setups s)\<rparr>))))"

definition or_int :: "int option \<Rightarrow> int \<Rightarrow> int" where
  "or_int x n = (case x of None \<Rightarrow> n | Some k \<Rightarrow> if k = 0 then n else k)"

definition list_setup_versions :: "string \<Rightarrow> int option \<Rightarrow> int option \<Rightarrow> setup_store \<Rightarrow> setup_error + version_page" where
  "list_setup_versions sid limit start s =
     (case get_or_raise sid s of
        Inl e \<Rightarrow> Inl e
      | Inr d \<Rightarrow>
          (let h = rev (su_history d s); i = or_int start 0
           in Inr \<lparr>vp_versions = py_slice i (i + or_int limit 20) h, vp_total = length h, vp_current = sv_id (sd_current d)\<rparr>))"

definition set_current_setup_version :: "string \<Rightarrow> string \<Rightarrow> setup_store \<Rightarrow> (setup_error + setup_data) \<times> setup_store" where
  "set_current_setup_version sid vid s =
     (case get_or_raise sid s of
        Inl e \<Rightarrow> (Inl e, s)
      | Inr d \<Rightarrow> (case find (\<lambda>v. sv_id v = vid) (su_history d s) of
          None \<Rightarrow> (Inl (NoVersion vid sid), s)
        | Some v \<Rightarrow> (let d' = d\<lparr>sd_current := v\<rparr> in (Inr d', s\<lparr>su_setups := od_set sid d' (su_setups s)\<rparr>))))"

datatype setup_op =
    CreateSetup pvalue pvalue
  | UpdateSetup string pvalue pvalue bool
  | DeleteSetup string
  | ChangeVisibility string string
  | SetCurrent string string

fun su_do :: "(nat \<Rightarrow> string) \<Rightarrow> real \<times> setup_op \<Rightarrow> setup_store \<Rightarrow> setup_store" where
  "su_do nid (now, CreateSetup name content) s = snd (create_setup nid now name content s)"
| "su_do nid (now, UpdateSetup sid name content cur) s = snd (update_setup nid now sid name content cur s)"
| "su_do nid (now, DeleteSetup sid) s = snd (delete_setup sid s)"
| "su_do nid (now, ChangeVisibility sid v) s = snd (change_visibility sid v s)"
| "su_do nid (now, SetCurrent sid vid) s = snd (set_current_setup_version sid vid s)"

section \<open>The versions of a setup\<close>

text \<open>
  A history is numbered from \<open>1.0.0\<close> without gaps, belongs to its setup, has an identifier of its own for each
  version, and contains the current version.
\<close>

definition history_ok :: "(nat \<Rightarrow> string) \<Rightarrow> nat \<Rightarrow> setup_data \<Rightarrow> setup_version list \<Rightarrow> bool" where
  "history_ok nid n d h \<longleftrightarrow> sd_current d \<in> set h \<and> distinct (map sv_id h) \<and> sv_id ` set h \<subseteq> nid ` {..<n}
    \<and> (\<forall>k<length h. sv_setup (h ! k) = sd_id d \<and> sv_version (h ! k) = ''1.0.'' @ py_str (int k))"

definition setup_ok :: "(nat \<Rightarrow> string) \<Rightarrow> setup_store \<Rightarrow> string \<Rightarrow> bool" where
  "setup_ok nid s sid \<longleftrightarrow> (case od_get (su_setups s) sid of
       None \<Rightarrow> od_get (su_versions s) sid = None
     | Some d \<Rightarrow> sd_id d = sid \<and> sid \<in> nid ` {..<su_ids s}
         \<and> (case od_get (su_versions s) sid of None \<Rightarrow> False | Some h \<Rightarrow> history_ok nid (su_ids s) d h))"

definition su_ok :: "(nat \<Rightarrow> string) \<Rightarrow> setup_store \<Rightarrow> bool" where
  "su_ok nid s \<longleftrightarrow> (\<forall>sid. setup_ok nid s sid)"

lemma su_ok_at: "su_ok nid s \<Longrightarrow> setup_ok nid s sid"
  by (simp add: su_ok_def)

lemma su_okD:
  assumes "su_ok nid s" and "od_get (su_setups s) sid = Some d"
  shows "sd_id d = sid" and "sid \<in> nid ` {..<su_ids s}" and "od_get (su_versions s) sid = Some (su_history d s)"
    and "history_ok nid (su_ids s) d (su_history d s)"
  using su_ok_at [OF assms(1), of sid] assms(2)
  by (simp_all add: setup_ok_def su_history_def split: option.splits)

lemma used_more: "i \<in> nid ` {..<n} \<Longrightarrow> n \<le> m \<Longrightarrow> i \<in> nid ` {..<m}" for n m :: nat
  by auto

lemma history_ok_more: "history_ok nid n d h \<Longrightarrow> n \<le> m \<Longrightarrow> history_ok nid m d h"
  using used_more [of _ nid n m] by (simp add: history_ok_def subset_iff)

lemma su_ok_put:
  assumes "su_ok nid s" and "su_setups s' = od_set sid d (su_setups s)" and "su_versions s' = od_set sid h (su_versions s)"
    and "su_ids s \<le> su_ids s'" and "sd_id d = sid" and "sid \<in> nid ` {..<su_ids s'}" and "history_ok nid (su_ids s') d h"
  shows "su_ok nid s'"
  unfolding su_ok_def
proof
  fix k
  show "setup_ok nid s' k"
  proof (cases "k = sid")
    case True
    with assms(2,3,5-7) show ?thesis by (simp add: setup_ok_def)
  next
    case False
    with su_ok_at [OF assms(1), of k] history_ok_more [OF _ assms(4)] used_more [OF _ assms(4), of k nid] assms(2,3) show ?thesis
      by (simp add: setup_ok_def split: option.splits)
  qed
qed

lemma su_ok_ids: "su_ok nid s \<Longrightarrow> su_ids s \<le> n \<Longrightarrow> su_ok nid (s\<lparr>su_ids := n\<rparr>)"
proof -
  assume ok: "su_ok nid s" and n: "su_ids s \<le> n"
  have "setup_ok nid (s\<lparr>su_ids := n\<rparr>) k" for k
    using su_ok_at [OF ok, of k] history_ok_more [OF _ n] used_more [OF _ n, of k nid]
    by (simp add: setup_ok_def split: option.splits)
  then show ?thesis by (simp add: su_ok_def)
qed

text \<open>A change of a setup that leaves its history and takes the current version from it.\<close>

lemma su_ok_change:
  assumes "su_ok nid s" and "od_get (su_setups s) sid = Some d" and "sd_id d' = sd_id d" and "sd_current d' \<in> set (su_history d s)"
  shows "su_ok nid (s\<lparr>su_setups := od_set sid d' (su_setups s)\<rparr>)"
proof -
  note ok = su_okD [OF assms(1,2)]
  have h: "history_ok nid (su_ids s) d' (su_history d s)" using ok(4) assms(3,4) by (simp add: history_ok_def)
  have "setup_ok nid (s\<lparr>su_setups := od_set sid d' (su_setups s)\<rparr>) k" for k
    using su_ok_at [OF assms(1), of k] ok h assms(3) by (simp add: setup_ok_def split: option.splits)
  then show ?thesis by (simp add: su_ok_def)
qed

lemma su_ok_delete: "su_ok nid s \<Longrightarrow> su_ok nid (snd (delete_setup sid s))"
proof -
  assume ok: "su_ok nid s"
  show ?thesis
  proof (cases "od_has (su_setups s) sid")
    case True
    have "setup_ok nid (snd (delete_setup sid s)) k" for k
      using su_ok_at [OF ok, of k] True by (cases "k = sid") (simp_all add: setup_ok_def delete_setup_def split: option.splits)
    then show ?thesis by (simp add: su_ok_def)
  qed (simp add: delete_setup_def ok)
qed

lemma create_cases:
  obtains n fs where "p = (PStr n, PStruct fs)" | "\<nexists>n fs. p = (PStr n, PStruct fs)"
  by blast

lemma su_ok_make: "su_ok nid s \<Longrightarrow> su_ok nid (snd (make_setup nid now name content s))"
proof -
  assume ok: "su_ok nid s"
  have more: "su_ok nid (s\<lparr>su_ids := su_ids s + 2\<rparr>)" by (rule su_ok_ids [OF ok]) simp
  show ?thesis
  proof (cases "(name, content)" rule: create_cases)
    case (1 n fs)
    let ?v = "\<lparr>sv_id = nid (Suc (su_ids s)), sv_setup = nid (su_ids s), sv_version = ''1.0.0'', sv_content = fs, sv_created = now\<rparr>"
    let ?d = "new_setup (nid (su_ids s)) name ?v"
    let ?s = "s\<lparr>su_ids := su_ids s + 2, su_setups := od_set (nid (su_ids s)) ?d (su_setups s), su_versions := od_set (nid (su_ids s)) [?v] (su_versions s)\<rparr>"
    have "py_str 0 = ''0''" by code_simp
    then have h: "history_ok nid (su_ids ?s) ?d [?v]" by (simp add: history_ok_def new_setup_def)
    have "nid (su_ids s) \<in> nid ` {..<su_ids ?s}" by simp
    then have "su_ok nid ?s" using su_ok_put [OF ok _ _ _ _ _ h, of "nid (su_ids s)"] by (simp add: new_setup_def)
    moreover have "snd (make_setup nid now name content s) = (if n = '''' then s\<lparr>su_ids := su_ids s + 2\<rparr> else ?s)"
      using 1 by (simp add: make_setup_def Let_def new_setup_def)
    ultimately show ?thesis using more by simp
  next
    case 2
    then have "snd (make_setup nid now name content s) = s\<lparr>su_ids := su_ids s + 2\<rparr>"
      by (cases name; cases content) (simp_all add: make_setup_def Let_def)
    with more show ?thesis by simp
  qed
qed

lemma history_ok_snoc:
  assumes "inj nid" and "history_ok nid n d h" and "sv_id v = nid n" and "sv_setup v = sd_id d"
    and "sv_version v = ''1.0.'' @ py_str (int (length h))" and "sd_id d' = sd_id d" and "sd_current d' \<in> {v, sd_current d}"
  shows "history_ok nid (Suc n) d' (h @ [v])"
proof -
  have "nid n \<notin> nid ` {..<n}" using assms(1) by (auto simp: inj_eq)
  with assms(2,3) have "sv_id v \<notin> sv_id ` set h" by (auto simp: history_ok_def)
  moreover have "sv_id ` set (h @ [v]) \<subseteq> nid ` {..<Suc n}" using assms(2,3) by (auto simp: history_ok_def lessThan_Suc)
  moreover have "sv_setup ((h @ [v]) ! k) = sd_id d' \<and> sv_version ((h @ [v]) ! k) = ''1.0.'' @ py_str (int k)" if "k < Suc (length h)" for k
    using that assms(2,4-6) by (cases "k = length h") (simp_all add: history_ok_def nth_append)
  ultimately show ?thesis using assms(2,7) by (auto simp: history_ok_def)
qed

lemma su_ok_update: "inj nid \<Longrightarrow> su_ok nid s \<Longrightarrow> su_ok nid (snd (update_setup nid now sid name content cur s))"
proof -
  assume inj: "inj nid" and ok: "su_ok nid s"
  let ?s = "snd (update_setup nid now sid name content cur s)"
  show ?thesis
  proof (cases "od_get (su_setups s) sid")
    case None
    with ok show ?thesis by (simp add: update_setup_def get_or_raise_def)
  next
    case (Some d)
    note okd = su_okD [OF ok Some]
    show ?thesis
    proof (cases "py_true name \<and> (\<exists>fs. content = PStruct fs)")
      case True
      then obtain fs where c: "content = PStruct fs" by blast
      let ?v = "next_version nid now d fs s"
      let ?d = "d\<lparr>sd_name := name, sd_current := (if cur then ?v else sd_current d)\<rparr>"
      have s': "?s = s\<lparr>su_setups := od_set sid ?d (su_setups s), su_versions := od_set sid (su_history d s @ [?v]) (su_versions s), su_ids := Suc (su_ids s)\<rparr>"
        using True c Some okd(1) by (simp add: update_setup_def get_or_raise_def Let_def)
      have h: "history_ok nid (Suc (su_ids s)) ?d (su_history d s @ [?v])"
        by (rule history_ok_snoc [OF inj okd(4)]) (simp_all add: next_version_def)
      have "sid \<in> nid ` {..<Suc (su_ids s)}" by (rule used_more [OF okd(2)]) simp
      with h show ?thesis unfolding s' by (intro su_ok_put [OF ok]) (simp_all add: okd(1))
    next
      case False
      then have "?s = s" using Some by (auto simp: update_setup_def get_or_raise_def split: pvalue.split)
      with ok show ?thesis by simp
    qed
  qed
qed

lemma su_ok_visibility: "su_ok nid s \<Longrightarrow> su_ok nid (snd (change_visibility sid v s))"
proof (cases "od_get (su_setups s) sid")
  case (Some d)
  assume ok: "su_ok nid s"
  have "sd_current d \<in> set (su_history d s)" using su_okD(4) [OF ok Some] by (simp add: history_ok_def)
  with su_ok_change [OF ok Some, of "d\<lparr>sd_visibility := w\<rparr>" for w] ok show ?thesis
    by (simp add: change_visibility_def get_or_raise_def Some Let_def split: option.split)
qed (simp add: change_visibility_def get_or_raise_def)

lemma su_ok_set_current: "su_ok nid s \<Longrightarrow> su_ok nid (snd (set_current_setup_version sid vid s))"
proof (cases "od_get (su_setups s) sid")
  case (Some d)
  assume ok: "su_ok nid s"
  show ?thesis
  proof (cases "find (\<lambda>v. sv_id v = vid) (su_history d s)")
    case (Some v)
    then have "v \<in> set (su_history d s)" by (auto simp: find_Some_iff)
    with su_ok_change [OF ok \<open>od_get (su_setups s) sid = Some d\<close>, of "d\<lparr>sd_current := v\<rparr>"] Some show ?thesis
      by (simp add: set_current_setup_version_def get_or_raise_def \<open>od_get (su_setups s) sid = Some d\<close> Let_def)
  qed (simp add: set_current_setup_version_def get_or_raise_def Some ok)
qed (simp add: set_current_setup_version_def get_or_raise_def)

lemma su_ok_do: "inj nid \<Longrightarrow> su_ok nid s \<Longrightarrow> su_ok nid (su_do nid op s)"
  by (cases "(nid, op, s)" rule: su_do.cases)
    (simp_all add: create_setup_def su_ok_make su_ok_update su_ok_delete su_ok_visibility su_ok_set_current)

lemma su_ok_run: "inj nid \<Longrightarrow> su_ok nid s \<Longrightarrow> su_ok nid (fold (su_do nid) ops s)"
  by (induction ops arbitrary: s) (simp_all add: su_ok_do)

section \<open>No version is lost\<close>

text \<open>The setup is there and its history extends \<open>h\<close>.\<close>

definition grown :: "string \<Rightarrow> setup_version list \<Rightarrow> setup_store \<Rightarrow> bool" where
  "grown sid h s \<longleftrightarrow> od_has (su_setups s) sid \<and> (case od_get (su_versions s) sid of None \<Rightarrow> False | Some h' \<Rightarrow> take (length h) h' = h)"

lemma prefix_snoc: "take (length h) xs = h \<Longrightarrow> take (length h) (xs @ ys) = h"
  by (metis append_take_drop_id append_eq_conv_conj append.assoc)

lemma find_unique: "distinct (map f xs) \<Longrightarrow> v \<in> set xs \<Longrightarrow> find (\<lambda>w. f w = f v) xs = Some v"
  by (induction xs) auto

lemma grown_put:
  assumes "su_setups s' = od_set k d (su_setups s)" and "su_versions s' = od_set k h' (su_versions s)" and "grown sid h s"
    and "k = sid \<Longrightarrow> take (length h) h' = h"
  shows "grown sid h s'"
  using assms by (auto simp: grown_def od_has_def split: option.splits)

lemma grown_change: "grown sid h s \<Longrightarrow> grown sid h (s\<lparr>su_setups := od_set k d (su_setups s)\<rparr>)"
  by (simp add: grown_def od_has_def)

lemma grown_make:
  assumes "inj nid" and "su_ok nid s" and "grown sid h s"
  shows "grown sid h (snd (make_setup nid now name content s))"
proof -
  obtain d where "od_get (su_setups s) sid = Some d" using assms(3) by (auto simp: grown_def od_has_def)
  from su_okD(2) [OF assms(2) this] assms(1) have new: "sid \<noteq> nid (su_ids s)" by (auto simp: inj_eq)
  show ?thesis
    by (cases name; cases content) (use assms(3) new in \<open>simp_all add: make_setup_def Let_def grown_def od_has_def\<close>)
qed

lemma grown_update:
  assumes "su_ok nid s" and "grown sid h s"
  shows "grown sid h (snd (update_setup nid now k name content cur s))"
proof (cases "od_get (su_setups s) k")
  case None
  with assms show ?thesis by (simp add: update_setup_def get_or_raise_def)
next
  case (Some d)
  note ok = su_okD [OF assms(1) Some]
  show ?thesis
  proof (cases content)
    case (PStruct fs)
    let ?v = "next_version nid now d fs s"
    let ?s = "s\<lparr>su_setups := od_set k (d\<lparr>sd_name := name, sd_current := (if cur then ?v else sd_current d)\<rparr>) (su_setups s),
       su_versions := od_set k (su_history d s @ [?v]) (su_versions s), su_ids := Suc (su_ids s)\<rparr>"
    have "take (length h) (su_history d s @ [?v]) = h" if "k = sid"
      using assms(2) ok(3) that by (intro prefix_snoc) (simp add: grown_def)
    then have "grown sid h ?s" by (intro grown_put [OF _ _ assms(2)]) (simp_all del: take_append)
    with assms(2) show ?thesis by (simp add: update_setup_def get_or_raise_def Some PStruct Let_def ok(1))
  qed (simp_all add: update_setup_def get_or_raise_def Some assms(2))
qed

lemma grown_do:
  assumes "inj nid" and "su_ok nid s" and "grown sid h s" and "snd op \<noteq> DeleteSetup sid"
  shows "grown sid h (su_do nid op s)"
proof (cases "(nid, op, s)" rule: su_do.cases)
  case (3 nid now k s)
  then show ?thesis using assms(3,4) by (simp add: delete_setup_def grown_def od_has_def)
qed (use assms in \<open>auto simp: create_setup_def grown_make grown_update grown_change change_visibility_def set_current_setup_version_def Let_def
       split: sum.split option.split\<close>)

lemma grown_run:
  "inj nid \<Longrightarrow> su_ok nid s \<Longrightarrow> grown sid h s \<Longrightarrow> DeleteSetup sid \<notin> snd ` set ops \<Longrightarrow> grown sid h (fold (su_do nid) ops s)"
  by (induction ops arbitrary: s) (auto simp: su_ok_do grown_do)

text \<open>
  C12: No version is ever lost. Whatever is done to the setups afterwards, short of deleting this one, its
  history only grows at the end, its numbering and ownership stay right, and any version it ever had can be
  made current again, with the content it was made with.
\<close>

theorem version_never_lost:
  assumes "inj nid" and "su_ok nid s" and "od_get (su_setups s) sid = Some d" and "v \<in> set (su_history d s)"
    and "DeleteSetup sid \<notin> snd ` set ops" and "s' = fold (su_do nid) ops s"
  shows "su_ok nid s'
    \<and> (\<exists>d'. od_get (su_setups s') sid = Some d' \<and> take (length (su_history d s)) (su_history d' s') = su_history d s)
    \<and> (\<exists>d''. fst (set_current_setup_version sid (sv_id v) s') = Inr d'' \<and> sd_current d'' = v)"
proof -
  have ok: "su_ok nid s'" unfolding assms(6) by (rule su_ok_run [OF assms(1,2)])
  have "grown sid (su_history d s) s" using assms(3) su_okD(3) [OF assms(2,3)] by (simp add: grown_def od_has_def)
  then have g: "grown sid (su_history d s) s'" unfolding assms(6) by (rule grown_run [OF assms(1,2) _ assms(5)])
  then obtain d' where d': "od_get (su_setups s') sid = Some d'" by (auto simp: grown_def od_has_def)
  have pre: "take (length (su_history d s)) (su_history d' s') = su_history d s"
    using g su_okD(3) [OF ok d'] by (simp add: grown_def)
  then have v: "v \<in> set (su_history d' s')" using assms(4) by (metis in_set_takeD)
  have "distinct (map sv_id (su_history d' s'))" using su_okD(4) [OF ok d'] by (simp add: history_ok_def)
  from find_unique [OF this v] have "find (\<lambda>w. sv_id w = sv_id v) (su_history d' s') = Some v" .
  with d' have "fst (set_current_setup_version sid (sv_id v) s') = Inr (d'\<lparr>sd_current := v\<rparr>)"
    by (simp add: set_current_setup_version_def get_or_raise_def Let_def)
  with ok d' pre show ?thesis by auto
qed

definition nid_demo :: "nat \<Rightarrow> string" where
  "nid_demo n = replicate n CHR ''i''"

lemma nid_demo_inj: "inj nid_demo"
  by (rule injI) (metis length_replicate nid_demo_def)

definition su_demo :: setup_store where
  "su_demo = fold (su_do nid_demo) [(1, CreateSetup (PStr ''bot'') (PStruct [(''model'', PStr ''a'')])),
     (2, UpdateSetup '''' (PStr ''bot'') (PStruct [(''model'', PStr ''b'')]) True)] su_init"

lemma su_demo_ok: "su_ok nid_demo su_demo"
  unfolding su_demo_def by (rule su_ok_run [OF nid_demo_inj]) (simp add: su_ok_def setup_ok_def su_init_def)

theorem version_never_lost_witness:
  "\<exists>d. fst (set_current_setup_version '''' ''i'' (su_do nid_demo (3, UpdateSetup '''' (PStr ''bot2'') (PStruct []) True) su_demo)) = Inr d
      \<and> sv_content (sd_current d) = [(''model'', PStr ''a'')]"
proof -
  let ?d = "the (od_get (su_setups su_demo) '''')"
  let ?v = "hd (su_history ?d su_demo)"
  have d: "od_get (su_setups su_demo) '''' = Some ?d" by code_simp
  have v: "?v \<in> set (su_history ?d su_demo)" by code_simp
  have i: "sv_id ?v = ''i''" "sv_content ?v = [(''model'', PStr ''a'')]" by code_simp+
  let ?ops = "[(3, UpdateSetup '''' (PStr ''bot2'') (PStruct []) True)] :: (real \<times> setup_op) list"
  have n: "DeleteSetup '''' \<notin> snd ` set ?ops" by simp
  from version_never_lost [OF nid_demo_inj su_demo_ok d v n refl] i show ?thesis by auto
qed

section \<open>Pages of versions\<close>

definition version_page_of :: "string \<times> setup_store \<Rightarrow> nat \<Rightarrow> nat \<Rightarrow> setup_version list" where
  "version_page_of x start n = (case x of (sid, s) \<Rightarrow>
     (case list_setup_versions sid (Some (int n)) (Some (int start)) s of Inl e \<Rightarrow> [] | Inr p \<Rightarrow> vp_versions p))"

definition newest_first :: "string \<times> setup_store \<Rightarrow> setup_version list" where
  "newest_first x = (case x of (sid, s) \<Rightarrow> (case od_get (su_setups s) sid of None \<Rightarrow> [] | Some d \<Rightarrow> rev (su_history d s)))"

interpretation vl: paged version_page_of newest_first
proof
  fix n start :: nat and x :: "string \<times> setup_store"
  assume n: "0 < n"
  obtain sid s where x: "x = (sid, s)" by (cases x)
  have "or_int (Some (int start)) 0 = int start" "or_int (Some (int n)) 20 = int n" using n by (simp_all add: or_int_def)
  then show "version_page_of x start n = take n (drop start (newest_first x))"
    by (simp add: version_page_of_def newest_first_def x list_setup_versions_def get_or_raise_def Let_def split: option.split)
qed

text \<open>
  A client that asks for page after page sees every version of a setup once, the newest first, and each
  page says how many there are and which one is current, a version of the list.
\<close>

theorem version_pages_complete:
  assumes "su_ok nid s" and "od_get (su_setups s) sid = Some d" and "0 < n" and "length (su_history d s) \<le> m * n"
    and "list_setup_versions sid limit start s = Inr p"
  shows "pages (version_page_of (sid, s)) n m = rev (su_history d s)
    \<and> vp_total p = length (su_history d s) \<and> set (vp_versions p) \<subseteq> set (su_history d s) \<and> vp_current p \<in> sv_id ` set (su_history d s)"
proof -
  have "pages (version_page_of (sid, s)) n m = rev (su_history d s)"
    using vl.pages_cover [of n "(sid, s)" m] assms(2-4) by (simp add: newest_first_def)
  moreover have "sd_current d \<in> set (su_history d s)" using su_okD(4) [OF assms(1,2)] by (simp add: history_ok_def)
  ultimately show ?thesis
    using assms(2,5) set_py_slice [of "or_int start 0" "or_int start 0 + or_int limit 20" "rev (su_history d s)"]
    by (auto simp: list_setup_versions_def get_or_raise_def Let_def)
qed

theorem version_pages_complete_witness:
  "map sv_version (pages (version_page_of ('''', su_demo)) 1 2) = [''1.0.1'', ''1.0.0'']"
proof -
  let ?d = "the (od_get (su_setups su_demo) '''')"
  have d: "od_get (su_setups su_demo) '''' = Some ?d" by code_simp
  have l: "length (su_history ?d su_demo) \<le> 2 * 1" by code_simp
  have p: "list_setup_versions '''' None None su_demo = Inr (projr (list_setup_versions '''' None None su_demo))" by code_simp
  have h: "map sv_version (rev (su_history ?d su_demo)) = [''1.0.1'', ''1.0.0'']" by code_simp
  from version_pages_complete [OF su_demo_ok d _ l p] h show ?thesis by simp
qed

end
