(* ===== verification/Registry.thy ===== *)
theory Registry
  imports Setup_Service "HOL-Library.List_Lexorder" "HOL-Library.Char_ord" "HOL-Library.Multiset"
begin

text \<open>
  The service registry: the models of \<open>models/services/registry.py\<close>, the searches every registry offers
  (\<open>services/registry/registry_strategy.py\<close>) and the in-memory backend \<open>default_registry.py\<close>. Python compares strings by
  their characters' codes, which is the order of the library on lists of characters.
\<close>

section \<open>Models\<close>

datatype RegistryModuleStatus = ModUnspecified | ModReady | ModActive | ModArchived

datatype RegistryModuleType = TypeUnspecified | TypeArchetype | TypeToolModule | TypeService

datatype RegistrySortBy = SortUnspecified | SortName | SortCreatedAt | SortUpdatedAt

datatype RegistryVisibility = RegUnspecified | RegPublic | RegPrivate | RegInternal

fun type_value :: "RegistryModuleType \<Rightarrow> string" where
  "type_value TypeUnspecified = ''unspecified''"
| "type_value TypeArchetype = ''archetype''"
| "type_value TypeToolModule = ''tool_module''"
| "type_value TypeService = ''service''"

text \<open>What a stored module type is read as: the legacy words are normalised, anything else must be a value.\<close>

definition coerce_legacy_module_type :: "string \<Rightarrow> RegistryModuleType option" where
  "coerce_legacy_module_type v =
     (if v = ''tool'' then Some TypeToolModule
      else if v = ''kin'' then Some TypeArchetype
      else find (\<lambda>t. type_value t = v) [TypeUnspecified, TypeArchetype, TypeToolModule, TypeService])"

fun status_value :: "RegistrySetupStatus \<Rightarrow> string" where
  "status_value SetupUnspecified = ''unspecified''"
| "status_value SetupDraft = ''draft''"
| "status_value SetupWaitingForApproval = ''waiting_for_approval''"
| "status_value SetupReady = ''ready''"
| "status_value SetupPaused = ''paused''"
| "status_value SetupFailed = ''failed''"
| "status_value SetupArchived = ''archived''"
| "status_value SetupNeedsConfiguration = ''needs_configuration''"
| "status_value SetupConfigurationFailed = ''configuration_failed''"
| "status_value SetupConfigurationSucceeded = ''configuration_succeeded''"

definition setup_statuses :: "RegistrySetupStatus list" where
  "setup_statuses = [SetupUnspecified, SetupDraft, SetupWaitingForApproval, SetupReady, SetupPaused, SetupFailed,
     SetupArchived, SetupNeedsConfiguration, SetupConfigurationFailed, SetupConfigurationSucceeded]"

definition coerce_setup_status :: "string \<Rightarrow> RegistrySetupStatus" where
  "coerce_setup_status v =
     (case find (\<lambda>t. status_value t = lower v) setup_statuses of None \<Rightarrow> SetupUnspecified | Some t \<Rightarrow> t)"

record module_info =
  mi_id :: string
  mi_type :: RegistryModuleType
  mi_address :: string
  mi_port :: int
  mi_version :: string
  mi_name :: string
  mi_documentation :: "string option"
  mi_status :: "RegistryModuleStatus option"
  mi_tags :: "string list"

record setup_summary =
  ss_setup_id :: string
  ss_name :: string
  ss_documentation :: "string option"
  ss_status :: "RegistrySetupStatus option"
  ss_visibility :: "RegistryVisibility option"
  ss_organization :: "string option"
  ss_module_id :: "string option"
  ss_module_name :: "string option"
  ss_module_type :: "RegistryModuleType option"
  ss_version_id :: "string option"
  ss_version :: "string option"
  ss_tags :: "string list"

record setup_info = setup_summary +
  si_owner :: "string option"
  si_card :: "string option"
  si_config :: "pstruct option"

record default_registry =
  dr_modules :: "(string, module_info) odict"
  dr_setups :: "(string, setup_info) odict"

definition dr_init :: default_registry where
  "dr_init = \<lparr>dr_modules = [], dr_setups = []\<rparr>"

section \<open>Modules\<close>

definition discover_by_id :: "string \<Rightarrow> default_registry \<Rightarrow> module_info option" where
  "discover_by_id i r = od_get (dr_modules r) i"

definition get_status :: "string \<Rightarrow> default_registry \<Rightarrow> RegistryModuleStatus option" where
  "get_status i r = (case od_get (dr_modules r) i of
     None \<Rightarrow> None
   | Some m \<Rightarrow> Some (case mi_status m of None \<Rightarrow> ModUnspecified | Some st \<Rightarrow> st))"

definition reg_register ::
    "string \<Rightarrow> string \<Rightarrow> int \<Rightarrow> string \<Rightarrow> RegistryModuleType \<Rightarrow> string \<Rightarrow> default_registry \<Rightarrow> module_info \<times> default_registry" where
  "reg_register i address port version ty doc r =
     (let existing = od_get (dr_modules r) i;
          m = \<lparr>mi_id = i,
               mi_type = (if ty \<noteq> TypeUnspecified then ty else case existing of None \<Rightarrow> TypeUnspecified | Some e \<Rightarrow> mi_type e),
               mi_address = address, mi_port = port, mi_version = version,
               mi_name = (case existing of None \<Rightarrow> i | Some e \<Rightarrow> mi_name e),
               mi_documentation = (if doc \<noteq> '''' then Some doc else case existing of None \<Rightarrow> None | Some e \<Rightarrow> mi_documentation e),
               mi_status = Some ModActive, mi_tags = []\<rparr>
      in (m, r\<lparr>dr_modules := od_set i m (dr_modules r)\<rparr>))"

definition heartbeat :: "string \<Rightarrow> default_registry \<Rightarrow> RegistryModuleStatus option \<times> default_registry" where
  "heartbeat i r = (case od_get (dr_modules r) i of
     None \<Rightarrow> (None, r)
   | Some m \<Rightarrow> (Some ModActive, r\<lparr>dr_modules := od_set i (m\<lparr>mi_status := Some ModActive\<rparr>) (dr_modules r)\<rparr>))"

definition deregister :: "string \<Rightarrow> default_registry \<Rightarrow> bool \<times> default_registry" where
  "deregister i r = (if od_has (dr_modules r) i then (True, r\<lparr>dr_modules := od_del i (dr_modules r)\<rparr>) else (False, r))"

section \<open>Searching\<close>

text \<open>\<open>list.sort\<close> is stable, also with \<open>reverse=True\<close>.\<close>

definition sort_name :: "bool \<Rightarrow> ('a \<Rightarrow> string) \<Rightarrow> 'a list \<Rightarrow> 'a list" where
  "sort_name descending key xs = (if descending then rev (sort_key key (rev xs)) else sort_key key xs)"

definition text_match :: "string \<Rightarrow> string \<Rightarrow> string option \<Rightarrow> bool" where
  "text_match needle name doc \<longleftrightarrow>
     contains (lower needle) (lower name) \<or> contains (lower needle) (lower (case doc of None \<Rightarrow> '''' | Some d \<Rightarrow> d))"

definition tag_match :: "string list \<Rightarrow> string list \<Rightarrow> bool" where
  "tag_match wanted tags \<longleftrightarrow> set (map lower wanted) \<inter> set (map lower tags) \<noteq> {}"

record module_query =
  mq_name :: "string option"
  mq_type :: "string option"
  mq_tags :: "string list option"
  mq_sort :: RegistrySortBy
  mq_descending :: bool

definition no_filter :: "'a list option \<Rightarrow> bool" where
  "no_filter x \<longleftrightarrow> x = None \<or> x = Some []"

definition module_match :: "module_query \<Rightarrow> module_info \<Rightarrow> bool" where
  "module_match q m \<longleftrightarrow>
     (no_filter (mq_name q) \<or> text_match (the (mq_name q)) (mi_name m) (mi_documentation m))
     \<and> (no_filter (mq_type q) \<or> type_value (mi_type m) = the (mq_type q))
     \<and> (no_filter (mq_tags q) \<or> tag_match (the (mq_tags q)) (mi_tags m))"

definition found_modules :: "module_query \<Rightarrow> default_registry \<Rightarrow> module_info list" where
  "found_modules q r =
     (let results = filter (module_match q) (map snd (dr_modules r))
      in if mq_sort q = SortName then sort_name (mq_descending q) (\<lambda>m. lower (mi_name m)) results else results)"

definition search_modules :: "module_query \<Rightarrow> int \<Rightarrow> int \<Rightarrow> default_registry \<Rightarrow> module_info list" where
  "search_modules q limit start r = py_slice start (start + limit) (found_modules q r)"

definition search_tools :: "module_query \<Rightarrow> int \<Rightarrow> int \<Rightarrow> default_registry \<Rightarrow> module_info list" where
  "search_tools q = search_modules (q\<lparr>mq_type := Some (type_value TypeToolModule)\<rparr>)"

definition search_kins :: "module_query \<Rightarrow> int \<Rightarrow> int \<Rightarrow> default_registry \<Rightarrow> module_info list" where
  "search_kins q = search_modules (q\<lparr>mq_type := Some (type_value TypeArchetype)\<rparr>)"

definition search_services :: "module_query \<Rightarrow> int \<Rightarrow> int \<Rightarrow> default_registry \<Rightarrow> module_info list" where
  "search_services q = search_modules (q\<lparr>mq_type := Some (type_value TypeService)\<rparr>)"

section \<open>Setups\<close>

record setup_query =
  sq_query :: "string option"
  sq_setups :: "string list option"
  sq_modules :: "string list option"
  sq_types :: "RegistryModuleType list option"
  sq_statuses :: "RegistrySetupStatus list option"
  sq_visibilities :: "RegistryVisibility list option"
  sq_tags :: "string list option"
  sq_sort :: RegistrySortBy
  sq_descending :: bool

definition reg_get_setup :: "string \<Rightarrow> default_registry \<Rightarrow> setup_info option" where
  "reg_get_setup sid r = od_get (dr_setups r) sid"

definition add_setup :: "setup_info \<Rightarrow> default_registry \<Rightarrow> default_registry" where
  "add_setup s r = r\<lparr>dr_setups := od_set (ss_setup_id s) s (dr_setups r)\<rparr>"

definition get_service_setup :: "string \<Rightarrow> default_registry \<Rightarrow> pstruct option" where
  "get_service_setup sid r = (case reg_get_setup sid r of None \<Rightarrow> None | Some s \<Rightarrow> si_config s)"

text \<open>\<open>x in values\<close> for a field that may be \<open>None\<close>.\<close>

definition in_values :: "'a option \<Rightarrow> 'a list option \<Rightarrow> bool" where
  "in_values x values \<longleftrightarrow> no_filter values \<or> x \<in> Some ` set (the values)"

definition setup_match :: "setup_query \<Rightarrow> setup_info \<Rightarrow> bool" where
  "setup_match q s \<longleftrightarrow>
     in_values (Some (ss_setup_id s)) (sq_setups q) \<and> in_values (ss_module_id s) (sq_modules q)
     \<and> in_values (ss_module_type s) (sq_types q) \<and> in_values (ss_status s) (sq_statuses q)
     \<and> in_values (ss_visibility s) (sq_visibilities q)
     \<and> (no_filter (sq_query q) \<or> text_match (the (sq_query q)) (ss_name s) (ss_documentation s))
     \<and> (no_filter (sq_tags q) \<or> tag_match (the (sq_tags q)) (ss_tags s))"

definition found_setups :: "setup_query \<Rightarrow> default_registry \<Rightarrow> setup_info list" where
  "found_setups q r =
     (let results = filter (setup_match q) (map snd (dr_setups r))
      in if sq_sort q = SortName then sort_name (sq_descending q) (\<lambda>s. lower (ss_name s)) results else results)"

definition search_setups :: "setup_query \<Rightarrow> int \<Rightarrow> int \<Rightarrow> default_registry \<Rightarrow> setup_summary list" where
  "search_setups q limit start r = map setup_summary.truncate (py_slice start (start + limit) (found_setups q r))"

section \<open>The directory of modules\<close>

datatype reg_op =
    Register string string int string RegistryModuleType string
  | Heartbeat string
  | Deregister string
  | AddSetup setup_info

fun reg_do :: "reg_op \<Rightarrow> default_registry \<Rightarrow> default_registry" where
  "reg_do (Register i address port version ty doc) r = snd (reg_register i address port version ty doc r)"
| "reg_do (Heartbeat i) r = snd (heartbeat i r)"
| "reg_do (Deregister i) r = snd (deregister i r)"
| "reg_do (AddSetup s) r = add_setup s r"

text \<open>What a registry promises: the address, port and version last registered under an identifier.\<close>

type_synonym directory = "string \<Rightarrow> (string \<times> int \<times> string) option"

fun dir_do :: "reg_op \<Rightarrow> directory \<Rightarrow> directory" where
  "dir_do (Register i address port version ty doc) d = d(i \<mapsto> (address, port, version))"
| "dir_do (Deregister i) d = d(i := None)"
| "dir_do _ d = d"

definition dir_abs :: "default_registry \<Rightarrow> directory" where
  "dir_abs r = (\<lambda>i. map_option (\<lambda>m. (mi_address m, mi_port m, mi_version m)) (discover_by_id i r))"

definition all_active :: "default_registry \<Rightarrow> bool" where
  "all_active r \<longleftrightarrow> (\<forall>i m. od_get (dr_modules r) i = Some m \<longrightarrow> mi_id m = i \<and> mi_status m = Some ModActive)"

lemma dir_step: "dir_abs (reg_do op r) = dir_do op (dir_abs r)"
  by (cases op) (auto simp: dir_abs_def discover_by_id_def reg_register_def heartbeat_def deregister_def add_setup_def od_has_def Let_def
      split: option.splits)

lemma active_step: "all_active r \<Longrightarrow> all_active (reg_do op r)"
  by (cases op) (auto simp: all_active_def reg_register_def heartbeat_def deregister_def add_setup_def Let_def split: option.splits)

lemma dir_run: "dir_abs (fold reg_do ops r) = fold dir_do ops (dir_abs r)"
  by (induction ops arbitrary: r) (simp_all add: dir_step)

lemma active_run: "all_active r \<Longrightarrow> all_active (fold reg_do ops r)"
  by (induction ops arbitrary: r) (simp_all add: active_step)

text \<open>
  The registry is a directory. After any sequence of registrations, heartbeats and removals a lookup
  finds exactly the address, port and version last registered under the identifier and not removed
  since, the module found has that identifier, it is active, and a removal answers whether there was one.
\<close>

theorem registry_is_directory:
  assumes "r = fold reg_do ops dr_init"
  shows "dir_abs r = fold dir_do ops Map.empty
    \<and> (\<forall>i m. discover_by_id i r = Some m \<longrightarrow> mi_id m = i \<and> get_status i r = Some ModActive)
    \<and> (\<forall>i. fst (deregister i r) \<longleftrightarrow> fold dir_do ops Map.empty i \<noteq> None)"
proof -
  have e: "dir_abs dr_init = Map.empty" by (simp add: dir_abs_def discover_by_id_def dr_init_def)
  have a: "all_active r" unfolding assms by (rule active_run) (simp add: all_active_def dr_init_def)
  have d: "dir_abs r = fold dir_do ops Map.empty" unfolding assms by (simp add: dir_run e)
  moreover have "fst (deregister i r) \<longleftrightarrow> dir_abs r i \<noteq> None" for i
    by (auto simp: deregister_def dir_abs_def discover_by_id_def od_has_def)
  ultimately show ?thesis using a by (auto simp: all_active_def discover_by_id_def get_status_def)
qed

theorem registry_is_directory_witness:
  "dir_abs (fold reg_do [Register ''m'' ''h'' 1 ''v'' TypeService '''', Heartbeat ''m'', Register ''m'' ''h2'' 2 ''w'' TypeUnspecified '''',
      Register ''n'' ''h3'' 3 ''x'' TypeService '''', Deregister ''n''] dr_init) = [''m'' \<mapsto> (''h2'', 2, ''w'')]"
  by (subst registry_is_directory [OF refl, THEN conjunct1]) (auto simp: fun_eq_iff)

text \<open>Registering a module again drops its tags, which a heartbeat keeps: it is no longer found by them.\<close>

lemma registering_drops_tags: "mi_tags (fst (reg_register i address port version ty doc r)) = []"
  by (simp add: reg_register_def Let_def)

lemma heartbeat_keeps_tags: "od_get (dr_modules r) i = Some m \<Longrightarrow> discover_by_id i (snd (heartbeat i r)) = Some (m\<lparr>mi_status := Some ModActive\<rparr>)"
  by (simp add: heartbeat_def discover_by_id_def)

section \<open>The searches\<close>

lemma mset_sort_name: "mset (sort_name descending key xs) = mset xs"
  by (simp add: sort_name_def)

lemma set_sort_name [simp]: "set (sort_name descending key xs) = set xs"
  by (simp add: sort_name_def)

lemma sort_name_stable: "filter (\<lambda>x. key x = k) (sort_name descending key xs) = filter (\<lambda>x. key x = k) xs"
  by (simp add: sort_name_def sort_key_stable rev_filter [symmetric])

definition in_order :: "bool \<Rightarrow> ('a \<Rightarrow> string) \<Rightarrow> 'a list \<Rightarrow> bool" where
  "in_order descending key xs \<longleftrightarrow> sorted_wrt (\<lambda>a b. if descending then key b \<le> key a else key a \<le> key b) xs"

lemma sort_name_sorted: "in_order descending key (sort_name descending key xs)"
proof -
  have s: "sorted_wrt (\<lambda>a b. key a \<le> key b) (sort_key key ys)" for ys
    using sorted_sort_key [of key ys] by (simp add: sorted_map)
  show ?thesis using s by (simp add: in_order_def sort_name_def sorted_wrt_rev)
qed

lemma sort_name_empty [simp]: "sort_name descending key [] = []"
  by (simp add: sort_name_def)

interpretation ms: paged "\<lambda>(q, r) start n. search_modules q (int n) (int start) r" "\<lambda>(q, r). found_modules q r"
  by unfold_locales (auto simp: search_modules_def)

text \<open>
  A search is exact. Its pages, put together, are the modules that match every given filter, each once;
  sorted by name they are in the order of their lower-case names, ascending or descending as asked, and modules
  whose names agree stay in the order in which they were registered.
\<close>

theorem search_exact:
  assumes "0 < n" and "length (dr_modules r) \<le> m * n"
    and "found = pages (\<lambda>start n. search_modules q (int n) (int start) r) n m"
  shows "mset found = mset (filter (module_match q) (map snd (dr_modules r)))
    \<and> (mq_sort q = SortName \<longrightarrow> in_order (mq_descending q) (\<lambda>m. lower (mi_name m)) found)
    \<and> (\<forall>k. filter (\<lambda>m. lower (mi_name m) = k) found = filter (\<lambda>m. module_match q m \<and> lower (mi_name m) = k) (map snd (dr_modules r)))"
proof -
  let ?all = "filter (module_match q) (map snd (dr_modules r))"
  have "mset (found_modules q r) = mset ?all" by (simp add: found_modules_def Let_def mset_sort_name)
  then have "length (found_modules q r) \<le> m * n"
    using assms(2) length_filter_le [of "module_match q" "map snd (dr_modules r)"] by (metis le_trans length_map size_mset)
  then have f: "found = found_modules q r" using ms.pages_cover [of n "(q, r)" m] assms(1,3) by simp
  show ?thesis
    by (simp add: f found_modules_def Let_def mset_sort_name sort_name_sorted sort_name_stable)
qed

definition module_demo :: "string \<Rightarrow> string list \<Rightarrow> module_info" where
  "module_demo n ts = \<lparr>mi_id = n, mi_type = TypeService, mi_address = ''h'', mi_port = 1, mi_version = ''v'', mi_name = n,
     mi_documentation = None, mi_status = None, mi_tags = ts\<rparr>"

definition registry_demo :: default_registry where
  "registry_demo = \<lparr>dr_modules = [(''b'', module_demo ''b'' [''X'']), (''c'', module_demo ''c'' []), (''A'', module_demo ''A'' [''x''])], dr_setups = []\<rparr>"

definition query_demo :: module_query where
  "query_demo = \<lparr>mq_name = None, mq_type = Some ''service'', mq_tags = Some [''x''], mq_sort = SortName, mq_descending = False\<rparr>"

theorem search_exact_witness:
  "pages (\<lambda>start n. search_modules query_demo (int n) (int start) registry_demo) 1 3 = [module_demo ''A'' [''x''], module_demo ''b'' [''X'']]"
proof -
  let ?f = "pages (\<lambda>start n. search_modules query_demo (int n) (int start) registry_demo) 1 3"
  have "length (dr_modules registry_demo) \<le> 3 * 1" by code_simp
  then have m: "mset ?f = mset (filter (module_match query_demo) (map snd (dr_modules registry_demo)))"
    using search_exact [of 1 registry_demo 3 _ query_demo] by simp
  have "filter (module_match query_demo) (map snd (dr_modules registry_demo)) = [module_demo ''b'' [''X''], module_demo ''A'' [''x'']]" by code_simp
  with m have "mset ?f = {#module_demo ''b'' [''X''], module_demo ''A'' [''x'']#}" by simp
  moreover have "?f = [module_demo ''A'' [''x''], module_demo ''b'' [''X'']]" by code_simp
  ultimately show ?thesis by simp
qed

text \<open>What is left of a setup without its owner, card and configuration.\<close>

definition erase :: "setup_info \<Rightarrow> setup_info" where
  "erase s = s\<lparr>si_owner := None, si_card := None, si_config := None\<rparr>"

lemma erase_keeps: "setup_match q (erase s) = setup_match q s" "ss_name (erase s) = ss_name s" "setup_summary.truncate (erase s) = setup_summary.truncate s"
  by (simp_all add: erase_def setup_match_def setup_summary.defs)

lemma insort_key_map: "insort_key key (f x) (map f xs) = map f (insort_key (\<lambda>a. key (f a)) x xs)"
  by (induction xs) simp_all

lemma sort_key_map: "sort_key key (map f xs) = map f (sort_key (\<lambda>a. key (f a)) xs)"
  by (induction xs) (simp_all add: insort_key_map)

lemma sort_name_map: "sort_name descending key (map f xs) = map f (sort_name descending (key \<circ> f) xs)"
  by (simp add: sort_name_def rev_map sort_key_map o_def flip: map_map)

definition erased :: "default_registry \<Rightarrow> default_registry" where
  "erased r = r\<lparr>dr_setups := map (map_prod id erase) (dr_setups r)\<rparr>"

lemma found_setups_erased: "found_setups q (erased r) = map erase (found_setups q r)"
proof -
  have e: "setup_match q \<circ> erase = setup_match q" "(\<lambda>s. lower (ss_name s)) \<circ> erase = (\<lambda>s. lower (ss_name s))"
    by (simp_all add: fun_eq_iff erase_keeps)
  have "map snd (dr_setups (erased r)) = map erase (map snd (dr_setups r))" by (simp add: erased_def)
  then show ?thesis by (simp only: found_setups_def Let_def filter_map e sort_name_map if_distrib [of "map erase"])
qed

text \<open>
  A search never shows a configuration: two registries whose setups differ only in their configuration, owner and
  card give the same answer to every search, and every summary in it is the one of a stored setup that matches.
\<close>

theorem search_hides_config:
  assumes "erased r = erased r'"
  shows "search_setups q limit start r = search_setups q limit start r'
    \<and> set (search_setups q limit start r) \<subseteq> setup_summary.truncate ` {s \<in> snd ` set (dr_setups r). setup_match q s}"
proof -
  have e: "search_setups q limit start r = map setup_summary.truncate (py_slice start (start + limit) (found_setups q (erased r)))" for r
    by (simp add: search_setups_def found_setups_erased py_slice_map o_def erase_keeps)
  have "set (found_setups q r) = {s \<in> snd ` set (dr_setups r). setup_match q s}"
    by (auto simp: found_setups_def Let_def)
  then have "set (search_setups q limit start r) \<subseteq> setup_summary.truncate ` {s \<in> snd ` set (dr_setups r). setup_match q s}"
    using image_mono [OF set_py_slice [of start "start + limit" "found_setups q r"], of setup_summary.truncate] by (simp add: search_setups_def)
  moreover have "search_setups q limit start r = search_setups q limit start r'" by (simp only: e [of r] e [of r'] assms)
  ultimately show ?thesis by (intro conjI)
qed

definition info_demo :: "pstruct option \<Rightarrow> setup_info" where
  "info_demo c = \<lparr>ss_setup_id = ''s'', ss_name = ''Bot'', ss_documentation = None, ss_status = Some SetupReady, ss_visibility = None,
     ss_organization = None, ss_module_id = None, ss_module_name = None, ss_module_type = None, ss_version_id = None, ss_version = None,
     ss_tags = [], si_owner = None, si_card = None, si_config = c\<rparr>"

definition any_setup :: setup_query where
  "any_setup = \<lparr>sq_query = Some ''bo'', sq_setups = None, sq_modules = None, sq_types = None, sq_statuses = Some [SetupReady],
     sq_visibilities = None, sq_tags = None, sq_sort = SortName, sq_descending = True\<rparr>"

theorem search_hides_config_witness:
  "search_setups any_setup 20 0 (add_setup (info_demo (Some [(''key'', PStr ''secret'')])) dr_init)
     = search_setups any_setup 20 0 (add_setup (info_demo None) dr_init)
   \<and> search_setups any_setup 20 0 (add_setup (info_demo None) dr_init) \<noteq> []"
proof -
  have "erased (add_setup (info_demo (Some [(''key'', PStr ''secret'')])) dr_init) = erased (add_setup (info_demo None) dr_init)"
    by (simp add: erased_def add_setup_def dr_init_def od_set_def info_demo_def erase_def)
  from search_hides_config [OF this, of any_setup 20 0]
  have "search_setups any_setup 20 0 (add_setup (info_demo (Some [(''key'', PStr ''secret'')])) dr_init)
     = search_setups any_setup 20 0 (add_setup (info_demo None) dr_init)" ..
  moreover have "search_setups any_setup 20 0 (add_setup (info_demo None) dr_init) \<noteq> []" by code_simp
  ultimately show ?thesis ..
qed

end
