(* ===== verification/Schema_Split.thy ===== *)
theory Schema_Split
  imports Struct_Value
begin

text \<open>
  \<open>utils/schema_splitter.py\<close>: the separation of a module's combined JSON schema into the schema proper and the
  schema of its form. Dictionaries are association lists with distinct keys, so one that is filled key by key from
  another is built in its order; where keys can meet (the form schema) \<open>od_set\<close> assigns. The number \<open>n\<close> of
  \<open>extract_ui\<close> is the depth of the call stack that is left: at \<open>0\<close> Python raises \<open>RecursionError\<close>.
\<close>

section \<open>Removing the form's keys\<close>

datatype schema_exc = Recursion | NotADict

definition ui_key :: "string \<Rightarrow> bool" where
  "ui_key k \<longleftrightarrow> starts_with k ''ui:''"

definition map_keys :: "string set" where
  "map_keys = {''properties'', ''$defs''}"

definition object_keys :: "string set" where
  "object_keys = {''items'', ''if'', ''then'', ''else''}"

definition list_keys :: "string set" where
  "list_keys = {''allOf'', ''oneOf'', ''anyOf''}"

fun strip_ui :: "pstruct \<Rightarrow> pstruct"
  and strip_value :: "string \<Rightarrow> pvalue \<Rightarrow> pvalue"
  and strip_props :: "pstruct \<Rightarrow> pstruct"
  and strip_items :: "pvalue list \<Rightarrow> pvalue list" where
  "strip_ui [] = []"
| "strip_ui ((k, v) # fs) = (if ui_key k then strip_ui fs else (k, strip_value k v) # strip_ui fs)"
| "strip_value k (PStruct ps) =
     (if k \<in> map_keys then PStruct (strip_props ps)
      else if k \<in> object_keys then PStruct (strip_ui ps) else PStruct ps)"
| "strip_value k (PList xs) = (if k \<in> list_keys then PList (strip_items xs) else PList xs)"
| "strip_value k v = v"
| "strip_props [] = []"
| "strip_props ((p, PStruct fs) # ps) = (p, PStruct (strip_ui fs)) # strip_props ps"
| "strip_props ((p, v) # ps) = (p, v) # strip_props ps"
| "strip_items [] = []"
| "strip_items (PStruct fs # xs) = PStruct (strip_ui fs) # strip_items xs"
| "strip_items (v # xs) = v # strip_items xs"

text \<open>The schema objects in which no key of the form is left, at any depth the stripping reaches.\<close>

fun clean :: "pstruct \<Rightarrow> bool"
  and clean_value :: "string \<Rightarrow> pvalue \<Rightarrow> bool"
  and clean_props :: "pstruct \<Rightarrow> bool"
  and clean_items :: "pvalue list \<Rightarrow> bool" where
  "clean [] = True"
| "clean ((k, v) # fs) = (\<not> ui_key k \<and> clean_value k v \<and> clean fs)"
| "clean_value k (PStruct ps) =
     (if k \<in> map_keys then clean_props ps else if k \<in> object_keys then clean ps else True)"
| "clean_value k (PList xs) = (k \<in> list_keys \<longrightarrow> clean_items xs)"
| "clean_value k v = True"
| "clean_props [] = True"
| "clean_props ((p, PStruct fs) # ps) = (clean fs \<and> clean_props ps)"
| "clean_props ((p, v) # ps) = clean_props ps"
| "clean_items [] = True"
| "clean_items (PStruct fs # xs) = (clean fs \<and> clean_items xs)"
| "clean_items (v # xs) = clean_items xs"

lemma strip_clean:
  "clean (strip_ui fs)" "clean_value k (strip_value k v)" "clean_props (strip_props ps)" "clean_items (strip_items xs)"
  by (induction fs and k v and ps and xs rule: strip_ui_strip_value_strip_props_strip_items.induct) simp_all

lemma clean_strip:
  "clean fs \<Longrightarrow> strip_ui fs = fs" "clean_value k v \<Longrightarrow> strip_value k v = v"
  "clean_props ps \<Longrightarrow> strip_props ps = ps" "clean_items xs \<Longrightarrow> strip_items xs = xs"
  by (induction fs and k v and ps and xs rule: strip_ui_strip_value_strip_props_strip_items.induct) (simp_all split: if_splits)

section \<open>Collecting the form's keys\<close>

fun foldE :: "('a \<Rightarrow> 's \<Rightarrow> 'e + 's) \<Rightarrow> 'a list \<Rightarrow> 's \<Rightarrow> 'e + 's" where
  "foldE f [] s = Inr s"
| "foldE f (x # xs) s = (case f x s of Inl e \<Rightarrow> Inl e | Inr s' \<Rightarrow> foldE f xs s')"

fun mapE :: "('a \<Rightarrow> 'e + 'b) \<Rightarrow> 'a list \<Rightarrow> 'e + 'b list" where
  "mapE f [] = Inr []"
| "mapE f (x # xs) = (case f x of Inl e \<Rightarrow> Inl e | Inr y \<Rightarrow> (case mapE f xs of Inl e \<Rightarrow> Inl e | Inr ys \<Rightarrow> Inr (y # ys)))"

definition dict_of :: "pvalue \<Rightarrow> pstruct option" where
  "dict_of v = (case v of PStruct fs \<Rightarrow> Some fs | _ \<Rightarrow> None)"

text \<open>\<open>if found: target[key] = found\<close>\<close>

definition set_found :: "string \<Rightarrow> pstruct \<Rightarrow> pstruct \<Rightarrow> pstruct" where
  "set_found k found ui = (if found = [] then ui else od_set k (PStruct found) ui)"

definition ref_name :: "string \<Rightarrow> string option" where
  "ref_name r = (if starts_with r ''#/$defs/'' then Some (drop 8 r) else None)"

text \<open>One key of a schema object; \<open>rec\<close> is the recursive call.\<close>

definition extract_entry ::
    "(pstruct \<Rightarrow> pstruct \<Rightarrow> schema_exc + pstruct) \<Rightarrow> pstruct \<Rightarrow> string \<times> pvalue \<Rightarrow> pstruct \<Rightarrow> schema_exc + pstruct" where
  "extract_entry rec defs entry ui = (case entry of (key, v) \<Rightarrow>
     if ui_key key then Inr (od_set key v ui)
     else case v of
       PStruct ps \<Rightarrow>
         if key = ''properties'' then
           foldE (\<lambda>(name, p) ui. case dict_of p of None \<Rightarrow> Inr ui
             | Some fs \<Rightarrow> (case rec fs [] of Inl e \<Rightarrow> Inl e | Inr found \<Rightarrow> Inr (set_found name found ui))) ps ui
         else if key = ''items'' then (case rec ps [] of Inl e \<Rightarrow> Inl e | Inr found \<Rightarrow> Inr (set_found ''items'' found ui))
         else if key \<in> {''if'', ''then'', ''else''} then rec ps ui
         else Inr ui
     | PList xs \<Rightarrow>
         if key \<in> {''oneOf'', ''anyOf''} then
           (case mapE (\<lambda>fs. rec fs []) (filter_map dict_of xs) of Inl e \<Rightarrow> Inl e | Inr uis \<Rightarrow> Inr (od_set key (PList (map PStruct uis)) ui))
         else if key = ''allOf'' then foldE rec (filter_map dict_of xs) ui
         else Inr ui
     | PStr r \<Rightarrow>
         if key = ''$ref'' then
           (case ref_name r of None \<Rightarrow> Inr ui
            | Some name \<Rightarrow> (case od_get defs name of None \<Rightarrow> Inr ui
                | Some d \<Rightarrow> (case dict_of d of None \<Rightarrow> Inl NotADict | Some fs \<Rightarrow> rec fs ui)))
         else Inr ui
     | _ \<Rightarrow> Inr ui)"

primrec extract_ui :: "nat \<Rightarrow> pstruct \<Rightarrow> pstruct \<Rightarrow> pstruct \<Rightarrow> schema_exc + pstruct" where
  "extract_ui 0 defs source ui = Inl Recursion"
| "extract_ui (Suc n) defs source ui = foldE (extract_entry (extract_ui n defs) defs) source ui"

section \<open>Splitting\<close>

text \<open>The variants of \<open>oneOf\<close> and \<open>anyOf\<close> inside a property, whose form keys come from the definition they refer to.\<close>

definition variant_ui :: "(string, pstruct) odict \<Rightarrow> pstruct \<Rightarrow> schema_exc + pstruct" where
  "variant_ui defs_ui fs = (case od_get fs ''$ref'' of
     None \<Rightarrow> Inr []
   | Some (PStr r) \<Rightarrow> Inr (case ref_name r of None \<Rightarrow> [] | Some name \<Rightarrow> (case od_get defs_ui name of None \<Rightarrow> [] | Some u \<Rightarrow> u))
   | Some v \<Rightarrow> Inl NotADict)"

fun process_entries :: "(string, pstruct) odict \<Rightarrow> pstruct \<Rightarrow> pstruct \<Rightarrow> schema_exc + pstruct \<times> pstruct"
  and process_value :: "(string, pstruct) odict \<Rightarrow> string \<Rightarrow> pvalue \<Rightarrow> pstruct \<Rightarrow> schema_exc + pvalue \<times> pstruct"
  and process_props :: "(string, pstruct) odict \<Rightarrow> pstruct \<Rightarrow> pstruct \<Rightarrow> schema_exc + pstruct \<times> pstruct" where
  "process_entries du [] ui = Inr ([], ui)"
| "process_entries du ((k, v) # fs) ui =
     (if ui_key k then process_entries du fs (od_set k v ui)
      else case process_value du k v ui of Inl e \<Rightarrow> Inl e
        | Inr (j, ui') \<Rightarrow> (case process_entries du fs ui' of Inl e \<Rightarrow> Inl e | Inr (js, ui'') \<Rightarrow> Inr ((k, j) # js, ui'')))"
| "process_value du k (PStruct ps) ui =
     (if k = ''properties'' then (case process_props du ps ui of Inl e \<Rightarrow> Inl e | Inr (qs, ui') \<Rightarrow> Inr (PStruct qs, ui'))
      else if k = ''items'' then
        (case variant_ui du ps of Inl e \<Rightarrow> Inl e | Inr u0 \<Rightarrow>
          (case process_entries du ps u0 of Inl e \<Rightarrow> Inl e | Inr (js, found) \<Rightarrow> Inr (PStruct js, set_found ''items'' found ui)))
      else Inr (PStruct ps, ui))"
| "process_value du k (PList xs) ui =
     (if k \<in> {''oneOf'', ''anyOf''} then
        (case mapE (variant_ui du) (filter_map dict_of xs) of Inl e \<Rightarrow> Inl e
         | Inr uis \<Rightarrow> Inr (PList (strip_items xs), od_set k (PList (map PStruct uis)) ui))
      else Inr (PList xs, ui))"
| "process_value du k v ui = Inr (v, ui)"
| "process_props du [] ui = Inr ([], ui)"
| "process_props du ((p, PStruct fs) # ps) ui =
     (case variant_ui du fs of Inl e \<Rightarrow> Inl e | Inr u0 \<Rightarrow>
        (case process_entries du fs u0 of Inl e \<Rightarrow> Inl e | Inr (js, found) \<Rightarrow>
          (case process_props du ps (set_found p found ui) of Inl e \<Rightarrow> Inl e | Inr (qs, ui') \<Rightarrow> Inr ((p, PStruct js) # qs, ui'))))"
| "process_props du ((p, v) # ps) ui =
     (case process_props du ps ui of Inl e \<Rightarrow> Inl e | Inr (qs, ui') \<Rightarrow> Inr ((p, v) # qs, ui'))"

text \<open>One key of the whole schema: the JSON value it keeps, if any, and the form schema so far.\<close>

definition process_object_entry ::
    "nat \<Rightarrow> (string, pstruct) odict \<Rightarrow> pstruct \<Rightarrow> string \<times> pvalue \<Rightarrow> pstruct \<times> pstruct \<Rightarrow> schema_exc + pstruct \<times> pstruct" where
  "process_object_entry n du defs entry acc = (case entry of (k, v) \<Rightarrow> case acc of (json, ui) \<Rightarrow>
     if ui_key k then Inr (json, od_set k v ui)
     else case v of
       PStruct ps \<Rightarrow>
         if k \<in> {''properties'', ''items''} then
           (case process_value du k v ui of Inl e \<Rightarrow> Inl e | Inr (j, ui') \<Rightarrow> Inr (json @ [(k, j)], ui'))
         else if k = ''$defs'' then Inr (json @ [(k, strip_value k v)], ui)
         else if k \<in> {''if'', ''then'', ''else''} then
           (case extract_ui n defs ps ui of Inl e \<Rightarrow> Inl e | Inr ui' \<Rightarrow> Inr (json @ [(k, strip_value k v)], ui'))
         else Inr (json @ [(k, v)], ui)
     | PList xs \<Rightarrow>
         if k = ''allOf'' then
           (case foldE (extract_ui n defs) (filter_map dict_of xs) ui of Inl e \<Rightarrow> Inl e | Inr ui' \<Rightarrow> Inr (json @ [(k, strip_value k v)], ui'))
         else if k \<in> {''oneOf'', ''anyOf''} then
           (case mapE (\<lambda>fs. extract_ui n defs fs []) (filter_map dict_of xs) of Inl e \<Rightarrow> Inl e
            | Inr uis \<Rightarrow> Inr (json @ [(k, strip_value k v)], od_set k (PList (map PStruct uis)) ui))
         else Inr (json @ [(k, v)], ui)
     | _ \<Rightarrow> Inr (json @ [(k, v)], ui))"

definition defs_ui_of :: "nat \<Rightarrow> pstruct \<Rightarrow> schema_exc + (string, pstruct) odict" where
  "defs_ui_of n defs = mapE (\<lambda>(name, fs). case extract_ui n defs fs [] of Inl e \<Rightarrow> Inl e | Inr u \<Rightarrow> Inr (name, u))
     (filter_map (\<lambda>(name, v). map_option (Pair name) (dict_of v)) defs)"

definition schema_defs :: "pstruct \<Rightarrow> pstruct" where
  "schema_defs schema = (case od_get schema ''$defs'' of Some (PStruct d) \<Rightarrow> d | _ \<Rightarrow> [])"

definition split_schema :: "nat \<Rightarrow> pstruct \<Rightarrow> schema_exc + pstruct \<times> pstruct" where
  "split_schema n schema =
     (case defs_ui_of n (schema_defs schema) of
        Inl e \<Rightarrow> Inl e
      | Inr du \<Rightarrow> foldE (process_object_entry n du (schema_defs schema)) schema ([], []))"

section \<open>References\<close>

text \<open>The schema objects the extraction calls itself on from one key of an object, and from an object.\<close>

definition entry_calls :: "pstruct \<Rightarrow> string \<times> pvalue \<Rightarrow> pstruct list" where
  "entry_calls defs entry = (case entry of (key, v) \<Rightarrow>
     if ui_key key then []
     else case v of
       PStruct ps \<Rightarrow>
         if key = ''properties'' then filter_map (\<lambda>(name, p). dict_of p) ps
         else if key \<in> object_keys then [ps] else []
     | PList xs \<Rightarrow> if key \<in> list_keys then filter_map dict_of xs else []
     | PStr r \<Rightarrow>
         if key = ''$ref'' then
           (case ref_name r of None \<Rightarrow> [] | Some name \<Rightarrow>
              (case od_get defs name of None \<Rightarrow> [] | Some d \<Rightarrow> (case dict_of d of None \<Rightarrow> [] | Some fs \<Rightarrow> [fs])))
         else []
     | _ \<Rightarrow> [])"

definition calls :: "pstruct \<Rightarrow> pstruct \<Rightarrow> pstruct list" where
  "calls defs fs = concat (map (entry_calls defs) fs)"

definition call_step :: "pstruct \<Rightarrow> pstruct \<Rightarrow> pstruct \<Rightarrow> bool" where
  "call_step defs g fs \<longleftrightarrow> g \<in> set (calls defs fs)"

text \<open>Every definition is an object.\<close>

definition all_dicts :: "pstruct \<Rightarrow> bool" where
  "all_dicts defs \<longleftrightarrow> (\<forall>(name, d)\<in>set defs. dict_of d \<noteq> None)"

lemma foldE_total: "(\<And>x s. x \<in> set xs \<Longrightarrow> \<exists>s'. f x s = Inr s') \<Longrightarrow> \<exists>s'. foldE f xs s = Inr s'"
proof (induction xs arbitrary: s)
  case (Cons x xs)
  obtain s' where "f x s = Inr s'" using Cons.prems [of x s] by auto
  with Cons.IH [of s'] Cons.prems show ?case by simp
qed simp

lemma foldE_success: "foldE f xs s = Inr s' \<Longrightarrow> x \<in> set xs \<Longrightarrow> \<exists>t t'. f x t = Inr t'"
  by (induction xs arbitrary: s) (auto split: sum.splits)

lemma mapE_total: "(\<And>x. x \<in> set xs \<Longrightarrow> \<exists>y. f x = Inr y) \<Longrightarrow> \<exists>ys. mapE f xs = Inr ys"
proof (induction xs)
  case (Cons x xs)
  obtain y where "f x = Inr y" using Cons.prems [of x] by auto
  moreover obtain ys where "mapE f xs = Inr ys" using Cons by auto
  ultimately show ?case by simp
qed simp

lemma mapE_success: "mapE f xs = Inr ys \<Longrightarrow> x \<in> set xs \<Longrightarrow> \<exists>y. f x = Inr y"
  by (induction xs arbitrary: ys) (auto split: sum.splits)

lemma entry_total:
  assumes "\<And>g ui. g \<in> set (entry_calls defs entry) \<Longrightarrow> \<exists>u. rec g ui = Inr u" and "all_dicts defs"
  shows "\<exists>u. extract_entry rec defs entry ui = Inr u"
proof -
  obtain key v where e: "entry = (key, v)" by (cases entry)
  show ?thesis
  proof (cases v)
    case (PStr r)
    show ?thesis
    proof (cases "key = ''$ref'' \<and> \<not> ui_key key \<and> ref_name r \<noteq> None \<and> od_get defs (the (ref_name r)) \<noteq> None")
      case True
      then obtain name d where n: "ref_name r = Some name" "od_get defs name = Some d" by auto
      then have "(name, d) \<in> set defs" by (simp add: od_get_def map_of_SomeD)
      with assms(2) obtain fs where "dict_of d = Some fs" by (auto simp: all_dicts_def)
      with True n e PStr assms(1) [of fs ui] show ?thesis by (simp add: entry_calls_def extract_entry_def)
    qed (auto simp: e PStr extract_entry_def split: option.split)
  next
    case (PList xs)
    have "\<exists>u. foldE rec (filter_map dict_of xs) ui = Inr u" if "key = ''allOf''" "\<not> ui_key key"
      by (rule foldE_total) (use that assms(1) e PList in \<open>simp add: entry_calls_def list_keys_def\<close>)
    moreover have "\<exists>us. mapE (\<lambda>fs. rec fs []) (filter_map dict_of xs) = Inr us" if "key \<in> {''oneOf'', ''anyOf''}" "\<not> ui_key key"
      by (rule mapE_total) (use that assms(1) e PList in \<open>auto simp: entry_calls_def list_keys_def\<close>)
    ultimately show ?thesis by (auto simp: e PList extract_entry_def split: sum.split)
  next
    case (PStruct ps)
    have p: "\<exists>u. rec fs ui = Inr u" if "key = ''properties''" "\<not> ui_key key" "(name, p) \<in> set ps" "dict_of p = Some fs" for name p fs ui
      using that assms(1) [of fs ui] by (force simp: e PStruct entry_calls_def set_filter_map)
    have "\<exists>u. foldE (\<lambda>(name, p) ui. case dict_of p of None \<Rightarrow> Inr ui
        | Some fs \<Rightarrow> (case rec fs [] of Inl e \<Rightarrow> Inl e | Inr found \<Rightarrow> Inr (set_found name found ui))) ps ui = Inr u"
      if "key = ''properties''" "\<not> ui_key key"
    proof (rule foldE_total)
      fix x ui assume x: "x \<in> set ps"
      obtain name q where nq: "x = (name, q)" by (cases x)
      show "\<exists>s'. (case x of (name, p) \<Rightarrow> \<lambda>ui. case dict_of p of None \<Rightarrow> Inr ui
        | Some fs \<Rightarrow> (case rec fs [] of Inl e \<Rightarrow> Inl e | Inr found \<Rightarrow> Inr (set_found name found ui))) ui = Inr s'"
        using p [OF that, of name q _ "[]"] x nq by (cases "dict_of q") (auto split: sum.split)
    qed
    moreover have "(\<exists>u. rec ps ui = Inr u) \<and> (\<forall>e'. rec ps ui \<noteq> Inl e')" if "key \<in> object_keys" "\<not> ui_key key" for ui
    proof -
      have "ps \<in> set (entry_calls defs entry)" using that by (auto simp: e PStruct entry_calls_def object_keys_def)
      from assms(1) [OF this, of ui] show ?thesis by auto
    qed
    moreover have "key \<in> object_keys" if "key = ''items'' \<or> key \<in> {''if'', ''then'', ''else''}"
      using that by (auto simp: object_keys_def)
    ultimately show ?thesis
      unfolding e PStruct extract_entry_def
      by (cases "ui_key key"; cases "key = ''properties''"; cases "key = ''items''"; cases "key \<in> {''if'', ''then'', ''else''}")
        (simp_all split: sum.split)
  qed (simp_all add: e extract_entry_def)
qed

lemma entry_success:
  assumes "extract_entry rec defs entry ui = Inr u" and "g \<in> set (entry_calls defs entry)"
  shows "\<exists>ui' u'. rec g ui' = Inr u'"
proof -
  obtain key v where e: "entry = (key, v)" by (cases entry)
  from assms(2) have k: "\<not> ui_key key" by (auto simp: e entry_calls_def split: if_splits)
  show ?thesis
  proof (cases v)
    case (PStr r)
    have ref: "key = ''$ref''" using assms(2) k by (cases "key = ''$ref''") (simp_all add: e PStr entry_calls_def)
    show ?thesis
    proof (cases "ref_name r")
      case (Some name)
      show ?thesis
      proof (cases "od_get defs name")
        case (Some d)
        with assms k ref \<open>ref_name r = Some name\<close> show ?thesis
          by (cases "dict_of d") (auto simp: e PStr entry_calls_def extract_entry_def)
      qed (use assms(2) k ref Some in \<open>simp add: e PStr entry_calls_def\<close>)
    qed (use assms(2) k ref in \<open>simp add: e PStr entry_calls_def\<close>)
  next
    case (PList xs)
    with assms(2) k have g: "g \<in> set (filter_map dict_of xs)" "key \<in> list_keys" by (auto simp: e entry_calls_def split: if_splits)
    show ?thesis
    proof (cases "key = ''allOf''")
      case True
      then have "foldE rec (filter_map dict_of xs) ui = Inr u" using assms(1) k by (simp add: e PList extract_entry_def)
      from foldE_success [OF this g(1)] show ?thesis .
    next
      case False
      with g(2) have "key \<in> {''oneOf'', ''anyOf''}" by (simp add: list_keys_def)
      then obtain us where "mapE (\<lambda>fs. rec fs []) (filter_map dict_of xs) = Inr us"
        using assms(1) k by (auto simp: e PList extract_entry_def split: sum.splits)
      from mapE_success [OF this g(1)] show ?thesis by blast
    qed
  next
    case (PStruct ps)
    show ?thesis
    proof (cases "key = ''properties''")
      case True
      with assms(2) k obtain name p where p: "(name, p) \<in> set ps" "dict_of p = Some g"
        by (auto simp: e PStruct entry_calls_def set_filter_map)
      let ?f = "\<lambda>(name, p) ui. case dict_of p of None \<Rightarrow> Inr ui
        | Some fs \<Rightarrow> (case rec fs [] of Inl e \<Rightarrow> Inl e | Inr found \<Rightarrow> Inr (set_found name found ui))"
      have "foldE ?f ps ui = Inr u" using assms(1) k True by (simp add: e PStruct extract_entry_def)
      from foldE_success [OF this p(1)] p(2) show ?thesis by (cases "rec g []") auto
    next
      case False
      with assms(2) k have "g = ps" "key \<in> object_keys" by (auto simp: e PStruct entry_calls_def split: if_splits)
      with assms(1) k False show ?thesis
        by (auto simp: e PStruct extract_entry_def object_keys_def split: sum.splits if_splits)
    qed
  qed (use assms k in \<open>auto simp: e entry_calls_def\<close>)
qed

lemma extract_total:
  assumes "\<And>g ui. call_step defs g fs \<Longrightarrow> \<exists>u. extract_ui n defs g ui = Inr u" and "all_dicts defs"
  shows "\<exists>u. extract_ui (Suc n) defs fs ui = Inr u"
proof -
  have "\<exists>u. foldE (extract_entry (extract_ui n defs) defs) fs ui = Inr u"
  proof (rule foldE_total)
    fix entry ui assume "entry \<in> set fs"
    then show "\<exists>u. extract_entry (extract_ui n defs) defs entry ui = Inr u"
      using assms by (intro entry_total) (auto simp: call_step_def calls_def)
  qed
  then show ?thesis by simp
qed

lemma extract_success:
  assumes "extract_ui (Suc n) defs fs ui = Inr u" and "call_step defs g fs"
  shows "\<exists>ui' u'. extract_ui n defs g ui' = Inr u'"
proof -
  from assms(2) obtain entry where en: "entry \<in> set fs" "g \<in> set (entry_calls defs entry)" by (auto simp: call_step_def calls_def)
  from assms(1) have "foldE (extract_entry (extract_ui n defs) defs) fs ui = Inr u" by simp
  from foldE_success [OF this en(1)] entry_success [OF _ en(2)] show ?thesis by blast
qed

section \<open>When the splitting ends\<close>

definition bodies :: "pstruct \<Rightarrow> pstruct set" where
  "bodies defs = {fs. \<exists>name. (name, PStruct fs) \<in> set defs}"

lemma finite_bodies: "finite (bodies defs)"
proof -
  have "bodies defs \<subseteq> (\<lambda>(name, v). the (dict_of v)) ` set defs" by (force simp: bodies_def dict_of_def)
  then show ?thesis by (rule finite_subset) simp
qed

lemma dict_of_Some [simp]: "dict_of v = Some fs \<longleftrightarrow> v = PStruct fs"
  by (cases v) (simp_all add: dict_of_def)

lemma dict_of_PStruct [simp]: "dict_of (PStruct fs) = Some fs"
  by (simp add: dict_of_def)

lemma size_prop: "(name, PStruct g) \<in> set ps \<Longrightarrow> size (PStruct g) < size (PStruct ps)"
  by (induction ps) auto

lemma size_item: "PStruct g \<in> set xs \<Longrightarrow> size (PStruct g) < size (PList xs)"
  by (induction xs) auto

lemma size_field: "(key, v) \<in> set fs \<Longrightarrow> size v < size (PStruct fs)"
  by (induction fs) auto

lemma calls_smaller:
  assumes "call_step defs g fs"
  shows "g \<in> bodies defs \<or> size (PStruct g) < size (PStruct fs)"
proof -
  from assms obtain key v where en: "(key, v) \<in> set fs" and g: "g \<in> set (entry_calls defs (key, v))" by (auto simp: call_step_def calls_def)
  have small: "size v < size (PStruct fs)" by (rule size_field [OF en])
  have k: "\<not> ui_key key" using g by (cases "ui_key key") (simp_all add: entry_calls_def)
  show ?thesis
  proof (cases v)
    case (PStr r)
    have ref: "key = ''$ref''" using g k PStr by (cases "key = ''$ref''") (simp_all add: entry_calls_def)
    obtain name where name: "ref_name r = Some name" using g k PStr ref by (cases "ref_name r") (simp_all add: entry_calls_def)
    obtain d where d: "od_get defs name = Some d" using g k PStr ref name by (cases "od_get defs name") (simp_all add: entry_calls_def)
    have "d = PStruct g" using g k PStr ref name d by (cases d) (simp_all add: entry_calls_def dict_of_def)
    with d have "(name, PStruct g) \<in> set defs" by (simp add: od_get_def map_of_SomeD)
    then show ?thesis by (auto simp: bodies_def)
  next
    case (PList xs)
    with g k have "PStruct g \<in> set xs" by (auto simp: entry_calls_def set_filter_map split: if_splits)
    from size_item [OF this] small PList show ?thesis by simp
  next
    case (PStruct ps)
    show ?thesis
    proof (cases "key = ''properties''")
      case True
      with g k PStruct obtain name where "(name, PStruct g) \<in> set ps" by (auto simp: entry_calls_def set_filter_map)
      from size_prop [OF this] small PStruct show ?thesis by simp
    next
      case False
      with g k PStruct have "g = ps" by (simp add: entry_calls_def split: if_splits)
      with small PStruct show ?thesis by simp
    qed
  qed (use g k in \<open>simp_all add: entry_calls_def\<close>)
qed

text \<open>
  Recursion that leaves a finite set \<open>B\<close> of starting points only for smaller things ends on what reaches no loop of \<open>B\<close>.
\<close>

lemma accp_from_base:
  assumes smaller: "\<And>x y. R y x \<Longrightarrow> y \<in> B \<or> f y < (f x :: nat)"
  shows "(\<And>d. d \<in> B \<Longrightarrow> R\<^sup>+\<^sup>+ d x \<Longrightarrow> Wellfounded.accp R d) \<Longrightarrow> Wellfounded.accp R x"
proof (induction "f x" arbitrary: x rule: less_induct)
  case less
  show ?case
  proof (rule accpI)
    fix y assume y: "R y x"
    show "Wellfounded.accp R y"
    proof (cases "y \<in> B")
      case True
      with y less.prems show ?thesis by blast
    next
      case False
      with smaller [OF y] have "f y < f x" by simp
      then show ?thesis by (rule less.hyps) (meson y less.prems tranclp.trancl_into_trancl)
    qed
  qed
qed

lemma no_loop: "Wellfounded.accp R x \<Longrightarrow> \<not> R\<^sup>+\<^sup>+ x x"
proof (induction rule: accp.induct)
  case (accI x)
  show ?case
  proof
    assume loop: "R\<^sup>+\<^sup>+ x x"
    then obtain y where "R y x" "R\<^sup>*\<^sup>* x y" by (metis tranclp.cases rtranclp.rtrancl_refl tranclp_into_rtranclp)
    then have "R\<^sup>+\<^sup>+ y y" by (meson rtranclp_into_tranclp2)
    with accI \<open>R y x\<close> show False by blast
  qed
qed

lemma base_accp:
  assumes smaller: "\<And>x y. R y x \<Longrightarrow> y \<in> B \<or> f y < (f x :: nat)" and "finite B" and acyc: "\<forall>d\<in>B. \<not> R\<^sup>+\<^sup>+ d d"
  shows "d \<in> B \<Longrightarrow> Wellfounded.accp R d"
proof -
  let ?R = "{(b, a). b \<in> B \<and> a \<in> B \<and> R\<^sup>+\<^sup>+ b a}"
  have "trans ?R" by (auto intro!: transI elim: tranclp_trans)
  moreover have "irrefl ?R" using acyc by (auto simp: irrefl_def)
  ultimately have "acyclic ?R" by (simp add: acyclic_irrefl)
  moreover have "finite ?R" by (rule finite_subset [of _ "B \<times> B"]) (auto simp: assms(2))
  ultimately have "wf ?R" by (simp add: finite_acyclic_wf)
  then show "d \<in> B \<Longrightarrow> Wellfounded.accp R d"
  proof (induction d rule: wf_induct_rule)
    case (less d)
    show ?case by (rule accp_from_base [OF smaller]) (use less in blast)+
  qed
qed

lemma accp_from_bodies:
  "(\<And>d. d \<in> bodies defs \<Longrightarrow> (call_step defs)\<^sup>+\<^sup>+ d fs \<Longrightarrow> Wellfounded.accp (call_step defs) d)
    \<Longrightarrow> Wellfounded.accp (call_step defs) fs"
  by (rule accp_from_base [where f = "\<lambda>fs. size (PStruct fs)" and B = "bodies defs"]) (use calls_smaller in blast)+

lemma bodies_accp_iff:
  "(\<forall>d\<in>bodies defs. Wellfounded.accp (call_step defs) d) \<longleftrightarrow> (\<forall>d\<in>bodies defs. \<not> (call_step defs)\<^sup>+\<^sup>+ d d)"
  using no_loop [of "call_step defs"] base_accp [where R = "call_step defs" and f = "\<lambda>fs. size (PStruct fs)", OF calls_smaller finite_bodies [of defs]] by blast

lemma common_bound: "(\<And>x. x \<in> set xs \<Longrightarrow> \<exists>N. \<forall>n\<ge>N. P x n) \<Longrightarrow> \<exists>M. \<forall>x\<in>set xs. \<forall>n\<ge>M. P x n" for P :: "'a \<Rightarrow> nat \<Rightarrow> bool"
proof (induction xs)
  case (Cons x xs)
  then obtain M where M: "\<forall>x\<in>set xs. \<forall>n\<ge>M. P x n" by auto
  obtain N where "\<forall>n\<ge>N. P x n" using Cons.prems [of x] by auto
  with M have "\<forall>y\<in>set (x # xs). \<forall>n\<ge>max M N. P y n" by auto
  then show ?case ..
qed simp

lemma accp_extracts:
  assumes "all_dicts defs"
  shows "Wellfounded.accp (call_step defs) fs \<Longrightarrow> \<exists>N. \<forall>n\<ge>N. \<forall>ui. \<exists>u. extract_ui n defs fs ui = Inr u"
proof (induction fs rule: accp.induct)
  case (accI fs)
  have "\<exists>M. \<forall>g\<in>set (calls defs fs). \<forall>n\<ge>M. \<forall>ui. \<exists>u. extract_ui n defs g ui = Inr u"
    by (rule common_bound) (use accI.IH in \<open>simp add: call_step_def\<close>)
  then obtain M where M: "\<forall>g\<in>set (calls defs fs). \<forall>n\<ge>M. \<forall>ui. \<exists>u. extract_ui n defs g ui = Inr u" ..
  have "\<exists>u. extract_ui n defs fs ui = Inr u" if n: "Suc M \<le> n" for n ui
  proof -
    obtain m where m: "n = Suc m" "M \<le> m" using n by (cases n) auto
    show ?thesis unfolding m(1) by (rule extract_total [OF _ assms]) (use M m(2) in \<open>simp add: call_step_def\<close>)
  qed
  then show ?case by blast
qed

lemma extracts_accp: "extract_ui n defs fs ui = Inr u \<Longrightarrow> Wellfounded.accp (call_step defs) fs"
proof (induction n arbitrary: fs ui u)
  case (Suc n)
  show ?case by (rule accpI) (use Suc.IH extract_success [OF Suc.prems] in blast)
qed simp

lemma foldE_error: "foldE f xs s = Inl e \<Longrightarrow> \<exists>x t. x \<in> set xs \<and> f x t = Inl e"
proof (induction xs arbitrary: s)
  case (Cons x xs)
  show ?case
  proof (cases "f x s")
    case (Inr t)
    with Cons.prems Cons.IH [of t] show ?thesis by auto
  qed (use Cons.prems in auto)
qed simp

lemma mapE_error: "mapE f xs = Inl e \<Longrightarrow> \<exists>x. x \<in> set xs \<and> f x = Inl e"
  by (induction xs) (auto split: sum.splits)

lemma entry_error:
  assumes "extract_entry rec defs entry ui = Inl e" and "all_dicts defs"
  shows "\<exists>g ui'. rec g ui' = Inl e"
proof (rule ccontr)
  assume "\<nexists>g ui'. rec g ui' = Inl e"
  then have no: "rec g ui' \<noteq> Inl e" for g ui' by blast
  have f: "foldE rec xs s \<noteq> Inl e" for xs s using foldE_error [of rec xs s e] no by blast
  have m: "mapE (\<lambda>fs. rec fs []) xs \<noteq> Inl e" for xs using mapE_error [of "\<lambda>fs. rec fs []" xs e] no by blast
  obtain key v where en: "entry = (key, v)" by (cases entry)
  from assms(1) have k: "\<not> ui_key key" by (cases "ui_key key") (simp_all add: en extract_entry_def)
  show False
  proof (cases v)
    case (PStr r)
    have ref: "key = ''$ref''" using assms(1) k PStr by (cases "key = ''$ref''") (simp_all add: en extract_entry_def)
    obtain name where name: "ref_name r = Some name" using assms(1) k PStr ref by (cases "ref_name r") (simp_all add: en extract_entry_def)
    obtain d where d: "od_get defs name = Some d" using assms(1) k PStr ref name by (cases "od_get defs name") (simp_all add: en extract_entry_def)
    then have "(name, d) \<in> set defs" by (simp add: od_get_def map_of_SomeD)
    with assms(2) obtain fs where "dict_of d = Some fs" by (auto simp: all_dicts_def)
    with assms(1) k PStr ref name d no show False by (simp add: en extract_entry_def)
  next
    case (PList xs)
    with assms(1) k f m show False
      unfolding en extract_entry_def
      by (cases "key \<in> {''oneOf'', ''anyOf''}"; cases "key = ''allOf''") (simp_all split: sum.splits)
  next
    case (PStruct ps)
    let ?f = "\<lambda>(name, p) ui. case dict_of p of None \<Rightarrow> Inr ui
        | Some fs \<Rightarrow> (case rec fs [] of Inl e \<Rightarrow> Inl e | Inr found \<Rightarrow> Inr (set_found name found ui))"
    have "?f x t \<noteq> Inl e" for x t
      using no by (cases x) (auto split: option.splits sum.splits)
    then have "foldE ?f ps ui \<noteq> Inl e" using foldE_error [of ?f ps ui e] by blast
    with assms(1) k no PStruct show False
      unfolding en extract_entry_def
      by (cases "key = ''properties''"; cases "key = ''items''"; cases "key \<in> {''if'', ''then'', ''else''}") (simp_all split: sum.splits)
  qed (use assms(1) k in \<open>simp_all add: en extract_entry_def\<close>)
qed

lemma extract_error: "all_dicts defs \<Longrightarrow> extract_ui n defs fs ui = Inl e \<Longrightarrow> e = Recursion"
proof (induction n arbitrary: fs ui)
  case (Suc n)
  from Suc.prems(2) have "foldE (extract_entry (extract_ui n defs) defs) fs ui = Inl e" by simp
  from foldE_error [OF this] obtain entry t where "extract_entry (extract_ui n defs) defs entry t = Inl e" by blast
  from entry_error [OF this Suc.prems(1)] Suc.IH [OF Suc.prems(1)] show ?case by blast
qed simp

lemma variant_error: "variant_ui du fs = Inl e \<Longrightarrow> e = NotADict"
  by (auto simp: variant_ui_def split: option.splits pvalue.splits)

lemma variants_error: "mapE (variant_ui du) xs = Inl e \<Longrightarrow> e = NotADict"
  using mapE_error [of "variant_ui du" xs e] variant_error by blast

lemma process_error:
  "process_entries du fs ui = Inl e \<Longrightarrow> e = NotADict" "process_value du k v ui = Inl e \<Longrightarrow> e = NotADict"
  "process_props du ps ui = Inl e \<Longrightarrow> e = NotADict"
  by (induction du fs ui and du k v ui and du ps ui rule: process_entries_process_value_process_props.induct)
    (auto dest: variant_error variants_error split: sum.splits prod.splits if_splits)

lemma object_entry_error:
  assumes "process_object_entry n du defs entry acc = Inl Recursion" and "entry \<in> set schema"
  shows "\<exists>g ui. g \<in> set (calls defs schema) \<and> extract_ui n defs g ui = Inl Recursion"
proof (rule ccontr)
  assume no: "\<nexists>g ui. g \<in> set (calls defs schema) \<and> extract_ui n defs g ui = Inl Recursion"
  obtain key v where en: "entry = (key, v)" by (cases entry)
  obtain json ui where acc: "acc = (json, ui)" by (cases acc)
  from no assms(2) have no: "g \<in> set (entry_calls defs (key, v)) \<Longrightarrow> extract_ui n defs g ui' \<noteq> Inl Recursion" for g ui'
    by (auto simp: en calls_def)
  from assms(1) have k: "\<not> ui_key key" by (cases "ui_key key") (simp_all add: en acc process_object_entry_def)
  show False
  proof (cases v)
    case (PList xs)
    let ?gs = "filter_map dict_of xs"
    have g: "g \<in> set ?gs \<Longrightarrow> key \<in> list_keys \<Longrightarrow> extract_ui n defs g ui' \<noteq> Inl Recursion" for g ui'
      using no [of g ui'] k by (simp add: PList entry_calls_def)
    have "key \<in> list_keys \<Longrightarrow> foldE (extract_ui n defs) ?gs ui \<noteq> Inl Recursion"
      using foldE_error [of "extract_ui n defs" ?gs ui Recursion] g by blast
    moreover have "key \<in> list_keys \<Longrightarrow> mapE (\<lambda>fs. extract_ui n defs fs []) ?gs \<noteq> Inl Recursion"
      using mapE_error [of "\<lambda>fs. extract_ui n defs fs []" ?gs Recursion] g by blast
    moreover have "key = ''allOf'' \<or> key \<in> {''oneOf'', ''anyOf''} \<Longrightarrow> key \<in> list_keys" by (auto simp: list_keys_def)
    ultimately show False using assms(1) k
      unfolding en acc PList process_object_entry_def
      by (cases "key = ''allOf''"; cases "key \<in> {''oneOf'', ''anyOf''}") (simp_all split: sum.splits)
  next
    case (PStruct ps)
    have "key \<in> {''if'', ''then'', ''else''} \<Longrightarrow> extract_ui n defs ps ui \<noteq> Inl Recursion"
      using no [of ps ui] k by (auto simp: PStruct entry_calls_def object_keys_def)
    with assms(1) k process_error(2) [of du key v ui Recursion] show False
      unfolding en acc PStruct process_object_entry_def
      by (cases "key \<in> {''properties'', ''items''}"; cases "key = ''$defs''"; cases "key \<in> {''if'', ''then'', ''else''}")
        (simp_all del: process_value.simps split: sum.splits prod.splits)
  qed (use assms(1) k in \<open>simp_all add: en acc process_object_entry_def\<close>)
qed

lemma defs_entry: "(name, fs) \<in> set (filter_map (\<lambda>(name, v). map_option (Pair name) (dict_of v)) defs) \<longleftrightarrow> (name, PStruct fs) \<in> set defs"
  by (force simp: set_filter_map)

text \<open>
  C11: Splitting ends exactly without cyclic references. If no definition of the schema refers to itself,
  directly or through others, the call stack it needs is bounded; if one does (a model with a field of its own
  type), every call raises \<open>RecursionError\<close>, however deep the stack may grow.
\<close>

theorem split_ends_iff_acyclic:
  assumes "defs = schema_defs schema" and "all_dicts defs"
  shows "if \<forall>d\<in>bodies defs. \<not> (call_step defs)\<^sup>+\<^sup>+ d d
    then \<exists>N. \<forall>n\<ge>N. split_schema n schema \<noteq> Inl Recursion
    else \<forall>n. split_schema n schema = Inl Recursion"
proof (cases "\<forall>d\<in>bodies defs. \<not> (call_step defs)\<^sup>+\<^sup>+ d d")
  case True
  then have b: "\<forall>d\<in>bodies defs. Wellfounded.accp (call_step defs) d" by (simp add: bodies_accp_iff)
  have "Wellfounded.accp (call_step defs) fs" for fs using accp_from_bodies b by blast
  then have "\<exists>N. \<forall>n\<ge>N. \<forall>ui. \<exists>u. extract_ui n defs fs ui = Inr u" for fs using accp_extracts [OF assms(2)] by blast
  from common_bound [of "calls defs schema @ filter_map (\<lambda>(name, v). dict_of v) defs" "\<lambda>fs n. \<forall>ui. \<exists>u. extract_ui n defs fs ui = Inr u", OF this]
  obtain N where N: "\<forall>g\<in>set (calls defs schema @ filter_map (\<lambda>(name, v). dict_of v) defs). \<forall>n\<ge>N. \<forall>ui. \<exists>u. extract_ui n defs g ui = Inr u" ..
  have "split_schema n schema \<noteq> Inl Recursion" if n: "N \<le> n" for n
  proof -
    have "\<exists>du. defs_ui_of n defs = Inr du"
      unfolding defs_ui_of_def
    proof (rule mapE_total)
      fix x assume x: "x \<in> set (filter_map (\<lambda>(name, v). map_option (Pair name) (dict_of v)) defs)"
      obtain name fs where nf: "x = (name, fs)" by (cases x)
      with x have "fs \<in> set (filter_map (\<lambda>(name, v). dict_of v) defs)" by (force simp: set_filter_map)
      with N n obtain u where "extract_ui n defs fs [] = Inr u" by fastforce
      then show "\<exists>y. (case x of (name, fs) \<Rightarrow> case extract_ui n defs fs [] of Inl e \<Rightarrow> Inl e | Inr u \<Rightarrow> Inr (name, u)) = Inr y"
        by (simp add: nf)
    qed
    then obtain du where du: "defs_ui_of n defs = Inr du" ..
    have "foldE (process_object_entry n du defs) schema ([], []) \<noteq> Inl Recursion"
    proof
      assume "foldE (process_object_entry n du defs) schema ([], []) = Inl Recursion"
      from foldE_error [OF this] obtain entry acc where "entry \<in> set schema" "process_object_entry n du defs entry acc = Inl Recursion" by blast
      from object_entry_error [OF this(2,1)] obtain g ui where "g \<in> set (calls defs schema)" "extract_ui n defs g ui = Inl Recursion" by blast
      moreover from this(1) N n have "\<exists>u. extract_ui n defs g ui = Inr u" by simp
      ultimately show False by simp
    qed
    with du assms(1) show ?thesis by (simp add: split_schema_def)
  qed
  with True show ?thesis by auto
next
  case False
  then obtain d where d: "d \<in> bodies defs" "\<not> Wellfounded.accp (call_step defs) d" using bodies_accp_iff by blast
  then obtain name where name: "(name, PStruct d) \<in> set defs" by (auto simp: bodies_def)
  have "defs_ui_of n defs = Inl Recursion" for n
  proof (cases "defs_ui_of n defs")
    case (Inl e)
    from mapE_error [OF this [unfolded defs_ui_of_def]] obtain name fs
      where x: "(case extract_ui n defs fs [] of Inl e \<Rightarrow> Inl e | Inr u \<Rightarrow> Inr (name, u)) = (Inl e :: schema_exc + string \<times> pstruct)" by auto
    then have "extract_ui n defs fs [] = Inl e" by (cases "extract_ui n defs fs []") simp_all
    from extract_error [OF assms(2) this] Inl show ?thesis by simp
  next
    case (Inr du)
    have "(name, d) \<in> set (filter_map (\<lambda>(name, v). map_option (Pair name) (dict_of v)) defs)" using name by (simp only: defs_entry)
    from mapE_success [OF Inr [unfolded defs_ui_of_def] this] obtain u where "extract_ui n defs d [] = Inr u"
      by (cases "extract_ui n defs d []") auto
    from extracts_accp [OF this] d(2) show ?thesis by contradiction
  qed
  then have "\<forall>n. split_schema n schema = Inl Recursion" by (simp add: split_schema_def flip: assms(1))
  then show ?thesis unfolding if_not_P [OF False] .
qed

definition node_demo :: pstruct where
  "node_demo = [(''properties'', PStruct [(''child'', PStruct [(''$ref'', PStr ''#/$defs/Node'')])])]"

definition tree_demo :: pstruct where
  "tree_demo = [(''$defs'', PStruct [(''Node'', PStruct node_demo)]), (''properties'', PStruct [(''root'', PStruct [(''$ref'', PStr ''#/$defs/Node'')])])]"

theorem split_ends_iff_acyclic_witness: "split_schema 1000 tree_demo = Inl Recursion"
proof -
  let ?defs = "schema_defs tree_demo"
  have a: "all_dicts ?defs" by code_simp
  have b: "node_demo \<in> bodies ?defs"
    by (simp add: bodies_def schema_defs_def tree_demo_def od_get_def)
  have "call_step ?defs [(''$ref'', PStr ''#/$defs/Node'')] node_demo"
    unfolding call_step_def by code_simp
  moreover have "call_step ?defs node_demo [(''$ref'', PStr ''#/$defs/Node'')]"
    unfolding call_step_def by code_simp
  ultimately have "(call_step ?defs)\<^sup>+\<^sup>+ node_demo node_demo" by (meson tranclp.r_into_trancl tranclp.trancl_into_trancl)
  with split_ends_iff_acyclic [OF refl a] b show ?thesis by (auto split: if_splits)
qed

section \<open>The JSON schema\<close>

text \<open>
  Inside properties only \<open>properties\<close>, \<open>items\<close>, \<open>oneOf\<close> and \<open>anyOf\<close> are treated: a schema is tidy if the other composed keys
  there hold no key of the form.
\<close>

fun tidy :: "pstruct \<Rightarrow> bool"
  and tidy_value :: "string \<Rightarrow> pvalue \<Rightarrow> bool"
  and tidy_props :: "pstruct \<Rightarrow> bool" where
  "tidy [] = True"
| "tidy ((k, v) # fs) = ((ui_key k \<or> tidy_value k v) \<and> tidy fs)"
| "tidy_value k (PStruct ps) =
     (if k = ''properties'' then tidy_props ps else if k = ''items'' then tidy ps else clean_value k (PStruct ps))"
| "tidy_value k (PList xs) = (k \<in> {''oneOf'', ''anyOf''} \<or> clean_value k (PList xs))"
| "tidy_value k v = True"
| "tidy_props [] = True"
| "tidy_props ((p, PStruct fs) # ps) = (tidy fs \<and> tidy_props ps)"
| "tidy_props ((p, v) # ps) = tidy_props ps"

lemma process_strips:
  "tidy fs \<Longrightarrow> process_entries du fs ui = Inr (js, ui') \<Longrightarrow> js = strip_ui fs"
  "tidy_value k v \<Longrightarrow> process_value du k v ui = Inr (j, ui') \<Longrightarrow> j = strip_value k v"
  "tidy_props ps \<Longrightarrow> process_props du ps ui = Inr (qs, ui') \<Longrightarrow> qs = strip_props ps"
  by (induction du fs ui and du k v ui and du ps ui arbitrary: js ui' and j ui' and qs ui' rule: process_entries_process_value_process_props.induct)
    (auto simp: map_keys_def object_keys_def list_keys_def clean_strip split: sum.splits if_splits)

text \<open>The keys of the whole schema: inside properties and items it must be tidy.\<close>

definition tidy_schema :: "pstruct \<Rightarrow> bool" where
  "tidy_schema schema \<longleftrightarrow> (\<forall>(k, v)\<in>set schema. k \<in> {''properties'', ''items''} \<longrightarrow> tidy_value k v)"

lemma object_entry_strips:
  assumes "process_object_entry n du defs (k, v) (json, ui) = Inr (json', ui')" and "k \<in> {''properties'', ''items''} \<Longrightarrow> tidy_value k v"
  shows "json' = json @ strip_ui [(k, v)]"
proof (cases "ui_key k")
  case True
  with assms(1) show ?thesis by (simp add: process_object_entry_def)
next
  case False
  show ?thesis
  proof (cases v)
    case (PList xs)
    with assms(1) False show ?thesis
      unfolding PList process_object_entry_def
      by (cases "k = ''allOf''"; cases "k \<in> {''oneOf'', ''anyOf''}") (auto simp: list_keys_def split: sum.splits)
  next
    case (PStruct ps)
    show ?thesis
    proof (cases "k \<in> {''properties'', ''items''}")
      case True
      then obtain j where "process_value du k v ui = Inr (j, ui')" "json' = json @ [(k, j)]"
        using assms(1) False PStruct by (auto simp: process_object_entry_def simp del: process_value.simps split: sum.splits prod.splits)
      with process_strips(2) [OF assms(2) [OF True]] False show ?thesis by (simp del: strip_value.simps)
    next
      case other: False
      with assms(1) False show ?thesis
        unfolding PStruct process_object_entry_def
        by (cases "k = ''$defs''"; cases "k \<in> {''if'', ''then'', ''else''}") (auto simp: map_keys_def object_keys_def split: sum.splits)
    qed
  qed (use assms(1) False in \<open>simp_all add: process_object_entry_def\<close>)
qed

lemma strip_append: "strip_ui (fs @ gs) = strip_ui fs @ strip_ui gs"
  by (induction fs) auto

lemma object_strips:
  assumes "tidy_schema schema" and "foldE (process_object_entry n du defs) schema (json, ui) = Inr (json', ui')"
  shows "json' = json @ strip_ui schema"
  using assms
proof (induction schema arbitrary: json ui)
  case (Cons entry schema)
  obtain k v where kv: "entry = (k, v)" by (cases entry)
  obtain j1 u1 where s: "process_object_entry n du defs (k, v) (json, ui) = Inr (j1, u1)"
    and r: "foldE (process_object_entry n du defs) schema (j1, u1) = Inr (json', ui')"
    using Cons.prems(2) by (auto simp: kv split: sum.splits)
  from Cons.prems(1) have t: "tidy_schema schema" "k \<in> {''properties'', ''items''} \<Longrightarrow> tidy_value k v" by (auto simp: tidy_schema_def kv)
  from object_entry_strips [OF s t(2)] Cons.IH [OF t(1) r] have "json' = json @ strip_ui [(k, v)] @ strip_ui schema" by simp
  then show ?case using strip_append [of "[(k, v)]" schema] by (simp only: kv append_Cons append_Nil)
qed simp

lemma split_strips: "tidy_schema schema \<Longrightarrow> split_schema n schema = Inr (json, ui) \<Longrightarrow> json = strip_ui schema"
  by (auto simp: split_schema_def split: sum.splits dest!: object_strips)


definition form_demo :: pstruct where
  "form_demo = [(''ui:order'', PList []), (''properties'', PStruct [(''name'', PStruct [(''type'', PStr ''string''), (''ui:widget'', PStr ''text'')])]),
     (''allOf'', PList [PStruct [(''then'', PStruct [(''ui:hidden'', PBool True)])]])]"


text \<open>Without the condition a key of the form stays in the JSON schema: \<open>allOf\<close> inside a property is copied as it is.\<close>

lemma nested_all_of_leaks:
  "split_schema n [(''properties'', PStruct [(''p'', PStruct [(''allOf'', PList [PStruct [(''ui:widget'', v)]])])])]
    = Inr ([(''properties'', PStruct [(''p'', PStruct [(''allOf'', PList [PStruct [(''ui:widget'', v)]])])])], [])"
  by (simp add: split_schema_def schema_defs_def defs_ui_of_def od_get_def process_object_entry_def ui_key_def starts_with_def variant_ui_def set_found_def)

end
