(* ===== verification/Conditional_Schema.thy ===== *)
theory Conditional_Schema
  imports Struct_Value
begin

text \<open>
  \<open>utils/conditional_schema.py\<close>: fields that are shown only when another field has a given value are moved from the
  properties of a model's JSON schema into conditional clauses. The model's fields come with their
  \<open>Conditional\<close> metadata, if any; pydantic's resolution of a referenced schema is the parameter \<open>resolve\<close>.
\<close>

section \<open>Conditions\<close>

datatype show_when = ShowBool bool | ShowText string | ShowList "string list"

record conditional_field =
  cf_trigger :: string
  cf_show_when :: show_when
  cf_required :: bool

text \<open>\<open>__post_init__\<close>: a list of one value is that value.\<close>

definition post_init :: "conditional_field \<Rightarrow> conditional_field" where
  "post_init c = (case cf_show_when c of ShowList [x] \<Rightarrow> c\<lparr>cf_show_when := ShowText x\<rparr> | _ \<Rightarrow> c)"

type_synonym conditions = "(string \<times> show_when, (string \<times> bool) list) odict"

text \<open>The metadata of a field is a list; the first conditional entry counts.\<close>

datatype 'm field_meta = Conditional conditional_field | OtherMeta 'm

fun get_conditional_metadata :: "'m field_meta list \<Rightarrow> conditional_field option" where
  "get_conditional_metadata [] = None"
| "get_conditional_metadata (Conditional c # ms) = Some c"
| "get_conditional_metadata (OtherMeta m # ms) = get_conditional_metadata ms"

definition has_conditional :: "'m field_meta list \<Rightarrow> bool" where
  "has_conditional ms \<longleftrightarrow> get_conditional_metadata ms \<noteq> None"

text \<open>The condition under which a field that is in the schema is shown.\<close>

definition condition_of :: "pstruct \<Rightarrow> string \<times> 'm field_meta list \<Rightarrow> ((string \<times> show_when) \<times> string \<times> bool) option" where
  "condition_of props f = (case get_conditional_metadata (snd f) of
     None \<Rightarrow> None
   | Some c \<Rightarrow> if od_has props (fst f) then Some ((cf_trigger c, cf_show_when c), fst f, cf_required c) else None)"

definition collect_field :: "pstruct \<Rightarrow> string \<times> 'm field_meta list \<Rightarrow> conditions \<times> string list \<Rightarrow> conditions \<times> string list" where
  "collect_field props f acc = (case acc of (conds, removed) \<Rightarrow>
     case condition_of props f of
       None \<Rightarrow> acc
     | Some (key, entry) \<Rightarrow>
         (od_set key ((case od_get conds key of None \<Rightarrow> [] | Some xs \<Rightarrow> xs) @ [entry]) conds, fst f # removed))"

definition collect_conditions :: "(string \<times> 'm field_meta list) list \<Rightarrow> pstruct \<Rightarrow> conditions \<times> string set" where
  "collect_conditions flds props =
     (case fold (collect_field props) flds ([], []) of (conds, removed) \<Rightarrow> (conds, set removed))"

section \<open>The schema\<close>

definition build_if_clause :: "string \<Rightarrow> show_when \<Rightarrow> pvalue" where
  "build_if_clause trigger w = PStruct
     [(''properties'', PStruct [(trigger, PStruct [case w of
          ShowList xs \<Rightarrow> (''enum'', PList (map PStr xs))
        | ShowBool b \<Rightarrow> (''const'', PBool b)
        | ShowText x \<Rightarrow> (''const'', PStr x)])]),
      (''required'', PList [PStr trigger])]"

text \<open>\<open>{**resolved, **extra}\<close>\<close>

definition resolve_field_schema :: "(pstruct \<Rightarrow> pstruct) \<Rightarrow> pstruct \<Rightarrow> pstruct" where
  "resolve_field_schema resolve s =
     (if \<not> od_has s ''$ref'' then s
      else fold (\<lambda>(k, v) d. od_set k v d) (filter (\<lambda>(k, v). k \<noteq> ''$ref'') s) (resolve s))"

definition then_props :: "(pstruct \<Rightarrow> pstruct) \<Rightarrow> pstruct \<Rightarrow> (string \<times> bool) list \<Rightarrow> pstruct" where
  "then_props resolve props fs = map (\<lambda>(f, req). (f, PStruct (resolve_field_schema resolve
     (case od_get props f of None \<Rightarrow> [] | Some v \<Rightarrow> struct_value v)))) fs"

definition clause :: "(pstruct \<Rightarrow> pstruct) \<Rightarrow> pstruct \<Rightarrow> (string \<times> show_when) \<times> (string \<times> bool) list \<Rightarrow> pvalue" where
  "clause resolve props c = (case c of ((trigger, w), fs) \<Rightarrow>
     let needed = map fst (filter snd fs) in PStruct
       [(''if'', build_if_clause trigger w),
        (''then'', PStruct ((''properties'', PStruct (then_props resolve props fs))
           # (if needed = [] then [] else [(''required'', PList (map PStr needed))])))])"

fun drop_names :: "string set \<Rightarrow> pvalue \<Rightarrow> pvalue" where
  "drop_names names (PList xs) = PList (filter (\<lambda>x. x \<notin> PStr ` names) xs)"
| "drop_names names v = v"

fun list_value :: "pvalue \<Rightarrow> pvalue list" where
  "list_value (PList xs) = xs"
| "list_value _ = []"

definition conditional_json_schema :: "(pstruct \<Rightarrow> pstruct) \<Rightarrow> (string \<times> 'm field_meta list) list \<Rightarrow> pstruct \<Rightarrow> pstruct" where
  "conditional_json_schema resolve flds schema =
     (let props = (case od_get schema ''properties'' of None \<Rightarrow> [] | Some v \<Rightarrow> struct_value v);
          (conds, removed) = collect_conditions flds props
      in if props = [] \<or> conds = [] then schema
         else
           let all_of = (case od_get schema ''allOf'' of None \<Rightarrow> [] | Some v \<Rightarrow> list_value v);
               s1 = od_set ''allOf'' (PList (all_of @ map (clause resolve props) conds)) schema;
               s2 = od_set ''properties'' (PStruct (filter (\<lambda>(f, v). f \<notin> removed) props)) s1
           in case od_get s2 ''required'' of
                None \<Rightarrow> s2
              | Some r \<Rightarrow> od_set ''required'' (drop_names removed r) s2)"

section \<open>Every conditional field is in the clause of its condition\<close>

text \<open>The entries that belong to a condition, in the order of the fields.\<close>

definition entries_for :: "pstruct \<Rightarrow> (string \<times> 'm field_meta list) list \<Rightarrow> string \<times> show_when \<Rightarrow> (string \<times> bool) list" where
  "entries_for props flds key = filter_map (\<lambda>f. case condition_of props f of
     None \<Rightarrow> None | Some (k, e) \<Rightarrow> if k = key then Some e else None) flds"

definition moved_fields :: "pstruct \<Rightarrow> (string \<times> 'm field_meta list) list \<Rightarrow> string set" where
  "moved_fields props flds = fst ` set (filter (\<lambda>f. condition_of props f \<noteq> None) flds)"

definition entries :: "conditions \<Rightarrow> string \<times> show_when \<Rightarrow> (string \<times> bool) list" where
  "entries conds key = (case od_get conds key of None \<Rightarrow> [] | Some xs \<Rightarrow> xs)"

definition conds_ok :: "conditions \<Rightarrow> bool" where
  "conds_ok conds \<longleftrightarrow> od_wf conds \<and> (\<forall>k. od_get conds k \<noteq> Some [])"

lemma collect_field_some:
  "condition_of props f = Some (k, e) \<Longrightarrow>
    collect_field props f (conds, removed) = (od_set k (entries conds k @ [e]) conds, fst f # removed)"
  by (simp add: collect_field_def entries_def)

lemma entries_set: "entries (od_set k xs conds) key = (if key = k then xs else entries conds key)"
  by (simp add: entries_def)

lemma conds_ok_set: "conds_ok conds \<Longrightarrow> xs \<noteq> [] \<Longrightarrow> conds_ok (od_set k xs conds)"
  by (simp add: conds_ok_def)

lemma collect_fold:
  assumes "fold (collect_field props) flds (conds, removed) = (conds', removed')"
  shows "entries conds' key = entries conds key @ entries_for props flds key
    \<and> set removed' = set removed \<union> moved_fields props flds \<and> (conds_ok conds \<longrightarrow> conds_ok conds')"
  using assms
proof (induction flds arbitrary: conds removed)
  case (Cons f flds)
  show ?case
  proof (cases "condition_of props f")
    case None
    then have "collect_field props f (conds, removed) = (conds, removed)" by (simp add: collect_field_def)
    with Cons.IH [of conds removed] Cons.prems None show ?thesis by (simp add: entries_for_def moved_fields_def)
  next
    case (Some ke)
    obtain k e where ke: "ke = (k, e)" by (cases ke)
    from Cons.prems collect_field_some [OF Some [unfolded ke], of conds removed]
    have "fold (collect_field props) flds (od_set k (entries conds k @ [e]) conds, fst f # removed) = (conds', removed')" by simp
    note ih = Cons.IH [OF this]
    have "entries_for props (f # flds) key = (if key = k then [e] else []) @ entries_for props flds key"
      by (simp add: entries_for_def Some ke)
    with ih have "entries conds' key = entries conds key @ entries_for props (f # flds) key" by (simp add: entries_set split: if_splits)
    moreover have "moved_fields props (f # flds) = insert (fst f) (moved_fields props flds)"
      using Some by (simp add: moved_fields_def del: not_None_eq split_paired_Ex)
    then have "set removed' = set removed \<union> moved_fields props (f # flds)" using ih by simp
    moreover have "conds_ok conds \<longrightarrow> conds_ok conds'" using ih conds_ok_set [of conds "entries conds k @ [e]" k] by simp
    ultimately show ?thesis by simp
  qed
qed (simp add: entries_for_def moved_fields_def)

lemma collect_exact:
  assumes "collect_conditions flds props = (conds, removed)"
  shows "od_get conds key = (if entries_for props flds key = [] then None else Some (entries_for props flds key))"
    and "od_wf conds" and "removed = moved_fields props flds"
proof -
  obtain rem where r: "fold (collect_field props) flds ([], []) = (conds, rem)" "removed = set rem"
    using assms by (auto simp: collect_conditions_def split: prod.splits)
  note c = collect_fold [OF r(1), of key]
  have ok: "conds_ok conds" using c by (simp add: conds_ok_def)
  then show "od_wf conds" by (simp add: conds_ok_def)
  show "removed = moved_fields props flds" using c r(2) by simp
  have "od_get conds key \<noteq> Some []" using ok unfolding conds_ok_def by blast
  then show "od_get conds key = (if entries_for props flds key = [] then None else Some (entries_for props flds key))"
    using c by (cases "od_get conds key") (simp_all add: entries_def)
qed

text \<open>
  No conditional field is lost and none is shown twice. In the schema that results the properties are exactly the fields
  without a condition; the clauses appended have pairwise different conditions; the clause of a condition holds exactly its
  fields, in order, each with its resolved schema and required there if its condition says so; and the schema itself
  requires no field that was moved.
\<close>

theorem conditional_schema_exact:
  assumes "od_get schema ''properties'' = Some (PStruct props)" and "collect_conditions flds props = (conds, removed)" and "conds \<noteq> []" and "props \<noteq> []"
    and "od_get schema ''required'' = Some (PList req)"
    and "s = conditional_json_schema resolve flds schema"
  shows "od_get s ''properties'' = Some (PStruct (filter (\<lambda>(f, v). f \<notin> moved_fields props flds) props))
    \<and> distinct (map fst conds)
    \<and> od_get s ''allOf'' = Some (PList ((case od_get schema ''allOf'' of None \<Rightarrow> [] | Some v \<Rightarrow> list_value v)
         @ map (\<lambda>c. clause resolve props (fst c, entries_for props flds (fst c))) conds))
    \<and> fst ` set conds = {key. entries_for props flds key \<noteq> []}
    \<and> od_get s ''required'' = Some (PList (filter (\<lambda>x. x \<notin> PStr ` moved_fields props flds) req))"
proof -
  note c = collect_exact [OF assms(2)]
  have wf: "distinct (map fst conds)" using c(2) by (simp add: od_wf_def)
  have e: "snd x = entries_for props flds (fst x)" if "x \<in> set conds" for x
    using c(1) [of "fst x"] od_get_Some_iff [OF c(2), of "fst x" "snd x"] that by (auto split: if_splits)
  then have m: "map (clause resolve props) conds = map (\<lambda>c. clause resolve props (fst c, entries_for props flds (fst c))) conds"
    by (intro map_cong refl arg_cong [of _ _ "clause resolve props"]) (metis prod.collapse)
  have d: "fst ` set conds = {key. entries_for props flds key \<noteq> []}"
    using od_get_None_iff [of conds] c(1) by (metis (mono_tags, lifting) Collect_cong Collect_mem_eq option.distinct(1))
  show ?thesis
    using assms(1-5) wf m d by (simp add: assms(6) conditional_json_schema_def Let_def c(3))
qed

definition cond_demo :: "(string \<times> nat field_meta list) list" where
  "cond_demo = [(''mode'', []), (''key'', [OtherMeta 1, Conditional \<lparr>cf_trigger = ''mode'', cf_show_when = ShowText ''api'', cf_required = True\<rparr>])]"

definition cond_schema :: pstruct where
  "cond_schema = [(''properties'', PStruct [(''mode'', PStruct []), (''key'', PStruct [(''type'', PStr ''string'')])]), (''required'', PList [PStr ''mode'', PStr ''key''])]"

theorem conditional_schema_exact_witness:
  "od_get (conditional_json_schema id cond_demo cond_schema) ''properties'' = Some (PStruct [(''mode'', PStruct [])])"
proof -
  let ?props = "[(''mode'', PStruct []), (''key'', PStruct [(''type'', PStr ''string'')])]"
  let ?c = "[((''mode'', ShowText ''api''), [(''key'', True)])]"
  have p: "od_get cond_schema ''properties'' = Some (PStruct ?props)" by code_simp
  have c: "collect_conditions cond_demo ?props = (?c, {''key''})" by code_simp
  have r: "od_get cond_schema ''required'' = Some (PList [PStr ''mode'', PStr ''key''])" by code_simp
  have k: "filter (\<lambda>(f, v). f \<notin> moved_fields ?props cond_demo) ?props = [(''mode'', PStruct [])]" by code_simp
  show ?thesis using conditional_schema_exact [OF p c _ _ r refl, of id, THEN conjunct1] unfolding k by simp
qed

end
