(* ===== verification/Content_Validator.thy ===== *)
theory Content_Validator
  imports Struct_Value
begin

text \<open>
  \<open>utils/setup_content_validator.py\<close>: the checks a setup's content passes before it is written. A JSON schema is
  compiled to a type that pydantic validates the content against; the compiled type is data here (the arguments of
  \<open>create_model\<close>), and validating against it is a parameter. Text whose characters are judged is a list of code
  points. The nesting of calls is bounded by a number, as the interpreter bounds it.
\<close>

section \<open>Characters and keys\<close>

type_synonym points = "nat list"

datatype content = CDict "(points \<times> content) list" | CList "content list" | CText points | CScalar

definition control_char :: "nat \<Rightarrow> bool" where
  "control_char c \<longleftrightarrow> c < 32 \<and> c \<notin> {9, 10, 13}"

definition reject_control_chars :: "points \<Rightarrow> bool" where
  "reject_control_chars s \<longleftrightarrow> (\<exists>c\<in>set s. control_char c)"

definition unsafe_char :: "nat \<Rightarrow> bool" where
  "unsafe_char c \<longleftrightarrow> 65535 < c \<or> control_char c"

definition unsafe_key :: "points \<Rightarrow> bool" where
  "unsafe_key k \<longleftrightarrow> (\<exists>c\<in>set k. unsafe_char c)"

text \<open>\<open>f"{path}.{key}" if path else key\<close>\<close>

definition where_path :: "points \<Rightarrow> points \<Rightarrow> points" where
  "where_path path k = (if path = [] then k else path @ 46 # k)"

text \<open>The keys of one dictionary: the first unsafe one, or the stack with the values pushed.\<close>

fun push_keys :: "points \<Rightarrow> (points \<times> content) list \<Rightarrow> (points \<times> content) list \<Rightarrow> points + (points \<times> content) list" where
  "push_keys path [] st = Inr st"
| "push_keys path ((k, v) # kvs) st =
     (if unsafe_key k then Inl (where_path path k) else push_keys path kvs ((where_path path k, v) # st))"

fun csize :: "content \<Rightarrow> nat" where
  "csize (CDict kvs) = Suc (sum_list (map (\<lambda>(k, v). csize v) kvs))"
| "csize (CList xs) = Suc (sum_list (map csize xs))"
| "csize (CText s) = 1"
| "csize CScalar = 1"

definition stack_size :: "(points \<times> content) list \<Rightarrow> nat" where
  "stack_size st = sum_list (map (\<lambda>(p, v). csize v) st)"

lemma stack_size_simps [simp]:
  "stack_size [] = 0" "stack_size ((p, v) # st) = csize v + stack_size st"
  "stack_size (st @ st') = stack_size st + stack_size st'" "stack_size (rev st) = stack_size st"
  "stack_size (map (Pair p) xs) = sum_list (map csize xs)"
  by (simp_all add: stack_size_def sum_list_rev rev_map [symmetric] comp_def)

lemma push_keys_size:
  "push_keys path kvs st = Inr st' \<Longrightarrow> stack_size st' = stack_size st + sum_list (map (\<lambda>(k, v). csize v) kvs)"
  by (induction path kvs st rule: push_keys.induct) (auto split: if_splits)

text \<open>\<open>reject_unsafe_keys\<close>: the path of an unsafe key, or \<open>None\<close> if the content passes.\<close>

function scan_keys :: "(points \<times> content) list \<Rightarrow> points option" where
  "scan_keys [] = None"
| "scan_keys ((path, CDict kvs) # st) = (case push_keys path kvs st of Inl w \<Rightarrow> Some w | Inr st' \<Rightarrow> scan_keys st')"
| "scan_keys ((path, CList xs) # st) = scan_keys (rev (map (Pair path) xs) @ st)"
| "scan_keys ((path, CText s) # st) = scan_keys st"
| "scan_keys ((path, CScalar) # st) = scan_keys st"
  by pat_completeness auto

termination
  by (relation "measure stack_size") (auto dest: push_keys_size)

definition reject_unsafe_keys :: "content \<Rightarrow> points option" where
  "reject_unsafe_keys c = scan_keys [([], c)]"

text \<open>The keys at every depth, with the path the code would report them under.\<close>

fun key_paths :: "points \<Rightarrow> content \<Rightarrow> (points \<times> points) list" where
  "key_paths path (CDict kvs) = concat (map (\<lambda>(k, v). (where_path path k, k) # key_paths (where_path path k) v) kvs)"
| "key_paths path (CList xs) = concat (map (key_paths path) xs)"
| "key_paths path (CText s) = []"
| "key_paths path CScalar = []"

definition stack_keys :: "(points \<times> content) list \<Rightarrow> (points \<times> points) set" where
  "stack_keys st = (\<Union>(p, v)\<in>set st. set (key_paths p v))"

lemma stack_keys_simps [simp]:
  "stack_keys [] = {}" "stack_keys ((p, v) # st) = set (key_paths p v) \<union> stack_keys st"
  "stack_keys (st @ st') = stack_keys st \<union> stack_keys st'" "stack_keys (rev st) = stack_keys st"
  "stack_keys (map (Pair p) xs) = set (key_paths p (CList xs))"
  by (auto simp: stack_keys_def)

text \<open>The paths of unsafe keys.\<close>

definition bad_paths :: "(points \<times> points) set \<Rightarrow> points set" where
  "bad_paths S = {w. \<exists>k. (w, k) \<in> S \<and> unsafe_key k}"

lemma bad_paths_simps [simp]:
  "bad_paths {} = {}" "bad_paths (S \<union> T) = bad_paths S \<union> bad_paths T"
  "bad_paths (insert (w, k) S) = (if unsafe_key k then insert w (bad_paths S) else bad_paths S)"
  by (auto simp: bad_paths_def)

lemma key_paths_Cons:
  "set (key_paths path (CDict ((k, v) # kvs))) =
     insert (where_path path k, k) (set (key_paths (where_path path k) v) \<union> set (key_paths path (CDict kvs)))"
  by auto

lemma push_keys_paths:
  "(case push_keys path kvs st of
      Inl w \<Rightarrow> w \<in> bad_paths (set (key_paths path (CDict kvs)))
    | Inr st' \<Rightarrow> bad_paths (stack_keys st') = bad_paths (stack_keys st) \<union> bad_paths (set (key_paths path (CDict kvs))))"
proof (induction path kvs st rule: push_keys.induct)
  case (2 path k v kvs st)
  show ?case
  proof (cases "unsafe_key k")
    case False
    from "2.IH" [OF False] show ?thesis unfolding key_paths_Cons using False
      by (simp split: sum.splits add: ac_simps)
  qed (simp add: key_paths_Cons del: key_paths.simps)
qed simp

lemma scan_keys_exact:
  "(case scan_keys st of None \<Rightarrow> bad_paths (stack_keys st) = {} | Some w \<Rightarrow> w \<in> bad_paths (stack_keys st))"
proof (induction st rule: scan_keys.induct)
  case (2 path kvs st)
  have p: "case push_keys path kvs st of
      Inl w \<Rightarrow> w \<in> bad_paths (set (key_paths path (CDict kvs)))
    | Inr st' \<Rightarrow> bad_paths (stack_keys st') = bad_paths (stack_keys st) \<union> bad_paths (set (key_paths path (CDict kvs)))"
    by (rule push_keys_paths)
  show ?case
  proof (cases "push_keys path kvs st")
    case (Inl w)
    with p show ?thesis by (simp del: key_paths.simps)
  next
    case (Inr st')
    with p "2.IH" [OF Inr] show ?thesis by (simp del: key_paths.simps add: ac_simps split: option.splits)
  qed
qed (simp_all split: option.splits)


section \<open>Schemas\<close>

text \<open>
  A JSON document as Python has it, where whole numbers and floating-point numbers differ. A schema that comes over
  the wire is a \<open>Struct\<close> whose numbers all become floats.
\<close>

datatype jvalue = JNull | JBool bool | JInt int | JFloat real | JStr string | JList "jvalue list" | JDict "(string \<times> jvalue) list"

type_synonym jobject = "(string, jvalue) odict"

fun from_wire :: "pvalue \<Rightarrow> jvalue" where
  "from_wire PNull = JNull"
| "from_wire (PNum x) = JFloat x"
| "from_wire (PBool b) = JBool b"
| "from_wire (PStr s) = JStr s"
| "from_wire (PList xs) = JList (map from_wire xs)"
| "from_wire (PStruct fs) = JDict (map (\<lambda>(k, v). (k, from_wire v)) fs)"

definition j_dict :: "jvalue option \<Rightarrow> jobject" where
  "j_dict v = (case v of Some (JDict fs) \<Rightarrow> fs | _ \<Rightarrow> [])"

text \<open>
  The compiled types: \<open>Any\<close>, the Python classes, closed choices, models with their extra-key policy and fields, and
  the wrappings of \<open>_decorate\<close> and of \<open>| None\<close>.
\<close>

datatype pytype =
    PyAny | PyStr | PyInt | PyFloat | PyBool | PyList | PyDict | PyNone
  | PyLiteral "jvalue list"
  | PyModel bool "(string \<times> pytype \<times> bool \<times> (string \<times> jvalue) list) list"
  | PyListOf pytype
  | PyMapOf pytype
  | PyStrict pytype
  | PyOptional pytype

datatype compile_exc = TooDeep | NotIterable

definition json_to_py :: "string \<Rightarrow> pytype" where
  "json_to_py t = (if t = ''string'' then PyStr else if t = ''integer'' then PyInt else if t = ''number'' then PyFloat
     else if t = ''boolean'' then PyBool else if t = ''array'' then PyList else if t = ''object'' then PyDict
     else if t = ''null'' then PyNone else PyAny)"

definition decorate :: "pytype \<Rightarrow> pytype" where
  "decorate py = (if py \<in> {PyStr, PyInt, PyFloat, PyBool} then PyStrict py else py)"

section \<open>Constraints\<close>

definition numeric_keys :: "(string \<times> string) list" where
  "numeric_keys = [(''minimum'', ''ge''), (''maximum'', ''le''), (''exclusiveMinimum'', ''gt''), (''exclusiveMaximum'', ''lt'')]"

definition length_keys :: "(string \<times> string) list" where
  "length_keys = [(''minLength'', ''min_length''), (''maxLength'', ''max_length''), (''pattern'', ''pattern''),
     (''minItems'', ''min_length''), (''maxItems'', ''max_length''), (''minProperties'', ''min_length''), (''maxProperties'', ''max_length'')]"

fun is_number :: "jvalue \<Rightarrow> bool" where
  "is_number (JInt i) = True"
| "is_number (JFloat x) = True"
| "is_number _ = False"

fun is_int :: "jvalue \<Rightarrow> bool" where
  "is_int (JInt i) = True"
| "is_int _ = False"

fun is_str :: "jvalue \<Rightarrow> bool" where
  "is_str (JStr s) = True"
| "is_str _ = False"

definition take_constraint :: "(string \<Rightarrow> jvalue \<Rightarrow> bool) \<Rightarrow> jobject \<Rightarrow> string \<times> string \<Rightarrow> jobject \<Rightarrow> jobject" where
  "take_constraint expected prop key cs = (case key of (schema_key, field_key) \<Rightarrow>
     case od_get prop schema_key of
       Some v \<Rightarrow> if expected field_key v then od_set field_key v cs else cs
     | None \<Rightarrow> cs)"

definition constraints :: "jobject \<Rightarrow> jobject" where
  "constraints prop =
     fold (take_constraint (\<lambda>f v. if f = ''pattern'' then is_str v else is_int v) prop) length_keys
       (fold (take_constraint (\<lambda>f v. is_number v) prop) numeric_keys [])"

section \<open>Compiling\<close>

definition literal_value :: "jvalue \<Rightarrow> bool" where
  "literal_value v = (case v of JStr s \<Rightarrow> True | JInt i \<Rightarrow> True | JBool b \<Rightarrow> True | _ \<Rightarrow> False)"

definition literal_type :: "jobject \<Rightarrow> (pytype \<times> bool) option" where
  "literal_type prop =
     (let values = (case od_get prop ''enum'' of
            Some (JList xs) \<Rightarrow> xs
          | _ \<Rightarrow> (case od_get prop ''const'' of Some v \<Rightarrow> [v] | None \<Rightarrow> []));
          usable = filter literal_value values
      in if usable = [] then None else Some (PyLiteral usable, JNull \<in> set values))"

text \<open>\<open>set(obj_schema.get("required", []))\<close>, of which only the names matter; a value that is not iterable raises.\<close>

definition hashable :: "jvalue \<Rightarrow> bool" where
  "hashable v = (case v of JList xs \<Rightarrow> False | JDict fs \<Rightarrow> False | _ \<Rightarrow> True)"

definition str_of :: "jvalue \<Rightarrow> string option" where
  "str_of v = (case v of JStr s \<Rightarrow> Some s | _ \<Rightarrow> None)"

definition required_names :: "jobject \<Rightarrow> compile_exc + string list" where
  "required_names obj = (case od_get obj ''required'' of
     None \<Rightarrow> Inr []
   | Some (JList xs) \<Rightarrow> if list_all hashable xs then Inr (filter_map str_of xs) else Inl NotIterable
   | Some (JStr s) \<Rightarrow> Inr (map (\<lambda>c. [c]) s)
   | Some (JDict fs) \<Rightarrow> Inr (map fst fs)
   | Some v \<Rightarrow> Inl NotIterable)"

definition is_identifier :: "string \<Rightarrow> bool" where
  "is_identifier s \<longleftrightarrow> s \<noteq> [] \<and> \<not> is_digit (hd s)
     \<and> list_all (\<lambda>c. is_lower c \<or> is_upper c \<or> is_digit c \<or> c = CHR ''_'') s"

definition compile_field ::
    "(jobject \<Rightarrow> compile_exc + pytype \<times> bool) \<Rightarrow> string list \<Rightarrow> string \<times> jvalue
      \<Rightarrow> compile_exc + string \<times> pytype \<times> bool \<times> (string \<times> jvalue) list" where
  "compile_field rec req entry = (case entry of (name, p) \<Rightarrow>
     let prop = j_dict (Some p) in
     case rec prop of
       Inl e \<Rightarrow> Inl e
     | Inr (py, nullable) \<Rightarrow>
         Inr (name, (if nullable \<and> py \<noteq> PyAny then PyOptional (decorate py) else decorate py), name \<in> set req, constraints prop))"

fun each :: "('a \<Rightarrow> 'e + 'b) \<Rightarrow> 'a list \<Rightarrow> 'e + 'b list" where
  "each f [] = Inr []"
| "each f (x # xs) = (case f x of Inl e \<Rightarrow> Inl e | Inr y \<Rightarrow> (case each f xs of Inl e \<Rightarrow> Inl e | Inr ys \<Rightarrow> Inr (y # ys)))"

definition build_model :: "(jobject \<Rightarrow> compile_exc + pytype \<times> bool) \<Rightarrow> jobject \<Rightarrow> compile_exc + pytype option" where
  "build_model rec obj = (case j_dict (od_get obj ''properties'') of
     [] \<Rightarrow> Inr None
   | props \<Rightarrow> (case required_names obj of
       Inl e \<Rightarrow> Inl e
     | Inr req \<Rightarrow> (case each (compile_field rec req) (filter (\<lambda>p. is_identifier (fst p)) props) of
         Inl e \<Rightarrow> Inl e
       | Inr [] \<Rightarrow> Inr None
       | Inr fs \<Rightarrow> Inr (Some (PyModel (od_get obj ''additionalProperties'' = Some (JBool True)) fs)))))"

definition element_type :: "pytype \<Rightarrow> bool \<Rightarrow> pytype" where
  "element_type py nullable = (if nullable then PyOptional (decorate py) else decorate py)"

definition mapping_type :: "(jobject \<Rightarrow> compile_exc + pytype \<times> bool) \<Rightarrow> jobject \<Rightarrow> compile_exc + pytype" where
  "mapping_type rec prop = (case j_dict (od_get prop ''additionalProperties'') of
     [] \<Rightarrow> Inr PyDict
   | a \<Rightarrow> (case rec a of
       Inl e \<Rightarrow> Inl e
     | Inr (py, nullable) \<Rightarrow> Inr (if py = PyAny then PyDict else PyMapOf (element_type py nullable))))"

definition list_type :: "(jobject \<Rightarrow> compile_exc + pytype \<times> bool) \<Rightarrow> jobject \<Rightarrow> compile_exc + pytype" where
  "list_type rec prop = (case j_dict (od_get prop ''items'') of
     [] \<Rightarrow> Inr PyList
   | a \<Rightarrow> (case rec a of
       Inl e \<Rightarrow> Inl e
     | Inr (py, nullable) \<Rightarrow> Inr (if py = PyAny then PyList else PyListOf (element_type py nullable))))"

text \<open>The branches of \<open>anyOf\<close>, or else of \<open>oneOf\<close>.\<close>

definition combinator :: "jobject \<Rightarrow> jvalue list option" where
  "combinator prop = (case od_get prop ''anyOf'' of
     Some (JList bs) \<Rightarrow> Some bs
   | _ \<Rightarrow> (case od_get prop ''oneOf'' of Some (JList bs) \<Rightarrow> Some bs | _ \<Rightarrow> None))"

definition null_branch :: "jvalue \<Rightarrow> bool" where
  "null_branch b = (case b of JDict fs \<Rightarrow> od_get fs ''type'' = Some (JStr ''null'') | _ \<Rightarrow> False)"

definition typed_branch :: "jvalue \<Rightarrow> jobject option" where
  "typed_branch b = (case b of JDict fs \<Rightarrow> if od_get fs ''type'' = Some (JStr ''null'') then None else Some fs | _ \<Rightarrow> None)"

definition combined_type :: "(jobject \<Rightarrow> compile_exc + pytype \<times> bool) \<Rightarrow> jvalue list \<Rightarrow> compile_exc + pytype \<times> bool" where
  "combined_type rec bs = (let nullable = list_ex null_branch bs in
     case filter_map typed_branch bs of
       [] \<Rightarrow> Inr (PyAny, nullable)
     | b # _ \<Rightarrow> (case rec b of Inl e \<Rightarrow> Inl e | Inr (py, inner) \<Rightarrow> Inr (py, nullable \<or> inner)))"

text \<open>A property with a \<open>type\<close>, or a list of types of which the first but \<open>null\<close> counts.\<close>

definition declared_type :: "jobject \<Rightarrow> bool \<times> jvalue option" where
  "declared_type prop = (case od_get prop ''type'' of
     Some (JList ts) \<Rightarrow> (JStr ''null'' \<in> set ts, find (\<lambda>t. t \<noteq> JStr ''null'') ts)
   | t \<Rightarrow> (False, t))"

definition typed :: "(jobject \<Rightarrow> compile_exc + pytype \<times> bool) \<Rightarrow> jobject \<Rightarrow> compile_exc + pytype \<times> bool" where
  "typed rec prop = (case declared_type prop of (nullable, t) \<Rightarrow>
     map_sum id (\<lambda>py. (py, nullable))
       (if t = Some (JStr ''object'') then
          (case build_model rec prop of Inl e \<Rightarrow> Inl e | Inr (Some m) \<Rightarrow> Inr m | Inr None \<Rightarrow> mapping_type rec prop)
        else if t = Some (JStr ''array'') then list_type rec prop
        else Inr (case t of Some (JStr s) \<Rightarrow> json_to_py s | _ \<Rightarrow> PyAny)))"

text \<open>\<open>ref.rsplit("/", maxsplit=1)[-1]\<close>\<close>

definition last_segment :: "string \<Rightarrow> string" where
  "last_segment r = rev (takeWhile (\<lambda>c. c \<noteq> CHR ''/'') (rev r))"

primrec py_type :: "nat \<Rightarrow> jobject \<Rightarrow> string list \<Rightarrow> jobject \<Rightarrow> compile_exc + pytype \<times> bool" where
  "py_type 0 defs seen prop = Inl TooDeep"
| "py_type (Suc n) defs seen prop = (case od_get prop ''$ref'' of
     Some (JStr r) \<Rightarrow>
       if last_segment r \<in> set seen then Inr (PyDict, False)
       else (case od_get defs (last_segment r) of
           Some (JDict target) \<Rightarrow> py_type n defs (last_segment r # seen) target
         | _ \<Rightarrow> Inr (PyAny, False))
   | _ \<Rightarrow> (case literal_type prop of
       Some t \<Rightarrow> Inr t
     | None \<Rightarrow> (case combinator prop of
         Some bs \<Rightarrow> combined_type (py_type n defs seen) bs
       | None \<Rightarrow> typed (py_type n defs seen) prop)))"

definition compile_schema :: "nat \<Rightarrow> jobject \<Rightarrow> compile_exc + pytype option" where
  "compile_schema n schema = build_model (py_type n (j_dict (od_get schema ''$defs'')) []) schema"

text \<open>\<open>validate\<close>, with pydantic's verdict on a content as the parameter \<open>accepts\<close>.\<close>

definition validate_content :: "(pytype \<Rightarrow> 'c \<Rightarrow> bool) \<Rightarrow> nat \<Rightarrow> 'c \<Rightarrow> jobject \<Rightarrow> compile_exc + bool" where
  "validate_content accepts n content schema = (case compile_schema n schema of
     Inl e \<Rightarrow> Inl e
   | Inr None \<Rightarrow> Inr True
   | Inr (Some m) \<Rightarrow> Inr (accepts m content))"


section \<open>Compiling ends\<close>

fun jsize :: "jvalue \<Rightarrow> nat" where
  "jsize (JList xs) = Suc (sum_list (map jsize xs))"
| "jsize (JDict fs) = Suc (sum_list (map (\<lambda>(k, v). jsize v) fs))"
| "jsize _ = 1"

definition osize :: "jobject \<Rightarrow> nat" where
  "osize fs = sum_list (map (\<lambda>(k, v). jsize v) fs)"

lemma jsize_JDict [simp]: "jsize (JDict fs) = Suc (osize fs)"
  by (simp add: osize_def)

declare jsize.simps(2) [simp del]

lemma sum_list_member_le: "x \<in> set xs \<Longrightarrow> f x \<le> sum_list (map f xs)" for f :: "'a \<Rightarrow> nat"
  by (rule member_le_sum_list) auto

lemma osize_get: "od_get fs k = Some v \<Longrightarrow> jsize v \<le> osize fs"
  using sum_list_member_le [of "(k, v)" fs "\<lambda>(k, v). jsize v"] by (auto simp: od_get_def osize_def dest: map_of_SomeD)

lemma osize_member: "(k, v) \<in> set fs \<Longrightarrow> jsize v \<le> osize fs"
  using sum_list_member_le [of "(k, v)" fs "\<lambda>(k, v). jsize v"] by (auto simp: osize_def)

lemma osize_dict: "od_get fs k = Some (JDict gs) \<Longrightarrow> osize gs < osize fs"
  using osize_get by fastforce

lemma osize_j_dict: "j_dict (od_get fs k) \<noteq> [] \<Longrightarrow> osize (j_dict (od_get fs k)) < osize fs"
  by (auto simp: j_dict_def osize_dict split: option.splits jvalue.splits)

text \<open>What is left to compile: the property and the definitions not yet entered.\<close>

definition unseen :: "jobject \<Rightarrow> string list \<Rightarrow> nat" where
  "unseen defs seen = sum_list (map (\<lambda>(k, v). jsize v) (filter (\<lambda>p. fst p \<notin> set seen) defs))"

lemma unseen_enter:
  assumes "od_get defs k = Some v" and "k \<notin> set seen"
  shows "unseen defs (k # seen) + jsize v \<le> unseen defs seen"
  using assms
proof (induction defs)
  case (Cons p defs)
  obtain a w where p: "p = (a, w)" by (cases p)
  have le: "unseen defs (k # seen) \<le> unseen defs seen"
    by (induction defs) (auto simp: unseen_def)
  from Cons le show ?case by (auto simp: p unseen_def od_get_Cons split: if_splits)
qed simp

text \<open>Two callees that agree on smaller objects.\<close>

definition agree :: "nat \<Rightarrow> (jobject \<Rightarrow> compile_exc + pytype \<times> bool) \<Rightarrow> (jobject \<Rightarrow> compile_exc + pytype \<times> bool) \<Rightarrow> bool" where
  "agree k f g \<longleftrightarrow> (\<forall>obj. osize obj < k \<longrightarrow> f obj = g obj \<and> g obj \<noteq> Inl TooDeep)"

lemma agreeD: "agree k f g \<Longrightarrow> osize obj < k \<Longrightarrow> f obj = g obj" "agree k f g \<Longrightarrow> osize obj < k \<Longrightarrow> g obj \<noteq> Inl TooDeep"
  by (auto simp: agree_def)

lemma each_agree:
  "(\<And>x. x \<in> set xs \<Longrightarrow> f x = g x \<and> g x \<noteq> Inl e) \<Longrightarrow> each f xs = each g xs \<and> each g xs \<noteq> Inl e"
proof (induction xs)
  case (Cons x xs)
  then have "f x = g x \<and> g x \<noteq> Inl e" "each f xs = each g xs \<and> each g xs \<noteq> Inl e" by simp_all
  then show ?case by (auto split: sum.splits)
qed simp

lemma required_names_deep: "required_names obj \<noteq> Inl TooDeep"
  by (simp add: required_names_def split: option.split jvalue.split)

lemma compile_field_agree:
  assumes "agree k f g" and "jsize (snd p) \<le> k"
  shows "compile_field f req p = compile_field g req p \<and> compile_field g req p \<noteq> Inl TooDeep"
proof -
  obtain name v where p: "p = (name, v)" by (cases p)
  show ?thesis
  proof (cases "0 < k")
    case True
    then have "osize (j_dict (Some v)) < k"
      using assms(2) by (auto simp: p j_dict_def osize_def [of "[]"] split: jvalue.split)
    with assms(1) show ?thesis
      by (auto simp: p compile_field_def agree_def Let_def split: sum.splits)
  next
    case False
    with assms(2) have "jsize v = 0" by (simp add: p)
    moreover have "0 < jsize v" by (cases v) simp_all
    ultimately show ?thesis by simp
  qed
qed

lemma build_model_props:
  assumes "j_dict (od_get obj ''properties'') \<noteq> []"
  shows "build_model rec obj = (case required_names obj of
       Inl e \<Rightarrow> Inl e
     | Inr req \<Rightarrow> (case each (compile_field rec req) (filter (\<lambda>p. is_identifier (fst p)) (j_dict (od_get obj ''properties''))) of
         Inl e \<Rightarrow> Inl e
       | Inr [] \<Rightarrow> Inr None
       | Inr (f # fs) \<Rightarrow> Inr (Some (PyModel (od_get obj ''additionalProperties'' = Some (JBool True)) (f # fs)))))"
  using assms by (cases "j_dict (od_get obj ''properties'')") (simp_all only: build_model_def list.case simp_thms)

lemma build_model_agree:
  assumes "agree (osize obj) f g"
  shows "build_model f obj = build_model g obj \<and> build_model g obj \<noteq> Inl TooDeep"
proof (cases "j_dict (od_get obj ''properties'') = []")
  case True
  then show ?thesis by (simp add: build_model_def)
next
  case False
  define ps where "ps = filter (\<lambda>p. is_identifier (fst p)) (j_dict (od_get obj ''properties''))"
  have "\<And>p. p \<in> set ps \<Longrightarrow> jsize (snd p) \<le> osize obj"
    using osize_j_dict [OF False] osize_member [of _ _ "j_dict (od_get obj ''properties'')"] by (fastforce simp: ps_def)
  then have e: "each (compile_field f req) ps = each (compile_field g req) ps \<and> each (compile_field g req) ps \<noteq> Inl TooDeep" for req
    by (intro each_agree compile_field_agree [OF assms])
  show ?thesis
    unfolding build_model_props [OF False] ps_def [symmetric]
    using e required_names_deep [of obj] by (auto split: list.split sum.split)
qed

lemma mapping_type_agree:
  "agree (osize obj) f g \<Longrightarrow> mapping_type f obj = mapping_type g obj \<and> mapping_type g obj \<noteq> Inl TooDeep"
  using osize_j_dict [of obj "''additionalProperties''"]
  by (auto simp: mapping_type_def agree_def split: list.split sum.split)

lemma list_type_agree:
  "agree (osize obj) f g \<Longrightarrow> list_type f obj = list_type g obj \<and> list_type g obj \<noteq> Inl TooDeep"
  using osize_j_dict [of obj "''items''"]
  by (auto simp: list_type_def agree_def split: list.split sum.split)

lemma map_sum_Inl [simp]: "map_sum id h s = Inl e \<longleftrightarrow> s = Inl e"
  by (cases s) simp_all

lemma typed_agree:
  assumes "agree (osize obj) f g"
  shows "typed f obj = typed g obj \<and> typed g obj \<noteq> Inl TooDeep"
  using build_model_agree [OF assms] mapping_type_agree [OF assms] list_type_agree [OF assms]
  by (auto simp: typed_def case_prod_beta split: sum.split option.split) 

lemma combinator_member:
  assumes "combinator obj = Some bs" and "b \<in> set bs" and "typed_branch b = Some fs"
  shows "osize fs < osize obj"
proof -
  from assms(1) obtain k where "od_get obj k = Some (JList bs)"
    by (auto simp: combinator_def split: option.splits jvalue.splits)
  from osize_get [OF this] sum_list_member_le [OF assms(2), of jsize] assms(3) show ?thesis
    by (auto simp: typed_branch_def split: jvalue.splits if_splits)
qed

lemma combined_agree:
  assumes "agree (osize obj) f g" and "combinator obj = Some bs"
  shows "combined_type f bs = combined_type g bs \<and> combined_type g bs \<noteq> Inl TooDeep"
proof (cases "filter_map typed_branch bs")
  case Nil
  then show ?thesis by (simp add: combined_type_def Let_def)
next
  case (Cons b rest)
  then have "b \<in> set (filter_map typed_branch bs)" by simp
  then obtain x where "x \<in> set bs" "typed_branch x = Some b" by (auto simp: set_filter_map)
  from combinator_member [OF assms(2) this] assms(1) have "f b = g b \<and> g b \<noteq> Inl TooDeep" by (simp add: agree_def)
  with Cons show ?thesis by (auto simp: combined_type_def Let_def split: sum.split)
qed

text \<open>A nesting of calls as deep as what is left to compile is enough, and a deeper one changes nothing.\<close>

lemma py_type_ends:
  "osize obj + unseen defs seen < n \<Longrightarrow> osize obj + unseen defs seen < m \<Longrightarrow>
    py_type n defs seen obj = py_type m defs seen obj \<and> py_type m defs seen obj \<noteq> Inl TooDeep"
proof (induction n arbitrary: m seen obj)
  case (Suc n)
  then obtain m' where m: "m = Suc m'" by (cases m) simp_all
  have ag: "agree (osize obj) (py_type n defs seen) (py_type m' defs seen)"
    unfolding agree_def using Suc.IH Suc.prems m by auto
  show ?case
  proof (cases "\<exists>r. od_get obj ''$ref'' = Some (JStr r)")
    case True
    then obtain r where r: "od_get obj ''$ref'' = Some (JStr r)" by blast
    have e: "py_type n defs (last_segment r # seen) target = py_type m' defs (last_segment r # seen) target
        \<and> py_type m' defs (last_segment r # seen) target \<noteq> Inl TooDeep"
      if "last_segment r \<notin> set seen" "od_get defs (last_segment r) = Some (JDict target)" for target
      using unseen_enter [OF that(2,1)] Suc.prems m by (intro Suc.IH) simp_all
    then show ?thesis by (simp add: r m split: option.split jvalue.split)
  next
    case False
    then have "py_type (Suc k) defs seen obj = (case literal_type obj of
       Some t \<Rightarrow> Inr t
     | None \<Rightarrow> (case combinator obj of
         Some bs \<Rightarrow> combined_type (py_type k defs seen) bs
       | None \<Rightarrow> typed (py_type k defs seen) obj))" for k
      by (auto split: option.split jvalue.split)
    then show ?thesis
      using combined_agree [OF ag] typed_agree [OF ag] unfolding m by (simp split: option.split)
  qed
qed simp


lemma seen_all: "unseen defs [] = osize defs"
  by (simp add: unseen_def osize_def)

text \<open>
  C27: Compiling a schema ends for every schema, definitions that refer to themselves included: calls nested as deep
  as the schema is large are enough, more of them give the same result, and the only error left is a list of
  required names that is no list.
\<close>

theorem compile_ends:
  assumes "2 * osize schema < n"
  shows "compile_schema n schema = compile_schema (Suc (2 * osize schema)) schema \<and> compile_schema n schema \<noteq> Inl TooDeep"
proof -
  let ?defs = "j_dict (od_get schema ''$defs'')"
  have d: "osize ?defs \<le> osize schema"
    using osize_j_dict [of schema "''$defs''"] by (cases "?defs = []") (simp_all add: osize_def)
  have "agree (osize schema) (py_type n ?defs []) (py_type (Suc (2 * osize schema)) ?defs [])"
    unfolding agree_def
  proof (intro allI impI)
    fix obj
    assume "osize obj < osize schema"
    with d assms have "osize obj + unseen ?defs [] < n" "osize obj + unseen ?defs [] < Suc (2 * osize schema)"
      by (simp_all add: seen_all)
    from py_type_ends [OF this]
    show "py_type n ?defs [] obj = py_type (Suc (2 * osize schema)) ?defs [] obj \<and> py_type (Suc (2 * osize schema)) ?defs [] obj \<noteq> Inl TooDeep" .
  qed
  from build_model_agree [OF this] show ?thesis by (simp add: compile_schema_def)
qed

definition tree_schema :: jobject where
  "tree_schema = [(''$defs'', JDict [(''Node'', JDict [(''type'', JStr ''object''), (''properties'', JDict [(''label'', JDict [(''type'', JStr ''string'')]),
       (''next'', JDict [(''anyOf'', JList [JDict [(''$ref'', JStr ''#/$defs/Node'')], JDict [(''type'', JStr ''null'')]])])])])]),
     (''properties'', JDict [(''root'', JDict [(''$ref'', JStr ''#/$defs/Node'')])]), (''required'', JList [JStr ''root''])]"

lemma tree_compiled: "compile_schema 100 tree_schema = Inr (Some (PyModel False
    [(''root'', PyModel False [(''label'', PyStrict PyStr, False, []), (''next'', PyOptional PyDict, False, [])], True, [])]))"
  by code_simp

theorem compile_ends_witness:
  "compile_schema (Suc (2 * osize tree_schema)) tree_schema = Inr (Some (PyModel False
    [(''root'', PyModel False [(''label'', PyStrict PyStr, False, []), (''next'', PyOptional PyDict, False, [])], True, [])]))"
  using compile_ends [of tree_schema 100] tree_compiled by (simp add: tree_schema_def osize_def jsize.simps(2))

section \<open>What a compiled model enforces\<close>

text \<open>
  A type in a position where content is checked against it: no class of scalars without its strictness, there or
  deeper; \<open>inner_strict\<close> leaves the outermost class to \<open>_decorate\<close>.
\<close>

fun inner_strict :: "pytype \<Rightarrow> bool" where
  "inner_strict (PyModel extra fs) = list_all (\<lambda>(name, t, r, cs). t \<notin> {PyStr, PyInt, PyFloat, PyBool} \<and> inner_strict t) fs"
| "inner_strict (PyListOf t) = (t \<notin> {PyStr, PyInt, PyFloat, PyBool} \<and> inner_strict t)"
| "inner_strict (PyMapOf t) = (t \<notin> {PyStr, PyInt, PyFloat, PyBool} \<and> inner_strict t)"
| "inner_strict (PyOptional t) = (t \<notin> {PyStr, PyInt, PyFloat, PyBool} \<and> inner_strict t)"
| "inner_strict (PyStrict t) = (t \<in> {PyStr, PyInt, PyFloat, PyBool})"
| "inner_strict _ = True"

definition strict_type :: "pytype \<Rightarrow> bool" where
  "strict_type t \<longleftrightarrow> t \<notin> {PyStr, PyInt, PyFloat, PyBool} \<and> inner_strict t"

lemma strict_decorate: "inner_strict t \<Longrightarrow> strict_type (decorate t)"
  by (auto simp: strict_type_def decorate_def)

lemma strict_element: "inner_strict t \<Longrightarrow> strict_type (element_type t nullable)"
  using strict_decorate [of t] by (simp add: element_type_def strict_type_def)

lemma strict_field:
  assumes "\<forall>obj t nullable. rec obj = Inr (t, nullable) \<longrightarrow> inner_strict t"
    and "compile_field rec req p = Inr f"
  shows "strict_type (fst (snd f))"
proof -
  from assms(2) obtain py nullable where r: "rec (j_dict (Some (snd p))) = Inr (py, nullable)"
    and f: "fst (snd f) = (if nullable \<and> py \<noteq> PyAny then PyOptional (decorate py) else decorate py)"
    by (auto simp: compile_field_def Let_def case_prod_beta split: sum.splits)
  from r assms(1) have "inner_strict py" by blast
  then have "strict_type (decorate py)" by (rule strict_decorate)
  then show ?thesis by (simp add: f strict_type_def)
qed

lemma strict_fields:
  assumes rec: "\<forall>obj t nullable. rec obj = Inr (t, nullable) \<longrightarrow> inner_strict t"
  shows "each (compile_field rec req) ps = Inr fs \<Longrightarrow> f \<in> set fs \<Longrightarrow> strict_type (fst (snd f))"
proof (induction ps arbitrary: fs)
  case (Cons p ps)
  from Cons.prems(1) obtain g fs' where g: "compile_field rec req p = Inr g" "each (compile_field rec req) ps = Inr fs'" "fs = g # fs'"
    by (simp split: sum.splits)
  show ?case
  proof (cases "f = g")
    case True
    with strict_field [OF rec g(1)] show ?thesis by simp
  next
    case False
    with Cons.IH [OF g(2)] Cons.prems(2) g(3) show ?thesis by simp
  qed
qed simp

lemma strict_model:
  assumes rec: "\<forall>obj t nullable. rec obj = Inr (t, nullable) \<longrightarrow> inner_strict t"
    and m: "build_model rec obj = Inr (Some m)"
  shows "strict_type m"
proof -
  from m have ne: "j_dict (od_get obj ''properties'') \<noteq> []" by (auto simp: build_model_def)
  from m [unfolded build_model_props [OF ne]] obtain extra fs where fs: "m = PyModel extra fs"
      "each (compile_field rec (projr (required_names obj))) (filter (\<lambda>p. is_identifier (fst p)) (j_dict (od_get obj ''properties''))) = Inr fs"
    by (auto split: sum.splits list.splits)
  from strict_fields [OF rec fs(2)] fs(1) show ?thesis
    by (simp add: strict_type_def list_all_iff case_prod_beta)
qed

lemma py_type_strict: "py_type n defs seen obj = Inr (t, nullable) \<Longrightarrow> inner_strict t"
proof (induction n arbitrary: seen obj t nullable)
  case (Suc n)
  show ?case
  proof (cases "\<exists>r. od_get obj ''$ref'' = Some (JStr r)")
    case True
    with Suc show ?thesis by (auto split: if_splits option.splits jvalue.splits)
  next
    case False
    have el: "\<And>ob t nullable k. py_type n defs seen ob = Inr (t, nullable) \<Longrightarrow> strict_type (element_type t k)"
      by (rule strict_element) (rule Suc.IH)
    have tm: "mapping_type (py_type n defs seen) obj = Inr m \<Longrightarrow> inner_strict m" for m
      using el by (auto simp: mapping_type_def strict_type_def split: list.splits sum.splits if_splits)
    have tl: "list_type (py_type n defs seen) obj = Inr m \<Longrightarrow> inner_strict m" for m
      using el by (auto simp: list_type_def strict_type_def split: list.splits sum.splits if_splits)
    have tb: "build_model (py_type n defs seen) obj = Inr (Some m) \<Longrightarrow> inner_strict m" for m
      using strict_model [of "py_type n defs seen" obj m] Suc.IH by (auto simp: strict_type_def)
    have tc: "combined_type (py_type n defs seen) bs = Inr (t, nullable) \<Longrightarrow> inner_strict t" for bs
      using Suc.IH by (auto simp: combined_type_def Let_def split: list.splits sum.splits)
    have ts: "inner_strict (json_to_py s)" for s by (simp add: json_to_py_def)
    have tt: "typed (py_type n defs seen) obj = Inr (t, nullable) \<Longrightarrow> inner_strict t"
      using tm tl tb ts by (auto simp: typed_def case_prod_beta map_sum_def split: sum.splits option.splits if_splits jvalue.splits)
    have tx: "literal_type obj = Some (t, nullable) \<Longrightarrow> inner_strict t"
      by (auto simp: literal_type_def Let_def split: if_splits)
    from False Suc.prems have "(case literal_type obj of
       Some t \<Rightarrow> Inr t
     | None \<Rightarrow> (case combinator obj of
         Some bs \<Rightarrow> combined_type (py_type n defs seen) bs
       | None \<Rightarrow> typed (py_type n defs seen) obj)) = Inr (t, nullable)"
      by (auto split: option.splits jvalue.splits)
    with tc tt tx show ?thesis by (auto split: option.splits)
  qed
qed simp


text \<open>
  In a compiled model nothing is coerced: at every depth - fields, elements of arrays, values of mappings,
  nullable or not, through references - a scalar is checked in strict mode and a text for control characters as well.
\<close>

theorem compiled_model_strict:
  assumes "compile_schema n schema = Inr (Some m)"
  shows "strict_type m"
  by (rule strict_model [OF _ assms [unfolded compile_schema_def]]) (auto dest: py_type_strict)

theorem compiled_model_strict_witness:
  "strict_type (PyModel False
    [(''root'', PyModel False [(''label'', PyStrict PyStr, False, []), (''next'', PyOptional PyDict, False, [])], True, [])])"
  by (rule compiled_model_strict [OF tree_compiled])

text \<open>
  A schema that came over the wire has no whole number in it, so no bound on a length, on the elements of an array or
  on the properties of an object is ever enforced.
\<close>

lemma od_get_wire: "od_get (map (\<lambda>(k, v). (k, from_wire v)) fs) k = map_option from_wire (od_get fs k)"
  by (induction fs) (auto simp: od_get_Cons)

lemma is_int_wire [simp]: "\<not> is_int (from_wire v)"
  by (cases v) simp_all

lemma take_constraints_none:
  "(\<And>k v. (k, f) \<in> set keys \<Longrightarrow> od_get ob k = Some v \<Longrightarrow> \<not> expected f v)
    \<Longrightarrow> od_get (fold (take_constraint expected ob) keys cs) f = od_get cs f"
proof (induction keys arbitrary: cs)
  case (Cons key keys)
  obtain k g where key: "key = (k, g)" by (cases key)
  have "od_get (take_constraint expected ob key cs) f = od_get cs f"
    using Cons.prems [of k] by (auto simp: key take_constraint_def split: option.split)
  moreover have "od_get (fold (take_constraint expected ob) keys cs') f = od_get cs' f" for cs'
    by (rule Cons.IH) (rule Cons.prems, simp_all)
  ultimately show ?case by simp
qed simp

lemma wire_lengths_ignored:
  assumes "from_wire v = JDict ob"
  shows "od_get (constraints ob) ''min_length'' = None \<and> od_get (constraints ob) ''max_length'' = None"
proof -
  from assms obtain fs where ob: "ob = map (\<lambda>(k, w). (k, from_wire w)) fs" by (cases v) auto
  have "\<not> is_int w" if "od_get ob k = Some w" for k w
    using that by (auto simp: ob od_get_wire)
  then have l: "od_get (fold (take_constraint (\<lambda>f v. if f = ''pattern'' then is_str v else is_int v) ob) length_keys cs) f = od_get cs f"
    if "f \<noteq> ''pattern''" for cs f
    using that by (intro take_constraints_none) simp
  have n: "od_get (fold (take_constraint (\<lambda>f v. is_number v) ob) numeric_keys []) f = None"
    if "f \<notin> snd ` set numeric_keys" for f
    using that by (subst take_constraints_none) force+
  have "''min_length'' \<notin> snd ` set numeric_keys" "''max_length'' \<notin> snd ` set numeric_keys"
    by (simp_all add: numeric_keys_def)
  with l n show ?thesis by (simp add: constraints_def)
qed

text \<open>Of several alternatives only the first one that is not \<open>null\<close> counts: contents of the others are refused.\<close>

lemma later_branches_dropped:
  assumes "od_get ob ''$ref'' = None" and "literal_type ob = None" and "od_get ob ''anyOf'' = Some (JList (JDict b # bs))"
    and "od_get b ''type'' \<noteq> Some (JStr ''null'')"
  shows "map_sum id fst (py_type (Suc n) defs seen ob) = map_sum id fst (py_type n defs seen b)"
  using assms by (auto simp: combinator_def combined_type_def typed_branch_def Let_def split: sum.splits)

section \<open>Screening keys\<close>

text \<open>
  The screening of keys refuses a content exactly when some key, at any depth inside objects and arrays, has a
  character that does not survive storage, and the path it reports is the path of such a key.
\<close>

theorem unsafe_keys_exact:
  "(reject_unsafe_keys c = None \<longleftrightarrow> \<not> (\<exists>(w, k)\<in>set (key_paths [] c). unsafe_key k))
   \<and> (\<forall>w. reject_unsafe_keys c = Some w \<longrightarrow> (\<exists>k. (w, k) \<in> set (key_paths [] c) \<and> unsafe_key k))"
proof -
  have k: "stack_keys [([], c)] = set (key_paths [] c)" by simp
  show ?thesis
    using scan_keys_exact [of "[([], c)]"] unfolding k reject_unsafe_keys_def [symmetric]
    by (cases "reject_unsafe_keys c") (auto simp: bad_paths_def)
qed

theorem unsafe_keys_exact_witness:
  "reject_unsafe_keys (CDict [([97], CList [CScalar, CDict [([98, 128293], CScalar)]])]) = Some [97, 46, 98, 128293]
   \<and> (\<exists>k. ([97, 46, 98, 128293], k) \<in> set (key_paths [] (CDict [([97], CList [CScalar, CDict [([98, 128293], CScalar)]])])) \<and> unsafe_key k)"
proof -
  have r: "reject_unsafe_keys (CDict [([97], CList [CScalar, CDict [([98, 128293], CScalar)]])]) = Some [97, 46, 98, 128293]"
    by (simp add: reject_unsafe_keys_def unsafe_key_def unsafe_char_def control_char_def where_path_def)
  from unsafe_keys_exact [THEN conjunct2, rule_format, OF r] r show ?thesis by (intro conjI)
qed

end
