(* ===== verification/Registry_Toolkit.thy ===== *)
theory Registry_Toolkit
  imports Registry Content_Validator
begin

text \<open>
  The managers an agent gets for the registry, \<open>community/agno/toolkits/base.py\<close> and \<open>toolkits/registry\<close>: the
  actions on setups of one kind of module, their guards, and the dispatcher that turns every failure into an
  envelope. The services are the models of \<open>Setup_Service\<close> and \<open>Registry\<close>; each call of one may fail instead,
  as the environment of the action says. Pydantic's reading of an action is a parameter.
\<close>

section \<open>What an action runs in\<close>

datatype svc_fault = FaultDenied | FaultServer | FaultSurprise

datatype action_exc =
    ActDenied
  | ActServer
  | ActSurprise
  | ActSetup setup_error
  | ActNoModule string
  | KindMismatch string
  | BadContent

fun fault_exc :: "svc_fault \<Rightarrow> action_exc" where
  "fault_exc FaultDenied = ActDenied"
| "fault_exc FaultServer = ActServer"
| "fault_exc FaultSurprise = ActSurprise"

record action_env =
  ae_nid :: "nat \<Rightarrow> string"
  ae_now :: real
  ae_setup_fault :: "svc_fault option"      \<comment> \<open>reading the setup for the guard\<close>
  ae_module_fault :: "svc_fault option"     \<comment> \<open>finding its module\<close>
  ae_call_fault :: "svc_fault option"       \<comment> \<open>the action's own call, before it did anything\<close>
  ae_reread_fault :: "svc_fault option"     \<comment> \<open>reading the setup again after a change of visibility\<close>
  ae_schema :: "jobject option"             \<comment> \<open>the module's schema, if it could be fetched\<close>
  ae_depth :: nat                           \<comment> \<open>how deep calls may nest\<close>
  ae_accepts :: "pytype \<Rightarrow> pstruct \<Rightarrow> bool"

type_synonym 'a outcome = "action_exc + 'a"

definition faulty :: "svc_fault option \<Rightarrow> 'a outcome \<Rightarrow> 'a outcome" where
  "faulty f r = (case f of None \<Rightarrow> r | Some e \<Rightarrow> Inl (fault_exc e))"

fun setup_result :: "setup_error + 'a \<Rightarrow> 'a outcome" where
  "setup_result (Inl e) = Inl (ActSetup e)"
| "setup_result (Inr x) = Inr x"

definition find_module :: "action_env \<Rightarrow> string \<Rightarrow> default_registry \<Rightarrow> module_info outcome" where
  "find_module env i reg = faulty (ae_module_fault env)
     (case discover_by_id i reg of None \<Rightarrow> Inl (ActNoModule i) | Some m \<Rightarrow> Inr m)"

text \<open>The gate every action on an identifier passes first.\<close>

definition ensure_kind ::
    "action_env \<Rightarrow> RegistryModuleType \<Rightarrow> bool \<Rightarrow> string \<Rightarrow> default_registry \<Rightarrow> setup_store \<Rightarrow> setup_data outcome" where
  "ensure_kind env kind orphan_ok sid reg s =
     (case faulty (ae_setup_fault env) (setup_result (get_or_raise sid s)) of
        Inl e \<Rightarrow> Inl e
      | Inr d \<Rightarrow> (case find_module env (sd_module d) reg of
          Inl (ActNoModule i) \<Rightarrow> if orphan_ok then Inr d else Inl (ActNoModule i)
        | Inl e \<Rightarrow> Inl e
        | Inr m \<Rightarrow> if mi_type m = kind then Inr d else Inl (KindMismatch sid)))"

definition validate_for :: "action_env \<Rightarrow> pstruct \<Rightarrow> unit outcome" where
  "validate_for env content = (case ae_schema env of
     None \<Rightarrow> Inr ()
   | Some schema \<Rightarrow> (case validate_content (ae_accepts env) (ae_depth env) content schema of
       Inl e \<Rightarrow> Inl ActSurprise
     | Inr ok \<Rightarrow> if ok then Inr () else Inl BadContent))"

section \<open>The actions\<close>

record search_args =
  sa_query :: string
  sa_setups :: "string list option"
  sa_modules :: "string list option"
  sa_statuses :: "RegistrySetupStatus list option"
  sa_visibilities :: "RegistryVisibility list option"
  sa_tags :: "string list option"
  sa_sort :: RegistrySortBy
  sa_descending :: bool
  sa_limit :: int
  sa_offset :: int

datatype reg_action =
    GetAction string
  | SearchAction search_args
  | UpdateAction string string pstruct bool
  | DeleteAction string
  | ChangeVisibilityAction string string
  | ListVersionsAction string int int
  | SetVersionAction string string
  | CreateServiceAction string pstruct
  | LoadServiceAction string

record search_row =
  ro_setup_id :: string
  ro_name :: string
  ro_module_name :: "string option"
  ro_version :: "string option"
  ro_tags :: "string list"
  ro_visibility :: "RegistryVisibility option"
  ro_status :: "RegistrySetupStatus option"
  ro_description :: string

record version_row =
  vr_id :: string
  vr_version :: string
  vr_created :: real
  vr_is_current :: bool

datatype act_result =
    SetupResult setup_data
  | FlagResult bool
  | ContentResult pstruct
  | SearchResult nat bool int "search_row list"
  | VersionsResult nat nat int string "version_row list"

section \<open>Searching\<close>

definition MAX_RESULTS :: int where
  "MAX_RESULTS = 100"

definition has_version :: "('a) setup_summary_scheme \<Rightarrow> bool" where
  "has_version s \<longleftrightarrow> ss_version s \<noteq> None \<and> ss_version s \<noteq> Some ''''"

definition search_row_of :: "setup_summary \<Rightarrow> search_row" where
  "search_row_of s = \<lparr>ro_setup_id = ss_setup_id s, ro_name = ss_name s, ro_module_name = ss_module_name s, ro_version = ss_version s,
     ro_tags = ss_tags s, ro_visibility = ss_visibility s, ro_status = ss_status s,
     ro_description = take 300 (case ss_documentation s of None \<Rightarrow> '''' | Some t \<Rightarrow> t)\<rparr>"

definition search_query :: "RegistryModuleType \<Rightarrow> search_args \<Rightarrow> setup_query" where
  "search_query kind a = \<lparr>sq_query = Some (sa_query a), sq_setups = sa_setups a, sq_modules = sa_modules a, sq_types = Some [kind],
     sq_statuses = (if no_filter (sa_statuses a) then Some [SetupReady, SetupConfigurationSucceeded] else sa_statuses a),
     sq_visibilities = sa_visibilities a, sq_tags = sa_tags a, sq_sort = sa_sort a, sq_descending = sa_descending a\<rparr>"

definition page_cap :: "int \<Rightarrow> int" where
  "page_cap limit = min (max limit 1) MAX_RESULTS"

definition search_action :: "RegistryModuleType \<Rightarrow> search_args \<Rightarrow> default_registry \<Rightarrow> act_result" where
  "search_action kind a reg =
     (let cap = page_cap (sa_limit a);
          setups = search_setups (search_query kind a) (min (cap + 1) MAX_RESULTS) (sa_offset a) reg;
          usable = filter has_version setups;
          rows = map search_row_of (take (nat cap) usable)
      in SearchResult (length rows) (cap < int (length usable)) (sa_offset a) rows)"

section \<open>Executing\<close>

definition versions_result :: "int \<Rightarrow> version_page \<Rightarrow> act_result" where
  "versions_result start p = VersionsResult (vp_total p) (length (vp_versions p)) start (vp_current p)
     (map (\<lambda>v. \<lparr>vr_id = sv_id v, vr_version = sv_version v, vr_created = sv_created v, vr_is_current = (sv_id v = vp_current p)\<rparr>) (vp_versions p))"

text \<open>An operation of the setup service that may fail before it does anything.\<close>

definition service_call ::
    "svc_fault option \<Rightarrow> (setup_store \<Rightarrow> (setup_error + 'a) \<times> setup_store) \<Rightarrow> setup_store \<Rightarrow> 'a outcome \<times> setup_store" where
  "service_call f op s = (case f of
     Some e \<Rightarrow> (Inl (fault_exc e), s)
   | None \<Rightarrow> (case op s of (r, s') \<Rightarrow> (setup_result r, s')))"

definition execute_update :: "action_env \<Rightarrow> string \<Rightarrow> string \<Rightarrow> pstruct \<Rightarrow> bool \<Rightarrow> setup_store \<Rightarrow> act_result outcome \<times> setup_store" where
  "execute_update env sid name content cur s = (case validate_for env content of
     Inl e \<Rightarrow> (Inl e, s)
   | Inr _ \<Rightarrow> apfst (map_sum id SetupResult)
       (service_call (ae_call_fault env) (update_setup (ae_nid env) (ae_now env) sid (PStr name) (PStruct content) cur) s))"

definition execute_delete :: "action_env \<Rightarrow> string \<Rightarrow> setup_store \<Rightarrow> act_result outcome \<times> setup_store" where
  "execute_delete env sid s =
     apfst (map_sum id FlagResult) (service_call (ae_call_fault env) (\<lambda>s. apfst Inr (delete_setup sid s)) s)"

text \<open>The setup is read again after the change, and what is read is the answer.\<close>

definition execute_visibility :: "action_env \<Rightarrow> string \<Rightarrow> string \<Rightarrow> setup_store \<Rightarrow> act_result outcome \<times> setup_store" where
  "execute_visibility env sid vis s = (case service_call (ae_call_fault env) (change_visibility sid vis) s of
     (Inl e, s') \<Rightarrow> (Inl e, s')
   | (Inr _, s') \<Rightarrow> (map_sum id SetupResult (faulty (ae_reread_fault env) (setup_result (get_or_raise sid s'))), s'))"

fun guarded_id :: "reg_action \<Rightarrow> string option" where
  "guarded_id (GetAction sid) = Some sid"
| "guarded_id (UpdateAction sid _ _ _) = Some sid"
| "guarded_id (DeleteAction sid) = Some sid"
| "guarded_id (ChangeVisibilityAction sid _) = Some sid"
| "guarded_id (ListVersionsAction sid _ _) = Some sid"
| "guarded_id (SetVersionAction sid _) = Some sid"
| "guarded_id (LoadServiceAction sid) = Some sid"
| "guarded_id (SearchAction _) = None"
| "guarded_id (CreateServiceAction _ _) = None"

fun orphan_ok :: "reg_action \<Rightarrow> bool" where
  "orphan_ok (DeleteAction sid) = True"
| "orphan_ok _ = False"

text \<open>What an action does once its setup \<open>d\<close> has passed the gate.\<close>

fun execute_guarded :: "action_env \<Rightarrow> reg_action \<Rightarrow> setup_data \<Rightarrow> setup_store \<Rightarrow> act_result outcome \<times> setup_store" where
  "execute_guarded env (UpdateAction sid name content cur) d s = execute_update env sid name content cur s"
| "execute_guarded env (DeleteAction sid) d s = execute_delete env sid s"
| "execute_guarded env (ChangeVisibilityAction sid vis) d s = execute_visibility env sid vis s"
| "execute_guarded env (ListVersionsAction sid limit start) d s =
     (faulty (ae_call_fault env) (map_sum id (versions_result start) (setup_result (list_setup_versions sid (Some limit) (Some start) s))), s)"
| "execute_guarded env (SetVersionAction sid vid) d s =
     apfst (map_sum id SetupResult) (service_call (ae_call_fault env) (set_current_setup_version sid vid) s)"
| "execute_guarded env (LoadServiceAction sid) d s = (Inr (ContentResult (sv_content (sd_current d))), s)"
| "execute_guarded env a d s = (Inr (SetupResult d), s)"

definition execute ::
    "action_env \<Rightarrow> RegistryModuleType \<Rightarrow> reg_action \<Rightarrow> default_registry \<Rightarrow> setup_store \<Rightarrow> act_result outcome \<times> setup_store" where
  "execute env kind a reg s = (case guarded_id a of
     Some sid \<Rightarrow> (case ensure_kind env kind (orphan_ok a) sid reg s of
         Inl e \<Rightarrow> (Inl e, s)
       | Inr d \<Rightarrow> execute_guarded env a d s)
   | None \<Rightarrow> (case a of
         CreateServiceAction name content \<Rightarrow> apfst (map_sum id SetupResult)
           (service_call (ae_call_fault env) (create_setup (ae_nid env) (ae_now env) (PStr name) (PStruct content)) s)
       | SearchAction q \<Rightarrow> (faulty (ae_call_fault env) (Inr (search_action kind q reg)), s)
       | _ \<Rightarrow> (Inl ActSurprise, s)))"

section \<open>Dispatching\<close>

datatype envelope = OkEnvelope act_result | FailEnvelope action_exc | InvalidAction

fun writes :: "reg_action \<Rightarrow> bool" where
  "writes (UpdateAction _ _ _ _) = True"
| "writes (DeleteAction _) = True"
| "writes (ChangeVisibilityAction _ _) = True"
| "writes (SetVersionAction _ _) = True"
| "writes (CreateServiceAction _ _) = True"
| "writes _ = False"

text \<open>\<open>_dispatch\<close>: the envelope, whether the servicer's setup cache is invalidated, and the setups.\<close>

definition reg_dispatch ::
    "action_env \<Rightarrow> RegistryModuleType \<Rightarrow> reg_action \<Rightarrow> default_registry \<Rightarrow> setup_store \<Rightarrow> envelope \<times> bool \<times> setup_store" where
  "reg_dispatch env kind a reg s = (case execute env kind a reg s of
     (Inl e, s') \<Rightarrow> (FailEnvelope e, False, s')
   | (Inr r, s') \<Rightarrow> (OkEnvelope r, writes a, s'))"

section \<open>Reading a call\<close>

text \<open>\<open>_nest_action\<close>: the argument \<open>action\<close> (\<open>PNull\<close> if absent) and its sibling arguments.\<close>

definition merged :: "pstruct \<Rightarrow> pstruct \<Rightarrow> pstruct" where
  "merged d e = fold (\<lambda>(k, v) d. od_set k v d) e d"

definition nest_action :: "pvalue \<Rightarrow> pstruct \<Rightarrow> pvalue" where
  "nest_action action flds = (case action of
     PStr t \<Rightarrow> if starts_with (dropWhile is_space t) ''{'' then action else PStruct (merged [(''action'', action)] flds)
   | PStruct fs \<Rightarrow> if flds \<noteq> [] then PStruct (merged fs flds) else action
   | PNull \<Rightarrow> if flds \<noteq> [] then PStruct flds else action
   | _ \<Rightarrow> action)"

definition points_of :: "string \<Rightarrow> points" where
  "points_of s = map of_char s"

fun content_of :: "pvalue \<Rightarrow> content" where
  "content_of (PStruct fs) = CDict (map (\<lambda>(k, v). (points_of k, content_of v)) fs)"
| "content_of (PList xs) = CList (map content_of xs)"
| "content_of (PStr s) = CText (points_of s)"
| "content_of _ = CScalar"

definition valid_page :: "int \<Rightarrow> int \<Rightarrow> bool" where
  "valid_page limit start \<longleftrightarrow> 1 \<le> limit \<and> limit \<le> MAX_RESULTS \<and> 0 \<le> start"

definition valid_write :: "string \<Rightarrow> pstruct \<Rightarrow> bool" where
  "valid_write name content \<longleftrightarrow> \<not> reject_control_chars (points_of name) \<and> content \<noteq> []
     \<and> reject_unsafe_keys (content_of (PStruct content)) = None"

text \<open>The bounds and validators the fields of an action declare.\<close>

fun valid_fields :: "reg_action \<Rightarrow> bool" where
  "valid_fields (SearchAction a) = valid_page (sa_limit a) (sa_offset a)"
| "valid_fields (ListVersionsAction sid limit start) = valid_page limit start"
| "valid_fields (UpdateAction sid name content cur) = valid_write name content"
| "valid_fields (CreateServiceAction name content) = valid_write name content"
| "valid_fields (ChangeVisibilityAction sid vis) = (vis \<in> {''public'', ''private'', ''internal''})"
| "valid_fields _ = True"

text \<open>Only the manager of services creates and loads.\<close>

fun offered :: "RegistryModuleType \<Rightarrow> reg_action \<Rightarrow> bool" where
  "offered kind (CreateServiceAction name content) = (kind = TypeService)"
| "offered kind (LoadServiceAction sid) = (kind = TypeService)"
| "offered kind _ = True"

definition reg_run ::
    "(pvalue \<Rightarrow> reg_action option) \<Rightarrow> action_env \<Rightarrow> RegistryModuleType \<Rightarrow> pvalue \<Rightarrow> pstruct \<Rightarrow> default_registry \<Rightarrow> setup_store
      \<Rightarrow> envelope \<times> bool \<times> setup_store" where
  "reg_run parse env kind action flds reg s = (case parse (nest_action action flds) of
     None \<Rightarrow> (InvalidAction, False, s)
   | Some a \<Rightarrow> if offered kind a \<and> valid_fields a then reg_dispatch env kind a reg s else (InvalidAction, False, s))"

text \<open>A call whose fields a model has put beside the action is read as the call meant.\<close>


lemma merged_fresh:
  "distinct (map fst (d @ e)) \<Longrightarrow> merged d e = d @ e"
proof (induction e arbitrary: d)
  case (Cons p e)
  obtain k v where p: "p = (k, v)" by (cases p)
  with Cons.prems have "od_get d k = None" by (auto simp: od_get_None_iff)
  with Cons.IH [of "d @ [(k, v)]"] Cons.prems show ?case by (simp add: merged_def p od_set_new)
qed (simp add: merged_def)

lemma nest_flattened:
  assumes "distinct (''action'' # map fst flds)" and "\<not> starts_with (dropWhile is_space tag) ''{''"
  shows "nest_action (PStr tag) flds = nest_action (PStruct ((''action'', PStr tag) # flds)) []"
  using assms merged_fresh [of "[(''action'', PStr tag)]" flds] by (simp add: nest_action_def)

section \<open>What a manager leaves alone\<close>

definition same_at :: "string \<Rightarrow> setup_store \<Rightarrow> setup_store \<Rightarrow> bool" where
  "same_at sid s s' \<longleftrightarrow> od_get (su_setups s') sid = od_get (su_setups s) sid \<and> od_get (su_versions s') sid = od_get (su_versions s) sid"

lemma same_at_refl [simp]: "same_at sid s s"
  by (simp add: same_at_def)

lemma same_at_trans: "same_at sid s t \<Longrightarrow> same_at sid t u \<Longrightarrow> same_at sid s u"
  by (simp add: same_at_def)

lemma same_update: "su_ok nid s \<Longrightarrow> k \<noteq> sid \<Longrightarrow> same_at sid s (snd (update_setup nid now k name content cur s))"
  using su_okD(1) [of nid s k]
  by (auto simp: update_setup_def get_or_raise_def same_at_def Let_def split: option.split pvalue.split)

lemma same_delete: "k \<noteq> sid \<Longrightarrow> same_at sid s (snd (delete_setup k s))"
  by (simp add: delete_setup_def same_at_def)

lemma same_visibility: "k \<noteq> sid \<Longrightarrow> same_at sid s (snd (change_visibility k v s))"
  by (auto simp: change_visibility_def get_or_raise_def same_at_def Let_def split: option.split)

lemma same_current: "k \<noteq> sid \<Longrightarrow> same_at sid s (snd (set_current_setup_version k v s))"
  by (auto simp: set_current_setup_version_def get_or_raise_def same_at_def Let_def split: option.split)

lemma same_create:
  assumes "inj nid" and "su_ok nid s" and "od_get (su_setups s) sid = Some d"
  shows "same_at sid s (snd (create_setup nid now name content s))"
proof -
  from su_okD(2) [OF assms(2,3)] assms(1) have "sid \<noteq> nid (su_ids s)" by (auto simp: inj_eq)
  then show ?thesis
    by (auto simp: create_setup_def make_setup_def same_at_def Let_def split: pvalue.split)
qed

lemma snd_service_call: "snd (service_call f op s) = (if f = None then snd (op s) else s)"
  by (simp add: service_call_def case_prod_beta split: option.split)

lemma snd_visibility: "snd (execute_visibility env k vis s) = snd (service_call (ae_call_fault env) (change_visibility k vis) s)"
  by (simp add: execute_visibility_def case_prod_beta split: sum.split)

text \<open>What is done to the setups is one operation of the setup service on the action's own setup, or nothing.\<close>

lemma snd_apfst [simp]: "snd (apfst f p) = snd p"
  by (cases p) simp

lemma guarded_state:
  "snd (execute_guarded env a d s) \<in> {s}
     \<union> (case a of UpdateAction k name content cur \<Rightarrow> {snd (update_setup (ae_nid env) (ae_now env) k (PStr name) (PStruct content) cur s)}
        | DeleteAction k \<Rightarrow> {snd (delete_setup k s)}
        | ChangeVisibilityAction k vis \<Rightarrow> {snd (change_visibility k vis s)}
        | SetVersionAction k vid \<Rightarrow> {snd (set_current_setup_version k vid s)}
        | _ \<Rightarrow> {})"
  by (cases a) (auto simp: execute_update_def execute_delete_def snd_visibility snd_service_call split: sum.split)


lemma execute_state:
  "snd (execute env kind a reg s) \<in> {s} \<union> (case a of
        UpdateAction k name content cur \<Rightarrow> {snd (update_setup (ae_nid env) (ae_now env) k (PStr name) (PStruct content) cur s)}
      | DeleteAction k \<Rightarrow> {snd (delete_setup k s)}
      | ChangeVisibilityAction k vis \<Rightarrow> {snd (change_visibility k vis s)}
      | SetVersionAction k vid \<Rightarrow> {snd (set_current_setup_version k vid s)}
      | CreateServiceAction name content \<Rightarrow> {snd (create_setup (ae_nid env) (ae_now env) (PStr name) (PStruct content) s)}
      | _ \<Rightarrow> {})"
proof (cases "guarded_id a")
  case (Some sid)
  show ?thesis
  proof (cases "ensure_kind env kind (orphan_ok a) sid reg s")
    case (Inl e)
    with Some show ?thesis by (simp add: execute_def)
  next
    case (Inr d)
    then have "execute env kind a reg s = execute_guarded env a d s" by (simp add: execute_def Some)
    with guarded_state [of env a d s] Some show ?thesis
      by (cases a) (simp_all del: execute_guarded.simps)
  qed
next
  case None
  then show ?thesis by (cases a) (auto simp: execute_def snd_service_call)
qed

lemma dispatch_state: "snd (snd (reg_dispatch env kind a reg s)) = snd (execute env kind a reg s)"
  by (simp add: reg_dispatch_def case_prod_beta split: sum.split)

lemma execute_su_ok:
  assumes "inj nid" and "su_ok nid s" and "ae_nid env = nid"
  shows "su_ok nid (snd (execute env kind a reg s))"
  using execute_state [of env kind a reg s] assms
  by (cases a) (auto simp: create_setup_def su_ok_make su_ok_update su_ok_delete su_ok_visibility su_ok_set_current)

lemma execute_other:
  assumes "inj nid" and "su_ok nid s" and "ae_nid env = nid" and "od_get (su_setups s) sid = Some d" and "guarded_id a \<noteq> Some sid"
  shows "same_at sid s (snd (execute env kind a reg s))"
  using execute_state [of env kind a reg s] assms same_create [OF assms(1,2,4)] same_update [OF assms(2)]
  by (cases a) (auto simp: same_delete same_visibility same_current)

text \<open>A setup whose module is registered, with another kind.\<close>

definition foreign_module :: "RegistryModuleType \<Rightarrow> setup_data \<Rightarrow> default_registry \<Rightarrow> bool" where
  "foreign_module kind d reg \<longleftrightarrow> (\<exists>m. discover_by_id (sd_module d) reg = Some m \<and> mi_type m \<noteq> kind)"

lemma foreign_refused:
  assumes "od_get (su_setups s) sid = Some d" and "foreign_module kind d reg" and "guarded_id a = Some sid"
  shows "\<exists>e. execute env kind a reg s = (Inl e, s) \<and> e \<in> {ActDenied, ActServer, ActSurprise, KindMismatch sid}"
proof -
  from assms(2) obtain m where m: "discover_by_id (sd_module d) reg = Some m" "mi_type m \<noteq> kind"
    by (auto simp: foreign_module_def)
  have f: "fault_exc f \<in> {ActDenied, ActServer, ActSurprise}" for f by (cases f) simp_all
  have "\<exists>e. ensure_kind env kind (orphan_ok a) sid reg s = Inl e \<and> e \<in> {ActDenied, ActServer, ActSurprise, KindMismatch sid}"
  proof (cases "ae_setup_fault env")
    case None
    show ?thesis
    proof (cases "ae_module_fault env")
      case None
      with \<open>ae_setup_fault env = None\<close> m assms(1) show ?thesis
        by (simp add: ensure_kind_def faulty_def find_module_def get_or_raise_def)
    next
      case (Some x)
      with \<open>ae_setup_fault env = None\<close> assms(1) show ?thesis
        by (cases x) (simp_all add: ensure_kind_def faulty_def find_module_def get_or_raise_def)
    qed
  next
    case (Some x)
    with f [of x] show ?thesis by (auto simp: ensure_kind_def faulty_def)
  qed
  with assms(3) show ?thesis by (auto simp: execute_def)
qed

text \<open>The calls of one manager, each in its own environment and with the registry of its time.\<close>

definition manager_call :: "RegistryModuleType \<Rightarrow> action_env \<times> default_registry \<times> reg_action \<Rightarrow> setup_store \<Rightarrow> setup_store" where
  "manager_call kind call s = (case call of (env, reg, a) \<Rightarrow> snd (snd (reg_dispatch env kind a reg s)))"

lemma manager_calls_keep:
  assumes "inj nid" and "su_ok nid s" and "od_get (su_setups s) sid = Some d"
    and "\<forall>(env, reg, a)\<in>set calls. ae_nid env = nid \<and> foreign_module kind d reg"
  shows "same_at sid s (fold (manager_call kind) calls s)"
  using assms(2-4)
proof (induction calls arbitrary: s)
  case (Cons call calls)
  obtain env reg a where call: "call = (env, reg, a)" by (cases call)
  let ?s = "manager_call kind call s"
  have s': "?s = snd (execute env kind a reg s)" by (simp add: manager_call_def call dispatch_state)
  from Cons.prems(3) have env: "ae_nid env = nid" "foreign_module kind d reg" by (auto simp: call)
  have same: "same_at sid s ?s"
  proof (cases "guarded_id a = Some sid")
    case True
    from foreign_refused [OF Cons.prems(2) env(2) True] show ?thesis unfolding s' by (metis same_at_refl snd_conv)
  next
    case False
    from execute_other [OF assms(1) Cons.prems(1) env(1) Cons.prems(2) False] show ?thesis by (simp add: s')
  qed
  have "su_ok nid ?s" unfolding s' by (rule execute_su_ok [OF assms(1) Cons.prems(1) env(1)])
  moreover have "od_get (su_setups ?s) sid = Some d" using same Cons.prems(2) by (simp add: same_at_def)
  ultimately have "same_at sid ?s (fold (manager_call kind) calls ?s)" using Cons.IH Cons.prems(3) by simp
  with same show ?case by (auto intro: same_at_trans)
qed simp

text \<open>
  C25: A manager keeps to its kind. Whatever is called through it, however the services answer, a setup whose
  module is registered with another kind keeps its name, version, visibility and whole history, is never deleted,
  and no call that names it succeeds: nothing of it is told.
\<close>

theorem manager_keeps_to_kind:
  assumes "inj nid" and "su_ok nid s" and "od_get (su_setups s) sid = Some d"
    and "\<forall>(env, reg, a)\<in>set calls. ae_nid env = nid \<and> foreign_module kind d reg"
    and "s' = fold (manager_call kind) calls s" and "foreign_module kind d reg" and "guarded_id a = Some sid"
  shows "od_get (su_setups s') sid = Some d \<and> od_get (su_versions s') sid = od_get (su_versions s) sid
    \<and> (\<exists>e. reg_dispatch env kind a reg s' = (FailEnvelope e, False, s') \<and> e \<in> {ActDenied, ActServer, ActSurprise, KindMismatch sid})"
proof -
  have same: "same_at sid s s'" unfolding assms(5) by (rule manager_calls_keep [OF assms(1-4)])
  with assms(3) have d: "od_get (su_setups s') sid = Some d" by (simp add: same_at_def)
  from foreign_refused [OF d assms(6,7), of env] same d show ?thesis
    by (auto simp: reg_dispatch_def same_at_def)
qed

definition env_demo :: action_env where
  "env_demo = \<lparr>ae_nid = nid_demo, ae_now = 9, ae_setup_fault = None, ae_module_fault = None, ae_call_fault = None, ae_reread_fault = None,
     ae_schema = None, ae_depth = 100, ae_accepts = (\<lambda>t c. True)\<rparr>"

definition dir_demo :: default_registry where
  "dir_demo = snd (reg_register ''local'' ''host'' 50051 ''1'' TypeToolModule '''' dr_init)"

theorem manager_keeps_to_kind_witness:
  "let s' = fold (manager_call TypeService) [(env_demo, dir_demo, DeleteAction ''''), (env_demo, dir_demo, CreateServiceAction ''x'' [(''a'', PNull)])] su_demo in
    od_has (su_setups s') '''' \<and> reg_dispatch env_demo TypeService (LoadServiceAction '''') dir_demo s' = (FailEnvelope (KindMismatch ''''), False, s')"
proof -
  let ?calls = "[(env_demo, dir_demo, DeleteAction ''''), (env_demo, dir_demo, CreateServiceAction ''x'' [(''a'', PNull)])]"
  define s' where "s' = fold (manager_call TypeService) ?calls su_demo"
  let ?d = "the (od_get (su_setups su_demo) '''')"
  have d: "od_get (su_setups su_demo) '''' = Some ?d" and m: "sd_module ?d = ''local''" by code_simp+
  have "map_option mi_type (discover_by_id ''local'' dir_demo) = Some TypeToolModule" by code_simp
  then have f: "foreign_module TypeService ?d dir_demo" by (auto simp: foreign_module_def m)
  have c: "\<forall>(env, reg, a)\<in>set ?calls. ae_nid env = nid_demo \<and> foreign_module TypeService ?d reg"
    using f by (simp add: env_demo_def)
  have g: "guarded_id (LoadServiceAction '''') = Some ''''" by simp
  from manager_keeps_to_kind [OF nid_demo_inj su_demo_ok d c s'_def f g, of env_demo]
  obtain e where e: "od_get (su_setups s') '''' = Some ?d" "reg_dispatch env_demo TypeService (LoadServiceAction '''') dir_demo s' = (FailEnvelope e, False, s')"
    by blast
  have "e = KindMismatch ''''"
    using e f by (auto simp: reg_dispatch_def execute_def ensure_kind_def faulty_def find_module_def get_or_raise_def foreign_module_def env_demo_def
        split: option.splits)
  with e show ?thesis unfolding s'_def [symmetric] Let_def by (simp add: od_has_def)
qed


section \<open>Telling the servicer\<close>

text \<open>What other readers see of the setups; the counter of identifiers is not part of it.\<close>

definition stored :: "setup_store \<Rightarrow> (string, setup_data) odict \<times> (string, setup_version list) odict" where
  "stored s = (su_setups s, su_versions s)"

lemma refused_update: "fst (update_setup nid now k name content cur s) = Inl e \<Longrightarrow> snd (update_setup nid now k name content cur s) = s"
  by (auto simp: update_setup_def Let_def split: sum.splits pvalue.splits if_splits)

lemma refused_visibility: "fst (change_visibility k v s) = Inl e \<Longrightarrow> snd (change_visibility k v s) = s"
  by (auto simp: change_visibility_def Let_def split: sum.splits option.splits)

lemma refused_current: "fst (set_current_setup_version k v s) = Inl e \<Longrightarrow> snd (set_current_setup_version k v s) = s"
  by (auto simp: set_current_setup_version_def Let_def split: sum.splits option.splits)

lemma refused_create: "fst (create_setup nid now name content s) = Inl e \<Longrightarrow> stored (snd (create_setup nid now name content s)) = stored s"
  by (auto simp: create_setup_def make_setup_def stored_def Let_def split: pvalue.splits if_splits)

lemma setup_result_Inl [simp]: "setup_result r = Inl e \<longleftrightarrow> (\<exists>x. r = Inl x \<and> e = ActSetup x)"
  by (cases r) auto

lemma refused_call:
  assumes "fst (service_call f op s) = Inl e" and "\<And>x. fst (op s) = Inl x \<Longrightarrow> stored (snd (op s)) = stored s"
  shows "stored (snd (service_call f op s)) = stored s"
  using assms by (cases f) (auto simp: service_call_def case_prod_beta)

lemma fst_apfst [simp]: "fst (apfst f p) = f (fst p)"
  by (cases p) simp

lemma visibility_stale:
  assumes "fst (execute_visibility env k v s) = Inl e" and "ae_reread_fault env = None"
  shows "stored (snd (execute_visibility env k v s)) = stored s"
proof (cases "fst (service_call (ae_call_fault env) (change_visibility k v) s)")
  case (Inl x)
  then have "stored (snd (service_call (ae_call_fault env) (change_visibility k v) s)) = stored s"
    by (rule refused_call) (simp add: refused_visibility)
  then show ?thesis by (simp add: snd_visibility)
next
  case (Inr d)
  then have c: "ae_call_fault env = None" "fst (change_visibility k v s) = Inr d"
    by (auto simp: service_call_def case_prod_beta split: option.splits) (cases "fst (change_visibility k v s)"; simp)
  then have "od_has (su_setups (snd (change_visibility k v s))) k"
    by (auto simp: change_visibility_def get_or_raise_def Let_def od_has_def split: option.splits sum.splits)
  with c assms show ?thesis
    by (auto simp: execute_visibility_def service_call_def case_prod_beta faulty_def get_or_raise_def od_has_def)
qed

lemma guarded_failed:
  assumes "fst (execute_guarded env a d s) = Inl e" and "ae_reread_fault env = None \<or> (\<nexists>k v. a = ChangeVisibilityAction k v)"
  shows "stored (snd (execute_guarded env a d s)) = stored s"
proof (cases a)
  case (UpdateAction k name content cur)
  with assms show ?thesis
    by (auto simp: execute_update_def refused_update intro: refused_call split: sum.splits)
next
  case (DeleteAction k)
  with assms show ?thesis
    by (auto simp: execute_delete_def intro!: refused_call)
next
  case (ChangeVisibilityAction k v)
  with assms visibility_stale show ?thesis by simp
next
  case (SetVersionAction k v)
  with assms show ?thesis by (auto simp: refused_current intro: refused_call)
qed (simp_all)

lemma execute_failed:
  assumes "fst (execute env kind a reg s) = Inl e" and "ae_reread_fault env = None \<or> (\<nexists>k v. a = ChangeVisibilityAction k v)"
  shows "stored (snd (execute env kind a reg s)) = stored s"
proof (cases "guarded_id a")
  case (Some sid)
  show ?thesis
  proof (cases "ensure_kind env kind (orphan_ok a) sid reg s")
    case (Inl x)
    with Some show ?thesis by (simp add: execute_def)
  next
    case (Inr d)
    then have "execute env kind a reg s = execute_guarded env a d s" by (simp add: execute_def Some)
    with guarded_failed assms show ?thesis by simp
  qed
next
  case None
  with assms show ?thesis
    by (cases a) (auto simp: execute_def refused_create intro: refused_call)
qed

lemma reading_state: "\<not> writes a \<Longrightarrow> snd (execute env kind a reg s) = s"
  using execute_state [of env kind a reg s] by (cases a) simp_all

text \<open>
  The servicer's cache is told of every change that was made: a call after which the setups differ invalidates
  it, unless the reading again after a change of visibility fails; and a call that fails or only reads invalidates nothing.
\<close>

theorem writes_are_announced:
  assumes "reg_dispatch env kind a reg s = (reply, announced, s')"
  shows "(stored s' \<noteq> stored s \<and> (ae_reread_fault env = None \<or> (\<nexists>k v. a = ChangeVisibilityAction k v)) \<longrightarrow> announced)
    \<and> (announced \<longrightarrow> writes a \<and> (\<exists>r. reply = OkEnvelope r)) \<and> (\<not> writes a \<longrightarrow> s' = s)"
proof -
  obtain r t where e: "execute env kind a reg s = (r, t)" by (cases "execute env kind a reg s")
  show ?thesis
  proof (cases r)
    case (Inl x)
    with assms e have r: "\<not> announced" "t = s'" by (auto simp: reg_dispatch_def)
    have "stored s' = stored s" if "ae_reread_fault env = None \<or> (\<nexists>k v. a = ChangeVisibilityAction k v)"
      using execute_failed [of env kind a reg s x, OF _ that] e r Inl by simp
    moreover have "\<not> writes a \<Longrightarrow> s' = s" using reading_state [of a env kind reg s] e r by simp
    ultimately show ?thesis using r by (intro conjI impI) (erule conjE, simp_all)
  next
    case (Inr x)
    with assms e reading_state [of a env kind reg s] have "announced = writes a" "reply = OkEnvelope x" "\<not> writes a \<longrightarrow> s' = s"
      by (auto simp: reg_dispatch_def)
    then show ?thesis by auto
  qed
qed

lemma tool_demo: "map_option mi_type (discover_by_id ''local'' dir_demo) = Some TypeToolModule"
  by code_simp

theorem writes_are_announced_witness:
  "\<exists>r s'. reg_dispatch env_demo TypeToolModule (DeleteAction '''') dir_demo su_demo = (r, True, s') \<and> stored s' \<noteq> stored su_demo"
proof -
  obtain r b s' where e: "reg_dispatch env_demo TypeToolModule (DeleteAction '''') dir_demo su_demo = (r, b, s')" by (metis prod_cases3)
  have "\<not> od_has (su_setups (snd (snd (reg_dispatch env_demo TypeToolModule (DeleteAction '''') dir_demo su_demo)))) ''''"
    by code_simp
  moreover have "od_has (su_setups su_demo) ''''" by code_simp
  ultimately have "stored s' \<noteq> stored su_demo" by (auto simp: e stored_def)
  moreover have "ae_reread_fault env_demo = None" by (simp add: env_demo_def)
  ultimately show ?thesis using writes_are_announced [OF e] e by auto
qed

text \<open>The change of visibility that is committed, answered as a failure and not announced.\<close>

lemma visibility_not_announced:
  "let res = reg_dispatch (env_demo\<lparr>ae_reread_fault := Some FaultServer\<rparr>) TypeToolModule (ChangeVisibilityAction '''' ''public'') dir_demo su_demo in
    fst res = FailEnvelope ActServer \<and> \<not> fst (snd res)
    \<and> map_option sd_visibility (od_get (su_setups (snd (snd res))) '''') = Some VPublic
    \<and> map_option sd_visibility (od_get (su_setups su_demo) '''') = Some VPrivate"
  unfolding Let_def by (intro conjI; code_simp)


section \<open>What a search shows\<close>

lemma take_filter_all: "length (filter P xs) = length xs \<Longrightarrow> filter P xs = xs"
  by (metis length_filter_less less_irrefl filter_True)

lemma search_page:
  assumes "valid_page (sa_limit a) (sa_offset a)"
  shows "search_setups (search_query kind a) (min (page_cap (sa_limit a) + 1) MAX_RESULTS) (sa_offset a) reg
    = map setup_summary.truncate (take (nat (min (sa_limit a + 1) MAX_RESULTS)) (drop (nat (sa_offset a)) (found_setups (search_query kind a) reg)))"
proof -
  from assms have i: "sa_offset a = int (nat (sa_offset a))" and l: "min (page_cap (sa_limit a) + 1) MAX_RESULTS = int (nat (min (sa_limit a + 1) MAX_RESULTS))"
    by (simp_all add: valid_page_def page_cap_def MAX_RESULTS_def)
  have "py_slice (sa_offset a) (sa_offset a + min (page_cap (sa_limit a) + 1) MAX_RESULTS) xs
      = take (nat (min (sa_limit a + 1) MAX_RESULTS)) (drop (nat (sa_offset a)) xs)" for xs :: "setup_info list"
    using py_slice_page [of "nat (sa_offset a)" "nat (min (sa_limit a + 1) MAX_RESULTS)" xs] by (simp only: i [symmetric] l [symmetric])
  then show ?thesis by (simp add: search_setups_def)
qed

lemma has_version_truncate [simp]: "has_version (setup_summary.truncate s) = has_version s"
  by (simp add: has_version_def setup_summary.truncate_def)

lemma search_row_truncate: "ro_setup_id (search_row_of (setup_summary.truncate s)) = ss_setup_id s"
  by (simp add: search_row_of_def setup_summary.truncate_def)

lemma take_Suc_nth: "k < length xs \<Longrightarrow> take (Suc k) xs = take k xs @ [xs ! k]"
  by (rule take_Suc_conv_app_nth)



definition search_demo :: "int \<Rightarrow> search_args" where
  "search_demo limit = \<lparr>sa_query = '''', sa_setups = None, sa_modules = None, sa_statuses = None, sa_visibilities = None, sa_tags = None,
     sa_sort = SortUnspecified, sa_descending = False, sa_limit = limit, sa_offset = 0\<rparr>"

definition setup_demo :: "string \<Rightarrow> string option \<Rightarrow> setup_info" where
  "setup_demo i version = \<lparr>ss_setup_id = i, ss_name = i, ss_documentation = None, ss_status = Some SetupReady, ss_visibility = None, ss_organization = None,
     ss_module_id = None, ss_module_name = None, ss_module_type = Some TypeService, ss_version_id = None, ss_version = version, ss_tags = [],
     si_owner = None, si_card = None, si_config = None\<rparr>"

definition catalogue :: "(string \<times> string option) list \<Rightarrow> default_registry" where
  "catalogue xs = fold (\<lambda>(i, v). add_setup (setup_demo i v)) xs dr_init"


text \<open>A setup without a version takes the place of one that could be used: the page is short, and says there is no more.\<close>

lemma later_setup_hidden:
  "(case search_action TypeService (search_demo 1) (catalogue [(''a'', Some ''1''), (''broken'', None), (''b'', Some ''1'')]) of
      SearchResult n trunc start rows \<Rightarrow> \<not> trunc \<and> map ro_setup_id rows = [''a''])"
  by code_simp

end
