(* ===== verification/Tool_Loader.thy ===== *)
theory Tool_Loader
  imports Tools Registry_Toolkit
begin

text \<open>
  Loading a discovered tool into the running agent: \<open>community/agno/toolkits/registry/loader\<close>. The list of the
  agent's tools, the mission's tool cache and the stored record of loaded tools are the state. The registry's answers
  are those of \<open>Tools\<close>, with the type and name of a module beside them; a cancellation leaves the call altogether.
\<close>

section \<open>State\<close>

text \<open>A module's toolkit in the live list, with the names of its functions; anything else there is opaque.\<close>

record toolkit =
  tk_info :: tool_module
  tk_functions :: "string list"

datatype base_tool = Toolkit toolkit | OtherTool string

record loader =
  ld_tools :: "base_tool list"
  ld_cache :: tool_cache
  ld_storage :: "string storage"
  ld_notes :: "(string \<times> string) list"      \<comment> \<open>the events \<open>tool_loaded\<close> sent to the front\<close>

record load_env =
  le_reg :: registry
  le_type :: "string \<Rightarrow> RegistryModuleType"
  le_module_name :: "string \<Rightarrow> string"
  le_config :: "string \<Rightarrow> (string \<Rightarrow> string option) option"
  le_now :: real
  le_uuid :: string
  le_mission :: string

datatype load_status = LoadedNow | AlreadyLoaded

datatype load_fail =
    NoSetupId | LoadDenied | NoSuchSetup | NotATool RegistryModuleType | Conflict string | ResolutionFailed | NoCallableTools

datatype load_outcome = Loaded load_status string "string list" | NotLoaded load_fail | Cancelled

section \<open>The toolkit of a module\<close>

definition toolkits :: "base_tool list \<Rightarrow> toolkit list" where
  "toolkits ts = filter_map (\<lambda>t. case t of Toolkit k \<Rightarrow> Some k | OtherTool n \<Rightarrow> None) ts"

definition function_name :: "tool_module \<Rightarrow> string \<Rightarrow> string" where
  "function_name info tool = slugify (to_name info) @ ''__'' @ tool"

text \<open>\<open>create_tool_functions\<close> reads the cache only.\<close>

definition create_tool_functions :: "string \<Rightarrow> tool_cache \<Rightarrow> (string \<times> string) list" where
  "create_tool_functions sid c = (case tc_get sid c of
     None \<Rightarrow> [] | Some info \<Rightarrow> map (\<lambda>t. (t, function_name info t)) (to_tools info))"

definition sorted_names :: "string list \<Rightarrow> string list" where
  "sorted_names xs = sort (remdups xs)"

definition module_toolkit :: "tool_module \<Rightarrow> string set option \<Rightarrow> tool_cache \<Rightarrow> toolkit" where
  "module_toolkit info allowed c =
     (let fns = create_tool_functions (to_setup info) c;
          kept = (case allowed of None \<Rightarrow> fns | Some ok \<Rightarrow> filter (\<lambda>f. fst f \<in> ok) fns)
      in \<lparr>tk_info = info, tk_functions = map (\<lambda>f. function_name info (fst f)) kept\<rparr>)"

definition display_name :: "load_env \<Rightarrow> tool_module \<Rightarrow> string" where
  "display_name env info =
     (if to_name info \<noteq> '''' then to_name info
      else if le_module_name env (to_module info) \<noteq> '''' then le_module_name env (to_module info)
      else slugify (to_name info))"

section \<open>Loading\<close>

definition persist_loaded_tool :: "load_env \<Rightarrow> string \<Rightarrow> loader \<Rightarrow> loader" where
  "persist_loaded_tool env sid ld =
     ld\<lparr>ld_storage := snd (lt_save (le_config env) (le_now env) (le_uuid env) (le_mission env) sid (ld_storage ld))\<rparr>"

text \<open>The two cases in which there is nothing to load; a tool the setup itself selects needs no record.\<close>

definition duplicate_outcome :: "load_env \<Rightarrow> string \<Rightarrow> string \<Rightarrow> loader \<Rightarrow> (load_outcome \<times> loader) option" where
  "duplicate_outcome env sid mid ld =
     (case find (\<lambda>k. to_setup (tk_info k) = sid) (toolkits (ld_tools ld)) of
        Some k \<Rightarrow> Some (Loaded AlreadyLoaded (display_name env (tk_info k)) (sorted_names (tk_functions k)),
                    if od_has (tc_declared (ld_cache ld)) sid then ld else persist_loaded_tool env sid ld)
      | None \<Rightarrow> (case find (\<lambda>k. to_module (tk_info k) = mid) (toolkits (ld_tools ld)) of
          Some k \<Rightarrow> Some (NotLoaded (Conflict (to_setup (tk_info k))), ld)
        | None \<Rightarrow> None))"

text \<open>A confirmed tool that is not loaded yet.\<close>

definition load_new :: "load_env \<Rightarrow> string \<Rightarrow> loader \<Rightarrow> load_outcome \<times> loader" where
  "load_new env sid ld = (case resolve_tool (le_reg env) sid (ld_cache ld) of (r, c) \<Rightarrow>
     let ld1 = ld\<lparr>ld_cache := c\<rparr> in
     case r of
       Inl RegDenied \<Rightarrow> (NotLoaded LoadDenied, ld1)
     | Inl RegTimeout \<Rightarrow> (Cancelled, ld1)
     | Inl e \<Rightarrow> (NotLoaded ResolutionFailed, ld1)
     | Inr None \<Rightarrow> (NotLoaded NoSuchSetup, ld1)
     | Inr (Some info) \<Rightarrow>
         if to_tools info = [] then (NotLoaded NoCallableTools, ld1)
         else let k = module_toolkit info None c;
                  ld2 = persist_loaded_tool env sid (ld1\<lparr>ld_tools := ld_tools ld @ [Toolkit k]\<rparr>)
              in (Loaded LoadedNow (display_name env info) (sorted_names (tk_functions k)),
                  ld2\<lparr>ld_notes := ld_notes ld @ [(sid, display_name env info)]\<rparr>))"

definition lookup_failed :: "reg_exc \<Rightarrow> load_outcome" where
  "lookup_failed e = (if e = RegDenied then NotLoaded LoadDenied else if e = RegTimeout then Cancelled else NotLoaded NoSuchSetup)"

text \<open>\<open>LoadToolAction.execute\<close>\<close>

definition load_tool :: "load_env \<Rightarrow> string \<Rightarrow> loader \<Rightarrow> load_outcome \<times> loader" where
  "load_tool env sid ld =
     (if sid = '''' then (NotLoaded NoSetupId, ld)
      else case rg_get_setup (le_reg env) sid of
        Inl e \<Rightarrow> (lookup_failed e, ld)
      | Inr None \<Rightarrow> (NotLoaded NoSuchSetup, ld)
      | Inr (Some (mid, name)) \<Rightarrow>
          if mid = '''' then (NotLoaded NoSuchSetup, ld)
          else case rg_discover (le_reg env) mid of
            Inl e \<Rightarrow> (lookup_failed e, ld)
          | Inr False \<Rightarrow> (NotLoaded NoSuchSetup, ld)
          | Inr True \<Rightarrow>
              if le_type env mid \<noteq> TypeToolModule then (NotLoaded (NotATool (le_type env mid)), ld)
              else case duplicate_outcome env sid mid ld of
                Some res \<Rightarrow> res
              | None \<Rightarrow> load_new env sid ld)"

datatype load_reply = LoadUnavailable | LoadInvalid | LoadDone load_outcome

text \<open>\<open>run_paused\<close>: \<open>bound\<close> tells whether a context and a list of tools are bound, \<open>parse\<close> is pydantic's reading of the action.\<close>

definition run_paused ::
    "(pvalue \<Rightarrow> string option) \<Rightarrow> load_env \<Rightarrow> bool \<Rightarrow> pstruct \<Rightarrow> loader \<Rightarrow> load_reply \<times> loader" where
  "run_paused parse env bound tool_args ld =
     (if \<not> bound then (LoadUnavailable, ld)
      else case parse (nest_action (case od_get tool_args ''action'' of None \<Rightarrow> PNull | Some a \<Rightarrow> a) (od_del ''action'' tool_args)) of
        None \<Rightarrow> (LoadInvalid, ld)
      | Some sid \<Rightarrow> (case load_tool env sid ld of (out, ld') \<Rightarrow> (LoadDone out, ld')))"

section \<open>What loading keeps\<close>

text \<open>A cache in order: filed under the setup, and of the module the registry names for it.\<close>

definition cache_agrees :: "registry \<Rightarrow> tool_cache \<Rightarrow> bool" where
  "cache_agrees reg c \<longleftrightarrow> (\<forall>sid t. tc_get sid c = Some t \<longrightarrow> to_setup t = sid
     \<and> (\<forall>mid name. rg_get_setup reg sid = Inr (Some (mid, name)) \<longrightarrow> to_module t = mid))"

definition tools_distinct :: "base_tool list \<Rightarrow> bool" where
  "tools_distinct ts \<longleftrightarrow> distinct (map (\<lambda>k. to_setup (tk_info k)) (toolkits ts)) \<and> distinct (map (\<lambda>k. to_module (tk_info k)) (toolkits ts))"

lemma toolkits_snoc [simp]: "toolkits (ts @ [Toolkit k]) = toolkits ts @ [k]"
  by (simp add: toolkits_def filter_map_append)

lemma find_Some_in: "find P xs = Some x \<Longrightarrow> x \<in> set xs \<and> P x"
  by (auto simp: find_Some_iff)

lemma duplicate_NoneD:
  assumes "duplicate_outcome env sid mid ld = None" and "k \<in> set (toolkits (ld_tools ld))"
  shows "to_setup (tk_info k) \<noteq> sid" and "to_module (tk_info k) \<noteq> mid"
  using assms by (auto simp: duplicate_outcome_def find_None_iff split: option.splits)

lemma duplicate_SomeD:
  assumes "duplicate_outcome env sid mid ld = Some (out, ld')"
  shows "ld_tools ld' = ld_tools ld \<and> ld_cache ld' = ld_cache ld
    \<and> (\<forall>st name fns. out = Loaded st name fns \<longrightarrow> st = AlreadyLoaded \<and> (\<exists>k\<in>set (toolkits (ld_tools ld)). to_setup (tk_info k) = sid \<and> fns = sorted_names (tk_functions k)))
    \<and> (\<forall>e. out = NotLoaded e \<longrightarrow> ld' = ld)"
  using assms
  by (auto simp: duplicate_outcome_def persist_loaded_tool_def dest!: find_Some_in split: option.splits)

lemma load_new_result:
  assumes "load_new env sid ld = (out, ld')"
  obtains (fresh) info c where "resolve_tool (le_reg env) sid (ld_cache ld) = (Inr (Some info), c)" "to_tools info \<noteq> []"
      "out = Loaded LoadedNow (display_name env info) (sorted_names (tk_functions (module_toolkit info None c)))"
      "ld_tools ld' = ld_tools ld @ [Toolkit (module_toolkit info None c)]" "ld_cache ld' = c"
      "ld_storage ld' = snd (lt_save (le_config env) (le_now env) (le_uuid env) (le_mission env) sid (ld_storage ld))"
    | (not_loaded) "\<nexists>st name fns. out = Loaded st name fns" "ld_tools ld' = ld_tools ld" "ld_storage ld' = ld_storage ld"
      "ld_cache ld' = snd (resolve_tool (le_reg env) sid (ld_cache ld))"
proof -
  obtain r c where r: "resolve_tool (le_reg env) sid (ld_cache ld) = (r, c)" by (metis surj_pair)
  show ?thesis
  proof (cases "\<exists>info. r = Inr (Some info) \<and> to_tools info \<noteq> []")
    case True
    then obtain info where "r = Inr (Some info)" "to_tools info \<noteq> []" by blast
    with assms r show ?thesis by (intro fresh [of info c]) (auto simp: load_new_def Let_def persist_loaded_tool_def)
  next
    case False
    with assms r show ?thesis
      by (intro not_loaded) (auto simp: load_new_def Let_def split: sum.splits option.splits reg_exc.splits if_splits)
  qed
qed


lemma load_tool_result:
  assumes "load_tool env sid ld = (out, ld')"
  obtains (refused) "\<nexists>st name fns. out = Loaded st name fns" "ld' = ld"
    | (duplicate) mid name where "rg_get_setup (le_reg env) sid = Inr (Some (mid, name))" "duplicate_outcome env sid mid ld = Some (out, ld')"
    | (new) mid name where "rg_get_setup (le_reg env) sid = Inr (Some (mid, name))" "le_type env mid = TypeToolModule"
        "duplicate_outcome env sid mid ld = None" "load_new env sid ld = (out, ld')"
proof (cases "\<exists>mid name. sid \<noteq> '''' \<and> rg_get_setup (le_reg env) sid = Inr (Some (mid, name)) \<and> mid \<noteq> '''' \<and> rg_discover (le_reg env) mid = Inr True
    \<and> le_type env mid = TypeToolModule")
  case True
  then obtain mid name where h: "sid \<noteq> ''''" "rg_get_setup (le_reg env) sid = Inr (Some (mid, name))" "mid \<noteq> ''''"
    "rg_discover (le_reg env) mid = Inr True" "le_type env mid = TypeToolModule" by blast
  then have e: "load_tool env sid ld = (case duplicate_outcome env sid mid ld of Some res \<Rightarrow> res | None \<Rightarrow> load_new env sid ld)"
    by (simp add: load_tool_def)
  show ?thesis
  proof (cases "duplicate_outcome env sid mid ld")
    case None
    with e assms h show ?thesis by (intro new [of mid name]) simp_all
  next
    case (Some res)
    with e assms h show ?thesis by (intro duplicate [of mid name]) simp_all
  qed
next
  case False
  have l: "lookup_failed e \<noteq> Loaded st name fns" for e st name fns by (simp add: lookup_failed_def)
  from False assms l show ?thesis
    by (intro refused) (auto simp: load_tool_def split: if_splits sum.splits option.splits bool.splits)
qed

text \<open>Every setup has one module for good, and the cache was filled from it.\<close>

definition owned :: "(string \<Rightarrow> string) \<Rightarrow> tool_cache \<Rightarrow> bool" where
  "owned owner c \<longleftrightarrow> (\<forall>sid t. tc_get sid c = Some t \<longrightarrow> to_setup t = sid \<and> to_module t = owner sid)"

definition names_owner :: "(string \<Rightarrow> string) \<Rightarrow> registry \<Rightarrow> bool" where
  "names_owner owner reg \<longleftrightarrow> (\<forall>sid mid name. rg_get_setup reg sid = Inr (Some (mid, name)) \<longrightarrow> mid = owner sid)"

lemma resolved_tool:
  assumes "owned owner c" and "names_owner owner reg" and "resolve_tool reg sid c = (r, c')"
  shows "owned owner c' \<and> tc_declared c' = tc_declared c
    \<and> (\<forall>t. r = Inr (Some t) \<longrightarrow> to_setup t = sid \<and> to_module t = owner sid \<and> tc_get sid c' = Some t)"
proof -
  note f = resolve_tool_frame [OF assms(3)]
  have t: "to_setup t = sid \<and> to_module t = owner sid" if "r = Inr (Some t)" for t
    using that assms by (auto simp: resolve_tool_def owned_def names_owner_def from_module_info_def
        split: sum.splits option.splits if_splits reg_exc.splits bool.splits)
  have "owned owner c'"
    unfolding owned_def
  proof (intro allI impI)
    fix k u
    assume u: "tc_get k c' = Some u"
    show "to_setup u = k \<and> to_module u = owner k"
    proof (cases "k = sid \<and> (\<exists>t. r = Inr (Some t))")
      case True
      with u f t show ?thesis by auto
    next
      case False
      with u f have "tc_get k c = Some u" by (cases "k = sid") (auto split: sum.splits option.splits)
      with assms(1) show ?thesis by (simp add: owned_def)
    qed
  qed
  with f t show ?thesis by simp
qed

lemma tools_distinct_snoc:
  "tools_distinct ts \<Longrightarrow> (\<And>k. k \<in> set (toolkits ts) \<Longrightarrow> to_setup (tk_info k) \<noteq> to_setup info \<and> to_module (tk_info k) \<noteq> to_module info)
    \<Longrightarrow> tk_info k = info \<Longrightarrow> tools_distinct (ts @ [Toolkit k])"
  by (force simp: tools_distinct_def)

definition loader_ok :: "(string \<Rightarrow> string) \<Rightarrow> loader \<Rightarrow> bool" where
  "loader_ok owner ld \<longleftrightarrow> tools_distinct (ld_tools ld) \<and> owned owner (ld_cache ld)"

lemma load_tool_ok:
  assumes "loader_ok owner ld" and "names_owner owner (le_reg env)" and "load_tool env sid ld = (out, ld')"
  shows "loader_ok owner ld' \<and> tc_declared (ld_cache ld') = tc_declared (ld_cache ld)
    \<and> (\<exists>more. ld_tools ld' = ld_tools ld @ more)"
  using assms(3)
proof (cases rule: load_tool_result)
  case refused
  with assms(1) show ?thesis by simp
next
  case (duplicate mid name)
  from duplicate_SomeD [OF duplicate(2)] assms(1) show ?thesis by (simp add: loader_ok_def)
next
  case (new mid name)
  note ok = assms(1) [unfolded loader_ok_def]
  from new(4) show ?thesis
  proof (cases rule: load_new_result)
    case (fresh info c)
    note r = resolved_tool [OF conjunct2 [OF ok] assms(2) fresh(1)]
    have "mid = owner sid" using new(1) assms(2) by (auto simp: names_owner_def)
    then have "tools_distinct (ld_tools ld @ [Toolkit (module_toolkit info None c)])"
      using ok r duplicate_NoneD [OF new(3)] by (intro tools_distinct_snoc [where info = info]) (auto simp: module_toolkit_def Let_def)
    with r fresh show ?thesis by (simp add: loader_ok_def)
  next
    case not_loaded
    obtain r c where rc: "resolve_tool (le_reg env) sid (ld_cache ld) = (r, c)" by (metis surj_pair)
    from resolved_tool [OF conjunct2 [OF ok] assms(2) rc] not_loaded rc ok show ?thesis by (simp add: loader_ok_def)
  qed
qed


definition load_call :: "load_env \<times> string \<Rightarrow> loader \<Rightarrow> loader" where
  "load_call call ld = snd (load_tool (fst call) (snd call) ld)"

lemma loads_ok:
  assumes "loader_ok owner ld" and "\<forall>(env, sid)\<in>set calls. names_owner owner (le_reg env)"
  shows "loader_ok owner (fold load_call calls ld) \<and> tc_declared (ld_cache (fold load_call calls ld)) = tc_declared (ld_cache ld)
    \<and> (\<exists>more. ld_tools (fold load_call calls ld) = ld_tools ld @ more)"
  using assms
proof (induction calls arbitrary: ld)
  case (Cons call calls)
  obtain env sid where call: "call = (env, sid)" by (cases call)
  obtain out ld1 where l: "load_tool env sid ld = (out, ld1)" by (metis surj_pair)
  from Cons.prems(2) have "names_owner owner (le_reg env)" by (simp add: call)
  note one = load_tool_ok [OF Cons.prems(1) this l]
  from Cons.IH [of ld1] one Cons.prems(2) have "loader_ok owner (fold load_call calls ld1)
      \<and> tc_declared (ld_cache (fold load_call calls ld1)) = tc_declared (ld_cache ld1) \<and> (\<exists>more. ld_tools (fold load_call calls ld1) = ld_tools ld1 @ more)"
    by simp
  moreover have "load_call call ld = ld1" by (simp add: load_call_def call l)
  ultimately show ?case using one by auto
qed simp

text \<open>A loaded toolkit is the one that \<open>find\<close> meets.\<close>

lemma find_toolkit:
  assumes "tools_distinct ts" and "k \<in> set (toolkits ts)"
  shows "find (\<lambda>k'. to_setup (tk_info k') = to_setup (tk_info k)) (toolkits ts) = Some k"
proof -
  have "find (\<lambda>k'. to_setup (tk_info k') = to_setup (tk_info k)) xs = Some k"
    if "distinct (map (\<lambda>k. to_setup (tk_info k)) xs)" "k \<in> set xs" for xs
    using that by (induction xs) auto
  with assms show ?thesis by (simp add: tools_distinct_def)
qed

lemma load_tool_loaded:
  assumes "loader_ok owner ld" and "names_owner owner (le_reg env)" and "load_tool env sid ld = (Loaded st name fns, ld')"
  shows "\<exists>k\<in>set (toolkits (ld_tools ld')). to_setup (tk_info k) = sid \<and> fns = sorted_names (tk_functions k) \<and> name = display_name env (tk_info k)
    \<and> ((st = LoadedNow \<or> \<not> od_has (tc_declared (ld_cache ld)) sid)
        \<longrightarrow> ld_storage ld' = snd (lt_save (le_config env) (le_now env) (le_uuid env) (le_mission env) sid (ld_storage ld)))"
  using assms(3)
proof (cases rule: load_tool_result)
  case (duplicate mid n)
  then show ?thesis
    by (auto simp: duplicate_outcome_def persist_loaded_tool_def dest!: find_Some_in split: option.splits if_splits)
next
  case (new mid n)
  from new(4) show ?thesis
  proof (cases rule: load_new_result)
    case (fresh info c)
    from assms(1,2) resolved_tool [OF _ _ fresh(1)] have "to_setup info = sid" by (auto simp: loader_ok_def)
    with fresh show ?thesis by (auto simp: module_toolkit_def Let_def)
  qed simp
qed simp

lemma load_tool_not_loaded:
  assumes "load_tool env sid ld = (out, ld')" and "\<nexists>st name fns. out = Loaded st name fns"
  shows "ld_tools ld' = ld_tools ld \<and> ld_storage ld' = ld_storage ld"
  using assms(1)
proof (cases rule: load_tool_result)
  case (duplicate mid n)
  with assms(2) show ?thesis
    by (auto simp: duplicate_outcome_def split: option.splits)
next
  case (new mid n)
  from new(4) assms(2) show ?thesis by (cases rule: load_new_result) auto
qed simp

lemma load_tool_again:
  assumes "loader_ok owner ld" and "names_owner owner (le_reg env)" and "load_tool env sid ld = (Loaded st name fns, ld')"
  shows "fst (load_tool env sid ld') = Loaded AlreadyLoaded name fns \<and> ld_tools (snd (load_tool env sid ld')) = ld_tools ld'"
proof -
  from load_tool_loaded [OF assms] obtain k where k: "k \<in> set (toolkits (ld_tools ld'))" "to_setup (tk_info k) = sid"
    "fns = sorted_names (tk_functions k)" "name = display_name env (tk_info k)" by blast
  from load_tool_ok [OF assms] have d: "tools_distinct (ld_tools ld')" by (simp add: loader_ok_def)
  have "find (\<lambda>k'. to_setup (tk_info k') = sid) (toolkits (ld_tools ld')) = Some k"
    using find_toolkit [OF d k(1)] by (simp only: k(2))
  then have dup: "duplicate_outcome env sid mid ld' = Some (Loaded AlreadyLoaded name fns,
      if od_has (tc_declared (ld_cache ld')) sid then ld' else persist_loaded_tool env sid ld')" for mid
    by (simp add: duplicate_outcome_def k)
  from assms(3) have "\<exists>mid n. sid \<noteq> '''' \<and> rg_get_setup (le_reg env) sid = Inr (Some (mid, n)) \<and> mid \<noteq> '''' \<and> rg_discover (le_reg env) mid = Inr True
      \<and> le_type env mid = TypeToolModule"
    by (auto simp: load_tool_def lookup_failed_def split: if_splits sum.splits option.splits bool.splits)
  then obtain mid n where "sid \<noteq> ''''" "rg_get_setup (le_reg env) sid = Inr (Some (mid, n))" "mid \<noteq> ''''" "rg_discover (le_reg env) mid = Inr True"
      "le_type env mid = TypeToolModule" by blast
  with dup show ?thesis by (simp add: load_tool_def persist_loaded_tool_def)
qed

text \<open>
  C24: A tool is bound once. Over any loads in a mission, no two toolkits of the live list are of the same setup or of the
  same module, and what was in the list stays in it. A load that succeeds names the functions of a toolkit that
  is in the list, and records a tool the setup does not select itself for the mission's next turns; loading it again answers the same and binds nothing;
  a load that fails changes neither the tools nor the record.
\<close>

theorem tool_bound_once:
  assumes "loader_ok owner ld0" and "\<forall>(env, sid)\<in>set calls. names_owner owner (le_reg env)" and "ld = fold load_call calls ld0"
    and "names_owner owner (le_reg env)" and "load_tool env sid ld = (out, ld')"
  shows "tools_distinct (ld_tools ld') \<and> (\<exists>more. ld_tools ld' = ld_tools ld0 @ more)
    \<and> (case out of
        Loaded st name fns \<Rightarrow>
          (\<exists>k\<in>set (toolkits (ld_tools ld')). to_setup (tk_info k) = sid \<and> fns = sorted_names (tk_functions k))
          \<and> (\<not> od_has (tc_declared (ld_cache ld0)) sid
              \<longrightarrow> ld_storage ld' = snd (lt_save (le_config env) (le_now env) (le_uuid env) (le_mission env) sid (ld_storage ld)))
          \<and> fst (load_tool env sid ld') = Loaded AlreadyLoaded name fns \<and> ld_tools (snd (load_tool env sid ld')) = ld_tools ld'
      | _ \<Rightarrow> ld_tools ld' = ld_tools ld \<and> ld_storage ld' = ld_storage ld)"
proof -
  from loads_ok [OF assms(1,2)] have ok: "loader_ok owner ld" and d: "tc_declared (ld_cache ld) = tc_declared (ld_cache ld0)"
    and m: "\<exists>more. ld_tools ld = ld_tools ld0 @ more" by (simp_all add: assms(3))
  from load_tool_ok [OF ok assms(4,5)] m have t: "tools_distinct (ld_tools ld')" "\<exists>more. ld_tools ld' = ld_tools ld0 @ more"
    by (auto simp: loader_ok_def)
  show ?thesis
  proof (cases out)
    case (Loaded st name fns)
    from load_tool_loaded [OF ok assms(4,5) [unfolded Loaded]] load_tool_again [OF ok assms(4,5) [unfolded Loaded]] t d
    show ?thesis unfolding Loaded load_outcome.case by (intro conjI) auto
  next
    case (NotLoaded e)
    with load_tool_not_loaded [OF assms(5)] t show ?thesis by simp
  next
    case Cancelled
    with load_tool_not_loaded [OF assms(5)] t show ?thesis by simp
  qed
qed


definition shop :: registry where
  "shop = \<lparr>rg_get_setup = (\<lambda>sid. if sid = ''a'' \<or> sid = ''b'' then Inr (Some (''mod-'' @ sid, ''Search'')) else Inr None),
     rg_discover = (\<lambda>mid. Inr True), rg_schemas = (\<lambda>mid. Inr [''run''])\<rparr>"

definition shop_env :: load_env where
  "shop_env = \<lparr>le_reg = shop, le_type = (\<lambda>mid. TypeToolModule), le_module_name = (\<lambda>mid. mid), le_config = config_loaded, le_now = 0, le_uuid = ''u'',
     le_mission = ''mission''\<rparr>"

definition fresh_loader :: loader where
  "fresh_loader = \<lparr>ld_tools = [OtherTool ''chat''], ld_cache = tc_empty, ld_storage = [], ld_notes = []\<rparr>"

lemma shop_owner: "names_owner (\<lambda>sid. ''mod-'' @ sid) shop"
  by (simp add: names_owner_def shop_def)

lemma fresh_ok: "loader_ok owner fresh_loader"
  by (simp add: loader_ok_def tools_distinct_def toolkits_def fresh_loader_def owned_def tc_get_def tc_empty_def)

theorem tool_bound_once_witness:
  "let ld' = snd (load_tool shop_env ''a'' fresh_loader) in
    fst (load_tool shop_env ''a'' fresh_loader) = Loaded LoadedNow ''Search'' [''search__run'']
    \<and> fst (load_tool shop_env ''a'' ld') = Loaded AlreadyLoaded ''Search'' [''search__run''] \<and> ld_tools (snd (load_tool shop_env ''a'' ld')) = ld_tools ld'"
proof -
  obtain ld' where l: "load_tool shop_env ''a'' fresh_loader = (Loaded LoadedNow ''Search'' [''search__run''], ld')"
  proof -
    have "fst (load_tool shop_env ''a'' fresh_loader) = Loaded LoadedNow ''Search'' [''search__run'']" by code_simp
    then show ?thesis by (intro that) (simp add: prod_eq_iff)
  qed
  have c: "\<forall>(env, sid)\<in>set []. names_owner (\<lambda>sid. ''mod-'' @ sid) (le_reg env)" by simp
  have f: "fresh_loader = fold load_call [] fresh_loader" by simp
  have n: "names_owner (\<lambda>sid. ''mod-'' @ sid) (le_reg shop_env)" using shop_owner by (simp add: shop_env_def)
  from tool_bound_once [OF fresh_ok c f n l] show ?thesis by (simp add: l)
qed

text \<open>Two modules whose setups have the same name are both loaded, under the same function names.\<close>

lemma names_collide:
  "map tk_functions (toolkits (ld_tools (fold load_call [(shop_env, ''a''), (shop_env, ''b'')] fresh_loader))) = [[''search__run''], [''search__run'']]"
  by code_simp

end
