(* ===== verification/Tool_Calls.thy ===== *)
theory Tool_Calls
  imports Communication Registry_Toolkit
begin

text \<open>
  Calling a tool module from an agent: the function a tool is called through (\<open>models/module/module_context.py\<close>,
  \<open>_create_single_tool_function\<close>) and the wrapper that turns its stream into one answer
  (\<open>community/agno/module_toolkit.py\<close>), with the metadata of \<open>community/agno/models.py\<close>. A streamed message is the
  structure it was sent as; the text of a value that is no text is the parameter \<open>show\<close>.
\<close>

section \<open>The tool function\<close>

definition tool_input :: "string \<Rightarrow> pstruct \<Rightarrow> pstruct" where
  "tool_input protocol kwargs = [(''root'', PStruct (od_set ''protocol'' (PStr protocol) kwargs))]"

text \<open>\<open>frame.get("root")\<close> if it is an object.\<close>

definition root_of :: "pstruct \<Rightarrow> pstruct option" where
  "root_of d = (case od_get d ''root'' of Some (PStruct fs) \<Rightarrow> Some fs | _ \<Rightarrow> None)"

definition or_value :: "pvalue option \<Rightarrow> pvalue" where
  "or_value v = (case v of None \<Rightarrow> PStr '''' | Some x \<Rightarrow> x)"

definition text_of :: "(pvalue \<Rightarrow> string) \<Rightarrow> pvalue \<Rightarrow> string" where
  "text_of show v = (case v of PStr s \<Rightarrow> s | _ \<Rightarrow> show v)"

definition fatal_frame :: "pstruct \<Rightarrow> bool" where
  "fatal_frame d = (case root_of d of
     None \<Rightarrow> False
   | Some rt \<Rightarrow> od_get rt ''protocol'' = Some (PStr ''stream.error'')
       \<and> (case od_get rt ''fatal'' of None \<Rightarrow> False | Some v \<Rightarrow> py_true v))"

definition fatal_text :: "(pvalue \<Rightarrow> string) \<Rightarrow> pstruct \<Rightarrow> string" where
  "fatal_text show d = (let rt = the (root_of d) in
     ''['' @ text_of show (or_value (od_get rt ''code'')) @ ''] '' @ text_of show (or_value (od_get rt ''message'')))"

text \<open>How a stream of messages ended: it returned, it raised, or it is still running.\<close>

datatype stream_end = Finished | Raised string | Running

text \<open>The frames the tool function yields; a fatal error ends it with \<open>ToolCallError\<close>.\<close>

fun tool_function :: "(pvalue \<Rightarrow> string) \<Rightarrow> pstruct list \<Rightarrow> stream_end \<Rightarrow> pstruct list \<times> stream_end" where
  "tool_function show [] out = ([], out)"
| "tool_function show (d # ds) out =
     (if fatal_frame d then ([], Raised (fatal_text show d))
      else apfst (Cons d) (tool_function show ds out))"

section \<open>Reading the answers\<close>

definition sentinels :: "string list" where
  "sentinels = [''stream.start'', ''stream.end'', ''stream.init'', ''stream.error'']"

text \<open>The last output that is no sentinel; looking up a protocol that is a list or an object raises.\<close>

datatype 'a search_end = Found 'a | NotFound | Unhashable

fun last_output :: "pstruct list \<Rightarrow> pstruct search_end" where
  "last_output [] = NotFound"
| "last_output (d # ds) = (case root_of d of
     None \<Rightarrow> last_output ds
   | Some rt \<Rightarrow> (case or_value (od_get rt ''protocol'') of
         PList xs \<Rightarrow> Unhashable
       | PStruct fs \<Rightarrow> Unhashable
       | PStr p \<Rightarrow> if p \<in> set sentinels then last_output ds else Found d
       | _ \<Rightarrow> Found d))"

definition find_successful_response :: "pstruct list \<Rightarrow> pstruct search_end" where
  "find_successful_response results = last_output (rev results)"

definition default_error :: string where
  "default_error = ''No successful response received from module''"

definition stream_error :: "(pvalue \<Rightarrow> string) \<Rightarrow> pstruct \<Rightarrow> string option" where
  "stream_error show d = (case root_of d of
     None \<Rightarrow> None
   | Some rt \<Rightarrow>
       if od_get rt ''protocol'' \<noteq> Some (PStr ''stream.error'') then None
       else (let code = or_value (od_get rt ''code''); message = or_value (od_get rt ''message'');
                 text = (if py_true message then text_of show message else default_error)
             in Some (if py_true code then ''['' @ text_of show code @ ''] '' @ text else text)))"

definition domain_error :: "(pvalue \<Rightarrow> string) \<Rightarrow> pstruct \<Rightarrow> string option" where
  "domain_error show d =
     (case (case root_of d of None \<Rightarrow> None | Some rt \<Rightarrow> od_get rt ''error'') of
        Some v \<Rightarrow> if py_true v then Some (text_of show v)
                  else (case od_get d ''error'' of Some (PStr s) \<Rightarrow> Some s | _ \<Rightarrow> None)
      | None \<Rightarrow> (case od_get d ''error'' of Some (PStr s) \<Rightarrow> Some s | _ \<Rightarrow> None))"

definition extract_error_message :: "(pvalue \<Rightarrow> string) \<Rightarrow> pstruct list \<Rightarrow> string" where
  "extract_error_message show results =
     (case filter_map (stream_error show) (rev results) of
        msg # _ \<Rightarrow> msg
      | [] \<Rightarrow> (case filter_map (domain_error show) (rev results) of msg # _ \<Rightarrow> msg | [] \<Rightarrow> default_error))"

section \<open>Arguments\<close>

definition unwrap_agno :: "pstruct \<Rightarrow> pstruct" where
  "unwrap_agno kwargs = (case kwargs of [(k, PStruct inner)] \<Rightarrow> if k = ''kwargs'' then inner else kwargs | _ \<Rightarrow> kwargs)"

definition unwrap_tool :: "string \<Rightarrow> string set \<Rightarrow> pstruct \<Rightarrow> pstruct" where
  "unwrap_tool tool expected kwargs = (case od_get kwargs tool of
     Some (PStruct nested) \<Rightarrow>
       if \<exists>p\<in>set nested. fst p \<in> expected then merged (filter (\<lambda>p. fst p \<noteq> tool) kwargs) nested else kwargs
   | _ \<Rightarrow> kwargs)"

definition unwrap_kwargs :: "string \<Rightarrow> string set \<Rightarrow> pstruct \<Rightarrow> pstruct" where
  "unwrap_kwargs tool expected kwargs = unwrap_tool tool expected (unwrap_agno kwargs)"

section \<open>Images\<close>

definition image_url :: "pvalue \<Rightarrow> pvalue option" where
  "image_url part = (case part of
     PStruct fs \<Rightarrow>
       if od_get fs ''type'' = Some (PStr ''image_url'') then
         (case od_get fs ''image_url'' of
            Some (PStruct im) \<Rightarrow> (case od_get im ''url'' of Some u \<Rightarrow> if py_true u then Some u else None | None \<Rightarrow> None)
          | _ \<Rightarrow> None)
       else None
   | _ \<Rightarrow> None)"

definition extract_images :: "pstruct \<Rightarrow> pstruct \<times> pvalue list" where
  "extract_images out = (case root_of out of
     None \<Rightarrow> (out, [])
   | Some rt \<Rightarrow>
       if od_get rt ''protocol'' \<noteq> Some (PStr ''tool_content'') then (out, [])
       else (case od_get rt ''content'' of
           Some (PList parts) \<Rightarrow>
             (let urls = filter_map image_url parts; rest = filter (\<lambda>p. image_url p = None) parts
              in if urls = [] then (out, [])
                 else (od_set ''root'' (PStruct (od_set ''content'' (PList rest) rt)) out, urls))
         | _ \<Rightarrow> (out, [])))"

section \<open>Metadata\<close>

record tool_meta =
  tm_cost :: "real option"
  tm_api_calls :: int

text \<open>
  The metadata an output carries: the values are read by pydantic (\<open>as_float\<close>, \<open>as_int\<close>), which may refuse one, and
  the other fields may be refused as well (\<open>rest_ok\<close>).
\<close>

definition extract_tool_metadata ::
    "(pvalue \<Rightarrow> real option) \<Rightarrow> (pvalue \<Rightarrow> int option) \<Rightarrow> (pstruct \<Rightarrow> bool) \<Rightarrow> pstruct \<Rightarrow> tool_meta option" where
  "extract_tool_metadata as_float as_int rest_ok out = (case od_get out ''metadata'' of
     Some (PStruct m) \<Rightarrow>
       if m = [] \<or> \<not> rest_ok m then None
       else
         (let cost = (case od_get m ''cost_estimate_usd'' of
                None \<Rightarrow> Some None | Some PNull \<Rightarrow> Some None | Some v \<Rightarrow> map_option Some (as_float v));
              calls = (case od_get m ''api_calls_made'' of None \<Rightarrow> Some 1 | Some v \<Rightarrow> as_int v)
          in case (cost, calls) of (Some c, Some n) \<Rightarrow> Some \<lparr>tm_cost = c, tm_api_calls = n\<rparr> | _ \<Rightarrow> None)
   | _ \<Rightarrow> None)"

definition has_cost_metadata :: "tool_meta option \<Rightarrow> bool" where
  "has_cost_metadata m = (case m of None \<Rightarrow> False | Some t \<Rightarrow> tm_cost t \<noteq> None \<or> 0 < tm_api_calls t)"

section \<open>The wrapper\<close>

text \<open>A custom event of the tool that goes on to the agent's stream, if messages can be sent; a failure to send is swallowed.\<close>

definition relay_custom_event :: "bool \<Rightarrow> pstruct \<Rightarrow> (string \<times> pvalue) option" where
  "relay_custom_event can_send d = (case root_of d of
     None \<Rightarrow> None
   | Some rt \<Rightarrow>
       if od_get rt ''protocol'' \<noteq> Some (PStr ''agui_custom'') \<or> \<not> can_send then None
       else (case od_get rt ''event'' of
           Some (PStruct ev) \<Rightarrow> (case od_get ev ''name'' of
               Some (PStr n) \<Rightarrow> if n = '''' then None else Some (n, case od_get ev ''value'' of None \<Rightarrow> PNull | Some v \<Rightarrow> v)
             | _ \<Rightarrow> None)
         | _ \<Rightarrow> None))"

record call_meta =
  cm_module :: string
  cm_success :: bool
  cm_duration :: real
  cm_cost_tracked :: bool
  cm_error :: "string option"
  cm_kwargs :: pstruct
  cm_tool :: "tool_meta option"

text \<open>What the agent gets: the answer with its images, an error, or an exception that leaves the wrapper.\<close>

datatype tool_reply =
    ToolSuccess pstruct call_meta "string list"
  | ToolFailure string call_meta
  | ToolEscapes

record wrapper_env =
  we_module :: string
  we_tool :: string
  we_expected :: "string set"
  we_can_send :: bool
  we_timeout :: string                     \<comment> \<open>the text of the time limit\<close>
  we_duration :: real
  we_show :: "pvalue \<Rightarrow> string"
  we_as_float :: "pvalue \<Rightarrow> real option"
  we_as_int :: "pvalue \<Rightarrow> int option"
  we_rest_ok :: "pstruct \<Rightarrow> bool"

definition handle_failure :: "wrapper_env \<Rightarrow> string \<Rightarrow> pstruct \<Rightarrow> tool_reply" where
  "handle_failure env msg kwargs = ToolFailure msg
     \<lparr>cm_module = we_module env, cm_success = False, cm_duration = we_duration env, cm_cost_tracked = False,
      cm_error = Some msg, cm_kwargs = kwargs, cm_tool = None\<rparr>"

definition is_text :: "pvalue \<Rightarrow> bool" where
  "is_text v = (case v of PStr s \<Rightarrow> True | _ \<Rightarrow> False)"

lemma is_text_string: "is_text v \<Longrightarrow> PStr (string_value v) = v"
  by (cases v) (simp_all add: is_text_def)

text \<open>An image whose address is no text is refused by the image type, outside the wrapper's handlers.\<close>

definition handle_success :: "wrapper_env \<Rightarrow> pstruct \<Rightarrow> pstruct \<Rightarrow> tool_reply" where
  "handle_success env out kwargs =
     (let tm = extract_tool_metadata (we_as_float env) (we_as_int env) (we_rest_ok env) out;
          meta = \<lparr>cm_module = we_module env, cm_success = True, cm_duration = we_duration env, cm_cost_tracked = has_cost_metadata tm,
                  cm_error = None, cm_kwargs = kwargs, cm_tool = tm\<rparr>
      in case extract_images out of (payload, urls) \<Rightarrow>
           if list_all is_text urls then ToolSuccess payload meta (map string_value urls) else ToolEscapes)"

definition quoted :: "string \<Rightarrow> string" where
  "quoted s = CHR 0x27 # s @ [CHR 0x27]"

definition failed_text :: "wrapper_env \<Rightarrow> string \<Rightarrow> string" where
  "failed_text env e = ''Failed to call tool '' @ quoted (we_tool env) @ '': '' @ e"

definition call_tool :: "wrapper_env \<Rightarrow> pstruct \<Rightarrow> pstruct list \<Rightarrow> stream_end \<Rightarrow> tool_reply" where
  "call_tool env kwargs results out = (case out of
     Running \<Rightarrow> handle_failure env (''Tool '' @ quoted (we_tool env) @ '' timed out after '' @ we_timeout env @ ''s'') kwargs
   | Raised e \<Rightarrow> handle_failure env (failed_text env e) kwargs
   | Finished \<Rightarrow> (case find_successful_response results of
         Found d \<Rightarrow> handle_success env d kwargs
       | NotFound \<Rightarrow> handle_failure env (extract_error_message (we_show env) results) kwargs
       | Unhashable \<Rightarrow> ToolEscapes))"

text \<open>The wrapper around the tool function: the messages it relays and its reply.\<close>

definition tool_wrapper :: "wrapper_env \<Rightarrow> pstruct \<Rightarrow> pstruct list \<Rightarrow> stream_end \<Rightarrow> (string \<times> pvalue) list \<times> tool_reply" where
  "tool_wrapper env kwargs frames out =
     (case tool_function (we_show env) frames out of (results, out') \<Rightarrow>
        (filter_map (relay_custom_event (we_can_send env)) results,
         call_tool env (unwrap_kwargs (we_tool env) (we_expected env) kwargs) results out'))"


section \<open>What the agent is told\<close>

lemma tool_function_plain: "\<not> (\<exists>d\<in>set ds. fatal_frame d) \<Longrightarrow> tool_function show ds out = (ds, out)"
  by (induction ds) auto

lemma tool_function_fatal:
  "\<exists>d\<in>set ds. fatal_frame d \<Longrightarrow>
    tool_function show ds out = (takeWhile (\<lambda>d. \<not> fatal_frame d) ds, Raised (fatal_text show (the (find fatal_frame ds))))"
proof (induction ds)
  case (Cons d ds)
  show ?case
  proof (cases "fatal_frame d")
    case False
    with Cons have "tool_function show ds out = (takeWhile (\<lambda>d. \<not> fatal_frame d) ds, Raised (fatal_text show (the (find fatal_frame ds))))" by simp
    with False show ?thesis by simp
  qed simp
qed simp

text \<open>An output of the tool itself, and the messages the wrapper cannot deal with.\<close>

definition is_output :: "pstruct \<Rightarrow> bool" where
  "is_output d \<longleftrightarrow> (case root_of d of None \<Rightarrow> False
     | Some rt \<Rightarrow> (case or_value (od_get rt ''protocol'') of
         PList xs \<Rightarrow> False | PStruct fs \<Rightarrow> False | PStr p \<Rightarrow> p \<notin> set sentinels | _ \<Rightarrow> True))"

definition odd_protocol :: "pstruct \<Rightarrow> bool" where
  "odd_protocol d \<longleftrightarrow> (case root_of d of None \<Rightarrow> False
     | Some rt \<Rightarrow> (case or_value (od_get rt ''protocol'') of PList xs \<Rightarrow> True | PStruct fs \<Rightarrow> True | _ \<Rightarrow> False))"

definition odd_image :: "pstruct \<Rightarrow> bool" where
  "odd_image d \<longleftrightarrow> \<not> list_all is_text (snd (extract_images d))"

lemma last_output_Cons:
  "last_output (d # ds) = (if is_output d then Found d else if odd_protocol d then Unhashable else last_output ds)"
  by (simp add: is_output_def odd_protocol_def split: option.split pvalue.split)

declare last_output.simps(2) [simp del]

lemma last_output_Found:
  "last_output ds = Found d \<Longrightarrow> \<exists>pre post. ds = pre @ d # post \<and> is_output d \<and> \<not> (\<exists>x\<in>set pre. is_output x)"
proof (induction ds)
  case (Cons x ds)
  show ?case
  proof (cases "is_output x")
    case True
    with Cons.prems have "x = d" by (simp add: last_output_Cons)
    with True show ?thesis by (intro exI [of _ "[]"] exI [of _ ds]) simp
  next
    case False
    with Cons.prems have "last_output ds = Found d" by (simp add: last_output_Cons split: if_splits)
    from Cons.IH [OF this] obtain pre post where "ds = pre @ d # post" "is_output d" "\<not> (\<exists>y\<in>set pre. is_output y)" by blast
    with False show ?thesis by (intro exI [of _ "x # pre"] exI [of _ post]) simp
  qed
qed simp

lemma last_output_NotFound: "last_output ds = NotFound \<Longrightarrow> \<not> (\<exists>x\<in>set ds. is_output x)"
  by (induction ds) (auto simp: last_output_Cons split: if_splits)

lemma last_output_Unhashable: "last_output ds = Unhashable \<Longrightarrow> \<exists>x\<in>set ds. odd_protocol x"
  by (induction ds) (auto simp: last_output_Cons split: if_splits)

lemma found_output:
  assumes "find_successful_response ds = Found d"
  shows "\<exists>pre post. ds = pre @ d # post \<and> is_output d \<and> \<not> (\<exists>x\<in>set post. is_output x)"
proof -
  from last_output_Found [OF assms [unfolded find_successful_response_def]]
  obtain pre post where "rev ds = pre @ d # post" "is_output d" "\<not> (\<exists>x\<in>set pre. is_output x)" by blast
  moreover from this(1) have "ds = rev post @ d # rev pre" by (metis append.assoc append_Cons append_Nil rev.simps(2) rev_append rev_rev_ident)
  ultimately show ?thesis by (intro exI [of _ "rev post"] exI [of _ "rev pre"]) simp
qed


lemma handle_success_cases:
  "(odd_image d \<and> handle_success env d kwargs = ToolEscapes)
    \<or> (\<not> odd_image d \<and> (\<exists>meta. handle_success env d kwargs = ToolSuccess (fst (extract_images d)) meta (map string_value (snd (extract_images d))) \<and> cm_success meta))"
  by (simp add: handle_success_def odd_image_def case_prod_beta Let_def)

text \<open>
  C23: What the agent is told of a tool call. A fatal error in the stream, an exception or the time limit always
  gives a failure, whatever was streamed before; the answer of a stream that ends is its last output, without its images, which come beside it;
  a stream without an output gives a failure. The custom events relayed are those sent before a fatal error, in order, and
  an exception leaves the wrapper only on a protocol that is a list or an object, or on the address of an image that is no text.
\<close>

theorem tool_call_outcome:
  assumes "tool_wrapper env kwargs frames out = (relayed, reply)"
  shows "relayed = filter_map (relay_custom_event (we_can_send env)) (takeWhile (\<lambda>d. \<not> fatal_frame d) frames)
    \<and> ((\<exists>d\<in>set frames. fatal_frame d) \<or> out \<noteq> Finished \<or> \<not> (\<exists>d\<in>set frames. is_output d \<or> odd_protocol d) \<longrightarrow> (\<exists>msg meta. reply = ToolFailure msg meta \<and> \<not> cm_success meta))
    \<and> (\<forall>payload meta urls. reply = ToolSuccess payload meta urls \<longrightarrow> cm_success meta
        \<and> (\<exists>pre d post. frames = pre @ d # post \<and> is_output d \<and> \<not> (\<exists>x\<in>set post. is_output x) \<and> extract_images d = (payload, map PStr urls)))
    \<and> (reply = ToolEscapes \<longrightarrow> (\<exists>d\<in>set frames. odd_protocol d \<or> odd_image d))"
proof (cases "\<exists>d\<in>set frames. fatal_frame d")
  case True
  from assms tool_function_fatal [OF True, of "we_show env" out] True show ?thesis
    by (auto simp: tool_wrapper_def call_tool_def handle_failure_def)
next
  case False
  then have tw: "takeWhile (\<lambda>d. \<not> fatal_frame d) frames = frames" by (simp add: takeWhile_eq_all_conv)
  let ?kw = "unwrap_kwargs (we_tool env) (we_expected env) kwargs"
  from assms tool_function_plain [OF False, of "we_show env" out]
  have r: "relayed = filter_map (relay_custom_event (we_can_send env)) frames" "reply = call_tool env ?kw frames out"
    by (auto simp: tool_wrapper_def)
  show ?thesis
  proof (cases "out = Finished")
    case False
    then show ?thesis by (cases out) (auto simp: r tw call_tool_def handle_failure_def)
  next
    case fin: True
    show ?thesis
    proof (cases "find_successful_response frames")
      case (Found d)
      then have rep: "reply = handle_success env d ?kw" by (simp add: r(2) fin call_tool_def)
      from found_output [OF Found] obtain pre post where d: "frames = pre @ d # post" "is_output d" "\<not> (\<exists>x\<in>set post. is_output x)" by blast
      then have mem: "d \<in> set frames" by simp
      show ?thesis
      proof (cases "odd_image d")
        case True
        with handle_success_cases [of d env ?kw] have "reply = ToolEscapes" by (simp add: rep)
        with mem d(2) True False fin show ?thesis by (auto simp: r(1) tw)
      next
        case plain: False
        with handle_success_cases [of d env ?kw] obtain meta where
          m: "reply = ToolSuccess (fst (extract_images d)) meta (map string_value (snd (extract_images d)))" "cm_success meta" by (auto simp: rep)
        have "map PStr (map string_value (snd (extract_images d))) = snd (extract_images d)"
          using plain by (auto simp: odd_image_def list_all_iff is_text_string intro!: map_idI)
        then have "extract_images d = (fst (extract_images d), map PStr (map string_value (snd (extract_images d))))" by simp
        with d have "\<exists>pre d' post. frames = pre @ d' # post \<and> is_output d' \<and> \<not> (\<exists>x\<in>set post. is_output x)
            \<and> extract_images d' = (fst (extract_images d), map PStr (map string_value (snd (extract_images d))))" by blast
        with m mem d(2) False fin show ?thesis by (auto simp: r(1) tw)
      qed
    next
      case NotFound
      with last_output_NotFound [of "rev frames"] show ?thesis
        by (auto simp: r tw fin call_tool_def handle_failure_def find_successful_response_def)
    next
      case Unhashable
      with last_output_Unhashable [of "rev frames"] fin False show ?thesis
        by (auto simp: r tw call_tool_def find_successful_response_def)
    qed
  qed
qed

definition wrap_demo :: wrapper_env where
  "wrap_demo = \<lparr>we_module = ''m'', we_tool = ''search'', we_expected = {''q''}, we_can_send = True, we_timeout = ''300'', we_duration = 1,
     we_show = (\<lambda>v. ''?''), we_as_float = (\<lambda>v. None), we_as_int = (\<lambda>v. None), we_rest_ok = (\<lambda>m. True)\<rparr>"

definition answer_demo :: pstruct where
  "answer_demo = [(''root'', PStruct [(''protocol'', PStr ''tool_content''), (''content'', PList
     [PStruct [(''type'', PStr ''text'')], PStruct [(''type'', PStr ''image_url''), (''image_url'', PStruct [(''url'', PStr ''u'')])]])])]"

definition error_demo :: "bool \<Rightarrow> pstruct" where
  "error_demo fatal = [(''root'', PStruct [(''protocol'', PStr ''stream.error''), (''code'', PStr ''C''), (''message'', PStr ''broken''), (''fatal'', PBool fatal)])]"

theorem tool_call_outcome_witness:
  "\<exists>msg meta. snd (tool_wrapper wrap_demo [] [answer_demo, error_demo True, answer_demo] Finished) = ToolFailure msg meta"
proof -
  obtain relayed reply where w: "tool_wrapper wrap_demo [] [answer_demo, error_demo True, answer_demo] Finished = (relayed, reply)"
    by (metis surj_pair)
  have "fatal_frame (error_demo True)" by code_simp
  with tool_call_outcome [OF w] show ?thesis by (simp add: w) blast
qed

text \<open>An output followed by an error that is not fatal is told as a success: the error is never seen.\<close>

lemma late_error_hidden:
  "\<exists>payload meta. snd (tool_wrapper wrap_demo [] [answer_demo, error_demo False] Finished) = ToolSuccess payload meta [''u'']"
proof -
  have "(case snd (tool_wrapper wrap_demo [] [answer_demo, error_demo False] Finished) of ToolSuccess p m u \<Rightarrow> u = [''u''] | _ \<Rightarrow> False)"
    by code_simp
  then show ?thesis by (auto split: tool_reply.splits)
qed

text \<open>Any metadata object makes the cost count as tracked, since the number of calls is one where it is absent.\<close>

lemma cost_always_tracked:
  assumes "od_get out ''metadata'' = Some (PStruct m)" and "m \<noteq> []" and "rest_ok m"
    and "od_get m ''cost_estimate_usd'' = None" and "od_get m ''api_calls_made'' = None"
  shows "has_cost_metadata (extract_tool_metadata as_float as_int rest_ok out)"
  using assms by (simp add: extract_tool_metadata_def has_cost_metadata_def Let_def)


section \<open>Images and arguments\<close>

lemma image_split: "length (filter_map image_url parts) + length (filter (\<lambda>p. image_url p = None) parts) = length parts"
  by (induction parts) (auto split: option.split)

text \<open>
  Taking the images out of an answer loses nothing: what is left are the other parts in their order, the addresses are
  those of the image parts in theirs, everything beside the parts stays, and taking images out again finds none.
\<close>

lemma extract_images_exact:
  assumes "root_of out = Some rt" and "od_get rt ''protocol'' = Some (PStr ''tool_content'')" and "od_get rt ''content'' = Some (PList parts)"
    and "extract_images out = (payload, urls)"
  shows "urls = filter_map image_url parts
    \<and> (\<exists>rt'. root_of payload = Some rt' \<and> od_get rt' ''content'' = Some (PList (filter (\<lambda>p. image_url p = None) parts))
        \<and> (\<forall>k. k \<noteq> ''content'' \<longrightarrow> od_get rt' k = od_get rt k))
    \<and> (\<forall>k. k \<noteq> ''root'' \<longrightarrow> od_get payload k = od_get out k) \<and> extract_images payload = (payload, [])"
proof (cases "filter_map image_url parts = []")
  case True
  then have none: "filter (\<lambda>p. image_url p = None) parts = parts"
    by (induction parts) (auto split: option.splits)
  have "payload = out" "urls = []" "extract_images out = (out, [])" using assms True by (simp_all add: extract_images_def Let_def)
  with assms True none show ?thesis by simp
next
  case False
  define rt' where "rt' = od_set ''content'' (PList (filter (\<lambda>p. image_url p = None) parts)) rt"
  have p: "payload = od_set ''root'' (PStruct rt') out" "urls = filter_map image_url parts"
    using assms False by (simp_all add: extract_images_def rt'_def Let_def)
  then have r: "root_of payload = Some rt'" by (simp add: root_of_def)
  have "filter_map image_url (filter (\<lambda>p. image_url p = None) parts) = []" by (induction parts) (auto split: option.splits)
  with r assms(2) have "extract_images payload = (payload, [])" by (simp add: extract_images_def rt'_def Let_def)
  with p r show ?thesis by (simp add: rt'_def)
qed

text \<open>Arguments reach the tool the same, whether sent flat, under \<open>kwargs\<close>, under the tool's name, or under both.\<close>

lemma unwrap_forms:
  assumes "od_wf args" and "\<exists>p\<in>set args. fst p \<in> expected" and "\<not> od_has args tool" and "tool \<noteq> ''kwargs''" and "\<not> od_has args ''kwargs''"
  shows "unwrap_kwargs tool expected args = args"
    and "unwrap_kwargs tool expected [(''kwargs'', PStruct args)] = args"
    and "unwrap_kwargs tool expected [(tool, PStruct args)] = args"
    and "unwrap_kwargs tool expected [(''kwargs'', PStruct [(tool, PStruct args)])] = args"
proof -
  have m: "merged [] args = args" using merged_fresh [of "[]" args] assms(1) by (simp add: od_wf_def)
  have t: "unwrap_tool tool expected args = args" using assms(3) by (simp add: unwrap_tool_def od_has_def)
  have n: "unwrap_tool tool expected [(tool, PStruct args)] = args"
    using assms(2) m by (simp add: unwrap_tool_def od_get_Cons)
  have a: "unwrap_agno args = args"
    using assms(5) by (auto simp: unwrap_agno_def od_has_def od_get_Cons split: list.split prod.split pvalue.split)
  show "unwrap_kwargs tool expected args = args" using a t by (simp add: unwrap_kwargs_def)
  show "unwrap_kwargs tool expected [(''kwargs'', PStruct args)] = args" using t by (simp add: unwrap_kwargs_def unwrap_agno_def)
  show "unwrap_kwargs tool expected [(tool, PStruct args)] = args" using n assms(4) by (simp add: unwrap_kwargs_def unwrap_agno_def)
  show "unwrap_kwargs tool expected [(''kwargs'', PStruct [(tool, PStruct args)])] = args" using n by (simp add: unwrap_kwargs_def unwrap_agno_def)
qed

section \<open>A success at both ends\<close>

text \<open>The stream of messages an outbound call gives; \<open>text\<close> is the text of its exception.\<close>

definition call_frames :: "(call_exc \<Rightarrow> string) \<Rightarrow> call_result \<Rightarrow> pstruct list \<times> stream_end" where
  "call_frames text res = (cr_yielded res,
     case cr_outcome res of None \<Rightarrow> Running | Some None \<Rightarrow> Finished | Some (Some e) \<Rightarrow> Raised (text e))"

lemma fatal_item_frame: "is_fatal_item d \<Longrightarrow> fatal_frame d"
proof -
  assume f: "is_fatal_item d"
  then obtain v where v: "od_get d ''root'' = Some v" by (auto simp: is_fatal_item_def root_protocol_def split: option.splits)
  with f obtain p where p: "od_get (struct_value v) ''protocol'' = Some p" "string_value p = ''stream.error''"
    by (auto simp: is_fatal_item_def root_protocol_def split: option.splits)
  then obtain fs where "v = PStruct fs" by (cases v) simp_all
  moreover have "p = PStr ''stream.error''" using p(2) by (cases p) simp_all
  moreover from f v obtain x where "od_get (struct_value v) ''fatal'' = Some x" "bool_value x"
    by (auto simp: is_fatal_item_def root_fatal_def split: option.splits)
  moreover from this(2) have "py_true x" by (cases x) simp_all
  ultimately show ?thesis using v p(1) by (simp add: fatal_frame_def root_of_def)
qed

lemma stream_marks:
  "cr_outcome (call_stream env tid r) = Some None \<Longrightarrow> \<not> (\<exists>d\<in>set (cr_yielded (call_stream env tid r)). is_fatal_item d)
    \<Longrightarrow> cr_marks (call_stream env tid r) = [MarkSuccess]"
proof (cases "ce_start env = Accepts")
  case True
  obtain ds ms out where l: "call_loop False (ce_events env) = (ds, ms, out)" by (metis prod_cases3)
  assume "cr_outcome (call_stream env tid r) = Some None" "\<not> (\<exists>d\<in>set (cr_yielded (call_stream env tid r)). is_fatal_item d)"
  with True l call_loop_spec [OF l] show ?thesis by (simp add: call_stream_def Let_def)
next
  case False
  assume "cr_outcome (call_stream env tid r) = Some None"
  with False show ?thesis by (cases "ce_start env") (simp_all add: call_stream_def Let_def)
qed

lemma call_marks:
  assumes "cr_outcome (call_module env r) = Some None" and "\<not> (\<exists>d\<in>set (cr_yielded (call_module env r)). is_fatal_item d)"
  shows "cr_marks (call_module env r) = [MarkSuccess]"
proof -
  have "\<exists>tid r'. call_module env r = call_stream env tid r'"
  proof -
    have refused: "cr_outcome (call_refused e r') \<noteq> Some None" "cr_outcome (call_fails e i r') \<noteq> Some None" for e i r'
      by (simp_all add: call_refused_def call_fails_def)
    have body: "cr_outcome (call_body env r') = Some None \<Longrightarrow> \<exists>tid r''. call_body env r' = call_stream env tid r''" for r'
      using refused by (auto simp: call_body_def split: if_splits associate_answer.splits)
    show ?thesis
      using assms(1) refused body by (auto simp: call_module_def Let_def split: if_splits sum.splits)
  qed
  then obtain tid r' where "call_module env r = call_stream env tid r'" by blast
  with assms stream_marks show ?thesis by simp
qed

text \<open>
  A success of the tool is a success of its module. When the agent is given an answer, the call ran to its end without a
  fatal error, and the one outcome recorded on the target's breaker is a success; any other end of the call is told as a failure.
\<close>

theorem tool_success_marks_target:
  assumes "call_frames text (call_module cenv r) = (frames, out)" and "tool_wrapper env kwargs frames out = (relayed, reply)"
  shows "((\<exists>payload meta urls. reply = ToolSuccess payload meta urls) \<longrightarrow> cr_outcome (call_module cenv r) = Some None \<and> cr_marks (call_module cenv r) = [MarkSuccess])
    \<and> (cr_outcome (call_module cenv r) \<noteq> Some None \<longrightarrow> (\<exists>msg meta. reply = ToolFailure msg meta))"
proof -
  have out: "out = Finished \<longleftrightarrow> cr_outcome (call_module cenv r) = Some None" and fr: "frames = cr_yielded (call_module cenv r)"
    using assms(1) by (auto simp: call_frames_def split: option.splits)
  show ?thesis
  proof (cases "(\<exists>d\<in>set frames. fatal_frame d) \<or> out \<noteq> Finished")
    case True
    have "\<exists>msg meta. reply = ToolFailure msg meta"
    proof (cases "\<exists>d\<in>set frames. fatal_frame d")
      case fatal: True
      with assms(2) tool_function_fatal [OF fatal, of "we_show env" out] show ?thesis
        by (auto simp: tool_wrapper_def call_tool_def handle_failure_def)
    next
      case False
      with assms(2) True tool_function_plain [OF False, of "we_show env" out] show ?thesis
        by (cases out) (auto simp: tool_wrapper_def call_tool_def handle_failure_def)
    qed
    then show ?thesis by auto
  next
    case False
    then have "\<not> (\<exists>d\<in>set (cr_yielded (call_module cenv r)). is_fatal_item d)" using fatal_item_frame by (auto simp: fr)
    with False out call_marks show ?thesis by blast
  qed
qed

theorem tool_success_marks_target_witness:
  "cr_marks (call_module (call_demo [QItem answer_demo Consumed, QEnd]) (mr_init 1)) = [MarkSuccess]"
proof -
  let ?res = "call_module (call_demo [QItem answer_demo Consumed, QEnd]) (mr_init 1)"
  obtain frames out where f: "call_frames (\<lambda>e. '''') ?res = (frames, out)" by (metis surj_pair)
  obtain relayed reply where w: "tool_wrapper wrap_demo [] frames out = (relayed, reply)" by (metis surj_pair)
  have "(case snd (tool_wrapper wrap_demo [] (fst (call_frames (\<lambda>e. '''') ?res)) (snd (call_frames (\<lambda>e. '''') ?res))) of
      ToolSuccess p m u \<Rightarrow> True | _ \<Rightarrow> False)" by code_simp
  then have "\<exists>p m u. reply = ToolSuccess p m u" by (auto simp: f w split: tool_reply.splits)
  with tool_success_marks_target [OF f w] show ?thesis by blast
qed

end
