(* ===== verification/Request_Context.thy ===== *)
theory Request_Context
  imports Prelude
begin

text \<open>
  What travels with a request: the ambient identifiers of the task, setup and mission
  (\<open>grpc_servers/interceptors/request_ids.py\<close>), the mapping of denied calls (\<open>interceptors/permission.py\<close>), the headers a module sees
  (\<open>models/module/request_metadata.py\<close>) and the session and services of its context (\<open>models/module/module_context.py\<close>).
  gRPC carries the metadata of a call to the server as it is sent; header bytes and their decoded form coincide.
\<close>

section \<open>Ambient identifiers\<close>

type_synonym ids = "(string, string) odict"
type_synonym metadata = "(string \<times> string) list"

definition bound_ids :: "string \<Rightarrow> string \<Rightarrow> string \<Rightarrow> ids" where
  "bound_ids task_id setup_id mission_id =
     filter (\<lambda>p. snd p \<noteq> '''') [(''task_id'', task_id), (''setup_id'', setup_id), (''mission_id'', mission_id)]"

text \<open>\<open>bind\<close> gives the token and the new value of the context variable, \<open>reset\<close> the value to go back to.\<close>

definition ctx_bind :: "string \<Rightarrow> string \<Rightarrow> string \<Rightarrow> ids \<Rightarrow> ids \<times> ids" where
  "ctx_bind task_id setup_id mission_id current = (current, bound_ids task_id setup_id mission_id)"

definition ctx_reset :: "ids \<Rightarrow> ids \<Rightarrow> ids" where
  "ctx_reset token current = token"

definition header_of :: "string \<Rightarrow> string" where
  "header_of k = ''x-'' @ map (\<lambda>c. if c = CHR ''_'' then CHR ''-'' else c) k"

definition as_metadata :: "ids \<Rightarrow> metadata" where
  "as_metadata current = map (\<lambda>(k, v). (header_of k, v)) current"

text \<open>\<open>_augment\<close>, on the metadata of a call (\<open>None\<close>: it has none).\<close>

definition augment :: "ids \<Rightarrow> metadata option \<Rightarrow> metadata option" where
  "augment current md =
     (let pairs = as_metadata current; given = (case md of None \<Rightarrow> [] | Some xs \<Rightarrow> xs)
      in if pairs = [] then md
         else Some (given @ filter (\<lambda>p. fst p \<notin> lower ` fst ` set given) pairs))"

section \<open>The server's side\<close>

definition inbound :: "metadata option \<Rightarrow> (string, string) odict" where
  "inbound md = fold (\<lambda>(k, v) d. od_set (lower k) v d) (case md of None \<Rightarrow> [] | Some xs \<Rightarrow> xs) []"

definition header_value :: "metadata option \<Rightarrow> string \<Rightarrow> string" where
  "header_value md k = (case od_get (inbound md) k of None \<Rightarrow> '''' | Some v \<Rightarrow> v)"

definition inbound_ids :: "metadata option \<Rightarrow> string \<times> string \<times> string" where
  "inbound_ids md = (header_value md ''x-task-id'', header_value md ''x-setup-id'', header_value md ''x-mission-id'')"

definition carries_ids :: "metadata option \<Rightarrow> bool" where
  "carries_ids md \<longleftrightarrow> inbound_ids md \<noteq> ('''', '''', '''')"

text \<open>
  \<open>intercept_service\<close>: a handler runs with the caller's identifiers bound and the context restored afterwards, however
  it ends; one whose call carries none runs as it is. \<open>behavior\<close> is the handler as it changes and uses the context.
\<close>

definition intercepted :: "metadata option \<Rightarrow> (ids \<Rightarrow> 'r \<times> ids) \<Rightarrow> ids \<Rightarrow> 'r \<times> ids" where
  "intercepted md behavior current =
     (if \<not> carries_ids md then behavior current
      else case inbound_ids md of (t, s, m) \<Rightarrow>
        case ctx_bind t s m current of (token, current1) \<Rightarrow>
          case behavior current1 of (r, current2) \<Rightarrow> (r, ctx_reset token current2))"

section \<open>Headers and denials\<close>

definition request_metadata :: "(string, string) odict option \<Rightarrow> (string, string) odict" where
  "request_metadata raw = (case raw of None \<Rightarrow> [] | Some d \<Rightarrow> filter (\<lambda>p. \<not> starts_with (fst p) ''grpc-'') d)"

definition bearer_token :: "(string, string) odict \<Rightarrow> string option" where
  "bearer_token raw = (case od_get raw ''authorization'' of
     None \<Rightarrow> None
   | Some auth \<Rightarrow> if auth \<noteq> '''' \<and> starts_with (lower auth) ''bearer '' then Some (drop 7 auth) else None)"

text \<open>The texts \<open>__repr__\<close> shows: secrets are cut to ten characters, short ones are not shown at all.\<close>

definition shown_metadata :: "(string, string) odict \<Rightarrow> (string, string) odict" where
  "shown_metadata raw = map (\<lambda>(k, v). (k, if k = ''authorization'' \<or> k = ''x-api-key'' then (if 10 < length v then take 10 v @ ''***'' else ''***'') else v)) raw"

text \<open>The permission interceptor, on the status and details of a finished unary call.\<close>

datatype 'r unary_end = Replied 'r | Failed_Status string | PermissionRaised string

definition permission_checked :: "string \<Rightarrow> string \<Rightarrow> string \<Rightarrow> 'r \<Rightarrow> 'r unary_end" where
  "permission_checked meth code details reply =
     (if code = ''PERMISSION_DENIED''
      then PermissionRaised (''['' @ meth @ ''] '' @ (if details = '''' then ''permission denied'' else details))
      else if code = ''OK'' then Replied reply else Failed_Status code)"

section \<open>The session and the services of a context\<close>

datatype session_error = NoSetupId | NoSetupVersionId | NoMissionId | NoJobId

definition session_check :: "string \<Rightarrow> string \<Rightarrow> string \<Rightarrow> string \<Rightarrow> session_error option" where
  "session_check job_id mission_id setup_id setup_version_id =
     (if setup_id = '''' then Some NoSetupId
      else if setup_version_id = '''' then Some NoSetupVersionId
      else if mission_id = '''' then Some NoMissionId
      else if job_id = '''' then Some NoJobId else None)"

definition service_names :: "string list" where
  "service_names = [''task_manager'', ''communication'', ''cost'', ''storage'', ''registry'', ''filesystem'', ''user_profile'', ''secret'', ''identity'']"

definition borrowed_names :: "string set \<Rightarrow> string set" where
  "borrowed_names given = given \<union> {''task_manager'', ''setup''}"

text \<open>\<open>cleanup\<close>: the services closed, in order; one that fails to close does not keep the others from it.\<close>

definition ctx_cleanup :: "(string \<Rightarrow> bool) \<Rightarrow> string set \<Rightarrow> (string \<Rightarrow> bool) \<Rightarrow> (string \<times> bool) list" where
  "ctx_cleanup present given closes =
     map (\<lambda>n. (n, closes n)) (filter (\<lambda>n. present n \<and> n \<notin> borrowed_names given) service_names)"

section \<open>Identifiers arrive\<close>

lemma od_get_fold_lower:
  "od_get (fold (\<lambda>(k, v) d. od_set (lower k) v d) xs d) h =
     (case map_of (rev (map (\<lambda>(k, v). (lower k, v)) xs)) h of None \<Rightarrow> od_get d h | Some v \<Rightarrow> Some v)"
  by (induction xs arbitrary: d) (auto simp: map_add_def split: option.splits)

lemma header_names:
  "header_of ''task_id'' = ''x-task-id''" "header_of ''setup_id'' = ''x-setup-id''" "header_of ''mission_id'' = ''x-mission-id''"
  by (simp_all add: header_of_def)

lemma lower_headers [simp]:
  "lower ''x-task-id'' = ''x-task-id''" "lower ''x-setup-id'' = ''x-setup-id''" "lower ''x-mission-id'' = ''x-mission-id''"
  by code_simp+


definition given_headers :: "metadata option \<Rightarrow> string set" where
  "given_headers md = lower ` fst ` set (case md of None \<Rightarrow> [] | Some xs \<Rightarrow> xs)"

lemma inbound_None: "h \<notin> given_headers md \<Longrightarrow> od_get (inbound md) h = None"
  by (cases md) (auto simp: inbound_def od_get_fold_lower given_headers_def map_of_eq_None_iff image_image case_prod_beta split: option.split)

lemma inbound_append:
  "od_get (inbound (Some (xs @ ys))) h =
     (case map_of (rev (map (\<lambda>(k, v). (lower k, v)) ys)) h of None \<Rightarrow> od_get (inbound (Some xs)) h | Some v \<Rightarrow> Some v)"
  unfolding inbound_def by (simp only: option.case fold_append comp_def od_get_fold_lower)

text \<open>The headers of bound identifiers.\<close>

lemma bound_headers:
  "as_metadata (bound_ids t s m) = filter (\<lambda>p. snd p \<noteq> '''') [(''x-task-id'', t), (''x-setup-id'', s), (''x-mission-id'', m)]"
  by (simp add: as_metadata_def bound_ids_def header_names)

lemma map_of_rev_filter:
  "distinct (map fst xs) \<Longrightarrow> map_of (rev (filter P xs)) k = (case map_of xs k of None \<Rightarrow> None | Some v \<Rightarrow> if P (k, v) then Some v else None)"
proof (induction xs)
  case (Cons x xs)
  obtain a b where x: "x = (a, b)" by (cases x)
  with Cons.prems have n: "map_of xs a = None" by (simp add: map_of_eq_None_iff)
  from Cons x n show ?case by (auto simp: map_add_def split: option.splits)
qed simp

lemma header_after_augment:
  assumes "(h, v) \<in> set [(''x-task-id'', t), (''x-setup-id'', s), (''x-mission-id'', m)]"
  shows "header_value (augment (bound_ids t s m) md) h = (if h \<in> given_headers md then header_value md h else v)"
proof -
  let ?xs = "[(''x-task-id'', t), (''x-setup-id'', s), (''x-mission-id'', m)]"
  let ?given = "case md of None \<Rightarrow> [] | Some xs \<Rightarrow> xs"
  have d: "distinct (map fst ?xs)" by simp
  have hv: "map_of ?xs h = Some v" using assms map_of_is_SomeI [OF d] by simp
  have in_md: "inbound (Some ?given) = inbound md" by (cases md) (simp_all add: inbound_def)
  show ?thesis
  proof (cases "as_metadata (bound_ids t s m) = []")
    case True
    then have "v = ''''" using assms by (auto simp: bound_headers split: if_splits)
    moreover have "augment (bound_ids t s m) md = md" using True by (simp add: augment_def Let_def)
    ultimately show ?thesis using inbound_None [of h md] by (simp add: header_value_def)
  next
    case False
    let ?P = "\<lambda>p. snd p \<noteq> '''' \<and> fst p \<notin> lower ` fst ` set ?given"
    have a: "augment (bound_ids t s m) md = Some (?given @ filter ?P ?xs)"
      using False by (simp only: augment_def Let_def if_False) (simp add: bound_headers conj_commute)
    have lo: "map (\<lambda>(k, v). (lower k, v)) (filter ?P ?xs) = filter ?P ?xs" by simp
    have "od_get (inbound (augment (bound_ids t s m) md)) h =
        (case (if v \<noteq> '''' \<and> h \<notin> given_headers md then Some v else None) of None \<Rightarrow> od_get (inbound md) h | Some v \<Rightarrow> Some v)"
      unfolding a inbound_append lo map_of_rev_filter [OF d] in_md hv by (simp add: given_headers_def)
    then show ?thesis using inbound_None [of h md] by (simp add: header_value_def)
  qed
qed

section \<open>Nested handlers\<close>

text \<open>What handlers do, seen from the context: look at the identifiers (a log record, an outbound call), or serve a nested call.\<close>

datatype act = Look | Serve "metadata option" "act list"

fun run_act :: "act \<Rightarrow> ids \<Rightarrow> ids list \<times> ids" and run_acts :: "act list \<Rightarrow> ids \<Rightarrow> ids list \<times> ids" where
  "run_act Look current = ([current], current)"
| "run_act (Serve md as) current = intercepted md (run_acts as) current"
| "run_acts [] current = ([], current)"
| "run_acts (a # as) current =
     (case run_act a current of (seen, current1) \<Rightarrow> case run_acts as current1 of (seen', current2) \<Rightarrow> (seen @ seen', current2))"

text \<open>The identifiers by scope: those of the innermost call that carried any.\<close>

definition scope_ids :: "metadata option \<Rightarrow> ids \<Rightarrow> ids" where
  "scope_ids md current = (if carries_ids md then (case inbound_ids md of (t, s, m) \<Rightarrow> bound_ids t s m) else current)"

fun scoped :: "act \<Rightarrow> ids \<Rightarrow> ids list" where
  "scoped Look current = [current]"
| "scoped (Serve md as) current = concat (map (\<lambda>a. scoped a (scope_ids md current)) as)"

lemma run_scoped: "run_act a current = (scoped a current, current)"
  and runs_scoped: "run_acts as current = (concat (map (\<lambda>a. scoped a current) as), current)"
proof (induction a current and as current rule: run_act_run_acts.induct)
  case (2 md as current)
  show ?case
    by (cases "inbound_ids md") (simp add: "2.IH" intercepted_def scope_ids_def ctx_bind_def ctx_reset_def)
qed (simp_all add: case_prod_beta)

text \<open>
  C28: Identifiers go where the call goes and nowhere else. What a caller has bound reaches the server it calls, with every other header kept and a
  header the call already has taken instead; in the server each look at the identifiers, however deeply calls are nested, sees
  those of the innermost call that carried any, and afterwards the context is what it was.
\<close>

theorem ids_follow_the_call:
  assumes "ctx_bind t s m before = (token, current)" and "sent = augment current md" and "intercepted sent (run_acts as) outer = (seen, after)"
  shows "inbound_ids sent = (if ''x-task-id'' \<in> given_headers md then header_value md ''x-task-id'' else t,
        if ''x-setup-id'' \<in> given_headers md then header_value md ''x-setup-id'' else s,
        if ''x-mission-id'' \<in> given_headers md then header_value md ''x-mission-id'' else m)
    \<and> (\<exists>added. sent = md \<or> sent = Some ((case md of None \<Rightarrow> [] | Some xs \<Rightarrow> xs) @ added))
    \<and> seen = concat (map (\<lambda>a. scoped a (scope_ids sent outer)) as) \<and> after = outer \<and> ctx_reset token current = before"
proof -
  have c: "current = bound_ids t s m" "token = before" using assms(1) by (simp_all add: ctx_bind_def)
  have i: "inbound_ids sent = (if ''x-task-id'' \<in> given_headers md then header_value md ''x-task-id'' else t,
        if ''x-setup-id'' \<in> given_headers md then header_value md ''x-setup-id'' else s,
        if ''x-mission-id'' \<in> given_headers md then header_value md ''x-mission-id'' else m)"
    unfolding assms(2) c inbound_ids_def by (simp only: header_after_augment list.set insert_iff prod.inject simp_thms)
  have a: "\<exists>added. sent = md \<or> sent = Some ((case md of None \<Rightarrow> [] | Some xs \<Rightarrow> xs) @ added)"
    unfolding assms(2) augment_def Let_def by (cases "as_metadata current = []") auto
  have "run_act (Serve sent as) outer = (scoped (Serve sent as) outer, outer)" by (rule run_scoped)
  with assms(3) i a c show ?thesis by (simp add: ctx_reset_def)
qed

theorem ids_follow_the_call_witness:
  "intercepted (augment (bound_ids ''t1'' '''' ''m1'') (Some [(''k'', ''v'')])) (run_acts [Look, Serve None [Look]]) [(''task_id'', ''old'')]
    = (replicate 2 [(''task_id'', ''t1''), (''mission_id'', ''m1'')], [(''task_id'', ''old'')])"
proof -
  let ?sent = "augment (bound_ids ''t1'' '''' ''m1'') (Some [(''k'', ''v'')])"
  obtain seen after where i: "intercepted ?sent (run_acts [Look, Serve None [Look]]) [(''task_id'', ''old'')] = (seen, after)" by (metis surj_pair)
  have b: "ctx_bind ''t1'' '''' ''m1'' [] = ([], bound_ids ''t1'' '''' ''m1'')" by (simp add: ctx_bind_def)
  have "concat (map (\<lambda>a. scoped a (scope_ids ?sent [(''task_id'', ''old'')])) [Look, Serve None [Look]])
      = replicate 2 [(''task_id'', ''t1''), (''mission_id'', ''m1'')]" by code_simp
  with ids_follow_the_call [OF b refl i] i show ?thesis by simp
qed

end

