(* ===== verification/Chat_History.thy ===== *)
theory Chat_History
  imports Paging
begin

text \<open>
  The chat history an agent reads in two steps, \<open>community/agno/toolkits/chat_history.py\<close>: an outline of the messages, and the
  full text of those it names. The session's messages come from the agent framework: \<open>fetch\<close> answers with the messages
  but for the roles to skip, or fails.
\<close>

section \<open>Messages\<close>

record media =
  md_id :: string
  md_mime :: string
  md_format :: string

record message =
  ms_id :: string
  ms_role :: string
  ms_created :: int
  ms_content :: string
  ms_images :: "media list"
  ms_audio :: "media list"
  ms_videos :: "media list"
  ms_files :: "media list"
  ms_from_history :: bool
  ms_tool_name :: string
  ms_tool_error :: bool

definition role_label :: "string \<Rightarrow> string" where
  "role_label r = (if r = ''user'' then ''human'' else if r = ''assistant'' then ''ai'' else r)"

definition label_to_skip :: "string \<Rightarrow> string list option" where
  "label_to_skip label =
     (if label = ''human'' then Some [''system'', ''assistant'', ''tool'']
      else if label = ''ai'' then Some [''system'', ''user'', ''tool'']
      else if label = ''tool'' then Some [''system'', ''user'', ''assistant'']
      else if label = ''system'' then Some [] else None)"

record index_row =
  ir_ord :: nat
  ir_id :: string
  ir_role :: string
  ir_ts :: int
  ir_chars :: nat
  ir_preview :: string
  ir_has_media :: bool
  ir_from_history :: bool
  ir_name :: "string option"
  ir_error :: bool

definition index_row :: "nat \<Rightarrow> message \<Rightarrow> index_row" where
  "index_row n m = \<lparr>ir_ord = n, ir_id = ms_id m, ir_role = role_label (ms_role m), ir_ts = ms_created m,
     ir_chars = length (ms_content m), ir_preview = take 120 (ms_content m),
     ir_has_media = (ms_images m \<noteq> [] \<or> ms_files m \<noteq> [] \<or> ms_videos m \<noteq> [] \<or> ms_audio m \<noteq> []),
     ir_from_history = ms_from_history m,
     ir_name = (if ms_role m = ''tool'' then Some (ms_tool_name m) else None),
     ir_error = (ms_role m = ''tool'' \<and> ms_tool_error m)\<rparr>"

definition media_refs :: "message \<Rightarrow> (string \<times> media) list" where
  "media_refs m = concat (map (\<lambda>(kind, items). map (Pair kind) items)
     [(''image'', ms_images m), (''audio'', ms_audio m), (''video'', ms_videos m), (''file'', ms_files m)])"

record full_row =
  fr_id :: string
  fr_role :: string
  fr_ts :: int
  fr_content :: string
  fr_truncated :: bool
  fr_name :: "string option"
  fr_error :: bool
  fr_media :: "(string \<times> media) list"

text \<open>The mark of a cut text; the code writes an ellipsis character in it.\<close>

definition cut_mark :: string where
  "cut_mark = '' [...truncated]''"

definition full_row :: "message \<Rightarrow> int \<Rightarrow> full_row" where
  "full_row m max_chars =
     (let content = ms_content m; truncated = max_chars < int (length content)
      in \<lparr>fr_id = ms_id m, fr_role = role_label (ms_role m), fr_ts = ms_created m,
          fr_content = (if truncated then py_slice 0 max_chars content @ cut_mark else content), fr_truncated = truncated,
          fr_name = (if ms_role m = ''tool'' then Some (ms_tool_name m) else None),
          fr_error = (ms_role m = ''tool'' \<and> ms_tool_error m), fr_media = media_refs m\<rparr>)"

section \<open>The two tools\<close>

datatype history_fail = InvalidRole string | HistoryUnavailable

record outline_reply =
  or_total :: nat
  or_returned :: nat
  or_offset :: int
  or_messages :: "index_row list"

definition outline_rows :: "string option \<Rightarrow> message list \<Rightarrow> index_row list" where
  "outline_rows role messages =
     (let kept = (if role = Some ''system'' then filter (\<lambda>m. ms_role m = ''system'') messages else messages)
      in map (case_prod index_row) (zip [0..<length kept] kept))"

definition outline_slice :: "int option \<Rightarrow> int option \<Rightarrow> int \<Rightarrow> 'a list \<Rightarrow> 'a list" where
  "outline_slice first newest start rows = (case first of
     Some n \<Rightarrow> py_slice start (start + max n 0) rows
   | None \<Rightarrow> (case newest of
       Some n \<Rightarrow> (let e = max (int (length rows) - start) 0; b = max (e - max n 0) 0 in py_slice b e rows)
     | None \<Rightarrow> py_slice start (int (length rows)) rows))"

definition outline_chat_history ::
    "(string list \<Rightarrow> message list option) \<Rightarrow> string option \<Rightarrow> int option \<Rightarrow> int option \<Rightarrow> int \<Rightarrow> history_fail + outline_reply" where
  "outline_chat_history fetch role first newest start =
     (case (case role of None \<Rightarrow> Some [''system''] | Some r \<Rightarrow> label_to_skip r) of
        None \<Rightarrow> Inl (InvalidRole (the role))
      | Some skip \<Rightarrow> (case fetch skip of
          None \<Rightarrow> Inl HistoryUnavailable
        | Some messages \<Rightarrow>
            (let rows = outline_rows role messages; sliced = outline_slice first newest start rows
             in Inr \<lparr>or_total = length rows, or_returned = length sliced, or_offset = start, or_messages = sliced\<rparr>)))"

text \<open>\<open>{message.id: message}\<close>: of messages with one identifier the last counts.\<close>

definition by_id :: "message list \<Rightarrow> (string, message) odict" where
  "by_id messages = fold (\<lambda>m d. od_set (ms_id m) m d) messages []"

definition read_chat_messages ::
    "(string list \<Rightarrow> message list option) \<Rightarrow> string list \<Rightarrow> int \<Rightarrow> history_fail + full_row list \<times> string list" where
  "read_chat_messages fetch wanted max_chars =
     (if wanted = [] then Inr ([], [])
      else case fetch [] of
        None \<Rightarrow> Inl HistoryUnavailable
      | Some messages \<Rightarrow>
          (let known = by_id messages
           in Inr (filter_map (\<lambda>i. map_option (\<lambda>m. full_row m max_chars) (od_get known i)) wanted,
                   filter (\<lambda>i. \<not> od_has known i) wanted)))"

section \<open>Pages from either end\<close>

text \<open>What the framework promises: all messages of the session, in order, but for the roles to skip.\<close>

definition session_fetch :: "message list \<Rightarrow> string list \<Rightarrow> message list option" where
  "session_fetch messages skip = Some (filter (\<lambda>m. ms_role m \<notin> set skip) messages)"

definition first_page :: "string option \<times> message list \<Rightarrow> nat \<Rightarrow> nat \<Rightarrow> index_row list" where
  "first_page x start n = (case outline_chat_history (session_fetch (snd x)) (fst x) (Some (int n)) None (int start) of
     Inl e \<Rightarrow> [] | Inr r \<Rightarrow> or_messages r)"

definition last_page :: "string option \<times> message list \<Rightarrow> nat \<Rightarrow> nat \<Rightarrow> index_row list" where
  "last_page x start n = (case outline_chat_history (session_fetch (snd x)) (fst x) None (Some (int n)) (int start) of
     Inl e \<Rightarrow> [] | Inr r \<Rightarrow> rev (or_messages r))"

definition whole_outline :: "string option \<times> message list \<Rightarrow> index_row list" where
  "whole_outline x = (case outline_chat_history (session_fetch (snd x)) (fst x) None None 0 of
     Inl e \<Rightarrow> [] | Inr r \<Rightarrow> or_messages r)"

lemma slice_first: "outline_slice (Some (int n)) newest (int start) rows = take n (drop start rows)"
  by (simp add: outline_slice_def)

lemma slice_all: "outline_slice None None 0 rows = rows"
  using py_slice_page [of 0 "length rows" rows] by (simp add: outline_slice_def)

lemma slice_last: "rev (outline_slice None (Some (int n)) (int start) rows) = take n (drop start (rev rows))"
proof -
  let ?e = "length rows - start"
  have e: "max (int (length rows) - int start) 0 = int ?e" by simp
  have b: "max (int ?e - max (int n) 0) 0 = int (?e - n)" by simp
  have i: "int ?e = int (?e - n) + int (?e - (?e - n))" by linarith
  have "outline_slice None (Some (int n)) (int start) rows = py_slice (int (?e - n)) (int ?e) rows"
    by (simp only: outline_slice_def option.case Let_def e b)
  also have "\<dots> = py_slice (int (?e - n)) (int (?e - n) + int (?e - (?e - n))) rows" by (simp only: i [symmetric])
  also have "\<dots> = take (?e - (?e - n)) (drop (?e - n) rows)" by (rule py_slice_page)
  also have "\<dots> = drop (?e - n) (take ?e rows)" by (simp add: drop_take)
  finally show ?thesis by (simp only: drop_rev take_rev length_take min_absorb2 diff_le_self)
qed


lemma outline_whole:
  "outline_chat_history (session_fetch ms) role first newest start =
     (case (case role of None \<Rightarrow> Some [''system''] | Some r \<Rightarrow> label_to_skip r) of
        None \<Rightarrow> Inl (InvalidRole (the role))
      | Some skip \<Rightarrow> Inr \<lparr>or_total = length (whole_outline (role, ms)), or_returned = length (outline_slice first newest start (whole_outline (role, ms))),
            or_offset = start, or_messages = outline_slice first newest start (whole_outline (role, ms))\<rparr>)"
  by (simp add: outline_chat_history_def whole_outline_def session_fetch_def Let_def slice_all split: option.split)

lemma whole_invalid:
  "(case role of None \<Rightarrow> Some [''system''] | Some r \<Rightarrow> label_to_skip r) = None \<Longrightarrow> whole_outline (role, ms) = []"
  by (simp add: whole_outline_def outline_chat_history_def)

interpretation oldest: paged first_page whole_outline
proof
  fix n start :: nat and x :: "string option \<times> message list"
  show "first_page x start n = take n (drop start (whole_outline x))"
    by (cases x) (auto simp: first_page_def outline_whole slice_first whole_invalid split: option.split)
qed

interpretation newest: paged last_page "\<lambda>x. rev (whole_outline x)"
proof
  fix n start :: nat and x :: "string option \<times> message list"
  show "last_page x start n = take n (drop start (rev (whole_outline x)))"
    by (cases x) (auto simp: last_page_def outline_whole slice_last whole_invalid split: option.split)
qed

section \<open>What is outlined can be read\<close>

lemma by_id_get: "od_get (fold (\<lambda>m d. od_set (ms_id m) m d) ms d) i =
    (case find (\<lambda>m. ms_id m = i) (rev ms) of None \<Rightarrow> od_get d i | Some m \<Rightarrow> Some m)" for ms :: "message list"
proof (induction ms arbitrary: d)
  case (Cons m ms)
  have f: "find P (xs @ [y]) = (case find P xs of None \<Rightarrow> if P y then Some y else None | Some x \<Rightarrow> Some x)" for P :: "message \<Rightarrow> bool" and xs y
    by (induction xs) auto
  show ?case by (simp only: fold_simps Cons.IH rev.simps f) (simp split: option.split)
qed simp

lemma by_id_message:
  assumes "distinct (map ms_id ms)" and "m \<in> set ms"
  shows "od_get (by_id ms) (ms_id m) = Some m"
proof -
  have "distinct (map ms_id xs) \<Longrightarrow> m \<in> set xs \<Longrightarrow> find (\<lambda>m'. ms_id m' = ms_id m) xs = Some m" for xs
    by (induction xs) auto
  from this [of "rev ms"] assms show ?thesis by (simp add: by_id_def by_id_get rev_map [symmetric])
qed

lemma by_id_has: "od_has (by_id ms) i \<longleftrightarrow> i \<in> ms_id ` set ms"
proof -
  have "find (\<lambda>m. ms_id m = i) (rev ms) = None \<longleftrightarrow> i \<notin> ms_id ` set ms" by (auto simp: find_None_iff)
  then show ?thesis by (auto simp: od_has_def by_id_def by_id_get split: option.split)
qed

lemma outline_row_member:
  assumes "row \<in> set (whole_outline (role, ms))"
  shows "\<exists>m\<in>set ms. \<exists>n. row = index_row n m"
proof -
  from assms obtain skip kept where "row \<in> set (map (case_prod index_row) (zip [0..<length kept] kept))" "set kept \<subseteq> set ms"
    by (auto simp: whole_outline_def outline_chat_history_def session_fetch_def outline_rows_def Let_def slice_all split: option.splits if_splits)
  then show ?thesis by (auto dest!: set_zip_rightD)
qed

text \<open>
  The history can be read in two steps. The pages of the outline, from its start or from its end, list every message of the asked
  role once and in order, and say how many there are; every message listed can be read by its identifier, as the same message, in full
  if it is not longer than asked; of the identifiers asked for, exactly those of no message are reported missing.
\<close>

theorem history_two_steps:
  assumes "distinct (map ms_id ms)" and "0 < n" and "length (whole_outline (role, ms)) \<le> k * n" and "wanted \<noteq> []"
    and "read_chat_messages (session_fetch ms) wanted max_chars = Inr (out, missing)"
  shows "pages (first_page (role, ms)) n k = whole_outline (role, ms) \<and> pages (last_page (role, ms)) n k = rev (whole_outline (role, ms))
    \<and> (\<forall>row\<in>set (whole_outline (role, ms)). ir_id row \<in> set wanted \<longrightarrow>
        (\<exists>full\<in>set out. fr_id full = ir_id row \<and> fr_role full = ir_role row \<and> fr_ts full = ir_ts row
          \<and> (int (ir_chars row) \<le> max_chars \<longrightarrow> length (fr_content full) = ir_chars row \<and> take 120 (fr_content full) = ir_preview row)))
    \<and> missing = filter (\<lambda>i. i \<notin> ms_id ` set ms) wanted"
proof -
  have p: "pages (first_page (role, ms)) n k = whole_outline (role, ms)" "pages (last_page (role, ms)) n k = rev (whole_outline (role, ms))"
    using oldest.pages_cover [OF assms(2), of "(role, ms)" k] newest.pages_cover [OF assms(2), of "(role, ms)" k] assms(3) by simp_all
  have r: "out = filter_map (\<lambda>i. map_option (\<lambda>m. full_row m max_chars) (od_get (by_id ms) i)) wanted" "missing = filter (\<lambda>i. \<not> od_has (by_id ms) i) wanted"
    using assms(4,5) by (auto simp: read_chat_messages_def session_fetch_def Let_def)
  have full: "\<exists>full\<in>set out. fr_id full = ir_id row \<and> fr_role full = ir_role row \<and> fr_ts full = ir_ts row
          \<and> (int (ir_chars row) \<le> max_chars \<longrightarrow> length (fr_content full) = ir_chars row \<and> take 120 (fr_content full) = ir_preview row)"
    if row: "row \<in> set (whole_outline (role, ms))" and w: "ir_id row \<in> set wanted" for row
  proof -
    from outline_row_member [OF row] obtain m j where m: "m \<in> set ms" "row = index_row j m" by blast
    have "od_get (by_id ms) (ir_id row) = Some m" using by_id_message [OF assms(1) m(1)] by (simp add: m(2) index_row_def)
    with w have "full_row m max_chars \<in> set out" by (force simp: r(1) set_filter_map)
    moreover have "fr_id (full_row m max_chars) = ir_id row \<and> fr_role (full_row m max_chars) = ir_role row \<and> fr_ts (full_row m max_chars) = ir_ts row
          \<and> (int (ir_chars row) \<le> max_chars \<longrightarrow> length (fr_content (full_row m max_chars)) = ir_chars row \<and> take 120 (fr_content (full_row m max_chars)) = ir_preview row)"
      by (simp add: m(2) index_row_def full_row_def Let_def)
    ultimately show ?thesis by blast
  qed
  from p full r(2) show ?thesis by (simp add: by_id_has)
qed

definition message_demo :: "string \<Rightarrow> string \<Rightarrow> string \<Rightarrow> message" where
  "message_demo i role text = \<lparr>ms_id = i, ms_role = role, ms_created = 0, ms_content = text, ms_images = [], ms_audio = [], ms_videos = [], ms_files = [],
     ms_from_history = False, ms_tool_name = '''', ms_tool_error = False\<rparr>"

theorem history_two_steps_witness:
  "map ir_id (pages (last_page (Some ''human'', [message_demo ''a'' ''user'' ''hi'', message_demo ''b'' ''assistant'' ''ho'', message_demo ''c'' ''user'' ''hu''])) 1 2)
    = [''c'', ''a'']"
proof -
  let ?ms = "[message_demo ''a'' ''user'' ''hi'', message_demo ''b'' ''assistant'' ''ho'', message_demo ''c'' ''user'' ''hu'']"
  have d: "distinct (map ms_id ?ms)" by (simp add: message_demo_def)
  have l: "length (whole_outline (Some ''human'', ?ms)) \<le> 2 * 1" by code_simp
  have w: "[''c''] \<noteq> []" by simp
  obtain out missing where r: "read_chat_messages (session_fetch ?ms) [''c''] 10 = Inr (out, missing)"
    by (simp add: read_chat_messages_def session_fetch_def Let_def)
  have o: "map ir_id (rev (whole_outline (Some ''human'', ?ms))) = [''c'', ''a'']" by code_simp
  from history_two_steps [OF d _ l w r] o show ?thesis by simp
qed

text \<open>A negative number of characters cuts from the end instead: nearly the whole text is kept and marked as cut.\<close>

lemma negative_limit: "fr_content (full_row (message_demo ''a'' ''user'' ''hello'') (- 1)) = ''hell'' @ cut_mark"
  by code_simp

end
