(* ===== verification/Grpc_Errors.thy ===== *)
theory Grpc_Errors
  imports Grpc_Client Prelude
begin

text \<open>
  How the clients of the remote services turn what a call ends with into exceptions of their own:
  \<open>grpc_servers/utils/grpc_error_handler.py\<close> and \<open>services/setup/grpc_setup.py\<close>, over the results of
  \<open>exec_grpc_query\<close> (\<open>Grpc_Client\<close>). A protobuf message is a record of the fields the code reads, an enumeration of
  the wire the name of its value (\<open>None\<close>: a number without a name), an unset text the empty one.
\<close>

section \<open>Exceptions\<close>

text \<open>\<open>PermissionDeniedError\<close> is a \<open>ServerError\<close>, \<open>ModuleNotFound\<close> one of the service's own errors.\<close>

datatype rpc_exc =
    PermissionDenied
  | ServerError bool       \<comment> \<open>whether its cause is an open circuit\<close>
  | ServiceError
  | ModuleNotFound
  | BadValue               \<comment> \<open>\<open>ValueError\<close>\<close>
  | Validation             \<comment> \<open>pydantic's \<open>ValidationError\<close>\<close>
  | MissingKey             \<comment> \<open>\<open>KeyError\<close>\<close>
  | Cancellation           \<comment> \<open>not an \<open>Exception\<close>\<close>

type_synonym 'a called = "rpc_exc + 'a"

text \<open>What \<open>await exec_grpc_query(...)\<close> ends with; a denial is raised by the interceptor within it.\<close>

datatype 'r rpc_end = Ended "'r query_result" | DeniedCall

fun awaited :: "'r rpc_end \<Rightarrow> 'r called" where
  "awaited DeniedCall = Inl PermissionDenied"
| "awaited (Ended (Returned r)) = Inr r"
| "awaited (Ended (FailedFast e)) = Inl (ServerError True)"
| "awaited (Ended CancelledErr) = Inl Cancellation"
| "awaited (Ended (BadBreakerSettings e)) = Inl BadValue"
| "awaited (Ended e) = Inl (ServerError False)"

section \<open>Handlers\<close>

text \<open>
  \<open>handle_grpc_errors\<close> with the service's own class: an error of that class, or of one below it, is raised again
  as that class itself.
\<close>

fun handled :: "rpc_exc \<Rightarrow> rpc_exc" where
  "handled PermissionDenied = PermissionDenied"
| "handled ServiceError = ServiceError"
| "handled ModuleNotFound = ServiceError"
| "handled (ServerError c) = ServerError False"
| "handled Cancellation = Cancellation"
| "handled _ = ServiceError"

definition handle_grpc_errors :: "'a called \<Rightarrow> 'a called" where
  "handle_grpc_errors r = (case r of Inl e \<Rightarrow> Inl (handled e) | Inr x \<Rightarrow> Inr x)"

text \<open>The handler of the setup client, which lets a \<open>ServerError\<close> pass as it is and knows a validation error.\<close>

fun setup_handled :: "rpc_exc \<Rightarrow> rpc_exc" where
  "setup_handled PermissionDenied = PermissionDenied"
| "setup_handled (ServerError c) = ServerError c"
| "setup_handled Cancellation = Cancellation"
| "setup_handled Validation = BadValue"
| "setup_handled _ = ServiceError"

definition handle_setup_errors :: "'a called \<Rightarrow> 'a called" where
  "handle_setup_errors r = (case r of Inl e \<Rightarrow> Inl (setup_handled e) | Inr x \<Rightarrow> Inr x)"

definition bind_call :: "'a called \<Rightarrow> ('a \<Rightarrow> 'b called) \<Rightarrow> 'b called" where
  "bind_call r f = (case r of Inl e \<Rightarrow> Inl e | Inr x \<Rightarrow> f x)"

lemma bind_call_simps [simp]: "bind_call (Inl e) f = Inl e" "bind_call (Inr x) f = f x"
  by (simp_all add: bind_call_def)

lemma handle_simps [simp]:
  "handle_grpc_errors (Inl e) = Inl (handled e)" "handle_grpc_errors (Inr x) = Inr x"
  "handle_setup_errors (Inl e) = Inl (setup_handled e)" "handle_setup_errors (Inr x) = Inr x"
  by (simp_all add: handle_grpc_errors_def handle_setup_errors_def)

lemma bind_call_Inr: "bind_call r f = Inr y \<longleftrightarrow> (\<exists>x. r = Inr x \<and> f x = Inr y)"
  by (cases r) simp_all

lemma handle_Inr [simp]: "handle_grpc_errors r = Inr y \<longleftrightarrow> r = Inr y" "handle_setup_errors r = Inr y \<longleftrightarrow> r = Inr y"
  by (cases r; simp)+

text \<open>What can leave a handler.\<close>

lemma handled_range: "handled e \<in> {PermissionDenied, ServerError False, ServiceError, Cancellation}"
  by (cases e) simp_all

lemma handled_denied [simp]: "handled e = PermissionDenied \<longleftrightarrow> e = PermissionDenied"
  by (cases e) simp_all

lemma handled_cancelled [simp]: "handled e = Cancellation \<longleftrightarrow> e = Cancellation"
  by (cases e) simp_all

text \<open>A module that is not found can never be told from any other failure.\<close>

lemma handled_not_found: "handle_grpc_errors r \<noteq> Inl ModuleNotFound"
proof (cases r)
  case (Inl e)
  with handled_range [of e] show ?thesis by auto
qed simp

section \<open>Optional fields and enumerations\<close>

definition optional :: "string \<Rightarrow> string option" where
  "optional s = (if s = '''' then None else Some s)"

definition remove_prefix :: "string \<Rightarrow> string \<Rightarrow> string" where
  "remove_prefix p s = (if starts_with s p then drop (length p) s else s)"

text \<open>
  \<open>Enum.Name(...)\<close> of a wire enumeration, without its prefix, looked up among the members' names.
\<close>

definition read_enum :: "('e \<Rightarrow> string) \<Rightarrow> 'e list \<Rightarrow> string \<Rightarrow> string option \<Rightarrow> 'e called" where
  "read_enum name_of members prefix v = (case v of
     None \<Rightarrow> Inl BadValue
   | Some n \<Rightarrow> (case find (\<lambda>e. name_of e = remove_prefix (prefix @ ''_'') n) members of None \<Rightarrow> Inl MissingKey | Some e \<Rightarrow> Inr e))"

text \<open>\<open>_encode_enum\<close>, with the names the generated code knows.\<close>

definition encode_enum :: "string list \<Rightarrow> ('e \<Rightarrow> string) \<Rightarrow> string \<Rightarrow> 'e \<Rightarrow> string called" where
  "encode_enum proto name_of prefix e =
     (let n = prefix @ ''_'' @ name_of e in if n \<in> set proto then Inr n else Inl BadValue)"

definition encode_all :: "string list \<Rightarrow> ('e \<Rightarrow> string) \<Rightarrow> string \<Rightarrow> 'e list \<Rightarrow> string list called" where
  "encode_all proto name_of prefix es =
     foldr (\<lambda>e r. bind_call (encode_enum proto name_of prefix e) (\<lambda>n. bind_call r (\<lambda>ns. Inr (n # ns)))) es (Inr [])"

definition read_all :: "('m \<Rightarrow> 'a called) \<Rightarrow> 'm list \<Rightarrow> 'a list called" where
  "read_all f ms = foldr (\<lambda>m r. bind_call (f m) (\<lambda>x. bind_call r (\<lambda>xs. Inr (x # xs)))) ms (Inr [])"

lemma read_all_simps [simp]:
  "read_all f [] = Inr []" "read_all f (m # ms) = bind_call (f m) (\<lambda>x. bind_call (read_all f ms) (\<lambda>xs. Inr (x # xs)))"
  by (simp_all add: read_all_def)

lemma encode_all_simps [simp]:
  "encode_all proto nm p [] = Inr []"
  "encode_all proto nm p (e # es) = bind_call (encode_enum proto nm p e) (\<lambda>n. bind_call (encode_all proto nm p es) (\<lambda>ns. Inr (n # ns)))"
  by (simp_all add: encode_all_def)

lemma read_all_Inr: "read_all f ms = Inr xs \<longleftrightarrow> list_all2 (\<lambda>m x. f m = Inr x) ms xs"
  by (induction ms arbitrary: xs) (auto simp: bind_call_Inr list_all2_Cons1)

lemma read_all_map: "(\<And>x. x \<in> set xs \<Longrightarrow> f (g x) = Inr x) \<Longrightarrow> read_all f (map g xs) = Inr xs"
  by (induction xs) simp_all

lemma remove_prefix_append [simp]: "remove_prefix p (p @ s) = s"
  by (simp add: remove_prefix_def)

text \<open>An enumeration whose members' names differ survives the wire.\<close>

locale wire_enum =
  fixes name_of :: "'e \<Rightarrow> string" and members :: "'e list" and prefix :: string
  assumes complete: "e \<in> set members" and names_differ: "name_of e = name_of e' \<Longrightarrow> e = e'"
begin

lemma find_member: "find (\<lambda>e'. name_of e' = name_of e) members = Some e"
proof -
  from complete [of e] obtain e' where f: "find (\<lambda>e'. name_of e' = name_of e) members = Some e'"
    by (cases "find (\<lambda>e'. name_of e' = name_of e) members") (auto simp: find_None_iff)
  then have "name_of e' = name_of e" by (auto simp: find_Some_iff)
  with f names_differ show ?thesis by metis
qed

lemma read_encoded: "encode_enum proto name_of prefix e = Inr n \<Longrightarrow> read_enum name_of members prefix (Some n) = Inr e"
  using find_member [of e] remove_prefix_append [of "prefix @ ''_''" "name_of e"]
  by (auto simp: encode_enum_def read_enum_def Let_def split: if_splits)

lemma read_encoded_all: "encode_all proto name_of prefix es = Inr ns \<Longrightarrow> read_all (read_enum name_of members prefix) (map Some ns) = Inr es"
  by (induction es arbitrary: ns) (auto simp: bind_call_Inr read_encoded)

lemma encode_fails: "encode_all proto name_of prefix es = Inl x \<Longrightarrow> x = BadValue \<and> (\<exists>e\<in>set es. prefix @ ''_'' @ name_of e \<notin> set proto)"
proof (induction es)
  case (Cons e es)
  then show ?case
    by (cases "encode_all proto name_of prefix es") (auto simp: encode_enum_def Let_def split: if_splits)
qed simp

end

end
