(* ===== verification/Grpc_Storage.thy ===== *)
theory Grpc_Storage
  imports Grpc_Errors Storage File_History Struct_Value
begin

text \<open>
  The remote storage backend, \<open>services/storage/grpc_storage.py\<close>, under the strategy of
  \<open>services/storage/storage_strategy.py\<close>. The service is a parameter: one function per method, from the request and
  the service's state to what the call ends with and the state after it. A payload is of any type; \<open>sc_struct\<close> makes the
  protobuf struct of it (\<open>None\<close>: the struct refuses a value), and a collection's schema reads it back.
\<close>

section \<open>Messages\<close>

datatype context_kind = CONTEXT_MISSIONS | CONTEXT_SETUP_VERSIONS | CONTEXT_USERS | CONTEXT_ORGANIZATIONS | CONTEXT_UNSPECIFIED

definition context_enum :: "string \<Rightarrow> string \<Rightarrow> context_kind" where
  "context_enum setup_version_id context =
     (if context = setup_version_id \<or> starts_with context ''setup_versions:'' then CONTEXT_SETUP_VERSIONS
      else if starts_with context (context_value USERS @ '':'') then CONTEXT_USERS
      else if starts_with context (context_value ORGANIZATIONS @ '':'') then CONTEXT_ORGANIZATIONS
      else if starts_with context (context_value CTX_UNSPECIFIED @ '':'') then CONTEXT_UNSPECIFIED
      else CONTEXT_MISSIONS)"

fun record_visibility_name :: "Visibility \<Rightarrow> string" where
  "record_visibility_name VPublic = ''PUBLIC''"
| "record_visibility_name VPrivate = ''PRIVATE''"
| "record_visibility_name VInternal = ''INTERNAL''"
| "record_visibility_name VUnspecified = ''UNSPECIFIED''"

definition record_visibilities :: "Visibility list" where
  "record_visibilities = [VUnspecified, VPublic, VPrivate, VInternal]"

fun data_type_name :: "DataType \<Rightarrow> string" where
  "data_type_name DOutput = ''OUTPUT''"
| "data_type_name DView = ''VIEW''"
| "data_type_name DLogs = ''LOGS''"
| "data_type_name DOther = ''OTHER''"

definition data_types :: "DataType list" where
  "data_types = [DOutput, DView, DLogs, DOther]"

definition visibility_enum :: "Visibility \<Rightarrow> string" where
  "visibility_enum v = ''VISIBILITY'' @ ''_'' @ record_visibility_name v"

definition read_record_visibility :: "string option \<Rightarrow> Visibility called" where
  "read_record_visibility = read_enum record_visibility_name record_visibilities ''VISIBILITY''"

definition read_data_type :: "string option \<Rightarrow> DataType called" where
  "read_data_type v = (case v of
     None \<Rightarrow> Inl BadValue
   | Some n \<Rightarrow> (case find (\<lambda>t. data_type_name t = n) data_types of None \<Rightarrow> Inl MissingKey | Some t \<Rightarrow> Inr t))"

interpretation wire_record_visibility: wire_enum record_visibility_name record_visibilities "''VISIBILITY''"
proof
  fix e e' :: Visibility
  show "e \<in> set record_visibilities" by (cases e) (simp_all add: record_visibilities_def)
  show "record_visibility_name e = record_visibility_name e' \<Longrightarrow> e = e'" by (cases e; cases e') simp_all
qed

interpretation wire_data_type: wire_enum data_type_name data_types "''''"
proof
  fix e e' :: DataType
  show "e \<in> set data_types" by (cases e) (simp_all add: data_types_def)
  show "data_type_name e = data_type_name e' \<Longrightarrow> e = e'" by (cases e; cases e') simp_all
qed

lemma read_visibility_enum [simp]: "read_record_visibility (Some (visibility_enum v)) = Inr v"
proof -
  have "encode_enum [visibility_enum v] record_visibility_name ''VISIBILITY'' v = Inr (visibility_enum v)"
    by (simp add: encode_enum_def visibility_enum_def)
  then show ?thesis unfolding read_record_visibility_def by (rule wire_record_visibility.read_encoded)
qed

lemma read_data_type_name [simp]: "read_data_type (Some (data_type_name t)) = Inr t"
  by (simp add: read_data_type_def wire_data_type.find_member)

record record_msg =
  wr_context :: string
  wr_collection :: string
  wr_record_id :: string
  wr_data :: "pstruct option"
  wr_data_type :: "string option"
  wr_visibility :: "string option"
  wr_created :: "real option"
  wr_updated :: "real option"
  wr_storage_id :: string

record store_request =
  sr_data :: pstruct
  sr_context :: context_kind
  sr_collection :: string
  sr_record_id :: string
  sr_data_type :: string
  sr_visibility :: string

record read_request =
  rr_context :: context_kind
  rr_collection :: string
  rr_record_id :: string
  rr_storage_id :: string

record update_request =
  ur_data :: pstruct
  ur_context :: context_kind
  ur_collection :: string
  ur_record_id :: string
  ur_visibility :: string

record remove_request =
  xr_context :: context_kind
  xr_collection :: string
  xr_record_id :: string

record list_request =
  lr_context :: context_kind
  lr_collection :: string
  lr_record_id :: string
  lr_limit :: nat
  lr_offset :: nat
  lr_visibilities :: "string list"

record 's storage_service =
  sv_store :: "store_request \<Rightarrow> 's \<Rightarrow> record_msg rpc_end \<times> 's"
  sv_read :: "read_request \<Rightarrow> 's \<Rightarrow> record_msg rpc_end \<times> 's"
  sv_update :: "update_request \<Rightarrow> 's \<Rightarrow> record_msg rpc_end \<times> 's"
  sv_remove :: "remove_request \<Rightarrow> 's \<Rightarrow> unit rpc_end \<times> 's"
  sv_list :: "list_request \<Rightarrow> 's \<Rightarrow> record_msg list rpc_end \<times> 's"
  sv_remove_collection :: "remove_request \<Rightarrow> 's \<Rightarrow> unit rpc_end \<times> 's"

section \<open>The backend\<close>

text \<open>\<open>sc_types\<close>: the data types the generated code knows by name.\<close>

record 'd storage_client =
  sc_mission :: string
  sc_setup_version :: string
  sc_config :: "string \<Rightarrow> (pstruct \<Rightarrow> 'd option) option"
  sc_struct :: "'d \<Rightarrow> pstruct option"
  sc_types :: "string list"

definition build_record_from_proto :: "'d storage_client \<Rightarrow> record_msg \<Rightarrow> 'd storage_record called" where
  "build_record_from_proto c m =
     bind_call (read_data_type (wr_data_type m)) (\<lambda>dt.
     bind_call (read_record_visibility (wr_visibility m)) (\<lambda>vis.
       let payload = (case wr_data m of Some fs \<Rightarrow> fs | None \<Rightarrow> []) in
       case validate_data (sc_config c) (wr_collection m) payload of
         Inl e \<Rightarrow> Inl BadValue
       | Inr d \<Rightarrow> Inr \<lparr>st_context = wr_context m, st_collection = wr_collection m, st_record_id = wr_record_id m, st_data = d,
           st_data_type = dt, st_visibility = vis, st_created = wr_created m, st_updated = wr_updated m, st_storage_id = wr_storage_id m\<rparr>))"

definition build_record_or_skip :: "'d storage_client \<Rightarrow> record_msg \<Rightarrow> 'd storage_record option" where
  "build_record_or_skip c m = (case build_record_from_proto c m of Inl e \<Rightarrow> None | Inr r \<Rightarrow> Some r)"

text \<open>
  \<open>except PermissionDeniedError: raise\<close>, \<open>except Exception\<close>: what the method makes of any other failure; a
  cancellation is no \<open>Exception\<close>.
\<close>

definition unless_denied :: "'a called \<Rightarrow> 'a called \<Rightarrow> 'a called" where
  "unless_denied otherwise r = (case r of
     Inr x \<Rightarrow> Inr x
   | Inl PermissionDenied \<Rightarrow> Inl PermissionDenied
   | Inl Cancellation \<Rightarrow> Inl Cancellation
   | Inl _ \<Rightarrow> otherwise)"

definition grpc_store :: "'d storage_client \<Rightarrow> 's storage_service \<Rightarrow> 'd storage_record \<Rightarrow> 's \<Rightarrow> 'd storage_record called \<times> 's" where
  "grpc_store c srv r s = (case sc_struct c (st_data r) of
     None \<Rightarrow> (Inl BadValue, s)
   | Some fs \<Rightarrow>
       if data_type_name (st_data_type r) \<notin> set (sc_types c) then (Inl BadValue, s)
       else (case sv_store srv \<lparr>sr_data = fs, sr_context = context_enum (sc_setup_version c) (st_context r), sr_collection = st_collection r,
               sr_record_id = st_record_id r, sr_data_type = data_type_name (st_data_type r), sr_visibility = visibility_enum (st_visibility r)\<rparr> s of
          (e, s') \<Rightarrow> (unless_denied (Inl ServiceError) (bind_call (awaited e) (build_record_from_proto c)), s')))"

definition grpc_read ::
    "'d storage_client \<Rightarrow> 's storage_service \<Rightarrow> string \<Rightarrow> string \<Rightarrow> string \<Rightarrow> string \<Rightarrow> 's \<Rightarrow> 'd storage_record option called \<times> 's" where
  "grpc_read c srv collection record_id context storage_id s =
     (case sv_read srv \<lparr>rr_context = context_enum (sc_setup_version c) context, rr_collection = collection, rr_record_id = record_id,
             rr_storage_id = storage_id\<rparr> s of
        (e, s') \<Rightarrow> (unless_denied (Inr None) (bind_call (bind_call (awaited e) (build_record_from_proto c)) (\<lambda>r. Inr (Some r))), s'))"

definition grpc_update ::
    "'d storage_client \<Rightarrow> 's storage_service \<Rightarrow> string \<Rightarrow> string \<Rightarrow> 'd \<Rightarrow> string \<Rightarrow> Visibility \<Rightarrow> 's
      \<Rightarrow> 'd storage_record option called \<times> 's" where
  "grpc_update c srv collection record_id d context vis s = (case sc_struct c d of
     None \<Rightarrow> (Inl BadValue, s)
   | Some fs \<Rightarrow>
       (case sv_update srv \<lparr>ur_data = fs, ur_context = context_enum (sc_setup_version c) context, ur_collection = collection,
               ur_record_id = record_id, ur_visibility = visibility_enum vis\<rparr> s of
          (e, s') \<Rightarrow> (unless_denied (Inr None) (bind_call (bind_call (awaited e) (build_record_from_proto c)) (\<lambda>r. Inr (Some r))), s')))"

definition grpc_remove :: "'d storage_client \<Rightarrow> 's storage_service \<Rightarrow> string \<Rightarrow> string \<Rightarrow> string \<Rightarrow> 's \<Rightarrow> bool called \<times> 's" where
  "grpc_remove c srv collection record_id context s =
     (case sv_remove srv \<lparr>xr_context = context_enum (sc_setup_version c) context, xr_collection = collection, xr_record_id = record_id\<rparr> s of
        (e, s') \<Rightarrow> (unless_denied (Inr False) (bind_call (awaited e) (\<lambda>_. Inr True)), s'))"

definition grpc_list ::
    "'d storage_client \<Rightarrow> 's storage_service \<Rightarrow> string \<Rightarrow> string \<Rightarrow> Visibility list \<Rightarrow> string \<Rightarrow> nat \<Rightarrow> nat \<Rightarrow> 's
      \<Rightarrow> 'd storage_record list called \<times> 's" where
  "grpc_list c srv collection context visibilities record_id limit offset s =
     (case sv_list srv \<lparr>lr_context = context_enum (sc_setup_version c) context, lr_collection = collection, lr_record_id = record_id,
             lr_limit = limit, lr_offset = offset, lr_visibilities = map visibility_enum visibilities\<rparr> s of
        (e, s') \<Rightarrow> (unless_denied (Inr []) (bind_call (awaited e) (\<lambda>ms. Inr (filter_map (build_record_or_skip c) ms))), s'))"

definition grpc_remove_collection ::
    "'d storage_client \<Rightarrow> 's storage_service \<Rightarrow> string \<Rightarrow> string \<Rightarrow> string \<Rightarrow> 's \<Rightarrow> bool called \<times> 's" where
  "grpc_remove_collection c srv collection context record_id s =
     (case sv_remove_collection srv \<lparr>xr_context = context_enum (sc_setup_version c) context, xr_collection = collection, xr_record_id = record_id\<rparr> s of
        (e, s') \<Rightarrow> (unless_denied (Inr False) (bind_call (awaited e) (\<lambda>_. Inr True)), s'))"

section \<open>The strategy over it\<close>

definition remote_resolve :: "'d storage_client \<Rightarrow> Context \<Rightarrow> string" where
  "remote_resolve c = resolve_context (sc_mission c) (sc_setup_version c)"

definition remote_store ::
    "'d storage_client \<Rightarrow> 's storage_service \<Rightarrow> string \<Rightarrow> string \<Rightarrow> string option \<Rightarrow> pstruct \<Rightarrow> DataType \<Rightarrow> Context \<Rightarrow> Visibility \<Rightarrow> 's
      \<Rightarrow> 'd storage_record called \<times> 's" where
  "remote_store c srv new_id collection record_id payload dt ctx vis s =
     (let rid = (case record_id of Some r \<Rightarrow> (if r = '''' then new_id else r) | None \<Rightarrow> new_id) in
      case validate_data (sc_config c) collection payload of
        Inl e \<Rightarrow> (Inl BadValue, s)
      | Inr v \<Rightarrow> grpc_store c srv (create_storage_record collection rid v dt (remote_resolve c ctx) vis) s)"

definition remote_update ::
    "'d storage_client \<Rightarrow> 's storage_service \<Rightarrow> string \<Rightarrow> string \<Rightarrow> pstruct \<Rightarrow> Context \<Rightarrow> Visibility \<Rightarrow> 's
      \<Rightarrow> 'd storage_record option called \<times> 's" where
  "remote_update c srv collection record_id payload ctx vis s =
     (case validate_data (sc_config c) collection payload of
        Inl e \<Rightarrow> (Inl BadValue, s)
      | Inr v \<Rightarrow> grpc_update c srv collection record_id v (remote_resolve c ctx) vis s)"

definition remote_upsert ::
    "'d storage_client \<Rightarrow> 's storage_service \<Rightarrow> string \<Rightarrow> string \<Rightarrow> pstruct \<Rightarrow> DataType \<Rightarrow> Context \<Rightarrow> Visibility \<Rightarrow> 's
      \<Rightarrow> 'd storage_record called \<times> 's" where
  "remote_upsert c srv collection record_id payload dt ctx vis s =
     (case validate_data (sc_config c) collection payload of
        Inl e \<Rightarrow> (Inl BadValue, s)
      | Inr v \<Rightarrow>
          (let context = remote_resolve c ctx in
           case grpc_read c srv collection record_id context '''' s of
             (Inl e, s1) \<Rightarrow> (Inl e, s1)
           | (Inr (Some r), s1) \<Rightarrow>
               (case grpc_update c srv collection record_id v context vis s1 of
                  (Inl e, s2) \<Rightarrow> (Inl e, s2)
                | (Inr None, s2) \<Rightarrow> (Inl ServiceError, s2)
                | (Inr (Some r'), s2) \<Rightarrow> (Inr r', s2))
           | (Inr None, s1) \<Rightarrow> grpc_store c srv (create_storage_record collection record_id v dt context vis) s1))"

section \<open>Failures\<close>

lemma unless_denied_simps [simp]:
  "unless_denied r (Inr x) = Inr x" "unless_denied r (Inl PermissionDenied) = Inl PermissionDenied"
  "unless_denied r (Inl Cancellation) = Inl Cancellation"
  "e \<noteq> PermissionDenied \<Longrightarrow> e \<noteq> Cancellation \<Longrightarrow> unless_denied r (Inl e) = r"
  by (simp_all add: unless_denied_def split: rpc_exc.splits)

lemma unless_denied_bind_Inl: "r = Inl x \<Longrightarrow> unless_denied q (bind_call r f) = unless_denied q (Inl x)"
  by simp

lemma grpc_fails:
  "awaited (fst (sv_store srv \<lparr>sr_data = fs, sr_context = context_enum (sc_setup_version c) (st_context r), sr_collection = st_collection r,
               sr_record_id = st_record_id r, sr_data_type = data_type_name (st_data_type r), sr_visibility = visibility_enum (st_visibility r)\<rparr> s)) = Inl x
    \<Longrightarrow> sc_struct c (st_data r) = Some fs \<Longrightarrow> data_type_name (st_data_type r) \<in> set (sc_types c)
    \<Longrightarrow> fst (grpc_store c srv r s) = unless_denied (Inl ServiceError) (Inl x)"
  "(\<And>rq. awaited (fst (sv_read srv rq s)) = Inl x) \<Longrightarrow> fst (grpc_read c srv k i ctx sid s) = unless_denied (Inr None) (Inl x)"
  "(\<And>rq. awaited (fst (sv_update srv rq s)) = Inl x) \<Longrightarrow> sc_struct c d = Some fs \<Longrightarrow> fst (grpc_update c srv k i d ctx vis s) = unless_denied (Inr None) (Inl x)"
  "(\<And>rq. awaited (fst (sv_remove srv rq s)) = Inl x) \<Longrightarrow> fst (grpc_remove c srv k i ctx s) = unless_denied (Inr False) (Inl x)"
  "(\<And>rq. awaited (fst (sv_list srv rq s)) = Inl x) \<Longrightarrow> fst (grpc_list c srv k ctx vs i n o' s) = unless_denied (Inr []) (Inl x)"
  "(\<And>rq. awaited (fst (sv_remove_collection srv rq s)) = Inl x) \<Longrightarrow> fst (grpc_remove_collection c srv k ctx i s) = unless_denied (Inr False) (Inl x)"
       apply (auto simp: grpc_store_def split: prod.splits)[1]
      apply (simp add: grpc_read_def split: prod.splits; metis fst_conv bind_call_simps(1))
     apply (simp add: grpc_update_def split: prod.splits; metis fst_conv bind_call_simps(1))
    apply (simp add: grpc_remove_def split: prod.splits; metis fst_conv bind_call_simps(1))
   apply (simp add: grpc_list_def split: prod.splits; metis fst_conv bind_call_simps(1))
  apply (simp add: grpc_remove_collection_def split: prod.splits; metis fst_conv bind_call_simps(1))
  done

section \<open>A record on the wire\<close>

definition map_record :: "('a \<Rightarrow> 'b) \<Rightarrow> 'a storage_record \<Rightarrow> 'b storage_record" where
  "map_record f r = \<lparr>st_context = st_context r, st_collection = st_collection r, st_record_id = st_record_id r, st_data = f (st_data r),
     st_data_type = st_data_type r, st_visibility = st_visibility r, st_created = st_created r, st_updated = st_updated r,
     st_storage_id = st_storage_id r\<rparr>"

definition map_storage :: "('a \<Rightarrow> 'b) \<Rightarrow> 'a storage \<Rightarrow> 'b storage" where
  "map_storage f s = map (\<lambda>(k, r). (k, map_record f r)) s"

definition record_to_msg :: "pstruct storage_record \<Rightarrow> record_msg" where
  "record_to_msg r = \<lparr>wr_context = st_context r, wr_collection = st_collection r, wr_record_id = st_record_id r, wr_data = Some (st_data r),
     wr_data_type = Some (data_type_name (st_data_type r)), wr_visibility = Some (visibility_enum (st_visibility r)),
     wr_created = st_created r, wr_updated = st_updated r, wr_storage_id = st_storage_id r\<rparr>"

lemma map_record_fields [simp]:
  "st_context (map_record f r) = st_context r" "st_collection (map_record f r) = st_collection r" "st_record_id (map_record f r) = st_record_id r"
  "st_data (map_record f r) = f (st_data r)" "st_visibility (map_record f r) = st_visibility r" "st_storage_id (map_record f r) = st_storage_id r"
  by (simp_all add: map_record_def)

lemma od_get_map [simp]: "od_get (map_storage f s) k = map_option (map_record f) (od_get s k)"
  by (induction s) (auto simp: map_storage_def od_get_def)

lemma od_has_map [simp]: "od_has (map_storage f s) k = od_has s k"
  by (simp add: od_has_def)

lemma od_set_map: "od_set k (map_record f r) (map_storage f s) = map_storage f (od_set k r s)"
  by (induction s) (auto simp: map_storage_def od_set_def)

lemma od_del_map: "od_del k (map_storage f s) = map_storage f (od_del k s)"
  by (induction s) (auto simp: map_storage_def od_del_def AList.delete_eq)

lemma map_storage_filter: "filter (\<lambda>(k, r). P k (st_record_id r)) (map_storage f s) = map_storage f (filter (\<lambda>(k, r). P k (st_record_id r)) s)"
  by (induction s) (auto simp: map_storage_def)

text \<open>The local backend does not look at the payload.\<close>

lemma ds_store_map: "ds_store now uuid (map_record f r) (map_storage f s)
    = (case ds_store now uuid r s of Inl e \<Rightarrow> Inl e | Inr (r', s') \<Rightarrow> Inr (map_record f r', map_storage f s'))"
  unfolding ds_store_def Let_def by (auto simp: od_set_map [symmetric] map_record_def)

lemma ds_read_map: "ds_read k i c sid (map_storage f s) = map_option (map_record f) (ds_read k i c sid s)"
  by (simp add: ds_read_def split: option.splits)

lemma ds_update_map: "ds_update now k i (f d) c vis (map_storage f s)
    = map_option (\<lambda>(r, s'). (map_record f r, map_storage f s')) (ds_update now k i d c vis s)"
proof (cases "od_get s (ds_key c k i)")
  case (Some r)
  then show ?thesis by (auto simp: ds_update_def Let_def od_set_map [symmetric] map_record_def)
qed (simp add: ds_update_def)

lemma ds_remove_map: "ds_remove k i c (map_storage f s) = apsnd (map_storage f) (ds_remove k i c s)"
  by (simp add: ds_remove_def Let_def od_del_map)

lemma ds_list_map: "ds_list k c vs i n start (map_storage f s) = map (map_record f) (ds_list k c vs i n start s)"
proof -
  have 1: "map snd (map_storage f s') = map (map_record f) (map snd s')" for s'
    by (simp add: map_storage_def case_prod_unfold)
  have 2: "filter (\<lambda>r. st_visibility r \<in> set vs) (map (map_record f) rs) = map (map_record f) (filter (\<lambda>r. st_visibility r \<in> set vs) rs)" for rs
    by (induction rs) simp_all
  have 3: "map snd (filter (\<lambda>(k, r). starts_with k p \<and> (i = '''' \<or> st_record_id r = i)) (map_storage f s))
      = map (map_record f) (map snd (filter (\<lambda>(k, r). starts_with k p \<and> (i = '''' \<or> st_record_id r = i)) s))" for p
    unfolding map_storage_filter [of "\<lambda>k rid. starts_with k p \<and> (i = '''' \<or> rid = i)"] 1 ..
  show ?thesis unfolding ds_list_def Let_def 3 by (simp add: 2 take_map drop_map del: map_map)
qed

lemma ds_remove_collection_map: "ds_remove_collection k c i (map_storage f s) = apsnd (map_storage f) (ds_remove_collection k c i s)"
  unfolding ds_remove_collection_def map_storage_filter [of "\<lambda>k' rid. \<not> (starts_with k' (ds_key c k '''') \<and> (i = '''' \<or> rid = i))"]
  by simp

section \<open>The service and the local backend\<close>

text \<open>
  A service that keeps its records as the local backend does, in the contexts its metadata gives for each kind: what
  \<open>ReadRecord\<close> finds is what \<open>StoreRecord\<close> and \<open>UpdateRecord\<close> left, and a call that does nothing ends in an error.
\<close>

definition failing :: "'r rpc_end \<Rightarrow> bool" where
  "failing e \<longleftrightarrow> awaited e = Inl (ServerError False)"

definition served_record :: "(context_kind \<Rightarrow> string) \<Rightarrow> store_request \<Rightarrow> DataType \<Rightarrow> Visibility \<Rightarrow> pstruct storage_record" where
  "served_record owner rq dt vis = create_storage_record (sr_collection rq) (sr_record_id rq) (sr_data rq) dt (owner (sr_context rq)) vis"

definition stores_records :: "real \<Rightarrow> string \<Rightarrow> (context_kind \<Rightarrow> string) \<Rightarrow> pstruct storage storage_service \<Rightarrow> bool" where
  "stores_records now uuid owner srv \<longleftrightarrow> (\<forall>rq dt vis s.
     sr_data_type rq = data_type_name dt \<longrightarrow> sr_visibility rq = visibility_enum vis \<longrightarrow>
     (case ds_store now uuid (served_record owner rq dt vis) s of
        Inl x \<Rightarrow> \<exists>e. sv_store srv rq s = (e, s) \<and> failing e
      | Inr (r, s') \<Rightarrow> sv_store srv rq s = (Ended (Returned (record_to_msg r)), s')))"

definition reads_records :: "(context_kind \<Rightarrow> string) \<Rightarrow> pstruct storage storage_service \<Rightarrow> bool" where
  "reads_records owner srv \<longleftrightarrow> (\<forall>rq s.
     (case ds_read (rr_collection rq) (rr_record_id rq) (owner (rr_context rq)) (rr_storage_id rq) s of
        None \<Rightarrow> \<exists>e. sv_read srv rq s = (e, s) \<and> failing e
      | Some r \<Rightarrow> sv_read srv rq s = (Ended (Returned (record_to_msg r)), s)))"

definition updates_records :: "real \<Rightarrow> (context_kind \<Rightarrow> string) \<Rightarrow> pstruct storage storage_service \<Rightarrow> bool" where
  "updates_records now owner srv \<longleftrightarrow> (\<forall>rq vis s. ur_visibility rq = visibility_enum vis \<longrightarrow>
     (case ds_update now (ur_collection rq) (ur_record_id rq) (ur_data rq) (owner (ur_context rq)) vis s of
        None \<Rightarrow> \<exists>e. sv_update srv rq s = (e, s) \<and> failing e
      | Some (r, s') \<Rightarrow> sv_update srv rq s = (Ended (Returned (record_to_msg r)), s')))"

definition removes_records :: "(context_kind \<Rightarrow> string) \<Rightarrow> pstruct storage storage_service \<Rightarrow> bool" where
  "removes_records owner srv \<longleftrightarrow> (\<forall>rq s.
     (case ds_remove (xr_collection rq) (xr_record_id rq) (owner (xr_context rq)) s of
        (True, s') \<Rightarrow> sv_remove srv rq s = (Ended (Returned ()), s')
      | (False, s') \<Rightarrow> \<exists>e. sv_remove srv rq s = (e, s) \<and> failing e)
     \<and> sv_remove_collection srv rq s = (Ended (Returned ()), snd (ds_remove_collection (xr_collection rq) (owner (xr_context rq)) (xr_record_id rq) s)))"

definition lists_records :: "(context_kind \<Rightarrow> string) \<Rightarrow> pstruct storage storage_service \<Rightarrow> bool" where
  "lists_records owner srv \<longleftrightarrow> (\<forall>rq vs s. lr_visibilities rq = map visibility_enum vs \<longrightarrow>
     sv_list srv rq s = (Ended (Returned (map record_to_msg
       (ds_list (lr_collection rq) (owner (lr_context rq)) vs (lr_record_id rq) (lr_limit rq) (lr_offset rq) s))), s))"

definition keeps_records :: "real \<Rightarrow> string \<Rightarrow> (context_kind \<Rightarrow> string) \<Rightarrow> pstruct storage storage_service \<Rightarrow> bool" where
  "keeps_records now uuid owner srv \<longleftrightarrow> stores_records now uuid owner srv \<and> reads_records owner srv \<and> updates_records now owner srv
     \<and> removes_records owner srv \<and> lists_records owner srv"

text \<open>The operations of the strategy, on either backend; a duplicate is a \<open>ValueError\<close> locally and a \<open>StorageServiceError\<close> remotely.\<close>

datatype storage_op =
    StoreOp string "string option" pstruct DataType Context Visibility
  | ReadOp string string Context string
  | UpdateOp string string pstruct Context Visibility
  | UpsertOp string string pstruct DataType Context Visibility
  | RemoveOp string string Context
  | ListOp string Context "Visibility list" string nat nat
  | WipeOp string Context string

datatype 'd storage_reply = StorageFailed | Found "'d storage_record option" | Wrote "'d storage_record" | Flagged bool | Listed "'d storage_record list"

fun reply :: "('a \<Rightarrow> 'd storage_reply) \<Rightarrow> 'a called \<Rightarrow> 'd storage_reply" where
  "reply f (Inl e) = StorageFailed"
| "reply f (Inr x) = f x"

fun remote_op :: "'d storage_client \<Rightarrow> 's storage_service \<Rightarrow> string \<Rightarrow> storage_op \<Rightarrow> 's \<Rightarrow> 'd storage_reply \<times> 's" where
  "remote_op c srv new_id (StoreOp k i d dt ctx vis) s = apfst (reply Wrote) (remote_store c srv new_id k i d dt ctx vis s)"
| "remote_op c srv new_id (ReadOp k i ctx sid) s = apfst (reply Found) (grpc_read c srv k i (remote_resolve c ctx) sid s)"
| "remote_op c srv new_id (UpdateOp k i d ctx vis) s = apfst (reply Found) (remote_update c srv k i d ctx vis s)"
| "remote_op c srv new_id (UpsertOp k i d dt ctx vis) s = apfst (reply Wrote) (remote_upsert c srv k i d dt ctx vis s)"
| "remote_op c srv new_id (RemoveOp k i ctx) s = apfst (reply Flagged) (grpc_remove c srv k i (remote_resolve c ctx) s)"
| "remote_op c srv new_id (ListOp k ctx vs i n start) s = apfst (reply Listed) (grpc_list c srv k (remote_resolve c ctx) vs i n start s)"
| "remote_op c srv new_id (WipeOp k ctx i) s = apfst (reply Flagged) (grpc_remove_collection c srv k (remote_resolve c ctx) i s)"

definition wrote :: "'d storage \<Rightarrow> storage_error + ('d storage_record \<times> 'd storage) \<Rightarrow> 'd storage_reply \<times> 'd storage" where
  "wrote s r = (case r of Inl e \<Rightarrow> (StorageFailed, s) | Inr (x, s') \<Rightarrow> (Wrote x, s'))"

fun local_op :: "'d storage_client \<Rightarrow> real \<Rightarrow> string \<Rightarrow> string \<Rightarrow> storage_op \<Rightarrow> 'd storage \<Rightarrow> 'd storage_reply \<times> 'd storage" where
  "local_op c now uuid new_id (StoreOp k i d dt ctx vis) s = wrote s (storage_store (sc_config c) now uuid new_id k i d dt vis (remote_resolve c ctx) s)"
| "local_op c now uuid new_id (ReadOp k i ctx sid) s = (Found (ds_read k i (remote_resolve c ctx) sid s), s)"
| "local_op c now uuid new_id (UpdateOp k i d ctx vis) s = (case validate_data (sc_config c) k d of
     Inl e \<Rightarrow> (StorageFailed, s)
   | Inr v \<Rightarrow> (case ds_update now k i v (remote_resolve c ctx) vis s of None \<Rightarrow> (Found None, s) | Some (r, s') \<Rightarrow> (Found (Some r), s')))"
| "local_op c now uuid new_id (UpsertOp k i d dt ctx vis) s = wrote s (storage_upsert (sc_config c) now uuid k i d dt vis (remote_resolve c ctx) s)"
| "local_op c now uuid new_id (RemoveOp k i ctx) s = apfst Flagged (ds_remove k i (remote_resolve c ctx) s)"
| "local_op c now uuid new_id (ListOp k ctx vs i n start) s = (Listed (ds_list k (remote_resolve c ctx) vs i n start s), s)"
| "local_op c now uuid new_id (WipeOp k ctx i) s = apfst Flagged (ds_remove_collection k (remote_resolve c ctx) i s)"

fun op_context :: "storage_op \<Rightarrow> Context" where
  "op_context (StoreOp k i d dt ctx vis) = ctx"
| "op_context (ReadOp k i ctx sid) = ctx"
| "op_context (UpdateOp k i d ctx vis) = ctx"
| "op_context (UpsertOp k i d dt ctx vis) = ctx"
| "op_context (RemoveOp k i ctx) = ctx"
| "op_context (ListOp k ctx vs i n start) = ctx"
| "op_context (WipeOp k ctx i) = ctx"

fun op_collection :: "storage_op \<Rightarrow> string" where
  "op_collection (StoreOp k i d dt ctx vis) = k"
| "op_collection (ReadOp k i ctx sid) = k"
| "op_collection (UpdateOp k i d ctx vis) = k"
| "op_collection (UpsertOp k i d dt ctx vis) = k"
| "op_collection (RemoveOp k i ctx) = k"
| "op_collection (ListOp k ctx vs i n start) = k"
| "op_collection (WipeOp k ctx i) = k"

section \<open>The remote storage is the local one\<close>

definition prefixed :: "'d storage_client \<Rightarrow> bool" where
  "prefixed c \<longleftrightarrow> starts_with (sc_mission c) ''missions:'' \<and> sc_setup_version c \<noteq> sc_mission c
     \<and> CHR ''|'' \<notin> set (sc_mission c) \<and> CHR ''|'' \<notin> set (sc_setup_version c)"

definition owners :: "'d storage_client \<Rightarrow> (context_kind \<Rightarrow> string) \<Rightarrow> bool" where
  "owners c owner \<longleftrightarrow> owner CONTEXT_MISSIONS = sc_mission c \<and> owner CONTEXT_SETUP_VERSIONS = sc_setup_version c"

text \<open>Data that validates survives the wire under the schema of its collection.\<close>

definition payload_survives :: "'d storage_client \<Rightarrow> bool" where
  "payload_survives c \<longleftrightarrow> (\<forall>k v p x. sc_config c k = Some v \<longrightarrow> v p = Some x \<longrightarrow> (\<exists>fs. sc_struct c x = Some fs \<and> v fs = Some x))"

definition to_wire :: "'d storage_client \<Rightarrow> 'd \<Rightarrow> pstruct" where
  "to_wire c d = (case sc_struct c d of Some fs \<Rightarrow> fs | None \<Rightarrow> [])"

definition record_ok :: "'d storage_client \<Rightarrow> 'd storage_record \<Rightarrow> bool" where
  "record_ok c r \<longleftrightarrow> CHR ''|'' \<notin> set (st_context r) \<and> CHR '':'' \<notin> set (st_collection r) \<and> sc_struct c (st_data r) \<noteq> None
     \<and> (\<exists>v. sc_config c (st_collection r) = Some v \<and> v (to_wire c (st_data r)) = Some (st_data r))"

definition storage_ok :: "'d storage_client \<Rightarrow> 'd storage \<Rightarrow> bool" where
  "storage_ok c s \<longleftrightarrow> storage_wf s \<and> (\<forall>(k, r) \<in> set s. record_ok c r)"

lemma context_enum_mission: "prefixed c \<Longrightarrow> context_enum (sc_setup_version c) (sc_mission c) = CONTEXT_MISSIONS"
  by (auto simp: prefixed_def context_enum_def starts_with_iff)

lemma context_resolved:
  assumes "prefixed c" and "owners c owner" and "ctx \<in> {MISSIONS, SETUP}"
  shows "owner (context_enum (sc_setup_version c) (remote_resolve c ctx)) = remote_resolve c ctx"
    and "CHR ''|'' \<notin> set (remote_resolve c ctx)"
  using assms context_enum_mission [OF assms(1)]
  by (auto simp: remote_resolve_def resolve_context_def owners_def context_enum_def prefixed_def)

lemma record_survives: "record_ok c r \<Longrightarrow> build_record_from_proto c (record_to_msg (map_record (to_wire c) r)) = Inr r"
  by (auto simp: record_ok_def build_record_from_proto_def record_to_msg_def map_record_def validate_data_def)

lemma validated_ok:
  assumes "payload_survives c" and "validate_data (sc_config c) k p = Inr x"
  shows "sc_struct c x = Some (to_wire c x) \<and> (\<exists>v. sc_config c k = Some v \<and> v (to_wire c x) = Some x)"
proof -
  from assms(2) obtain v where v: "sc_config c k = Some v" "v p = Some x"
    by (auto simp: validate_data_def split: option.splits)
  with assms(1) obtain fs where "sc_struct c x = Some fs" "v fs = Some x" unfolding payload_survives_def by blast
  with v show ?thesis by (simp add: to_wire_def)
qed

lemma storage_ok_get: "storage_ok c s \<Longrightarrow> od_get s k = Some r \<Longrightarrow> record_ok c r \<and> k = ds_key (st_context r) (st_collection r) (st_record_id r)"
  by (auto simp: storage_ok_def storage_wf_def od_get_Some_iff)

lemma storage_ok_set:
  assumes "storage_ok c s" and "record_ok c r" and "k = ds_key (st_context r) (st_collection r) (st_record_id r)"
  shows "storage_ok c (od_set k r s)"
proof -
  have wf: "storage_wf (od_set k r s)" using assms by (intro storage_wf_set) (auto simp: storage_ok_def)
  have "record_ok c r'" if "(k', r') \<in> set (od_set k r s)" for k' r'
  proof -
    from wf have "od_wf (od_set k r s)" by (simp add: storage_wf_def)
    with that have "od_get (od_set k r s) k' = Some r'" by (simp only: od_get_Some_iff)
    with assms(1,2) storage_ok_get [OF assms(1), of k' r'] show ?thesis by (auto split: if_splits)
  qed
  with wf show ?thesis by (auto simp: storage_ok_def)
qed

lemma storage_ok_filter: "storage_ok c s \<Longrightarrow> storage_ok c (filter P s)"
  by (auto simp: storage_ok_def storage_wf_def)

lemma storage_ok_key:
  assumes "storage_ok c s" and "od_get s (ds_key ctx k i) = Some r" and "CHR ''|'' \<notin> set ctx" and "CHR '':'' \<notin> set k"
  shows "record_ok c r \<and> st_context r = ctx \<and> st_collection r = k \<and> st_record_id r = i"
proof -
  from storage_ok_get [OF assms(1,2)] have r: "record_ok c r" and e: "ds_key ctx k i = ds_key (st_context r) (st_collection r) (st_record_id r)" by simp_all
  from r have "CHR ''|'' \<notin> set (st_context r)" "CHR '':'' \<notin> set (st_collection r)" by (simp_all add: record_ok_def)
  from ds_key_inj [OF e assms(3) this(1) assms(4) this(2)] r show ?thesis by simp
qed

text \<open>What holds of one operation; \<open>w\<close> takes the local store to the service's.\<close>

lemma failing_simps [simp]: "failing e \<Longrightarrow> awaited e = Inl (ServerError False)"
  by (simp add: failing_def)

lemma grpc_store_sim:
  assumes k: "keeps_records now uuid owner srv" and ok: "storage_ok c s" and r: "record_ok c r"
    and o: "owner (context_enum (sc_setup_version c) (st_context r)) = st_context r" and t: "set (map data_type_name data_types) \<subseteq> set (sc_types c)"
    and new: "r = create_storage_record (st_collection r) (st_record_id r) (st_data r) (st_data_type r) (st_context r) (st_visibility r)"
  shows "apfst (reply Wrote) (grpc_store c srv r (map_storage (to_wire c) s)) = apsnd (map_storage (to_wire c)) (wrote s (ds_store now uuid r s))
    \<and> storage_ok c (snd (wrote s (ds_store now uuid r s)))"
proof -
  obtain fs where fs: "sc_struct c (st_data r) = Some fs" "to_wire c (st_data r) = fs"
    using r by (auto simp: record_ok_def to_wire_def)
  let ?rq = "\<lparr>sr_data = fs, sr_context = context_enum (sc_setup_version c) (st_context r), sr_collection = st_collection r,
               sr_record_id = st_record_id r, sr_data_type = data_type_name (st_data_type r), sr_visibility = visibility_enum (st_visibility r)\<rparr>"
  have known: "data_type_name (st_data_type r) \<in> set (sc_types c)"
    using t wire_data_type.complete [of "st_data_type r"] by auto
  have rec: "served_record owner ?rq (st_data_type r) (st_visibility r) = map_record (to_wire c) r"
  proof -
    have "map_record (to_wire c) r = map_record (to_wire c)
        (create_storage_record (st_collection r) (st_record_id r) (st_data r) (st_data_type r) (st_context r) (st_visibility r))" using new by metis
    then show ?thesis by (simp add: served_record_def o create_storage_record_def map_record_def fs)
  qed
  have srv: "case ds_store now uuid (map_record (to_wire c) r) (map_storage (to_wire c) s) of
        Inl x \<Rightarrow> \<exists>e. sv_store srv ?rq (map_storage (to_wire c) s) = (e, map_storage (to_wire c) s) \<and> failing e
      | Inr (r, s') \<Rightarrow> sv_store srv ?rq (map_storage (to_wire c) s) = (Ended (Returned (record_to_msg r)), s')"
  proof -
    from k have "stores_records now uuid owner srv" by (simp add: keeps_records_def)
    then show ?thesis unfolding stores_records_def rec [symmetric] by simp
  qed
  show ?thesis
  proof (cases "ds_store now uuid r s")
    case (Inl e)
    with srv obtain e' where "sv_store srv ?rq (map_storage (to_wire c) s) = (e', map_storage (to_wire c) s)" "failing e'"
      by (auto simp: ds_store_map)
    with Inl ok fs known show ?thesis by (simp add: grpc_store_def wrote_def)
  next
    case (Inr p)
    obtain r' s' where p: "p = (r', s')" by (cases p)
    from Inr p have r': "record_ok c r' \<and> ds_key (st_context r) (st_collection r) (st_record_id r) = ds_key (st_context r') (st_collection r') (st_record_id r')
        \<and> s' = od_set (ds_key (st_context r) (st_collection r) (st_record_id r)) r' s"
      using r by (auto simp: ds_store_def Let_def record_ok_def split: if_splits)
    from srv have "sv_store srv ?rq (map_storage (to_wire c) s) = (Ended (Returned (record_to_msg (map_record (to_wire c) r'))), map_storage (to_wire c) s')"
      by (simp add: ds_store_map Inr p)
    with r' Inr p fs known ok show ?thesis by (simp add: grpc_store_def wrote_def record_survives storage_ok_set)
  qed
qed

lemma grpc_read_sim:
  assumes k: "keeps_records now uuid owner srv" and ok: "storage_ok c s"
    and o: "owner (context_enum (sc_setup_version c) ctx) = ctx"
  shows "grpc_read c srv k' i ctx sid (map_storage (to_wire c) s) = (Inr (ds_read k' i ctx sid s), map_storage (to_wire c) s)"
proof -
  let ?rq = "\<lparr>rr_context = context_enum (sc_setup_version c) ctx, rr_collection = k', rr_record_id = i, rr_storage_id = sid\<rparr>"
  from k have srv: "case ds_read k' i ctx sid (map_storage (to_wire c) s) of
        None \<Rightarrow> \<exists>e. sv_read srv ?rq (map_storage (to_wire c) s) = (e, map_storage (to_wire c) s) \<and> failing e
      | Some r \<Rightarrow> sv_read srv ?rq (map_storage (to_wire c) s) = (Ended (Returned (record_to_msg r)), map_storage (to_wire c) s)"
    unfolding keeps_records_def reads_records_def by (auto simp: o dest!: spec [where x = ?rq])
  show ?thesis
  proof (cases "ds_read k' i ctx sid s")
    case None
    with srv show ?thesis by (auto simp: ds_read_map grpc_read_def)
  next
    case (Some r)
    then have "od_get s (ds_key ctx k' i) = Some r" by (auto simp: ds_read_def split: option.splits if_splits)
    with storage_ok_get [OF ok] have "record_ok c r" by blast
    with srv Some show ?thesis by (simp add: ds_read_map grpc_read_def record_survives)
  qed
qed

lemma grpc_update_sim:
  assumes k: "keeps_records now uuid owner srv" and ok: "storage_ok c s" and p: "payload_survives c"
    and o: "owner (context_enum (sc_setup_version c) ctx) = ctx" and n: "CHR ''|'' \<notin> set ctx" "CHR '':'' \<notin> set k'"
    and v: "validate_data (sc_config c) k' pl = Inr d"
  shows "(case ds_update now k' i d ctx vis s of
       None \<Rightarrow> grpc_update c srv k' i d ctx vis (map_storage (to_wire c) s) = (Inr None, map_storage (to_wire c) s)
     | Some (r, s') \<Rightarrow> grpc_update c srv k' i d ctx vis (map_storage (to_wire c) s) = (Inr (Some r), map_storage (to_wire c) s') \<and> storage_ok c s')"
proof -
  let ?rq = "\<lparr>ur_data = to_wire c d, ur_context = context_enum (sc_setup_version c) ctx, ur_collection = k', ur_record_id = i, ur_visibility = visibility_enum vis\<rparr>"
  from validated_ok [OF p v] obtain val where d: "sc_struct c d = Some (to_wire c d)" "sc_config c k' = Some val" "val (to_wire c d) = Some d" by blast
  from k have "updates_records now owner srv" by (simp add: keeps_records_def)
  then have srv: "case ds_update now k' i (to_wire c d) ctx vis (map_storage (to_wire c) s) of
        None \<Rightarrow> \<exists>e. sv_update srv ?rq (map_storage (to_wire c) s) = (e, map_storage (to_wire c) s) \<and> failing e
      | Some (r, s') \<Rightarrow> sv_update srv ?rq (map_storage (to_wire c) s) = (Ended (Returned (record_to_msg r)), s')"
    unfolding updates_records_def by (auto simp: o dest!: spec [where x = ?rq])
  show ?thesis
  proof (cases "ds_update now k' i d ctx vis s")
    case None
    with srv d show ?thesis by (auto simp: ds_update_map grpc_update_def)
  next
    case (Some q)
    obtain r s' where q: "q = (r, s')" by (cases q)
    from Some q obtain old where old: "od_get s (ds_key ctx k' i) = Some old"
      and r: "r = (if vis \<noteq> VUnspecified then old\<lparr>st_data := d, st_visibility := vis\<rparr> else old\<lparr>st_data := d\<rparr>)\<lparr>st_updated := Some now\<rparr>"
      and s': "s' = od_set (ds_key ctx k' i) r s"
      by (auto simp: ds_update_def Let_def split: option.splits if_splits)
    from storage_ok_key [OF ok old n] have f: "record_ok c old" "st_context old = ctx" "st_collection old = k'" "st_record_id old = i" by simp_all
    have rok: "record_ok c r" unfolding r using f d by (auto simp: record_ok_def)
    have "storage_ok c s'" unfolding s' by (rule storage_ok_set [OF ok rok]) (simp add: r f)
    with srv Some q d rok show ?thesis by (simp add: ds_update_map grpc_update_def record_survives)
  qed
qed

lemma grpc_remove_sim:
  assumes k: "keeps_records now uuid owner srv" and ok: "storage_ok c s"
    and o: "owner (context_enum (sc_setup_version c) ctx) = ctx"
  shows "grpc_remove c srv k' i ctx (map_storage (to_wire c) s) = apfst Inr (apsnd (map_storage (to_wire c)) (ds_remove k' i ctx s))
     \<and> storage_ok c (snd (ds_remove k' i ctx s))"
    and "grpc_remove_collection c srv k' ctx i (map_storage (to_wire c) s) = apfst Inr (apsnd (map_storage (to_wire c)) (ds_remove_collection k' ctx i s))
     \<and> storage_ok c (snd (ds_remove_collection k' ctx i s))"
proof -
  let ?rq = "\<lparr>xr_context = context_enum (sc_setup_version c) ctx, xr_collection = k', xr_record_id = i\<rparr>"
  let ?t = "map_storage (to_wire c) s"
  from k have "removes_records owner srv" by (simp add: keeps_records_def)
  then have srv: "case ds_remove k' i ctx ?t of
        (True, s') \<Rightarrow> sv_remove srv ?rq ?t = (Ended (Returned ()), s')
      | (False, s') \<Rightarrow> \<exists>e. sv_remove srv ?rq ?t = (e, ?t) \<and> failing e"
    and wipe: "sv_remove_collection srv ?rq ?t = (Ended (Returned ()), snd (ds_remove_collection k' ctx i ?t))"
    unfolding removes_records_def by (auto simp: o dest!: spec [where x = ?rq] spec [where x = ?t])
  have ok': "storage_ok c (snd (ds_remove k' i ctx s))" "storage_ok c (snd (ds_remove_collection k' ctx i s))"
    using ok by (auto simp: ds_remove_def Let_def od_del_filter ds_remove_collection_def intro: storage_ok_filter)
  show "grpc_remove c srv k' i ctx ?t = apfst Inr (apsnd (map_storage (to_wire c)) (ds_remove k' i ctx s)) \<and> storage_ok c (snd (ds_remove k' i ctx s))"
    using srv ok' by (cases "od_has s (ds_key ctx k' i)") (auto simp: ds_remove_def od_del_map Let_def grpc_remove_def)
  show "grpc_remove_collection c srv k' ctx i ?t = apfst Inr (apsnd (map_storage (to_wire c)) (ds_remove_collection k' ctx i s))
     \<and> storage_ok c (snd (ds_remove_collection k' ctx i s))"
    using wipe ok' by (simp add: grpc_remove_collection_def ds_remove_collection_map) (simp add: ds_remove_collection_def)
qed

lemma ds_list_sub: "set (ds_list k ctx vs i n start s) \<subseteq> snd ` set s"
  unfolding ds_list_def Let_def
  by (intro order_trans [OF set_take_subset] order_trans [OF set_drop_subset]) auto

lemma ds_list_ok: "storage_ok c s \<Longrightarrow> r \<in> set (ds_list k ctx vs i n start s) \<Longrightarrow> record_ok c r"
  using ds_list_sub [of k ctx vs i n start s] by (fastforce simp: storage_ok_def)

lemma skip_none: "\<forall>r\<in>set rs. record_ok c r \<Longrightarrow> filter_map (build_record_or_skip c) (map (record_to_msg \<circ> map_record (to_wire c)) rs) = rs"
  by (induction rs) (simp_all add: build_record_or_skip_def record_survives)

lemma grpc_list_sim:
  assumes k: "keeps_records now uuid owner srv" and ok: "storage_ok c s"
    and o: "owner (context_enum (sc_setup_version c) ctx) = ctx"
  shows "grpc_list c srv k' ctx vs i n start (map_storage (to_wire c) s) = (Inr (ds_list k' ctx vs i n start s), map_storage (to_wire c) s)"
proof -
  from k have "lists_records owner srv" by (simp add: keeps_records_def)
  with o have "sv_list srv \<lparr>lr_context = context_enum (sc_setup_version c) ctx, lr_collection = k', lr_record_id = i,
             lr_limit = n, lr_offset = start, lr_visibilities = map visibility_enum vs\<rparr> (map_storage (to_wire c) s)
      = (Ended (Returned (map record_to_msg (ds_list k' ctx vs i n start (map_storage (to_wire c) s)))), map_storage (to_wire c) s)"
    unfolding lists_records_def by simp
  moreover have "\<forall>r\<in>set (ds_list k' ctx vs i n start s). record_ok c r" using ds_list_ok [OF ok] by blast
  ultimately show ?thesis by (simp add: grpc_list_def ds_list_map skip_none)
qed

definition fit :: "storage_op \<Rightarrow> bool" where
  "fit p \<longleftrightarrow> op_context p \<in> {MISSIONS, SETUP} \<and> CHR '':'' \<notin> set (op_collection p)"

lemma created_ok:
  assumes "payload_survives c" and "validate_data (sc_config c) k p = Inr v" and "CHR ''|'' \<notin> set ctx" and "CHR '':'' \<notin> set k"
  shows "record_ok c (create_storage_record k i v dt ctx vis)"
  using validated_ok [OF assms(1,2)] assms(3,4) by (auto simp: record_ok_def create_storage_record_def)

lemma created_again: "r = create_storage_record k i v dt ctx vis
    \<Longrightarrow> r = create_storage_record (st_collection r) (st_record_id r) (st_data r) (st_data_type r) (st_context r) (st_visibility r)"
  by (simp add: create_storage_record_def)

lemma created_fields: "st_context (create_storage_record k i v dt ctx vis) = ctx"
  by (simp add: create_storage_record_def)

lemma op_sim:
  assumes k: "keeps_records now uuid owner srv" and ok: "storage_ok c s" and p: "payload_survives c" and pre: "prefixed c" and ow: "owners c owner"
    and t: "set (map data_type_name data_types) \<subseteq> set (sc_types c)" and f: "fit q"
  shows "remote_op c srv new_id q (map_storage (to_wire c) s) = apsnd (map_storage (to_wire c)) (local_op c now uuid new_id q s)
    \<and> storage_ok c (snd (local_op c now uuid new_id q s))"
proof -
  let ?ctx = "remote_resolve c (op_context q)"
  have o: "owner (context_enum (sc_setup_version c) ?ctx) = ?ctx" and bar: "CHR ''|'' \<notin> set ?ctx"
    using context_resolved [OF pre ow] f by (auto simp: fit_def)
  have col: "CHR '':'' \<notin> set (op_collection q)" using f by (simp add: fit_def)
  have store: "apfst (reply Wrote) (grpc_store c srv (create_storage_record (op_collection q) i v dt ?ctx vis) (map_storage (to_wire c) s))
        = apsnd (map_storage (to_wire c)) (wrote s (ds_store now uuid (create_storage_record (op_collection q) i v dt ?ctx vis) s))
      \<and> storage_ok c (snd (wrote s (ds_store now uuid (create_storage_record (op_collection q) i v dt ?ctx vis) s)))"
    if v: "validate_data (sc_config c) (op_collection q) d = Inr v" for d v dt vis i
  proof (rule grpc_store_sim [OF k ok created_ok [OF p v bar col] _ t created_again [OF refl]])
    show "owner (context_enum (sc_setup_version c) (st_context (create_storage_record (op_collection q) i v dt ?ctx vis)))
        = st_context (create_storage_record (op_collection q) i v dt ?ctx vis)" unfolding created_fields by (rule o)
  qed
  show ?thesis
  proof (cases q)
    case (StoreOp k' i d dt ctx vis)
    then show ?thesis using store ok
      by (cases "validate_data (sc_config c) k' d") (simp_all add: remote_store_def storage_store_def Let_def wrote_def [of _ "Inl _"])
  next
    case (ReadOp k' i ctx sid)
    then show ?thesis using grpc_read_sim [OF k ok o] ok by simp
  next
    case (UpdateOp k' i d ctx vis)
    show ?thesis
    proof (cases "validate_data (sc_config c) k' d")
      case (Inr v)
      from UpdateOp grpc_update_sim [OF k ok p o bar, where k' = k' and pl = d and d = v and vis = vis and i = i] Inr col ok show ?thesis
        by (auto simp: remote_update_def split: option.splits prod.splits)
    qed (use UpdateOp ok in \<open>simp add: remote_update_def\<close>)
  next
    case (UpsertOp k' i d dt ctx vis)
    show ?thesis
    proof (cases "validate_data (sc_config c) k' d")
      case v: (Inr v)
      show ?thesis
      proof (cases "ds_read k' i ?ctx '''' s")
        case None
        with UpsertOp v store [of d v] grpc_read_sim [OF k ok o, of k' i "''''"] show ?thesis
          by (simp add: remote_upsert_def storage_upsert_def)
      next
        case (Some r)
        with UpsertOp v grpc_read_sim [OF k ok o, of k' i "''''"] grpc_update_sim [OF k ok p o bar, where k' = k' and pl = d and d = v and vis = vis and i = i] col ok show ?thesis
          by (auto simp: remote_upsert_def storage_upsert_def wrote_def split: option.splits prod.splits)
      qed
    qed (use UpsertOp ok in \<open>simp add: remote_upsert_def storage_upsert_def wrote_def\<close>)
  next
    case (RemoveOp k' i ctx)
    then show ?thesis using grpc_remove_sim(1) [OF k ok o, of k' i] by (cases "ds_remove k' i ?ctx s") simp
  next
    case (ListOp k' ctx vs i n start)
    then show ?thesis using grpc_list_sim [OF k ok o] ok by simp
  next
    case (WipeOp k' ctx i)
    then show ?thesis using grpc_remove_sim(2) [OF k ok o, of k' i] by (cases "ds_remove_collection k' ?ctx i s") simp
  qed
qed

text \<open>A sequence of operations, each with the clock, the service's next identifier and a fresh record identifier.\<close>

fun remote_run :: "'d storage_client \<Rightarrow> (real \<Rightarrow> string \<Rightarrow> 's storage_service) \<Rightarrow> (real \<times> string \<times> string \<times> storage_op) list \<Rightarrow> 's \<Rightarrow> 'd storage_reply list \<times> 's" where
  "remote_run c srv [] s = ([], s)"
| "remote_run c srv ((now, uuid, new_id, q) # qs) s =
     (case remote_op c (srv now uuid) new_id q s of (r, s1) \<Rightarrow> apfst (Cons r) (remote_run c srv qs s1))"

fun local_run :: "'d storage_client \<Rightarrow> (real \<times> string \<times> string \<times> storage_op) list \<Rightarrow> 'd storage \<Rightarrow> 'd storage_reply list \<times> 'd storage" where
  "local_run c [] s = ([], s)"
| "local_run c ((now, uuid, new_id, q) # qs) s =
     (case local_op c now uuid new_id q s of (r, s1) \<Rightarrow> apfst (Cons r) (local_run c qs s1))"

lemma run_sim:
  assumes k: "\<And>now uuid. keeps_records now uuid owner (srv now uuid)" and p: "payload_survives c" and pre: "prefixed c" and ow: "owners c owner"
    and t: "set (map data_type_name data_types) \<subseteq> set (sc_types c)"
  shows "storage_ok c s \<Longrightarrow> \<forall>(now, uuid, new_id, q)\<in>set qs. fit q
    \<Longrightarrow> remote_run c srv qs (map_storage (to_wire c) s) = apsnd (map_storage (to_wire c)) (local_run c qs s)"
proof (induction qs arbitrary: s)
  case (Cons x qs)
  obtain now uuid new_id q where x: "x = (now, uuid, new_id, q)" by (cases x)
  obtain r s1 where l: "local_op c now uuid new_id q s = (r, s1)" by (metis prod.exhaust)
  from Cons.prems op_sim [OF k [of now uuid] Cons.prems(1) p pre ow t, where q = q and new_id = new_id] l x
  have "remote_op c (srv now uuid) new_id q (map_storage (to_wire c) s) = (r, map_storage (to_wire c) s1)" "storage_ok c s1" by simp_all
  with Cons.IH [of s1] Cons.prems x l show ?case by (cases "local_run c qs s1") simp
qed simp


text \<open>A service of that kind, to run the model on.\<close>

definition no_record :: "'r rpc_end" where
  "no_record = Ended (ServerErr S_NOT_FOUND '''' False)"

definition reference_service :: "(context_kind \<Rightarrow> string) \<Rightarrow> real \<Rightarrow> string \<Rightarrow> pstruct storage storage_service" where
  "reference_service owner now uuid =
     \<lparr>sv_store = (\<lambda>rq s. case (read_data_type (Some (sr_data_type rq)), read_record_visibility (Some (sr_visibility rq))) of
          (Inr dt, Inr vis) \<Rightarrow> (case ds_store now uuid (served_record owner rq dt vis) s of
             Inl e \<Rightarrow> (no_record, s) | Inr (r, s') \<Rightarrow> (Ended (Returned (record_to_msg r)), s'))
        | _ \<Rightarrow> (no_record, s)),
       sv_read = (\<lambda>rq s. (case ds_read (rr_collection rq) (rr_record_id rq) (owner (rr_context rq)) (rr_storage_id rq) s of
          None \<Rightarrow> no_record | Some r \<Rightarrow> Ended (Returned (record_to_msg r)), s)),
       sv_update = (\<lambda>rq s. case read_record_visibility (Some (ur_visibility rq)) of
          Inl e \<Rightarrow> (no_record, s)
        | Inr vis \<Rightarrow> (case ds_update now (ur_collection rq) (ur_record_id rq) (ur_data rq) (owner (ur_context rq)) vis s of
             None \<Rightarrow> (no_record, s) | Some (r, s') \<Rightarrow> (Ended (Returned (record_to_msg r)), s'))),
       sv_remove = (\<lambda>rq s. case ds_remove (xr_collection rq) (xr_record_id rq) (owner (xr_context rq)) s of
          (done', s') \<Rightarrow> if done' then (Ended (Returned ()), s') else (no_record, s)),
       sv_list = (\<lambda>rq s. (Ended (Returned (map record_to_msg (ds_list (lr_collection rq) (owner (lr_context rq))
          (map (\<lambda>v. case read_record_visibility (Some v) of Inr x \<Rightarrow> x | Inl e \<Rightarrow> VUnspecified) (lr_visibilities rq))
          (lr_record_id rq) (lr_limit rq) (lr_offset rq) s))), s)),
       sv_remove_collection = (\<lambda>rq s. (Ended (Returned ()), snd (ds_remove_collection (xr_collection rq) (owner (xr_context rq)) (xr_record_id rq) s)))\<rparr>"

lemma reference_keeps_records: "keeps_records now uuid owner (reference_service owner now uuid)"
  by (auto simp: keeps_records_def stores_records_def reads_records_def updates_records_def removes_records_def lists_records_def
      reference_service_def no_record_def failing_def comp_def split: option.splits sum.splits prod.splits bool.splits)

definition client_demo :: "pstruct storage_client" where
  "client_demo = \<lparr>sc_mission = ''missions:m'', sc_setup_version = ''setup_versions:v'', sc_config = (\<lambda>_. Some Some), sc_struct = Some,
     sc_types = [''OUTPUT'', ''VIEW'', ''LOGS'', ''OTHER'']\<rparr>"

definition owner_demo :: "context_kind \<Rightarrow> string" where
  "owner_demo k = (if k = CONTEXT_MISSIONS then ''missions:m'' else if k = CONTEXT_SETUP_VERSIONS then ''setup_versions:v'' else '''')"

definition ops_demo :: "(real \<times> string \<times> string \<times> storage_op) list" where
  "ops_demo = [(1, ''u'', ''i'', UpsertOp ''notes'' ''a'' [(''x'', PBool True)] DView MISSIONS VPrivate), (2, ''w'', ''j'', ReadOp ''notes'' ''a'' SETUP ''''),
     (3, ''v'', ''k'', ReadOp ''notes'' ''a'' MISSIONS '''')]"



definition down_service :: "'s storage_service" where
  "down_service = \<lparr>sv_store = (\<lambda>_. Pair (Ended RetryLoopExited)), sv_read = (\<lambda>_. Pair (Ended RetryLoopExited)),
     sv_update = (\<lambda>_. Pair (Ended RetryLoopExited)), sv_remove = (\<lambda>_. Pair (Ended RetryLoopExited)),
     sv_list = (\<lambda>_. Pair (Ended RetryLoopExited)), sv_remove_collection = (\<lambda>_. Pair (Ended RetryLoopExited))\<rparr>"


section \<open>A file history over it\<close>

text \<open>
  The history is loaded while the service is down: the read says that there is none. Once the service is back, the first flush finds the
  old record and overwrites it with the new files only.
\<close>

lemma outage_erases_history:
  assumes "keeps_records now uuid owner up" and "storage_ok c s" and "payload_survives c" and "prefixed c" and "owners c owner"
    and "CHR '':'' \<notin> set k" and "od_get s (ds_key (sc_mission c) k key) = Some r"
    and "\<And>rq t. failing (fst (sv_read down rq t))"
    and "stored = (case fst (grpc_read c down k key (sc_mission c) '''' (map_storage (to_wire c) s)) of Inr (Some r) \<Rightarrow> Some (files_of r) | _ \<Rightarrow> None)"
    and "append_files threshold key stored files fh_init = (due, h1)" and "flush_begin key h1 = (w, h2)"
    and "validate_data (sc_config c) k p = Inr v"
  shows "w = Some (files, False)"
    and "\<exists>r' t. remote_upsert c up k key p dt MISSIONS vis (map_storage (to_wire c) s) = (Inr r', t) \<and> st_data r' = v
      \<and> grpc_read c up k key (sc_mission c) '''' t = (Inr (Some r'), t)"
proof -
  have "fst (grpc_read c down k key (sc_mission c) '''' t) = unless_denied (Inr None) (Inl (ServerError False))" for t
    by (rule grpc_fails(2)) (use assms(8) in \<open>simp add: failing_def\<close>)
  then have "stored = None" by (simp add: assms(9))
  with assms(10,11) show "w = Some (files, False)"
    by (auto simp: append_files_def load_file_history_def fh_init_def flush_begin_def od_has_def Let_def)
  have o: "owner (context_enum (sc_setup_version c) (sc_mission c)) = sc_mission c" and bar: "CHR ''|'' \<notin> set (sc_mission c)"
    using context_resolved [OF assms(4,5), of MISSIONS] by (simp_all add: remote_resolve_def resolve_context_def)
  have rd: "ds_read k key (sc_mission c) '''' s = Some r" using assms(7) by (simp add: ds_read_def)
  obtain r' s' where u: "ds_update now k key v (sc_mission c) vis s = Some (r', s')" "st_data r' = v" "od_get s' (ds_key (sc_mission c) k key) = Some r'"
    using assms(7) by (simp add: ds_update_def Let_def)
  with grpc_update_sim [OF assms(1-3) o bar assms(6,12), where vis = vis and i = key]
  have g: "grpc_update c up k key v (sc_mission c) vis (map_storage (to_wire c) s) = (Inr (Some r'), map_storage (to_wire c) s')" and ok: "storage_ok c s'" by auto
  have "remote_upsert c up k key p dt MISSIONS vis (map_storage (to_wire c) s) = (Inr r', map_storage (to_wire c) s')"
    using grpc_read_sim [OF assms(1,2) o, of k key "''''"] rd g assms(12) by (simp add: remote_upsert_def remote_resolve_def resolve_context_def)
  moreover have "grpc_read c up k key (sc_mission c) '''' (map_storage (to_wire c) s') = (Inr (Some r'), map_storage (to_wire c) s')"
    using grpc_read_sim [OF assms(1) ok o, of k key "''''"] u(3) by (simp add: ds_read_def)
  ultimately show "\<exists>r' t. remote_upsert c up k key p dt MISSIONS vis (map_storage (to_wire c) s) = (Inr r', t) \<and> st_data r' = v
      \<and> grpc_read c up k key (sc_mission c) '''' t = (Inr (Some r'), t)" using u(2) by blast
qed

text \<open>An update during an outage raises nothing, so the history counts as written and the flush at the end of the run finds nothing to do.\<close>

lemma lost_update_counts_as_written:
  assumes "\<And>rq t. failing (fst (sv_update down rq t))" and "sc_struct c d = Some fs" and "flush_begin key h = (Some (files, True), h1)"
  shows "fst (grpc_update c down k key d ctx vis t) = Inr None"
    and "\<not> od_has (fh_dirty (flush_end key True h1)) key" and "flush_file_history key True (flush_end key True h1, stored) = (flush_end key True h1, stored)"
proof -
  have "fst (grpc_update c down k key d ctx vis t) = unless_denied (Inr None) (Inl (ServerError False))"
    by (rule grpc_fails(3) [OF _ assms(2)]) (use assms(1) in \<open>simp add: failing_def\<close>)
  then show "fst (grpc_update c down k key d ctx vis t) = Inr None" by simp
  show n: "\<not> od_has (fh_dirty (flush_end key True h1)) key" by (simp add: flush_end_def od_has_def)
  then show "flush_file_history key True (flush_end key True h1, stored) = (flush_end key True h1, stored)" by (simp add: flush_file_history_def)
qed

end
