(* ===== verification/Grpc_Registry.thy ===== *)
theory Grpc_Registry
  imports Grpc_Errors Tools Registry_Toolkit
begin

text \<open>
  The client of the remote registry, \<open>services/registry/grpc_registry.py\<close>: what it asks, how it reads the answers, and
  which exceptions leave it. The remote registry is not part of the program: an operation takes what its
  call ended with. The enumerations the generated code knows are lists of names.
\<close>

section \<open>Enumerations on the wire\<close>

fun module_type_name :: "RegistryModuleType \<Rightarrow> string" where
  "module_type_name TypeUnspecified = ''UNSPECIFIED''"
| "module_type_name TypeArchetype = ''ARCHETYPE''"
| "module_type_name TypeToolModule = ''TOOL_MODULE''"
| "module_type_name TypeService = ''SERVICE''"

fun module_status_name :: "RegistryModuleStatus \<Rightarrow> string" where
  "module_status_name ModUnspecified = ''UNSPECIFIED''"
| "module_status_name ModReady = ''READY''"
| "module_status_name ModActive = ''ACTIVE''"
| "module_status_name ModArchived = ''ARCHIVED''"

definition setup_status_name :: "RegistrySetupStatus \<Rightarrow> string" where
  "setup_status_name s = upper (status_value s)"

fun visibility_name :: "RegistryVisibility \<Rightarrow> string" where
  "visibility_name RegUnspecified = ''UNSPECIFIED''"
| "visibility_name RegPublic = ''PUBLIC''"
| "visibility_name RegPrivate = ''PRIVATE''"
| "visibility_name RegInternal = ''INTERNAL''"

fun sort_by_name :: "RegistrySortBy \<Rightarrow> string" where
  "sort_by_name SortUnspecified = ''UNSPECIFIED''"
| "sort_by_name SortName = ''NAME''"
| "sort_by_name SortCreatedAt = ''CREATED_AT''"
| "sort_by_name SortUpdatedAt = ''UPDATED_AT''"

definition module_types :: "RegistryModuleType list" where
  "module_types = [TypeUnspecified, TypeArchetype, TypeToolModule, TypeService]"

definition module_statuses :: "RegistryModuleStatus list" where
  "module_statuses = [ModUnspecified, ModReady, ModActive, ModArchived]"

definition visibilities :: "RegistryVisibility list" where
  "visibilities = [RegUnspecified, RegPublic, RegPrivate, RegInternal]"

definition sort_keys :: "RegistrySortBy list" where
  "sort_keys = [SortUnspecified, SortName, SortCreatedAt, SortUpdatedAt]"

interpretation wire_type: wire_enum module_type_name module_types "''MODULE_TYPE''"
proof
  show "e \<in> set module_types" for e by (cases e) (simp_all add: module_types_def)
  show "module_type_name e = module_type_name e' \<Longrightarrow> e = e'" for e e' by (cases e; cases e') simp_all
qed

interpretation wire_setup_status: wire_enum setup_status_name setup_statuses "''SETUP_STATUS''"
proof
  show "e \<in> set setup_statuses" for e by (cases e) (simp_all add: setup_statuses_def)
  have n: "map setup_status_name setup_statuses = [''UNSPECIFIED'', ''DRAFT'', ''WAITING_FOR_APPROVAL'', ''READY'', ''PAUSED'', ''FAILED'',
      ''ARCHIVED'', ''NEEDS_CONFIGURATION'', ''CONFIGURATION_FAILED'', ''CONFIGURATION_SUCCEEDED'']" by code_simp
  show "setup_status_name e = setup_status_name e' \<Longrightarrow> e = e'" for e e'
    using n by (cases e; cases e') (simp_all add: setup_statuses_def)
qed

interpretation wire_visibility: wire_enum visibility_name visibilities "''VISIBILITY''"
proof
  show "e \<in> set visibilities" for e by (cases e) (simp_all add: visibilities_def)
  show "visibility_name e = visibility_name e' \<Longrightarrow> e = e'" for e e' by (cases e; cases e') simp_all
qed

interpretation wire_sort: wire_enum sort_by_name sort_keys "''SORT_BY''"
proof
  show "e \<in> set sort_keys" for e by (cases e) (simp_all add: sort_keys_def)
  show "sort_by_name e = sort_by_name e' \<Longrightarrow> e = e'" for e e' by (cases e; cases e') simp_all
qed

interpretation wire_module_status: wire_enum module_status_name module_statuses "''MODULE_STATUS''"
proof
  show "e \<in> set module_statuses" for e by (cases e) (simp_all add: module_statuses_def)
  show "module_status_name e = module_status_name e' \<Longrightarrow> e = e'" for e e' by (cases e; cases e') simp_all
qed

definition read_type :: "string option \<Rightarrow> RegistryModuleType called" where
  "read_type = read_enum module_type_name module_types ''MODULE_TYPE''"

definition read_status :: "string option \<Rightarrow> RegistryModuleStatus called" where
  "read_status = read_enum module_status_name module_statuses ''MODULE_STATUS''"

definition read_setup_status :: "string option \<Rightarrow> RegistrySetupStatus called" where
  "read_setup_status = read_enum setup_status_name setup_statuses ''SETUP_STATUS''"

definition read_visibility :: "string option \<Rightarrow> RegistryVisibility called" where
  "read_visibility = read_enum visibility_name visibilities ''VISIBILITY''"

section \<open>Messages\<close>

text \<open>\<open>ModuleDescriptor\<close> and \<open>ModuleSummary\<close>, which has no address and no port.\<close>

record module_summary_msg =
  wm_id :: string
  wm_name :: string
  wm_type :: "string option"
  wm_status :: "string option"
  wm_version :: string
  wm_documentation :: string
  wm_tags :: "string list"

record module_msg = module_summary_msg +
  wm_address :: string
  wm_port :: int

record setup_summary_msg =
  ws_id :: string
  ws_name :: string
  ws_documentation :: string
  ws_status :: "string option"
  ws_visibility :: "string option"
  ws_organization :: string
  ws_module_id :: string
  ws_module_name :: string
  ws_module_type :: "string option"
  ws_version_id :: string
  ws_version :: string
  ws_tags :: "string list"

text \<open>\<open>SetupDescriptor\<close>, whose module is a message of its own that may be absent.\<close>

record setup_msg =
  wd_id :: string
  wd_name :: string
  wd_documentation :: string
  wd_status :: "string option"
  wd_visibility :: "string option"
  wd_organization :: string
  wd_owner :: string
  wd_card :: string
  wd_module_id :: string
  wd_module :: "(string \<times> string option) option"
  wd_version_id :: string
  wd_version :: string
  wd_tags :: "string list"
  wd_config :: pstruct

definition proto_to_module_info :: "module_msg \<Rightarrow> module_info called" where
  "proto_to_module_info d = bind_call (read_type (wm_type d)) (\<lambda>t. Inr
     \<lparr>mi_id = wm_id d, mi_type = t, mi_address = wm_address d, mi_port = wm_port d, mi_version = wm_version d, mi_name = wm_name d,
      mi_documentation = optional (wm_documentation d), mi_status = None, mi_tags = wm_tags d\<rparr>)"

definition module_summary_to_module_info :: "module_summary_msg \<Rightarrow> module_info called" where
  "module_summary_to_module_info d = bind_call (read_type (wm_type d)) (\<lambda>t. bind_call (read_status (wm_status d)) (\<lambda>st. Inr
     \<lparr>mi_id = wm_id d, mi_type = t, mi_address = '''', mi_port = 0, mi_version = wm_version d, mi_name = wm_name d,
      mi_documentation = optional (wm_documentation d), mi_status = Some st, mi_tags = wm_tags d\<rparr>))"

definition proto_to_setup_info :: "setup_msg \<Rightarrow> setup_info option called" where
  "proto_to_setup_info d =
     (if wd_id d = '''' then Inr None
      else bind_call (read_setup_status (wd_status d)) (\<lambda>st. bind_call (read_visibility (wd_visibility d)) (\<lambda>v.
        bind_call (case wd_module d of None \<Rightarrow> Inr None | Some (n, t) \<Rightarrow> bind_call (read_type t) (\<lambda>t. Inr (Some t))) (\<lambda>ty. Inr (Some
          \<lparr>ss_setup_id = wd_id d, ss_name = wd_name d, ss_documentation = optional (wd_documentation d), ss_status = Some st,
           ss_visibility = Some v, ss_organization = optional (wd_organization d), ss_module_id = optional (wd_module_id d),
           ss_module_name = (case wd_module d of None \<Rightarrow> None | Some (n, t) \<Rightarrow> optional n), ss_module_type = ty,
           ss_version_id = optional (wd_version_id d), ss_version = optional (wd_version d), ss_tags = wd_tags d,
           si_owner = optional (wd_owner d), si_card = optional (wd_card d),
           si_config = (if wd_config d = [] then None else Some (wd_config d))\<rparr>)))))"

definition summary_to_setup_summary :: "setup_summary_msg \<Rightarrow> setup_summary called" where
  "summary_to_setup_summary d = bind_call (read_setup_status (ws_status d)) (\<lambda>st. bind_call (read_visibility (ws_visibility d)) (\<lambda>v.
     bind_call (read_type (ws_module_type d)) (\<lambda>ty. Inr
       \<lparr>ss_setup_id = ws_id d, ss_name = ws_name d, ss_documentation = optional (ws_documentation d), ss_status = Some st,
        ss_visibility = Some v, ss_organization = optional (ws_organization d), ss_module_id = optional (ws_module_id d),
        ss_module_name = optional (ws_module_name d), ss_module_type = Some ty, ss_version_id = optional (ws_version_id d),
        ss_version = optional (ws_version d), ss_tags = ws_tags d\<rparr>)))"

section \<open>Operations\<close>

text \<open>A query whose \<open>ServerError\<close> becomes the registry's own error.\<close>

definition registry_query :: "'r rpc_end \<Rightarrow> 'r called" where
  "registry_query r = (case awaited r of Inl (ServerError c) \<Rightarrow> Inl ServiceError | x \<Rightarrow> x)"

definition grpc_discover :: "module_msg rpc_end \<Rightarrow> module_info called" where
  "grpc_discover r = handle_grpc_errors (bind_call (registry_query r)
     (\<lambda>d. if wm_id d = '''' then Inl ModuleNotFound else proto_to_module_info d))"

definition grpc_get_status :: "module_msg rpc_end \<Rightarrow> (string \<times> RegistryModuleStatus) called" where
  "grpc_get_status r = handle_grpc_errors (bind_call (registry_query r)
     (\<lambda>d. if wm_id d = '''' then Inl ModuleNotFound else bind_call (read_status (wm_status d)) (\<lambda>st. Inr (wm_id d, st))))"

definition grpc_get_setup :: "setup_msg rpc_end \<Rightarrow> setup_info option called" where
  "grpc_get_setup r = handle_grpc_errors (bind_call (registry_query r) proto_to_setup_info)"

definition grpc_heartbeat :: "string option rpc_end \<Rightarrow> RegistryModuleStatus called" where
  "grpc_heartbeat r = handle_grpc_errors (bind_call (registry_query r) read_status)"

text \<open>The type is encoded within the handler here; the reply's module may be missing.\<close>

definition grpc_register :: "string list \<Rightarrow> RegistryModuleType \<Rightarrow> module_msg option rpc_end \<Rightarrow> module_info option called" where
  "grpc_register proto ty r = handle_grpc_errors (bind_call (encode_enum proto module_type_name ''MODULE_TYPE'' ty) (\<lambda>n.
     bind_call (registry_query r) (\<lambda>m. case m of
       None \<Rightarrow> Inr None
     | Some d \<Rightarrow> if wm_id d = '''' then Inr None else bind_call (proto_to_module_info d) (\<lambda>i. Inr (Some i)))))"

definition grpc_deregister :: "string \<Rightarrow> bool" where
  "grpc_deregister i = True"

text \<open>The health check: \<open>None\<close> when the call raises \<open>AioRpcError\<close>, otherwise whether the status is \<open>SERVING\<close>.\<close>

definition wait_for_ready :: "bool option \<Rightarrow> bool" where
  "wait_for_ready r = (r = Some True)"


section \<open>Searches\<close>

text \<open>The names of the generated enumerations.\<close>

record protos =
  pt_types :: "string list"
  pt_statuses :: "string list"
  pt_visibilities :: "string list"
  pt_sorts :: "string list"

record module_request =
  qm_query :: string
  qm_types :: "string list"
  qm_tags :: "string list"
  qm_sort :: string
  qm_descending :: bool
  qm_limit :: int
  qm_offset :: int

record setup_request =
  qs_query :: string
  qs_setups :: "string list"
  qs_modules :: "string list"
  qs_types :: "string list"
  qs_statuses :: "string list"
  qs_visibilities :: "string list"
  qs_tags :: "string list"
  qs_sort :: string
  qs_descending :: bool
  qs_limit :: int
  qs_offset :: int

definition or_empty :: "'a list option \<Rightarrow> 'a list" where
  "or_empty x = (case x of None \<Rightarrow> [] | Some xs \<Rightarrow> xs)"

text \<open>\<open>RegistryModuleType[module_type.upper()]\<close>, if a type is given.\<close>

definition wanted_types :: "protos \<Rightarrow> string option \<Rightarrow> string list called" where
  "wanted_types p ty =
     (if no_filter ty then Inr []
      else case find (\<lambda>t. module_type_name t = upper (the ty)) module_types of
        None \<Rightarrow> Inl MissingKey
      | Some t \<Rightarrow> bind_call (encode_enum (pt_types p) module_type_name ''MODULE_TYPE'' t) (\<lambda>n. Inr [n]))"

definition module_search_request :: "protos \<Rightarrow> module_query \<Rightarrow> int \<Rightarrow> int \<Rightarrow> module_request called" where
  "module_search_request p q limit start = bind_call (wanted_types p (mq_type q)) (\<lambda>ts.
     bind_call (encode_enum (pt_sorts p) sort_by_name ''SORT_BY'' (mq_sort q)) (\<lambda>sort. Inr
       \<lparr>qm_query = or_empty (mq_name q), qm_types = ts, qm_tags = or_empty (mq_tags q), qm_sort = sort,
        qm_descending = mq_descending q, qm_limit = limit, qm_offset = start\<rparr>))"

definition setup_search_request :: "protos \<Rightarrow> setup_query \<Rightarrow> int \<Rightarrow> int \<Rightarrow> setup_request called" where
  "setup_search_request p q limit start =
     bind_call (encode_all (pt_types p) module_type_name ''MODULE_TYPE'' (or_empty (sq_types q))) (\<lambda>ts.
     bind_call (encode_all (pt_statuses p) setup_status_name ''SETUP_STATUS'' (or_empty (sq_statuses q))) (\<lambda>sts.
     bind_call (encode_all (pt_visibilities p) visibility_name ''VISIBILITY'' (or_empty (sq_visibilities q))) (\<lambda>vs.
     bind_call (encode_enum (pt_sorts p) sort_by_name ''SORT_BY'' (sq_sort q)) (\<lambda>sort. Inr
       \<lparr>qs_query = or_empty (sq_query q), qs_setups = or_empty (sq_setups q), qs_modules = or_empty (sq_modules q),
        qs_types = ts, qs_statuses = sts, qs_visibilities = vs, qs_tags = or_empty (sq_tags q), qs_sort = sort,
        qs_descending = sq_descending q, qs_limit = limit, qs_offset = start\<rparr>))))"

text \<open>The requests are made before the handler; \<open>answer\<close> is what the registry's side makes of one.\<close>

definition grpc_search ::
    "protos \<Rightarrow> (module_request \<Rightarrow> module_summary_msg list rpc_end) \<Rightarrow> module_query \<Rightarrow> int \<Rightarrow> int \<Rightarrow> module_info list called" where
  "grpc_search p answer q limit start = bind_call (module_search_request p q limit start) (\<lambda>rq.
     handle_grpc_errors (bind_call (registry_query (answer rq)) (read_all module_summary_to_module_info)))"

definition grpc_search_setups ::
    "protos \<Rightarrow> (setup_request \<Rightarrow> setup_summary_msg list rpc_end) \<Rightarrow> setup_query \<Rightarrow> int \<Rightarrow> int \<Rightarrow> setup_summary list called" where
  "grpc_search_setups p answer q limit start = bind_call (setup_search_request p q limit start) (\<lambda>rq.
     handle_grpc_errors (bind_call (registry_query (answer rq)) (read_all summary_to_setup_summary)))"

section \<open>Which exceptions leave the client\<close>

definition plain :: "'a called \<Rightarrow> bool" where
  "plain r \<longleftrightarrow> (\<forall>e. r = Inl e \<longrightarrow> e \<in> {BadValue, MissingKey, ModuleNotFound})"

lemma plain_bind: "plain r \<Longrightarrow> (\<And>x. plain (f x)) \<Longrightarrow> plain (bind_call r f)"
  by (cases r) (simp_all add: plain_def)

lemma plain_Inr [simp]: "plain (Inr x)" and plain_not_found [simp]: "plain (Inl ModuleNotFound)"
  by (simp_all add: plain_def)

lemma plain_read [simp]: "plain (read_enum nm es p v)"
  by (auto simp: plain_def read_enum_def split: option.splits)

lemma plain_encode [simp]: "plain (encode_enum proto nm p e)"
  by (auto simp: plain_def encode_enum_def Let_def)

lemma plain_reads [simp]: "plain (read_type v)" "plain (read_status v)" "plain (read_setup_status v)" "plain (read_visibility v)"
  by (simp_all add: read_type_def read_status_def read_setup_status_def read_visibility_def)

lemma plain_infos [simp]:
  "plain (proto_to_module_info d)" "plain (module_summary_to_module_info ms)" "plain (proto_to_setup_info sd)" "plain (summary_to_setup_summary ss)"
  by (auto simp: proto_to_module_info_def module_summary_to_module_info_def proto_to_setup_info_def summary_to_setup_summary_def
      intro!: plain_bind split: option.split)

lemma plain_read_all: "(\<And>m. plain (f m)) \<Longrightarrow> plain (read_all f ms)"
  by (induction ms) (auto intro!: plain_bind)

text \<open>How an operation of the registry ends, given how it reads a reply.\<close>

lemma registry_op_end:
  assumes "\<And>x. plain (f x)"
  shows "(case handle_grpc_errors (bind_call (registry_query r) f) of
      Inl e \<Rightarrow> (e = PermissionDenied \<longleftrightarrow> r = DeniedCall) \<and> (e = Cancellation \<longleftrightarrow> r = Ended CancelledErr) \<and> e \<in> {PermissionDenied, Cancellation, ServiceError}
    | Inr y \<Rightarrow> \<exists>x. r = Ended (Returned x) \<and> f x = Inr y)"
proof (cases r)
  case (Ended q)
  show ?thesis
  proof (cases q)
    case (Returned x)
    with Ended assms [of x] show ?thesis by (cases "f x") (auto simp: registry_query_def plain_def)
  qed (simp_all add: Ended registry_query_def)
qed (simp add: registry_query_def)

definition registry_ending :: "'a called \<Rightarrow> 'r rpc_end \<Rightarrow> bool" where
  "registry_ending out r \<longleftrightarrow> (case out of
      Inl e \<Rightarrow> (e = PermissionDenied \<longleftrightarrow> r = DeniedCall) \<and> (e = Cancellation \<longleftrightarrow> r = Ended CancelledErr) \<and> e \<in> {PermissionDenied, Cancellation, ServiceError}
    | Inr y \<Rightarrow> \<exists>x. r = Ended (Returned x))"

lemma registry_op_ending:
  assumes "\<And>x. plain (f x)"
  shows "registry_ending (handle_grpc_errors (bind_call (registry_query r) f)) r"
  using registry_op_end [of f r, OF assms] by (auto simp: registry_ending_def split: sum.splits)


text \<open>
  What leaves the registry's client. A denied call raises \<open>PermissionDeniedError\<close> and only a denied call does; a cancellation
  passes; everything else that goes wrong - a failing call, an unknown module, an answer with a value the client does not
  know - is one error of the registry's own; and a result is always read from a reply. A search raises any other error before anything is sent.
\<close>

theorem registry_failures:
  shows "registry_ending (grpc_discover dr) dr \<and> registry_ending (grpc_get_status dr) dr \<and> registry_ending (grpc_get_setup sr) sr
    \<and> registry_ending (grpc_heartbeat hr) hr
    \<and> (case setup_search_request p q limit start of Inl e \<Rightarrow> grpc_search_setups p answer q limit start = Inl e \<and> e = BadValue
       | Inr rq \<Rightarrow> registry_ending (grpc_search_setups p answer q limit start) (answer rq))
    \<and> (case module_search_request p mq limit start of Inl e \<Rightarrow> grpc_search p manswer mq limit start = Inl e \<and> e \<in> {BadValue, MissingKey}
       | Inr rq \<Rightarrow> registry_ending (grpc_search p manswer mq limit start) (manswer rq))"
proof (intro conjI)
  show "registry_ending (grpc_discover dr) dr" "registry_ending (grpc_get_status dr) dr" "registry_ending (grpc_get_setup sr) sr"
    "registry_ending (grpc_heartbeat hr) hr"
    unfolding grpc_discover_def grpc_get_status_def grpc_get_setup_def grpc_heartbeat_def
    by (rule registry_op_ending; auto intro!: plain_bind)+
next
  show "case setup_search_request p q limit start of Inl e \<Rightarrow> grpc_search_setups p answer q limit start = Inl e \<and> e = BadValue
       | Inr rq \<Rightarrow> registry_ending (grpc_search_setups p answer q limit start) (answer rq)"
  proof (cases "setup_search_request p q limit start")
    case (Inl e)
    then have "e = BadValue"
      by (auto simp: setup_search_request_def bind_call_def encode_enum_def Let_def split: sum.splits if_splits
          dest: wire_type.encode_fails wire_setup_status.encode_fails wire_visibility.encode_fails)
    with Inl show ?thesis by (simp add: grpc_search_setups_def)
  next
    case (Inr rq)
    have "registry_ending (handle_grpc_errors (bind_call (registry_query (answer rq)) (read_all summary_to_setup_summary))) (answer rq)"
      by (rule registry_op_ending) (rule plain_read_all, simp)
    with Inr show ?thesis by (simp add: grpc_search_setups_def)
  qed
next
  show "case module_search_request p mq limit start of Inl e \<Rightarrow> grpc_search p manswer mq limit start = Inl e \<and> e \<in> {BadValue, MissingKey}
       | Inr rq \<Rightarrow> registry_ending (grpc_search p manswer mq limit start) (manswer rq)"
  proof (cases "module_search_request p mq limit start")
    case (Inl e)
    then have "e \<in> {BadValue, MissingKey}"
      by (auto simp: module_search_request_def wanted_types_def bind_call_def encode_enum_def Let_def split: sum.splits if_splits option.splits)
    with Inl show ?thesis by (simp add: grpc_search_def)
  next
    case (Inr rq)
    have "registry_ending (handle_grpc_errors (bind_call (registry_query (manswer rq)) (read_all module_summary_to_module_info))) (manswer rq)"
      by (rule registry_op_ending) (rule plain_read_all, simp)
    with Inr show ?thesis by (simp add: grpc_search_def)
  qed
qed

section \<open>What a search asks for\<close>

text \<open>The query a request stands for, its names read as the client reads those of an answer.\<close>

definition requested_query :: "setup_request \<Rightarrow> setup_query called" where
  "requested_query rq =
     bind_call (read_all read_type (map Some (qs_types rq))) (\<lambda>ts.
     bind_call (read_all read_setup_status (map Some (qs_statuses rq))) (\<lambda>sts.
     bind_call (read_all read_visibility (map Some (qs_visibilities rq))) (\<lambda>vs.
     bind_call (read_enum sort_by_name sort_keys ''SORT_BY'' (Some (qs_sort rq))) (\<lambda>sort. Inr
       \<lparr>sq_query = Some (qs_query rq), sq_setups = Some (qs_setups rq), sq_modules = Some (qs_modules rq), sq_types = Some ts,
        sq_statuses = Some sts, sq_visibilities = Some vs, sq_tags = Some (qs_tags rq), sq_sort = sort, sq_descending = qs_descending rq\<rparr>))))"

lemma no_filter_or_empty [simp]: "no_filter (Some (or_empty x)) = no_filter x"
  by (cases x) (simp_all add: no_filter_def or_empty_def)

lemma the_or_empty: "\<not> no_filter x \<Longrightarrow> or_empty x = the x"
  by (cases x) (simp_all add: no_filter_def or_empty_def)

lemma no_filter_the [simp]: "\<not> no_filter x \<Longrightarrow> \<not> no_filter (Some (the x))"
  by (cases x) (simp_all add: no_filter_def)

lemma in_values_or_empty [simp]: "in_values v (Some (or_empty x)) = in_values v x"
  by (cases "no_filter x") (simp_all add: in_values_def the_or_empty)

definition same_filters :: "setup_query \<Rightarrow> setup_query \<Rightarrow> bool" where
  "same_filters q q' \<longleftrightarrow> sq_query q' = Some (or_empty (sq_query q)) \<and> sq_setups q' = Some (or_empty (sq_setups q))
     \<and> sq_modules q' = Some (or_empty (sq_modules q)) \<and> sq_types q' = Some (or_empty (sq_types q))
     \<and> sq_statuses q' = Some (or_empty (sq_statuses q)) \<and> sq_visibilities q' = Some (or_empty (sq_visibilities q))
     \<and> sq_tags q' = Some (or_empty (sq_tags q)) \<and> sq_sort q' = sq_sort q \<and> sq_descending q' = sq_descending q"

lemma same_filters_match: "same_filters q q' \<Longrightarrow> setup_match q' s = setup_match q s"
  by (cases "no_filter (sq_query q)"; cases "no_filter (sq_tags q)")
    (simp_all add: setup_match_def same_filters_def the_or_empty)

lemma same_filters_found: "same_filters q q' \<Longrightarrow> found_setups q' reg = found_setups q reg"
proof -
  assume s: "same_filters q q'"
  then have "setup_match q' = setup_match q" using same_filters_match by blast
  moreover have "sq_sort q' = sq_sort q" "sq_descending q' = sq_descending q" using s by (simp_all add: same_filters_def)
  ultimately show ?thesis by (simp add: found_setups_def cong del: if_weak_cong)
qed

lemma request_reads:
  assumes "setup_search_request p q limit start = Inr rq"
  shows "\<exists>q'. requested_query rq = Inr q' \<and> same_filters q q' \<and> qs_limit rq = limit \<and> qs_offset rq = start"
  using assms
  by (auto simp: setup_search_request_def bind_call_Inr requested_query_def read_type_def read_setup_status_def read_visibility_def
      wire_type.read_encoded_all wire_setup_status.read_encoded_all wire_visibility.read_encoded_all wire_sort.read_encoded same_filters_def)


text \<open>
  C31: A search says what it means. The request a search of setups sends, its names read back, is a query that finds the same setups on
  every registry, page by page, with nothing dropped or added; a filter the generated code has no name for is refused before anything is sent.
\<close>

theorem search_request_exact:
  shows "case setup_search_request p q limit start of
      Inr rq \<Rightarrow> qs_limit rq = limit \<and> qs_offset rq = start
        \<and> (\<exists>q'. requested_query rq = Inr q' \<and> (\<forall>reg. search_setups q' limit start reg = search_setups q limit start reg))
    | Inl e \<Rightarrow> grpc_search_setups p answer q limit start = Inl BadValue
        \<and> ((\<exists>t\<in>set (or_empty (sq_types q)). ''MODULE_TYPE'' @ ''_'' @ module_type_name t \<notin> set (pt_types p))
         \<or> (\<exists>t\<in>set (or_empty (sq_statuses q)). ''SETUP_STATUS'' @ ''_'' @ setup_status_name t \<notin> set (pt_statuses p))
         \<or> (\<exists>t\<in>set (or_empty (sq_visibilities q)). ''VISIBILITY'' @ ''_'' @ visibility_name t \<notin> set (pt_visibilities p))
         \<or> ''SORT_BY'' @ ''_'' @ sort_by_name (sq_sort q) \<notin> set (pt_sorts p))"
proof (cases "setup_search_request p q limit start")
  case (Inr rq)
  from request_reads [OF Inr] obtain q' where q': "requested_query rq = Inr q'" "same_filters q q'" "qs_limit rq = limit" "qs_offset rq = start"
    by blast
  with same_filters_found [OF q'(2)] show ?thesis by (auto simp: Inr search_setups_def)
next
  case (Inl e)
  from Inl have f: "e = BadValue \<and>
        ((\<exists>t\<in>set (or_empty (sq_types q)). ''MODULE_TYPE'' @ ''_'' @ module_type_name t \<notin> set (pt_types p))
         \<or> (\<exists>t\<in>set (or_empty (sq_statuses q)). ''SETUP_STATUS'' @ ''_'' @ setup_status_name t \<notin> set (pt_statuses p))
         \<or> (\<exists>t\<in>set (or_empty (sq_visibilities q)). ''VISIBILITY'' @ ''_'' @ visibility_name t \<notin> set (pt_visibilities p))
         \<or> ''SORT_BY'' @ ''_'' @ sort_by_name (sq_sort q) \<notin> set (pt_sorts p))"
    unfolding setup_search_request_def bind_call_def
    by (auto simp: encode_enum_def Let_def split: sum.splits if_splits
        dest!: wire_type.encode_fails wire_setup_status.encode_fails wire_visibility.encode_fails)
  then show ?thesis by (simp add: Inl grpc_search_setups_def)
qed

definition protos_demo :: protos where
  "protos_demo = \<lparr>pt_types = [''MODULE_TYPE_TOOL_MODULE''], pt_statuses = [''SETUP_STATUS_READY''], pt_visibilities = [],
     pt_sorts = [''SORT_BY_UNSPECIFIED'', ''SORT_BY_NAME'']\<rparr>"

definition query_demo :: setup_query where
  "query_demo = \<lparr>sq_query = None, sq_setups = None, sq_modules = Some [''m''], sq_types = Some [TypeToolModule], sq_statuses = Some [SetupReady],
     sq_visibilities = None, sq_tags = None, sq_sort = SortName, sq_descending = True\<rparr>"

definition request_demo :: setup_request where
  "request_demo = \<lparr>qs_query = '''', qs_setups = [], qs_modules = [''m''], qs_types = [''MODULE_TYPE_TOOL_MODULE''], qs_statuses = [''SETUP_STATUS_READY''],
     qs_visibilities = [], qs_tags = [], qs_sort = ''SORT_BY_NAME'', qs_descending = True, qs_limit = 20, qs_offset = 40\<rparr>"

theorem search_request_exact_witness:
  "\<exists>q'. requested_query request_demo = Inr q' \<and> (\<forall>reg. search_setups q' 20 40 reg = search_setups query_demo 20 40 reg)"
proof -
  have "setup_search_request protos_demo query_demo 20 40 = Inr request_demo" by code_simp
  with search_request_exact [where p = protos_demo and q = query_demo and limit = 20 and start = 40] show ?thesis by simp
qed

section \<open>A missing module\<close>

text \<open>The registry of \<open>Tools\<close>, answered by the remote one; \<open>schemas\<close> is what the modules themselves answer.\<close>

fun reg_exc_of :: "rpc_exc \<Rightarrow> reg_exc" where
  "reg_exc_of PermissionDenied = RegDenied"
| "reg_exc_of ModuleNotFound = RegNotFound"
| "reg_exc_of Cancellation = RegTimeout"
| "reg_exc_of e = RegFailed"

definition remote_registry ::
    "(string \<Rightarrow> setup_msg rpc_end) \<Rightarrow> (string \<Rightarrow> module_msg rpc_end) \<Rightarrow> (string \<Rightarrow> reg_exc + string list) \<Rightarrow> registry" where
  "remote_registry setups modules schemas =
     \<lparr>rg_get_setup = (\<lambda>sid. case grpc_get_setup (setups sid) of
        Inl e \<Rightarrow> Inl (reg_exc_of e)
      | Inr None \<Rightarrow> Inr None
      | Inr (Some i) \<Rightarrow> Inr (Some (case ss_module_id i of None \<Rightarrow> '''' | Some m \<Rightarrow> m, ss_name i))),
      rg_discover = (\<lambda>mid. case grpc_discover (modules mid) of Inl e \<Rightarrow> Inl (reg_exc_of e) | Inr m \<Rightarrow> Inr True),
      rg_schemas = schemas\<rparr>"

text \<open>What the dispatcher of the managers makes of an exception.\<close>

fun remote_fault :: "'a called \<Rightarrow> svc_fault option" where
  "remote_fault (Inl PermissionDenied) = Some FaultDenied"
| "remote_fault (Inl (ServerError c)) = Some FaultServer"
| "remote_fault (Inl ServiceError) = Some FaultServer"
| "remote_fault (Inl e) = Some FaultSurprise"
| "remote_fault (Inr x) = None"

lemma missing_discovered: "wm_id d = '''' \<Longrightarrow> grpc_discover (Ended (Returned d)) = Inl ServiceError"
  by (simp add: grpc_discover_def registry_query_def)

text \<open>
  A module the remote registry does not have is never told from a registry that fails. The class of \<open>RegistryModuleNotFoundError\<close> is lost in the
  error handler, so what is written for that class never happens: a loaded tool whose module is gone is retried in every turn of its mission
  and never dropped, and a setup whose module is gone can never be deleted, though deleting it is what the managers' one exception is for.
\<close>

theorem missing_module_never_told:
  assumes "modules mid = Ended (Returned d)" and "wm_id d = ''''" and "mid \<noteq> ''''"
    and "reg = remote_registry setups modules schemas"
    and "rg_get_setup reg sid = Inr (Some (mid, name))" and "tc_get sid c = None"
    and "ae_setup_fault env = None" and "od_get (su_setups s) sid' = Some setup" and "sd_module setup = mid"
    and "ae_module_fault env = remote_fault (grpc_discover (modules mid))"
  shows "rehydrate_one reg config mission sid (n, c, st) = (n, c, st)
    \<and> rehydrate_one (reg\<lparr>rg_discover := (\<lambda>_. Inl RegNotFound)\<rparr>) config mission sid (n, c, st) = (n, c, lt_forget config mission sid st)
    \<and> reg_dispatch env kind (DeleteAction sid') dir s = (FailEnvelope ActServer, False, s)
    \<and> (od_get (dr_modules dir) mid = None \<and> ae_call_fault env = None \<longrightarrow>
        reg_dispatch (env\<lparr>ae_module_fault := None\<rparr>) kind (DeleteAction sid') dir s = (OkEnvelope (FlagResult True), True, snd (delete_setup sid' s)))"
proof -
  have d: "grpc_discover (modules mid) = Inl ServiceError" unfolding assms(1) by (rule missing_discovered [OF assms(2)])
  have g: "rg_discover reg mid = Inl RegFailed" by (simp add: assms(4) remote_registry_def d)
  have f: "ae_module_fault env = Some FaultServer" using assms(10) d by simp
  have "resolve_tool reg sid c = (Inl RegFailed, c)" using assms(3,5,6) g by (simp add: resolve_tool_def)
  then have 1: "rehydrate_one reg config mission sid (n, c, st) = (n, c, st)" by (simp add: rehydrate_one_def)
  have "resolve_tool (reg\<lparr>rg_discover := (\<lambda>_. Inl RegNotFound)\<rparr>) sid c = (Inr None, c)"
    using assms(3,5,6) by (simp add: resolve_tool_def)
  then have 2: "rehydrate_one (reg\<lparr>rg_discover := (\<lambda>_. Inl RegNotFound)\<rparr>) config mission sid (n, c, st) = (n, c, lt_forget config mission sid st)"
    by (simp add: rehydrate_one_def)
  have 3: "reg_dispatch env kind (DeleteAction sid') dir s = (FailEnvelope ActServer, False, s)"
    using assms(7-9) f by (simp add: reg_dispatch_def execute_def ensure_kind_def faulty_def get_or_raise_def find_module_def)
  have 4: "reg_dispatch (env\<lparr>ae_module_fault := None\<rparr>) kind (DeleteAction sid') dir s = (OkEnvelope (FlagResult True), True, snd (delete_setup sid' s))"
    if "od_get (dr_modules dir) mid = None" "ae_call_fault env = None"
    using assms(7-9) that
    by (simp add: reg_dispatch_def execute_def ensure_kind_def faulty_def get_or_raise_def find_module_def discover_by_id_def
        execute_delete_def service_call_def delete_setup_def od_has_def)
  from 1 2 3 4 show ?thesis by blast
qed

definition no_module :: module_msg where
  "no_module = \<lparr>wm_id = '''', wm_name = '''', wm_type = Some ''MODULE_TYPE_UNSPECIFIED'', wm_status = None, wm_version = '''',
     wm_documentation = '''', wm_tags = [], wm_address = '''', wm_port = 0\<rparr>"

definition setup_reply :: setup_msg where
  "setup_reply = \<lparr>wd_id = ''s1'', wd_name = ''maps'', wd_documentation = '''', wd_status = Some ''SETUP_STATUS_READY'',
     wd_visibility = Some ''VISIBILITY_PUBLIC'', wd_organization = '''', wd_owner = '''', wd_card = '''', wd_module_id = ''gone'',
     wd_module = None, wd_version_id = '''', wd_version = '''', wd_tags = [], wd_config = []\<rparr>"

definition orphan_store :: setup_store where
  "orphan_store = snd (create_setup nid_demo 0 (PStr ''maps'') (PStruct []) su_init)"

theorem missing_module_never_told_witness:
  "reg_dispatch (env_demo\<lparr>ae_module_fault := Some FaultServer\<rparr>) TypeToolModule (DeleteAction (nid_demo 0)) dr_init orphan_store
     = (FailEnvelope ActServer, False, orphan_store)
   \<and> reg_dispatch (env_demo\<lparr>ae_module_fault := None\<rparr>) TypeToolModule (DeleteAction (nid_demo 0)) dr_init orphan_store
     = (OkEnvelope (FlagResult True), True, snd (delete_setup (nid_demo 0) orphan_store))"
proof -
  let ?modules = "\<lambda>_. Ended (Returned no_module)" and ?reg = "remote_registry (\<lambda>_. Ended (Returned setup_reply)) (\<lambda>_. Ended (Returned no_module)) (\<lambda>_. Inr [])"
  let ?d = "the (od_get (su_setups orphan_store) (nid_demo 0))"
  have g: "rg_get_setup ?reg ''s1'' = Inr (Some (''gone'', ''maps''))" by (simp add: remote_registry_def) code_simp
  have d: "od_get (su_setups orphan_store) (nid_demo 0) = Some ?d" "sd_module ?d = ''local''"
    by (simp_all add: orphan_store_def create_setup_def make_setup_def su_init_def new_setup_def Let_def nid_demo_def)
  have f: "remote_fault (grpc_discover (Ended (Returned no_module))) = Some FaultServer" by code_simp
  have g': "rg_get_setup (remote_registry (\<lambda>_. Ended (Returned (setup_reply\<lparr>wd_module_id := ''local''\<rparr>))) ?modules (\<lambda>_. Inr [])) ''s1'' = Inr (Some (''local'', ''maps''))"
    by (simp add: remote_registry_def) code_simp
  have e: "ae_setup_fault (env_demo\<lparr>ae_module_fault := Some FaultServer\<rparr>) = None" "ae_call_fault (env_demo\<lparr>ae_module_fault := Some FaultServer\<rparr>) = None"
      "od_get (dr_modules dr_init) ''local'' = None" "tc_get ''s1'' tc_empty = None"
    by (simp_all add: env_demo_def dr_init_def tc_empty_def tc_get_def)
  have "(\<lambda>_. Ended (Returned no_module)) ''local'' = Ended (Returned no_module)" "wm_id no_module = ''''" "''local'' \<noteq> ''''"
    by (simp_all add: no_module_def)
  note this(1,2,3)
  from missing_module_never_told [where modules = ?modules and mid = "''local''" and d = no_module, OF this refl g' e(4,1) d]
  show ?thesis using f e by simp
qed

text \<open>One module of a type the client does not know makes the whole search fail.\<close>

lemma one_unknown_type_fails_search:
  assumes "module_search_request p q limit start = Inr rq" and "answer rq = Ended (Returned (ms @ m # ms'))"
    and "wm_type m = Some ''MODULE_TYPE_NEW''"
  shows "grpc_search p answer q limit start = Inl ServiceError"
proof -
  have "read_type (wm_type m) = Inl MissingKey" unfolding assms(3) by code_simp
  then have bad: "module_summary_to_module_info m = Inl MissingKey" by (simp add: module_summary_to_module_info_def)
  have "\<nexists>xs. read_all module_summary_to_module_info (ms @ m # ms') = Inr xs"
    unfolding read_all_Inr using bad by (auto simp: list_all2_append1 list_all2_Cons1)
  then obtain e where e: "read_all module_summary_to_module_info (ms @ m # ms') = Inl e" by (cases "read_all module_summary_to_module_info (ms @ m # ms')") auto
  have "plain (read_all module_summary_to_module_info (ms @ m # ms'))" by (rule plain_read_all) simp
  with e have "handled e = ServiceError" by (auto simp: plain_def)
  with assms(1,2) e show ?thesis by (simp add: grpc_search_def registry_query_def)
qed

end
