(* ===== verification/Grpc_Services.thy ===== *)
theory Grpc_Services
  imports Grpc_Storage Grpc_Registry Setup_Service Registry Filesystem Cost
begin

text \<open>
  The remote clients of the setup, cost, file, secret and user profile services: \<open>services/setup/grpc_setup.py\<close>,
  \<open>cost/grpc_cost.py\<close>, \<open>filesystem/grpc_filesystem.py\<close>, \<open>secret/grpc_secret.py\<close> and \<open>user_profile/grpc_user_profile.py\<close>. Each operation is
  the request it builds and what it makes of the call's end. A message field that is absent is \<open>None\<close>; a field of the wrong Python type
  makes the message's constructor raise \<open>TypeError\<close>.
\<close>

section \<open>Setups\<close>

record version_msg =
  wv_id :: string
  wv_setup :: string
  wv_version :: string
  wv_content :: "pstruct option"
  wv_created :: "real option"

text \<open>\<open>sw_status\<close> and \<open>sw_visibility\<close> are names of the wire's enumerations, \<open>None\<close> for a number that has none.\<close>

record setup_wire =
  sw_id :: string
  sw_name :: string
  sw_organisation :: string
  sw_owner :: string
  sw_module :: string
  sw_current :: "version_msg option"
  sw_status :: "string option"
  sw_visibility :: "string option"

record setup_answer =
  sa_success :: bool
  sa_setup :: setup_wire
  sa_version :: version_msg

datatype setup_rpc =
    GetSetupRq string "string option"
  | CreateSetupRq string pstruct
  | UpdateSetupRq string string pstruct bool
  | DeleteSetupRq string
  | ChangeVisibilityRq string string
  | ListVersionsRq string int int
  | SetCurrentRq string string

definition to_version :: "version_msg \<Rightarrow> setup_version called" where
  "to_version m = (case (wv_content m, wv_created m) of
     (Some fs, Some t) \<Rightarrow> Inr \<lparr>sv_id = wv_id m, sv_setup = wv_setup m, sv_version = wv_version m, sv_content = fs, sv_created = t\<rparr>
   | _ \<Rightarrow> Inl Validation)"

text \<open>\<open>Visibility(...)\<close> of a text.\<close>

definition coerce_visibility :: "string option \<Rightarrow> Visibility called" where
  "coerce_visibility v = (case v of
     None \<Rightarrow> Inl Validation
   | Some s \<Rightarrow> (let k = remove_prefix ''visibility_'' (lower s) in
       if k = '''' then Inr VUnspecified
       else (case find (\<lambda>x. lower (record_visibility_name x) = k) record_visibilities of None \<Rightarrow> Inl Validation | Some x \<Rightarrow> Inr x)))"

definition to_setup_data :: "setup_wire \<Rightarrow> version_msg \<Rightarrow> setup_data called" where
  "to_setup_data m v =
     bind_call (case sw_current m of Some cur \<Rightarrow> Inr cur | None \<Rightarrow> if wv_id v = '''' then Inl ServiceError else Inr v) (\<lambda>cur.
     bind_call (to_version cur) (\<lambda>version.
     bind_call (coerce_visibility (sw_visibility m)) (\<lambda>vis.
       Inr \<lparr>sd_id = sw_id m, sd_name = PStr (sw_name m), sd_organisation = sw_organisation m, sd_owner = sw_owner m, sd_module = sw_module m,
         sd_current = version, sd_status = (case sw_status m of None \<Rightarrow> SetupUnspecified | Some s \<Rightarrow> coerce_setup_status s), sd_visibility = vis\<rparr>)))"

text \<open>The entries of the argument dictionary, an absent one \<open>PNull\<close>.\<close>

fun text_field :: "pvalue \<Rightarrow> string called" where
  "text_field (PStr s) = Inr s"
| "text_field _ = Inl BadValue"

text \<open>The service as a parameter: what it answers to a request.\<close>

definition setup_query_end :: "(setup_rpc \<Rightarrow> setup_answer rpc_end) \<Rightarrow> bool \<Rightarrow> setup_rpc \<Rightarrow> setup_data called" where
  "setup_query_end ask check rq =
     bind_call (awaited (ask rq)) (\<lambda>a. if check \<and> \<not> sa_success a then Inl ServiceError else to_setup_data (sa_setup a) (sa_version a))"

definition remote_get_setup :: "(setup_rpc \<Rightarrow> setup_answer rpc_end) \<Rightarrow> pvalue \<Rightarrow> pvalue \<Rightarrow> setup_data called" where
  "remote_get_setup ask sid version =
     (if \<not> py_true sid then Inl BadValue
      else handle_setup_errors (bind_call (text_field sid) (\<lambda>i.
        bind_call (if py_true version then map_sum id Some (text_field version) else Inr None) (\<lambda>v. setup_query_end ask False (GetSetupRq i v)))))"

definition remote_create_setup :: "(setup_rpc \<Rightarrow> setup_answer rpc_end) \<Rightarrow> pvalue \<Rightarrow> pvalue \<Rightarrow> setup_data called" where
  "remote_create_setup ask name content =
     (case content of
        PStruct fs \<Rightarrow> if \<not> py_true name then Inl BadValue
          else handle_setup_errors (bind_call (text_field name) (\<lambda>n. setup_query_end ask True (CreateSetupRq n fs)))
      | _ \<Rightarrow> Inl BadValue)"

text \<open>\<open>set_as_current\<close> as \<open>bool(setup_dict.get('set_as_current', True))\<close>.\<close>

definition remote_update_setup :: "(setup_rpc \<Rightarrow> setup_answer rpc_end) \<Rightarrow> pvalue \<Rightarrow> pvalue \<Rightarrow> pvalue \<Rightarrow> pvalue option \<Rightarrow> setup_data called" where
  "remote_update_setup ask sid name content set_as_current =
     (case content of
        PStruct fs \<Rightarrow> if \<not> py_true sid \<or> \<not> py_true name then Inl BadValue
          else handle_setup_errors (bind_call (text_field sid) (\<lambda>i. bind_call (text_field name) (\<lambda>n.
            setup_query_end ask True (UpdateSetupRq i n fs (case set_as_current of None \<Rightarrow> True | Some b \<Rightarrow> py_true b)))))
      | _ \<Rightarrow> Inl BadValue)"

definition remote_delete_setup :: "(setup_rpc \<Rightarrow> bool rpc_end) \<Rightarrow> pvalue \<Rightarrow> bool called" where
  "remote_delete_setup ask sid =
     (if \<not> py_true sid then Inl BadValue
      else handle_setup_errors (bind_call (text_field sid) (\<lambda>i. awaited (ask (DeleteSetupRq i)))))"

definition remote_change_visibility :: "(setup_rpc \<Rightarrow> setup_answer rpc_end) \<Rightarrow> pvalue \<Rightarrow> string \<Rightarrow> setup_data called" where
  "remote_change_visibility ask sid visibility =
     (if \<not> py_true sid then Inl BadValue
      else let scope = lower visibility in
        if scope \<notin> {''public'', ''private'', ''internal''} then Inl BadValue
        else handle_setup_errors (bind_call (text_field sid) (\<lambda>i. setup_query_end ask True (ChangeVisibilityRq i (''VISIBILITY_'' @ upper scope)))))"

record versions_answer =
  va_versions :: "version_msg list"
  va_total :: nat
  va_current :: string

definition remote_list_versions :: "(setup_rpc \<Rightarrow> versions_answer rpc_end) \<Rightarrow> pvalue \<Rightarrow> int option \<Rightarrow> int option \<Rightarrow> version_page called" where
  "remote_list_versions ask sid limit start =
     (if \<not> py_true sid then Inl BadValue
      else handle_setup_errors (bind_call (text_field sid) (\<lambda>i.
        bind_call (awaited (ask (ListVersionsRq i (or_int limit 20) (or_int start 0)))) (\<lambda>a.
        bind_call (read_all to_version (va_versions a)) (\<lambda>vs. Inr \<lparr>vp_versions = vs, vp_total = va_total a, vp_current = va_current a\<rparr>)))))"

definition remote_set_current :: "(setup_rpc \<Rightarrow> setup_answer rpc_end) \<Rightarrow> pvalue \<Rightarrow> pvalue \<Rightarrow> setup_data called" where
  "remote_set_current ask sid vid =
     (if \<not> py_true sid \<or> \<not> py_true vid then Inl BadValue
      else handle_setup_errors (bind_call (text_field sid) (\<lambda>i. bind_call (text_field vid) (\<lambda>v. setup_query_end ask True (SetCurrentRq i v)))))"

section \<open>Costs\<close>

record cost_msg =
  wc_cost :: real
  wc_name :: string
  wc_unit :: string
  wc_type :: string
  wc_mission :: string
  wc_rate :: real
  wc_quantity :: real
  wc_setup_version :: string

fun cost_type_name :: "CostType \<Rightarrow> string" where
  "cost_type_name OTHER = ''OTHER''"
| "cost_type_name TOKEN_INPUT = ''TOKEN_INPUT''"
| "cost_type_name TOKEN_OUTPUT = ''TOKEN_OUTPUT''"
| "cost_type_name API_CALL = ''API_CALL''"
| "cost_type_name STORAGE = ''STORAGE''"
| "cost_type_name TIME = ''TIME''"

definition to_cost_msg :: "cost_data \<Rightarrow> cost_msg" where
  "to_cost_msg d = \<lparr>wc_cost = cd_cost d, wc_name = cd_name d, wc_unit = cd_unit d, wc_type = cost_type_name (cd_type d), wc_mission = cd_mission d,
     wc_rate = cd_rate d, wc_quantity = cd_quantity d, wc_setup_version = cd_setup_version d\<rparr>"

definition read_cost :: "cost_msg \<Rightarrow> cost_data called" where
  "read_cost m = (case cost_type_of (wc_type m) of
     None \<Rightarrow> Inl Validation
   | Some t \<Rightarrow> Inr \<lparr>cd_cost = wc_cost m, cd_mission = wc_mission m, cd_name = wc_name m, cd_type = t, cd_unit = wc_unit m, cd_rate = wc_rate m,
       cd_setup_version = wc_setup_version m, cd_quantity = wc_quantity m\<rparr>)"

definition remote_cost_add :: "(cost_msg \<Rightarrow> unit rpc_end) \<Rightarrow> string \<Rightarrow> string \<Rightarrow> real \<Rightarrow> cost_service \<Rightarrow> unit called" where
  "remote_cost_add ask name config_name quantity c = handle_grpc_errors (case od_get (cv_config c) config_name of
     None \<Rightarrow> Inl ServiceError
   | Some cfg \<Rightarrow> awaited (ask (to_cost_msg (cost_record name cfg quantity c))))"

definition remote_cost_get :: "(string \<Rightarrow> string \<Rightarrow> cost_msg list rpc_end) \<Rightarrow> string \<Rightarrow> cost_service \<Rightarrow> cost_data list called" where
  "remote_cost_get ask name c = handle_grpc_errors (bind_call (awaited (ask name (cv_mission c))) (read_all read_cost))"

text \<open>The names of the types are known to the message's constructor, or it raises \<open>ValueError\<close>.\<close>

definition remote_get_filtered ::
    "(string \<Rightarrow> string list \<Rightarrow> string list \<Rightarrow> cost_msg list rpc_end) \<Rightarrow> string list option \<Rightarrow> string list option \<Rightarrow> cost_service \<Rightarrow> cost_data list called" where
  "remote_get_filtered ask names cost_types c = handle_grpc_errors
     (if list_all (\<lambda>t. cost_type_of t \<noteq> None) (or_empty cost_types)
      then bind_call (awaited (ask (cv_mission c) (or_empty names) (or_empty cost_types))) (read_all read_cost)
      else Inl BadValue)"

definition read_cost_config :: "cost_config \<Rightarrow> cost_config called" where
  "read_cost_config m = (case cost_type_of (cc_type m) of None \<Rightarrow> Inl Validation | Some t \<Rightarrow> Inr m)"

definition remote_get_cost_config :: "(string \<Rightarrow> cost_config list rpc_end) \<Rightarrow> cost_service \<Rightarrow> cost_config list called" where
  "remote_get_cost_config ask c = handle_grpc_errors (bind_call (awaited (ask (cv_setup_version c))) (read_all read_cost_config))"

definition remote_set_cost_config :: "(string \<Rightarrow> cost_config list \<Rightarrow> bool rpc_end) \<Rightarrow> cost_config list \<Rightarrow> cost_service \<Rightarrow> bool called" where
  "remote_set_cost_config ask configs c = handle_grpc_errors (awaited (ask (cv_setup_version c) configs))"

section \<open>Files\<close>

text \<open>\<open>known\<close>: the names of the wire's enumeration.\<close>

definition named_enum :: "string \<Rightarrow> string list \<Rightarrow> string \<Rightarrow> string" where
  "named_enum prefix known t =
     (let n = (if starts_with (upper t) prefix then upper t else upper (prefix @ upper t))
      in if n \<in> set known then n else prefix @ ''UNSPECIFIED'')"

definition file_type_to_enum :: "string list \<Rightarrow> string \<Rightarrow> string" where
  "file_type_to_enum = named_enum ''FILE_TYPE_''"

definition file_status_to_enum :: "string list \<Rightarrow> string \<Rightarrow> string" where
  "file_status_to_enum = named_enum ''FILE_STATUS_''"

fun file_context :: "Context \<Rightarrow> string" where
  "file_context SETUP = ''CONTEXT_SETUP''"
| "file_context MISSIONS = ''CONTEXT_MISSIONS''"
| "file_context USERS = ''CONTEXT_USERS''"
| "file_context ORGANIZATIONS = ''CONTEXT_ORGANIZATIONS''"
| "file_context CTX_UNSPECIFIED = ''CONTEXT_UNSPECIFIED''"

record file_msg =
  wf_id :: string
  wf_context :: string
  wf_name :: string
  wf_type :: "string option"
  wf_content_type :: string
  wf_size :: int
  wf_checksum :: string
  wf_metadata :: pstruct
  wf_uri :: string
  wf_url :: string
  wf_status :: "string option"
  wf_content :: string
  wf_visibility :: "string option"

definition named :: "string option \<Rightarrow> string called" where
  "named v = (case v of None \<Rightarrow> Inl BadValue | Some n \<Rightarrow> Inr n)"

definition file_proto_to_data :: "file_msg \<Rightarrow> pstruct file_record called" where
  "file_proto_to_data m =
     bind_call (named (wf_type m)) (\<lambda>ty.
     bind_call (named (wf_status m)) (\<lambda>st.
     bind_call (read_record_visibility (wf_visibility m)) (\<lambda>vis.
       Inr \<lparr>fr_id = wf_id m, fr_context = wf_context m, fr_name = wf_name m, fr_file_type = ty, fr_content_type = wf_content_type m, fr_size = wf_size m,
         fr_checksum = wf_checksum m, fr_metadata = Some (wf_metadata m), fr_uri = wf_uri m, fr_url = wf_url m, fr_status = st,
         fr_content = Some (wf_content m), fr_visibility = vis\<rparr>)))"

record upload_msg =
  um_context :: string
  um_name :: string
  um_type :: string
  um_content_type :: string
  um_content :: string
  um_metadata :: "pstruct option"
  um_status :: string
  um_replace :: bool
  um_visibility :: string

definition upload_to_msg :: "string list \<Rightarrow> pstruct upload \<Rightarrow> upload_msg" where
  "upload_to_msg types f = \<lparr>um_context = ''CONTEXT_MISSIONS'', um_name = ul_name f, um_type = file_type_to_enum types (ul_file_type f),
     um_content_type = (case ul_content_type f of None \<Rightarrow> ''application/octet-stream'' | Some t \<Rightarrow> if t = '''' then ''application/octet-stream'' else t),
     um_content = ul_content f, um_metadata = (case ul_metadata f of None \<Rightarrow> None | Some fs \<Rightarrow> if fs = [] then None else Some fs),
     um_status = ''FILE_STATUS_UPLOADING'', um_replace = ul_replace f, um_visibility = visibility_enum (ul_visibility f)\<rparr>"

record upload_answer =
  ua_results :: "file_msg option list"
  ua_uploaded :: nat
  ua_failed :: nat

definition remote_upload_files ::
    "string list \<Rightarrow> (upload_msg list \<Rightarrow> upload_answer rpc_end) \<Rightarrow> pstruct upload list \<Rightarrow> (pstruct file_record list \<times> nat \<times> nat) called" where
  "remote_upload_files types ask files = handle_grpc_errors
     (bind_call (awaited (ask (map (upload_to_msg types) files))) (\<lambda>a.
      bind_call (read_all file_proto_to_data (filter_map id (ua_results a))) (\<lambda>rs. Inr (rs, ua_uploaded a, ua_failed a))))"

definition remote_get_file :: "(string \<Rightarrow> string \<Rightarrow> bool \<Rightarrow> file_msg rpc_end) \<Rightarrow> string \<Rightarrow> Context \<Rightarrow> bool \<Rightarrow> pstruct file_record called" where
  "remote_get_file ask file_id ctx include_content = handle_grpc_errors
     (bind_call (awaited (ask (file_context ctx) file_id include_content)) file_proto_to_data)"

text \<open>The fields of a filter the client passes on as they are stay in \<open>fm_fields\<close>.\<close>

record filter_msg =
  fm_fields :: file_filter
  fm_types :: "string list"
  fm_status :: "string option"
  fm_context :: string
  fm_visibilities :: "string list"

definition filter_to_proto :: "string list \<Rightarrow> string list \<Rightarrow> Context \<Rightarrow> file_filter \<Rightarrow> filter_msg" where
  "filter_to_proto types statuses ctx f = \<lparr>fm_fields = f\<lparr>ff_types := None, ff_status := None, ff_visibilities := None\<rparr>,
     fm_types = map (file_type_to_enum types) (or_empty (ff_types f)),
     fm_status = (case ff_status f of None \<Rightarrow> None | Some s \<Rightarrow> if s = '''' then None else Some (file_status_to_enum statuses s)),
     fm_context = file_context ctx, fm_visibilities = map visibility_enum (or_empty (ff_visibilities f))\<rparr>"

record files_request =
  fq_context :: string
  fq_filter :: filter_msg
  fq_content :: bool
  fq_size :: int
  fq_offset :: int
  fq_order :: "string option"

definition remote_get_files ::
    "string list \<Rightarrow> string list \<Rightarrow> (files_request \<Rightarrow> (file_msg list \<times> nat) rpc_end) \<Rightarrow> Context \<Rightarrow> file_filter \<Rightarrow> int \<Rightarrow> int \<Rightarrow> string option \<Rightarrow> bool
      \<Rightarrow> (pstruct file_record list \<times> nat) called" where
  "remote_get_files types statuses ask ctx f list_size start order include_content = handle_grpc_errors
     (bind_call (awaited (ask \<lparr>fq_context = file_context ctx, fq_filter = filter_to_proto types statuses ctx f, fq_content = include_content,
        fq_size = list_size, fq_offset = start, fq_order = order\<rparr>)) (\<lambda>(ms, n).
      bind_call (read_all file_proto_to_data ms) (\<lambda>rs. Inr (rs, n))))"

record delete_request =
  dq_context :: string
  dq_filter :: filter_msg
  dq_permanent :: bool
  dq_force :: bool

definition delete_files_request :: "string list \<Rightarrow> string list \<Rightarrow> Context \<Rightarrow> file_filter \<Rightarrow> bool \<Rightarrow> bool \<Rightarrow> delete_request" where
  "delete_files_request types statuses ctx f permanent force =
     \<lparr>dq_context = ''CONTEXT_MISSIONS'', dq_filter = filter_to_proto types statuses ctx f, dq_permanent = permanent, dq_force = force\<rparr>"

definition remote_delete_files ::
    "string list \<Rightarrow> string list \<Rightarrow> (delete_request \<Rightarrow> ((string, bool) odict \<times> nat \<times> nat) rpc_end) \<Rightarrow> Context \<Rightarrow> file_filter \<Rightarrow> bool \<Rightarrow> bool
      \<Rightarrow> ((string, bool) odict \<times> nat \<times> nat) called" where
  "remote_delete_files types statuses ask ctx f permanent force = handle_grpc_errors (awaited (ask (delete_files_request types statuses ctx f permanent force)))"

record update_msg =
  uw_context :: string
  uw_id :: string
  uw_content :: "string option"
  uw_type :: "string option"
  uw_content_type :: "string option"
  uw_new_name :: "string option"
  uw_status :: "string option"
  uw_visibility :: string
  uw_metadata :: "pstruct option"

definition update_to_msg :: "string list \<Rightarrow> string list \<Rightarrow> string \<Rightarrow> pstruct file_update \<Rightarrow> update_msg" where
  "update_to_msg types statuses file_id u = \<lparr>uw_context = ''CONTEXT_MISSIONS'', uw_id = file_id, uw_content = fu_content u,
     uw_type = (case fu_file_type u of None \<Rightarrow> None | Some t \<Rightarrow> if t = '''' then None else Some (file_type_to_enum types t)),
     uw_content_type = fu_content_type u, uw_new_name = fu_new_name u,
     uw_status = (case fu_status u of None \<Rightarrow> None | Some s \<Rightarrow> if s = '''' then None else Some (file_status_to_enum statuses s)),
     uw_visibility = visibility_enum (fu_visibility u), uw_metadata = (case fu_metadata u of None \<Rightarrow> None | Some fs \<Rightarrow> if fs = [] then None else Some fs)\<rparr>"

definition remote_update_file ::
    "string list \<Rightarrow> string list \<Rightarrow> (update_msg \<Rightarrow> file_msg rpc_end) \<Rightarrow> string \<Rightarrow> pstruct file_update \<Rightarrow> pstruct file_record called" where
  "remote_update_file types statuses ask file_id u = handle_grpc_errors (bind_call (awaited (ask (update_to_msg types statuses file_id u))) file_proto_to_data)"

section \<open>Secrets and profiles\<close>

definition remote_get_secret :: "(string \<Rightarrow> string \<Rightarrow> (bool \<times> pstruct) rpc_end) \<Rightarrow> string \<Rightarrow> string \<Rightarrow> pstruct option called" where
  "remote_get_secret ask setup_id mission_id = handle_grpc_errors
     (bind_call (awaited (ask setup_id mission_id)) (\<lambda>(success, secret). Inr (if success then Some secret else None)))"

definition remote_get_profile :: "(string \<Rightarrow> (bool \<times> pstruct \<times> real) rpc_end) \<Rightarrow> string \<Rightarrow> pstruct option called" where
  "remote_get_profile ask mission_id = handle_grpc_errors
     (bind_call (awaited (ask mission_id)) (\<lambda>(success, profile, mission_cost).
        Inr (if success then Some (od_set ''mission_cost'' (PNum mission_cost) profile) else None)))"

definition remote_check_access :: "(int \<Rightarrow> string \<Rightarrow> bool rpc_end) \<Rightarrow> int \<Rightarrow> string \<Rightarrow> bool called" where
  "remote_check_access ask resource_type resource_id = handle_grpc_errors (awaited (ask resource_type resource_id))"

text \<open>The local ones.\<close>

definition local_secret :: "(string, pstruct) odict \<Rightarrow> string \<Rightarrow> pstruct option" where
  "local_secret = od_get"

definition local_profile :: "(string, pstruct) odict \<Rightarrow> string \<Rightarrow> pstruct option" where
  "local_profile = od_get"

definition local_access :: "int \<Rightarrow> string \<Rightarrow> bool" where
  "local_access resource_type resource_id = True"

section \<open>What a setup call gives\<close>

text \<open>An answer that gives a setup: the service succeeded, where the client looks, and the answer carries a version.\<close>

definition confirms :: "setup_answer rpc_end \<Rightarrow> bool \<Rightarrow> setup_data \<Rightarrow> bool" where
  "confirms e check d \<longleftrightarrow> (\<exists>a. e = Ended (Returned a) \<and> (check \<longrightarrow> sa_success a) \<and> to_setup_data (sa_setup a) (sa_version a) = Inr d
     \<and> (sw_current (sa_setup a) \<noteq> None \<or> wv_id (sa_version a) \<noteq> '''')
     \<and> to_version (case sw_current (sa_setup a) of None \<Rightarrow> sa_version a | Some v \<Rightarrow> v) = Inr (sd_current d))"

lemma awaited_Inr [simp]: "awaited e = Inr x \<longleftrightarrow> e = Ended (Returned x)"
  by (cases e rule: awaited.cases) auto

lemma to_setup_data_Inr:
  assumes "to_setup_data m v = Inr d"
  shows "(sw_current m \<noteq> None \<or> wv_id v \<noteq> '''') \<and> to_version (case sw_current m of None \<Rightarrow> v | Some cur \<Rightarrow> cur) = Inr (sd_current d)"
  using assms by (cases "sw_current m") (auto simp: to_setup_data_def bind_call_Inr split: if_splits)

lemma setup_query_Inr [simp]: "setup_query_end ask check rq = Inr d \<longleftrightarrow> confirms (ask rq) check d"
proof
  assume "setup_query_end ask check rq = Inr d"
  then obtain a where "ask rq = Ended (Returned a)" "check \<longrightarrow> sa_success a" "to_setup_data (sa_setup a) (sa_version a) = Inr d"
    by (auto simp: setup_query_end_def bind_call_Inr split: if_splits)
  with to_setup_data_Inr [OF this(3)] show "confirms (ask rq) check d" by (simp add: confirms_def)
next
  assume "confirms (ask rq) check d"
  then show "setup_query_end ask check rq = Inr d" by (auto simp: confirms_def setup_query_end_def)
qed

lemma text_field_Inr [simp]: "text_field v = Inr s \<longleftrightarrow> v = PStr s"
  by (cases v) auto

lemma scope_names: "scope_of v = Some x \<Longrightarrow> ''VISIBILITY_'' @ upper (lower v) = visibility_enum x"
proof -
  have e: "upper ''public'' = ''PUBLIC''" "upper ''private'' = ''PRIVATE''" "upper ''internal'' = ''INTERNAL''" by code_simp+
  show "scope_of v = Some x \<Longrightarrow> ?thesis" by (auto simp: scope_of_def Let_def visibility_enum_def e split: if_splits)
qed

lemma scope_of_None: "scope_of v = None \<longleftrightarrow> lower v \<notin> {''public'', ''private'', ''internal''}"
  by (auto simp: scope_of_def Let_def)

text \<open>
  C32: A change of a setup is reported as done only if the service confirmed it. If the client returns a setup after a creation, an update, a
  change of visibility or an activation, it sent exactly the arguments it was given, the service answered with success, and the setup has the
  version that came with it; a visibility other than the three scopes is never sent, whatever the service would answer.
\<close>

theorem setup_writes_confirmed:
  shows "(remote_create_setup ask name content = Inr d \<longrightarrow>
        (\<exists>n fs. name = PStr n \<and> n \<noteq> '''' \<and> content = PStruct fs \<and> confirms (ask (CreateSetupRq n fs)) True d))
    \<and> (remote_update_setup ask sid name content cur = Inr d \<longrightarrow>
        (\<exists>i n fs. sid = PStr i \<and> i \<noteq> '''' \<and> name = PStr n \<and> n \<noteq> '''' \<and> content = PStruct fs
          \<and> confirms (ask (UpdateSetupRq i n fs (case cur of None \<Rightarrow> True | Some b \<Rightarrow> py_true b))) True d))
    \<and> (remote_change_visibility ask sid scope = Inr d \<longrightarrow>
        (\<exists>i v. sid = PStr i \<and> i \<noteq> '''' \<and> scope_of scope = Some v \<and> confirms (ask (ChangeVisibilityRq i (visibility_enum v))) True d))
    \<and> (remote_set_current ask sid vid = Inr d \<longrightarrow>
        (\<exists>i v. sid = PStr i \<and> i \<noteq> '''' \<and> vid = PStr v \<and> v \<noteq> '''' \<and> confirms (ask (SetCurrentRq i v)) True d))
    \<and> (scope_of scope = None \<longrightarrow> remote_change_visibility ask sid scope = Inl BadValue)"
proof (intro conjI impI)
  assume a: "remote_create_setup ask name content = Inr d"
  then obtain fs where c: "content = PStruct fs" by (cases content) (simp_all add: remote_create_setup_def)
  with a have t: "py_true name" by (simp add: remote_create_setup_def split: if_splits)
  with a c obtain n where "name = PStr n" "confirms (ask (CreateSetupRq n fs)) True d"
    by (simp only: remote_create_setup_def pvalue.case simp_thms if_False handle_Inr bind_call_Inr text_field_Inr setup_query_Inr) blast
  with c t show "\<exists>n fs. name = PStr n \<and> n \<noteq> '''' \<and> content = PStruct fs \<and> confirms (ask (CreateSetupRq n fs)) True d"
    by (intro exI [of _ n] exI [of _ fs]) simp
next
  let ?cur = "case cur of None \<Rightarrow> True | Some b \<Rightarrow> py_true b"
  assume a: "remote_update_setup ask sid name content cur = Inr d"
  then obtain fs where c: "content = PStruct fs" by (cases content) (simp_all add: remote_update_setup_def)
  with a have t: "py_true sid" "py_true name" by (simp_all add: remote_update_setup_def split: if_splits)
  with a c obtain i n where "sid = PStr i" "name = PStr n" "confirms (ask (UpdateSetupRq i n fs ?cur)) True d"
    by (simp only: remote_update_setup_def pvalue.case simp_thms if_False handle_Inr bind_call_Inr text_field_Inr setup_query_Inr) blast
  with c t show "\<exists>i n fs. sid = PStr i \<and> i \<noteq> '''' \<and> name = PStr n \<and> n \<noteq> '''' \<and> content = PStruct fs
      \<and> confirms (ask (UpdateSetupRq i n fs ?cur)) True d"
    by (intro exI [of _ i] exI [of _ n] exI [of _ fs]) simp
next
  assume a: "remote_change_visibility ask sid scope = Inr d"
  then obtain v where v: "scope_of scope = Some v"
    by (cases "scope_of scope") (auto simp: remote_change_visibility_def scope_of_None Let_def split: if_splits)
  have "handle_setup_errors (bind_call (text_field sid) (\<lambda>i. setup_query_end ask True (ChangeVisibilityRq i (visibility_enum v)))) = Inr d \<and> py_true sid"
    using a v unfolding remote_change_visibility_def Let_def scope_names [OF v] by (simp split: if_splits)
  then obtain i where "sid = PStr i" "confirms (ask (ChangeVisibilityRq i (visibility_enum v))) True d" "py_true sid"
    by (simp only: handle_Inr bind_call_Inr text_field_Inr setup_query_Inr) blast
  with v show "\<exists>i v. sid = PStr i \<and> i \<noteq> '''' \<and> scope_of scope = Some v \<and> confirms (ask (ChangeVisibilityRq i (visibility_enum v))) True d"
    by (intro exI [of _ i] exI [of _ v]) simp
next
  assume a: "remote_set_current ask sid vid = Inr d"
  then have t: "py_true sid" "py_true vid" by (simp_all add: remote_set_current_def split: if_splits)
  with a obtain i v where "sid = PStr i" "vid = PStr v" "confirms (ask (SetCurrentRq i v)) True d"
    by (simp only: remote_set_current_def simp_thms if_False handle_Inr bind_call_Inr text_field_Inr setup_query_Inr) blast
  with t show "\<exists>i v. sid = PStr i \<and> i \<noteq> '''' \<and> vid = PStr v \<and> v \<noteq> '''' \<and> confirms (ask (SetCurrentRq i v)) True d"
    by (intro exI [of _ i] exI [of _ v]) simp
next
  assume "scope_of scope = None"
  then show "remote_change_visibility ask sid scope = Inl BadValue" by (simp add: remote_change_visibility_def scope_of_None Let_def)
qed

definition version_demo :: version_msg where
  "version_demo = \<lparr>wv_id = ''v1'', wv_setup = ''s1'', wv_version = ''1.0.0'', wv_content = Some [], wv_created = Some 0\<rparr>"

definition answer_demo :: setup_answer where
  "answer_demo = \<lparr>sa_success = True, sa_setup = \<lparr>sw_id = ''s1'', sw_name = ''maps'', sw_organisation = '''', sw_owner = '''', sw_module = ''m'',
     sw_current = None, sw_status = Some ''READY'', sw_visibility = Some ''VISIBILITY_PUBLIC''\<rparr>, sa_version = version_demo\<rparr>"

theorem setup_writes_confirmed_witness:
  "\<exists>d. remote_change_visibility (\<lambda>_. Ended (Returned answer_demo)) (PStr ''s1'') ''Public'' = Inr d
    \<and> confirms (Ended (Returned answer_demo)) True d"
proof -
  have "\<not> isl (remote_change_visibility (\<lambda>_. Ended (Returned answer_demo)) (PStr ''s1'') ''Public'')" by code_simp
  then obtain d where d: "remote_change_visibility (\<lambda>_. Ended (Returned answer_demo)) (PStr ''s1'') ''Public'' = Inr d"
    by (cases "remote_change_visibility (\<lambda>_. Ended (Returned answer_demo)) (PStr ''s1'') ''Public''") auto
  from setup_writes_confirmed [of "\<lambda>_. Ended (Returned answer_demo)" "PStr ''m''" PNull d "PStr ''s1''" None "''Public''" PNull] d show ?thesis by blast
qed

text \<open>What is sent for a setup comes back as it.\<close>

definition version_to_wire :: "setup_version \<Rightarrow> version_msg" where
  "version_to_wire v = \<lparr>wv_id = sv_id v, wv_setup = sv_setup v, wv_version = sv_version v, wv_content = Some (sv_content v), wv_created = Some (sv_created v)\<rparr>"

definition setup_to_wire :: "bool \<Rightarrow> setup_data \<Rightarrow> setup_wire" where
  "setup_to_wire embedded d = \<lparr>sw_id = sd_id d, sw_name = string_value (sd_name d), sw_organisation = sd_organisation d, sw_owner = sd_owner d,
     sw_module = sd_module d, sw_current = (if embedded then Some (version_to_wire (sd_current d)) else None),
     sw_status = Some (upper (status_value (sd_status d))), sw_visibility = Some (visibility_enum (sd_visibility d))\<rparr>"

lemma status_back: "coerce_setup_status (upper (status_value st)) = st"
  by (cases st) (simp only: status_value.simps, code_simp)+

lemma visibility_back: "coerce_visibility (Some (visibility_enum v)) = Inr v"
  by (cases v) (simp only:, code_simp)+

lemma version_back: "to_version (version_to_wire v) = Inr v"
  by (simp add: to_version_def version_to_wire_def)

lemma setup_back:
  assumes "sd_name d = PStr n" and "embedded \<or> (v = version_to_wire (sd_current d) \<and> sv_id (sd_current d) \<noteq> '''')"
  shows "to_setup_data (setup_to_wire embedded d) v = Inr d"
proof -
  have w: "wv_id (version_to_wire (sd_current d)) = sv_id (sd_current d)" by (simp add: version_to_wire_def)
  then have "(case sw_current (setup_to_wire embedded d) of Some cur \<Rightarrow> Inr cur | None \<Rightarrow> if wv_id v = '''' then Inl ServiceError else Inr v)
      = Inr (version_to_wire (sd_current d))"
    using assms(2) by (auto simp: setup_to_wire_def)
  then show ?thesis by (simp add: to_setup_data_def version_back) (simp add: setup_to_wire_def status_back visibility_back assms(1))
qed

section \<open>What the other clients give\<close>

lemma cost_type_back: "cost_type_of (cost_type_name t) = Some t"
  by (cases t) simp_all

lemma cost_back: "read_cost (to_cost_msg d) = Inr d"
proof -
  have "wc_type (to_cost_msg d) = cost_type_name (cd_type d)" by (simp add: to_cost_msg_def)
  then show ?thesis by (simp only: read_cost_def cost_type_back option.case) (simp add: to_cost_msg_def)
qed

text \<open>A cost that was accepted is read back as it was recorded, over a service that returns what it was sent.\<close>

lemma remote_cost_back:
  assumes "od_get (cv_config c) config_name = Some cfg" and "costs = map to_cost_msg (ds @ [cost_record name cfg quantity c])"
    and "ask name (cv_mission c) = Ended (Returned (filter (\<lambda>m. wc_name m = name \<and> wc_mission m = cv_mission c) costs))"
  shows "remote_cost_get ask name c
      = Inr (filter (\<lambda>d. cd_name d = name \<and> cd_mission d = cv_mission c) ds @ [cost_record name cfg quantity c])"
proof -
  have f: "filter (\<lambda>m. wc_name m = name \<and> wc_mission m = cv_mission c) (map to_cost_msg xs) = map to_cost_msg (filter (\<lambda>d. cd_name d = name \<and> cd_mission d = cv_mission c) xs)" for xs
    by (induction xs) (auto simp: to_cost_msg_def)
  have b: "read_all read_cost (map to_cost_msg xs) = Inr xs" for xs by (rule read_all_map) (rule cost_back)
  have r: "cd_name (cost_record name cfg quantity c) = name" "cd_mission (cost_record name cfg quantity c) = cv_mission c"
    by (simp_all add: cost_record_def)
  show ?thesis unfolding remote_cost_get_def assms(2,3) f by (simp only: awaited.simps bind_call_simps b handle_simps filter_append filter.simps r simp_thms if_True)
qed

text \<open>Access is granted only if the service says so.\<close>

lemma access_fails_closed: "remote_check_access ask ty i = Inr True \<Longrightarrow> ask ty i = Ended (Returned True)"
  by (simp add: remote_check_access_def)

text \<open>A type that came from the wire is sent as itself, and one the wire does not know is sent as unspecified.\<close>

lemma upper_idem [simp]: "upper (upper s) = upper s"
proof -
  have "to_upper (to_upper c) = to_upper c" for c
  proof (cases "is_lower c")
    case True
    define n :: nat where "n = of_char c"
    have n: "97 \<le> n" "n \<le> 122" using True by (simp_all add: is_lower_def n_def)
    have "(of_char (char_of (n - 32) :: char) :: nat) = n - 32" using n by simp
    then have "\<not> is_lower (to_upper c)" using n True by (simp add: to_upper_def is_lower_def n_def [symmetric])
    then show ?thesis by (simp add: to_upper_def)
  qed (simp add: to_upper_def)
  then show ?thesis by (simp add: upper_def)
qed

lemma named_enum_idem:
  assumes "n \<in> set known" and "upper n = n" and "starts_with n prefix"
  shows "named_enum prefix known n = n"
  using assms by (simp add: named_enum_def Let_def)

lemma unknown_status_unspecified:
  assumes "\<And>n. n \<in> set statuses \<Longrightarrow> n \<noteq> upper (''FILE_STATUS_'' @ upper s)" and "\<not> starts_with (upper s) ''FILE_STATUS_''"
    and "ff_status f = Some s" and "s \<noteq> ''''"
  shows "fm_status (filter_to_proto types statuses ctx f) = Some ''FILE_STATUS_UNSPECIFIED''"
  using assms by (auto simp: filter_to_proto_def file_status_to_enum_def named_enum_def Let_def)

text \<open>The same filter lists the files of a setup and deletes those of the mission.\<close>

lemma listed_are_not_deleted:
  "dq_context (delete_files_request types statuses SETUP f permanent force) = ''CONTEXT_MISSIONS''
    \<and> fm_context (dq_filter (delete_files_request types statuses SETUP f permanent force)) = ''CONTEXT_SETUP''
    \<and> remote_get_files types statuses ask SETUP f n start order content = handle_grpc_errors
       (bind_call (awaited (ask \<lparr>fq_context = ''CONTEXT_SETUP'', fq_filter = dq_filter (delete_files_request types statuses SETUP f permanent force),
          fq_content = content, fq_size = n, fq_offset = start, fq_order = order\<rparr>)) (\<lambda>(ms, k).
        bind_call (read_all file_proto_to_data ms) (\<lambda>rs. Inr (rs, k))))"
  by (simp add: delete_files_request_def filter_to_proto_def remote_get_files_def)

text \<open>A record of the wire is the local one, under the wire's names for its type and status.\<close>

definition file_to_wire :: "string list \<Rightarrow> string list \<Rightarrow> pstruct file_record \<Rightarrow> file_msg" where
  "file_to_wire types statuses r = \<lparr>wf_id = fr_id r, wf_context = fr_context r, wf_name = fr_name r, wf_type = Some (file_type_to_enum types (fr_file_type r)),
     wf_content_type = fr_content_type r, wf_size = fr_size r, wf_checksum = fr_checksum r, wf_metadata = (case fr_metadata r of None \<Rightarrow> [] | Some fs \<Rightarrow> fs),
     wf_uri = fr_uri r, wf_url = fr_url r, wf_status = Some (file_status_to_enum statuses (fr_status r)),
     wf_content = (case fr_content r of None \<Rightarrow> [] | Some b \<Rightarrow> b), wf_visibility = Some (visibility_enum (fr_visibility r))\<rparr>"

lemma file_back: "file_proto_to_data (file_to_wire types statuses r) = Inr (r\<lparr>fr_file_type := file_type_to_enum types (fr_file_type r),
    fr_status := file_status_to_enum statuses (fr_status r), fr_metadata := Some (case fr_metadata r of None \<Rightarrow> [] | Some fs \<Rightarrow> fs),
    fr_content := Some (case fr_content r of None \<Rightarrow> [] | Some b \<Rightarrow> b)\<rparr>)"
  by (simp add: file_proto_to_data_def file_to_wire_def named_def)

end
