(* ===== verification/Clean_Model.thy ===== *)
theory Clean_Model
  imports Setup_Service
begin

text \<open>
  Setup models as they are shown: dynamic fields (\<open>utils/dynamic_schema.py\<close>) and \<open>SetupModel.get_clean_model\<close> with its
  refreshing of nested models (\<open>models/module/setup_types.py\<close>). A class is an entry of a table with its fields, as \<open>model_fields\<close> lists
  them, and its method resolution order; \<open>create_model\<close> computes that of the new class from its bases. A fetcher is named, and its run in one
  call given as the time it takes and its result (\<open>None\<close>: it raises).
\<close>

section \<open>Fetchers\<close>

datatype fetch_error = FetchRaised | FetchTimedOut

record resolve_result =
  rs_values :: "(string, pvalue) odict"
  rs_errors :: "(string, fetch_error) odict"

type_synonym fetch_env = "string \<Rightarrow> real \<times> pvalue option"

text \<open>The fetchers in the order they end, with those that end before the limit.\<close>

definition fetch_runs :: "fetch_env \<Rightarrow> (string \<times> string) list \<Rightarrow> (string \<times> real \<times> pvalue option) list" where
  "fetch_runs env fetchers = sort_key (\<lambda>(k, t, r). t) (map (\<lambda>(k, f). (k, env f)) fetchers)"

definition in_time :: "real option \<Rightarrow> (string \<times> real \<times> pvalue option) list \<Rightarrow> (string \<times> real \<times> pvalue option) list" where
  "in_time limit runs = (case limit of None \<Rightarrow> runs | Some l \<Rightarrow> filter (\<lambda>(k, t, r). t < l) runs)"

definition resolve_safe :: "fetch_env \<Rightarrow> real option \<Rightarrow> (string \<times> string) list \<Rightarrow> resolve_result" where
  "resolve_safe env limit fetchers =
     (let ended = in_time limit (fetch_runs env fetchers)
      in \<lparr>rs_values = filter_map (\<lambda>(k, t, r). map_option (Pair k) r) ended,
          rs_errors = map (\<lambda>(k, t, r). (k, FetchRaised)) (filter (\<lambda>(k, t, r). r = None) ended)
            @ map (\<lambda>k. (k, FetchTimedOut)) (filter (\<lambda>k. k \<notin> fst ` set ended) (map fst fetchers))\<rparr>)"

definition rs_success :: "resolve_result \<Rightarrow> bool" where
  "rs_success r \<longleftrightarrow> rs_errors r = []"

definition rs_partial :: "resolve_result \<Rightarrow> bool" where
  "rs_partial r \<longleftrightarrow> rs_values r \<noteq> [] \<and> rs_errors r \<noteq> []"

datatype resolve_outcome = Resolved "(string, pvalue) odict" | FirstFailed string | ResolveTimeout

definition resolve_all :: "fetch_env \<Rightarrow> real option \<Rightarrow> (string \<times> string) list \<Rightarrow> resolve_outcome" where
  "resolve_all env limit fetchers =
     (let ended = in_time limit (fetch_runs env fetchers)
      in case find (\<lambda>(k, t, r). r = None) ended of
           Some (k, t, r) \<Rightarrow> FirstFailed k
         | None \<Rightarrow> if length ended < length fetchers then ResolveTimeout
             else Resolved (filter_map (\<lambda>(k, f). map_option (Pair k) (snd (env f))) fetchers))"

section \<open>Classes and annotations\<close>

text \<open>What \<open>json_schema_extra\<close> is.\<close>

datatype extra = ExtraNone | ExtraDict pstruct | ExtraCallable

text \<open>
  \<open>TClass\<close> is a class of the table, a subclass of \<open>BaseModel\<close>; \<open>TNew\<close> one that a refresh has made. The type arguments
  the code looks at are written out, any other type is an atom. A field has its annotation, its extra and the fetchers of its
  \<open>DynamicField\<close>, if it has one.
\<close>

datatype ann =
    TAtom string
  | TNone
  | TEllipsis
  | TClass string
  | TNew string "(string \<times> fld) list"
  | TList ann
  | TSet ann
  | TFrozenSet ann
  | TDict ann ann
  | TTuple "ann list"
  | TUnion "ann list"
and fld = Fld (fld_ann: ann) (fld_extra: extra) (fld_dynamic: "(string \<times> string) list option")

record pyclass =
  pc_name :: string
  pc_bases :: "string list"
  pc_mro :: "string list"
  pc_fields :: "(string, fld) odict"

type_synonym class_table = "string \<Rightarrow> pyclass option"

text \<open>The merge of the method resolution orders of the bases; \<open>None\<close> is Python's \<open>TypeError\<close>.\<close>

definition good_head :: "string list list \<Rightarrow> string option" where
  "good_head seqs = find (\<lambda>h. \<forall>s\<in>set seqs. h \<notin> set (tl s)) (map hd seqs)"

fun merge_mro :: "nat \<Rightarrow> string list list \<Rightarrow> string list option" where
  "merge_mro 0 seqs = (if filter (\<lambda>s. s \<noteq> []) seqs = [] then Some [] else None)"
| "merge_mro (Suc n) seqs =
     (let ss = filter (\<lambda>s. s \<noteq> []) seqs
      in if ss = [] then Some []
         else case good_head ss of
           None \<Rightarrow> None
         | Some h \<Rightarrow> map_option (Cons h) (merge_mro n (map (\<lambda>s. if hd s = h then tl s else s) ss)))"

definition mro_of :: "class_table \<Rightarrow> string \<Rightarrow> string list" where
  "mro_of classes c = (case classes c of None \<Rightarrow> [c] | Some k \<Rightarrow> pc_mro k)"

definition bases_mro :: "class_table \<Rightarrow> string list \<Rightarrow> string list option" where
  "bases_mro classes bases = merge_mro (sum_list (map (\<lambda>b. length (mro_of classes b)) bases) + length bases) (map (mro_of classes) bases @ [bases])"

datatype model_exc = StackExhausted | InconsistentMro

text \<open>\<open>(root, *extra_bases)\<close>: the bases of the class made for \<open>c\<close>.\<close>

definition new_bases :: "string \<Rightarrow> pyclass \<Rightarrow> string list" where
  "new_bases base c = base # filter (\<lambda>b. b \<noteq> base) (pc_bases c)"

section \<open>Refreshing\<close>

definition refresh_field_schema :: "fetch_env \<Rightarrow> fld \<Rightarrow> fld" where
  "refresh_field_schema env f =
     (let result = resolve_safe env None (case fld_dynamic f of None \<Rightarrow> [] | Some fs \<Rightarrow> fs)
      in if rs_values result = [] then f
         else Fld (fld_ann f) (ExtraDict (fold (\<lambda>(k, v) d. od_set k v d) (rs_values result) (case fld_extra f of ExtraDict e \<Rightarrow> e | _ \<Rightarrow> []))) None)"

definition check_base_model :: "ann \<Rightarrow> string option" where
  "check_base_model a = (case a of TClass c \<Rightarrow> Some c | _ \<Rightarrow> None)"

definition find_all_base_models :: "ann list \<Rightarrow> string list" where
  "find_all_base_models args = filter_map check_base_model args"

definition find_base_model :: "ann list \<Rightarrow> string option" where
  "find_base_model args = (case find_all_base_models args of [] \<Rightarrow> None | c # cs \<Rightarrow> Some c)"

fun get_base_model_type :: "ann \<Rightarrow> string option" where
  "get_base_model_type (TClass c) = Some c"
| "get_base_model_type (TUnion args) = find_base_model args"
| "get_base_model_type (TList a) = check_base_model a"
| "get_base_model_type (TSet a) = check_base_model a"
| "get_base_model_type (TFrozenSet a) = check_base_model a"
| "get_base_model_type (TDict k v) = check_base_model v"
| "get_base_model_type (TTuple args) = find_base_model args"
| "get_base_model_type _ = None"

definition swap :: "string \<Rightarrow> ann \<Rightarrow> ann \<Rightarrow> ann" where
  "swap c new a = (if a = TClass c then new else a)"

fun rebuild_generic :: "ann \<Rightarrow> string \<Rightarrow> ann \<Rightarrow> ann" where
  "rebuild_generic (TList a) c new = TList (swap c new a)"
| "rebuild_generic (TSet a) c new = TSet (swap c new a)"
| "rebuild_generic (TFrozenSet a) c new = TFrozenSet (swap c new a)"
| "rebuild_generic (TDict k v) c new = TDict (swap c new k) (swap c new v)"
| "rebuild_generic (TTuple args) c new = TTuple (map (swap c new) args)"
| "rebuild_generic _ c new = new"

text \<open>\<open>nested\<close> refreshes a class: \<open>None\<close> if nothing changes.\<close>

type_synonym refresher = "string \<Rightarrow> model_exc + ann option"

fun replacements :: "refresher \<Rightarrow> string list \<Rightarrow> model_exc + (string, ann) odict" where
  "replacements nested [] = Inr []"
| "replacements nested (c # cs) = (case nested c of
     Inl e \<Rightarrow> Inl e
   | Inr r \<Rightarrow> (case replacements nested cs of
       Inl e \<Rightarrow> Inl e
     | Inr rs \<Rightarrow> Inr (case r of None \<Rightarrow> rs | Some new \<Rightarrow> (c, new) # rs)))"

definition refresh_union_variants :: "refresher \<Rightarrow> ann \<Rightarrow> model_exc + ann option" where
  "refresh_union_variants nested a = (case a of
     TUnion args \<Rightarrow>
       (let models = find_all_base_models args in
        if length models \<le> 1 then Inr None
        else case replacements nested models of
          Inl e \<Rightarrow> Inl e
        | Inr rs \<Rightarrow> if rs = [] then Inr None
            else Inr (Some (TUnion (map (\<lambda>x. case check_base_model x of None \<Rightarrow> x | Some c \<Rightarrow> (case od_get rs c of None \<Rightarrow> x | Some new \<Rightarrow> new)) args))))
   | _ \<Rightarrow> Inr None)"

definition refresh_annotation :: "refresher \<Rightarrow> ann \<Rightarrow> model_exc + ann option" where
  "refresh_annotation nested a = (case refresh_union_variants nested a of
     Inl e \<Rightarrow> Inl e
   | Inr (Some a') \<Rightarrow> Inr (Some a')
   | Inr None \<Rightarrow> (case get_base_model_type a of
       None \<Rightarrow> Inr None
     | Some c \<Rightarrow> (case nested c of
         Inl e \<Rightarrow> Inl e
       | Inr None \<Rightarrow> Inr None
       | Inr (Some new) \<Rightarrow> Inr (Some (rebuild_generic a c new)))))"

text \<open>One field: the new one, and whether it changed.\<close>

definition refresh_fld :: "fetch_env \<Rightarrow> refresher \<Rightarrow> fld \<Rightarrow> model_exc + (fld \<times> bool)" where
  "refresh_fld env nested f =
     (let f1 = (if fld_dynamic f \<noteq> None then refresh_field_schema env f else f)
      in case refresh_annotation nested (fld_ann f) of
           Inl e \<Rightarrow> Inl e
         | Inr None \<Rightarrow> Inr (f1, fld_dynamic f \<noteq> None)
         | Inr (Some a) \<Rightarrow> Inr (Fld a (fld_extra f1) (fld_dynamic f1), True))"

fun refresh_flds :: "fetch_env \<Rightarrow> refresher \<Rightarrow> (string \<times> fld) list \<Rightarrow> model_exc + ((string \<times> fld) list \<times> bool)" where
  "refresh_flds env nested [] = Inr ([], False)"
| "refresh_flds env nested ((n, f) # fs) = (case refresh_fld env nested f of
     Inl e \<Rightarrow> Inl e
   | Inr (f', b) \<Rightarrow> (case refresh_flds env nested fs of Inl e \<Rightarrow> Inl e | Inr (fs', b') \<Rightarrow> Inr ((n, f') # fs', b \<or> b')))"

text \<open>The number is what is left of the call stack.\<close>

fun refresh_nested_model :: "class_table \<Rightarrow> fetch_env \<Rightarrow> nat \<Rightarrow> refresher" where
  "refresh_nested_model classes env 0 c = Inl StackExhausted"
| "refresh_nested_model classes env (Suc n) c = (case classes c of
     None \<Rightarrow> Inr None
   | Some k \<Rightarrow> (case refresh_flds env (refresh_nested_model classes env n) (pc_fields k) of
       Inl e \<Rightarrow> Inl e
     | Inr (fs, changed) \<Rightarrow>
         if \<not> changed then Inr None
         else if bases_mro classes (new_bases ''BaseModel'' k) = None then Inl InconsistentMro
         else Inr (Some (TNew (pc_name k) fs))))"

section \<open>The model shown\<close>

definition is_config :: "fld \<Rightarrow> bool" where
  "is_config f = (case fld_extra f of ExtraDict e \<Rightarrow> (case od_get e ''config'' of None \<Rightarrow> False | Some v \<Rightarrow> py_true v) | _ \<Rightarrow> False)"

definition is_hidden :: "fld \<Rightarrow> bool" where
  "is_hidden f = (case fld_extra f of ExtraDict e \<Rightarrow> od_get e ''ui:widget'' = Some (PStr ''hidden'') | _ \<Rightarrow> False)"

definition shown :: "bool \<Rightarrow> bool \<Rightarrow> fld \<Rightarrow> bool" where
  "shown config_fields hidden_fields f \<longleftrightarrow> (is_config f \<longrightarrow> config_fields) \<and> (is_hidden f \<longrightarrow> hidden_fields)"

text \<open>The fields a new class inherits: those of its bases, a later base first.\<close>

definition inherited :: "class_table \<Rightarrow> string list \<Rightarrow> (string, fld) odict" where
  "inherited classes bases = fold (\<lambda>b d. case classes b of None \<Rightarrow> d | Some k \<Rightarrow> fold (\<lambda>(n, f) d. od_set n f d) (pc_fields k) d) (rev bases) []"

definition remove_excluded :: "string list \<Rightarrow> (string, fld) odict \<Rightarrow> (string, fld) odict \<Rightarrow> (string, fld) odict" where
  "remove_excluded excluded clean all_fields = filter (\<lambda>(n, f). \<not> (n \<in> set excluded \<and> \<not> od_has clean n)) all_fields"

definition make_clean :: "class_table \<Rightarrow> fetch_env \<Rightarrow> nat \<Rightarrow> pyclass \<Rightarrow> bool \<Rightarrow> bool \<Rightarrow> bool \<Rightarrow> model_exc + (string, fld) odict" where
  "make_clean classes env stack k config_fields hidden_fields force =
     (let kept = filter (\<lambda>(n, f). shown config_fields hidden_fields f) (pc_fields k);
          excluded = map fst (filter (\<lambda>(n, f). \<not> shown config_fields hidden_fields f) (pc_fields k))
      in case (if force then refresh_flds env (refresh_nested_model classes env stack) kept else Inr (kept, False)) of
           Inl e \<Rightarrow> Inl e
         | Inr (clean, changed) \<Rightarrow>
             if bases_mro classes (new_bases ''SetupModel'' k) = None then Inl InconsistentMro
             else Inr (remove_excluded excluded clean (fold (\<lambda>(n, f) d. od_set n f d) clean (inherited classes (new_bases ''SetupModel'' k)))))"

type_synonym clean_cache = "(string \<times> bool \<times> bool, (string, fld) odict) odict"

definition clean_cache_max :: nat where
  "clean_cache_max = 64"

definition get_clean_model ::
    "class_table \<Rightarrow> fetch_env \<Rightarrow> nat \<Rightarrow> string \<Rightarrow> pyclass \<Rightarrow> bool \<Rightarrow> bool \<Rightarrow> bool \<Rightarrow> clean_cache
      \<Rightarrow> (model_exc + (string, fld) odict) \<times> clean_cache" where
  "get_clean_model classes env stack c k config_fields hidden_fields force cache =
     (case (if force then None else od_get cache (c, config_fields, hidden_fields)) of
        Some m \<Rightarrow> (Inr m, cache)
      | None \<Rightarrow> (case make_clean classes env stack k config_fields hidden_fields force of
          Inl e \<Rightarrow> (Inl e, cache)
        | Inr m \<Rightarrow> (Inr m, if force then cache
            else od_set (c, config_fields, hidden_fields) m (if clean_cache_max \<le> length cache then tl cache else cache))))"

definition clear_clean_model_cache :: "clean_cache \<Rightarrow> clean_cache" where
  "clear_clean_model_cache cache = []"

section \<open>Fetchers are all accounted for\<close>

definition ended_runs :: "fetch_env \<Rightarrow> real option \<Rightarrow> (string \<times> string) list \<Rightarrow> (string \<times> real \<times> pvalue option) list" where
  "ended_runs env limit fetchers = in_time limit (fetch_runs env fetchers)"

lemma fetch_runs_iff: "(k, t, r) \<in> set (fetch_runs env fetchers) \<longleftrightarrow> (\<exists>f. (k, f) \<in> set fetchers \<and> env f = (t, r))"
  unfolding fetch_runs_def set_sort by (induction fetchers) auto

lemma ended_iff: "(k, t, r) \<in> set (ended_runs env limit fetchers)
    \<longleftrightarrow> (\<exists>f. (k, f) \<in> set fetchers \<and> env f = (t, r) \<and> (\<forall>l. limit = Some l \<longrightarrow> t < l))"
  by (cases limit) (auto simp: ended_runs_def in_time_def fetch_runs_iff)

lemma ended_length: "length (ended_runs env limit fetchers) \<le> length fetchers"
proof -
  have "length (filter P (fetch_runs env fetchers)) \<le> length fetchers" for P
    using length_filter_le [of P "fetch_runs env fetchers"] by (simp add: fetch_runs_def)
  then show ?thesis by (cases limit) (simp_all add: ended_runs_def in_time_def fetch_runs_def)
qed

lemma ended_distinct: "distinct (map fst fetchers) \<Longrightarrow> distinct (map fst (ended_runs env limit fetchers))"
proof -
  assume "distinct (map fst fetchers)"
  then have "distinct (map fst (map (\<lambda>(k, f). (k, env f)) fetchers))" by (simp add: comp_def case_prod_unfold)
  then have "distinct (map fst (fetch_runs env fetchers))"
    unfolding fetch_runs_def distinct_map [of fst "sort_key _ _"] set_sort distinct_sort by (simp only: distinct_map)
  then show ?thesis by (cases limit) (auto simp: ended_runs_def in_time_def distinct_map_filter)
qed

lemma resolve_safe_values:
  "(k, v) \<in> set (rs_values (resolve_safe env limit fetchers)) \<longleftrightarrow> (\<exists>t. (k, t, Some v) \<in> set (ended_runs env limit fetchers))"
proof -
  have "(k, v) \<in> set (filter_map (\<lambda>(k, t, r). map_option (Pair k) r) xs) \<longleftrightarrow> (\<exists>t. (k, t, Some v) \<in> set xs)" for xs :: "(string \<times> real \<times> pvalue option) list"
    by (induction xs) (auto split: option.splits)
  then show ?thesis by (simp add: resolve_safe_def ended_runs_def Let_def)
qed

lemma resolve_safe_errors:
  "(k, e) \<in> set (rs_errors (resolve_safe env limit fetchers)) \<longleftrightarrow> (e = FetchRaised \<and> (\<exists>t. (k, t, None) \<in> set (ended_runs env limit fetchers)))
     \<or> (e = FetchTimedOut \<and> k \<in> fst ` set fetchers \<and> k \<notin> fst ` set (ended_runs env limit fetchers))"
proof -
  have "(k, e) \<in> set (map (\<lambda>(k, t, r). (k, FetchRaised)) (filter (\<lambda>(k, t, r). r = None) xs)) \<longleftrightarrow> e = FetchRaised \<and> (\<exists>t. (k, t, None) \<in> set xs)"
    for xs :: "(string \<times> real \<times> pvalue option) list"
    by (induction xs) auto
  then show ?thesis unfolding resolve_safe_def Let_def ended_runs_def resolve_result.simps set_append Un_iff by auto
qed

text \<open>
  Every fetcher of a field is accounted for once. Whatever the fetchers do and whatever the time limit, each key is either among the
  values, with what its own fetcher returned in time, or among the errors; without a limit only a fetcher that raises is an error, and
  resolving all at once succeeds exactly when resolving safely has no error, with the same values.
\<close>

theorem fetchers_accounted_for:
  assumes "distinct (map fst fetchers)" and "r = resolve_safe env limit fetchers"
  shows "fst ` set (rs_values r) \<union> fst ` set (rs_errors r) = fst ` set fetchers
    \<and> fst ` set (rs_values r) \<inter> fst ` set (rs_errors r) = {}
    \<and> (\<forall>k v. (k, v) \<in> set (rs_values r) \<longrightarrow> (\<exists>f. (k, f) \<in> set fetchers \<and> snd (env f) = Some v \<and> (\<forall>l. limit = Some l \<longrightarrow> fst (env f) < l)))
    \<and> (limit = None \<longrightarrow> (\<forall>k e. (k, e) \<in> set (rs_errors r) \<longrightarrow> (\<exists>f. (k, f) \<in> set fetchers \<and> snd (env f) = None)))
    \<and> ((\<exists>vs. resolve_all env limit fetchers = Resolved vs) \<longleftrightarrow> rs_success r)
    \<and> (\<forall>vs. resolve_all env limit fetchers = Resolved vs \<longrightarrow> set vs = set (rs_values r))"
proof -
  let ?E = "ended_runs env limit fetchers" and ?K = "fst ` set fetchers"
  have dE: "distinct (map fst ?E)" by (rule ended_distinct [OF assms(1)])
  have same: "x = y" if "(k, x) \<in> set ?E" "(k, y) \<in> set ?E" for k x y using dE that by (rule eq_key_imp_eq_value)
  have sub: "fst ` set ?E \<subseteq> ?K" by (force simp: ended_iff)
  have vals: "fst ` set (rs_values r) = {k. \<exists>t v. (k, t, Some v) \<in> set ?E}"
  proof (intro set_eqI)
    fix k
    have "k \<in> fst ` set (rs_values r) \<longleftrightarrow> (\<exists>v. (k, v) \<in> set (rs_values r))" by force
    then show "k \<in> fst ` set (rs_values r) \<longleftrightarrow> k \<in> {k. \<exists>t v. (k, t, Some v) \<in> set ?E}"
      unfolding assms(2) resolve_safe_values by auto
  qed
  have errs: "fst ` set (rs_errors r) = {k. \<exists>t. (k, t, None) \<in> set ?E} \<union> (?K - fst ` set ?E)"
  proof (intro set_eqI)
    fix k
    have "k \<in> fst ` set (rs_errors r) \<longleftrightarrow> (\<exists>e. (k, e) \<in> set (rs_errors r))" by force
    then show "k \<in> fst ` set (rs_errors r) \<longleftrightarrow> k \<in> {k. \<exists>t. (k, t, None) \<in> set ?E} \<union> (?K - fst ` set ?E)"
      unfolding assms(2) resolve_safe_errors by auto
  qed
  have all: "k \<in> fst ` set ?E \<longleftrightarrow> (\<exists>t v. (k, t, Some v) \<in> set ?E) \<or> (\<exists>t. (k, t, None) \<in> set ?E)" for k
  proof -
    have "k \<in> fst ` set ?E \<longleftrightarrow> (\<exists>t q. (k, t, q) \<in> set ?E)" by force
    also have "\<dots> \<longleftrightarrow> (\<exists>t v. (k, t, Some v) \<in> set ?E) \<or> (\<exists>t. (k, t, None) \<in> set ?E)"
      unfolding split_option_ex by blast
    finally show ?thesis .
  qed
  have union: "fst ` set (rs_values r) \<union> fst ` set (rs_errors r) = ?K"
  proof (intro set_eqI)
    fix k
    show "k \<in> fst ` set (rs_values r) \<union> fst ` set (rs_errors r) \<longleftrightarrow> k \<in> ?K"
      unfolding vals errs Un_iff mem_Collect_eq Diff_iff using all [of k] sub by blast
  qed
  have disj: "fst ` set (rs_values r) \<inter> fst ` set (rs_errors r) = {}"
  proof -
    have False if a: "(k, t, Some v) \<in> set ?E" and b: "(k, t', None) \<in> set ?E" for k t v t' using same [OF a b] by simp
    then show ?thesis unfolding vals errs using all by blast
  qed
  have val: "\<exists>f. (k, f) \<in> set fetchers \<and> snd (env f) = Some v \<and> (\<forall>l. limit = Some l \<longrightarrow> fst (env f) < l)" if "(k, v) \<in> set (rs_values r)" for k v
    using that unfolding assms(2) resolve_safe_values ended_iff by (metis fst_conv snd_conv)
  have err: "\<exists>f. (k, f) \<in> set fetchers \<and> snd (env f) = None" if n: "limit = None" and e: "(k, e) \<in> set (rs_errors r)" for k e
  proof -
    have "?K \<subseteq> fst ` set ?E"
    proof
      fix k assume "k \<in> ?K"
      then obtain f where "(k, f) \<in> set fetchers" by force
      with n have "(k, fst (env f), snd (env f)) \<in> set ?E" unfolding ended_iff by (intro exI [of _ f]) simp
      then show "k \<in> fst ` set ?E" by force
    qed
    with e obtain t where "(k, t, None) \<in> set ?E" unfolding assms(2) resolve_safe_errors by auto
    then show ?thesis unfolding ended_iff by (metis snd_conv)
  qed
  have none: "find (\<lambda>(k, t, r). r = None) ?E = None \<longleftrightarrow> (\<forall>k t. (k, t, None) \<notin> set ?E)"
    unfolding find_None_iff by force
  have len: "length ?E < length fetchers \<longleftrightarrow> fst ` set ?E \<noteq> ?K"
  proof -
    have "length ?E = card (fst ` set ?E)" using distinct_card [OF dE] by simp
    moreover have "length fetchers = card ?K" using distinct_card [OF assms(1)] by simp
    ultimately show ?thesis using sub psubset_card_mono [of ?K "fst ` set ?E"] by fastforce
  qed
  have ok: "rs_success r \<longleftrightarrow> (\<forall>k t. (k, t, None) \<notin> set ?E) \<and> fst ` set ?E = ?K"
  proof -
    have "rs_success r \<longleftrightarrow> fst ` set (rs_errors r) = {}" by (simp add: rs_success_def)
    then show ?thesis unfolding errs using sub by auto
  qed
  have res: "(\<exists>vs. resolve_all env limit fetchers = Resolved vs) \<longleftrightarrow> rs_success r"
    unfolding ok none [symmetric] using len unfolding resolve_all_def Let_def ended_runs_def by (auto split: option.splits)
  have vs: "set vs = set (rs_values r)" if v: "resolve_all env limit fetchers = Resolved vs" for vs
  proof -
    from v have "vs = filter_map (\<lambda>(k, f). map_option (Pair k) (snd (env f))) fetchers"
      by (auto simp: resolve_all_def Let_def split: option.splits if_splits)
    moreover have "(k, x) \<in> set (filter_map (\<lambda>(k, f). map_option (Pair k) (snd (env f))) fs) \<longleftrightarrow> (\<exists>f. (k, f) \<in> set fs \<and> snd (env f) = Some x)" for k x fs
      by (induction fs) (auto split: option.splits)
    ultimately have vs: "(k, x) \<in> set vs \<longleftrightarrow> (\<exists>f. (k, f) \<in> set fetchers \<and> snd (env f) = Some x)" for k x by simp
    from res v have "rs_success r" by blast
    then have K: "fst ` set ?E = ?K" by (simp add: ok)
    have "(k, x) \<in> set (rs_values r)" if "(k, f) \<in> set fetchers" "snd (env f) = Some x" for k f x
    proof -
      from that(1) have "k \<in> ?K" by force
      with K have "k \<in> fst ` set ?E" by simp
      then obtain t q where e: "(k, t, q) \<in> set ?E" by force
      then obtain f' where f': "(k, f') \<in> set fetchers" "env f' = (t, q)" by (auto simp: ended_iff)
      with that(1) assms(1) have "f' = f" by (metis eq_key_imp_eq_value)
      with e f' that(2) show ?thesis unfolding assms(2) resolve_safe_values by auto
    qed
    with vs val show ?thesis by (metis subset_antisym subrelI)
  qed
  from union disj val err res vs show ?thesis by blast
qed

definition fetchers_demo :: "(string \<times> string) list" where
  "fetchers_demo = [(''enum'', ''list''), (''default'', ''first''), (''title'', ''slow'')]"

definition fetch_demo :: fetch_env where
  "fetch_demo f = (if f = ''list'' then (2, Some (PList [])) else if f = ''first'' then (1, None) else (9, Some (PStr ''x'')))"

theorem fetchers_accounted_for_witness:
  "fst ` set (rs_values (resolve_safe fetch_demo (Some 5) fetchers_demo)) \<union> fst ` set (rs_errors (resolve_safe fetch_demo (Some 5) fetchers_demo))
    = {''enum'', ''default'', ''title''}"
proof -
  have "distinct (map fst fetchers_demo)" by (simp add: fetchers_demo_def)
  from fetchers_accounted_for [OF this refl, of fetch_demo "Some 5"] show ?thesis by (simp add: fetchers_demo_def)
qed

section \<open>What a clean model holds\<close>

lemma assign_all_get: "od_wf xs \<Longrightarrow> od_get (fold (\<lambda>(n, f) d. od_set n f d) xs d) k = (case od_get xs k of None \<Rightarrow> od_get d k | Some f \<Rightarrow> Some f)"
proof (induction xs arbitrary: d)
  case (Cons x xs)
  obtain n f where x: "x = (n, f)" by (cases x)
  from Cons.prems have wf: "od_wf xs" and new: "od_get xs n = None" by (auto simp: x od_wf_def od_get_None_iff)
  from Cons.IH [OF wf] new show ?case by (auto simp: x od_get_Cons split: option.splits)
qed simp

lemma assign_all_wf: "od_wf d \<Longrightarrow> od_wf (fold (\<lambda>(n, f) d. od_set n f d) xs d)"
  by (induction xs arbitrary: d) auto

lemma inherited_wf: "od_wf (inherited classes bases)"
proof -
  have "od_wf d \<Longrightarrow> od_wf (fold (\<lambda>b d. case classes b of None \<Rightarrow> d | Some k \<Rightarrow> fold (\<lambda>(n, f) d. od_set n f d) (pc_fields k) d) bs d)" for bs d
    by (induction bs arbitrary: d) (auto split: option.splits intro: assign_all_wf)
  then show ?thesis by (simp add: inherited_def)
qed

lemma refresh_flds_get: "refresh_flds env nested fs = Inr (fs', b) \<Longrightarrow> map fst fs' = map fst fs
    \<and> (\<forall>n. od_get fs' n = (case od_get fs n of None \<Rightarrow> None | Some f \<Rightarrow> (case refresh_fld env nested f of Inl e \<Rightarrow> None | Inr (f', b) \<Rightarrow> Some f')))"
proof (induction fs arbitrary: fs' b)
  case (Cons x fs)
  obtain n f where x: "x = (n, f)" by (cases x)
  from Cons.prems obtain f' c fs'' c' where f: "refresh_fld env nested f = Inr (f', c)" and fs: "refresh_flds env nested fs = Inr (fs'', c')"
    and fs': "fs' = (n, f') # fs''" by (auto simp: x split: sum.splits prod.splits)
  from Cons.IH [OF fs] f show ?case by (simp add: x fs' od_get_Cons)
qed simp

text \<open>What becomes of a field.\<close>

definition field_shown :: "class_table \<Rightarrow> fetch_env \<Rightarrow> nat \<Rightarrow> bool \<Rightarrow> bool \<Rightarrow> bool \<Rightarrow> fld \<Rightarrow> fld option" where
  "field_shown classes env stack config_fields hidden_fields force f =
     (if \<not> shown config_fields hidden_fields f then None
      else if \<not> force then Some f
      else (case refresh_fld env (refresh_nested_model classes env stack) f of Inl e \<Rightarrow> None | Inr (f', b) \<Rightarrow> Some f'))"

lemma make_clean_fields:
  assumes "make_clean classes env stack k config_fields hidden_fields force = Inr m" and "od_wf (pc_fields k)"
    and "fst ` set (inherited classes (new_bases ''SetupModel'' k)) \<subseteq> fst ` set (pc_fields k)"
  shows "\<forall>n. od_get m n = (case od_get (pc_fields k) n of
       None \<Rightarrow> None | Some f \<Rightarrow> field_shown classes env stack config_fields hidden_fields force f)"
proof
  fix n
  let ?kept = "filter (\<lambda>(n, f). shown config_fields hidden_fields f) (pc_fields k)"
  let ?excl = "map fst (filter (\<lambda>(n, f). \<not> shown config_fields hidden_fields f) (pc_fields k))"
  let ?inh = "inherited classes (new_bases ''SetupModel'' k)"
  obtain clean changed where c: "(if force then refresh_flds env (refresh_nested_model classes env stack) ?kept else Inr (?kept, False)) = Inr (clean, changed)"
    and m: "m = remove_excluded ?excl clean (fold (\<lambda>(n, f) d. od_set n f d) clean ?inh)"
    using assms(1) unfolding make_clean_def Let_def by (auto split: sum.splits prod.splits if_splits)
  have wfk: "od_wf ?kept" using assms(2) by simp
  have names: "map fst clean = map fst ?kept" using c refresh_flds_get by (cases force) auto
  with wfk have wfc: "od_wf clean" by (simp add: od_wf_def)
  have kept: "od_get ?kept n = (case od_get (pc_fields k) n of None \<Rightarrow> None | Some f \<Rightarrow> if shown config_fields hidden_fields f then Some f else None)"
    using od_get_filter [OF assms(2), of "\<lambda>(n, f). shown config_fields hidden_fields f" n] by (simp split: option.splits)
  have cl: "od_get clean n = (case od_get ?kept n of None \<Rightarrow> None | Some f \<Rightarrow> field_shown classes env stack config_fields hidden_fields force f)"
  proof (cases force)
    case True
    with c refresh_flds_get [of env "refresh_nested_model classes env stack" ?kept clean changed] kept show ?thesis
      by (auto simp: field_shown_def split: option.splits if_splits)
  next
    case False
    with c kept show ?thesis by (auto simp: field_shown_def split: option.splits if_splits)
  qed
  have excl: "n \<in> set ?excl \<longleftrightarrow> (\<exists>f. od_get (pc_fields k) n = Some f \<and> \<not> shown config_fields hidden_fields f)"
    using assms(2) by (force simp: od_get_Some_iff)
  have has: "od_has clean n \<longleftrightarrow> od_get ?kept n \<noteq> None"
  proof -
    have "od_get clean n = None \<longleftrightarrow> n \<notin> set (map fst clean)" by (simp add: od_get_None_iff)
    also have "\<dots> \<longleftrightarrow> od_get ?kept n = None" unfolding names by (simp only: od_get_None_iff set_map)
    finally show ?thesis by (simp add: od_has_def)
  qed
  have inh: "od_get (pc_fields k) n = None \<Longrightarrow> od_get ?inh n = None" using assms(3) by (auto simp: od_get_None_iff)
  have get: "od_get m n = (case od_get clean n of Some f \<Rightarrow> Some f
      | None \<Rightarrow> (case od_get ?inh n of None \<Rightarrow> None | Some f \<Rightarrow> if n \<in> set ?excl \<and> \<not> od_has clean n then None else Some f))"
    unfolding m remove_excluded_def od_get_filter [OF assign_all_wf [OF inherited_wf]] assign_all_get [OF wfc]
    by (auto simp: od_has_def split: option.splits)
  show "od_get m n = (case od_get (pc_fields k) n of None \<Rightarrow> None | Some f \<Rightarrow> field_shown classes env stack config_fields hidden_fields force f)"
  proof (cases "od_get (pc_fields k) n")
    case None
    with inh kept cl get show ?thesis by simp
  next
    case (Some f)
    show ?thesis
    proof (cases "shown config_fields hidden_fields f")
      case True
      with Some kept cl has get show ?thesis by (auto simp: od_has_def split: option.splits)
    next
      case False
      with Some kept cl has get excl show ?thesis by (auto simp: field_shown_def split: option.splits)
    qed
  qed
qed

text \<open>
  C34: A clean model has exactly the fields it should. Whatever is asked for, the fields of the model made are those of the class that the
  two flags admit, each as it is or, when a refresh is forced, with its dynamic values and nested models refreshed; a configuration field or a
  hidden one that was not asked for is in no case among them, also not by inheritance, and no field is lost or renamed.
\<close>

theorem clean_model_exact:
  assumes "make_clean classes env stack k config_fields hidden_fields force = Inr m" and "od_wf (pc_fields k)"
    and "fst ` set (inherited classes (new_bases ''SetupModel'' k)) \<subseteq> fst ` set (pc_fields k)"
  shows "\<forall>n. od_get m n = (case od_get (pc_fields k) n of
       None \<Rightarrow> None | Some f \<Rightarrow> field_shown classes env stack config_fields hidden_fields force f)"
  by (rule make_clean_fields [OF assms])

definition setup_model_demo :: pyclass where
  "setup_model_demo = \<lparr>pc_name = ''SetupModel'', pc_bases = [''BaseModel''], pc_mro = [''SetupModel'', ''BaseModel''],
     pc_fields = [(''resolved_tools'', Fld (TAtom ''dict'') (ExtraDict [(''ui:widget'', PStr ''hidden'')]) None)]\<rparr>"

definition agent_setup_demo :: pyclass where
  "agent_setup_demo = \<lparr>pc_name = ''AgentSetup'', pc_bases = [''SetupModel''], pc_mro = [''AgentSetup'', ''SetupModel'', ''BaseModel''],
     pc_fields = pc_fields setup_model_demo @ [(''model'', Fld (TAtom ''str'') ExtraNone (Some [(''enum'', ''list'')])),
       (''key'', Fld (TAtom ''str'') (ExtraDict [(''config'', PBool True)]) None)]\<rparr>"

definition classes_demo :: class_table where
  "classes_demo c = (if c = ''SetupModel'' then Some setup_model_demo else if c = ''AgentSetup'' then Some agent_setup_demo else None)"

theorem clean_model_exact_witness:
  "\<exists>m. make_clean classes_demo fetch_demo 9 agent_setup_demo False False False = Inr m \<and> od_get m ''key'' = None \<and> od_get m ''resolved_tools'' = None
    \<and> od_get m ''model'' = Some (Fld (TAtom ''str'') ExtraNone (Some [(''enum'', ''list'')]))"
proof -
  have wf: "od_wf (pc_fields agent_setup_demo)" by (simp add: od_wf_def agent_setup_demo_def setup_model_demo_def)
  have inh: "fst ` set (inherited classes_demo (new_bases ''SetupModel'' agent_setup_demo)) \<subseteq> fst ` set (pc_fields agent_setup_demo)"
    by (simp add: inherited_def new_bases_def agent_setup_demo_def classes_demo_def setup_model_demo_def od_set_def)
  have "bases_mro classes_demo (new_bases ''SetupModel'' agent_setup_demo) \<noteq> None"
    by (simp add: bases_mro_def new_bases_def agent_setup_demo_def classes_demo_def setup_model_demo_def mro_of_def good_head_def numeral_eq_Suc)
  then obtain m where m: "make_clean classes_demo fetch_demo 9 agent_setup_demo False False False = Inr m"
    by (simp add: make_clean_def Let_def)
  from clean_model_exact [OF m wf inh] m show ?thesis
    by (simp add: agent_setup_demo_def setup_model_demo_def field_shown_def shown_def is_config_def is_hidden_def od_get_Cons)
qed

section \<open>The cache of clean models\<close>

lemma make_clean_static: "make_clean classes env stack k cf hf False = make_clean classes env' stack' k cf hf False"
  by (simp add: make_clean_def)

datatype clean_op = CleanModel fetch_env nat string bool bool bool | ClearCache

definition clean_do :: "class_table \<Rightarrow> clean_op \<Rightarrow> clean_cache \<Rightarrow> (model_exc + (string, fld) odict) option \<times> clean_cache" where
  "clean_do classes p cache = (case p of
     CleanModel env stack c cf hf force \<Rightarrow> (case classes c of
       None \<Rightarrow> (None, cache)
     | Some k \<Rightarrow> apfst Some (get_clean_model classes env stack c k cf hf force cache))
   | ClearCache \<Rightarrow> (None, clear_clean_model_cache cache))"

definition cache_ok :: "class_table \<Rightarrow> clean_cache \<Rightarrow> bool" where
  "cache_ok classes cache \<longleftrightarrow> length cache \<le> clean_cache_max \<and> od_wf cache
     \<and> (\<forall>(key, m) \<in> set cache. case key of (c, cf, hf) \<Rightarrow> \<exists>k. classes c = Some k \<and> make_clean classes (\<lambda>_. (0, None)) 0 k cf hf False = Inr m)"

lemma cache_ok_hit: "cache_ok classes cache \<Longrightarrow> od_get cache (c, cf, hf) = Some m \<Longrightarrow> classes c = Some k
    \<Longrightarrow> make_clean classes env stack k cf hf False = Inr m"
proof -
  assume ok: "cache_ok classes cache" and hit: "od_get cache (c, cf, hf) = Some m" and k: "classes c = Some k"
  from ok hit have "((c, cf, hf), m) \<in> set cache" by (simp add: cache_ok_def od_get_Some_iff)
  with ok k have "make_clean classes (\<lambda>_. (0, None)) 0 k cf hf False = Inr m" by (auto simp: cache_ok_def)
  then show ?thesis unfolding make_clean_static [of classes env stack k cf hf "\<lambda>_. (0, None)" 0] .
qed

lemma cache_ok_put:
  assumes "cache_ok classes cache" and "od_get cache (c, cf, hf) = None" and "classes c = Some k" and "make_clean classes env stack k cf hf False = Inr m"
  shows "cache_ok classes (od_set (c, cf, hf) m (if clean_cache_max \<le> length cache then tl cache else cache))"
proof -
  let ?old = "if clean_cache_max \<le> length cache then tl cache else cache"
  have sub: "set ?old \<subseteq> set cache" by (cases cache) auto
  have "od_get ?old (c, cf, hf) = None" using assms(2) sub by (auto simp: od_get_None_iff)
  then have new: "od_set (c, cf, hf) m ?old = ?old @ [((c, cf, hf), m)]" by (rule od_set_new)
  have len: "length (?old @ [((c, cf, hf), m)]) \<le> clean_cache_max" using assms(1) by (auto simp: cache_ok_def clean_cache_max_def)
  have wf: "od_wf (od_set (c, cf, hf) m ?old)" using assms(1) by (auto simp: cache_ok_def)
  have "make_clean classes (\<lambda>_. (0, None)) 0 k cf hf False = Inr m" using assms(4) make_clean_static by metis
  with assms(1,3) sub len wf show ?thesis unfolding cache_ok_def new by auto
qed

text \<open>
  C35: The cache of clean models never lies. Over any calls, refreshes and clearings in any order it holds at most 64 models; a call that does not
  force a refresh gives what filtering the class afresh would give, whatever was asked before for whichever class, flags or fetchers, and a
  refreshed model is never put there nor taken from there.
\<close>

theorem clean_cache_coherent:
  assumes "cache_ok classes cache" and "clean_do classes p cache = (r, cache')"
  shows "cache_ok classes cache'
    \<and> (\<forall>env stack c cf hf force k. p = CleanModel env stack c cf hf force \<longrightarrow> classes c = Some k \<longrightarrow>
         r = Some (make_clean classes env stack k cf hf force) \<and> (force \<longrightarrow> cache' = cache))"
proof (cases p)
  case (CleanModel env stack c cf hf force)
  show ?thesis
  proof (cases "classes c")
    case (Some k)
    from CleanModel Some assms(2) have g: "(r, cache') = apfst Some (get_clean_model classes env stack c k cf hf force cache)"
      by (simp add: clean_do_def)
    have "cache_ok classes cache' \<and> r = Some (make_clean classes env stack k cf hf force) \<and> (force \<longrightarrow> cache' = cache)"
    proof (cases "od_get cache (c, cf, hf)")
      case (Some m)
      with g cache_ok_hit [OF assms(1) Some \<open>classes c = Some k\<close>, of env stack] assms(1) show ?thesis
        by (cases force) (auto simp: get_clean_model_def split: sum.splits)
    next
      case None
      with g cache_ok_put [OF assms(1) None \<open>classes c = Some k\<close>, of env stack] assms(1) show ?thesis
        by (cases force) (auto simp: get_clean_model_def split: sum.splits)
    qed
    with CleanModel Some show ?thesis by simp
  qed (use CleanModel assms in \<open>simp add: clean_do_def\<close>)
qed (use assms in \<open>auto simp: clean_do_def clear_clean_model_cache_def cache_ok_def od_wf_def\<close>)

theorem clean_cache_coherent_witness:
  "cache_ok classes_demo (snd (clean_do classes_demo (CleanModel fetch_demo 9 ''AgentSetup'' True False False) []))"
proof -
  have "cache_ok classes_demo []" by (simp add: cache_ok_def od_wf_def)
  from clean_cache_coherent [OF this prod.collapse [symmetric]] show ?thesis by blast
qed

section \<open>Refreshing ends and keeps the types\<close>

text \<open>The classes a refresh of an annotation goes into.\<close>

definition entered :: "ann \<Rightarrow> string list" where
  "entered a = (case a of TUnion args \<Rightarrow> find_all_base_models args | _ \<Rightarrow> (case get_base_model_type a of None \<Rightarrow> [] | Some c \<Rightarrow> [c]))"

lemma replacements_cong: "(\<And>c. c \<in> set cs \<Longrightarrow> nested c = nested' c) \<Longrightarrow> replacements nested cs = replacements nested' cs"
  by (induction cs) (simp_all cong: sum.case_cong)

lemma base_model_entered: "get_base_model_type a = Some c \<Longrightarrow> c \<in> set (entered a)"
  by (cases a) (auto simp: entered_def find_base_model_def split: list.splits)

lemma refresh_annotation_cong:
  assumes "\<And>c. c \<in> set (entered a) \<Longrightarrow> nested c = nested' c"
  shows "refresh_annotation nested a = refresh_annotation nested' a"
proof -
  have "refresh_union_variants nested a = refresh_union_variants nested' a"
  proof (cases a)
    case (TUnion args)
    with assms have "replacements nested (find_all_base_models args) = replacements nested' (find_all_base_models args)"
      by (intro replacements_cong) (simp add: entered_def)
    with TUnion show ?thesis by (simp only: refresh_union_variants_def ann.case Let_def)
  qed (simp_all add: refresh_union_variants_def)
  moreover have "nested c = nested' c" if "get_base_model_type a = Some c" for c using assms base_model_entered [OF that] by blast
  ultimately show ?thesis unfolding refresh_annotation_def by (cases "get_base_model_type a") (simp_all cong: sum.case_cong option.case_cong)
qed

lemma replacements_ends: "(\<And>c. c \<in> set cs \<Longrightarrow> nested c \<noteq> Inl e) \<Longrightarrow> replacements nested cs \<noteq> Inl e"
  by (induction cs) (auto split: sum.splits)

lemma refresh_annotation_ends:
  assumes "\<And>c. c \<in> set (entered a) \<Longrightarrow> nested c \<noteq> Inl e"
  shows "refresh_annotation nested a \<noteq> Inl e"
proof -
  have "refresh_union_variants nested a \<noteq> Inl e"
  proof (cases a)
    case (TUnion args)
    with assms have "replacements nested (find_all_base_models args) \<noteq> Inl e"
      by (intro replacements_ends) (simp add: entered_def)
    with TUnion show ?thesis by (auto simp: refresh_union_variants_def Let_def split: sum.splits)
  qed (simp_all add: refresh_union_variants_def)
  moreover have "nested c \<noteq> Inl e" if "get_base_model_type a = Some c" for c using assms base_model_entered [OF that] by blast
  ultimately show ?thesis by (auto simp: refresh_annotation_def split: option.splits sum.splits)
qed

lemma refresh_flds_cong:
  assumes "\<And>n f c. (n, f) \<in> set fs \<Longrightarrow> c \<in> set (entered (fld_ann f)) \<Longrightarrow> nested c = nested' c"
  shows "refresh_flds env nested fs = refresh_flds env nested' fs"
  using assms
proof (induction fs)
  case (Cons x fs)
  obtain n f where x: "x = (n, f)" by (cases x)
  from Cons.prems have "refresh_annotation nested (fld_ann f) = refresh_annotation nested' (fld_ann f)"
    by (intro refresh_annotation_cong) (auto simp: x)
  then have "refresh_fld env nested f = refresh_fld env nested' f" by (simp only: refresh_fld_def)
  moreover from Cons have "refresh_flds env nested fs = refresh_flds env nested' fs" by auto
  ultimately show ?case unfolding x refresh_flds.simps by (simp only:)
qed simp

lemma refresh_flds_ends:
  assumes "\<And>n f c. (n, f) \<in> set fs \<Longrightarrow> c \<in> set (entered (fld_ann f)) \<Longrightarrow> nested c \<noteq> Inl e"
  shows "refresh_flds env nested fs \<noteq> Inl e"
  using assms
proof (induction fs)
  case (Cons x fs)
  obtain n f where x: "x = (n, f)" by (cases x)
  from Cons.prems have "refresh_annotation nested (fld_ann f) \<noteq> Inl e" by (intro refresh_annotation_ends) (auto simp: x)
  moreover from Cons have "refresh_flds env nested fs \<noteq> Inl e" by auto
  ultimately show ?case by (auto simp: x refresh_fld_def Let_def split: sum.splits option.splits)
qed simp

text \<open>\<open>rank\<close> falls from a class to the classes of its fields.\<close>

definition layered :: "class_table \<Rightarrow> (string \<Rightarrow> nat) \<Rightarrow> bool" where
  "layered classes rank \<longleftrightarrow> (\<forall>c k n f c'. classes c = Some k \<longrightarrow> (n, f) \<in> set (pc_fields k) \<longrightarrow> c' \<in> set (entered (fld_ann f)) \<longrightarrow> rank c' < rank c)"

lemma refresh_nested_ends:
  assumes "layered classes rank"
  shows "rank c < n \<Longrightarrow> rank c < m \<Longrightarrow> refresh_nested_model classes env n c \<noteq> Inl StackExhausted
    \<and> refresh_nested_model classes env n c = refresh_nested_model classes env m c"
proof (induction "rank c" arbitrary: c n m rule: less_induct)
  case less
  from less.prems obtain n' m' where n: "n = Suc n'" and m: "m = Suc m'" by (cases n; cases m) auto
  show ?case
  proof (cases "classes c")
    case (Some k)
    have down: "refresh_nested_model classes env n' c' \<noteq> Inl StackExhausted \<and> refresh_nested_model classes env n' c' = refresh_nested_model classes env m' c'"
      if "(x, f) \<in> set (pc_fields k)" "c' \<in> set (entered (fld_ann f))" for x f c'
    proof -
      from assms Some that have "rank c' < rank c" unfolding layered_def by blast
      moreover from this less.prems have "rank c' < n'" "rank c' < m'" by (simp_all add: n m)
      ultimately show ?thesis by (rule less.hyps)
    qed
    have "refresh_flds env (refresh_nested_model classes env n') (pc_fields k) \<noteq> Inl StackExhausted"
      by (rule refresh_flds_ends) (use down in blast)
    moreover have "refresh_flds env (refresh_nested_model classes env n') (pc_fields k) = refresh_flds env (refresh_nested_model classes env m') (pc_fields k)"
      by (rule refresh_flds_cong) (use down in blast)
    ultimately show ?thesis using Some by (auto simp: n m split: sum.splits prod.splits if_splits)
  qed (simp add: n m)
qed

text \<open>A type with every refreshed model under its old name.\<close>

fun erase :: "ann \<Rightarrow> ann" where
  "erase (TNew c fs) = TClass c"
| "erase (TList a) = TList (erase a)"
| "erase (TSet a) = TSet (erase a)"
| "erase (TFrozenSet a) = TFrozenSet (erase a)"
| "erase (TDict k v) = TDict (erase k) (erase v)"
| "erase (TTuple args) = TTuple (map erase args)"
| "erase (TUnion args) = TUnion (map erase args)"
| "erase a = a"

definition lone_union :: "ann \<Rightarrow> bool" where
  "lone_union a = (case a of TUnion args \<Rightarrow> length (find_all_base_models args) = 1 | _ \<Rightarrow> False)"

definition keeps_names :: "refresher \<Rightarrow> bool" where
  "keeps_names nested \<longleftrightarrow> (\<forall>c new. nested c = Inr (Some new) \<longrightarrow> erase new = TClass c)"

lemma swap_erase: "erase new = TClass c \<Longrightarrow> erase (swap c new a) = erase a"
  by (simp add: swap_def)

lemma replacements_names: "keeps_names nested \<Longrightarrow> replacements nested cs = Inr rs \<Longrightarrow> od_get rs c = Some new \<Longrightarrow> erase new = TClass c"
proof (induction cs arbitrary: rs)
  case (Cons d cs)
  then show ?case by (auto simp: od_get_Cons keeps_names_def split: sum.splits option.splits if_splits)
qed simp

lemma check_base_model_Some: "check_base_model x = Some c \<longleftrightarrow> x = TClass c"
  by (simp add: check_base_model_def split: ann.splits)

lemma refresh_annotation_erase:
  assumes "keeps_names nested" and "refresh_annotation nested a = Inr (Some a')"
  shows "if lone_union a then \<exists>args c. a = TUnion args \<and> find_base_model args = Some c \<and> erase a' = TClass c else erase a' = erase a"
proof (cases "refresh_union_variants nested a")
  case (Inr u)
  show ?thesis
  proof (cases u)
    case (Some b)
    with Inr assms(2) have b: "a' = b" by (simp add: refresh_annotation_def)
    from Inr Some obtain args rs where a: "a = TUnion args" and l: "\<not> length (find_all_base_models args) \<le> 1"
      and rs: "replacements nested (find_all_base_models args) = Inr rs"
      and u: "b = TUnion (map (\<lambda>x. case check_base_model x of None \<Rightarrow> x | Some c \<Rightarrow> (case od_get rs c of None \<Rightarrow> x | Some new \<Rightarrow> new)) args)"
      unfolding refresh_union_variants_def by (auto simp: Let_def split: ann.splits if_splits sum.splits)
    have "erase a' = erase a"
      unfolding b u a using replacements_names [OF assms(1) rs] by (auto simp: check_base_model_Some split: option.splits)
    with l show ?thesis by (auto simp: a lone_union_def)
  next
    case None
    with Inr assms(2) obtain c new where c: "get_base_model_type a = Some c" and n: "nested c = Inr (Some new)" and a': "a' = rebuild_generic a c new"
      by (auto simp: refresh_annotation_def split: option.splits sum.splits)
    from assms(1) n have e: "erase new = TClass c" by (simp add: keeps_names_def)
    show ?thesis
    proof (cases a)
      case (TUnion args)
      have f: "find_base_model args = Some c" using c TUnion by simp
      have "length (find_all_base_models args) = 1"
      proof (rule ccontr)
        assume "length (find_all_base_models args) \<noteq> 1"
        with f have l: "\<not> length (find_all_base_models args) \<le> 1" by (auto simp: find_base_model_def split: list.splits)
        with Inr None TUnion obtain rs where "replacements nested (find_all_base_models args) = Inr rs" "rs = []"
          by (auto simp: refresh_union_variants_def Let_def split: sum.splits if_splits)
        with f n show False by (auto simp: find_base_model_def split: list.splits sum.splits)
      qed
      with TUnion f e a' show ?thesis by (simp add: lone_union_def)
    qed (use c e a' in \<open>auto simp: lone_union_def swap_erase comp_def\<close>)
  qed
qed (use assms(2) in \<open>simp add: refresh_annotation_def\<close>)

text \<open>
  C36: Refreshing a model ends and keeps its types. If no class refers to itself, directly or through others, a call stack a little
  deeper than the nesting of the models is enough, a deeper one changes nothing, and every type that is refreshed is the old one with the new models
  in place of the old; the one exception is a union with a single model, which becomes that model: an optional model loses its \<open>None\<close>, and any other
  alternative of it.
\<close>

theorem refresh_keeps_types:
  assumes "layered classes rank" and "\<forall>c k. classes c = Some k \<longrightarrow> pc_name k = c" and "rank c < n" and "rank c < m"
  shows "refresh_nested_model classes env n c \<noteq> Inl StackExhausted
    \<and> refresh_nested_model classes env n c = refresh_nested_model classes env m c
    \<and> (\<forall>new. refresh_nested_model classes env n c = Inr (Some new) \<longrightarrow> erase new = TClass c)
    \<and> (\<forall>a a'. refresh_annotation (refresh_nested_model classes env n) a = Inr (Some a') \<longrightarrow>
          (if lone_union a then \<exists>args c. a = TUnion args \<and> find_base_model args = Some c \<and> erase a' = TClass c else erase a' = erase a))"
proof -
  have names: "keeps_names (refresh_nested_model classes env n)"
  proof (cases n)
    case (Suc n')
    with assms(2) show ?thesis by (auto simp: keeps_names_def split: option.splits sum.splits prod.splits if_splits)
  qed (simp add: keeps_names_def)
  from refresh_nested_ends [OF assms(1,3,4)] names refresh_annotation_erase [OF names] show ?thesis unfolding keeps_names_def by blast
qed

definition choice_demo :: pyclass where
  "choice_demo = \<lparr>pc_name = ''Choice'', pc_bases = [''BaseModel''], pc_mro = [''Choice'', ''BaseModel''],
     pc_fields = [(''value'', Fld (TAtom ''str'') ExtraNone (Some [(''enum'', ''list'')]))]\<rparr>"

definition table_demo :: class_table where
  "table_demo c = (if c = ''Choice'' then Some choice_demo else None)"

theorem refresh_keeps_types_witness:
  "\<exists>a'. refresh_annotation (refresh_nested_model table_demo fetch_demo 1) (TUnion [TClass ''Choice'', TNone]) = Inr (Some a')
    \<and> erase a' = TClass ''Choice''"
proof -
  have l: "layered table_demo (\<lambda>_. 0)" "\<forall>c k. table_demo c = Some k \<longrightarrow> pc_name k = c"
    by (auto simp: layered_def table_demo_def choice_demo_def entered_def)
  have "bases_mro table_demo (new_bases ''BaseModel'' choice_demo) \<noteq> None"
    by (simp add: bases_mro_def new_bases_def choice_demo_def table_demo_def mro_of_def good_head_def numeral_eq_Suc)
  then obtain new where "refresh_nested_model table_demo fetch_demo 1 ''Choice'' = Inr (Some new)"
    by (auto simp: table_demo_def choice_demo_def refresh_fld_def refresh_annotation_def refresh_union_variants_def Let_def)
  then obtain a' where a: "refresh_annotation (refresh_nested_model table_demo fetch_demo 1) (TUnion [TClass ''Choice'', TNone]) = Inr (Some a')"
    by (simp add: refresh_annotation_def refresh_union_variants_def find_base_model_def find_all_base_models_def check_base_model_def)
  have u: "lone_union (TUnion [TClass ''Choice'', TNone])" "find_base_model [TClass ''Choice'', TNone] = Some ''Choice''"
    by (simp_all add: lone_union_def find_base_model_def find_all_base_models_def check_base_model_def)
  have "(0::nat) < 1" by simp
  from refresh_keeps_types [OF l this this, where c = "''Choice''" and env = fetch_demo] a
  have "if lone_union (TUnion [TClass ''Choice'', TNone]) then \<exists>args c. TUnion [TClass ''Choice'', TNone] = TUnion args \<and> find_base_model args = Some c \<and> erase a' = TClass c
      else erase a' = erase (TUnion [TClass ''Choice'', TNone])" by blast
  with a u show ?thesis by fastforce
qed

text \<open>A refreshed optional model is no longer optional.\<close>

lemma optional_becomes_required:
  "nested c = Inr (Some new) \<Longrightarrow> refresh_annotation nested (TUnion [TClass c, TNone]) = Inr (Some new)"
  by (simp add: refresh_annotation_def refresh_union_variants_def find_base_model_def find_all_base_models_def check_base_model_def)

text \<open>A class with a list of its own kind exhausts any stack.\<close>

lemma self_reference_exhausts:
  assumes "classes c = Some k" and "pc_fields k = (x, f) # fs" and "fld_ann f = TList (TClass c)"
  shows "refresh_nested_model classes env n c = Inl StackExhausted"
proof (induction n)
  case (Suc n)
  then have "refresh_annotation (refresh_nested_model classes env n) (fld_ann f) = Inl StackExhausted"
    by (simp add: assms(3) refresh_annotation_def refresh_union_variants_def check_base_model_def)
  with assms(1,2) show ?case by (simp add: refresh_fld_def Let_def)
qed simp

text \<open>
  A setup model that extends another one, or a nested model with dynamic fields that does, has the root class named before a class
  derived from it among the bases of the class made for it: Python refuses to order them.
\<close>

lemma good_head_None: "(\<And>h. h \<in> set (map hd seqs) \<Longrightarrow> \<exists>s\<in>set seqs. h \<in> set (tl s)) \<Longrightarrow> good_head seqs = None"
  unfolding good_head_def find_None_iff by blast

lemma base_before_derived:
  assumes "\<And>b. b \<in> set bs \<Longrightarrow> \<exists>r. mro_of classes b = b # r" and "\<exists>r. mro_of classes base = base # r"
    and "b \<in> set bs" and "base \<in> set (tl (mro_of classes b))"
  shows "bases_mro classes (base # bs) = None"
proof -
  let ?seqs = "map (mro_of classes) (base # bs) @ [base # bs]"
  have ne: "filter (\<lambda>s. s \<noteq> []) ?seqs = ?seqs"
  proof -
    have "mro_of classes x \<noteq> []" if "x \<in> set (base # bs)" for x using that assms(1,2) by fastforce
    then show ?thesis by (auto simp: filter_id_conv)
  qed
  have "good_head ?seqs = None"
  proof (rule good_head_None)
    fix h assume "h \<in> set (map hd ?seqs)"
    then have "h = base \<or> h \<in> set bs" using assms(1,2) by fastforce
    then show "\<exists>s\<in>set ?seqs. h \<in> set (tl s)"
    proof
      assume "h = base"
      with assms(3,4) show ?thesis by (intro bexI [of _ "mro_of classes b"]) auto
    next
      assume "h \<in> set bs"
      then show ?thesis by (intro bexI [of _ "base # bs"]) auto
    qed
  qed
  then have "merge_mro (Suc n) ?seqs = None" for n unfolding merge_mro.simps Let_def ne by simp
  moreover obtain n where "sum_list (map (\<lambda>b. length (mro_of classes b)) (base # bs)) + length (base # bs) = Suc n" by simp
  ultimately show ?thesis unfolding bases_mro_def by metis
qed

lemma derived_setup_fails:
  assumes "pc_bases k = [b]" and "b \<noteq> ''SetupModel''" and "mro_of classes b = b # r" and "''SetupModel'' \<in> set r"
    and "mro_of classes ''SetupModel'' = ''SetupModel'' # r'"
  shows "make_clean classes env stack k config_fields hidden_fields False = Inl InconsistentMro"
proof -
  have "bases_mro classes (''SetupModel'' # [b]) = None"
    by (rule base_before_derived [where b = b]) (use assms in auto)
  then have "bases_mro classes (new_bases ''SetupModel'' k) = None" using assms(1,2) by (simp add: new_bases_def)
  then show ?thesis by (simp add: make_clean_def Let_def)
qed

end
