(* ===== verification/Server.thy ===== *)
theory Server
  imports Prelude
begin

text \<open>
  The life of a module's server: the settings of its channel (\<open>models/settings/utils/channel.py\<close>), the creation of the gRPC server with its port,
  the servicers, health service and reflection (\<open>grpc_servers/_base_server.py\<close>), and the module server that owns the gateway, the Redis client,
  the job manager and the registry client (\<open>grpc_servers/module_server.py\<close>). The libraries are a parameter: an environment
  says which of their calls fail. What is created and not yet closed is kept in the state, each thing under a number of its own.
\<close>

section \<open>Settings\<close>

datatype control_flow = SyncMode | AsyncMode
datatype security_mode = Secure | Insecure

definition normalize_mode :: "string \<Rightarrow> control_flow" where
  "normalize_mode v = (if lower v = ''sync'' then SyncMode else AsyncMode)"

definition normalize_security :: "string \<Rightarrow> security_mode" where
  "normalize_security v = (if lower v = ''secure'' then Secure else Insecure)"

record credentials =
  cr_key :: "string option"
  cr_cert :: "string option"
  cr_root :: "string option"

record channel_settings =
  ch_host :: string
  ch_port :: nat
  ch_mode :: control_flow
  ch_credentials :: "credentials option"
  ch_security :: security_mode

datatype srv_exc = ConfigurationError | SecurityError | ServicerError | ReflectionError | ServerStateError | SrvRuntimeError | LibraryError

text \<open>The model's validators: a path that does not exist, a port out of range, secure mode without credentials.\<close>

definition valid_settings :: "(string \<Rightarrow> bool) \<Rightarrow> channel_settings \<Rightarrow> srv_exc option" where
  "valid_settings exists_path ch =
     (if (\<exists>cr. ch_credentials ch = Some cr \<and> list_ex (\<lambda>p. case p of None \<Rightarrow> False | Some x \<Rightarrow> \<not> exists_path x) [cr_key cr, cr_cert cr, cr_root cr]) then Some SecurityError
      else if \<not> (0 < ch_port ch \<and> ch_port ch < 65536) then Some ConfigurationError
      else if ch_security ch = Secure \<and> ch_credentials ch = None then Some ConfigurationError
      else None)"

section \<open>State\<close>

datatype port = SecurePort (key_bytes: string) (cert_bytes: string) (root_bytes: "string option") | PlainPort

text \<open>\<open>require_client_auth\<close>\<close>

definition client_auth :: "port \<Rightarrow> bool" where
  "client_auth p = (case p of SecurePort k c r \<Rightarrow> r \<noteq> None | PlainPort \<Rightarrow> False)"

datatype owned = GrpcServerOf nat | RedisOf nat | GatewayOf nat | JobsOf nat | RegistryOf nat

record server =
  srv_current :: "nat option"
  srv_port :: "port option"
  srv_servicers :: nat
  srv_names :: "string list"
  srv_health :: "string list option"
  srv_reflected :: "string list option"
  srv_module :: bool
  srv_gateway :: "nat option"
  srv_redis :: "nat option"
  srv_jobs :: "nat option"
  srv_registry :: "nat option"
  srv_open :: "owned list"
  srv_next :: nat

definition srv_init :: server where
  "srv_init = \<lparr>srv_current = None, srv_port = None, srv_servicers = 0, srv_names = [], srv_health = None, srv_reflected = None, srv_module = False,
     srv_gateway = None, srv_redis = None, srv_jobs = None, srv_registry = None, srv_open = [], srv_next = 0\<rparr>"

text \<open>
  What the libraries do: reading a file, making a server, its credentials, a port, adding a servicer, the health service and reflection
  (\<open>None\<close>: not installed), starting, and the parts of the module server.
\<close>

record environment =
  en_read :: "string \<Rightarrow> string option"
  en_server :: bool
  en_secure_port :: bool
  en_plain_port :: bool
  en_add :: bool
  en_health :: "bool option"
  en_reflection :: "bool option"
  en_start :: bool
  en_redis_url :: string
  en_jobs_start :: bool
  en_gateway_start :: bool
  en_ready :: bool
  en_module_id :: string
  en_register :: "bool option"
  en_deregister :: bool
  en_shutdown :: bool
  en_jobs_stop :: bool
  en_registry_close :: bool
  en_gateway_stop :: bool
  en_redis_close :: bool
  en_stop :: bool

record server_config =
  sc_channel :: channel_settings
  sc_reflection :: bool
  sc_client :: bool               \<comment> \<open>whether the server has a client configuration\<close>
  sc_module_names :: "string list"
  sc_gateway_names :: "string list"

definition health_name :: string where
  "health_name = ''grpc.health.v1.Health''"

definition reflection_names :: "string list" where
  "reflection_names = [''grpc.reflection.v1alpha.ServerReflection'', ''grpc.reflection.v1.ServerReflection'']"

section \<open>The gRPC server\<close>

definition add_secure_port :: "environment \<Rightarrow> channel_settings \<Rightarrow> srv_exc + port" where
  "add_secure_port env ch = (case ch_credentials ch of
     None \<Rightarrow> Inl SecurityError
   | Some cr \<Rightarrow> (case (cr_key cr, cr_cert cr) of
       (Some key, Some cert) \<Rightarrow> (case (en_read env key, en_read env cert) of
           (Some k, Some c) \<Rightarrow> (case cr_root cr of
               None \<Rightarrow> if en_secure_port env then Inr (SecurePort k c None) else Inl SecurityError
             | Some ca \<Rightarrow> (case en_read env ca of
                 None \<Rightarrow> Inl SecurityError
               | Some r \<Rightarrow> if en_secure_port env then Inr (SecurePort k c (Some r)) else Inl SecurityError))
         | _ \<Rightarrow> Inl SecurityError)
     | _ \<Rightarrow> Inl SecurityError))"

definition add_insecure_port :: "environment \<Rightarrow> srv_exc + port" where
  "add_insecure_port env = (if en_plain_port env then Inr PlainPort else Inl ConfigurationError)"

definition create_server :: "environment \<Rightarrow> channel_settings \<Rightarrow> srv_exc + port" where
  "create_server env ch =
     (if \<not> en_server env then Inl ConfigurationError
      else (case (if ch_security ch = Secure then add_secure_port env ch else add_insecure_port env) of
        Inl e \<Rightarrow> Inl ConfigurationError
      | Inr p \<Rightarrow> Inr p))"

definition add_new :: "string list \<Rightarrow> string list \<Rightarrow> string list" where
  "add_new new names = fold (\<lambda>n ns. if n \<in> set ns then ns else ns @ [n]) new names"

definition register_servicer :: "environment \<Rightarrow> string list \<Rightarrow> string list \<Rightarrow> server \<Rightarrow> srv_exc option \<times> server" where
  "register_servicer env explicit descriptor s =
     (if srv_current s = None \<or> \<not> en_add env then (Some ServicerError, s)
      else (None, s\<lparr>srv_servicers := Suc (srv_servicers s), srv_names := add_new descriptor (add_new explicit (srv_names s))\<rparr>))"

definition add_health_service :: "environment \<Rightarrow> server \<Rightarrow> server" where
  "add_health_service env s =
     (if srv_current s = None \<or> en_health env \<noteq> Some True then s
      else let names = add_new [health_name] (srv_names s)
           in s\<lparr>srv_names := names, srv_health := Some (names @ [''''])\<rparr>)"

definition add_reflection :: "environment \<Rightarrow> server_config \<Rightarrow> server \<Rightarrow> srv_exc option \<times> server" where
  "add_reflection env cfg s =
     (if \<not> sc_reflection cfg \<or> srv_current s = None \<or> srv_names s = [] then (None, s)
      else (case en_reflection env of
        None \<Rightarrow> (None, s)
      | Some False \<Rightarrow> (Some ReflectionError, s)
      | Some True \<Rightarrow> (None, s\<lparr>srv_reflected := Some (srv_names s @ reflection_names)\<rparr>)))"

section \<open>The module server\<close>

definition register_gateway_servicer :: "environment \<Rightarrow> server_config \<Rightarrow> server \<Rightarrow> srv_exc option \<times> server" where
  "register_gateway_servicer env cfg s =
     (if en_redis_url env = '''' then (Some SrvRuntimeError, s)
      else let n = srv_next s;
               s1 = s\<lparr>srv_redis := Some n, srv_gateway := Some n, srv_open := srv_open s @ [RedisOf n], srv_next := Suc n\<rparr>
           in register_servicer env [] (sc_gateway_names cfg) s1)"

definition register_servicers :: "environment \<Rightarrow> server_config \<Rightarrow> server \<Rightarrow> srv_exc option \<times> server" where
  "register_servicers env cfg s =
     (if srv_current s = None then (Some SrvRuntimeError, s)
      else case register_servicer env [] (sc_module_names cfg) (s\<lparr>srv_module := True, srv_jobs := Some (srv_next s), srv_next := Suc (srv_next s)\<rparr>) of
        (Some e, s1) \<Rightarrow> (Some e, s1)
      | (None, s1) \<Rightarrow> register_gateway_servicer env cfg s1)"

text \<open>\<open>BaseServer.start_async\<close>: the exception, if there is one, and the state it leaves.\<close>

definition base_start_async :: "environment \<Rightarrow> server_config \<Rightarrow> server \<Rightarrow> srv_exc option \<times> server" where
  "base_start_async env cfg s =
     (case create_server env (sc_channel cfg) of
        Inl e \<Rightarrow> (Some e, s)
      | Inr p \<Rightarrow>
          (let s1 = s\<lparr>srv_current := Some (srv_next s), srv_port := Some p, srv_next := Suc (srv_next s), srv_health := None, srv_reflected := None\<rparr>
           in case register_servicers env cfg s1 of
                (Some e, s2) \<Rightarrow> (Some e, s2)
              | (None, s2) \<Rightarrow>
                  (case add_reflection env cfg (add_health_service env s2) of
                     (Some e, s3) \<Rightarrow> (Some e, s3)
                   | (None, s3) \<Rightarrow>
                       if \<not> en_start env then (Some ServerStateError, s3)
                       else (None, s3\<lparr>srv_open := srv_open s3 @ [GrpcServerOf (the (srv_current s3))]\<rparr>))))"

definition init_and_register :: "environment \<Rightarrow> server_config \<Rightarrow> server \<Rightarrow> srv_exc option \<times> server" where
  "init_and_register env cfg s =
     (let n = srv_next s; s1 = s\<lparr>srv_registry := Some n, srv_open := srv_open s @ [RegistryOf n], srv_next := Suc n\<rparr>
      in if \<not> en_ready env then (Some SrvRuntimeError, s1)
         else if en_module_id env = '''' \<or> en_module_id env = ''unknown'' then (Some SrvRuntimeError, s1)
         else (case en_register env of
             None \<Rightarrow> (Some LibraryError, s1)
           | Some False \<Rightarrow> (Some SrvRuntimeError, s1)
           | Some True \<Rightarrow> (None, s1)))"

definition start_async :: "environment \<Rightarrow> server_config \<Rightarrow> server \<Rightarrow> srv_exc option \<times> server" where
  "start_async env cfg s =
     (case base_start_async env cfg s of
        (Some e, s1) \<Rightarrow> (Some e, s1)
      | (None, s1) \<Rightarrow>
          if \<not> srv_module s1 then (Some SrvRuntimeError, s1)
          else if \<not> en_jobs_start env then (Some LibraryError, s1)
          else let s2 = s1\<lparr>srv_open := srv_open s1 @ [JobsOf (the (srv_jobs s1))]\<rparr>
               in if srv_gateway s2 \<noteq> None \<and> \<not> en_gateway_start env then (Some LibraryError, s2)
                  else let s3 = (case srv_gateway s2 of None \<Rightarrow> s2 | Some g \<Rightarrow> s2\<lparr>srv_open := srv_open s2 @ [GatewayOf g]\<rparr>)
                       in if sc_client cfg then init_and_register env cfg s3 else (None, s3))"

text \<open>Closing a thing, if the library does it.\<close>

definition let_go :: "bool \<Rightarrow> owned \<Rightarrow> server \<Rightarrow> server" where
  "let_go ok x s = (if ok then s\<lparr>srv_open := filter (\<lambda>y. y \<noteq> x) (srv_open s)\<rparr> else s)"

definition release_ref :: "bool \<Rightarrow> (nat \<Rightarrow> owned) \<Rightarrow> nat option \<Rightarrow> server \<Rightarrow> server" where
  "release_ref ok C r s = (case r of None \<Rightarrow> s | Some n \<Rightarrow> let_go ok (C n) s)"

datatype stop_call = Deregister | ShutdownServicer | StopJobs | ClearShared | CloseRegistry | StopGateway | CloseRedis | StopServer | CloseChannels

definition base_stop_async :: "environment \<Rightarrow> server \<Rightarrow> stop_call list \<times> srv_exc option \<times> server" where
  "base_stop_async env s = (case srv_current s of
     None \<Rightarrow> ([], None, s)
   | Some n \<Rightarrow> if \<not> en_stop env then ([StopServer], Some LibraryError, s)
       else ([StopServer, CloseChannels], None, (let_go True (GrpcServerOf n) s)\<lparr>srv_current := None\<rparr>))"

definition shutdown_servicer :: "environment \<Rightarrow> server \<Rightarrow> stop_call list \<times> server" where
  "shutdown_servicer env s =
     (if \<not> srv_module s then ([], s)
      else ([ShutdownServicer, StopJobs], release_ref (en_jobs_stop env) JobsOf (srv_jobs s) s))"

definition stop_async :: "environment \<Rightarrow> server \<Rightarrow> stop_call list \<times> srv_exc option \<times> server" where
  "stop_async env s =
     (let c1 = (if srv_registry s \<noteq> None \<and> en_module_id env \<notin> {'''', ''unknown''} then [Deregister] else []);
          (c2, s1) = shutdown_servicer env s;
          s2 = release_ref (en_registry_close env) RegistryOf (srv_registry s1) s1;
          s3 = release_ref (en_gateway_stop env) GatewayOf (srv_gateway s2) s2;
          s4 = release_ref (en_redis_close env) RedisOf (srv_redis s3) s3;
          (c3, e, s5) = base_stop_async env s4
      in (c1 @ c2 @ [ClearShared] @ (if srv_registry s \<noteq> None then [CloseRegistry] else []) @ (if srv_gateway s \<noteq> None then [StopGateway] else [])
            @ (if srv_redis s \<noteq> None then [CloseRedis] else []) @ c3, e, s5))"

text \<open>\<open>BaseServer.stop\<close>: in asynchronous mode called from a running event loop it only forgets the server.\<close>

definition base_stop :: "control_flow \<Rightarrow> bool \<Rightarrow> server \<Rightarrow> stop_call list \<times> server" where
  "base_stop mode loop_running s = (case srv_current s of
     None \<Rightarrow> ([], s)
   | Some n \<Rightarrow>
       if mode = AsyncMode \<and> loop_running then ([], s\<lparr>srv_current := None\<rparr>)
       else (if mode = AsyncMode then [StopServer, CloseChannels] else [StopServer], (let_go True (GrpcServerOf n) s)\<lparr>srv_current := None\<rparr>))"

section \<open>The port\<close>

text \<open>
  A server in secure mode never listens in the clear. If the server is made, it listens on one port; in secure mode that port has the key and the
  certificate of the configured files, and clients must have a certificate exactly when a root certificate is configured; the port is
  a plain one exactly when the configured mode is not the word ''secure''; whatever fails on the way, no server is made.
\<close>

theorem secure_never_plain:
  assumes "create_server env ch = Inr p" and "ch_security ch = normalize_security mode"
  shows "(p = PlainPort \<longleftrightarrow> lower mode \<noteq> ''secure'')
    \<and> (lower mode = ''secure'' \<longrightarrow> (\<exists>cr key cert k c. ch_credentials ch = Some cr \<and> cr_key cr = Some key \<and> cr_cert cr = Some cert
         \<and> en_read env key = Some k \<and> en_read env cert = Some c \<and> key_bytes p = k \<and> cert_bytes p = c
         \<and> (client_auth p \<longleftrightarrow> cr_root cr \<noteq> None) \<and> (\<forall>ca. cr_root cr = Some ca \<longrightarrow> root_bytes p = en_read env ca)))"
proof (cases "lower mode = ''secure''")
  case True
  with assms(2) have s: "ch_security ch = Secure" by (simp add: normalize_security_def)
  with assms(1) have "add_secure_port env ch = Inr p" by (auto simp: create_server_def split: if_splits sum.splits)
  then obtain cr key cert k c where cr: "ch_credentials ch = Some cr" "cr_key cr = Some key" "cr_cert cr = Some cert" "en_read env key = Some k" "en_read env cert = Some c"
    and p: "(case cr_root cr of None \<Rightarrow> if en_secure_port env then Inr (SecurePort k c None) else Inl SecurityError
             | Some ca \<Rightarrow> (case en_read env ca of None \<Rightarrow> Inl SecurityError
               | Some r \<Rightarrow> if en_secure_port env then Inr (SecurePort k c (Some r)) else Inl SecurityError)) = Inr p"
    by (auto simp: add_secure_port_def split: option.splits)
  from p have "p \<noteq> PlainPort \<and> key_bytes p = k \<and> cert_bytes p = c \<and> (client_auth p \<longleftrightarrow> cr_root cr \<noteq> None)
      \<and> (\<forall>ca. cr_root cr = Some ca \<longrightarrow> root_bytes p = en_read env ca)"
    by (auto simp: client_auth_def split: option.splits if_splits)
  with cr True show ?thesis by auto
next
  case False
  with assms(2) have "ch_security ch = Insecure" by (simp add: normalize_security_def)
  with assms(1) False show ?thesis by (auto simp: create_server_def add_insecure_port_def split: if_splits)
qed

definition channel_demo :: channel_settings where
  "channel_demo = \<lparr>ch_host = ''[::]'', ch_port = 50055, ch_mode = AsyncMode,
     ch_credentials = Some \<lparr>cr_key = Some ''k.pem'', cr_cert = Some ''c.pem'', cr_root = None\<rparr>, ch_security = normalize_security ''Secure''\<rparr>"

definition env_demo_ok :: environment where
  "env_demo_ok = \<lparr>en_read = (\<lambda>p. Some p), en_server = True, en_secure_port = True, en_plain_port = True, en_add = True, en_health = Some True,
     en_reflection = Some True, en_start = True, en_redis_url = ''redis://'', en_jobs_start = True, en_gateway_start = True, en_ready = True,
     en_module_id = ''m'', en_register = Some True, en_deregister = True, en_shutdown = True, en_jobs_stop = True, en_registry_close = True,
     en_gateway_stop = True, en_redis_close = True, en_stop = True\<rparr>"

theorem secure_never_plain_witness:
  "\<exists>p. create_server env_demo_ok channel_demo = Inr p \<and> p \<noteq> PlainPort \<and> \<not> client_auth p"
proof -
  have l: "lower ''Secure'' = ''secure''" by code_simp
  then have s: "ch_security channel_demo = Secure" by (simp add: channel_demo_def normalize_security_def)
  have "\<not> isl (create_server env_demo_ok channel_demo)"
    using s by (simp add: create_server_def add_secure_port_def env_demo_ok_def) (simp add: channel_demo_def)
  then obtain p where p: "create_server env_demo_ok channel_demo = Inr p" by (cases "create_server env_demo_ok channel_demo") auto
  have "ch_security channel_demo = normalize_security ''Secure''" by (simp add: channel_demo_def)
  from secure_never_plain [OF p this] l p show ?thesis by (auto simp: channel_demo_def)
qed

text \<open>Any other word for it is taken as insecure.\<close>

lemma misspelt_security_is_plain: "normalize_security ''tls'' = Insecure" "normalize_security ''mtls'' = Insecure" "normalize_security ''secured'' = Insecure"
  by code_simp+

section \<open>What is announced\<close>

lemma add_new_props: "distinct names \<Longrightarrow> distinct (add_new new names) \<and> set (add_new new names) = set names \<union> set new"
proof (induction new arbitrary: names)
  case (Cons n new)
  have "distinct (if n \<in> set names then names else names @ [n])" using Cons.prems by simp
  from Cons.IH [OF this] show ?case by (auto simp: add_new_def)
qed (simp add: add_new_def)

lemma register_servicer_ok:
  assumes "register_servicer env explicit descriptor s = (None, s')" and "distinct (srv_names s)"
  shows "distinct (srv_names s')" and "set (srv_names s') = set (srv_names s) \<union> set explicit \<union> set descriptor" and "srv_current s' = srv_current s"
  using assms add_new_props [of "srv_names s" explicit] add_new_props [of "add_new explicit (srv_names s)" descriptor]
  by (auto simp: register_servicer_def split: if_splits)

lemma register_servicers_ok:
  assumes "register_servicers env cfg s = (None, s')" and "distinct (srv_names s)"
  shows "distinct (srv_names s')" and "set (srv_names s') = set (srv_names s) \<union> set (sc_module_names cfg) \<union> set (sc_gateway_names cfg)"
    and "srv_current s' = srv_current s \<and> srv_current s \<noteq> None"
proof -
  let ?s = "s\<lparr>srv_module := True, srv_jobs := Some (srv_next s), srv_next := Suc (srv_next s)\<rparr>"
  from assms(1) obtain s1 where 1: "register_servicer env [] (sc_module_names cfg) ?s = (None, s1)" and g: "register_gateway_servicer env cfg s1 = (None, s')"
    by (auto simp: register_servicers_def split: if_splits prod.splits option.splits)
  note r1 = register_servicer_ok [OF 1]
  let ?t = "s1\<lparr>srv_redis := Some (srv_next s1), srv_gateway := Some (srv_next s1), srv_open := srv_open s1 @ [RedisOf (srv_next s1)], srv_next := Suc (srv_next s1)\<rparr>"
  from g have 2: "register_servicer env [] (sc_gateway_names cfg) ?t = (None, s')"
    by (auto simp: register_gateway_servicer_def Let_def split: if_splits)
  note r2 = register_servicer_ok [OF 2]
  from 1 have cur: "srv_current s \<noteq> None" by (auto simp: register_servicer_def split: if_splits)
  show "distinct (srv_names s')" using r1 r2 assms(2) by simp
  show "set (srv_names s') = set (srv_names s) \<union> set (sc_module_names cfg) \<union> set (sc_gateway_names cfg)" using r1 r2 assms(2) by auto
  show "srv_current s' = srv_current s \<and> srv_current s \<noteq> None" using r1 r2 assms(2) cur by simp
qed

lemma add_health_ok:
  assumes "en_health env = Some True" and "srv_current s \<noteq> None" and "distinct (srv_names s)"
  shows "distinct (srv_names (add_health_service env s))" and "set (srv_names (add_health_service env s)) = set (srv_names s) \<union> {health_name}"
    and "srv_health (add_health_service env s) = Some (srv_names (add_health_service env s) @ [''''])" and "srv_current (add_health_service env s) = srv_current s"
  using assms add_new_props [of "srv_names s" "[health_name]"] by (auto simp: add_health_service_def Let_def)

text \<open>
  A started server announces all it serves. After a successful start, the module's services, the gateway's and the health service are each named
  once; the health service answers that each of them, and the server as a whole, is serving, and the reflection lists each of them
  and both versions of itself.
\<close>

theorem services_announced:
  assumes "start_async env cfg s = (None, s')" and "distinct (srv_names s)"
    and "en_health env = Some True" and "sc_reflection cfg" and "en_reflection env = Some True"
  shows "distinct (srv_names s') \<and> set (srv_names s') = set (srv_names s) \<union> set (sc_module_names cfg) \<union> set (sc_gateway_names cfg) \<union> {health_name}
    \<and> srv_health s' = Some (srv_names s' @ ['''']) \<and> srv_reflected s' = Some (srv_names s' @ reflection_names)
    \<and> (\<exists>n. srv_current s' = Some n \<and> GrpcServerOf n \<in> set (srv_open s'))"
proof -
  from assms(1) obtain t where b: "base_start_async env cfg s = (None, t)"
    by (auto simp: start_async_def split: prod.splits option.splits)
  from assms(1) b have keep: "srv_names s' = srv_names t \<and> srv_health s' = srv_health t \<and> srv_reflected s' = srv_reflected t \<and> srv_current s' = srv_current t
      \<and> set (srv_open t) \<subseteq> set (srv_open s')"
    by (auto simp: start_async_def init_and_register_def Let_def split: if_splits option.splits bool.splits)
  from b obtain p where p: "create_server env (sc_channel cfg) = Inr p" by (auto simp: base_start_async_def split: sum.splits)
  let ?s1 = "s\<lparr>srv_current := Some (srv_next s), srv_port := Some p, srv_next := Suc (srv_next s), srv_health := None, srv_reflected := None\<rparr>"
  from b p obtain s2 where r: "register_servicers env cfg ?s1 = (None, s2)"
    by (auto simp: base_start_async_def Let_def split: prod.splits option.splits)
  have d: "distinct (srv_names ?s1)" using assms(2) by simp
  note r = r register_servicers_ok [OF r d]
  let ?h = "add_health_service env s2"
  have h: "distinct (srv_names ?h)" "set (srv_names ?h) = set (srv_names s2) \<union> {health_name}" "srv_health ?h = Some (srv_names ?h @ [''''])"
    "srv_current ?h = srv_current s2"
    using add_health_ok [OF assms(3) _ r(2)] r(4) by simp_all
  have ne: "srv_names ?h \<noteq> []" using h(2) by auto
  from h(4) r(4) have cur: "srv_current ?h = Some (srv_next s)" by simp
  with ne assms(4,5) have ref: "add_reflection env cfg ?h = (None, ?h\<lparr>srv_reflected := Some (srv_names ?h @ reflection_names)\<rparr>)"
    by (simp add: add_reflection_def)
  from b p r(1) ref have "t = (?h\<lparr>srv_reflected := Some (srv_names ?h @ reflection_names)\<rparr>)\<lparr>srv_open := srv_open ?h @ [GrpcServerOf (srv_next s)]\<rparr>"
    using cur by (auto simp: base_start_async_def Let_def split: if_splits)
  then have t: "srv_names t = srv_names ?h" "srv_health t = srv_health ?h" "srv_reflected t = Some (srv_names ?h @ reflection_names)"
    "srv_current t = Some (srv_next s)" "GrpcServerOf (srv_next s) \<in> set (srv_open t)"
    using cur by simp_all
  have names: "distinct (srv_names s')" "srv_health s' = Some (srv_names s' @ [''''])" "srv_reflected s' = Some (srv_names s' @ reflection_names)"
    using keep t(1-3) h(1,3) by simp_all
  have set: "set (srv_names s') = set (srv_names s) \<union> set (sc_module_names cfg) \<union> set (sc_gateway_names cfg) \<union> {health_name}"
    using keep t(1) h(2) r(3) by simp
  have "srv_current s' = Some (srv_next s)" "GrpcServerOf (srv_next s) \<in> set (srv_open s')" using keep t(4,5) by auto
  with names set show ?thesis by blast
qed

definition config_demo :: server_config where
  "config_demo = \<lparr>sc_channel = channel_demo, sc_reflection = True, sc_client = True, sc_module_names = [''Module''], sc_gateway_names = [''Gateway'']\<rparr>"

lemma create_demo: "create_server env_demo_ok channel_demo = Inr (SecurePort ''k.pem'' ''c.pem'' None)"
proof -
  have "lower ''Secure'' = ''secure''" by code_simp
  then show ?thesis by (simp add: channel_demo_def normalize_security_def create_server_def add_secure_port_def env_demo_ok_def)
qed

lemma start_demo:
  "fst (start_async env_demo_ok config_demo s) = None \<and> srv_next (snd (start_async env_demo_ok config_demo s)) = srv_next s + 4
    \<and> srv_open (snd (start_async env_demo_ok config_demo s)) = srv_open s @ [RedisOf (srv_next s + 2), GrpcServerOf (srv_next s), JobsOf (srv_next s + 1),
          GatewayOf (srv_next s + 2), RegistryOf (srv_next s + 3)]"
proof -
  have "create_server env_demo_ok (sc_channel config_demo) = Inr (SecurePort ''k.pem'' ''c.pem'' None)"
    by (simp add: create_demo config_demo_def)
  then show ?thesis
    by (simp add: start_async_def base_start_async_def register_servicers_def register_servicer_def register_gateway_servicer_def add_reflection_def
        add_health_service_def init_and_register_def env_demo_ok_def config_demo_def add_new_def Let_def)
qed

theorem services_announced_witness:
  "set (srv_names (snd (start_async env_demo_ok config_demo srv_init))) = {''Module'', ''Gateway'', health_name}"
proof -
  obtain s' where s: "start_async env_demo_ok config_demo srv_init = (None, s')" using start_demo [of srv_init] by (metis prod.collapse)
  have "set (srv_names s') = set (srv_names srv_init) \<union> set (sc_module_names config_demo) \<union> set (sc_gateway_names config_demo) \<union> {health_name}"
    using services_announced [OF s] by (simp add: srv_init_def env_demo_ok_def config_demo_def)
  then show ?thesis using s by (simp add: srv_init_def config_demo_def insert_commute)
qed

section \<open>What is released\<close>

text \<open>Every open thing is the one the server refers to.\<close>

definition held :: "server \<Rightarrow> owned \<Rightarrow> bool" where
  "held s x = (case x of
     GrpcServerOf n \<Rightarrow> srv_current s = Some n
   | RedisOf n \<Rightarrow> srv_redis s = Some n
   | GatewayOf n \<Rightarrow> srv_gateway s = Some n
   | JobsOf n \<Rightarrow> srv_module s \<and> srv_jobs s = Some n
   | RegistryOf n \<Rightarrow> srv_registry s = Some n)"

definition all_held :: "server \<Rightarrow> bool" where
  "all_held s = (\<forall>x \<in> set (srv_open s). held s x)"

definition closes :: "environment \<Rightarrow> owned \<Rightarrow> bool" where
  "closes env x = (case x of
     GrpcServerOf n \<Rightarrow> en_stop env
   | RedisOf n \<Rightarrow> en_redis_close env
   | GatewayOf n \<Rightarrow> en_gateway_stop env
   | JobsOf n \<Rightarrow> en_jobs_stop env
   | RegistryOf n \<Rightarrow> en_registry_close env)"

definition stop_order :: "stop_call list" where
  "stop_order = [Deregister, ShutdownServicer, StopJobs, ClearShared, CloseRegistry, StopGateway, CloseRedis, StopServer, CloseChannels]"

lemma register_servicer_frame:
  assumes "register_servicer env x d s = (e, s')"
  shows "srv_open s' = srv_open s \<and> srv_current s' = srv_current s \<and> srv_module s' = srv_module s \<and> srv_gateway s' = srv_gateway s
    \<and> srv_redis s' = srv_redis s \<and> srv_jobs s' = srv_jobs s \<and> srv_registry s' = srv_registry s \<and> srv_next s' = srv_next s"
  using assms by (auto simp: register_servicer_def split: if_splits)

text \<open>Registering the servicers opens the Redis client at most, and nothing that was open before is still open by another name.\<close>

lemma register_servicers_open:
  assumes "register_servicers env cfg s = (e, s')" and "srv_open s = []"
  shows "all_held s' \<and> (srv_open s' = [] \<or> (\<exists>n. srv_open s' = [RedisOf n])) \<and> srv_current s' = srv_current s"
proof (cases "srv_current s")
  case (Some c)
  let ?s = "s\<lparr>srv_module := True, srv_jobs := Some (srv_next s), srv_next := Suc (srv_next s)\<rparr>"
  obtain e1 s1 where 1: "register_servicer env [] (sc_module_names cfg) ?s = (e1, s1)" by fastforce
  note f1 = register_servicer_frame [OF 1]
  show ?thesis
  proof (cases "e1 = None \<and> en_redis_url env \<noteq> ''''")
    case True
    let ?t = "s1\<lparr>srv_redis := Some (srv_next s1), srv_gateway := Some (srv_next s1), srv_open := srv_open s1 @ [RedisOf (srv_next s1)], srv_next := Suc (srv_next s1)\<rparr>"
    from True assms(1) 1 Some have 2: "register_servicer env [] (sc_gateway_names cfg) ?t = (e, s')"
      by (simp add: register_servicers_def register_gateway_servicer_def Let_def)
    from register_servicer_frame [OF 2] f1 assms(2) Some show ?thesis by (auto simp: all_held_def held_def)
  next
    case False
    with assms(1) 1 Some have "s' = s1" by (cases e1) (auto simp: register_servicers_def register_gateway_servicer_def)
    with f1 assms(2) show ?thesis by (simp add: all_held_def)
  qed
qed (use assms in \<open>simp add: register_servicers_def all_held_def\<close>)

lemma health_frame:
  "srv_open (add_health_service env s) = srv_open s \<and> srv_current (add_health_service env s) = srv_current s \<and> held (add_health_service env s) = held s"
  by (auto simp: add_health_service_def held_def fun_eq_iff Let_def split: owned.splits)

lemma reflection_frame: "add_reflection env cfg s = (e, s') \<Longrightarrow> srv_open s' = srv_open s \<and> srv_current s' = srv_current s \<and> held s' = held s"
  by (auto simp: add_reflection_def held_def fun_eq_iff split: if_splits option.splits bool.splits owned.splits)

lemma base_start_all_held:
  assumes "base_start_async env cfg s = (e, s')" and "srv_open s = []"
  shows "all_held s' \<and> (\<forall>k. RegistryOf k \<notin> set (srv_open s'))"
proof (cases "create_server env (sc_channel cfg)")
  case (Inr p)
  let ?s1 = "s\<lparr>srv_current := Some (srv_next s), srv_port := Some p, srv_next := Suc (srv_next s), srv_health := None, srv_reflected := None\<rparr>"
  obtain e2 s2 where 2: "register_servicers env cfg ?s1 = (e2, s2)" by fastforce
  with assms(2) have t: "all_held s2" "srv_current s2 = Some (srv_next s)" using register_servicers_open [OF 2] by simp_all
  have nr: "\<forall>k. RegistryOf k \<notin> set (srv_open s2)" using register_servicers_open [OF 2] assms(2) by auto
  obtain e3 s3 where 3: "add_reflection env cfg (add_health_service env s2) = (e3, s3)" by fastforce
  have f: "srv_open s3 = srv_open s2" "srv_current s3 = srv_current s2" "held s3 = held s2" using reflection_frame [OF 3] health_frame by simp_all
  from t f have t3: "all_held s3" by (simp add: all_held_def)
  have held_open: "held (s3\<lparr>srv_open := xs\<rparr>) = held s3" for xs by (auto simp: held_def fun_eq_iff split: owned.splits)
  have "all_held (s3\<lparr>srv_open := srv_open s3 @ [GrpcServerOf (the (srv_current s3))]\<rparr>)"
    using t3 t(2) f(2) by (simp add: all_held_def held_open) (simp add: held_def)
  with t(1) t3 nr f(1) assms(1) Inr 2 3 show ?thesis
    by (auto simp: base_start_async_def Let_def split: option.splits if_splits)
qed (use assms in \<open>simp add: base_start_async_def all_held_def\<close>)

lemma held_opened: "held (s\<lparr>srv_open := xs\<rparr>) = held s"
  by (auto simp: held_def fun_eq_iff split: owned.splits)

lemma module_has_jobs:
  assumes "base_start_async env cfg s = (None, s')"
  shows "srv_module s' \<and> srv_jobs s' \<noteq> None"
proof -
  from assms obtain p s2 where "create_server env (sc_channel cfg) = Inr p"
    and r: "register_servicers env cfg (s\<lparr>srv_current := Some (srv_next s), srv_port := Some p, srv_next := Suc (srv_next s), srv_health := None, srv_reflected := None\<rparr>) = (None, s2)"
    and rest: "case add_reflection env cfg (add_health_service env s2) of (Some e, s3) \<Rightarrow> False | (None, s3) \<Rightarrow> srv_module s' = srv_module s3 \<and> srv_jobs s' = srv_jobs s3"
    by (auto simp: base_start_async_def Let_def split: sum.splits prod.splits option.splits if_splits)
  from r have m: "srv_module s2 \<and> srv_jobs s2 \<noteq> None"
    by (auto simp: register_servicers_def register_gateway_servicer_def register_servicer_def Let_def split: if_splits option.splits prod.splits)
  have "srv_module (add_health_service env s2) = srv_module s2 \<and> srv_jobs (add_health_service env s2) = srv_jobs s2"
    by (simp add: add_health_service_def Let_def)
  with rest m show ?thesis
    by (auto simp: add_reflection_def split: if_splits option.splits bool.splits)
qed

lemma start_all_held:
  assumes "start_async env cfg s = (e, s')" and "srv_open s = []"
  shows "all_held s'"
proof -
  obtain e1 s1 where 1: "base_start_async env cfg s = (e1, s1)" by fastforce
  from base_start_all_held [OF 1 assms(2)] have t1: "all_held s1" and n1: "\<forall>k. RegistryOf k \<notin> set (srv_open s1)" by simp_all
  show ?thesis
  proof (cases "e1 = None \<and> en_jobs_start env")
    case True
    with 1 have mj: "srv_module s1" "srv_jobs s1 \<noteq> None" using module_has_jobs by auto
    let ?s2 = "s1\<lparr>srv_open := srv_open s1 @ [JobsOf (the (srv_jobs s1))]\<rparr>"
    have t2: "all_held ?s2" using t1 mj by (auto simp: all_held_def held_opened) (auto simp: held_def)
    let ?s3 = "case srv_gateway s1 of None \<Rightarrow> ?s2 | Some g \<Rightarrow> ?s2\<lparr>srv_open := srv_open ?s2 @ [GatewayOf g]\<rparr>"
    have t3: "all_held ?s3" using t2 by (cases "srv_gateway s1") (auto simp: all_held_def held_opened held_def split: owned.splits)
    have reg: "all_held (s3\<lparr>srv_registry := Some n, srv_open := srv_open s3 @ [RegistryOf n], srv_next := m\<rparr>)"
      if "all_held s3" and "\<forall>k. RegistryOf k \<notin> set (srv_open s3)" for s3 n m
      using that by (auto simp: all_held_def held_def split: owned.splits)
    from n1 have n3: "\<forall>k. RegistryOf k \<notin> set (srv_open ?s3)" by (cases "srv_gateway s1") simp_all
    have i: "all_held (snd (init_and_register env cfg ?s3))"
      using reg [OF t3 n3] by (auto simp: init_and_register_def Let_def split: option.splits bool.splits)
    from True 1 assms(1) mj(1) have "s' = ?s2 \<or> s' = ?s3 \<or> s' = snd (init_and_register env cfg ?s3)"
      by (cases "srv_gateway s1") (auto simp: start_async_def Let_def split: if_splits)
    with t2 t3 i show ?thesis by blast
  next
    case False
    with assms(1) 1 t1 show ?thesis by (cases e1) (auto simp: start_async_def split: if_splits)
  qed
qed

lemma release_ref_simps [simp]:
  "srv_current (release_ref ok C r s) = srv_current s" "srv_gateway (release_ref ok C r s) = srv_gateway s" "srv_redis (release_ref ok C r s) = srv_redis s"
  "srv_registry (release_ref ok C r s) = srv_registry s" "srv_module (release_ref ok C r s) = srv_module s" "srv_jobs (release_ref ok C r s) = srv_jobs s"
  by (simp_all add: release_ref_def let_go_def split: option.splits)

lemma release_ref_open [simp]: "srv_open (release_ref ok C r s) = filter (\<lambda>y. \<not> (ok \<and> Some y = map_option C r)) (srv_open s)"
  by (cases r) (auto simp: release_ref_def let_go_def intro: filter_cong)

lemma is_ref: "Some y = map_option C r \<longleftrightarrow> (\<exists>n. r = Some n \<and> y = C n)"
  by (cases r) auto

text \<open>
  C33: What a start leaves open, a stop releases. Whether the start of a server that owns nothing succeeds or fails at any point, the stop that follows
  closes everything it opened, except what refuses to close, which does not keep the rest from being closed; the steps are taken in the
  fixed order, each at most once, and the server is forgotten, unless the gRPC server itself could not be stopped.
\<close>

theorem stop_releases_all:
  assumes "start_async env cfg s = (e, s1)" and "srv_open s = []" and "stop_async env' s1 = (calls, e', s2)"
  shows "srv_open s2 = filter (\<lambda>x. \<not> closes env' x) (srv_open s1) \<and> calls = filter (\<lambda>c. c \<in> set calls) stop_order
    \<and> (e' = None \<longleftrightarrow> srv_current s2 = None)"
proof -
  have t: "all_held s1" using start_all_held [OF assms(1,2)] .
  let ?d = "shutdown_servicer env' s1"
  let ?r = "release_ref (en_redis_close env') RedisOf (srv_redis s1) (release_ref (en_gateway_stop env') GatewayOf (srv_gateway s1)
      (release_ref (en_registry_close env') RegistryOf (srv_registry s1) (snd ?d)))"
  have keep [simp]: "srv_registry (snd ?d) = srv_registry s1" "srv_gateway (snd ?d) = srv_gateway s1" "srv_redis (snd ?d) = srv_redis s1"
      "srv_current (snd ?d) = srv_current s1"
    by (simp_all add: shutdown_servicer_def)
  obtain c e4 s4 where b: "base_stop_async env' ?r = (c, e4, s4)" by (cases "base_stop_async env' ?r") auto
  have st: "e' = e4 \<and> s2 = s4" and calls: "calls = (if srv_registry s1 \<noteq> None \<and> en_module_id env' \<notin> {'''', ''unknown''} then [Deregister] else []) @ fst ?d @ [ClearShared]
      @ (if srv_registry s1 \<noteq> None then [CloseRegistry] else []) @ (if srv_gateway s1 \<noteq> None then [StopGateway] else [])
      @ (if srv_redis s1 \<noteq> None then [CloseRedis] else []) @ c"
    using assms(3) b by (auto simp: stop_async_def Let_def case_prod_beta)
  have forgotten: "e4 = None \<longleftrightarrow> srv_current s4 = None" using b by (auto simp: base_stop_async_def split: option.splits if_splits)
  have "fst ?d = [] \<or> fst ?d = [ShutdownServicer, StopJobs]" "c = [] \<or> c = [StopServer] \<or> c = [StopServer, CloseChannels]"
    using b by (auto simp: shutdown_servicer_def base_stop_async_def split: option.splits if_splits)
  then have order: "calls = filter (\<lambda>c. c \<in> set calls) stop_order"
    unfolding calls stop_order_def by (elim disjE) simp_all
  have final: "srv_open s4 = filter (\<lambda>y. \<not> (en_stop env' \<and> Some y = map_option GrpcServerOf (srv_current s1))) (srv_open ?r)"
    using b by (auto simp: base_stop_async_def let_go_def split: option.splits if_splits intro: filter_cong)
  have jobs: "srv_open (snd ?d) = filter (\<lambda>y. \<not> (en_jobs_stop env' \<and> srv_module s1 \<and> Some y = map_option JobsOf (srv_jobs s1))) (srv_open s1)"
    by (simp add: shutdown_servicer_def)
  have "srv_open s2 = filter (\<lambda>x. \<not> closes env' x) (srv_open s1)"
    unfolding conjunct2 [OF st] final release_ref_open jobs filter_filter
    by (intro filter_cong refl) (use t in \<open>auto simp: all_held_def held_def closes_def is_ref split: owned.splits\<close>)
  with st forgotten order show ?thesis by simp
qed

theorem stop_releases_all_witness:
  "\<exists>s1. start_async env_demo_ok config_demo srv_init = (None, s1) \<and> srv_open (snd (snd (stop_async (env_demo_ok\<lparr>en_redis_close := False\<rparr>) s1))) = [RedisOf 2]"
proof -
  obtain s1 where s: "start_async env_demo_ok config_demo srv_init = (None, s1)" using start_demo [of srv_init] by (metis prod.collapse)
  obtain c e s2 where st: "stop_async (env_demo_ok\<lparr>en_redis_close := False\<rparr>) s1 = (c, e, s2)" by (cases "stop_async (env_demo_ok\<lparr>en_redis_close := False\<rparr>) s1") auto
  have "srv_open s1 = [RedisOf 2, GrpcServerOf 0, JobsOf 1, GatewayOf 2, RegistryOf 3]"
    using s start_demo [of srv_init] by (simp add: srv_init_def)
  with stop_releases_all [OF s _ st] have "srv_open s2 = [RedisOf 2]" by (simp add: srv_init_def closes_def env_demo_ok_def)
  with s st show ?thesis by simp
qed

text \<open>A second start of a running server replaces what the first one opened: the stop that follows closes the second set only.\<close>

lemma started_refs:
  assumes "start_async env_demo_ok config_demo s = (None, s')"
  shows "srv_current s' = Some (srv_next s) \<and> srv_redis s' = Some (srv_next s + 2) \<and> srv_gateway s' = Some (srv_next s + 2) \<and> srv_jobs s' = Some (srv_next s + 1)
    \<and> srv_registry s' = Some (srv_next s + 3) \<and> srv_module s'"
proof -
  have "create_server env_demo_ok (sc_channel config_demo) = Inr (SecurePort ''k.pem'' ''c.pem'' None)"
    by (simp add: create_demo config_demo_def)
  then show ?thesis unfolding arg_cong [OF assms, of snd, simplified, symmetric]
    by (simp add: start_async_def base_start_async_def register_servicers_def register_servicer_def register_gateway_servicer_def add_reflection_def
        add_health_service_def init_and_register_def env_demo_ok_def config_demo_def add_new_def Let_def)
qed

lemma second_start_leaks:
  assumes "start_async env_demo_ok config_demo srv_init = (None, s1)" and "start_async env_demo_ok config_demo s1 = (None, s2)"
    and "stop_async env_demo_ok s2 = (c, e, s3)"
  shows "e = None \<and> srv_open s3 = srv_open s1 \<and> srv_open s1 \<noteq> []"
proof -
  have 1: "srv_open s1 = [RedisOf 2, GrpcServerOf 0, JobsOf 1, GatewayOf 2, RegistryOf 3]" "srv_next s1 = 4"
    using start_demo [of srv_init] assms(1) by (simp_all add: srv_init_def)
  have 2: "srv_open s2 = srv_open s1 @ [RedisOf 6, GrpcServerOf 4, JobsOf 5, GatewayOf 6, RegistryOf 7]"
    using start_demo [of s1] assms(2) 1 by simp
  have r: "srv_current s2 = Some 4" "srv_redis s2 = Some 6" "srv_gateway s2 = Some 6" "srv_jobs s2 = Some 5" "srv_registry s2 = Some 7" "srv_module s2"
    using started_refs [OF assms(2)] 1 by simp_all
  from assms(3) r 1 2 show ?thesis
    by (simp add: stop_async_def shutdown_servicer_def base_stop_async_def env_demo_ok_def Let_def) (auto simp: let_go_def)
qed

text \<open>\<open>stop()\<close> called from a running loop forgets a server that goes on serving; \<open>stop_async\<close> then does nothing to it.\<close>

lemma stop_in_running_loop_forgets:
  assumes "srv_current s = Some n" and "base_stop AsyncMode True s = (calls, s')"
  shows "calls = [] \<and> srv_open s' = srv_open s \<and> base_stop_async env s' = ([], None, s')"
  using assms by (auto simp: base_stop_def base_stop_async_def)

text \<open>In synchronous mode \<open>stop()\<close> does not close the cached channels.\<close>

lemma sync_stop_keeps_channels: "base_stop SyncMode r s = (calls, s') \<Longrightarrow> CloseChannels \<notin> set calls"
  by (auto simp: base_stop_def split: option.splits)

end
