(* ===== verification/Discovery.thy ===== *)
theory Discovery
  imports Content_Validator
begin

text \<open>
  \<open>utils/package_discover.py\<close>: finding and importing the files that hold a module's trigger handlers. Paths are strings; the file system,
  the import machinery and what importing a file does are a parameter. The state is what \<open>sys.modules\<close> holds and which files
  the discoverer has run.
\<close>

section \<open>File patterns\<close>

text \<open>\<open>fnmatch\<close>: the items of a character class, the class after an opening bracket, and the match.\<close>

fun class_items :: "string \<Rightarrow> (char \<times> char) list" where
  "class_items (c # d # e # cs) = (if d = CHR ''-'' then (c, e) # class_items cs else (c, c) # class_items (d # e # cs))"
| "class_items cs = map (\<lambda>c. (c, c)) cs"

definition bracket :: "string \<Rightarrow> (bool \<times> (char \<times> char) list \<times> string) option" where
  "bracket p =
     (let neg = starts_with p ''!'' in case (if neg then tl p else p) of
        [] \<Rightarrow> None
      | c # cs \<Rightarrow>
          if CHR '']'' \<in> set cs then Some (neg, class_items (c # takeWhile (\<lambda>x. x \<noteq> CHR '']'') cs), tl (dropWhile (\<lambda>x. x \<noteq> CHR '']'') cs))
          else None)"

lemma bracket_shorter: "bracket p = Some (neg, items, rest) \<Longrightarrow> length rest < length p"
  by (auto simp: bracket_def Let_def starts_with_iff split: list.splits if_splits)
    (metis (no_types, lifting) diff_le_self le_imp_less_Suc le_trans length_dropWhile_le length_tl less_SucI)+

definition in_class :: "bool \<Rightarrow> (char \<times> char) list \<Rightarrow> char \<Rightarrow> bool" where
  "in_class neg items c \<longleftrightarrow> list_ex (\<lambda>(lo, hi). (of_char lo :: nat) \<le> of_char c \<and> (of_char c :: nat) \<le> of_char hi) items \<noteq> neg"

function fnmatch :: "string \<Rightarrow> string \<Rightarrow> bool" where
  "fnmatch [] s = (s = [])"
| "fnmatch (p # ps) [] = (p = CHR ''*'' \<and> fnmatch ps [])"
| "fnmatch (p # ps) (c # cs) =
     (if p = CHR ''*'' then fnmatch ps (c # cs) \<or> fnmatch (p # ps) cs
      else if p = CHR ''?'' then fnmatch ps cs
      else (case (if p = CHR ''['' then bracket ps else None) of
        Some (neg, items, rest) \<Rightarrow> in_class neg items c \<and> fnmatch rest cs
      | None \<Rightarrow> c = p \<and> fnmatch ps cs))"
  by pat_completeness auto
termination
  by (relation "measure (\<lambda>(p, s). length p + length s)") (auto split: if_splits dest!: bracket_shorter)

section \<open>Names and paths\<close>

fun split_dots :: "string \<Rightarrow> string list" where
  "split_dots [] = [[]]"
| "split_dots (c # cs) = (if c = CHR ''.'' then [] # split_dots cs else (case split_dots cs of [] \<Rightarrow> [[c]] | p # ps \<Rightarrow> (c # p) # ps))"

text \<open>\<open>s.replace(needle, "")\<close>\<close>

function drop_all :: "string \<Rightarrow> string \<Rightarrow> string" where
  "drop_all needle [] = []"
| "drop_all needle (c # cs) =
     (if needle \<noteq> [] \<and> starts_with (c # cs) needle then drop_all needle (drop (length needle) (c # cs)) else c # drop_all needle cs)"
  by pat_completeness auto
termination
  by (relation "measure (\<lambda>(n, s). length s)") (auto simp: neq_Nil_conv)

definition forbidden :: "string list" where
  "forbidden = [''__pycache__'', ''.pyc'', ''.pyo'', ''.pyd'', ''test_'', ''_test'', ''conftest'']"

definition is_safe_module_name :: "string \<Rightarrow> bool" where
  "is_safe_module_name n \<longleftrightarrow> n \<noteq> [] \<and> list_all is_identifier (split_dots n) \<and> \<not> list_ex (\<lambda>p. contains p n) forbidden"

definition validate_package_name :: "string \<Rightarrow> bool" where
  "validate_package_name n \<longleftrightarrow> n \<noteq> [] \<and> \<not> list_ex (\<lambda>p. contains p n) [''..'', ''/'', [CHR 0x5C], [CHR 0x00]] \<and> list_all is_identifier (split_dots n)"

definition ends_py :: "string \<Rightarrow> bool" where
  "ends_py s \<longleftrightarrow> starts_with (rev s) (rev ''.py'')"

definition validate_file_pattern :: "string \<Rightarrow> bool" where
  "validate_file_pattern p \<longleftrightarrow> p \<noteq> [] \<and> \<not> list_ex (\<lambda>d. contains d p) [''..'', ''/'', [CHR 0x5C], [CHR 0x00], ''**/''] \<and> ends_py p"

definition module_file_path :: "string \<Rightarrow> string \<Rightarrow> string \<Rightarrow> string" where
  "module_file_path name base pkg = base @ ''/'' @ map (\<lambda>c. if c = CHR ''.'' then CHR ''/'' else c) (drop_all (pkg @ ''.'') name) @ ''.py''"

definition file_name :: "string \<Rightarrow> string" where
  "file_name p = rev (takeWhile (\<lambda>c. c \<noteq> CHR ''/'') (rev p))"

section \<open>Discovery\<close>

record host =
  h_import :: "string \<Rightarrow> string list option \<times> string list"      \<comment> \<open>a package: its paths (\<open>None\<close>: \<open>ImportError\<close>), the modules its import loads\<close>
  h_dir :: "string \<Rightarrow> bool"
  h_walk :: "string \<Rightarrow> string \<Rightarrow> (string \<times> bool) list"
  h_subpackage :: "string \<Rightarrow> string list"                       \<comment> \<open>the modules that walking into a sub-package loads\<close>
  h_resolve :: "string \<Rightarrow> string option"
  h_size :: "string \<Rightarrow> nat option"
  h_spec :: "string \<Rightarrow> bool"
  h_run :: "string \<Rightarrow> string \<Rightarrow> bool \<times> string list"

record discoverer =
  dc_packages :: "string list"
  dc_pattern :: string
  dc_max :: nat

record loaded =
  ld_modules :: "string list"
  ld_run :: "(string \<times> string) list"

datatype disc_exc = DiscoveryError | UnsafePackageError | ResolveError

definition validate_inputs :: "discoverer \<Rightarrow> disc_exc option" where
  "validate_inputs d =
     (if dc_packages d = [] then Some DiscoveryError
      else if \<not> validate_file_pattern (dc_pattern d) then Some UnsafePackageError
      else if \<not> list_all validate_package_name (dc_packages d) then Some UnsafePackageError
      else None)"

definition validate_module_path :: "host \<Rightarrow> nat \<Rightarrow> string \<Rightarrow> string \<Rightarrow> bool" where
  "validate_module_path h limit file base = (case (h_resolve h file, h_resolve h base) of
     (Some f, Some b) \<Rightarrow> starts_with f b \<and> (case h_size h f of None \<Rightarrow> False | Some n \<Rightarrow> n \<le> limit)
   | _ \<Rightarrow> False)"

definition load :: "string list \<Rightarrow> loaded \<Rightarrow> loaded" where
  "load ns s = s\<lparr>ld_modules := ns @ ld_modules s\<rparr>"

definition safe_import_module :: "host \<Rightarrow> string \<Rightarrow> string \<Rightarrow> loaded \<Rightarrow> bool \<times> loaded" where
  "safe_import_module h n file s =
     (if \<not> is_safe_module_name n then (False, s)
      else if n \<in> set (ld_modules s) then (True, s)
      else if \<not> h_spec h n then (False, s)
      else let (ok, others) = h_run h n file;
               s1 = (load (n # others) s)\<lparr>ld_run := ld_run s @ [(n, file)]\<rparr>
           in if ok then (True, s1) else (False, s1\<lparr>ld_modules := filter (\<lambda>m. m \<noteq> n) (ld_modules s1)\<rparr>))"

definition process_module :: "host \<Rightarrow> discoverer \<Rightarrow> string \<Rightarrow> string \<Rightarrow> string \<Rightarrow> loaded \<Rightarrow> bool \<times> loaded" where
  "process_module h d n base pkg s =
     (let file = module_file_path n base pkg
      in if \<not> validate_module_path h (dc_max d) file base then (False, s)
         else if \<not> fnmatch (dc_pattern d) (file_name file) then (False, s)
         else if \<not> is_safe_module_name n then (False, s)
         else safe_import_module h n file s)"

type_synonym found = "(string, bool) odict"

fun walk_modules :: "host \<Rightarrow> discoverer \<Rightarrow> string \<Rightarrow> string \<Rightarrow> (string \<times> bool) list \<Rightarrow> found \<times> loaded \<Rightarrow> found \<times> loaded" where
  "walk_modules h d pkg base [] rs = rs"
| "walk_modules h d pkg base ((n, is_pkg) # ns) (results, s) =
     (if is_pkg then walk_modules h d pkg base ns (results, load (h_subpackage h n) s)
      else if od_has results n then walk_modules h d pkg base ns (results, s)
      else (let (ok, s') = process_module h d n base pkg s in walk_modules h d pkg base ns (od_set n ok results, s')))"

definition discover_in_path :: "host \<Rightarrow> discoverer \<Rightarrow> string \<Rightarrow> string \<Rightarrow> loaded \<Rightarrow> found \<times> loaded" where
  "discover_in_path h d pkg base s = (if h_dir h base then walk_modules h d pkg base (h_walk h base (pkg @ ''.'')) ([], s) else ([], s))"

definition update :: "found \<Rightarrow> found \<Rightarrow> found" where
  "update rs new = fold (\<lambda>(n, b) r. od_set n b r) new rs"

fun discover_paths :: "host \<Rightarrow> discoverer \<Rightarrow> string \<Rightarrow> string list \<Rightarrow> found \<times> loaded \<Rightarrow> disc_exc + found \<times> loaded" where
  "discover_paths h d pkg [] rs = Inr rs"
| "discover_paths h d pkg (p # ps) (results, s) = (case h_resolve h p of
     None \<Rightarrow> Inl ResolveError
   | Some base \<Rightarrow> (let (new, s') = discover_in_path h d pkg base s in discover_paths h d pkg ps (update results new, s')))"

definition discover_package :: "host \<Rightarrow> discoverer \<Rightarrow> string \<Rightarrow> loaded \<Rightarrow> disc_exc + found \<times> loaded" where
  "discover_package h d pkg s = (case h_import h pkg of
     (None, ns) \<Rightarrow> Inr ([], load ns s)
   | (Some paths, ns) \<Rightarrow> if paths = [] then Inr ([], load ns s) else discover_paths h d pkg paths ([], load ns s))"

fun discover_packages :: "host \<Rightarrow> discoverer \<Rightarrow> string list \<Rightarrow> found \<times> loaded \<Rightarrow> disc_exc + found \<times> loaded" where
  "discover_packages h d [] rs = Inr rs"
| "discover_packages h d (p # ps) (results, s) = (case discover_package h d p s of
     Inl e \<Rightarrow> Inl e
   | Inr (new, s') \<Rightarrow> discover_packages h d ps (update results new, s'))"

definition discover_modules :: "host \<Rightarrow> discoverer \<Rightarrow> loaded \<Rightarrow> disc_exc + found \<times> loaded" where
  "discover_modules h d s = (case validate_inputs d of Some e \<Rightarrow> Inl e | None \<Rightarrow> discover_packages h d (dc_packages d) ([], s))"

section \<open>What is run\<close>

text \<open>What the discoverer may run: a walked module whose file passes every test.\<close>

definition admissible :: "host \<Rightarrow> discoverer \<Rightarrow> string \<Rightarrow> string \<Rightarrow> string \<Rightarrow> string \<Rightarrow> bool" where
  "admissible h d pkg base n file \<longleftrightarrow>
     (n, False) \<in> set (h_walk h base (pkg @ ''.'')) \<and> h_dir h base \<and> file = module_file_path n base pkg
     \<and> (\<exists>f b k. h_resolve h file = Some f \<and> h_resolve h base = Some b \<and> starts_with f b \<and> h_size h f = Some k \<and> k \<le> dc_max d)
     \<and> fnmatch (dc_pattern d) (file_name file) \<and> is_safe_module_name n"

definition confined :: "(string \<Rightarrow> string \<Rightarrow> bool) \<Rightarrow> loaded \<Rightarrow> found \<times> loaded \<Rightarrow> bool" where
  "confined ok s0 rs = (case rs of (results, s) \<Rightarrow>
     (\<exists>new. ld_run s = ld_run s0 @ new \<and> (\<forall>(n, f) \<in> set new. ok n f \<and> n \<notin> set (ld_modules s0)))
     \<and> set (ld_modules s0) \<subseteq> set (ld_modules s) \<and> (\<forall>n. od_get results n = Some True \<longrightarrow> n \<in> set (ld_modules s)))"

lemma confined_refl: "confined ok s ([], s)"
  by (simp add: confined_def od_get_def)

lemma confined_trans:
  assumes "confined ok s0 (r0, s1)" and "confined ok s1 (r1, s2)" and "\<forall>n. od_get r2 n = Some True \<longrightarrow> od_get r0 n = Some True \<or> od_get r1 n = Some True"
  shows "confined ok s0 (r2, s2)"
proof -
  from assms(1) obtain a where a: "ld_run s1 = ld_run s0 @ a" "\<forall>(n, f) \<in> set a. ok n f \<and> n \<notin> set (ld_modules s0)"
      "set (ld_modules s0) \<subseteq> set (ld_modules s1)" "\<forall>n. od_get r0 n = Some True \<longrightarrow> n \<in> set (ld_modules s1)" by (auto simp: confined_def)
  from assms(2) obtain b where b: "ld_run s2 = ld_run s1 @ b" "\<forall>(n, f) \<in> set b. ok n f \<and> n \<notin> set (ld_modules s1)"
      "set (ld_modules s1) \<subseteq> set (ld_modules s2)" "\<forall>n. od_get r1 n = Some True \<longrightarrow> n \<in> set (ld_modules s2)" by (auto simp: confined_def)
  have "\<forall>(n, f) \<in> set (a @ b). ok n f \<and> n \<notin> set (ld_modules s0)" using a b by auto
  moreover have "\<forall>n. od_get r2 n = Some True \<longrightarrow> n \<in> set (ld_modules s2)" using a(4) b(3,4) assms(3) by blast
  ultimately show ?thesis using a(1,3) b(1,3) unfolding confined_def by (auto intro!: exI [of _ "a @ b"])
qed

lemma confined_load: "confined ok s ([], load ns s)"
  by (auto simp: confined_def load_def od_get_def)

lemma process_confined:
  assumes "process_module h d n base pkg s = (b, s')" and "(n, False) \<in> set (h_walk h base (pkg @ ''.''))" and "h_dir h base"
  shows "confined (admissible h d pkg base) s ([(n, b)], s')"
proof (cases "validate_module_path h (dc_max d) (module_file_path n base pkg) base \<and> fnmatch (dc_pattern d) (file_name (module_file_path n base pkg))
    \<and> is_safe_module_name n \<and> n \<notin> set (ld_modules s) \<and> h_spec h n")
  case True
  then have adm: "admissible h d pkg base n (module_file_path n base pkg)"
    using assms(2,3) by (auto simp: admissible_def validate_module_path_def split: option.splits)
  obtain ok others where r: "h_run h n (module_file_path n base pkg) = (ok, others)" by fastforce
  with True assms(1) have b: "b = ok" and s': "ld_run s' = ld_run s @ [(n, module_file_path n base pkg)]"
      "set (ld_modules s') = (if ok then insert n (set others \<union> set (ld_modules s)) else (set others \<union> set (ld_modules s)) - {n})"
    by (auto simp: process_module_def safe_import_module_def Let_def load_def split: if_splits)
  with True adm show ?thesis
    by (auto simp: confined_def od_get_def intro!: exI [of _ "[(n, module_file_path n base pkg)]"] split: if_splits)
next
  case False
  with assms(1) have "s' = s \<and> (b \<longrightarrow> n \<in> set (ld_modules s))"
    by (auto simp: process_module_def safe_import_module_def Let_def split: if_splits)
  then show ?thesis by (auto simp: confined_def od_get_def split: if_splits)
qed


lemma walk_confined:
  "\<forall>x \<in> set ns. x \<in> set (h_walk h base (pkg @ ''.'')) \<Longrightarrow> h_dir h base \<Longrightarrow> confined (admissible h d pkg base) s0 rs
    \<Longrightarrow> confined (admissible h d pkg base) s0 (walk_modules h d pkg base ns rs)"
proof (induction h d pkg base ns rs rule: walk_modules.induct)
  case (2 h d pkg base n is_pkg ns results s)
  let ?c = "confined (admissible h d pkg base)"
  note prems = 2(4-6)
  from prems(3) have c: "?c s0 (results, s)" .
  show ?case
  proof (cases is_pkg)
    case True
    have "?c s0 (results, load (h_subpackage h n) s)" by (rule confined_trans [OF c confined_load]) simp
    with 2(1) [OF True] prems(1,2) True show ?thesis by simp
  next
    case np: False
    show ?thesis
    proof (cases "od_has results n")
      case True
      with 2(2) [OF np True] c prems(1,2) True np show ?thesis by simp
    next
      case False
      obtain ok s' where p: "process_module h d n base pkg s = (ok, s')" by fastforce
      have "?c s ([(n, ok)], s')" using process_confined [OF p] prems(1,2) np by simp
      then have "?c s0 (od_set n ok results, s')" by (rule confined_trans [OF c]) (simp add: od_get_Cons)
      with 2(3) [OF np False p [symmetric] refl] prems(1,2) np False p show ?thesis by simp
    qed
  qed
qed simp


lemma fold_set_True: "od_get (update rs new) n = Some True \<longrightarrow> od_get rs n = Some True \<or> (n, True) \<in> set new"
  unfolding update_def
proof (induction new arbitrary: rs)
  case (Cons x new)
  obtain a b where "x = (a, b)" by fastforce
  with Cons.IH [of "od_set a b rs"] show ?case by (auto split: if_splits)
qed simp

lemma od_wf_walk: "od_wf (fst rs) \<Longrightarrow> od_wf (fst (walk_modules h d pkg base ns rs))"
  by (induction h d pkg base ns rs rule: walk_modules.induct) (auto split: prod.splits)

lemma update_wf: "od_wf rs \<Longrightarrow> od_wf (update rs new)"
  unfolding update_def by (induction new arbitrary: rs) auto

lemma confined_mono: "confined ok s0 rs \<Longrightarrow> (\<And>n f. ok n f \<Longrightarrow> ok' n f) \<Longrightarrow> confined ok' s0 rs"
  unfolding confined_def by (fastforce split: prod.splits)

lemma confined_update:
  assumes "confined ok s0 (results, s)" and "confined ok s (new, s')" and "od_wf new"
  shows "confined ok s0 (update results new, s')"
  using confined_trans [OF assms(1,2)] fold_set_True [of results new] od_get_Some_iff [OF assms(3)] by blast

lemma in_path_confined: "confined (admissible h d pkg base) s (discover_in_path h d pkg base s) \<and> od_wf (fst (discover_in_path h d pkg base s))"
  unfolding discover_in_path_def by (auto intro: confined_refl walk_confined od_wf_walk)

text \<open>One of the paths of one of the packages.\<close>

definition may_run :: "host \<Rightarrow> discoverer \<Rightarrow> string \<Rightarrow> string \<Rightarrow> string \<Rightarrow> bool" where
  "may_run h d pkg n f \<longleftrightarrow> (\<exists>paths p base. fst (h_import h pkg) = Some paths \<and> p \<in> set paths \<and> h_resolve h p = Some base \<and> admissible h d pkg base n f)"

lemma paths_confined:
  assumes "fst (h_import h pkg) = Some all_paths"
  shows "set ps \<subseteq> set all_paths \<Longrightarrow> confined (may_run h d pkg) s0 (results, s) \<Longrightarrow> od_wf results \<Longrightarrow> discover_paths h d pkg ps (results, s) = Inr (r, s')
    \<Longrightarrow> confined (may_run h d pkg) s0 (r, s') \<and> od_wf r"
proof (induction ps arbitrary: results s)
  case (Cons p ps)
  from Cons.prems(4) obtain base where b: "h_resolve h p = Some base" by (auto split: option.splits)
  obtain new s1 where n: "discover_in_path h d pkg base s = (new, s1)" by fastforce
  have "confined (may_run h d pkg) s (new, s1)"
  proof (rule confined_mono)
    show "confined (admissible h d pkg base) s (new, s1)" using in_path_confined [of h d pkg base s] n by simp
    have "p \<in> set all_paths" using Cons.prems(1) by simp
    with assms b show "may_run h d pkg n f" if "admissible h d pkg base n f" for n f using that unfolding may_run_def by blast
  qed
  moreover have w: "od_wf new" using in_path_confined [of h d pkg base s] n by simp
  ultimately have c: "confined (may_run h d pkg) s0 (update results new, s1)" by (rule confined_update [OF Cons.prems(2)])
  from Cons.IH [OF _ c update_wf [OF Cons.prems(3)]] Cons.prems(1,4) b n show ?case by simp
qed simp

lemma package_confined:
  assumes "discover_package h d pkg s = Inr (r, s')"
  shows "confined (may_run h d pkg) s (r, s') \<and> od_wf r"
proof (cases "\<exists>paths ns. h_import h pkg = (Some paths, ns) \<and> paths \<noteq> []")
  case True
  then obtain paths ns where i: "h_import h pkg = (Some paths, ns)" "paths \<noteq> []" by blast
  with assms have "discover_paths h d pkg paths ([], load ns s) = Inr (r, s')" by (simp add: discover_package_def)
  with paths_confined [of h pkg paths paths d s "[]" "load ns s" r s'] i confined_load show ?thesis by simp
next
  case False
  with assms have "r = [] \<and> (\<exists>ns. s' = load ns s)"
    by (cases "h_import h pkg") (auto simp: discover_package_def split: option.splits if_splits)
  then show ?thesis using confined_load by auto
qed

lemma packages_confined:
  "set ps \<subseteq> set pkgs \<Longrightarrow> confined (\<lambda>n f. \<exists>pkg \<in> set pkgs. may_run h d pkg n f) s0 (results, s) \<Longrightarrow> discover_packages h d ps (results, s) = Inr (r, s')
    \<Longrightarrow> confined (\<lambda>n f. \<exists>pkg \<in> set pkgs. may_run h d pkg n f) s0 (r, s')"
proof (induction ps arbitrary: results s)
  case (Cons p ps)
  from Cons.prems(3) obtain new s1 where n: "discover_package h d p s = Inr (new, s1)" by (auto split: sum.splits)
  have "confined (\<lambda>n f. \<exists>pkg \<in> set pkgs. may_run h d pkg n f) s (new, s1)"
    using package_confined [OF n] Cons.prems(1) by (auto intro: confined_mono)
  with package_confined [OF n] have c: "confined (\<lambda>n f. \<exists>pkg \<in> set pkgs. may_run h d pkg n f) s0 (update results new, s1)"
    by (auto intro: confined_update [OF Cons.prems(2)])
  from Cons.IH [OF _ c] Cons.prems(1,3) n show ?case by simp
qed simp



definition host_demo :: host where
  "host_demo = \<lparr>h_import = (\<lambda>p. (Some [''/m''], [p])), h_dir = (\<lambda>p. True), h_walk = (\<lambda>b p. [(p @ ''chat_trigger'', False), (p @ ''util'', False)]),
     h_subpackage = (\<lambda>n. []), h_resolve = Some, h_size = (\<lambda>p. Some 10), h_spec = (\<lambda>n. True), h_run = (\<lambda>n p. (True, []))\<rparr>"

definition discoverer_demo :: discoverer where
  "discoverer_demo = \<lparr>dc_packages = [''pkg''], dc_pattern = ''*_trigger.py'', dc_max = 100\<rparr>"

lemma discovery_demo:
  "discover_modules host_demo discoverer_demo \<lparr>ld_modules = [], ld_run = []\<rparr>
     = Inr ([(''pkg.chat_trigger'', True), (''pkg.util'', False)], \<lparr>ld_modules = [''pkg.chat_trigger'', ''pkg''], ld_run = [(''pkg.chat_trigger'', ''/m/chat_trigger.py'')]\<rparr>)"
  by code_simp


section \<open>What is missed\<close>

text \<open>
  The package's name is removed wherever it occurs, so a module of a sub-package whose name ends with it is looked for in a file that does not exist; a handler
  whose name contains a forbidden word, such as \<open>latest_trigger\<close>, is skipped; and a file of a directory whose name begins with the package's passes for one of its files.
\<close>

lemma package_name_cut_twice: "module_file_path ''a.data.x_trigger'' ''/m'' ''a'' = ''/m/datx_trigger.py''"
  by code_simp

lemma latest_is_unsafe: "\<not> is_safe_module_name ''pkg.latest_trigger''" and "is_safe_module_name ''pkg.newest_trigger''"
  by code_simp+

lemma sibling_passes:
  assumes "h_resolve h f = Some ''/m/pkg_private/x_trigger.py''" and "h_resolve h b = Some ''/m/pkg''" and "h_size h ''/m/pkg_private/x_trigger.py'' = Some k" and "k \<le> limit"
  shows "validate_module_path h limit f b"
  using assms by (simp add: validate_module_path_def starts_with_def)

end
