(* ===== verification/Tool_Schema.thy ===== *)
theory Tool_Schema
  imports Schema_Split Content_Validator
begin

text \<open>
  From a module's input schema to the tools an agent sees: the inlining of references (\<open>utils/llm_ready_schema.py\<close>) and the tool definitions made of
  the triggers of the schema (\<open>models/module/tool_cache.py\<close>). The number \<open>n\<close> is what is left of the call stack.
\<close>

section \<open>Inlining\<close>

datatype inline_exc = RecursionLimit | UnknownDefinition | NotAReference

text \<open>The definition an object stands for, if it has a local reference.\<close>

definition target :: "pstruct \<Rightarrow> pstruct \<Rightarrow> inline_exc + pvalue option" where
  "target defs fs = (case od_get fs ''$ref'' of
     None \<Rightarrow> Inr None
   | Some (PStr r) \<Rightarrow>
       if starts_with r ''#/$defs/'' then (case od_get defs (last_segment r) of None \<Rightarrow> Inl UnknownDefinition | Some d \<Rightarrow> Inr (Some d))
       else Inr None
   | Some v \<Rightarrow> Inl NotAReference)"

definition on_value :: "('a \<Rightarrow> 'e + 'b) \<Rightarrow> 'k \<times> 'a \<Rightarrow> 'e + 'k \<times> 'b" where
  "on_value f entry = (case f (snd entry) of Inl e \<Rightarrow> Inl e | Inr w \<Rightarrow> Inr (fst entry, w))"

primrec inline_value :: "nat \<Rightarrow> pstruct \<Rightarrow> pvalue \<Rightarrow> inline_exc + pvalue" where
  "inline_value 0 defs v = Inl RecursionLimit"
| "inline_value (Suc n) defs v = (case v of
     PStruct fs \<Rightarrow> (case target defs fs of
         Inl e \<Rightarrow> Inl e
       | Inr (Some d) \<Rightarrow> inline_value n defs d
       | Inr None \<Rightarrow> (case mapE (on_value (inline_value n defs)) fs of Inl e \<Rightarrow> Inl e | Inr gs \<Rightarrow> Inr (PStruct gs)))
   | PList xs \<Rightarrow> (case mapE (inline_value n defs) xs of Inl e \<Rightarrow> Inl e | Inr ys \<Rightarrow> Inr (PList ys))
   | _ \<Rightarrow> Inr v)"

text \<open>\<open>schema.pop("$defs", {})\<close>; a \<open>$defs\<close> that is no dictionary defines nothing.\<close>

definition inline_refs :: "nat \<Rightarrow> pstruct \<Rightarrow> inline_exc + pvalue" where
  "inline_refs n schema = inline_value n (schema_defs schema) (PStruct (od_del ''$defs'' schema))"

text \<open>\<open>CustomOrderSchema.sort\<close>\<close>

definition preferred :: "string list" where
  "preferred = [''title'', ''description'', ''type'', ''examples'', ''properties'']"

definition preferred_first :: "pstruct \<Rightarrow> pstruct" where
  "preferred_first fs = filter_map (\<lambda>k. map_option (Pair k) (od_get fs k)) preferred @ filter (\<lambda>(k, v). k \<notin> set preferred) fs"

fun sort_value :: "pvalue \<Rightarrow> pvalue" and sort_fields :: "pstruct \<Rightarrow> pstruct" and sort_items :: "pvalue list \<Rightarrow> pvalue list" where
  "sort_value (PStruct fs) = PStruct (preferred_first (sort_fields fs))"
| "sort_value (PList xs) = PList (sort_items xs)"
| "sort_value v = v"
| "sort_fields [] = []"
| "sort_fields ((k, v) # fs) = (k, sort_value v) # sort_fields fs"
| "sort_items [] = []"
| "sort_items (v # xs) = sort_value v # sort_items xs"

section \<open>Tools\<close>

datatype tool_exc = NotInlined inline_exc | Malformed

record tool_definition =
  td_name :: string
  td_description :: string
  td_properties :: pstruct
  td_required :: "string list"

text \<open>\<open>set(schema.get("required", []))\<close>: the strings among the elements; \<open>None\<close> is a \<open>TypeError\<close>.\<close>

definition unhashable :: "pvalue \<Rightarrow> bool" where
  "unhashable v = (case v of PList xs \<Rightarrow> True | PStruct fs \<Rightarrow> True | _ \<Rightarrow> False)"

definition string_of :: "pvalue \<Rightarrow> string option" where
  "string_of v = (case v of PStr s \<Rightarrow> Some s | _ \<Rightarrow> None)"

definition required_fields :: "pstruct \<Rightarrow> string list option" where
  "required_fields fs = (case od_get fs ''required'' of
     None \<Rightarrow> Some []
   | Some (PList xs) \<Rightarrow> if list_ex unhashable xs then None else Some (filter_map string_of xs)
   | Some (PStr s) \<Rightarrow> Some (map (\<lambda>c. [c]) s)
   | Some (PStruct gs) \<Rightarrow> Some (map fst gs)
   | Some v \<Rightarrow> None)"

text \<open>\<open>schema.get("properties", {})\<close>, which must be a dictionary.\<close>

definition properties_of :: "pstruct \<Rightarrow> pstruct option" where
  "properties_of fs = (case od_get fs ''properties'' of None \<Rightarrow> Some [] | Some v \<Rightarrow> dict_of v)"

definition internal_fields :: "string list" where
  "internal_fields = [''protocol'', ''created_at'']"

definition build_parameters :: "pvalue \<Rightarrow> (pstruct \<times> string list) option" where
  "build_parameters v = (case dict_of v of
     None \<Rightarrow> None
   | Some fs \<Rightarrow> (case (properties_of fs, required_fields fs) of
       (Some ps, Some req) \<Rightarrow>
         (let shown = filter (\<lambda>(k, p). k \<notin> set internal_fields) ps
          in if list_all (\<lambda>(k, p). dict_of p \<noteq> None) shown then Some (shown, filter (\<lambda>k. k \<in> set req) (map fst shown)) else None)
     | _ \<Rightarrow> None))"

text \<open>The protocol of a definition: \<open>None\<close> if it is no trigger, or an error.\<close>

definition protocol_const :: "pvalue \<Rightarrow> tool_exc + pvalue option" where
  "protocol_const v = (case dict_of v of
     None \<Rightarrow> Inl Malformed
   | Some fs \<Rightarrow> (case properties_of fs of
       None \<Rightarrow> Inl Malformed
     | Some ps \<Rightarrow> (case od_get ps ''protocol'' of
         None \<Rightarrow> Inr None
       | Some (PStruct p) \<Rightarrow> Inr (od_get p ''const'')
       | Some (PStr s) \<Rightarrow> if contains ''const'' s then Inl Malformed else Inr None
       | Some (PList xs) \<Rightarrow> if list_ex (\<lambda>x. string_of x = Some ''const'') xs then Inl Malformed else Inr None
       | Some w \<Rightarrow> Inl Malformed)))"

definition tool_of :: "nat \<Rightarrow> pstruct \<Rightarrow> pvalue \<Rightarrow> pvalue \<Rightarrow> tool_exc + tool_definition" where
  "tool_of n defs d const = (case dict_of d of
     None \<Rightarrow> Inl Malformed
   | Some fs \<Rightarrow> (case inline_refs n (od_set ''$defs'' (PStruct defs) fs) of
       Inl e \<Rightarrow> Inl (NotInlined e)
     | Inr inlined \<Rightarrow> (case (build_parameters inlined, string_of const, case od_get fs ''description'' of None \<Rightarrow> Some '''' | Some v \<Rightarrow> string_of v) of
         (Some (ps, req), Some name, Some description) \<Rightarrow>
           Inr \<lparr>td_name = name, td_description = description, td_properties = ps, td_required = req\<rparr>
       | _ \<Rightarrow> Inl Malformed)))"

fun extract_tools :: "nat \<Rightarrow> string list \<Rightarrow> pstruct \<Rightarrow> pstruct \<Rightarrow> tool_exc + tool_definition list" where
  "extract_tools n utility defs [] = Inr []"
| "extract_tools n utility defs ((name, d) # ds) =
     (if name \<in> set utility then extract_tools n utility defs ds
      else case protocol_const d of
        Inl e \<Rightarrow> Inl e
      | Inr None \<Rightarrow> extract_tools n utility defs ds
      | Inr (Some const) \<Rightarrow> (case tool_of n defs d const of
          Inl e \<Rightarrow> Inl e
        | Inr t \<Rightarrow> (case extract_tools n utility defs ds of Inl e \<Rightarrow> Inl e | Inr ts \<Rightarrow> Inr (t # ts))))"

definition extract_tools_from_schema :: "nat \<Rightarrow> string list \<Rightarrow> pstruct \<Rightarrow> tool_exc + tool_definition list" where
  "extract_tools_from_schema n utility schema = (case od_get schema ''$defs'' of
     None \<Rightarrow> Inr []
   | Some v \<Rightarrow> (case dict_of v of None \<Rightarrow> Inl Malformed | Some defs \<Rightarrow> extract_tools n utility defs defs))"

section \<open>No reference is left\<close>

definition local_ref :: "pstruct \<Rightarrow> bool" where
  "local_ref fs \<longleftrightarrow> (\<exists>r. od_get fs ''$ref'' = Some (PStr r) \<and> starts_with r ''#/$defs/'')"

fun ref_free :: "pvalue \<Rightarrow> bool" and ref_free_fields :: "pstruct \<Rightarrow> bool" and ref_free_items :: "pvalue list \<Rightarrow> bool" where
  "ref_free (PStruct fs) \<longleftrightarrow> \<not> local_ref fs \<and> ref_free_fields fs"
| "ref_free (PList xs) \<longleftrightarrow> ref_free_items xs"
| "ref_free v \<longleftrightarrow> True"
| "ref_free_fields [] \<longleftrightarrow> True"
| "ref_free_fields ((k, v) # fs) \<longleftrightarrow> ref_free v \<and> ref_free_fields fs"
| "ref_free_items [] \<longleftrightarrow> True"
| "ref_free_items (v # xs) \<longleftrightarrow> ref_free v \<and> ref_free_items xs"

lemma ref_free_fields_iff: "ref_free_fields fs \<longleftrightarrow> (\<forall>(k, v) \<in> set fs. ref_free v)"
  by (induction fs) auto

lemma ref_free_items_iff: "ref_free_items xs \<longleftrightarrow> (\<forall>v \<in> set xs. ref_free v)"
  by (induction xs) auto

lemma mapE_list_all2: "mapE f xs = Inr ys \<longleftrightarrow> list_all2 (\<lambda>x y. f x = Inr y) xs ys"
proof (induction xs arbitrary: ys)
  case (Cons x xs)
  show ?case by (auto simp: list_all2_Cons1 Cons.IH [symmetric] split: sum.splits)
qed auto

lemma list_all2_from: "list_all2 R xs ys \<Longrightarrow> y \<in> set ys \<Longrightarrow> \<exists>x \<in> set xs. R x y"
  by (induction rule: list_all2_induct) auto

lemma list_all2_to: "list_all2 R xs ys \<Longrightarrow> x \<in> set xs \<Longrightarrow> \<exists>y \<in> set ys. R x y"
  by (induction rule: list_all2_induct) auto

lemma on_value_get:
  assumes "list_all2 (\<lambda>x y. on_value f x = Inr y) fs gs"
  shows "od_get gs k = (case od_get fs k of None \<Rightarrow> None | Some v \<Rightarrow> (case f v of Inl e \<Rightarrow> None | Inr w \<Rightarrow> Some w)) \<and> map fst gs = map fst fs"
  using assms
proof (induction rule: list_all2_induct)
  case (Cons x xs y ys)
  obtain a b where x: "x = (a, b)" by fastforce
  with Cons.hyps(1) obtain w where "f b = Inr w" "y = (a, w)" by (auto simp: on_value_def split: sum.splits)
  with Cons.IH x show ?case by (cases "k = a") (simp_all add: od_get_Cons)
qed simp

lemma inline_ref_free: "inline_value n defs v = Inr w \<Longrightarrow> ref_free w"
proof (induction n arbitrary: v w)
  case (Suc n)
  show ?case
  proof (cases v)
    case (PList xs)
    with Suc.prems obtain ys where ys: "mapE (inline_value n defs) xs = Inr ys" "w = PList ys" by (auto split: sum.splits)
    have "ref_free y" if "y \<in> set ys" for y
    proof -
      from that ys(1) obtain x where "inline_value n defs x = Inr y" unfolding mapE_list_all2 by (blast dest: list_all2_from)
      then show ?thesis by (rule Suc.IH)
    qed
    with ys(2) show ?thesis by (simp add: ref_free_items_iff)
  next
    case (PStruct fs)
    show ?thesis
    proof (cases "\<exists>d. target defs fs = Inr (Some d)")
      case True
      with Suc PStruct show ?thesis by auto
    next
      case False
      with Suc.prems PStruct obtain gs where t: "target defs fs = Inr None" and gs: "mapE (on_value (inline_value n defs)) fs = Inr gs" "w = PStruct gs"
        by (auto split: sum.splits option.splits)
      note l = gs(1) [unfolded mapE_list_all2]
      have "ref_free y" if "(k, y) \<in> set gs" for k y
      proof -
        from that l obtain x where "on_value (inline_value n defs) x = Inr (k, y)" by (blast dest: list_all2_from)
        then have "inline_value n defs (snd x) = Inr y" by (auto simp: on_value_def split: sum.splits)
        then show ?thesis by (rule Suc.IH)
      qed
      moreover have "\<not> local_ref gs"
      proof
        assume "local_ref gs"
        then obtain r v' where r: "od_get fs ''$ref'' = Some v'" "inline_value n defs v' = Inr (PStr r)" "starts_with r ''#/$defs/''"
          unfolding local_ref_def conjunct1 [OF on_value_get [OF l]] by (auto split: option.splits sum.splits)
        with t obtain r' where v': "v' = PStr r'" "\<not> starts_with r' ''#/$defs/''" by (auto simp: target_def split: pvalue.splits if_splits option.splits)
        with r show False by (cases n) auto
      qed
      ultimately show ?thesis using gs(2) by (auto simp: ref_free_fields_iff)
    qed
  qed (use Suc.prems in auto)
qed simp


section \<open>When inlining ends\<close>

definition inline_calls :: "pstruct \<Rightarrow> pvalue \<Rightarrow> pvalue list" where
  "inline_calls defs v = (case v of
     PStruct fs \<Rightarrow> (case target defs fs of Inl e \<Rightarrow> [] | Inr (Some d) \<Rightarrow> [d] | Inr None \<Rightarrow> map snd fs)
   | PList xs \<Rightarrow> xs
   | _ \<Rightarrow> [])"

definition inline_step :: "pstruct \<Rightarrow> pvalue \<Rightarrow> pvalue \<Rightarrow> bool" where
  "inline_step defs w v \<longleftrightarrow> w \<in> set (inline_calls defs v)"

lemma target_defined: "target defs fs = Inr (Some d) \<Longrightarrow> d \<in> snd ` set defs"
  by (force simp: target_def od_get_def dest: map_of_SomeD split: option.splits pvalue.splits if_splits)

lemma inline_step_smaller: "inline_step defs w v \<Longrightarrow> w \<in> snd ` set defs \<or> size w < size v"
proof (cases v)
  case (PStruct fs)
  assume "inline_step defs w v"
  with PStruct show ?thesis
    by (cases "target defs fs") (auto simp: inline_step_def inline_calls_def split: option.splits dest: target_defined size_field)
next
  case (PList xs)
  assume "inline_step defs w v"
  with PList have "w \<in> set xs" by (simp add: inline_step_def inline_calls_def)
  then have "size w < size (PList xs)" by (induction xs) auto
  with PList show ?thesis by simp
qed (simp_all add: inline_step_def inline_calls_def)

lemma inlined_calls: "inline_value (Suc n) defs v = Inr w \<Longrightarrow> inline_step defs x v \<Longrightarrow> \<exists>y. inline_value n defs x = Inr y"
proof (cases v)
  case (PList xs)
  assume "inline_value (Suc n) defs v = Inr w" and x: "inline_step defs x v"
  with PList obtain ys where "list_all2 (\<lambda>x y. inline_value n defs x = Inr y) xs ys" by (auto simp: mapE_list_all2 split: sum.splits)
  from list_all2_to [OF this, of x] x PList show ?thesis by (auto simp: inline_step_def inline_calls_def)
next
  case (PStruct fs)
  assume i: "inline_value (Suc n) defs v = Inr w" and x: "inline_step defs x v"
  show ?thesis
  proof (cases "target defs fs = Inr None")
    case True
    with i PStruct obtain gs where l: "list_all2 (\<lambda>x y. on_value (inline_value n defs) x = Inr y) fs gs" by (auto simp: mapE_list_all2 split: sum.splits)
    from x PStruct True obtain k where "(k, x) \<in> set fs" by (auto simp: inline_step_def inline_calls_def)
    from list_all2_to [OF l this] show ?thesis by (auto simp: on_value_def split: sum.splits)
  next
    case False
    with i x PStruct show ?thesis by (auto simp: inline_step_def inline_calls_def split: sum.splits option.splits)
  qed
qed (auto simp: inline_step_def inline_calls_def)

lemma inlined_accp: "inline_value n defs v = Inr w \<Longrightarrow> Wellfounded.accp (inline_step defs) v"
proof (induction n arbitrary: v w)
  case (Suc n)
  show ?case by (rule accpI) (use Suc.IH inlined_calls [OF Suc.prems] in blast)
qed simp

lemma mapE_cong: "(\<And>x. x \<in> set xs \<Longrightarrow> f x = g x) \<Longrightarrow> mapE f xs = mapE g xs"
proof (induction xs)
  case (Cons x xs)
  then have "mapE f xs = mapE g xs" "f x = g x" by simp_all
  then show ?case by (simp only: mapE.simps)
qed simp

lemma inline_cong: "(\<And>x. inline_step defs x v \<Longrightarrow> inline_value n defs x = inline_value m defs x) \<Longrightarrow> inline_value (Suc n) defs v = inline_value (Suc m) defs v"
proof (cases v)
  case (PStruct fs)
  assume c: "\<And>x. inline_step defs x v \<Longrightarrow> inline_value n defs x = inline_value m defs x"
  show ?thesis
  proof (cases "target defs fs = Inr None")
    case True
    have "mapE (on_value (inline_value n defs)) fs = mapE (on_value (inline_value m defs)) fs"
      by (rule mapE_cong) (use c PStruct True in \<open>auto simp: on_value_def inline_step_def inline_calls_def\<close>)
    with PStruct True show ?thesis by simp
  next
    case False
    with c PStruct show ?thesis by (auto simp: inline_step_def inline_calls_def split: sum.splits option.splits)
  qed
next
  case (PList xs)
  assume c: "\<And>x. inline_step defs x v \<Longrightarrow> inline_value n defs x = inline_value m defs x"
  have "mapE (inline_value n defs) xs = mapE (inline_value m defs) xs"
    by (rule mapE_cong) (use c PList in \<open>simp add: inline_step_def inline_calls_def\<close>)
  with PList show ?thesis by simp
qed simp_all

lemma mapE_error_from: "mapE f xs = Inl e \<Longrightarrow> \<exists>x \<in> set xs. f x = Inl e"
  by (induction xs) (auto split: sum.splits)

lemma inline_exhausted: "inline_value (Suc n) defs v = Inl RecursionLimit \<Longrightarrow> \<exists>x. inline_step defs x v \<and> inline_value n defs x = Inl RecursionLimit"
proof (cases v)
  case (PStruct fs)
  assume i: "inline_value (Suc n) defs v = Inl RecursionLimit"
  show ?thesis
  proof (cases "target defs fs = Inr None")
    case True
    with i PStruct obtain kx where "kx \<in> set fs" "on_value (inline_value n defs) kx = Inl RecursionLimit" by (auto dest: mapE_error_from split: sum.splits)
    with PStruct True show ?thesis
      by (intro exI [of _ "snd kx"]) (auto simp: inline_step_def inline_calls_def on_value_def split: sum.splits)
  next
    case False
    have "target defs fs \<noteq> Inl RecursionLimit" by (auto simp: target_def split: option.splits pvalue.splits)
    with False i PStruct show ?thesis by (auto simp: inline_step_def inline_calls_def split: sum.splits option.splits)
  qed
next
  case (PList xs)
  assume "inline_value (Suc n) defs v = Inl RecursionLimit"
  with PList show ?thesis by (auto simp: inline_step_def inline_calls_def dest: mapE_error_from split: sum.splits)
qed simp_all

lemma accp_inlined: "Wellfounded.accp (inline_step defs) v \<Longrightarrow> \<exists>N. \<forall>n\<ge>N. inline_value n defs v = inline_value N defs v \<and> inline_value n defs v \<noteq> Inl RecursionLimit"
proof (induction v rule: accp.induct)
  case (accI v)
  let ?P = "\<lambda>x n. inline_value n defs x \<noteq> Inl RecursionLimit \<and> (\<forall>m\<ge>n. inline_value m defs x = inline_value n defs x)"
  have "\<exists>M. \<forall>x\<in>set (inline_calls defs v). \<forall>n\<ge>M. ?P x n"
  proof (rule common_bound)
    fix x assume "x \<in> set (inline_calls defs v)"
    with accI.IH obtain N where "\<forall>n\<ge>N. inline_value n defs x = inline_value N defs x \<and> inline_value n defs x \<noteq> Inl RecursionLimit"
      unfolding inline_step_def by blast
    then have "\<forall>n\<ge>N. ?P x n" by (metis order.trans)
    then show "\<exists>N. \<forall>n\<ge>N. ?P x n" ..
  qed
  then obtain M where M: "\<And>x n. inline_step defs x v \<Longrightarrow> M \<le> n \<Longrightarrow> ?P x n" unfolding inline_step_def by blast
  have "inline_value n defs v = inline_value (Suc M) defs v \<and> inline_value n defs v \<noteq> Inl RecursionLimit" if n: "Suc M \<le> n" for n
  proof -
    obtain m where m: "n = Suc m" "M \<le> m" using n by (cases n) auto
    have "inline_value (Suc m) defs v = inline_value (Suc M) defs v" by (rule inline_cong) (use M m(2) in blast)
    moreover have "inline_value (Suc m) defs v \<noteq> Inl RecursionLimit" using inline_exhausted M m(2) by blast
    ultimately show ?thesis using m(1) by simp
  qed
  then show ?case by blast
qed

text \<open>
  C39: Inlining ends unless a definition refers to itself. If no definition reaches itself through references, a deep enough call stack is enough whatever
  the schema, and a deeper one gives the same; if the schema reaches a definition that reaches itself, no call stack is enough; and what inlining gives
  has no reference to a definition at any depth.
\<close>

theorem inlining_ends_iff_acyclic:
  "((\<forall>d \<in> snd ` set defs. \<not> (inline_step defs)\<^sup>+\<^sup>+ d d)
      \<longrightarrow> (\<exists>N. \<forall>n\<ge>N. inline_value n defs v = inline_value N defs v \<and> inline_value n defs v \<noteq> Inl RecursionLimit))
    \<and> (\<forall>d. (inline_step defs)\<^sup>*\<^sup>* d v \<and> (inline_step defs)\<^sup>+\<^sup>+ d d \<longrightarrow> (\<forall>n. isl (inline_value n defs v)))
    \<and> (\<forall>n w. inline_value n defs v = Inr w \<longrightarrow> ref_free w)"
proof (intro conjI impI allI)
  assume acyc: "\<forall>d \<in> snd ` set defs. \<not> (inline_step defs)\<^sup>+\<^sup>+ d d"
  have "Wellfounded.accp (inline_step defs) v"
  proof (rule accp_from_base [where B = "snd ` set defs" and f = size])
    show "Wellfounded.accp (inline_step defs) d" if "d \<in> snd ` set defs" for d
      by (rule base_accp [where f = size, OF _ _ acyc that]) (simp_all add: inline_step_smaller)
  qed (rule inline_step_smaller)
  then show "\<exists>N. \<forall>n\<ge>N. inline_value n defs v = inline_value N defs v \<and> inline_value n defs v \<noteq> Inl RecursionLimit" by (rule accp_inlined)
next
  fix d n assume d: "(inline_step defs)\<^sup>*\<^sup>* d v \<and> (inline_step defs)\<^sup>+\<^sup>+ d d"
  show "isl (inline_value n defs v)"
  proof (rule ccontr)
    assume "\<not> ?thesis"
    then obtain w where "inline_value n defs v = Inr w" by (cases "inline_value n defs v") auto
    then have "Wellfounded.accp (inline_step defs) v" by (rule inlined_accp)
    with d have "Wellfounded.accp (inline_step defs) d" by (blast intro: accp_downwards)
    with d no_loop [of "inline_step defs" d] show False by blast
  qed
qed (rule inline_ref_free)


definition node_demo :: pvalue where
  "node_demo = PStruct [(''properties'', PStruct [(''next'', PStruct [(''$ref'', PStr ''#/$defs/Node'')])])]"

definition node_ref :: pvalue where
  "node_ref = PStruct [(''$ref'', PStr ''#/$defs/Node'')]"

lemma node_demo_calls:
  "inline_calls [(''Node'', node_demo)] node_ref = [node_demo]"
  "inline_calls [(''Node'', node_demo)] node_demo = [PStruct [(''next'', node_ref)]]"
  "inline_calls [(''Node'', node_demo)] (PStruct [(''next'', node_ref)]) = [node_ref]"
proof -
  have l: "last_segment ''#/$defs/Node'' = ''Node''" by code_simp
  show "inline_calls [(''Node'', node_demo)] node_ref = [node_demo]"
    by (simp add: inline_calls_def node_ref_def target_def od_get_Cons starts_with_def l)
  show "inline_calls [(''Node'', node_demo)] node_demo = [PStruct [(''next'', node_ref)]]"
    by (simp add: inline_calls_def node_demo_def node_ref_def target_def od_get_Cons)
  show "inline_calls [(''Node'', node_demo)] (PStruct [(''next'', node_ref)]) = [node_ref]"
    by (simp add: inline_calls_def target_def od_get_Cons)
qed

theorem inlining_ends_iff_acyclic_witness: "isl (inline_value 1000 [(''Node'', node_demo)] node_ref)"
proof -
  let ?s = "inline_step [(''Node'', node_demo)]"
  have a: "?s node_demo node_ref" "?s (PStruct [(''next'', node_ref)]) node_demo" "?s node_ref (PStruct [(''next'', node_ref)])"
    unfolding inline_step_def node_demo_calls by simp_all
  then have "?s\<^sup>*\<^sup>* node_demo node_ref" by blast
  moreover have "?s\<^sup>+\<^sup>+ node_demo node_demo"
  proof -
    have "?s\<^sup>+\<^sup>+ node_demo node_ref" using a(1) by (rule tranclp.r_into_trancl)
    then have "?s\<^sup>+\<^sup>+ node_demo (PStruct [(''next'', node_ref)])" using a(3) by (rule tranclp.trancl_into_trancl)
    then show ?thesis using a(2) by (rule tranclp.trancl_into_trancl)
  qed
  ultimately show ?thesis using inlining_ends_iff_acyclic [of "[(''Node'', node_demo)]" node_ref] by blast
qed

section \<open>The tools of a schema\<close>

text \<open>The definitions that are triggers of the module's own.\<close>

definition triggers :: "string list \<Rightarrow> pstruct \<Rightarrow> pstruct" where
  "triggers utility defs = filter (\<lambda>(name, d). name \<notin> set utility \<and> (\<exists>c. protocol_const d = Inr (Some c))) defs"

lemma od_get_del_other: "k \<noteq> k' \<Longrightarrow> od_get (od_del k' d) k = od_get d k"
  by simp

lemma inlined_field:
  assumes "inline_value (Suc n) defs (PStruct fs) = Inr (PStruct gs)" and "\<not> local_ref fs"
  shows "od_get gs k = (case od_get fs k of None \<Rightarrow> None | Some v \<Rightarrow> (case inline_value n defs v of Inl e \<Rightarrow> None | Inr w \<Rightarrow> Some w))
    \<and> map fst gs = map fst fs \<and> (\<forall>v. od_get fs k = Some v \<longrightarrow> \<not> isl (inline_value n defs v))"
proof -
  have "target defs fs = Inr None"
    using assms by (auto simp: local_ref_def target_def split: option.splits pvalue.splits if_splits)
  with assms(1) have l: "list_all2 (\<lambda>x y. on_value (inline_value n defs) x = Inr y) fs gs" by (auto simp: mapE_list_all2 [symmetric] split: sum.splits)
  have "\<not> isl (inline_value n defs v)" if "od_get fs k = Some v" for v
  proof -
    from that have "(k, v) \<in> set fs" by (simp add: od_get_def map_of_SomeD)
    from list_all2_to [OF l this] show ?thesis by (auto simp: on_value_def split: sum.splits)
  qed
  with on_value_get [OF l, of k] show ?thesis by blast
qed

lemma inlined_strings: "inline_value n defs (PList (map PStr rs)) = Inr w \<Longrightarrow> w = PList (map PStr rs)"
proof (cases n)
  case (Suc m)
  assume "inline_value n defs (PList (map PStr rs)) = Inr w"
  with Suc obtain ys where ys: "w = PList ys" "list_all2 (\<lambda>x y. inline_value m defs x = Inr y) (map PStr rs) ys"
    by (auto simp: mapE_list_all2 split: sum.splits)
  from ys(2) have "ys = map PStr rs" by (induction rs arbitrary: ys) (auto simp: list_all2_Cons1, cases m, auto)
  with ys(1) show ?thesis by simp
qed simp


text \<open>What a tool made of a definition is.\<close>

definition tool_matches :: "string \<times> pvalue \<Rightarrow> tool_definition \<Rightarrow> bool" where
  "tool_matches entry t \<longleftrightarrow> (\<exists>fs. snd entry = PStruct fs \<and> protocol_const (snd entry) = Inr (Some (PStr (td_name t)))
     \<and> ref_free_fields (td_properties t) \<and> set (td_required t) \<subseteq> fst ` set (td_properties t)
     \<and> (\<forall>ps. od_get fs ''properties'' = Some (PStruct ps) \<and> \<not> local_ref fs \<and> \<not> local_ref ps \<longrightarrow>
          map fst (td_properties t) = filter (\<lambda>k. k \<notin> set internal_fields) (map fst ps)
          \<and> (\<forall>rs. od_get fs ''required'' = Some (PList (map PStr rs)) \<longrightarrow> td_required t = filter (\<lambda>k. k \<in> set rs) (map fst (td_properties t)))))"

lemma fst_filter: "map fst (filter (\<lambda>(k, p). P k) ps) = filter P (map fst ps)"
  by (induction ps) auto

lemma strings_required: "list_ex unhashable (map PStr rs) = False" "filter_map string_of (map PStr rs) = rs"
  by (induction rs) (simp_all add: unhashable_def string_of_def)

lemma build_parameters_inlined:
  assumes "inline_value n defs (PStruct fs) = Inr v" and "build_parameters v = Some (ps', req)"
  shows "ref_free_fields ps' \<and> set req \<subseteq> fst ` set ps'
    \<and> (\<forall>ps. od_get fs ''properties'' = Some (PStruct ps) \<and> \<not> local_ref fs \<and> \<not> local_ref ps \<longrightarrow>
          map fst ps' = filter (\<lambda>k. k \<notin> set internal_fields) (map fst ps)
          \<and> (\<forall>rs. od_get fs ''required'' = Some (PList (map PStr rs)) \<longrightarrow> req = filter (\<lambda>k. k \<in> set rs) (map fst ps')))"
proof -
  from assms(2) obtain gs qs rq where v: "v = PStruct gs" and q: "properties_of gs = Some qs" "required_fields gs = Some rq"
    and ps': "ps' = filter (\<lambda>(k, p). k \<notin> set internal_fields) qs" "req = filter (\<lambda>k. k \<in> set rq) (map fst ps')"
    by (auto simp: build_parameters_def Let_def split: option.splits if_splits)
  have "ref_free (PStruct gs)" using inline_ref_free assms(1) v by blast
  have "ref_free_fields qs"
  proof (cases "od_get gs ''properties''")
    case (Some w)
    with q(1) have "w = PStruct qs" by (simp add: properties_of_def)
    with Some have "(''properties'', PStruct qs) \<in> set gs" by (simp add: od_get_def map_of_SomeD)
    have "\<forall>(k, y) \<in> set gs. ref_free y" using \<open>ref_free (PStruct gs)\<close> unfolding ref_free.simps(1) ref_free_fields_iff by (rule conjunct2)
    from bspec [OF this \<open>(''properties'', PStruct qs) \<in> set gs\<close>] have "ref_free (PStruct qs)" by (simp only: prod.case)
    then show ?thesis by simp
  qed (use q(1) in \<open>simp add: properties_of_def\<close>)
  then have free: "ref_free_fields ps'" by (auto simp: ps'(1) ref_free_fields_iff)
  have sub: "set req \<subseteq> fst ` set ps'" by (auto simp: ps'(2))
  have exact: "map fst ps' = filter (\<lambda>k. k \<notin> set internal_fields) (map fst ps)
      \<and> (\<forall>rs. od_get fs ''required'' = Some (PList (map PStr rs)) \<longrightarrow> req = filter (\<lambda>k. k \<in> set rs) (map fst ps'))"
    if ps: "od_get fs ''properties'' = Some (PStruct ps)" "\<not> local_ref fs" "\<not> local_ref ps" for ps
  proof -
    obtain m where n: "n = Suc m" using assms(1) by (cases n) auto
    have i: "inline_value (Suc m) defs (PStruct fs) = Inr (PStruct gs)" using assms(1) v n by simp
    from inlined_field [OF i ps(2), of "''properties''"] ps(1) obtain w where w: "inline_value m defs (PStruct ps) = Inr w" "od_get gs ''properties'' = Some w"
      by (cases "inline_value m defs (PStruct ps)") auto
    with q(1) have "w = PStruct qs" by (simp add: properties_of_def)
    moreover obtain m' where "m = Suc m'" using w(1) by (cases m) auto
    ultimately have "map fst qs = map fst ps" using inlined_field [of m' defs ps qs] w(1) ps(3) by blast
    then have names: "map fst ps' = filter (\<lambda>k. k \<notin> set internal_fields) (map fst ps)" unfolding ps'(1) fst_filter by simp
    have "req = filter (\<lambda>k. k \<in> set rs) (map fst ps')" if r: "od_get fs ''required'' = Some (PList (map PStr rs))" for rs
    proof -
      from inlined_field [OF i ps(2), of "''required''"] r obtain u where u: "inline_value m defs (PList (map PStr rs)) = Inr u" "od_get gs ''required'' = Some u"
        by (cases "inline_value m defs (PList (map PStr rs))") auto
      from inlined_strings [OF u(1)] u(2) q(2) have "rq = rs" by (simp add: required_fields_def strings_required)
      with ps'(2) show ?thesis by simp
    qed
    with names show ?thesis by blast
  qed
  from free sub exact show ?thesis by blast
qed

lemma tool_of_matches:
  assumes "protocol_const d = Inr (Some c)" and "tool_of n defs d c = Inr t"
  shows "tool_matches (name, d) t"
proof -
  from assms(2) obtain fs v ps req where d: "d = PStruct fs" and i: "inline_refs n (od_set ''$defs'' (PStruct defs) fs) = Inr v"
    and b: "build_parameters v = Some (ps, req)" and t: "td_properties t = ps" "td_required t = req" "string_of c = Some (td_name t)"
    by (auto simp: tool_of_def split: option.splits sum.splits)
  from t(3) have c: "c = PStr (td_name t)" by (auto simp: string_of_def split: pvalue.splits)
  have "schema_defs (od_set ''$defs'' (PStruct defs) fs) = defs" by (simp add: schema_defs_def)
  with i have iv: "inline_value n defs (PStruct (od_del ''$defs'' (od_set ''$defs'' (PStruct defs) fs))) = Inr v" by (simp add: inline_refs_def)
  have lr: "local_ref (od_del ''$defs'' (od_set ''$defs'' (PStruct defs) fs)) = local_ref fs" by (simp add: local_ref_def)
  have g: "od_get (od_del ''$defs'' (od_set ''$defs'' (PStruct defs) fs)) ''properties'' = od_get fs ''properties''"
    "od_get (od_del ''$defs'' (od_set ''$defs'' (PStruct defs) fs)) ''required'' = od_get fs ''required''" by simp_all
  note m = build_parameters_inlined [OF iv b, unfolded lr g]
  show ?thesis unfolding tool_matches_def snd_conv t(1,2) using m assms(1) d c by blast
qed

lemma extract_matches: "extract_tools n utility defs ds = Inr ts \<Longrightarrow> list_all2 tool_matches (triggers utility ds) ts"
proof (induction ds arbitrary: ts)
  case (Cons x ds)
  obtain name d where x: "x = (name, d)" by fastforce
  show ?case
  proof (cases "name \<in> set utility \<or> protocol_const d = Inr None")
    case True
    with Cons.prems x have "extract_tools n utility defs ds = Inr ts" by (cases "name \<in> set utility") simp_all
    with Cons.IH True x show ?thesis by (auto simp: triggers_def)
  next
    case False
    with Cons.prems x obtain c t ts' where c: "protocol_const d = Inr (Some c)" "tool_of n defs d c = Inr t"
      and ts: "extract_tools n utility defs ds = Inr ts'" "ts = t # ts'"
      by (auto split: sum.splits option.splits)
    from Cons.IH [OF ts(1)] tool_of_matches [OF c, of name] ts(2) x False c(1) show ?thesis by (simp add: triggers_def)
  qed
qed (simp add: triggers_def)

text \<open>
  C38: An agent gets one tool per trigger, with its parameters and nothing else. If the tools of a module's input schema can be made, they are, in order, those
  of the definitions that have a constant protocol and are no utility of the SDK: named by the protocol, with exactly the trigger's fields except the internal ones
  as parameters, required exactly where the trigger requires them, and no reference is left in any parameter's schema.
\<close>

theorem tools_exact:
  assumes "extract_tools_from_schema n utility schema = Inr tools" and "od_get schema ''$defs'' = Some (PStruct defs)"
  shows "list_all2 (\<lambda>(name, d) t. \<exists>fs. d = PStruct fs \<and> protocol_const d = Inr (Some (PStr (td_name t)))
       \<and> ref_free_fields (td_properties t) \<and> set (td_required t) \<subseteq> fst ` set (td_properties t)
       \<and> (\<forall>ps. od_get fs ''properties'' = Some (PStruct ps) \<and> \<not> local_ref fs \<and> \<not> local_ref ps \<longrightarrow>
            map fst (td_properties t) = filter (\<lambda>k. k \<noteq> ''protocol'' \<and> k \<noteq> ''created_at'') (map fst ps)
            \<and> (\<forall>rs. od_get fs ''required'' = Some (PList (map PStr rs)) \<longrightarrow> td_required t = filter (\<lambda>k. k \<in> set rs) (map fst (td_properties t)))))
     (filter (\<lambda>(name, d). name \<notin> set utility \<and> (\<exists>c. protocol_const d = Inr (Some c))) defs) tools"
proof -
  from assms have "extract_tools n utility defs defs = Inr tools" by (simp add: extract_tools_from_schema_def)
  from extract_matches [OF this] show ?thesis
    unfolding triggers_def
  proof (rule list_all2_mono, goal_cases)
    case (1 entry t)
    then show ?case unfolding tool_matches_def internal_fields_def case_prod_beta by simp
  qed
qed

definition chat_demo :: pstruct where
  "chat_demo = [(''$defs'', PStruct
     [(''Ping'', PStruct [(''properties'', PStruct [(''protocol'', PStruct [(''const'', PStr ''ping'')])])]),
      (''Media'', PStruct [(''type'', PStr ''object'')]),
      (''Chat'', PStruct [(''properties'', PStruct [(''protocol'', PStruct [(''const'', PStr ''chat'')]),
           (''media'', PStruct [(''$ref'', PStr ''#/$defs/Media''), (''description'', PStr ''what to look at'')]), (''text'', PStruct [])]),
         (''required'', PList [PStr ''text''])])])]"

lemma chat_tools:
  "extract_tools_from_schema 9 [''Ping''] chat_demo
     = Inr [\<lparr>td_name = ''chat'', td_description = '''', td_properties = [(''media'', PStruct [(''type'', PStr ''object'')]), (''text'', PStruct [])], td_required = [''text'']\<rparr>]"
  by code_simp

theorem tools_exact_witness: "\<exists>t. extract_tools_from_schema 9 [''Ping''] chat_demo = Inr [t] \<and> ref_free_fields (td_properties t)"
proof -
  have "od_get chat_demo ''$defs'' = Some (PStruct (schema_defs chat_demo))" by (simp add: chat_demo_def schema_defs_def od_get_Cons)
  from list_all2_from [OF tools_exact [OF chat_tools this]] show ?thesis unfolding chat_tools by fastforce
qed

section \<open>What is lost\<close>

text \<open>What stands beside a reference, such as the description of the field, is dropped; the mapping of a discriminator goes on naming definitions that are gone.\<close>

lemma beside_reference_lost: "target defs fs = Inr (Some d) \<Longrightarrow> inline_value (Suc n) defs (PStruct fs) = inline_value n defs d"
  by simp

lemma mapping_kept:
  "inline_value 3 defs (PStruct [(''mapping'', PStruct [(''a'', PStr ''#/$defs/A'')])]) = Inr (PStruct [(''mapping'', PStruct [(''a'', PStr ''#/$defs/A'')])])"
  by (simp add: numeral_3_eq_3 target_def od_get_Cons on_value_def)

end
