(* ===== verification/Module_Schemas.thy ===== *)
theory Module_Schemas
  imports Clean_Model Schema_Split Cost "HOL-Library.List_Lexorder" "HOL-Library.Char_ord"
begin

text \<open>
  The schemas a module serves: the formats of \<open>modules/_base_module.py\<close> (\<open>get_*_format\<close>) and the calls of \<open>grpc_servers/module_servicer.py\<close> that answer with
  them, the utility protocols of the SDK added to a module's own (\<open>grpc_servers/utils/utility_schema_extender.py\<close>), the selection of triggers
  (\<open>models/module/select_schema.py\<close>) and the documentation sent to the registry. The JSON schema pydantic generates from a model is a parameter.
\<close>

section \<open>A module class\<close>

text \<open>A class attribute that may be declared without a value: reading it then raises \<open>AttributeError\<close>.\<close>

datatype 'a attribute = Undeclared | IsNone | Declared 'a

text \<open>The type of the field \<open>root\<close> of a data model; the types are classes, by their name.\<close>

datatype root_type = OneType string | UnionOf "string list" | Annotated root_type

datatype select_format = BaseSelect | CustomSelect pstruct "(string \<times> bool) list"

record module_class =
  mc_input :: "root_type attribute"
  mc_output :: "root_type attribute"
  mc_setup :: "pyclass attribute"
  mc_secret :: "pstruct attribute"                \<comment> \<open>the JSON schema of the model\<close>
  mc_select :: "select_format attribute"
  mc_costs :: "(string \<times> string \<times> cost_config) list"   \<comment> \<open>with the description\<close>
  mc_description :: string
  mc_meta_description :: string
  mc_triggers :: "string trigger_table"

text \<open>
  What pydantic makes of a data model with these types of \<open>root\<close>, with cost limits or not, and of a model with these fields; \<open>None\<close> is an exception. The classes
  there are, their fetchers and the call stack left for refreshing and for splitting.
\<close>

record generator =
  gen_root :: "string list \<Rightarrow> bool \<Rightarrow> pstruct option"
  gen_fields :: "(string, fld) odict \<Rightarrow> pstruct option"
  gen_classes :: class_table
  gen_env :: fetch_env
  gen_refresh :: nat
  gen_split :: nat

section \<open>Utility protocols\<close>

primrec extract_union_types :: "root_type \<Rightarrow> string list" where
  "extract_union_types (OneType t) = [t]"
| "extract_union_types (UnionOf ts) = ts"
| "extract_union_types (Annotated r) = extract_union_types r"

definition output_protocols :: "string list" where
  "output_protocols = [''EndOfStreamOutput'', ''HealthcheckPingOutput'', ''HealthcheckServicesOutput'', ''HealthcheckStatusOutput'']"

definition input_protocols :: "string list" where
  "input_protocols = [''HealthcheckPingInput'', ''HealthcheckServicesInput'', ''HealthcheckStatusInput'']"

text \<open>\<open>Union[...]\<close> keeps the first of equal types.\<close>

definition union_types :: "string list \<Rightarrow> string list" where
  "union_types ts = rev (remdups (rev ts))"

definition extended_output_types :: "root_type \<Rightarrow> string list" where
  "extended_output_types r = union_types (extract_union_types r @ output_protocols)"

definition extended_input_types :: "root_type \<Rightarrow> string list" where
  "extended_input_types r = union_types (extract_union_types r @ input_protocols)"

section \<open>Formats\<close>

datatype format_exc = NotImplemented | FormatFailed

text \<open>\<open>json.dumps\<close> of the schema or, for a language model, of its two halves or of the first alone.\<close>

definition dump_schema :: "generator \<Rightarrow> bool \<Rightarrow> bool \<Rightarrow> pstruct \<Rightarrow> format_exc + pstruct" where
  "dump_schema G llm with_ui schema =
     (if \<not> llm then Inr schema
      else case split_schema (gen_split G) schema of
        Inl e \<Rightarrow> Inl FormatFailed
      | Inr (json, ui) \<Rightarrow> Inr ((''json_schema'', PStruct json) # (if with_ui then [(''ui_schema'', PStruct ui)] else [])))"

definition get_secret_format :: "generator \<Rightarrow> module_class \<Rightarrow> bool \<Rightarrow> format_exc + pstruct" where
  "get_secret_format G mc llm = (case mc_secret mc of
     Undeclared \<Rightarrow> Inl FormatFailed
   | IsNone \<Rightarrow> Inl NotImplemented
   | Declared schema \<Rightarrow> dump_schema G llm True schema)"

definition get_input_format :: "generator \<Rightarrow> module_class \<Rightarrow> bool \<Rightarrow> format_exc + pstruct" where
  "get_input_format G mc llm = (case mc_input mc of
     Undeclared \<Rightarrow> Inl FormatFailed
   | IsNone \<Rightarrow> Inl NotImplemented
   | Declared r \<Rightarrow> (case gen_root G (extended_input_types r) True of None \<Rightarrow> Inl FormatFailed | Some schema \<Rightarrow> dump_schema G llm False schema))"

definition get_output_format :: "generator \<Rightarrow> module_class \<Rightarrow> bool \<Rightarrow> format_exc + pstruct" where
  "get_output_format G mc llm = (case mc_output mc of
     Undeclared \<Rightarrow> Inl FormatFailed
   | IsNone \<Rightarrow> Inl NotImplemented
   | Declared r \<Rightarrow> (case gen_root G (extended_output_types r) False of None \<Rightarrow> Inl FormatFailed | Some schema \<Rightarrow> dump_schema G llm False schema))"

text \<open>The clean model is forced, so the cache is neither read nor written.\<close>

definition clean_schema :: "generator \<Rightarrow> pyclass \<Rightarrow> bool \<Rightarrow> bool \<Rightarrow> format_exc + pstruct" where
  "clean_schema G k config_fields hidden_fields =
     (case make_clean (gen_classes G) (gen_env G) (gen_refresh G) k config_fields hidden_fields True of
        Inl e \<Rightarrow> Inl FormatFailed
      | Inr m \<Rightarrow> (case gen_fields G m of None \<Rightarrow> Inl FormatFailed | Some schema \<Rightarrow> Inr schema))"

definition get_config_setup_format :: "generator \<Rightarrow> module_class \<Rightarrow> bool \<Rightarrow> format_exc + pstruct" where
  "get_config_setup_format G mc llm = (case mc_setup mc of
     Undeclared \<Rightarrow> Inl FormatFailed
   | IsNone \<Rightarrow> Inl NotImplemented
   | Declared k \<Rightarrow> (case clean_schema G k True False of Inl e \<Rightarrow> Inl e | Inr schema \<Rightarrow> dump_schema G llm True schema))"

definition get_setup_format :: "generator \<Rightarrow> module_class \<Rightarrow> bool \<Rightarrow> format_exc + pstruct" where
  "get_setup_format G mc llm = (case mc_setup mc of
     Undeclared \<Rightarrow> Inl FormatFailed
   | IsNone \<Rightarrow> Inl NotImplemented
   | Declared k \<Rightarrow> (case clean_schema G k False True of Inl e \<Rightarrow> Inl e | Inr schema \<Rightarrow> dump_schema G llm False schema))"

definition cost_entry :: "string \<times> string \<times> cost_config \<Rightarrow> string \<times> pvalue" where
  "cost_entry e = (case e of (name, description, c) \<Rightarrow> (name, PStruct
     [(''name'', PStr (cc_name c)), (''type'', PStr (cc_type c)), (''description'', PStr description), (''unit'', PStr (cc_unit c)), (''rate'', PNum (cc_rate c))]))"

definition get_cost_format :: "generator \<Rightarrow> module_class \<Rightarrow> bool \<Rightarrow> format_exc + pstruct" where
  "get_cost_format G mc llm =
     (if mc_costs mc = [] then Inr []
      else let costs = map cost_entry (mc_costs mc)
           in if llm then dump_schema G True True [(''costs'', PStruct costs)] else Inr costs)"

section \<open>The selection of triggers\<close>

definition registered_protocols :: "(string \<Rightarrow> bool) \<Rightarrow> (string \<Rightarrow> string) \<Rightarrow> bool \<Rightarrow> string trigger_table \<Rightarrow> (string \<times> string) list" where
  "registered_protocols utility description exclude_utility t = filter_map (\<lambda>(p, cs). case cs of
     [] \<Rightarrow> None
   | c # _ \<Rightarrow> if exclude_utility \<and> utility c then None else Some (p, if description c = '''' then p else description c)) t"

definition add_checkbox :: "string \<times> bool \<Rightarrow> pstruct \<Rightarrow> format_exc + pstruct" where
  "add_checkbox field ui = (case field of (name, is_bool) \<Rightarrow>
     if \<not> is_bool then Inr ui
     else (case (case od_get ui name of None \<Rightarrow> Some [] | Some v \<Rightarrow> dict_of v) of
         None \<Rightarrow> Inl FormatFailed
       | Some u \<Rightarrow> Inr (od_set name (PStruct (if od_has u ''ui:widget'' then u else od_set ''ui:widget'' (PStr ''checkbox'') u)) ui)))"

definition select_build :: "nat \<Rightarrow> select_format \<Rightarrow> (string \<times> string) list \<Rightarrow> format_exc + pstruct option" where
  "select_build n sel info = (case (case sel of CustomSelect schema fs \<Rightarrow> if fs \<noteq> [] then Some (schema, fs) else None | BaseSelect \<Rightarrow> None) of
     Some (schema, fs) \<Rightarrow> (case split_schema n schema of
         Inl e \<Rightarrow> Inl FormatFailed
       | Inr (json, ui) \<Rightarrow> (case foldE add_checkbox fs ui of
           Inl e \<Rightarrow> Inl e
         | Inr ui' \<Rightarrow> Inr (Some [(''json_schema'', PStruct json), (''ui_schema'', PStruct ui')])))
   | None \<Rightarrow>
       if info = [] then Inr None
       else Inr (Some
         [(''json_schema'', PStruct [(''type'', PStr ''object''), (''title'', PStr ''Trigger Selection''),
             (''properties'', PStruct (map (\<lambda>(p, d). (p, PStruct [(''type'', PStr ''boolean''), (''title'', PStr p), (''description'', PStr d), (''default'', PBool True)])) info))]),
          (''ui_schema'', PStruct (map (\<lambda>(p, d). (p, PStruct [(''ui:widget'', PStr ''checkbox'')])) info))]))"

definition get_select_input_format :: "generator \<Rightarrow> (string \<Rightarrow> bool) \<Rightarrow> (string \<Rightarrow> string) \<Rightarrow> module_class \<Rightarrow> format_exc + pstruct" where
  "get_select_input_format G utility description mc = (case mc_select mc of
     Undeclared \<Rightarrow> Inl FormatFailed
   | IsNone \<Rightarrow> Inr []
   | Declared sel \<Rightarrow> (case select_build (gen_split G) sel (registered_protocols utility description True (mc_triggers mc)) of
       Inl e \<Rightarrow> Inl e
     | Inr None \<Rightarrow> Inr []
     | Inr (Some s) \<Rightarrow> Inr s))"

section \<open>Documentation\<close>

definition newline :: string where
  "newline = [CHR 0x0A]"

definition join :: "string \<Rightarrow> string list \<Rightarrow> string" where
  "join sep ss = (case ss of [] \<Rightarrow> [] | s # rest \<Rightarrow> s @ concat (map (\<lambda>t. sep @ t) rest))"

definition build_registry_documentation :: "(string \<Rightarrow> bool) \<Rightarrow> (string \<Rightarrow> string) \<Rightarrow> module_class \<Rightarrow> string option" where
  "build_registry_documentation utility description mc =
     (let text = strip (if mc_description mc \<noteq> '''' then mc_description mc else mc_meta_description mc)
      in if text = '''' then None
         else let rows = join newline (map (\<lambda>(p, d). ''| '' @ p @ '' | '' @ d @ '' |'')
                (sort_key fst (registered_protocols utility description True (mc_triggers mc))));
                table = (if rows \<noteq> '''' then ''| Trigger | Description |'' @ newline @ ''| --- | --- |'' @ newline @ rows else ''_No triggers._'')
              in Some (text @ newline @ newline @ ''## Triggers'' @ newline @ newline @ table))"

section \<open>The calls\<close>

datatype status_code = StatusOk | StatusUnimplemented | StatusInternal

record answer =
  an_success :: bool
  an_schema :: "pstruct option"
  an_code :: status_code

definition respond :: "format_exc + pstruct \<Rightarrow> answer" where
  "respond r = (case r of
     Inl NotImplemented \<Rightarrow> \<lparr>an_success = False, an_schema = None, an_code = StatusUnimplemented\<rparr>
   | Inl FormatFailed \<Rightarrow> \<lparr>an_success = False, an_schema = None, an_code = StatusInternal\<rparr>
   | Inr s \<Rightarrow> \<lparr>an_success = True, an_schema = Some s, an_code = StatusOk\<rparr>)"

definition GetModuleInput :: "generator \<Rightarrow> module_class \<Rightarrow> bool \<Rightarrow> answer" where
  "GetModuleInput G mc llm = respond (get_input_format G mc llm)"

definition GetModuleOutput :: "generator \<Rightarrow> module_class \<Rightarrow> bool \<Rightarrow> answer" where
  "GetModuleOutput G mc llm = respond (get_output_format G mc llm)"

definition GetModuleSetup :: "generator \<Rightarrow> module_class \<Rightarrow> bool \<Rightarrow> answer" where
  "GetModuleSetup G mc llm = respond (get_setup_format G mc llm)"

definition GetModuleSecret :: "generator \<Rightarrow> module_class \<Rightarrow> bool \<Rightarrow> answer" where
  "GetModuleSecret G mc llm = respond (get_secret_format G mc llm)"

definition GetConfigSetupModule :: "generator \<Rightarrow> module_class \<Rightarrow> bool \<Rightarrow> answer" where
  "GetConfigSetupModule G mc llm = respond (get_config_setup_format G mc llm)"

definition GetModuleCost :: "generator \<Rightarrow> module_class \<Rightarrow> bool \<Rightarrow> answer" where
  "GetModuleCost G mc llm = respond (get_cost_format G mc llm)"

text \<open>This call treats every exception alike.\<close>

definition GetModuleSelectInput :: "generator \<Rightarrow> (string \<Rightarrow> bool) \<Rightarrow> (string \<Rightarrow> string) \<Rightarrow> module_class \<Rightarrow> answer" where
  "GetModuleSelectInput G utility description mc =
     respond (case get_select_input_format G utility description mc of Inl e \<Rightarrow> Inl FormatFailed | Inr s \<Rightarrow> Inr s)"

section \<open>The schemas of a setup\<close>

lemma dump_schema_exact:
  assumes "dump_schema G llm with_ui schema = Inr s" and "tidy_schema schema"
  shows "if llm then od_get s ''json_schema'' = Some (PStruct (strip_ui schema)) \<and> clean (strip_ui schema) \<and> od_has s ''ui_schema'' = with_ui else s = schema"
  using assms split_strips [OF assms(2)] strip_clean(1)
  by (auto simp: dump_schema_def od_get_Cons od_has_def split: if_splits sum.splits)

lemma refresh_flds_ok: "refresh_flds env nested fs = Inr r \<Longrightarrow> (n, f) \<in> set fs \<Longrightarrow> \<exists>f' b. refresh_fld env nested f = Inr (f', b)"
proof (induction fs arbitrary: r)
  case (Cons x fs)
  obtain k g where x: "x = (k, g)" by fastforce
  from Cons.prems(1) x obtain r' where r': "refresh_flds env nested fs = Inr r'" "\<exists>g' b. refresh_fld env nested g = Inr (g', b)"
    by (auto split: sum.splits)
  from Cons.IH [OF r'(1)] r'(2) Cons.prems(2) x show ?case by auto
qed simp

lemma make_clean_shown:
  assumes "make_clean classes env stack k c h force = Inr m" and "od_get (pc_fields k) n = Some f"
  shows "field_shown classes env stack c h force f \<noteq> None \<longleftrightarrow> shown c h f"
proof (cases "force \<and> shown c h f")
  case True
  from assms(1) True obtain r where r: "refresh_flds env (refresh_nested_model classes env stack) (filter (\<lambda>(n, f). shown c h f) (pc_fields k)) = Inr r"
    unfolding make_clean_def Let_def by (auto split: sum.splits)
  have "(n, f) \<in> set (filter (\<lambda>(n, f). shown c h f) (pc_fields k))" using assms(2) True by (simp add: od_get_def map_of_SomeD)
  from refresh_flds_ok [OF r this] True show ?thesis by (auto simp: field_shown_def)
qed (auto simp: field_shown_def)

lemma clean_schema_exact:
  assumes "clean_schema G k c h = Inr schema" and "od_wf (pc_fields k)"
    and "fst ` set (inherited (gen_classes G) (new_bases ''SetupModel'' k)) \<subseteq> fst ` set (pc_fields k)"
  shows "\<exists>m. gen_fields G m = Some schema \<and> (\<forall>n. od_has m n \<longleftrightarrow> (\<exists>f. od_get (pc_fields k) n = Some f \<and> shown c h f))"
proof -
  from assms(1) obtain m where m: "make_clean (gen_classes G) (gen_env G) (gen_refresh G) k c h True = Inr m" and g: "gen_fields G m = Some schema"
    by (auto simp: clean_schema_def split: sum.splits option.splits)
  have "od_has m n \<longleftrightarrow> (\<exists>f. od_get (pc_fields k) n = Some f \<and> shown c h f)" for n
    using make_clean_fields [OF m assms(2,3)] make_clean_shown [OF m, of n] by (auto simp: od_has_def split: option.splits)
  with g show ?thesis by blast
qed


definition generator_demo :: generator where
  "generator_demo = \<lparr>gen_root = (\<lambda>ts limits. Some [(''oneOf'', PList (map PStr ts))]), gen_fields = (\<lambda>m. Some [(''required'', PList (map (\<lambda>(n, f). PStr n) m))]),
     gen_classes = classes_demo, gen_env = (\<lambda>f. (1, None)), gen_refresh = 5, gen_split = 5\<rparr>"

definition module_demo :: module_class where
  "module_demo = \<lparr>mc_input = Declared (Annotated (UnionOf [''Chat''])), mc_output = Undeclared, mc_setup = Declared agent_setup_demo, mc_secret = IsNone,
     mc_select = Declared BaseSelect, mc_costs = [], mc_description = '' A module. '', mc_meta_description = '''', mc_triggers = [(''chat'', [''ChatTrigger''])]\<rparr>"


section \<open>What a module accepts and offers\<close>

lemma union_types_props: "set (union_types ts) = set ts \<and> distinct (union_types ts)"
  by (simp add: union_types_def)

text \<open>A module's own types come first and in their order, each utility protocol is there once.\<close>

lemma union_types_append: "distinct ts \<Longrightarrow> union_types (ts @ us) = ts @ union_types (filter (\<lambda>u. u \<notin> set ts) us)"
proof -
  assume d: "distinct ts"
  have "remdups (xs @ ys) = remdups (filter (\<lambda>x. x \<notin> set ys) xs) @ remdups ys" for xs ys :: "string list"
    by (induction xs) auto
  then show ?thesis using d by (simp add: union_types_def rev_filter distinct_remdups_id)
qed

text \<open>A format that is only annotated, not set to \<open>None\<close>, is an internal error and not an unimplemented call.\<close>

lemma undeclared_is_internal:
  "mc_input mc = Undeclared \<Longrightarrow> an_code (GetModuleInput G mc llm) = StatusInternal"
  "mc_output mc = Undeclared \<Longrightarrow> an_code (GetModuleOutput G mc llm) = StatusInternal"
  "mc_secret mc = Undeclared \<Longrightarrow> an_code (GetModuleSecret G mc llm) = StatusInternal"
  by (simp_all add: GetModuleInput_def GetModuleOutput_def GetModuleSecret_def get_input_format_def get_output_format_def get_secret_format_def respond_def)

text \<open>Every trigger of the module is offered for selection, once, under its protocol, and no utility is.\<close>

lemma registered_protocols_iff:
  "(p, d) \<in> set (registered_protocols utility description True t) \<longleftrightarrow>
     (\<exists>c cs. (p, c # cs) \<in> set t \<and> \<not> utility c \<and> d = (if description c = '''' then p else description c))"
proof -
  have entry: "(case x of (p, cs) \<Rightarrow> case cs of [] \<Rightarrow> None | c # _ \<Rightarrow> if True \<and> utility c then None else Some (p, if description c = '''' then p else description c)) = Some (p, d)
      \<longleftrightarrow> (\<exists>c cs. x = (p, c # cs) \<and> \<not> utility c \<and> d = (if description c = '''' then p else description c))" for x
    by (cases x; cases "snd x") auto
  show ?thesis unfolding registered_protocols_def set_filter_map mem_Collect_eq entry by auto
qed

text \<open>The costs of a module are wrapped in \<open>costs\<close> only for a language model.\<close>

lemma cost_shapes_differ:
  assumes "mc_costs mc \<noteq> []"
  shows "get_cost_format G mc False = Inr (map cost_entry (mc_costs mc))"
    and "get_cost_format G mc True = dump_schema G True True [(''costs'', PStruct (map cost_entry (mc_costs mc)))]"
  using assms by (simp_all add: get_cost_format_def)

end
