(* ===== verification/Spec2Isabelle.thy ===== *)
theory Spec2Isabelle
  imports Grpc_Client Bulkhead Stream_Registry M2m_Registry Module_Runner Gateway_Dial Gateway_Serve
    Task_Manager Storage Communication Output_Path Module_Lifecycle Job_Manager Module_Servicer
    Tools File_History Cost Agui_Mixin Hitl Filesystem Registry Schema_Split Conditional_Schema
    Tool_Loader Tool_Calls Request_Context Chat_History Grpc_Services Clean_Model Server
    Discovery Tool_Schema Module_Schemas
begin

text \<open>
  The DigitalKin SDK (\<open>src/src/digitalkin\<close>) runs modules behind a gateway: a consumer starts a task, the
  module's output goes to a Redis stream, and the gateway dials the consumer back and sends it what
  the stream holds. This library models the SDK's own logic and proves what makes it correct. All
  source paths below are relative to \<open>src/src/digitalkin\<close>.

  \<^bold>\<open>How the parts interact.\<close> \<open>GatewayServicer.StartStream\<close> claims the task in Redis, registers a stream
  session, seeds the output stream and schedules the dial-back, which starts the module through the
  runner, reads the stream and sends its frames to the consumer. The runner asks the module servicer
  for the setup and the tools, the job manager prepares a module instance and the task manager admits,
  supervises and cancels its task; the module dispatches its input to a trigger and emits output
  through a callback, which appends it to the stream. Control signals arrive through one Redis
  subscription per process. A module that calls another one registers the call, and the target dials
  back into the same gateway. Calls to other services go through a channel cache, a retry loop, a
  circuit breaker and a bulkhead. Modules that host an agent convert its events for the front and
  pause and resume its runs.

  \<^bold>\<open>The theories\<close>, with the files they model.
  Shared: \<open>Prelude\<close> (insertion-ordered dictionaries, strings, decimal numbers, and the interfaces
  \<open>session_table\<close> and \<open>slot_pool\<close>), \<open>Struct_Value\<close> (protobuf structs), \<open>Stream_Protocol\<close> (commands to Redis,
  stream keys, error codes), \<open>Event_Stream\<close> (stateful converters and the grammars of their output), \<open>Paging\<close> (slices and the
  interface \<open>paged\<close> of a listing).
  Calls to services: \<open>Circuit_Breaker\<close>, \<open>Bulkhead\<close>, \<open>Grpc_Client\<close> (\<open>grpc_servers/utils\<close>, \<open>core/resilience\<close>).
  The gateway: \<open>Validators\<close>, \<open>Stream_Registry\<close> (\<open>stream_registry.py\<close>, \<open>stream_session.py\<close>), \<open>Redis_State\<close>
  (the claim and the task hashes), \<open>Gateway_Start\<close>, \<open>Gateway_Dial\<close> and \<open>Gateway_Serve\<close> (\<open>gateway_servicer.py\<close>:
  \<open>StartStream\<close>; the dial-back; \<open>Stream\<close> and \<open>SendSignal\<close>), \<open>Proto_Stream\<close> (\<open>core/task_manager/redis/proto_streams.py\<close>),
  \<open>Module_Runner\<close> (\<open>core/task_manager/module_runner.py\<close>), \<open>Output_Path\<close> (the stream from its seed to its expiry).
  Calls to other modules: \<open>M2m_Registry\<close> (\<open>m2m_call_registry.py\<close>), \<open>Communication\<close> (\<open>services/communication/grpc_communication.py\<close>).
  Tasks: \<open>Signal_Listener\<close> (\<open>redis_signal.py\<close>), \<open>Task_Session\<close> (\<open>task_session.py\<close>, \<open>task_executor.py\<close>),
  \<open>Task_Manager\<close> (\<open>base_task_manager.py\<close>), \<open>Job_Manager\<close> (\<open>core/job_manager\<close>), \<open>Module_Lifecycle\<close>
  (\<open>modules/_base_module.py\<close>, \<open>utils/package_discover.py\<close>), \<open>Module_Servicer\<close> (the caches of
  \<open>module_servicer.py\<close> and their invalidation).
  Services and mission state: \<open>Storage\<close>, \<open>Filesystem\<close>, \<open>Setup_Service\<close>, \<open>Registry\<close>, \<open>Cost\<close> (\<open>services\<close>: the local backend
  of each), \<open>File_History\<close> (\<open>mixins/file_history_mixin.py\<close>), \<open>Tools\<close> (\<open>models/module\<close>: tool references, tool cache,
  loaded tools). The clients of the same services over gRPC: \<open>Grpc_Errors\<close> (what a failed call raises), \<open>Grpc_Storage\<close>, \<open>Grpc_Registry\<close>
  and \<open>Grpc_Services\<close> (\<open>services/*/grpc_*.py\<close>). The server that holds all of it: \<open>Server\<close> (\<open>grpc_servers/_base_server.py\<close>, \<open>module_server.py\<close>).
  Schemas: \<open>Schema_Split\<close> (\<open>utils/schema_splitter.py\<close>), \<open>Conditional_Schema\<close> (\<open>utils/conditional_schema.py\<close>), \<open>Clean_Model\<close>
  (\<open>models/module/setup_types.py\<close> and \<open>utils/dynamic_schema.py\<close>: the setup model shown to a reader, and its refreshing), \<open>Tool_Schema\<close>
  (\<open>utils/llm_ready_schema.py\<close>, and the tool definitions of \<open>models/module/tool_cache.py\<close>), \<open>Module_Schemas\<close> (the formats of \<open>_base_module.py\<close> and the calls
  of \<open>module_servicer.py\<close> that serve them), \<open>Discovery\<close> (\<open>utils/package_discover.py\<close>: the files that hold triggers).
  Agents: \<open>Agno_Adapter\<close> with \<open>Agno_Stream\<close> and \<open>Agno_Speech\<close> (\<open>community/agno/agno_adapter.py\<close>), \<open>Agui_Mixin\<close>
  (\<open>mixins/agui_mixin.py\<close>), \<open>Hitl\<close> (\<open>community/agno/hitl.py\<close>).
  What an agent may call: \<open>Content_Validator\<close> (\<open>utils/setup_content_validator.py\<close>), \<open>Registry_Toolkit\<close> and \<open>Tool_Loader\<close>
  (\<open>community/agno/toolkits/registry\<close>: the managers of setups, and loading a tool into the running agent), \<open>Tool_Calls\<close>
  (\<open>community/agno/module_toolkit.py\<close> and the tool functions of \<open>models/module/module_context.py\<close>), \<open>Chat_History\<close>
  (\<open>toolkits/chat_history.py\<close>). What travels with a request: \<open>Request_Context\<close> (\<open>grpc_servers/interceptors\<close>,
  \<open>models/module/request_metadata.py\<close>).

  \<^bold>\<open>How the state corresponds.\<close> An object is a record whose fields are the object's attributes, a
  dictionary an association list in insertion order (\<open>od_get\<close>, \<open>od_set\<close>, \<open>od_del\<close>), an enumeration a datatype, an
  exception a value of a sum or option type. A method takes the record and returns the new one with
  its result, under the method's name with a prefix for its class (\<open>cb_check\<close> is \<open>CircuitBreaker.check\<close>);
  where a coroutine suspends and others run in between, it is split at its suspension points
  (\<open>start_check\<close>, \<open>after_claim\<close>, \<open>after_seed\<close>; \<open>resolve_begin\<close>, \<open>resolve_end\<close>; \<open>flush_begin\<close>, \<open>flush_end\<close>), and
  step relations interleave the parts. Clock readings, generated identifiers and the answers of other
  services are arguments; what is sent to them is a result. A semaphore is its number of free
  permits, a future its state, a queue the list of its items.

  \<^bold>\<open>What is proved.\<close> From \<open>StartStream\<close> to the consumer: a task starts at most once however many requests
  race, everything it emits is delivered once and in order, a resumed consumer gets exactly what it
  misses, and the stream lives until its time to live has passed. Admission, shutdown and supervision
  of tasks: limits hold in every reachable state, no slot is lost, the reported outcome matches how
  the coroutine ended. Module life cycle: one initialisation, one cleanup, end of stream last.
  Clients: retries within the limit, one probe of an open circuit, only open channels handed out.
  Caches: one fetch for concurrent lookups, and reconfiguration reaches every process. Agents: the
  events of any interleaving of runs keep to the protocol's grammar, texts are never spliced, and
  paused runs resume exactly when they are answered. Services: exact listings page by page, no file, version or
  history lost, costs recorded once; the remote storage refines the local one over a service that keeps records as it does. Schemas: what a split keeps, and
  when it ends; a clean model has exactly its fields, cached or not; each reader of a setup's schema sees what it may see. The server: a stop
  releases what a start, whole or failed, has opened. Discovery runs only files that pass its checks. Tools: an agent gets one for each trigger, a manager
  keeps to its kind of setup and announces what it changes, a module is bound once, and what an agent is told of a
  call agrees with how the call ended. Identifiers reach exactly the calls they belong to.
  Where the code does not do what it means to, the theorem states what it does.

  \<^bold>\<open>Bounds and termination.\<close> Integers are Python's unbounded integers, times are real numbers without
  rounding, strings are ASCII. Loops over received events recurse on the list of events. \<open>exec_loop\<close>
  has the measure \<open>max_retries - i\<close>; the reconnect loop of the dial-back is bounded by its window
  (\<open>reconnect_bounded\<close>); \<open>drive_loop\<close> has the fuel 20, which is the code's own \<open>range(20)\<close>, and its last
  branch is the code's error for a drive that did not end. The recursion of \<open>extract_ui\<close> along references has the depth of
  Python's call stack as its fuel; \<open>split_ends_iff_acyclic\<close> says when enough fuel exists. So has \<open>py_type\<close>, whose
  recursion remembers the references it follows: \<open>compile_ends\<close> gives the depth that is always enough. \<open>inline_value\<close> and
  \<open>refresh_nested_model\<close> have the call stack as their fuel as well: \<open>inlining_ends_iff_acyclic\<close> and \<open>refresh_keeps_types\<close> say when some of it is enough.

  \<^bold>\<open>Not modelled.\<close> Code outside \<open>src\<close> is a parameter: protobuf's encoding (\<open>ser\<close> and \<open>parse\<close>, with the
  hypothesis that each message of the task is read back), Redis (laws of the commands used), gRPC,
  pydantic's validation, the agent framework. The file system and the import machinery are parameters as well,
  and so is the JSON schema pydantic generates from a model. Left out: the generated messages themselves, the synchronous start of a server and the waiting
  for its end, thin wrappers around redis.asyncio, pydantic's event models of the AG-UI protocol, the table of service strategies, logging, profiling, most settings, and the
  examples. Timers and log records inside modelled functions are left out as well.
\<close>

section \<open>From an accepted start to the consumer\<close>

lemma py_str_zero: "py_str 0 = ''0''"
  by code_simp

lemma accepted_task_log:
  assumes "start_stream ops ser env req reg kv = (True, reg', kv', cmds)"
    and "\<forall>d\<in>set outs. is_end_output d = Some False" and "is_end_output fin = Some True"
    and "\<forall>d\<in>set (start_struct (se_started_at env) req # outs). wire_ok ser parse d"
    and "stored_as es (appended (stream_key (sq_task_id req)) (cmds @ task_output ser cfg (sq_task_id req) (outs @ [fin])))"
    and "ms = start_struct (se_started_at env) req # outs"
  obtains es0 eos where "es = es0 @ [eos]" and "is_eos eos"
    and "list_all2 (payload parse) es0 (zip (map int [0..<length ms]) ms)"
proof -
  have "stored_as es (payload_fields ser (int 0) ms @ [[(''eos'', ''true'')]])"
    using assms(5) start_stream_seed [OF assms(1)] task_output_appended [OF assms(2,3), of "sq_task_id req" ser cfg]
    by (simp add: seed_cmd_def assms(6) py_str_zero)
  then obtain es0 eos where es: "es = es0 @ [eos]" "stored_as es0 (payload_fields ser (int 0) ms)" "en_fields eos = [(''eos'', ''true'')]"
    by (auto simp: stored_as_def map_eq_append_conv)
  from payload_fields_stored [OF es(2)] assms(4,6) have "list_all2 (payload parse) es0 (zip (map int [0..<0 + length ms]) ms)" by simp
  moreover have "is_eos eos" by (simp add: is_eos_def field_or_def es(3) od_get_Cons)
  ultimately show ?thesis using es(1) that by simp
qed


text \<open>A wire format for two messages.\<close>

definition ser_demo :: "pstruct \<Rightarrow> string" where
  "ser_demo d = (if d = [] then ''o'' else ''s'')"

definition unser_demo :: "string \<Rightarrow> pstruct option" where
  "unser_demo s = (if s = ''o'' then Some [] else if s = ''s'' then Some (start_struct ''now'' req_demo) else None)"


section \<open>When the module fails\<close>

text \<open>
  What the callback of a run receives (\<open>model_dump\<close> of the code model; \<open>endd\<close> is the end-of-stream
  output): \<open>outs\<close> are the outputs of the handler.
\<close>

definition code_struct :: "string \<Rightarrow> string \<Rightarrow> string \<Rightarrow> pstruct" where
  "code_struct code short msg = [(''code'', PStr code), (''message'', PStr msg), (''short_description'', PStr short)]"

fun sent :: "pstruct list \<Rightarrow> pstruct \<Rightarrow> mod_event list \<Rightarrow> pstruct list" where
  "sent outs endd [] = []"
| "sent outs endd (Handle # evs) = outs @ sent outs endd evs"
| "sent outs endd (SendCode c s msg # evs) = code_struct c s msg # sent outs endd evs"
| "sent outs endd (SendEnd # evs) = endd # sent outs endd evs"
| "sent outs endd (_ # evs) = sent outs endd evs"

lemma sent_open:
  "SendEnd \<notin> set evs \<Longrightarrow> \<forall>d\<in>set outs. is_end_output d = Some False \<Longrightarrow> d \<in> set (sent outs endd evs) \<Longrightarrow>
    is_end_output d = Some False"
  by (induction outs endd evs rule: sent.induct) (auto simp: code_struct_def is_end_output_def od_get_Cons)

lemma failed_module_log:
  assumes "start_stream ops ser env req reg kv = (True, reg', kv', cmds)"
    and "\<forall>d\<in>set ds. is_end_output d = Some False"
    and "\<forall>d\<in>set (start_struct (se_started_at env) req # ds). wire_ok ser parse d"
    and "stored_as es (appended (stream_key (sq_task_id req)) (cmds @ task_output ser cfg (sq_task_id req) ds))"
    and "concat bs = es"
  shows "consume_from_redis parse 0 False c bs = (label_from 0 (start_struct (se_started_at env) req # ds), False)"
proof -
  let ?ms = "start_struct (se_started_at env) req # ds"
  have "stored_as es (payload_fields ser (int 0) ?ms)"
    using assms(4) start_stream_seed [OF assms(1)] task_output_open [OF assms(2), of "sq_task_id req" ser cfg]
    by (simp add: seed_cmd_def py_str_zero)
  from payload_fields_stored [OF this assms(3)] have "list_all2 (payload parse) es (zip (map int [0..<length ?ms]) ?ms)" by simp
  from consume_open [OF this assms(5), of c] show ?thesis by simp
qed

text \<open>
  A failed task does not end its stream. If the module of an accepted task raises while it is
  prepared by \<open>start\<close> or run, its consumer receives the start entry, the outputs sent so far and the
  error code, and then nothing: no end marker is in Redis, and the stream is closed only by the idle
  deadline, with a fatal \<open>STREAM_IDLE_TIMEOUT\<close> in place of the error's own end.
\<close>

theorem failed_task_ends_idle:
  assumes "live_module m" and "bm_start menv m = (evs, r, m')"
    and "prepare_result menv m \<notin> {None, Some ModCancelled}
      \<or> prepare_result menv m = None \<and> run_result menv \<notin> {None, Some ModCancelled}"
    and "start_stream ops ser env req reg kv = (True, reg', kv', cmds)"
    and "\<forall>d\<in>set outs. is_end_output d = Some False"
    and "\<forall>d\<in>set (start_struct (se_started_at env) req # sent outs endd evs). wire_ok ser parse d"
    and "stored_as es (appended (stream_key (sq_task_id req)) (cmds @ task_output ser cfg (sq_task_id req) (sent outs endd evs)))"
    and "concat bs = es"
    and "frames = label_from 0 (start_struct (se_started_at env) req # sent outs endd evs)"
  shows "consume_from_redis parse 0 False c bs = (frames, False)
    \<and> consume_guarded t (map Frame frames @ [IdleTimeout]) = (frames @ fst (consume_guarded t [IdleTimeout]), True)"
proof -
  have "SendEnd \<notin> set evs" using failed_module_ends [OF assms(1-3)] by simp
  then have "\<forall>d\<in>set (sent outs endd evs). is_end_output d = Some False" using sent_open assms(5) by blast
  from failed_module_log [OF assms(4) this assms(6-8), of c] show ?thesis by (simp add: assms(9) guarded_frames)
qed

definition ser_fail_demo :: "pstruct \<Rightarrow> string" where
  "ser_fail_demo d = (if od_has d ''code'' then ''c'' else ''s'')"

definition unser_fail_demo :: "string \<Rightarrow> pstruct option" where
  "unser_fail_demo s = (if s = ''c'' then Some (code_struct ''Error'' ''Module execution failed'' ''boom'')
     else if s = ''s'' then Some (start_struct ''now'' req_demo) else None)"

definition failing_demo :: mod_env where
  "failing_demo = smooth_env\<lparr>mo_handle := Some (ModError ''ValueError'' ''boom'')\<rparr>"

theorem failed_task_ends_idle_witness:
  "consume_from_redis unser_fail_demo 0 False None
      [[\<lparr>en_id = ''1-0'', en_fields = [(''pb'', ''s''), (''seq'', ''0'')]\<rparr>], [\<lparr>en_id = ''2-0'', en_fields = [(''pb'', ''c''), (''seq'', ''1'')]\<rparr>]]
    = ([(1, start_struct ''now'' req_demo), (2, code_struct ''Error'' ''Module execution failed'' ''boom'')], False)"
proof -
  let ?r = "start_stream map_ops ser_fail_demo env_start_demo req_demo sr_init []"
  let ?es = "[\<lparr>en_id = ''1-0'', en_fields = [(''pb'', ''s''), (''seq'', ''0'')]\<rparr>, \<lparr>en_id = ''2-0'', en_fields = [(''pb'', ''c''), (''seq'', ''1'')]\<rparr>] :: stream_entry list"
  let ?evs = "[Initialize, InitHandlers, Handle, SendCode ''Error'' ''Module execution failed'' ''boom'']"
  let ?code = "code_struct ''Error'' ''Module execution failed'' ''boom''"
  have run: "bm_start failing_demo (bm_init False False) = (?evs, None,
      \<lparr>bm_status = FAILED, bm_prepared = True, bm_callback = True, bm_builds_cache = False, bm_prebuilt = False\<rparr>)"
    by code_simp
  have live: "live_module (bm_init False False)" by code_simp
  have fails: "prepare_result failing_demo (bm_init False False) \<notin> {None, Some ModCancelled}
      \<or> prepare_result failing_demo (bm_init False False) = None \<and> run_result failing_demo \<notin> {None, Some ModCancelled}"
    by code_simp
  have acc: "fst ?r" by code_simp
  then have r: "?r = (True, fst (snd ?r), fst (snd (snd ?r)), snd (snd (snd ?r)))" by (cases ?r) auto
  have cmds: "snd (snd (snd ?r)) = [seed_cmd ser_fail_demo (se_started_at env_start_demo) req_demo]" by (rule start_stream_seed [OF r])
  have t: "sq_task_id req_demo = ''t''" "se_started_at env_start_demo = ''now''" by (simp_all add: req_demo_def env_start_demo_def)
  have sent: "sent [] end_struct ?evs = [?code]" by simp
  have open_: "is_end_output ?code = Some False" by code_simp
  have sers: "ser_fail_demo (start_struct ''now'' req_demo) = ''s''" "ser_fail_demo ?code = ''c''" by code_simp+
  have wire: "\<forall>d\<in>set (start_struct (se_started_at env_start_demo) req_demo # sent [] end_struct ?evs). wire_ok ser_fail_demo unser_fail_demo d"
    by (simp add: sent t wire_ok_def sers unser_fail_demo_def)
  have "py_str 1 = ''1''" by code_simp
  then have st: "stored_as ?es (appended (stream_key (sq_task_id req_demo))
      (snd (snd (snd ?r)) @ task_output ser_fail_demo ttl_demo (sq_task_id req_demo) (sent [] end_struct ?evs)))"
    using task_output_open [of "[?code]" "''t''" ser_fail_demo ttl_demo] open_
    by (simp add: cmds seed_cmd_def t stored_as_def sers)
  have no_outs: "\<forall>d\<in>set []. is_end_output d = Some False" by simp
  from failed_task_ends_idle [OF live run fails r no_outs wire st, of "[[hd ?es], tl ?es]"] show ?thesis
    by (simp add: label_from_def t)
qed

end
